(* ===== verification/Prelude.thy ===== *)
theory Prelude
  imports Main "HOL-Library.Multiset"
begin

text \<open>
  Shared vocabulary of the development.

  \<^item> Fact collections: \<open>inv_defs\<close> holds the definitions of the components' invariants,
    \<open>op_defs\<close> the definitions of small operations that proofs unfold as a matter of course.
  \<^item> Lua sequences: a Lua table used as an array is modelled as a list of optional values;
    key \<open>k\<close> (counted from 1) is position \<open>k - 1\<close>, a key beyond the list is absent.
    \<open>lua_border\<close> is the language manual's specification of the length operator (any border is
    a legal answer), \<open>lua_len\<close> the least border.
  \<^item> General list lemmas used by more than one component.
\<close>

named_theorems inv_defs \<open>definitions of component invariants\<close>
named_theorems op_defs \<open>definitions of small component operations\<close>

section \<open>Lists\<close>

lemma butlast_conv_take_pred: "xs \<noteq> [] \<Longrightarrow> butlast xs = take (length xs - 1) xs"
  by (simp add: butlast_conv_take)

lemma distinct_snoc_butlast: "distinct xs \<Longrightarrow> xs \<noteq> [] \<Longrightarrow> last xs \<notin> set (butlast xs)"
  by (cases xs rule: rev_cases) auto

lemma set_butlast_distinct: "distinct xs \<Longrightarrow> xs \<noteq> [] \<Longrightarrow> set (butlast xs) = set xs - {last xs}"
  by (cases xs rule: rev_cases) auto

section \<open>Lua tables used as arrays\<close>

type_synonym 'v lua_array = "'v option list"

definition lua_get :: "'v lua_array \<Rightarrow> nat \<Rightarrow> 'v option" where
  "lua_get t k = (if 1 \<le> k \<and> k \<le> length t then t ! (k - 1) else None)"

definition lua_set :: "'v lua_array \<Rightarrow> nat \<Rightarrow> 'v option \<Rightarrow> 'v lua_array" where
  "lua_set t k v =
     (if k \<le> length t then t[k - 1 := v]
      else t @ replicate (k - 1 - length t) None @ [v])"

definition lua_border :: "'v lua_array \<Rightarrow> nat \<Rightarrow> bool" where
  "lua_border t n \<longleftrightarrow> (n = 0 \<or> lua_get t n \<noteq> None) \<and> lua_get t (n + 1) = None"

definition lua_len :: "'v lua_array \<Rightarrow> nat" where
  "lua_len t = length (takeWhile (\<lambda>v. v \<noteq> None) t)"

lemma lua_get_zero [simp]: "lua_get t 0 = None"
  by (simp add: lua_get_def)

lemma lua_get_beyond: "length t < k \<Longrightarrow> lua_get t k = None"
  by (simp add: lua_get_def)

lemma lua_get_set:
  assumes k: "1 \<le> k"
  shows "lua_get (lua_set t k v) j = (if j = k then v else lua_get t j)"
proof (cases "k \<le> length t")
  case True
  then have "lua_set t k v = t[k - 1 := v]" by (simp add: lua_set_def)
  moreover have "j \<noteq> k \<Longrightarrow> 1 \<le> j \<Longrightarrow> k - 1 \<noteq> j - 1" using k by linarith
  ultimately show ?thesis using True k by (auto simp: lua_get_def)
next
  case False
  let ?pad = "replicate (k - 1 - length t) (None :: 'a option)"
  have set: "lua_set t k v = (t @ ?pad) @ [v]" using False by (simp add: lua_set_def)
  have len: "length (t @ ?pad) = k - 1" using False by simp
  consider "j = 0" | "1 \<le> j" "j < k" | "j = k" | "k < j" by linarith
  then show ?thesis
  proof cases
    case 2
    then have "((t @ ?pad) @ [v]) ! (j - 1) = (t @ ?pad) ! (j - 1)"
      using len by (intro nth_append_left) linarith
    moreover have "(t @ ?pad) ! (j - 1) = (if j \<le> length t then t ! (j - 1) else None)"
    proof (cases "j \<le> length t")
      case True
      then show ?thesis using 2 by (simp add: nth_append_left)
    next
      case False
      then have "(t @ ?pad) ! (j - 1) = ?pad ! (j - 1 - length t)"
        by (intro nth_append_right) linarith
      then show ?thesis using 2 False by simp
    qed
    ultimately show ?thesis using 2 False by (simp add: lua_get_def set)
  next
    case 3
    then show ?thesis using len k by (simp add: lua_get_def set nth_append_right)
  qed (use False k in \<open>auto simp: lua_get_def set\<close>)
qed

lemma length_lua_set:
  "1 \<le> k \<Longrightarrow> length (lua_set t k v) = max (length t) k"
  by (auto simp: lua_set_def)

lemma lua_len_le: "lua_len t \<le> length t"
  by (simp add: lua_len_def length_takeWhile_le)

lemma lua_len_border: "lua_border t (lua_len t)"
proof -
  define n where "n = length (takeWhile (\<lambda>v. v \<noteq> None) t)"
  have le: "n \<le> length t" by (simp add: n_def length_takeWhile_le)
  have last: "t ! (n - 1) \<noteq> None" if "n \<noteq> 0"
  proof -
    have lt: "n - 1 < length (takeWhile (\<lambda>v. v \<noteq> None) t)" using that by (simp add: n_def)
    then have "takeWhile (\<lambda>v. v \<noteq> None) t ! (n - 1) = t ! (n - 1)"
      by (rule takeWhile_nth)
    moreover have "takeWhile (\<lambda>v. v \<noteq> None) t ! (n - 1) \<in> set (takeWhile (\<lambda>v. v \<noteq> None) t)"
      using lt by (rule nth_mem)
    ultimately show ?thesis by (metis set_takeWhileD)
  qed
  have stop: "t ! n = None" if "n < length t"
    using that nth_length_takeWhile [of "\<lambda>v. v \<noteq> None" t] by (simp add: n_def)
  have "n = 0 \<or> lua_get t n \<noteq> None" using last le by (simp add: lua_get_def)
  moreover have "lua_get t (n + 1) = None"
    using stop by (simp add: lua_get_def)
  ultimately show ?thesis by (simp add: lua_border_def lua_len_def n_def)
qed

lemma lua_len_map_Some [simp]: "lua_len (map Some xs @ replicate m None) = length xs"
  by (induction xs) (simp_all add: lua_len_def)

text \<open>A table without holes has exactly one border: the length operator is unambiguous.\<close>

lemma lua_border_dense:
  assumes "\<And>k. 1 \<le> k \<Longrightarrow> k \<le> n \<Longrightarrow> lua_get t k \<noteq> None"
    and "\<And>k. n < k \<Longrightarrow> lua_get t k = None"
  shows "lua_border t m \<longleftrightarrow> m = n"
proof
  assume b: "lua_border t m"
  show "m = n"
  proof (rule ccontr)
    assume "m \<noteq> n"
    then consider "m < n" | "n < m" by linarith
    then show False
    proof cases
      case 1
      then have "lua_get t (m + 1) \<noteq> None" using assms(1) [of "m + 1"] by simp
      with b show False by (simp add: lua_border_def)
    next
      case 2
      then have "lua_get t m = None" by (rule assms(2))
      with b 2 show False by (simp add: lua_border_def)
    qed
  qed
next
  assume "m = n"
  then show "lua_border t m"
    using assms by (cases "n = 0") (auto simp: lua_border_def)
qed

lemma lua_len_dense:
  assumes "\<And>k. 1 \<le> k \<Longrightarrow> k \<le> n \<Longrightarrow> lua_get t k \<noteq> None"
    and "\<And>k. n < k \<Longrightarrow> lua_get t k = None"
  shows "lua_len t = n"
  using lua_border_dense [OF assms] lua_len_border by blast

section \<open>Lua arrays as stacks\<close>

text \<open>\<open>lua_seq t xs\<close>: the table holds exactly the sequence \<open>xs\<close> at keys \<open>1 .. length xs\<close>.\<close>

definition lua_seq :: "'v lua_array \<Rightarrow> 'v list \<Rightarrow> bool" where
  "lua_seq t xs \<longleftrightarrow>
     (\<forall>k. lua_get t k = (if 1 \<le> k \<and> k \<le> length xs then Some (xs ! (k - 1)) else None))"

lemma lua_seq_Nil [simp]: "lua_seq [] []"
  by (simp add: lua_seq_def lua_get_def)

lemma lua_seq_border: "lua_seq t xs \<Longrightarrow> lua_border t m \<longleftrightarrow> m = length xs"
  by (rule lua_border_dense) (auto simp: lua_seq_def)

lemma lua_seq_len: "lua_seq t xs \<Longrightarrow> lua_len t = length xs"
  using lua_seq_border lua_len_border by blast

lemma lua_seq_last: "lua_seq t xs \<Longrightarrow> xs \<noteq> [] \<Longrightarrow> lua_get t (length xs) = Some (last xs)"
  by (simp add: lua_seq_def last_conv_nth Suc_le_eq)

lemma lua_seq_push:
  assumes "lua_seq t xs"
  shows "lua_seq (lua_set t (lua_len t + 1) (Some x)) (xs @ [x])"
proof -
  have "lua_get t k = (if 1 \<le> k \<and> k \<le> length xs then Some (xs ! (k - 1)) else None)" for k
    using assms by (simp add: lua_seq_def)
  then show ?thesis
    by (auto simp: lua_seq_def lua_get_set lua_seq_len [OF assms] nth_append)
qed

lemma lua_seq_pop:
  assumes "lua_seq t xs" and "xs \<noteq> []"
  shows "lua_seq (lua_set t (length xs) None) (butlast xs)"
proof -
  have get: "lua_get t k = (if 1 \<le> k \<and> k \<le> length xs then Some (xs ! (k - 1)) else None)" for k
    using assms(1) by (simp add: lua_seq_def)
  have "1 \<le> length xs" using assms(2) by (simp add: Suc_le_eq)
  then show ?thesis
    by (auto simp: lua_seq_def lua_get_set get nth_butlast)
qed

end
