(* ===== verification/LightThread.thy ===== *)
theory LightThread
  imports Prelude
begin

text \<open>
  The light-thread table of \<^verbatim>\<open>asio.lua\<close> (lines 58--121): thread ids handed to the C++ side as
  \<open>dest_id\<close> are positions of \<open>th_tbl\<close>; finished threads give their id back through the stack
  \<open>th_free_id\<close>; \<open>th_to_id\<close> is the inverse map.

  The model keeps the three tables as they are (Lua arrays with absent entries, and a map), with
  the length operator evaluated to the least border; \<open>th_inv\<close> is what makes every border unique,
  so that the choice does not matter. \<open>None\<close> of \<open>use_tid\<close> and \<open>create_th\<close> is the Lua error
  raised by indexing a table with nil.
\<close>

section \<open>State and operations\<close>

record 'th threads =
  th_tbl :: "'th lua_array"
  th_free_id :: "nat lua_array"
  th_to_id :: "'th \<rightharpoonup> nat"

definition init_threads :: "'th threads" where
  "init_threads = \<lparr>th_tbl = [], th_free_id = [], th_to_id = Map.empty\<rparr>"

definition get_tid :: "'th threads \<Rightarrow> 'th \<Rightarrow> nat option" where
  "get_tid s th = th_to_id s th"

definition get_free_tid :: "'th threads \<Rightarrow> nat option \<times> nat" where
  "get_free_tid s =
     (let last_free = lua_len (th_free_id s);
          tid = (if last_free = 0 then Some (lua_len (th_tbl s) + 1)
                 else lua_get (th_free_id s) last_free)
      in (tid, last_free))"

definition use_tid :: "nat option \<Rightarrow> nat \<Rightarrow> 'th \<Rightarrow> 'th threads \<Rightarrow> 'th threads option" where
  "use_tid tid last_free th s =
     (let s' = (if last_free > 0
                then s\<lparr>th_free_id := lua_set (th_free_id s) last_free None\<rparr> else s)
      in case tid of
           None \<Rightarrow> None
         | Some t \<Rightarrow> Some (s'\<lparr>th_tbl := lua_set (th_tbl s') t (Some th),
                              th_to_id := (th_to_id s')(th \<mapsto> t)\<rparr>))"

definition remove_th :: "nat \<Rightarrow> 'th threads \<Rightarrow> 'th threads" where
  "remove_th tid s =
     (case lua_get (th_tbl s) tid of
        None \<Rightarrow> s
      | Some th \<Rightarrow>
          s\<lparr>th_to_id := (th_to_id s)(th := None),
            th_tbl := lua_set (th_tbl s) tid None,
            th_free_id := lua_set (th_free_id s) (lua_len (th_free_id s) + 1) (Some tid)\<rparr>)"

definition create_th :: "'th \<Rightarrow> 'th threads \<Rightarrow> (nat \<times> 'th threads) option" where
  "create_th th s =
     (let (tid, useid) = get_free_tid s
      in case use_tid tid useid th s of
           None \<Rightarrow> None
         | Some s' \<Rightarrow> map_option (\<lambda>t. (t, s')) tid)"

text \<open>How a resumed coroutine comes back: it yields, its body returns, or it raises.
  \<open>_light_thread\<close> removes the thread only after a normal return of the body.\<close>

datatype outcome = Yielded | Returned | Raised

definition light_thread :: "nat \<Rightarrow> outcome \<Rightarrow> 'th threads \<Rightarrow> 'th threads" where
  "light_thread tid out s = (if out = Returned then remove_th tid s else s)"

text \<open>\<open>spawn_light_thread\<close> for a body that touches no other thread: the first resumption of the
  new coroutine ends with \<open>out\<close>. A raised error is printed and otherwise ignored.\<close>

definition spawn_light_thread :: "'th \<Rightarrow> outcome \<Rightarrow> 'th threads \<Rightarrow> 'th threads option" where
  "spawn_light_thread th out s =
     (case create_th th s of
        None \<Rightarrow> None
      | Some (tid, s') \<Rightarrow> Some (light_thread tid out s'))"

fun spawn_all :: "'th list \<Rightarrow> outcome \<Rightarrow> 'th threads \<Rightarrow> 'th threads option" where
  "spawn_all [] out s = Some s"
| "spawn_all (th # ths) out s =
     (case spawn_light_thread th out s of
        None \<Rightarrow> None
      | Some s' \<Rightarrow> spawn_all ths out s')"

text \<open>
  The table as a machine. Bodies of light threads may spawn and finish other threads before they
  themselves yield, so the steps are single table events: the creation of a thread with a fresh
  coroutine object, and the end of a resumption of a live thread.
\<close>

inductive th_step :: "'th threads \<Rightarrow> 'th threads \<Rightarrow> bool" where
  spawn: "get_tid s th = None \<Longrightarrow> create_th th s = Some (tid, s') \<Longrightarrow> th_step s s'"
| settle: "get_tid s th = Some tid \<Longrightarrow> th_step s (light_thread tid out s)"

inductive th_reachable :: "'th threads \<Rightarrow> bool" where
  start: "th_reachable init_threads"
| step: "th_reachable s \<Longrightarrow> th_step s s' \<Longrightarrow> th_reachable s'"

section \<open>The invariant\<close>

text \<open>The free stack holds exactly the unused positions of \<open>th_tbl\<close>, each once, and \<open>th_to_id\<close> is the
  inverse of \<open>th_tbl\<close>.\<close>

definition th_inv :: "'th threads \<Rightarrow> bool" where
  "th_inv s \<longleftrightarrow>
     (\<exists>fl. lua_seq (th_free_id s) fl \<and> distinct fl
        \<and> set fl = {t. 1 \<le> t \<and> t \<le> length (th_tbl s) \<and> lua_get (th_tbl s) t = None})
     \<and> (\<forall>th t. th_to_id s th = Some t \<longleftrightarrow> lua_get (th_tbl s) t = Some th)"

lemma th_invE:
  assumes "th_inv s"
  obtains fl where "lua_seq (th_free_id s) fl" "distinct fl"
    "set fl = {t. 1 \<le> t \<and> t \<le> length (th_tbl s) \<and> lua_get (th_tbl s) t = None}"
  using assms by (auto simp: th_inv_def)

lemma th_inv_bij: "th_inv s \<Longrightarrow> th_to_id s th = Some t \<longleftrightarrow> lua_get (th_tbl s) t = Some th"
  by (simp add: th_inv_def)

lemma th_invI:
  assumes "lua_seq (th_free_id s) fl" "distinct fl"
    "set fl = {t. 1 \<le> t \<and> t \<le> length (th_tbl s) \<and> lua_get (th_tbl s) t = None}"
    "\<And>th t. th_to_id s th = Some t \<longleftrightarrow> lua_get (th_tbl s) t = Some th"
  shows "th_inv s"
  using assms by (auto simp: th_inv_def)

lemma init_th_inv: "th_inv init_threads"
  by (auto simp: th_inv_def init_threads_def lua_get_def intro!: exI [of _ "[]"])

text \<open>With an empty free stack the thread table has no holes, so its length is its extent.\<close>

lemma full_table_len:
  assumes "th_inv s" and "lua_seq (th_free_id s) []"
  shows "lua_len (th_tbl s) = length (th_tbl s)"
    and "\<And>t. 1 \<le> t \<Longrightarrow> t \<le> length (th_tbl s) \<Longrightarrow> lua_get (th_tbl s) t \<noteq> None"
proof -
  from assms(1) obtain fl where fl: "lua_seq (th_free_id s) fl"
    "set fl = {t. 1 \<le> t \<and> t \<le> length (th_tbl s) \<and> lua_get (th_tbl s) t = None}"
    by (rule th_invE)
  have "length fl = length ([]::nat list)"
    using lua_seq_len [OF fl(1)] lua_seq_len [OF assms(2)] by simp
  then have occ: "lua_get (th_tbl s) t \<noteq> None" if "1 \<le> t" "t \<le> length (th_tbl s)" for t
    using fl(2) that by auto
  then show "\<And>t. 1 \<le> t \<Longrightarrow> t \<le> length (th_tbl s) \<Longrightarrow> lua_get (th_tbl s) t \<noteq> None" .
  show "lua_len (th_tbl s) = length (th_tbl s)"
    by (rule lua_len_dense) (auto simp: occ lua_get_beyond)
qed

text \<open>What \<open>create_th\<close> does under the invariant, in one statement the other lemmas use.\<close>

lemma create_th_cases:
  assumes inv: "th_inv s"
  obtains tid fl fl' where
    "create_th th s = Some (tid,
       s\<lparr>th_free_id := fl', th_tbl := lua_set (th_tbl s) tid (Some th),
         th_to_id := (th_to_id s)(th \<mapsto> tid)\<rparr>)"
    "1 \<le> tid" "lua_get (th_tbl s) tid = None"
    "lua_seq fl' fl" "distinct fl"
    "set fl = {t. 1 \<le> t \<and> t \<le> length (th_tbl s) \<and> lua_get (th_tbl s) t = None} - {tid}"
    "tid \<le> Suc (length (th_tbl s))"
    "length (th_tbl s) < tid \<longrightarrow> (\<forall>t. 1 \<le> t \<and> t \<le> length (th_tbl s) \<longrightarrow> lua_get (th_tbl s) t \<noteq> None)"
proof -
  from inv obtain fl where fl: "lua_seq (th_free_id s) fl" "distinct fl"
    "set fl = {t. 1 \<le> t \<and> t \<le> length (th_tbl s) \<and> lua_get (th_tbl s) t = None}"
    by (rule th_invE)
  note len = lua_seq_len [OF fl(1)]
  show thesis
  proof (cases "fl = []")
    case True
    then have seq: "lua_seq (th_free_id s) []" using fl(1) by simp
    have "lua_len (th_tbl s) = length (th_tbl s)" by (rule full_table_len(1) [OF inv seq])
    then have "create_th th s = Some (length (th_tbl s) + 1,
       s\<lparr>th_free_id := th_free_id s, th_tbl := lua_set (th_tbl s) (length (th_tbl s) + 1) (Some th),
         th_to_id := (th_to_id s)(th \<mapsto> length (th_tbl s) + 1)\<rparr>)"
      using len True by (simp add: create_th_def get_free_tid_def use_tid_def)
    then show thesis
      using fl True full_table_len(2) [OF inv seq]
      by (intro that [where fl = "[]"]) (auto simp: lua_get_beyond)
  next
    case False
    let ?tid = "last fl"
    have get: "lua_get (th_free_id s) (length fl) = Some ?tid"
      by (rule lua_seq_last [OF fl(1) False])
    have tid: "?tid \<in> set fl" using False by simp
    have "create_th th s = Some (?tid,
       s\<lparr>th_free_id := lua_set (th_free_id s) (length fl) None,
         th_tbl := lua_set (th_tbl s) ?tid (Some th),
         th_to_id := (th_to_id s)(th \<mapsto> ?tid)\<rparr>)"
      using len False get by (simp add: create_th_def get_free_tid_def use_tid_def)
    then show thesis
      using fl tid False lua_seq_pop [OF fl(1) False]
      by (intro that [where fl = "butlast fl"]) (auto simp: set_butlast_distinct distinct_butlast)
  qed
qed

lemma create_th_inv:
  assumes "th_inv s" "get_tid s th = None" "create_th th s = Some (tid, s')"
  shows "th_inv s'"
proof -
  from assms(1) obtain t fl fl' where
    c: "create_th th s = Some (t, s\<lparr>th_free_id := fl', th_tbl := lua_set (th_tbl s) t (Some th),
         th_to_id := (th_to_id s)(th \<mapsto> t)\<rparr>)"
    and t: "1 \<le> t" "lua_get (th_tbl s) t = None"
    and fl: "lua_seq fl' fl" "distinct fl"
      "set fl = {t. 1 \<le> t \<and> t \<le> length (th_tbl s) \<and> lua_get (th_tbl s) t = None} - {t}"
    and le: "t \<le> Suc (length (th_tbl s))"
    by (rule create_th_cases [where th = th])
  note bij = th_inv_bij [OF assms(1)]
  from assms(2) have fresh: "\<And>u. lua_get (th_tbl s) u \<noteq> Some th"
    by (metis bij get_tid_def option.distinct(1))
  have s': "s' = s\<lparr>th_free_id := fl', th_tbl := lua_set (th_tbl s) t (Some th),
         th_to_id := (th_to_id s)(th \<mapsto> t)\<rparr>"
    using assms(3) c by auto
  show ?thesis
  proof (rule th_invI [where fl = fl])
    show "set fl = {t. 1 \<le> t \<and> t \<le> length (th_tbl s') \<and> lua_get (th_tbl s') t = None}"
      using t le by (auto simp: s' fl(3) lua_get_set length_lua_set)
    show "\<And>th t. th_to_id s' th = Some t \<longleftrightarrow> lua_get (th_tbl s') t = Some th"
      using t fresh bij by (auto simp: s' lua_get_set)
  qed (use fl in \<open>simp_all add: s'\<close>)
qed

lemma remove_th_inv:
  assumes inv: "th_inv s"
  shows "th_inv (remove_th tid s)"
proof (cases "lua_get (th_tbl s) tid")
  case None
  then show ?thesis using inv by (simp add: remove_th_def)
next
  case (Some th)
  from inv obtain fl where fl: "lua_seq (th_free_id s) fl" "distinct fl"
    "set fl = {t. 1 \<le> t \<and> t \<le> length (th_tbl s) \<and> lua_get (th_tbl s) t = None}"
    by (rule th_invE)
  note bij = th_inv_bij [OF inv]
  have range: "1 \<le> tid" "tid \<le> length (th_tbl s)"
    using Some by (auto simp: lua_get_def split: if_splits)
  have uniq: "lua_get (th_tbl s) t = Some th \<longleftrightarrow> t = tid" for t
    using bij [of th t] bij [of th tid] Some by auto
  let ?s' = "remove_th tid s"
  have s': "th_free_id ?s' = lua_set (th_free_id s) (lua_len (th_free_id s) + 1) (Some tid)"
    "th_tbl ?s' = lua_set (th_tbl s) tid None"
    "th_to_id ?s' = (th_to_id s)(th := None)"
    using Some by (simp_all add: remove_th_def)
  show ?thesis
  proof (rule th_invI [where fl = "fl @ [tid]"])
    show "lua_seq (th_free_id ?s') (fl @ [tid])"
      using lua_seq_push [OF fl(1)] by (simp add: s')
    show "distinct (fl @ [tid])" using fl(2,3) Some by simp
    show "set (fl @ [tid]) = {t. 1 \<le> t \<and> t \<le> length (th_tbl ?s') \<and> lua_get (th_tbl ?s') t = None}"
      using range fl(3) by (auto simp: s' lua_get_set length_lua_set)
    show "\<And>th t. th_to_id ?s' th = Some t \<longleftrightarrow> lua_get (th_tbl ?s') t = Some th"
    proof -
      fix th' t
      show "th_to_id ?s' th' = Some t \<longleftrightarrow> lua_get (th_tbl ?s') t = Some th'"
      proof (cases "t = tid")
        case True
        then have "th' \<noteq> th \<Longrightarrow> th_to_id s th' \<noteq> Some t" using bij Some by auto
        then show ?thesis using True range by (simp add: s' lua_get_set)
      next
        case False
        then show ?thesis using range bij uniq by (auto simp: s' lua_get_set)
      qed
    qed
  qed
qed

lemma light_thread_inv: "th_inv s \<Longrightarrow> th_inv (light_thread tid out s)"
  by (simp add: light_thread_def remove_th_inv)

lemma th_step_inv: "th_step s s' \<Longrightarrow> th_inv s \<Longrightarrow> th_inv s'"
  by (induction rule: th_step.induct) (auto intro: create_th_inv light_thread_inv)

lemma th_reachable_inv: "th_reachable s \<Longrightarrow> th_inv s"
  by (induction rule: th_reachable.induct) (auto intro: init_th_inv th_step_inv)

lemma th_inv_lookup:
  assumes inv: "th_inv s" and c: "create_th th s = Some (tid, s')"
  shows "lua_get (th_tbl s) tid = None" and "1 \<le> tid" and "tid \<le> Suc (length (th_tbl s))"
    and "lua_get (th_tbl s') t = (if t = tid then Some th else lua_get (th_tbl s) t)"
    and "length (th_tbl s') = max (length (th_tbl s)) tid"
    and "length (th_tbl s) < tid \<Longrightarrow> 1 \<le> u \<Longrightarrow> u \<le> length (th_tbl s) \<Longrightarrow> lua_get (th_tbl s) u \<noteq> None"
    and "th_to_id s' = (th_to_id s)(th \<mapsto> tid)"
proof -
  from inv obtain u fl fl' where
    cr: "create_th th s = Some (u, s\<lparr>th_free_id := fl', th_tbl := lua_set (th_tbl s) u (Some th),
         th_to_id := (th_to_id s)(th \<mapsto> u)\<rparr>)"
    and u: "1 \<le> u" "lua_get (th_tbl s) u = None" "u \<le> Suc (length (th_tbl s))"
    and full: "length (th_tbl s) < u \<longrightarrow>
      (\<forall>t. 1 \<le> t \<and> t \<le> length (th_tbl s) \<longrightarrow> lua_get (th_tbl s) t \<noteq> None)"
    by (rule create_th_cases [where th = th])
  from c cr have eq: "tid = u" "s' = s\<lparr>th_free_id := fl', th_tbl := lua_set (th_tbl s) u (Some th),
         th_to_id := (th_to_id s)(th \<mapsto> u)\<rparr>"
    by auto
  show "lua_get (th_tbl s) tid = None" "1 \<le> tid" "tid \<le> Suc (length (th_tbl s))"
    "lua_get (th_tbl s') t = (if t = tid then Some th else lua_get (th_tbl s) t)"
    "length (th_tbl s') = max (length (th_tbl s)) tid"
    "th_to_id s' = (th_to_id s)(th \<mapsto> tid)"
    using u by (simp_all add: eq lua_get_set length_lua_set)
  show "length (th_tbl s) < tid \<Longrightarrow> 1 \<le> u \<Longrightarrow> u \<le> length (th_tbl s) \<Longrightarrow> lua_get (th_tbl s) u \<noteq> None" for u
    using full by (simp add: eq)
qed

lemma create_th_total: "th_inv s \<Longrightarrow> \<exists>tid s'. create_th th s = Some (tid, s')"
  by (erule create_th_cases) blast

lemma lua_get_remove_th:
  "lua_get (th_tbl (remove_th tid s)) t = (if t = tid then None else lua_get (th_tbl s) t)"
  by (cases "tid = 0") (auto simp: remove_th_def lua_get_set split: option.splits)

lemma length_remove_th: "length (th_tbl (remove_th tid s)) = length (th_tbl s)"
  by (auto simp: remove_th_def lua_get_def length_lua_set split: option.splits if_splits)

section \<open>The registry contract\<close>

text \<open>
  What the event loop relies on: an id given out by \<open>alloc\<close> is not in use, it leads back to the
  thread it was given to until it is released, and releasing an id touches no other thread.
\<close>

locale thread_registry =
  fixes inv :: "'s \<Rightarrow> bool"
    and alloc :: "'th \<Rightarrow> 's \<Rightarrow> (nat \<times> 's) option"
    and release :: "nat \<Rightarrow> 's \<Rightarrow> 's"
    and owner :: "'s \<Rightarrow> nat \<Rightarrow> 'th option"
    and tid_of :: "'s \<Rightarrow> 'th \<Rightarrow> nat option"
  assumes alloc_total: "inv s \<Longrightarrow> \<exists>tid s'. alloc th s = Some (tid, s')"
    and alloc_fresh: "inv s \<Longrightarrow> alloc th s = Some (tid, s') \<Longrightarrow> owner s tid = None"
    and alloc_owner: "inv s \<Longrightarrow> alloc th s = Some (tid, s')
      \<Longrightarrow> owner s' t = (if t = tid then Some th else owner s t)"
    and alloc_inv: "inv s \<Longrightarrow> tid_of s th = None \<Longrightarrow> alloc th s = Some (tid, s') \<Longrightarrow> inv s'"
    and release_owner: "owner (release tid s) t = (if t = tid then None else owner s t)"
    and release_inv: "inv s \<Longrightarrow> inv (release tid s)"
    and tid_of_owner: "inv s \<Longrightarrow> tid_of s th = Some t \<longleftrightarrow> owner s t = Some th"
begin

lemma owner_unique: "inv s \<Longrightarrow> owner s t = Some th \<Longrightarrow> owner s u = Some th \<Longrightarrow> t = u"
  by (metis option.inject tid_of_owner)

lemma alloc_keeps_others:
  "inv s \<Longrightarrow> alloc th s = Some (tid, s') \<Longrightarrow> owner s t = Some th' \<Longrightarrow> owner s' t = Some th'"
  using alloc_fresh alloc_owner by (metis option.distinct(1))

lemma alloc_tid_of:
  assumes "inv s" and "tid_of s th = None" and "alloc th s = Some (tid, s')"
  shows "tid_of s' th = Some tid"
proof -
  from assms have "inv s'" by (rule alloc_inv)
  moreover from alloc_owner [OF assms(1,3)] have "owner s' tid = Some th" by simp
  ultimately show ?thesis by (simp only: tid_of_owner)
qed

lemma release_forgets:
  assumes inv: "inv s" and th: "tid_of s th = Some t"
  shows "tid_of (release t s) th = None"
proof (rule ccontr)
  assume "tid_of (release t s) th \<noteq> None"
  then obtain u where "tid_of (release t s) th = Some u" by blast
  with release_inv [OF inv] have "owner (release t s) u = Some th" by (simp only: tid_of_owner)
  then have "u \<noteq> t" and "owner s u = Some th" by (simp_all add: release_owner split: if_splits)
  moreover from th inv have "owner s t = Some th" by (simp only: tid_of_owner)
  ultimately show False using owner_unique [OF inv] by blast
qed

end

interpretation tids: thread_registry th_inv create_th remove_th "\<lambda>s. lua_get (th_tbl s)" get_tid
proof unfold_locales
  fix s :: "'th threads" and th :: 'th and tid s'
  assume inv: "th_inv s" and c: "create_th th s = Some (tid, s')"
  show "lua_get (th_tbl s) tid = None" by (rule th_inv_lookup(1) [OF inv c])
  show "lua_get (th_tbl s') t = (if t = tid then Some th else lua_get (th_tbl s) t)" for t
    by (rule th_inv_lookup(4) [OF inv c])
next
  show "\<And>s th. th_inv s \<Longrightarrow> \<exists>tid s'. create_th th s = Some (tid, s')"
    by (rule create_th_total)
  show "\<And>s th tid s'. th_inv s \<Longrightarrow> get_tid s th = None \<Longrightarrow> create_th th s = Some (tid, s') \<Longrightarrow> th_inv s'"
    by (rule create_th_inv)
  show "\<And>s tid. th_inv s \<Longrightarrow> th_inv (remove_th tid s)"
    by (rule remove_th_inv)
  show "\<And>tid s t. lua_get (th_tbl (remove_th tid s)) t = (if t = tid then None else lua_get (th_tbl s) t)"
    by (rule lua_get_remove_th)
  show "\<And>s th t. th_inv s \<Longrightarrow> get_tid s th = Some t \<longleftrightarrow> lua_get (th_tbl s) t = Some th"
    by (simp only: get_tid_def th_inv_bij)
qed

section \<open>Properties\<close>

text \<open>C6: in every reachable state of the light-thread table, creating a thread for a fresh
  coroutine succeeds, hands out an id no live thread has, makes the id and the thread lead to each
  other, leaves every other live thread its id, and extends the table only when every slot of it is
  taken.\<close>

theorem create_th_correct:
  assumes "th_reachable s" and "get_tid s th = None"
  shows "\<exists>tid s'. create_th th s = Some (tid, s')
    \<and> lua_get (th_tbl s) tid = None
    \<and> get_tid s' th = Some tid \<and> lua_get (th_tbl s') tid = Some th
    \<and> (\<forall>t th'. lua_get (th_tbl s) t = Some th' \<longrightarrow>
         lua_get (th_tbl s') t = Some th' \<and> get_tid s' th' = Some t)
    \<and> (length (th_tbl s) < tid \<longrightarrow>
         (\<forall>t. 1 \<le> t \<and> t \<le> length (th_tbl s) \<longrightarrow> lua_get (th_tbl s) t \<noteq> None))"
proof -
  from assms(1) have inv: "th_inv s" by (rule th_reachable_inv)
  then obtain tid s' where c: "create_th th s = Some (tid, s')" by (blast dest: create_th_total)
  then have inv': "th_inv s'" using assms(2) inv by (blast intro: create_th_inv)
  have new: "get_tid s' th = Some tid" by (rule tids.alloc_tid_of [OF inv assms(2) c])
  have own: "lua_get (th_tbl s') tid = Some th" using tids.alloc_owner [OF inv c] by simp
  have others: "lua_get (th_tbl s') t = Some th' \<and> get_tid s' th' = Some t"
    if "lua_get (th_tbl s) t = Some th'" for t th'
    using tids.alloc_keeps_others [OF inv c that] tids.tid_of_owner [OF inv'] by blast
  have full: "lua_get (th_tbl s) t \<noteq> None"
    if "length (th_tbl s) < tid" "1 \<le> t" "t \<le> length (th_tbl s)" for t
    using th_inv_lookup(6) [OF inv c] that by blast
  from c tids.alloc_fresh [OF inv c] new own others full show ?thesis by blast
qed

text \<open>The tables never make the Lua length operator ambiguous where the code uses it: in every
  reachable state the free stack has exactly one border, and when the free stack is empty (the only
  case in which \<open>#th_tbl\<close> is read) the thread table has exactly one border.\<close>

theorem length_operator_unambiguous:
  assumes "th_reachable s"
  shows "(lua_border (th_free_id s) n \<longleftrightarrow> n = lua_len (th_free_id s))
    \<and> (lua_len (th_free_id s) = 0 \<longrightarrow> (lua_border (th_tbl s) m \<longleftrightarrow> m = lua_len (th_tbl s)))"
proof -
  from assms have inv: "th_inv s" by (rule th_reachable_inv)
  then obtain fl where fl: "lua_seq (th_free_id s) fl" by (rule th_invE)
  have "lua_border (th_tbl s) m \<longleftrightarrow> m = lua_len (th_tbl s)" if "lua_len (th_free_id s) = 0"
  proof -
    from that have seq: "lua_seq (th_free_id s) []" using fl lua_seq_len by fastforce
    have "lua_border (th_tbl s) m \<longleftrightarrow> m = length (th_tbl s)"
      by (rule lua_border_dense) (rule full_table_len(2) [OF inv seq], simp_all add: lua_get_beyond)
    then show ?thesis by (simp add: full_table_len(1) [OF inv seq])
  qed
  then show ?thesis using lua_seq_border [OF fl] lua_seq_len [OF fl] by simp
qed

lemma spawn_raised:
  assumes inv: "th_inv s" and fresh: "get_tid s th = None"
    and full: "\<And>t. 1 \<le> t \<Longrightarrow> t \<le> length (th_tbl s) \<Longrightarrow> lua_get (th_tbl s) t \<noteq> None"
  obtains s' where "spawn_light_thread th Raised s = Some s'" "th_inv s'"
    "length (th_tbl s') = Suc (length (th_tbl s))"
    "\<forall>t. 1 \<le> t \<and> t \<le> length (th_tbl s') \<longrightarrow> lua_get (th_tbl s') t \<noteq> None"
    "\<forall>th'. th' \<noteq> th \<longrightarrow> get_tid s' th' = get_tid s th'"
proof -
  from inv obtain tid s' where c: "create_th th s = Some (tid, s')" by (blast dest: create_th_total)
  note l = th_inv_lookup [OF inv c]
  have tid: "tid = Suc (length (th_tbl s))"
    using full l(1,2,3) by (metis le_antisym not_less_eq_eq)
  have "spawn_light_thread th Raised s = Some s'"
    using c by (simp add: spawn_light_thread_def light_thread_def)
  moreover have "th_inv s'" by (rule create_th_inv [OF inv fresh c])
  moreover have "length (th_tbl s') = Suc (length (th_tbl s))" using l(5) tid by simp
  moreover have "\<forall>t. 1 \<le> t \<and> t \<le> length (th_tbl s') \<longrightarrow> lua_get (th_tbl s') t \<noteq> None"
    using full by (auto simp: l(4,5) tid)
  moreover have "\<forall>th'. th' \<noteq> th \<longrightarrow> get_tid s' th' = get_tid s th'"
    using l(7) by (simp add: get_tid_def)
  ultimately show thesis by (rule that)
qed

lemma spawn_returned:
  assumes inv: "th_inv s" and fresh: "get_tid s th = None"
    and one: "length (th_tbl s) \<le> 1" "\<And>t. lua_get (th_tbl s) t = None"
  obtains s' where "spawn_light_thread th Returned s = Some s'" "th_inv s'"
    "length (th_tbl s') = 1" "\<forall>t. lua_get (th_tbl s') t = None" "\<forall>th'. get_tid s' th' = None"
proof -
  from inv obtain tid s1 where c: "create_th th s = Some (tid, s1)" by (blast dest: create_th_total)
  note l = th_inv_lookup [OF inv c]
  have tid: "tid = 1"
  proof (rule ccontr)
    assume "tid \<noteq> 1"
    with l(2,3) one(1) have "length (th_tbl s) < tid" "length (th_tbl s) = 1" by simp_all
    then show False using l(6) [of 1] one(2) by simp
  qed
  let ?s' = "remove_th tid s1"
  have inv': "th_inv ?s'" by (rule remove_th_inv [OF create_th_inv [OF inv fresh c]])
  have none: "lua_get (th_tbl ?s') t = None" for t
    using one(2) by (simp add: lua_get_remove_th l(4))
  have "spawn_light_thread th Returned s = Some ?s'"
    using c by (simp add: spawn_light_thread_def light_thread_def)
  moreover have "length (th_tbl ?s') = 1" using one(1) by (simp add: length_remove_th l(5) tid)
  moreover have "\<forall>th'. get_tid ?s' th' = None"
    using none th_inv_bij [OF inv'] by (metis get_tid_def not_None_eq)
  ultimately show thesis using none inv' by (intro that) auto
qed

lemma spawn_all_raised:
  assumes "th_inv s" and "\<forall>th \<in> set ths. get_tid s th = None" and "distinct ths"
    and "\<forall>t. 1 \<le> t \<and> t \<le> length (th_tbl s) \<longrightarrow> lua_get (th_tbl s) t \<noteq> None"
  shows "\<exists>s'. spawn_all ths Raised s = Some s' \<and> length (th_tbl s') = length (th_tbl s) + length ths
    \<and> (\<forall>t. 1 \<le> t \<and> t \<le> length (th_tbl s') \<longrightarrow> lua_get (th_tbl s') t \<noteq> None)"
  using assms
proof (induction ths arbitrary: s)
  case Nil
  then show ?case by simp
next
  case (Cons th ths)
  then have "get_tid s th = None" "\<And>t. 1 \<le> t \<Longrightarrow> t \<le> length (th_tbl s) \<Longrightarrow> lua_get (th_tbl s) t \<noteq> None"
    by simp_all
  with Cons.prems(1) obtain s' where s': "spawn_light_thread th Raised s = Some s'" "th_inv s'"
    "length (th_tbl s') = Suc (length (th_tbl s))"
    "\<forall>t. 1 \<le> t \<and> t \<le> length (th_tbl s') \<longrightarrow> lua_get (th_tbl s') t \<noteq> None"
    "\<forall>th'. th' \<noteq> th \<longrightarrow> get_tid s' th' = get_tid s th'"
    by (rule spawn_raised)
  have "\<forall>th' \<in> set ths. get_tid s' th' = None" using Cons.prems(2,3) s'(5) by auto
  from Cons.IH [OF s'(2) this _ s'(4)] Cons.prems(3) s'(1,3) show ?case by simp
qed

lemma spawn_all_returned:
  assumes "th_inv s" and "\<forall>th. get_tid s th = None" and "length (th_tbl s) \<le> 1"
    and "\<forall>t. lua_get (th_tbl s) t = None"
  shows "\<exists>s'. spawn_all ths Returned s = Some s' \<and> length (th_tbl s') \<le> 1
    \<and> (\<forall>t. lua_get (th_tbl s') t = None)"
  using assms
proof (induction ths arbitrary: s)
  case Nil
  then show ?case by simp
next
  case (Cons th ths)
  then obtain s' where s': "spawn_light_thread th Returned s = Some s'" "th_inv s'"
    "length (th_tbl s') = 1" "\<forall>t. lua_get (th_tbl s') t = None" "\<forall>th'. get_tid s' th' = None"
    using spawn_returned [of s th] by metis
  from Cons.IH [OF s'(2,5) _ s'(4)] s'(1,3) show ?case by simp
qed

text \<open>A light thread whose body returns gives its slot back, so any number of such threads run
  one after the other in a single slot; a light thread whose body raises an error is never removed,
  so every one of them keeps its own slot for good.\<close>

theorem raised_threads_leak_their_slot:
  assumes "distinct ths"
  shows "(\<exists>s. spawn_all ths Raised init_threads = Some s \<and> length (th_tbl s) = length ths
      \<and> (\<forall>t. 1 \<le> t \<and> t \<le> length ths \<longrightarrow> lua_get (th_tbl s) t \<noteq> None))
    \<and> (\<exists>s. spawn_all ths Returned init_threads = Some s \<and> length (th_tbl s) \<le> 1
      \<and> (\<forall>t. lua_get (th_tbl s) t = None))"
proof -
  have init: "get_tid (init_threads :: 'a threads) th = None"
    "th_tbl (init_threads :: 'a threads) = []" for th :: 'a
    by (simp_all add: init_threads_def get_tid_def)
  show ?thesis
    using spawn_all_raised [OF init_th_inv, of ths] spawn_all_returned [OF init_th_inv, of ths] assms
    by (auto simp: init lua_get_def)
qed

theorem raised_threads_leak_their_slot_witness:
  "(\<exists>s. spawn_all [''a'', ''b''] Raised init_threads = Some s \<and> length (th_tbl s) = 2)"
  using raised_threads_leak_their_slot [of "[''a'', ''b'']"] by auto

theorem length_operator_unambiguous_witness:
  "let s = \<lparr>th_tbl = [Some ''a''], th_free_id = [], th_to_id = [''a'' \<mapsto> 1]\<rparr>
   in th_reachable s \<and> (\<forall>m. lua_border (th_tbl s) m \<longleftrightarrow> m = 1)"
proof -
  let ?s = "\<lparr>th_tbl = [Some ''a''], th_free_id = [], th_to_id = [''a'' \<mapsto> 1]\<rparr>"
  have "create_th ''a'' init_threads = Some (1, ?s)"
    by (simp add: create_th_def get_free_tid_def use_tid_def init_threads_def lua_len_def lua_set_def)
  then have r: "th_reachable ?s"
    by (intro th_reachable.step [OF th_reachable.start] th_step.spawn)
      (simp_all add: get_tid_def init_threads_def)
  have "lua_border (th_tbl ?s) m \<longleftrightarrow> m = 1" for m
    using length_operator_unambiguous [OF r, of 0 m] by (simp add: lua_len_def)
  with r show ?thesis by simp
qed

theorem create_th_correct_witness:
  "\<exists>tid s'. create_th ''t1'' init_threads = Some (tid, s') \<and> get_tid s' ''t1'' = Some tid"
  using create_th_correct [OF th_reachable.start, of "''t1''"]
  by (auto simp: init_threads_def get_tid_def)

end
