(* ===== verification/OpQueue.thy ===== *)
theory OpQueue
  imports Prelude
begin

text \<open>
  The intrusive operation queue of \<^verbatim>\<open>asio/detail/op_queue.hpp\<close>: a queue is a pair of pointers, and the
  link of each operation lives in the operation itself (\<open>next_\<close>), so all queues share one store of
  links. \<open>None\<close> is the null pointer.

  \<open>oq_rep m q xs\<close> says that in the store \<open>m\<close> the queue \<open>q\<close> holds the operations \<open>xs\<close> in order. The
  lemmas show that every operation of the class acts on \<open>xs\<close> as the list operation it stands for and
  leaves the other queues of the store alone; the other theories therefore model an operation queue
  by the list of its operations.
\<close>

section \<open>State and operations\<close>

type_synonym 'a links = "'a \<Rightarrow> 'a option"

record 'a op_queue =
  front_ptr :: "'a option"
  back_ptr :: "'a option"

definition oq_new :: "'a op_queue" where
  "oq_new = \<lparr>front_ptr = None, back_ptr = None\<rparr>"

definition oq_front :: "'a op_queue \<Rightarrow> 'a option" where
  "oq_front q = front_ptr q"

definition oq_pop :: "'a links \<Rightarrow> 'a op_queue \<Rightarrow> 'a links \<times> 'a op_queue" where
  "oq_pop m q =
     (case front_ptr q of
        None \<Rightarrow> (m, q)
      | Some tmp \<Rightarrow>
          let q1 = q\<lparr>front_ptr := m tmp\<rparr>;
              q2 = (if front_ptr q1 = None then q1\<lparr>back_ptr := None\<rparr> else q1)
          in (m(tmp := None), q2))"

definition oq_push :: "'a links \<Rightarrow> 'a op_queue \<Rightarrow> 'a \<Rightarrow> 'a links \<times> 'a op_queue" where
  "oq_push m q h =
     (let m1 = m(h := None)
      in case back_ptr q of
           Some b \<Rightarrow> (m1(b := Some h), q\<lparr>back_ptr := Some h\<rparr>)
         | None \<Rightarrow> (m1, q\<lparr>front_ptr := Some h, back_ptr := Some h\<rparr>))"

text \<open>\<open>push(op_queue&)\<close>: the whole other queue is spliced on, and left empty.\<close>

definition oq_push_queue ::
  "'a links \<Rightarrow> 'a op_queue \<Rightarrow> 'a op_queue \<Rightarrow> 'a links \<times> 'a op_queue \<times> 'a op_queue" where
  "oq_push_queue m q other =
     (case front_ptr other of
        None \<Rightarrow> (m, q, other)
      | Some other_front \<Rightarrow>
          let (m1, q1) =
                (case back_ptr q of
                   Some b \<Rightarrow> (m(b := Some other_front), q)
                 | None \<Rightarrow> (m, q\<lparr>front_ptr := Some other_front\<rparr>))
          in (m1, q1\<lparr>back_ptr := back_ptr other\<rparr>, other\<lparr>front_ptr := None, back_ptr := None\<rparr>))"

definition oq_empty :: "'a op_queue \<Rightarrow> bool" where
  "oq_empty q \<longleftrightarrow> front_ptr q = None"

definition oq_is_enqueued :: "'a links \<Rightarrow> 'a op_queue \<Rightarrow> 'a \<Rightarrow> bool" where
  "oq_is_enqueued m q h \<longleftrightarrow> m h \<noteq> None \<or> back_ptr q = Some h"

text \<open>The destructor pops and destroys until the queue is empty; the result lists the destroyed
  operations in order.\<close>

partial_function (option) oq_destroy ::
  "'a links \<Rightarrow> 'a op_queue \<Rightarrow> 'a list \<Rightarrow> ('a links \<times> 'a list) option" where
  "oq_destroy m q done =
     (case front_ptr q of
        None \<Rightarrow> Some (m, done)
      | Some h \<Rightarrow> let (m', q') = oq_pop m q in oq_destroy m' q' (done @ [h]))"

declare oq_destroy.simps [code]

text \<open>The loop \<^verbatim>\<open>while (op = q.front()) { q.pop(); r.push(op); }\<close> the clients of the class use to move
  operations from one queue to another, over any queue operations.\<close>

fun drain_loop ::
  "('q \<Rightarrow> 'a option) \<Rightarrow> ('m \<Rightarrow> 'q \<Rightarrow> 'm \<times> 'q) \<Rightarrow> ('m \<Rightarrow> 'q \<Rightarrow> 'a \<Rightarrow> 'm \<times> 'q)
    \<Rightarrow> nat \<Rightarrow> 'm \<Rightarrow> 'q \<Rightarrow> 'q \<Rightarrow> ('m \<times> 'q \<times> 'q) option" where
  "drain_loop front pop push 0 m q r = None"
| "drain_loop front pop push (Suc fuel) m q r =
     (case front q of
        None \<Rightarrow> Some (m, q, r)
      | Some h \<Rightarrow>
          let (m1, q1) = pop m q; (m2, r1) = push m1 r h
          in drain_loop front pop push fuel m2 q1 r1)"

section \<open>The list a queue stands for\<close>

fun path :: "'a links \<Rightarrow> 'a option \<Rightarrow> 'a list \<Rightarrow> bool" where
  "path m p [] \<longleftrightarrow> p = None"
| "path m p (x # xs) \<longleftrightarrow> p = Some x \<and> path m (m x) xs"

definition oq_rep :: "'a links \<Rightarrow> 'a op_queue \<Rightarrow> 'a list \<Rightarrow> bool" where
  "oq_rep m q xs \<longleftrightarrow>
     path m (front_ptr q) xs \<and> distinct xs
     \<and> back_ptr q = (if xs = [] then None else Some (last xs))"

lemma path_frame [simp]: "h \<notin> set xs \<Longrightarrow> path (m(h := v)) p xs = path m p xs"
  by (induction xs arbitrary: p) auto

lemma path_last: "path m p xs \<Longrightarrow> xs \<noteq> [] \<Longrightarrow> m (last xs) = None"
  by (induction xs arbitrary: p) (auto split: if_splits)

lemma path_append_link:
  "path m p xs \<Longrightarrow> xs \<noteq> [] \<Longrightarrow> distinct xs \<Longrightarrow> last xs \<notin> set ys \<Longrightarrow> path m (Some y) ys
    \<Longrightarrow> path (m(last xs := Some y)) p (xs @ ys)"
proof (induction xs arbitrary: p)
  case (Cons x xs)
  show ?case
  proof (cases "xs = []")
    case True
    with Cons.prems have "x \<notin> set ys" "path m (Some y) ys" by simp_all
    then have "path (m(x := Some y)) (Some y) ys" by (simp del: fun_upd_apply)
    then show ?thesis using Cons.prems True by (simp add: fun_upd_def)
  next
    case False
    then have "last xs \<noteq> x" using Cons.prems(3) by auto
    then show ?thesis using Cons False by simp
  qed
qed simp

lemma oq_rep_new [simp]: "oq_rep m oq_new []"
  by (simp add: oq_rep_def oq_new_def)

lemma oq_rep_empty: "oq_rep m q xs \<Longrightarrow> oq_empty q \<longleftrightarrow> xs = []"
  by (cases xs) (auto simp: oq_rep_def oq_empty_def)

lemma oq_rep_front: "oq_rep m q xs \<Longrightarrow> oq_front q = (case xs of [] \<Rightarrow> None | x # _ \<Rightarrow> Some x)"
  by (cases xs) (auto simp: oq_rep_def oq_front_def)

lemma oq_rep_distinct: "oq_rep m q xs \<Longrightarrow> distinct xs"
  by (simp add: oq_rep_def)

lemma oq_rep_pop:
  assumes "oq_rep m q (x # xs)"
  shows "oq_rep (fst (oq_pop m q)) (snd (oq_pop m q)) xs" and "fst (oq_pop m q) = m(x := None)"
proof -
  from assms have p: "front_ptr q = Some x" "path m (m x) xs" "x \<notin> set xs" "distinct xs"
    "back_ptr q = Some (last (x # xs))"
    by (auto simp: oq_rep_def)
  have "m x = None \<longleftrightarrow> xs = []" using p(2) by (cases xs) auto
  with p show "oq_rep (fst (oq_pop m q)) (snd (oq_pop m q)) xs" and "fst (oq_pop m q) = m(x := None)"
    by (auto simp: oq_pop_def oq_rep_def Let_def)
qed

lemma oq_rep_push:
  assumes r: "oq_rep m q xs" and h: "h \<notin> set xs"
  shows "oq_rep (fst (oq_push m q h)) (snd (oq_push m q h)) (xs @ [h])"
proof (cases "xs = []")
  case True
  then show ?thesis using r by (simp add: oq_rep_def oq_push_def Let_def)
next
  case False
  with r have b: "back_ptr q = Some (last xs)" and p: "path m (front_ptr q) xs" "distinct xs"
    by (simp_all add: oq_rep_def)
  from False h have "last xs \<noteq> h" by auto
  then have "path ((m(h := None))(last xs := Some h)) (front_ptr q) (xs @ [h])"
    using p False h by (intro path_append_link) auto
  then show ?thesis using b p h by (simp add: oq_push_def oq_rep_def)
qed

lemma oq_push_frame:
  "oq_rep m q xs \<Longrightarrow> oq_rep m r ys \<Longrightarrow> h \<notin> set ys \<Longrightarrow> set xs \<inter> set ys = {}
    \<Longrightarrow> oq_rep (fst (oq_push m q h)) r ys"
  by (cases "xs = []") (auto simp: oq_rep_def oq_push_def Let_def disjoint_iff)

lemma oq_pop_frame:
  "oq_rep m q (x # xs) \<Longrightarrow> oq_rep m r ys \<Longrightarrow> x \<notin> set ys \<Longrightarrow> oq_rep (fst (oq_pop m q)) r ys"
  by (simp add: oq_rep_pop(2)) (simp add: oq_rep_def)

lemma oq_rep_push_queue:
  assumes q: "oq_rep m q xs" and r: "oq_rep m r ys" and dis: "set xs \<inter> set ys = {}"
    and res: "oq_push_queue m q r = (m', q', r')"
  shows "oq_rep m' q' (xs @ ys) \<and> oq_rep m' r' []"
proof (cases ys)
  case Nil
  then show ?thesis using q r res by (auto simp: oq_push_queue_def oq_rep_def)
next
  case (Cons y zs)
  then have fr: "front_ptr r = Some y" "back_ptr r = Some (last ys)" "path m (Some y) ys" "distinct ys"
    using r by (auto simp: oq_rep_def)
  show ?thesis
  proof (cases "xs = []")
    case True
    then show ?thesis using q fr res Cons by (auto simp: oq_push_queue_def oq_rep_def)
  next
    case False
    with q have b: "back_ptr q = Some (last xs)" and p: "path m (front_ptr q) xs" "distinct xs"
      by (simp_all add: oq_rep_def)
    have "last xs \<notin> set ys" using False dis last_in_set by blast
    then have "path (m(last xs := Some y)) (front_ptr q) (xs @ ys)"
      using p False fr by (intro path_append_link)
    then show ?thesis using b p fr dis res Cons by (auto simp: oq_push_queue_def oq_rep_def)
  qed
qed

section \<open>The queue contract\<close>

text \<open>
  What the clients of the class rely on, over a store shared by several queues: order of the
  elements, and that operations on one queue keep the others.
\<close>

locale fifo_store =
  fixes rep :: "'m \<Rightarrow> 'q \<Rightarrow> 'a list \<Rightarrow> bool"
    and front :: "'q \<Rightarrow> 'a option"
    and pop :: "'m \<Rightarrow> 'q \<Rightarrow> 'm \<times> 'q"
    and push :: "'m \<Rightarrow> 'q \<Rightarrow> 'a \<Rightarrow> 'm \<times> 'q"
  assumes rep_front: "rep m q xs \<Longrightarrow> front q = (case xs of [] \<Rightarrow> None | x # _ \<Rightarrow> Some x)"
    and rep_distinct: "rep m q xs \<Longrightarrow> distinct xs"
    and rep_pop: "rep m q (x # xs) \<Longrightarrow> rep (fst (pop m q)) (snd (pop m q)) xs"
    and rep_push: "rep m q xs \<Longrightarrow> h \<notin> set xs
      \<Longrightarrow> rep (fst (push m q h)) (snd (push m q h)) (xs @ [h])"
    and pop_frame: "rep m q (x # xs) \<Longrightarrow> rep m r ys \<Longrightarrow> x \<notin> set ys \<Longrightarrow> rep (fst (pop m q)) r ys"
    and push_frame: "rep m q xs \<Longrightarrow> rep m r ys \<Longrightarrow> h \<notin> set ys \<Longrightarrow> set xs \<inter> set ys = {}
      \<Longrightarrow> rep (fst (push m q h)) r ys"
begin

text \<open>Moving one queue to the end of another operation by operation is list append.\<close>

lemma drain_appends:
  assumes "rep m q xs" and "rep m r ys" and "set xs \<inter> set ys = {}" and "length xs < fuel"
  shows "\<exists>m' q' r'. drain_loop front pop push fuel m q r = Some (m', q', r')
    \<and> rep m' q' [] \<and> rep m' r' (ys @ xs)"
  using assms
proof (induction xs arbitrary: m q r ys fuel)
  case Nil
  then show ?case by (cases fuel) (auto simp: rep_front)
next
  case (Cons x xs)
  then obtain f where f: "fuel = Suc f" by (cases fuel) auto
  have fr: "front q = Some x" using rep_front [OF Cons.prems(1)] by simp
  obtain m1 q1 where pop: "pop m q = (m1, q1)" by fastforce
  obtain m2 r1 where push: "push m1 r x = (m2, r1)" by fastforce
  have x: "x \<notin> set ys" "x \<notin> set xs" "set xs \<inter> set ys = {}"
    using Cons.prems(3) rep_distinct [OF Cons.prems(1)] by auto
  have q1: "rep m1 q1 xs" using rep_pop [OF Cons.prems(1)] pop by simp
  have r0: "rep m1 r ys" using pop_frame [OF Cons.prems(1,2) x(1)] pop by simp
  have r1: "rep m2 r1 (ys @ [x])" using rep_push [OF r0 x(1)] push by simp
  have q2: "rep m2 q1 xs" using push_frame [OF r0 q1 x(2)] x(3) push by auto
  have "set xs \<inter> set (ys @ [x]) = {}" "length xs < f" using x f Cons.prems(4) by auto
  from Cons.IH [OF q2 r1 this] show ?case by (simp add: f fr pop push)
qed

end

interpretation oq: fifo_store oq_rep oq_front oq_pop oq_push
  by unfold_locales
    (fact oq_rep_front oq_rep_distinct oq_rep_pop(1) oq_rep_push oq_pop_frame oq_push_frame)+

section \<open>Properties\<close>

text \<open>The destructor terminates and destroys every queued operation exactly once, in queue order,
  leaving each of them unlinked.\<close>

theorem oq_destroy_all:
  assumes "oq_rep m q xs"
  shows "\<exists>m'. oq_destroy m q [] = Some (m', xs) \<and> (\<forall>x \<in> set xs. m' x = None)
    \<and> (\<forall>x. x \<notin> set xs \<longrightarrow> m' x = m x)"
proof -
  have "\<exists>m'. oq_destroy m q ds = Some (m', ds @ xs) \<and> (\<forall>x \<in> set xs. m' x = None)
    \<and> (\<forall>x. x \<notin> set xs \<longrightarrow> m' x = m x)" for ds
    using assms
  proof (induction xs arbitrary: m q ds)
    case Nil
    then have "front_ptr q = None" by (simp add: oq_rep_def)
    then show ?case by (simp add: oq_destroy.simps)
  next
    case (Cons x xs)
    obtain m1 q1 where pop: "oq_pop m q = (m1, q1)" by fastforce
    have fr: "front_ptr q = Some x" using Cons.prems by (simp add: oq_rep_def)
    have r: "oq_rep m1 q1 xs" and m1: "m1 = m(x := None)"
      using oq_rep_pop [OF Cons.prems] pop by simp_all
    have x: "x \<notin> set xs" using oq_rep_distinct [OF Cons.prems] by simp
    from Cons.IH [OF r, of "ds @ [x]"] obtain m' where
      "oq_destroy m1 q1 (ds @ [x]) = Some (m', ds @ x # xs)"
      "\<forall>y \<in> set xs. m' y = None" "\<forall>y. y \<notin> set xs \<longrightarrow> m' y = m1 y"
      by auto
    with x show ?case by (auto simp: oq_destroy.simps [of m q] fr pop m1)
  qed
  from this [of "[]"] show ?thesis by simp
qed

text \<open>Pushing one queue on another splices the lists and leaves the source empty, and every third
  queue of the store keeps its contents.\<close>

theorem oq_push_queue_splices:
  assumes "oq_rep m q xs" "oq_rep m r ys" "oq_rep m t zs"
    and "set xs \<inter> set ys = {}" "set xs \<inter> set zs = {}"
    and "oq_push_queue m q r = (m', q', r')"
  shows "oq_rep m' q' (xs @ ys) \<and> oq_rep m' r' [] \<and> oq_rep m' t zs"
proof -
  have "oq_rep m' t zs"
    using assms by (cases "xs = []")
      (auto simp: oq_rep_def oq_push_queue_def disjoint_iff split: option.splits)
  then show ?thesis using oq_rep_push_queue [OF assms(1,2,4,6)] by simp
qed

text \<open>\<open>is_enqueued\<close> answers membership, for an operation that is either in this queue or in none.\<close>

theorem oq_is_enqueued_iff:
  assumes "oq_rep m q xs" and "h \<notin> set xs \<Longrightarrow> m h = None"
  shows "oq_is_enqueued m q h \<longleftrightarrow> h \<in> set xs"
proof
  assume enq: "oq_is_enqueued m q h"
  show "h \<in> set xs"
  proof (rule ccontr)
    assume "h \<notin> set xs"
    then show False
      using assms enq by (auto simp: oq_is_enqueued_def oq_rep_def split: if_splits)
  qed
next
  assume h: "h \<in> set xs"
  have "m h \<noteq> None \<or> last xs = h" if "path m p xs" for p
    using that h by (induction xs arbitrary: p) (auto elim: path.elims)
  then show "oq_is_enqueued m q h"
    using assms(1) h by (auto simp: oq_is_enqueued_def oq_rep_def split: if_splits)
qed

text \<open>The loop that takes operations off one queue and pushes them on another, as the timer queue
  uses it, terminates and appends the first queue to the second.\<close>

theorem oq_drain_appends:
  assumes "oq_rep m q xs" "oq_rep m r ys" "set xs \<inter> set ys = {}"
  shows "\<exists>m' q' r'. drain_loop oq_front oq_pop oq_push (Suc (length xs)) m q r = Some (m', q', r')
    \<and> oq_rep m' q' [] \<and> oq_rep m' r' (ys @ xs)"
  by (rule oq.drain_appends [OF assms]) simp

subsection \<open>Witnesses\<close>

lemma oq_example:
  "oq_rep ((\<lambda>_. None)(1 := Some 2)) \<lparr>front_ptr = Some 1, back_ptr = Some 2\<rparr> [1, 2::nat]"
  "oq_rep ((\<lambda>_. None)(1 := Some 2)) \<lparr>front_ptr = Some 3, back_ptr = Some 3\<rparr> [3::nat]"
  by (simp_all add: oq_rep_def)

theorem oq_destroy_all_witness:
  "\<exists>m'. oq_destroy ((\<lambda>_. None)(1 := Some 2)) \<lparr>front_ptr = Some 1, back_ptr = Some (2::nat)\<rparr> []
     = Some (m', [1, 2]) \<and> m' 1 = None"
  using oq_destroy_all [OF oq_example(1)] by auto

theorem oq_push_queue_splices_witness:
  "case oq_push_queue ((\<lambda>_. None)(1 := Some 2)) \<lparr>front_ptr = Some 1, back_ptr = Some 2\<rparr>
       \<lparr>front_ptr = Some 3, back_ptr = Some (3::nat)\<rparr> of (m', q', r') \<Rightarrow> oq_rep m' q' [1, 2, 3]"
  using oq_push_queue_splices [OF oq_example oq_rep_new]
  by (auto split: prod.splits)

theorem oq_is_enqueued_iff_witness:
  "oq_is_enqueued ((\<lambda>_. None)(1 := Some 2)) \<lparr>front_ptr = Some 1, back_ptr = Some (2::nat)\<rparr> 2
   \<and> \<not> oq_is_enqueued ((\<lambda>_. None)(1 := Some 2)) \<lparr>front_ptr = Some 1, back_ptr = Some (2::nat)\<rparr> 5"
  using oq_is_enqueued_iff [OF oq_example(1), of 2] oq_is_enqueued_iff [OF oq_example(1), of 5] by simp

theorem oq_drain_appends_witness:
  "\<exists>m' q' r'. drain_loop oq_front oq_pop oq_push 3 ((\<lambda>_. None)(1 := Some 2))
     \<lparr>front_ptr = Some 1, back_ptr = Some (2::nat)\<rparr> \<lparr>front_ptr = Some 3, back_ptr = Some 3\<rparr> = Some (m', q', r')
   \<and> oq_rep m' r' [3, 1, 2]"
  using oq_drain_appends [OF oq_example] by (auto simp: numeral_3_eq_3)

end
