(* ===== verification/BinHeap.thy ===== *)
theory BinHeap
  imports Prelude
begin

text \<open>
  Binary heaps in a list, over a key function: the order property, the two ways in which one entry
  may violate it while it is being sifted, and what one swap does to them. The timer queue's
  \<open>up_heap\<close> and \<open>down_heap\<close> are proved correct from these facts.
\<close>

definition swap :: "'a list \<Rightarrow> nat \<Rightarrow> nat \<Rightarrow> 'a list" where
  "swap xs i j = xs[i := xs ! j, j := xs ! i]"

lemma length_swap [simp]: "length (swap xs i j) = length xs"
  by (simp add: swap_def)

lemma nth_swap:
  "i < length xs \<Longrightarrow> j < length xs \<Longrightarrow> k < length xs
    \<Longrightarrow> swap xs i j ! k = (if k = i then xs ! j else if k = j then xs ! i else xs ! k)"
  by (auto simp: swap_def nth_list_update)

lemma mset_swap_list [simp]:
  "i < length xs \<Longrightarrow> j < length xs \<Longrightarrow> mset (swap xs i j) = mset xs"
  by (simp add: swap_def mset_swap)

lemma set_swap_list [simp]:
  "i < length xs \<Longrightarrow> j < length xs \<Longrightarrow> set (swap xs i j) = set xs"
  by (metis mset_swap_list set_mset_mset)

lemma map_swap: "i < length xs \<Longrightarrow> j < length xs \<Longrightarrow> map f (swap xs i j) = swap (map f xs) i j"
  by (simp add: swap_def map_update)

lemma distinct_swap_list [simp]:
  "i < length xs \<Longrightarrow> j < length xs \<Longrightarrow> distinct (swap xs i j) = distinct xs"
  by (metis mset_eq_imp_distinct_iff mset_swap_list)

text \<open>The parent of a position.\<close>

definition par :: "nat \<Rightarrow> nat" where "par i = (i - 1) div 2"

lemma par_less: "0 < i \<Longrightarrow> par i < i"
  by (simp add: par_def)

lemma par_child: "par i = k \<Longrightarrow> 0 < i \<Longrightarrow> i = 2 * k + 1 \<or> i = 2 * k + 2"
  by (auto simp: par_def)

lemma par_children [simp]: "par (2 * k + 1) = k" "par (Suc (2 * k)) = k" "par (2 * k + 2) = k"
  "par (Suc (Suc (2 * k))) = k"
  by (simp_all add: par_def)

definition heap_ok :: "('a \<Rightarrow> 'k::linorder) \<Rightarrow> 'a list \<Rightarrow> bool" where
  "heap_ok f xs \<longleftrightarrow> (\<forall>i < length xs. 0 < i \<longrightarrow> f (xs ! par i) \<le> f (xs ! i))"

text \<open>Everything is in order except that the entry at \<open>k\<close> may be smaller than its parent.\<close>

definition up_ok :: "('a \<Rightarrow> 'k::linorder) \<Rightarrow> 'a list \<Rightarrow> nat \<Rightarrow> bool" where
  "up_ok f xs k \<longleftrightarrow>
     (\<forall>i < length xs. 0 < i \<and> i \<noteq> k \<longrightarrow> f (xs ! par i) \<le> f (xs ! i))
     \<and> (\<forall>i < length xs. 0 < i \<and> par i = k \<and> 0 < k \<longrightarrow> f (xs ! par k) \<le> f (xs ! i))"

text \<open>Everything is in order except that the entry at \<open>k\<close> may be larger than its children.\<close>

definition down_ok :: "('a \<Rightarrow> 'k::linorder) \<Rightarrow> 'a list \<Rightarrow> nat \<Rightarrow> bool" where
  "down_ok f xs k \<longleftrightarrow>
     (\<forall>i < length xs. 0 < i \<and> par i \<noteq> k \<longrightarrow> f (xs ! par i) \<le> f (xs ! i))
     \<and> (\<forall>i < length xs. 0 < i \<and> par i = k \<and> 0 < k \<longrightarrow> f (xs ! par k) \<le> f (xs ! i))"

named_theorems heap_defs \<open>the order predicates of binary heaps\<close>
declare heap_ok_def [heap_defs] up_ok_def [heap_defs] down_ok_def [heap_defs]

lemma heap_min:
  assumes "heap_ok f xs" and "i < length xs"
  shows "f (xs ! 0) \<le> f (xs ! i)"
  using assms(2)
proof (induction i rule: less_induct)
  case (less i)
  show ?case
  proof (cases "i = 0")
    case False
    then have "par i < i" by (simp add: par_less)
    with less have "f (xs ! 0) \<le> f (xs ! par i)" by simp
    also have "\<dots> \<le> f (xs ! i)" using assms(1) less.prems False by (simp add: heap_ok_def)
    finally show ?thesis .
  qed simp
qed

lemma up_ok_done:
  "up_ok f xs k \<Longrightarrow> k = 0 \<or> f (xs ! par k) \<le> f (xs ! k) \<Longrightarrow> heap_ok f xs"
  unfolding heap_defs by blast

lemma down_ok_done:
  assumes "down_ok f xs k"
    and "\<And>i. i < length xs \<Longrightarrow> 0 < i \<Longrightarrow> par i = k \<Longrightarrow> f (xs ! k) \<le> f (xs ! i)"
  shows "heap_ok f xs"
  using assms unfolding heap_defs by blast

text \<open>One step up: the entry at \<open>k\<close> is smaller than its parent and changes places with it.\<close>

lemma up_ok_swap:
  assumes ok: "up_ok f xs k" and k: "k < length xs" "0 < k" and lt: "f (xs ! k) < f (xs ! par k)"
  shows "up_ok f (swap xs k (par k)) (par k)"
proof -
  have p: "par k < k" "par k < length xs" using k par_less [of k] by auto
  have get: "swap xs k (par k) ! i = (if i = k then xs ! par k else if i = par k then xs ! k else xs ! i)"
    if "i < length xs" for i using nth_swap [OF k(1) p(2) that] .
  have ord: "f (xs ! par i) \<le> f (xs ! i)" if "i < length xs" "0 < i" "i \<noteq> k" for i
    using ok that by (simp add: up_ok_def)
  have grand: "f (xs ! par k) \<le> f (xs ! i)" if "i < length xs" "0 < i" "par i = k" for i
    using ok that k by (simp add: up_ok_def)
  have par_lt: "par i < length xs" if "i < length xs" "0 < i" for i
    using that par_less [of i] by simp
  have "f (swap xs k (par k) ! par i) \<le> f (swap xs k (par k) ! i)"
    if i: "i < length xs" "0 < i" "i \<noteq> par k" for i
  proof (cases "i = k")
    case True
    then show ?thesis using lt p k by (simp add: get)
  next
    case False
    consider "par i = k" | "par i = par k" | "par i \<noteq> k" "par i \<noteq> par k" by blast
    then show ?thesis
    proof cases
      case 1
      then show ?thesis using grand i False k by (simp add: get)
    next
      case 2
      then show ?thesis using ord [of i] lt i False p by (auto simp: get intro: order_trans less_imp_le)
    next
      case 3
      then show ?thesis using ord [of i] i False par_lt by (simp add: get)
    qed
  qed
  moreover have "f (swap xs k (par k) ! par (par k)) \<le> f (swap xs k (par k) ! i)"
    if i: "i < length xs" "0 < i" "par i = par k" "0 < par k" for i
  proof -
    have pp: "par (par k) < par k" using i par_less by simp
    then have g: "swap xs k (par k) ! par (par k) = xs ! par (par k)" using p by (simp add: get)
    have up: "f (xs ! par (par k)) \<le> f (xs ! par k)" using ord [of "par k"] i p by simp
    show ?thesis
    proof (cases "i = k")
      case True
      then show ?thesis using up p k by (simp add: g get)
    next
      case False
      then have "i \<noteq> par k" using i(3) pp by auto
      then show ?thesis using up ord [of i] i False by (auto simp: g get)
    qed
  qed
  ultimately show ?thesis by (simp add: up_ok_def)
qed

text \<open>One step down: the smaller child \<open>c\<close> is no larger than the entry at \<open>k\<close> and changes places
  with it.\<close>

lemma down_ok_swap:
  assumes ok: "down_ok f xs k" and c: "c < length xs" "0 < c" "par c = k"
    and le: "f (xs ! c) \<le> f (xs ! k)"
    and min: "\<And>i. i < length xs \<Longrightarrow> 0 < i \<Longrightarrow> par i = k \<Longrightarrow> f (xs ! c) \<le> f (xs ! i)"
  shows "down_ok f (swap xs k c) c"
proof -
  have kc: "k < c" using c par_less [of c] by simp
  then have k: "k < length xs" using c by simp
  have get: "swap xs k c ! i = (if i = k then xs ! c else if i = c then xs ! k else xs ! i)"
    if "i < length xs" for i using nth_swap [OF k c(1) that] .
  have ord: "f (xs ! par i) \<le> f (xs ! i)" if "i < length xs" "0 < i" "par i \<noteq> k" for i
    using ok that by (simp add: down_ok_def)
  have par_lt: "par i < length xs" if "i < length xs" "0 < i" for i
    using that par_less [of i] by simp
  have up: "f (xs ! par k) \<le> f (xs ! c)" if "0 < k"
    using ok that c by (simp add: down_ok_def)
  have "f (swap xs k c ! par i) \<le> f (swap xs k c ! i)"
    if i: "i < length xs" "0 < i" "par i \<noteq> c" for i
  proof (cases "par i = k")
    case True
    then show ?thesis using min [of i] i le k c kc par_less [of i] by (auto simp: get)
  next
    case False
    show ?thesis
    proof (cases "i = k")
      case True
      then have "par i < k" using i par_less by simp
      then show ?thesis using up True i kc c k by (simp add: get)
    next
      case False2: False
      then have "i \<noteq> c" using False c by auto
      then show ?thesis using ord [of i] i False False2 par_lt by (simp add: get)
    qed
  qed
  moreover have "f (swap xs k c ! par c) \<le> f (swap xs k c ! i)"
    if i: "i < length xs" "0 < i" "par i = c" for i
  proof -
    have "i \<noteq> k" "i \<noteq> c" using i kc par_less [of i] by auto
    then show ?thesis using ord [of i] i kc c k by (simp add: get)
  qed
  ultimately show ?thesis by (simp add: down_ok_def)
qed

lemma up_ok_snoc: "heap_ok f xs \<Longrightarrow> up_ok f (xs @ [x]) (length xs)"
  using par_less by (auto simp: heap_ok_def up_ok_def nth_append par_def)

lemma heap_ok_butlast: "heap_ok f xs \<Longrightarrow> heap_ok f (butlast xs)"
proof -
  assume h: "heap_ok f xs"
  have "par i < length xs - 1" if "i < length xs - 1" "0 < i" for i
    using that par_less [of i] by simp
  with h show ?thesis by (auto simp: heap_ok_def nth_butlast)
qed

text \<open>Replacing the entry at \<open>k\<close> violates the order only around \<open>k\<close>: if the new entry is smaller than
  its parent, only upwards, otherwise only downwards.\<close>

lemma heap_replace_up:
  assumes h: "heap_ok f xs" and k: "k < length xs" "0 < k" and lt: "f x < f (xs ! par k)"
  shows "up_ok f (xs[k := x]) k"
proof -
  have ord: "f (xs ! par i) \<le> f (xs ! i)" if "i < length xs" "0 < i" for i
    using h that by (simp add: heap_ok_def)
  have ne: "par i \<noteq> i" if "0 < i" for i using par_less [OF that] by simp
  have pk: "xs[k := x] ! par k = xs ! par k" if "0 < k" using ne [OF that] by simp
  have "f (xs[k := x] ! par k) \<le> f (xs[k := x] ! i)" if i: "i < length xs" "0 < i" "par i = k" for i
  proof -
    have "i \<noteq> k" using ne [OF i(2)] i(3) by metis
    then show ?thesis using ord [of i] ord [of k] i k by (simp add: pk)
  qed
  moreover have "f (xs[k := x] ! par i) \<le> f (xs[k := x] ! i)"
    if i: "i < length xs" "0 < i" "i \<noteq> k" for i
  proof (cases "par i = k")
    case True
    then have "f x \<le> f (xs ! i)" using lt ord [of k] ord [of i] i k by auto
    then show ?thesis using True i k by simp
  next
    case False
    then show ?thesis using ord [of i] i par_less [of i] by simp
  qed
  ultimately show ?thesis by (simp add: up_ok_def)
qed

lemma heap_replace_down:
  assumes h: "heap_ok f xs" and k: "k < length xs" and ge: "k = 0 \<or> f (xs ! par k) \<le> f x"
  shows "down_ok f (xs[k := x]) k"
proof -
  have ord: "f (xs ! par i) \<le> f (xs ! i)" if "i < length xs" "0 < i" for i
    using h that by (simp add: heap_ok_def)
  have ne: "par i \<noteq> i" if "0 < i" for i using par_less [OF that] by simp
  have pk: "xs[k := x] ! par k = xs ! par k" if "0 < k" using ne [OF that] by simp
  have "f (xs[k := x] ! par k) \<le> f (xs[k := x] ! i)"
    if i: "i < length xs" "0 < i" "par i = k" "0 < k" for i
  proof -
    have "i \<noteq> k" using ne [OF i(2)] i(3) by metis
    then show ?thesis using ord [of i] ord [of k] i k by (simp add: pk)
  qed
  moreover have "f (xs[k := x] ! par i) \<le> f (xs[k := x] ! i)"
    if i: "i < length xs" "0 < i" "par i \<noteq> k" for i
  proof (cases "i = k")
    case True
    then show ?thesis using ge i k by (simp add: pk)
  next
    case False
    then show ?thesis using ord [of i] i by simp
  qed
  ultimately show ?thesis by (simp add: down_ok_def)
qed

end
