(* ===== verification/DList.thy ===== *)
theory DList
  imports Prelude
begin

text \<open>
  Doubly linked lists given by two link functions. \<open>dseg nx pv p xs n\<close>: the nodes \<open>xs\<close> are linked in
  this order, the first node's predecessor is \<open>p\<close> and the last node's successor is \<open>n\<close>.
  \<open>dlist h nx pv xs\<close> is a whole list with head pointer \<open>h\<close>; nodes outside it have no links. The lemmas
  are the two updates the code performs: pushing a new head and unlinking a node.
\<close>

definition opt_hd :: "'a list \<Rightarrow> 'a option" where
  "opt_hd xs = (case xs of [] \<Rightarrow> None | x # _ \<Rightarrow> Some x)"

definition opt_last :: "'a list \<Rightarrow> 'a option" where
  "opt_last xs = (if xs = [] then None else Some (last xs))"

lemma opt_hd_simps [simp]: "opt_hd [] = None" "opt_hd (x # xs) = Some x"
  by (simp_all add: opt_hd_def)

lemma opt_last_simps [simp]: "opt_last [] = None" "opt_last (xs @ [x]) = Some x"
  "opt_last [x] = Some x" "xs \<noteq> [] \<Longrightarrow> opt_last (x # xs) = opt_last xs"
  by (simp_all add: opt_last_def)

lemma opt_hd_append: "opt_hd (xs @ ys) = (if xs = [] then opt_hd ys else opt_hd xs)"
  by (cases xs) auto

lemma opt_hd_in: "opt_hd xs = Some x \<Longrightarrow> x \<in> set xs"
  by (cases xs) auto

lemma opt_last_in: "opt_last xs = Some x \<Longrightarrow> x \<in> set xs"
  by (auto simp: opt_last_def split: if_splits)

fun dseg :: "('a \<Rightarrow> 'a option) \<Rightarrow> ('a \<Rightarrow> 'a option) \<Rightarrow> 'a option \<Rightarrow> 'a list \<Rightarrow> 'a option \<Rightarrow> bool" where
  "dseg nx pv p [] n \<longleftrightarrow> True"
| "dseg nx pv p (x # xs) n \<longleftrightarrow>
     pv x = p \<and> nx x = (if xs = [] then n else opt_hd xs) \<and> dseg nx pv (Some x) xs n"

lemma dseg_cong:
  "(\<And>x. x \<in> set xs \<Longrightarrow> nx x = nx' x) \<Longrightarrow> (\<And>x. x \<in> set xs \<Longrightarrow> pv x = pv' x)
    \<Longrightarrow> dseg nx pv p xs n \<longleftrightarrow> dseg nx' pv' p xs n"
  by (induction xs arbitrary: p) auto

lemma dseg_append:
  "dseg nx pv p (xs @ ys) n \<longleftrightarrow>
     dseg nx pv p xs (if ys = [] then n else opt_hd ys)
     \<and> dseg nx pv (if xs = [] then p else opt_last xs) ys n"
proof (induction xs arbitrary: p)
  case (Cons x xs)
  then show ?case by (cases xs) (auto simp: opt_last_def opt_hd_append)
qed simp

lemma dseg_next_upd:
  assumes "dseg nx pv p xs n" and "distinct xs" and "opt_last xs = Some l"
  shows "dseg (nx(l := n')) pv p xs n'"
  using assms
proof (induction xs arbitrary: p)
  case (Cons x xs)
  show ?case
  proof (cases "xs = []")
    case True
    then show ?thesis using Cons.prems by simp
  next
    case False
    then have l: "opt_last xs = Some l" using Cons.prems(3) by simp
    then have "x \<noteq> l" using opt_last_in Cons.prems(2) by fastforce
    then show ?thesis using Cons False l by simp
  qed
qed simp

lemma dseg_prev_upd:
  assumes "dseg nx pv p (x # xs) n" and "x \<notin> set xs"
  shows "dseg nx (pv(x := p')) p' (x # xs) n"
proof -
  have "dseg nx pv (Some x) xs n \<longleftrightarrow> dseg nx (pv(x := p')) (Some x) xs n"
    by (rule dseg_cong) (use assms(2) in auto)
  then show ?thesis using assms(1) by simp
qed

definition dlist :: "'a option \<Rightarrow> ('a \<Rightarrow> 'a option) \<Rightarrow> ('a \<Rightarrow> 'a option) \<Rightarrow> 'a list \<Rightarrow> bool" where
  "dlist h nx pv xs \<longleftrightarrow>
     h = opt_hd xs \<and> distinct xs \<and> dseg nx pv None xs None
     \<and> (\<forall>x. x \<notin> set xs \<longrightarrow> nx x = None \<and> pv x = None)"

lemma dlist_empty [simp]: "dlist None (\<lambda>_. None) (\<lambda>_. None) []"
  by (simp add: dlist_def)

text \<open>The test the code makes, \<^verbatim>\<open>t->prev_ != 0 || t == head\<close>, is membership.\<close>

lemma dlist_mem_iff:
  assumes "dlist h nx pv xs"
  shows "pv t \<noteq> None \<or> h = Some t \<longleftrightarrow> t \<in> set xs"
proof
  assume "pv t \<noteq> None \<or> h = Some t"
  then show "t \<in> set xs" using assms by (auto simp: dlist_def dest: opt_hd_in)
next
  assume "t \<in> set xs"
  then obtain as bs where xs: "xs = as @ t # bs" by (auto dest: split_list)
  then show "pv t \<noteq> None \<or> h = Some t"
    using assms by (cases "as = []") (auto simp: dlist_def dseg_append opt_last_def opt_hd_append)
qed

lemma dlist_mem_iff':
  "dlist h nx pv xs \<Longrightarrow> pv t = None \<and> h \<noteq> Some t \<longleftrightarrow> t \<notin> set xs"
  using dlist_mem_iff by metis

lemma dlist_push:
  assumes d: "dlist h nx pv xs" and t: "t \<notin> set xs"
  shows "dlist (Some t) (nx(t := h))
    (case h of None \<Rightarrow> pv(t := None) | Some x \<Rightarrow> (pv(t := None))(x := Some t)) (t # xs)"
proof (cases xs)
  case Nil
  then show ?thesis using d by (auto simp: dlist_def)
next
  case (Cons x ys)
  have h: "h = Some x" using d Cons by (simp add: dlist_def)
  have ne: "x \<noteq> t" "x \<notin> set ys" using t d Cons by (auto simp: dlist_def)
  have "dseg nx (pv(x := Some t)) (Some t) (x # ys) None"
    using d Cons ne by (intro dseg_prev_upd [where p = None]) (auto simp: dlist_def)
  then have "dseg (nx(t := h)) ((pv(t := None))(x := Some t)) (Some t) xs None"
    using t Cons by (subst dseg_cong [where nx' = nx and pv' = "pv(x := Some t)"]) auto
  then show ?thesis using d t ne Cons h by (auto simp: dlist_def)
qed

text \<open>Unlinking: head, successor of the predecessor, predecessor of the successor, own links.\<close>

definition unlink_next :: "('a \<Rightarrow> 'a option) \<Rightarrow> ('a \<Rightarrow> 'a option) \<Rightarrow> 'a \<Rightarrow> 'a \<Rightarrow> 'a option" where
  "unlink_next nx pv t =
     (case pv t of None \<Rightarrow> nx | Some p \<Rightarrow> nx(p := nx t))(t := None)"

definition unlink_prev :: "('a \<Rightarrow> 'a option) \<Rightarrow> ('a \<Rightarrow> 'a option) \<Rightarrow> 'a \<Rightarrow> 'a \<Rightarrow> 'a option" where
  "unlink_prev nx pv t =
     (case nx t of None \<Rightarrow> pv | Some n \<Rightarrow> pv(n := pv t))(t := None)"

lemma dlist_split:
  assumes "dlist h nx pv (as @ t # bs)"
  shows "pv t = opt_last as" "nx t = opt_hd bs" "dseg nx pv None as (Some t)" "dseg nx pv (Some t) bs None"
    "h = (if as = [] then Some t else opt_hd as)"
  using assms by (auto simp: dlist_def dseg_append opt_hd_append split: if_splits)

lemma dlist_unlink:
  assumes d: "dlist h nx pv (as @ t # bs)"
  shows "dlist (if h = Some t then nx t else h) (unlink_next nx pv t) (unlink_prev nx pv t) (as @ bs)"
proof -
  note sp = dlist_split [OF d]
  have dis: "distinct as" "distinct bs" "set as \<inter> set bs = {}" "t \<notin> set as" "t \<notin> set bs"
    using d by (auto simp: dlist_def)
  then have la: "as \<noteq> [] \<Longrightarrow> last as \<notin> set bs" using last_in_set by blast
  let ?nx = "unlink_next nx pv t" and ?pv = "unlink_prev nx pv t"
  have head: "(if h = Some t then nx t else h) = opt_hd (as @ bs)"
    using sp(2,5) dis(4) by (auto simp: opt_hd_append dest: opt_hd_in)
  have left: "dseg ?nx ?pv None as (if bs = [] then None else opt_hd bs)"
  proof (cases "as = []")
    case False
    then obtain l where l: "opt_last as = Some l" by (auto simp: opt_last_def)
    have "dseg (nx(l := nx t)) pv None as (nx t)"
      by (rule dseg_next_upd [OF sp(3) dis(1) l])
    then have "dseg ?nx ?pv None as (nx t)"
      by (rule dseg_cong [THEN iffD1, rotated 2])
        (use dis sp(1,2) l in \<open>auto simp: unlink_next_def unlink_prev_def dest!: opt_hd_in split: option.splits\<close>)
    then show ?thesis using sp(2) by (cases bs) auto
  qed simp
  have right: "dseg ?nx ?pv (if as = [] then None else opt_last as) bs None"
  proof (cases bs)
    case (Cons b cs)
    then have "dseg nx (pv(b := pv t)) (pv t) bs None"
      using sp(4) dis(2) by (simp only: Cons, intro dseg_prev_upd) auto
    then have "dseg ?nx ?pv (pv t) bs None"
      by (rule dseg_cong [THEN iffD1, rotated 2])
        (use dis la sp(1,2) Cons in \<open>auto simp: unlink_next_def unlink_prev_def opt_last_def split: option.splits\<close>)
    then show ?thesis using sp(1) by (auto simp: opt_last_def)
  qed simp
  have out: "?nx x = None \<and> ?pv x = None" if "x \<notin> set (as @ bs)" for x
    using that d sp(1,2) dis
    by (auto simp: dlist_def unlink_next_def unlink_prev_def dest: opt_hd_in opt_last_in
        split: option.splits)
  show ?thesis using head left right out dis by (auto simp: dlist_def dseg_append)
qed

text \<open>Replacing a node by a new one in place.\<close>

definition subst_node :: "'a \<Rightarrow> 'a \<Rightarrow> 'a list \<Rightarrow> 'a list" where
  "subst_node a b xs = map (\<lambda>x. if x = a then b else x) xs"

lemma subst_node_split:
  "a \<notin> set as \<Longrightarrow> a \<notin> set bs \<Longrightarrow> subst_node a b (as @ a # bs) = as @ b # bs"
  by (auto simp: subst_node_def intro!: map_idI)

lemma subst_node_notin: "a \<notin> set xs \<Longrightarrow> subst_node a b xs = xs"
  by (auto simp: subst_node_def intro!: map_idI)

definition replace_next :: "('a \<Rightarrow> 'a option) \<Rightarrow> ('a \<Rightarrow> 'a option) \<Rightarrow> 'a \<Rightarrow> 'a \<Rightarrow> 'a \<Rightarrow> 'a option" where
  "replace_next nx pv tgt src =
     ((case pv src of None \<Rightarrow> nx | Some p \<Rightarrow> nx(p := Some tgt))(tgt := nx src))(src := None)"

definition replace_prev :: "('a \<Rightarrow> 'a option) \<Rightarrow> ('a \<Rightarrow> 'a option) \<Rightarrow> 'a \<Rightarrow> 'a \<Rightarrow> 'a \<Rightarrow> 'a option" where
  "replace_prev nx pv tgt src =
     ((case nx src of None \<Rightarrow> pv | Some n \<Rightarrow> pv(n := Some tgt))(tgt := pv src))(src := None)"

lemma dlist_replace:
  assumes d: "dlist h nx pv (as @ src # bs)" and tgt: "tgt \<notin> set (as @ src # bs)"
  shows "dlist (if h = Some src then Some tgt else h) (replace_next nx pv tgt src)
    (replace_prev nx pv tgt src) (as @ tgt # bs)"
proof -
  note sp = dlist_split [OF d]
  have dis: "distinct as" "distinct bs" "set as \<inter> set bs = {}" "src \<notin> set as" "src \<notin> set bs"
    using d by (auto simp: dlist_def)
  then have la: "as \<noteq> [] \<Longrightarrow> last as \<notin> set bs" using last_in_set by blast
  have tn: "tgt \<notin> set as" "tgt \<notin> set bs" "tgt \<noteq> src" using tgt by auto
  let ?nx = "replace_next nx pv tgt src" and ?pv = "replace_prev nx pv tgt src"
  have left: "dseg ?nx ?pv None as (Some tgt)"
  proof (cases "as = []")
    case False
    then obtain l where l: "opt_last as = Some l" by (auto simp: opt_last_def)
    have "dseg (nx(l := Some tgt)) pv None as (Some tgt)"
      by (rule dseg_next_upd [OF sp(3) dis(1) l])
    then show ?thesis
      by (rule dseg_cong [THEN iffD1, rotated 2])
        (use dis tn sp(1,2) l in \<open>auto simp: replace_next_def replace_prev_def dest!: opt_hd_in split: option.splits\<close>)
  qed simp
  have right: "dseg ?nx ?pv (Some tgt) bs None"
  proof (cases bs)
    case (Cons b cs)
    then have "dseg nx (pv(b := Some tgt)) (Some tgt) bs None"
      using sp(4) dis(2) by (simp only: Cons, intro dseg_prev_upd) auto
    then show ?thesis
      by (rule dseg_cong [THEN iffD1, rotated 2])
        (use dis la tn sp(1,2) Cons in \<open>auto simp: replace_next_def replace_prev_def opt_last_def split: option.splits\<close>)
  qed simp
  have mid: "?nx tgt = opt_hd bs" "?pv tgt = opt_last as"
    using sp(1,2) tn by (auto simp: replace_next_def replace_prev_def)
  have out: "?nx x = None \<and> ?pv x = None" if "x \<notin> set (as @ tgt # bs)" for x
    using that d sp(1,2) dis
    by (auto simp: dlist_def replace_next_def replace_prev_def dest: opt_hd_in opt_last_in
        split: option.splits)
  have head: "(if h = Some src then Some tgt else h) = opt_hd (as @ tgt # bs)"
    using sp(5) dis(4) by (auto simp: opt_hd_append dest: opt_hd_in)
  have "dseg ?nx ?pv None (as @ tgt # bs) None"
    using left right mid by (cases bs) (auto simp: dseg_append opt_last_def split: if_splits)
  then show ?thesis using head out dis tn by (auto simp: dlist_def)
qed

end
