(* ===== verification/ErrorCode.thy ===== *)
theory ErrorCode
  imports Prelude
begin

text \<open>
  Error codes of \<^verbatim>\<open>asio/error.hpp\<close>, \<^verbatim>\<open>asio/error_code.hpp\<close> and \<^verbatim>\<open>asio/impl/error.ipp\<close>: an error code is
  a value together with its category; the value 0 is success. The numbers of the enumerators are
  those of the POSIX branch of the macros with the constants of Linux.
\<close>

section \<open>Enumerators and categories\<close>

datatype basic_error =
    access_denied | address_family_not_supported | address_in_use | already_connected
  | already_started | broken_pipe | connection_aborted | connection_refused | connection_reset
  | bad_descriptor | fault | host_unreachable | in_progress | interrupted | invalid_argument
  | message_size | name_too_long | network_down | network_reset | network_unreachable
  | no_descriptors | no_buffer_space | no_memory | no_permission | no_protocol_option
  | no_such_device | not_connected | not_socket | operation_aborted | operation_not_supported
  | shut_down | timed_out | try_again | would_block

datatype netdb_error =
    host_not_found | host_not_found_try_again | no_data | no_recovery

datatype addrinfo_error =
    service_not_found | socket_type_not_supported

datatype misc_error =
    already_open | eof | not_found | fd_set_failure

datatype category = SystemCat | NetdbCat | AddrinfoCat | MiscCat

datatype error_code = EC (ec_value: int) (ec_category: category)

fun basic_value :: "basic_error \<Rightarrow> int" where
  "basic_value access_denied = 13"
| "basic_value address_family_not_supported = 97"
| "basic_value address_in_use = 98"
| "basic_value already_connected = 106"
| "basic_value already_started = 114"
| "basic_value broken_pipe = 32"
| "basic_value connection_aborted = 103"
| "basic_value connection_refused = 111"
| "basic_value connection_reset = 104"
| "basic_value bad_descriptor = 9"
| "basic_value fault = 14"
| "basic_value host_unreachable = 113"
| "basic_value in_progress = 115"
| "basic_value interrupted = 4"
| "basic_value invalid_argument = 22"
| "basic_value message_size = 90"
| "basic_value name_too_long = 36"
| "basic_value network_down = 100"
| "basic_value network_reset = 102"
| "basic_value network_unreachable = 101"
| "basic_value no_descriptors = 24"
| "basic_value no_buffer_space = 105"
| "basic_value no_memory = 12"
| "basic_value no_permission = 1"
| "basic_value no_protocol_option = 92"
| "basic_value no_such_device = 19"
| "basic_value not_connected = 107"
| "basic_value not_socket = 88"
| "basic_value operation_aborted = 125"
| "basic_value operation_not_supported = 95"
| "basic_value shut_down = 108"
| "basic_value timed_out = 110"
| "basic_value try_again = 11"
| "basic_value would_block = 11"

fun netdb_value :: "netdb_error \<Rightarrow> int" where
  "netdb_value host_not_found = 1"
| "netdb_value host_not_found_try_again = 2"
| "netdb_value no_data = 4"
| "netdb_value no_recovery = 3"

fun addrinfo_value :: "addrinfo_error \<Rightarrow> int" where
  "addrinfo_value service_not_found = -8"
| "addrinfo_value socket_type_not_supported = -7"

fun misc_value :: "misc_error \<Rightarrow> int" where
  "misc_value already_open = 1"
| "misc_value eof = 2"
| "misc_value not_found = 3"
| "misc_value fd_set_failure = 4"

text \<open>\<open>make_error_code\<close> is overloaded on the enumeration; \<open>basic_ec\<close>, \<open>netdb_ec\<close>, \<open>addrinfo_ec\<close> and
  \<open>misc_ec\<close> are its four instances.\<close>

definition basic_ec :: "basic_error \<Rightarrow> error_code" where
  "basic_ec e = EC (basic_value e) SystemCat"

definition netdb_ec :: "netdb_error \<Rightarrow> error_code" where
  "netdb_ec e = EC (netdb_value e) NetdbCat"

definition addrinfo_ec :: "addrinfo_error \<Rightarrow> error_code" where
  "addrinfo_ec e = EC (addrinfo_value e) AddrinfoCat"

definition misc_ec :: "misc_error \<Rightarrow> error_code" where
  "misc_ec e = EC (misc_value e) MiscCat"

text \<open>A default constructed code is success; \<open>failed\<close> is its conversion to bool.\<close>

definition ec_success :: error_code where
  "ec_success = EC 0 SystemCat"

definition failed :: "error_code \<Rightarrow> bool" where
  "failed ec \<longleftrightarrow> ec_value ec \<noteq> 0"

definition clear_ec :: "error_code \<Rightarrow> error_code" where
  "clear_ec ec = EC 0 (ec_category ec)"

section \<open>Messages\<close>

definition netdb_message :: "int \<Rightarrow> string" where
  "netdb_message v =
     (if v = netdb_value host_not_found then ''Host not found (authoritative)''
      else if v = netdb_value host_not_found_try_again
        then ''Host not found (non-authoritative), try again later''
      else if v = netdb_value no_data
        then ''The query is valid, but it does not have associated data''
      else if v = netdb_value no_recovery
        then ''A non-recoverable error occurred during database lookup''
      else ''asio.netdb error'')"

definition addrinfo_message :: "int \<Rightarrow> string" where
  "addrinfo_message v =
     (if v = addrinfo_value service_not_found then ''Service not found''
      else if v = addrinfo_value socket_type_not_supported then ''Socket type not supported''
      else ''asio.addrinfo error'')"

definition misc_message :: "int \<Rightarrow> string" where
  "misc_message v =
     (if v = misc_value already_open then ''Already open''
      else if v = misc_value eof then ''End of file''
      else if v = misc_value not_found then ''Element not found''
      else if v = misc_value fd_set_failure
        then ''The descriptor does not fit into the select call''  @ [CHR 0x27] @ ''s fd_set''
      else ''asio.misc error'')"

text \<open>The messages of the system category come from the C library: \<open>strerror\<close> is a parameter.\<close>

definition ec_message :: "(int \<Rightarrow> string) \<Rightarrow> error_code \<Rightarrow> string" where
  "ec_message strerror ec =
     (case ec_category ec of
        SystemCat \<Rightarrow> strerror (ec_value ec)
      | NetdbCat \<Rightarrow> netdb_message (ec_value ec)
      | AddrinfoCat \<Rightarrow> addrinfo_message (ec_value ec)
      | MiscCat \<Rightarrow> misc_message (ec_value ec))"

section \<open>Lemmas\<close>

lemmas ec_defs = basic_ec_def netdb_ec_def addrinfo_ec_def misc_ec_def ec_success_def failed_def
  clear_ec_def

lemma not_failed_success [simp]: "\<not> failed ec_success"
  by (simp add: ec_defs)

lemma failed_basic [simp]: "failed (basic_ec e)"
  by (cases e) (simp_all add: ec_defs)

lemma failed_misc [simp]: "failed (misc_ec e)"
  by (cases e) (simp_all add: ec_defs)

lemma success_neq [simp]:
  "ec_success \<noteq> basic_ec e" "basic_ec e \<noteq> ec_success"
  "ec_success \<noteq> misc_ec m" "misc_ec m \<noteq> ec_success"
  "basic_ec e \<noteq> misc_ec m" "misc_ec m \<noteq> basic_ec e"
  by (metis failed_basic failed_misc not_failed_success, metis failed_basic not_failed_success,
      metis failed_misc not_failed_success, metis failed_misc not_failed_success)
    (simp_all add: ec_defs)

end
