(* ===== verification/TimerQueueInv.thy ===== *)
theory TimerQueueInv
  imports TimerQueue
begin

text \<open>
  The invariant of the timer queue and the effect of its heap operations: field functions and their
  update laws, the agreement of \<open>heap_index\<close> with the heap, sifting, and removal.
\<close>

section \<open>Field functions\<close>

definition nx :: "('t, 'tm, 'op) timer_queue \<Rightarrow> 'tm \<Rightarrow> 'tm option" where "nx s t = pt_next (tdata s t)"
definition pv :: "('t, 'tm, 'op) timer_queue \<Rightarrow> 'tm \<Rightarrow> 'tm option" where "pv s t = pt_prev (tdata s t)"
definition ix :: "('t, 'tm, 'op) timer_queue \<Rightarrow> 'tm \<Rightarrow> nat option" where "ix s t = heap_index (tdata s t)"
definition po :: "('t, 'tm, 'op) timer_queue \<Rightarrow> 'tm \<Rightarrow> 'op list" where "po s t = pt_ops (tdata s t)"

lemma fields_fold: "pt_next (tdata s t) = nx s t" "pt_prev (tdata s t) = pv s t"
  "heap_index (tdata s t) = ix s t" "pt_ops (tdata s t) = po s t"
  by (simp_all add: nx_def pv_def ix_def po_def)

lemma fields_set [simp]:
  "nx (set_next t v s) = (nx s)(t := v)" "pv (set_next t v s) = pv s"
  "ix (set_next t v s) = ix s" "po (set_next t v s) = po s"
  "nx (set_prev t v s) = nx s" "pv (set_prev t v s) = (pv s)(t := v)"
  "ix (set_prev t v s) = ix s" "po (set_prev t v s) = po s"
  "nx (set_index t i s) = nx s" "pv (set_index t i s) = pv s"
  "ix (set_index t i s) = (ix s)(t := i)" "po (set_index t i s) = po s"
  "nx (set_ops t q s) = nx s" "pv (set_ops t q s) = pv s"
  "ix (set_ops t q s) = ix s" "po (set_ops t q s) = (po s)(t := q)"
  by (auto simp: fun_eq_iff nx_def pv_def ix_def po_def set_defs)

lemma globals_set [simp]:
  "timers (set_next t v s) = timers s" "heap (set_next t v s) = heap s" "op_ec (set_next t v s) = op_ec s"
  "timers (set_prev t v s) = timers s" "heap (set_prev t v s) = heap s" "op_ec (set_prev t v s) = op_ec s"
  "timers (set_index t i s) = timers s" "heap (set_index t i s) = heap s" "op_ec (set_index t i s) = op_ec s"
  "timers (set_ops t q s) = timers s" "heap (set_ops t q s) = heap s" "op_ec (set_ops t q s) = op_ec s"
  by (simp_all add: set_defs)

lemma fields_upd [simp]:
  "nx (s\<lparr>heap := h\<rparr>) = nx s" "pv (s\<lparr>heap := h\<rparr>) = pv s" "ix (s\<lparr>heap := h\<rparr>) = ix s" "po (s\<lparr>heap := h\<rparr>) = po s"
  "nx (s\<lparr>timers := p\<rparr>) = nx s" "pv (s\<lparr>timers := p\<rparr>) = pv s" "ix (s\<lparr>timers := p\<rparr>) = ix s" "po (s\<lparr>timers := p\<rparr>) = po s"
  "nx (s\<lparr>op_ec := e\<rparr>) = nx s" "pv (s\<lparr>op_ec := e\<rparr>) = pv s" "ix (s\<lparr>op_ec := e\<rparr>) = ix s" "po (s\<lparr>op_ec := e\<rparr>) = po s"
  by (simp_all add: fun_eq_iff nx_def pv_def ix_def po_def)

text \<open>What the heap operations leave alone.\<close>

definition same_links :: "('t, 'tm, 'op) timer_queue \<Rightarrow> ('t, 'tm, 'op) timer_queue \<Rightarrow> bool" where
  "same_links s s' \<longleftrightarrow>
     nx s' = nx s \<and> pv s' = pv s \<and> po s' = po s \<and> timers s' = timers s \<and> op_ec s' = op_ec s"

lemma same_links_refl [simp]: "same_links s s"
  by (simp add: same_links_def)

lemma same_links_trans: "same_links s1 s2 \<Longrightarrow> same_links s2 s3 \<Longrightarrow> same_links s1 s3"
  by (simp add: same_links_def)

section \<open>Positions\<close>

definition idx_ok :: "('t \<times> 'tm) list \<Rightarrow> ('tm \<Rightarrow> nat option) \<Rightarrow> bool" where
  "idx_ok h f \<longleftrightarrow> (\<forall>t i. f t = Some i \<longleftrightarrow> i < length h \<and> snd (h ! i) = t)"

lemma idx_okD: "idx_ok h f \<Longrightarrow> f t = Some i \<longleftrightarrow> i < length h \<and> snd (h ! i) = t"
  by (simp add: idx_ok_def)

lemma idx_ok_inj: "idx_ok h f \<Longrightarrow> i < length h \<Longrightarrow> j < length h \<Longrightarrow> snd (h ! i) = snd (h ! j) \<Longrightarrow> i = j"
  by (metis idx_okD option.inject)

lemma idx_ok_None: "idx_ok h f \<Longrightarrow> f t = None \<longleftrightarrow> t \<notin> snd ` set h"
proof -
  assume ok: "idx_ok h f"
  have "t \<in> snd ` set h \<longleftrightarrow> (\<exists>i < length h. snd (h ! i) = t)"
    by (simp add: image_iff Bex_def in_set_conv_nth) (metis snd_conv surj_pair)
  also have "\<dots> \<longleftrightarrow> (\<exists>i. f t = Some i)" using idx_okD [OF ok] by auto
  finally show ?thesis by auto
qed

lemma idx_ok_distinct: "idx_ok h f \<Longrightarrow> distinct (map snd h)"
  by (auto simp: distinct_conv_nth dest: idx_ok_inj)

lemma idx_ok_swap:
  assumes ok: "idx_ok h f" and ij: "i < length h" "j < length h" "i \<noteq> j"
  shows "idx_ok (swap h i j) (f(snd (h ! j) := Some i, snd (h ! i) := Some j))"
proof -
  have ne: "snd (h ! i) \<noteq> snd (h ! j)" using idx_ok_inj [OF ok] ij by blast
  have inj: "\<And>k. k < length h \<Longrightarrow> snd (h ! k) = snd (h ! i) \<longleftrightarrow> k = i"
    "\<And>k. k < length h \<Longrightarrow> snd (h ! k) = snd (h ! j) \<longleftrightarrow> k = j"
    using idx_ok_inj [OF ok] ij by blast+
  show ?thesis
    unfolding idx_ok_def
  proof (intro allI)
    fix t k
    show "(f(snd (h ! j) := Some i, snd (h ! i) := Some j)) t = Some k
      \<longleftrightarrow> k < length (swap h i j) \<and> snd (swap h i j ! k) = t"
    proof (cases "k < length h")
      case True
      then show ?thesis
        using ij ne inj idx_okD [OF ok, of t k] by (auto simp: nth_swap)
    next
      case False
      then have "f t \<noteq> Some k" using idx_okD [OF ok] by simp
      then show ?thesis using False ij by auto
    qed
  qed
qed

lemma idx_ok_snoc:
  assumes ok: "idx_ok h f" and t: "t \<notin> snd ` set h"
  shows "idx_ok (h @ [(time, t)]) (f(t := Some (length h)))"
  unfolding idx_ok_def
proof (intro allI)
  fix u k
  have "k < length h \<Longrightarrow> snd (h ! k) \<noteq> t" using t nth_mem by fastforce
  then show "(f(t := Some (length h))) u = Some k
      \<longleftrightarrow> k < length (h @ [(time, t)]) \<and> snd ((h @ [(time, t)]) ! k) = u"
    using idx_okD [OF ok, of u k] by (auto simp: nth_append less_Suc_eq)
qed

lemma idx_ok_butlast:
  assumes ok: "idx_ok h f" and h: "h \<noteq> []"
  shows "idx_ok (butlast h) (f(snd (last h) := None))"
  unfolding idx_ok_def
proof (intro allI)
  fix u k
  have last: "last h = h ! (length h - 1)" using h by (simp add: last_conv_nth)
  have "snd (h ! k) \<noteq> snd (last h)" if k: "k < length h - 1"
  proof -
    have "k < length h" "length h - 1 < length h" "k \<noteq> length h - 1" using k by linarith+
    then show ?thesis using idx_ok_inj [OF ok, of k "length h - 1"] unfolding last by blast
  qed
  moreover have "snd (h ! k) = snd (last h)" if "k < length h" "\<not> k < length h - 1"
  proof -
    have "k = length h - 1" using that by linarith
    then show ?thesis unfolding last by (rule arg_cong)
  qed
  ultimately have last_iff: "snd (h ! k) = snd (last h) \<longleftrightarrow> \<not> k < length h - 1" if "k < length h"
    using that by blast
  show "(f(snd (last h) := None)) u = Some k \<longleftrightarrow> k < length (butlast h) \<and> snd (butlast h ! k) = u"
  proof (cases "k < length h - 1")
    case True
    then have "snd (butlast h ! k) = snd (h ! k)" "k < length h" by (simp_all add: nth_butlast)
    then show ?thesis using True last_iff idx_okD [OF ok, of u k] by auto
  next
    case False
    then show ?thesis using last_iff idx_okD [OF ok, of u k] by auto
  qed
qed

section \<open>Sifting\<close>

lemma swap_heap_heap:
  "heap (swap_heap i j s) = swap (heap s) i j"
  by (simp add: swap_heap_def swap_def Let_def set_index_def)

lemma swap_heap_links: "same_links s (swap_heap i j s)"
  by (simp add: same_links_def swap_heap_def Let_def)

lemma swap_heap_idx:
  assumes "idx_ok (heap s) (ix s)" "i < length (heap s)" "j < length (heap s)" "i \<noteq> j"
  shows "idx_ok (heap (swap_heap i j s)) (ix (swap_heap i j s))"
proof -
  have "ix (swap_heap i j s)
    = (ix s)(snd (heap s ! j) := Some i, snd (heap s ! i) := Some j)"
    using assms by (simp add: swap_heap_def Let_def)
  then show ?thesis using idx_ok_swap [OF assms] by (simp add: swap_heap_heap)
qed

definition sifted :: "('t::linorder, 'tm, 'op) timer_queue \<Rightarrow> ('t, 'tm, 'op) timer_queue \<Rightarrow> bool" where
  "sifted s s' \<longleftrightarrow> heap_ok fst (heap s') \<and> idx_ok (heap s') (ix s')
     \<and> mset (heap s') = mset (heap s) \<and> same_links s s'"

lemma sifted_swap:
  assumes "sifted (swap_heap i j s) s'" "i < length (heap s)" "j < length (heap s)"
  shows "sifted s s'"
proof -
  have "same_links s s'"
    using assms(1) swap_heap_links same_links_trans by (metis sifted_def)
  then show ?thesis using assms by (simp add: sifted_def swap_heap_heap)
qed

lemma up_heap_sifted:
  assumes "idx_ok (heap s) (ix s)" "index < length (heap s)" "up_ok fst (heap s) index"
  shows "sifted s (up_heap index s)"
  using assms
proof (induction index s rule: up_heap.induct)
  case (1 index s)
  let ?p = "(index - 1) div 2"
  show ?case
  proof (cases "index > 0 \<and> fst (heap s ! index) < fst (heap s ! ?p)")
    case True
    then have p: "?p < index" "?p < length (heap s)" using "1.prems"(2) by auto
    let ?s' = "swap_heap index ?p s"
    have "sifted ?s' (up_heap ?p ?s')"
    proof (rule "1.IH")
      show "idx_ok (heap ?s') (ix ?s')" using "1.prems" p by (intro swap_heap_idx) auto
      show "up_ok fst (heap ?s') ?p"
        using up_ok_swap [OF "1.prems"(3,2)] True by (simp add: swap_heap_heap par_def)
    qed (use True p in auto)
    moreover have "up_heap index s = up_heap ?p ?s'"
      using True by (subst up_heap.simps) (simp add: Let_def)
    ultimately show ?thesis using sifted_swap [OF _ "1.prems"(2) p(2)] by simp
  next
    case False
    then have "up_heap index s = s" by (subst up_heap.simps) (auto simp: Let_def)
    moreover have "heap_ok fst (heap s)"
      using False up_ok_done [OF "1.prems"(3)] by (auto simp: par_def not_less)
    ultimately show ?thesis using "1.prems" by (simp add: sifted_def)
  qed
qed

text \<open>A new entry reaches the root only if it is earlier than the old root.\<close>

lemma up_heap_keeps_root:
  assumes "0 < index" "index < length (heap s)" "\<not> fst (heap s ! index) < fst (heap s ! 0)"
  shows "heap (up_heap index s) ! 0 = heap s ! 0"
  using assms
proof (induction index s rule: up_heap.induct)
  case (1 index s)
  let ?p = "(index - 1) div 2"
  show ?case
  proof (cases "fst (heap s ! index) < fst (heap s ! ?p)")
    case True
    have p: "?p < index" "?p < length (heap s)" using "1.prems" by auto
    have p0: "0 < ?p" using True "1.prems"(3) by (cases "?p = 0") auto
    let ?s' = "swap_heap index ?p s"
    have sw: "heap ?s' ! k = (if k = index then heap s ! ?p else if k = ?p then heap s ! index else heap s ! k)"
      if "k < length (heap s)" for k
      using that p "1.prems"(2) by (simp add: swap_heap_heap nth_swap)
    have "0 < length (heap s)" using "1.prems"(2) by (rule gr_implies_not0 [THEN neq0_conv [THEN iffD1]])
    then have root: "heap ?s' ! 0 = heap s ! 0" using sw [of 0] "1.prems"(1) p0 by simp
    have "heap (up_heap ?p ?s') ! 0 = heap ?s' ! 0"
      using True p p0 "1.prems" sw [of ?p] root by (intro "1.IH") auto
    then show ?thesis
      using True "1.prems"(1) root by (subst up_heap.simps) (simp add: Let_def)
  next
    case False
    then show ?thesis by (subst up_heap.simps) (simp add: Let_def)
  qed
qed

text \<open>The child \<open>down_heap\<close> picks is the smaller of the two.\<close>

definition min_child :: "('t::linorder \<times> 'tm) list \<Rightarrow> nat \<Rightarrow> nat" where
  "min_child h index =
     (let child = index * 2 + 1
      in if child + 1 = length h \<or> fst (h ! child) < fst (h ! (child + 1)) then child else child + 1)"

lemma min_child:
  assumes "index * 2 + 1 < length h"
  shows "min_child h index < length h" "index < min_child h index" "par (min_child h index) = index"
    and "i < length h \<Longrightarrow> 0 < i \<Longrightarrow> par i = index \<Longrightarrow> fst (h ! min_child h index) \<le> fst (h ! i)"
proof -
  let ?c = "index * 2 + 1"
  show "min_child h index < length h" "index < min_child h index" "par (min_child h index) = index"
    using assms by (auto simp: min_child_def Let_def par_def)
  assume i: "i < length h" "0 < i" "par i = index"
  then consider "i = ?c" | "i = ?c + 1" using par_child [OF i(3,2)] by fastforce
  then show "fst (h ! min_child h index) \<le> fst (h ! i)"
  proof cases
    case 1
    then show ?thesis by (simp add: min_child_def Let_def not_less)
  next
    case 2
    then have "?c + 1 \<noteq> length h" using i(1) by simp
    then show ?thesis using 2
      by (cases "fst (h ! ?c) < fst (h ! (?c + 1))") (simp_all add: min_child_def Let_def)
  qed
qed

lemma down_heap_unfold:
  "down_heap index s =
     (if index * 2 + 1 < length (heap s)
         \<and> \<not> fst (heap s ! index) < fst (heap s ! min_child (heap s) index)
      then down_heap (min_child (heap s) index) (swap_heap index (min_child (heap s) index) s)
      else s)"
  by (subst down_heap.simps) (simp add: Let_def min_child_def)

lemma down_heap_sifted:
  assumes "idx_ok (heap s) (ix s)" "index < length (heap s)" "down_ok fst (heap s) index"
  shows "sifted s (down_heap index s)"
  using assms
proof (induction "length (heap s) - index" arbitrary: index s rule: less_induct)
  case (less index s)
  let ?m = "min_child (heap s) index"
  show ?case
  proof (cases "index * 2 + 1 < length (heap s) \<and> \<not> fst (heap s ! index) < fst (heap s ! ?m)")
    case True
    then have c: "index * 2 + 1 < length (heap s)" by simp
    note m = min_child [OF c]
    let ?s' = "swap_heap index ?m s"
    have m0: "0 < ?m" using m(2) by simp
    have "sifted ?s' (down_heap ?m ?s')"
    proof (rule less.hyps)
      show "length (heap ?s') - ?m < length (heap s) - index" using m(1,2) by simp
      show "idx_ok (heap ?s') (ix ?s')" using less.prems m(1,2) by (intro swap_heap_idx) auto
      show "?m < length (heap ?s')" using m(1) by simp
      have "fst (heap s ! ?m) \<le> fst (heap s ! index)" using True by (simp add: not_less)
      then have "down_ok fst (swap (heap s) index ?m) ?m"
        by (rule down_ok_swap [OF less.prems(3) m(1) m0 m(3)]) (rule m(4))
      then show "down_ok fst (heap ?s') ?m" by (simp only: swap_heap_heap)
    qed
    moreover have "down_heap index s = down_heap ?m ?s'"
      using True by (subst down_heap_unfold) simp
    ultimately show ?thesis using sifted_swap [OF _ less.prems(2) m(1)] by (simp only:)
  next
    case False
    then have "down_heap index s = s" by (subst down_heap_unfold) auto
    moreover have "heap_ok fst (heap s)"
    proof (rule down_ok_done [OF less.prems(3)])
      fix i assume i: "i < length (heap s)" "0 < i" "par i = index"
      then have c: "index * 2 + 1 < length (heap s)" using par_child [OF i(3,2)] by auto
      with False have "fst (heap s ! index) < fst (heap s ! ?m)" by blast
      also have "\<dots> \<le> fst (heap s ! i)" by (rule min_child(4) [OF c i])
      finally show "fst (heap s ! index) \<le> fst (heap s ! i)" by simp
    qed
    ultimately show ?thesis using less.prems by (simp add: sifted_def)
  qed
qed

section \<open>Removal from the heap\<close>

definition heap_remove :: "'tm \<Rightarrow> ('t::linorder, 'tm, 'op) timer_queue \<Rightarrow> ('t, 'tm, 'op) timer_queue" where
  "heap_remove timer s =
     (case ix s timer of
        None \<Rightarrow> s
      | Some index \<Rightarrow>
          if heap s \<noteq> [] \<and> index < length (heap s) then
            if index = length (heap s) - 1 then
              (set_index timer None s)\<lparr>heap := butlast (heap s)\<rparr>
            else
              let sa = swap_heap index (length (heap s) - 1) s;
                  sb = (set_index timer None sa)\<lparr>heap := butlast (heap sa)\<rparr>
              in if index > 0 \<and> fst (heap sb ! index) < fst (heap sb ! ((index - 1) div 2))
                 then up_heap index sb
                 else down_heap index sb
          else s)"

definition unlink :: "'tm \<Rightarrow> ('t, 'tm, 'op) timer_queue \<Rightarrow> ('t, 'tm, 'op) timer_queue" where
  "unlink timer s1 =
     (let s2 = (if timers s1 = Some timer then s1\<lparr>timers := nx s1 timer\<rparr> else s1);
          s3 = (case pv s2 timer of None \<Rightarrow> s2 | Some p \<Rightarrow> set_next p (nx s2 timer) s2);
          s4 = (case nx s3 timer of None \<Rightarrow> s3 | Some n \<Rightarrow> set_prev n (pv s3 timer) s3)
      in set_prev timer None (set_next timer None s4))"

lemma remove_timer_split: "remove_timer timer s = unlink timer (heap_remove timer s)"
  unfolding remove_timer_def unlink_def heap_remove_def fields_fold Let_def ..

lemma unlink_fields:
  "nx (unlink t s) = unlink_next (nx s) (pv s) t" "pv (unlink t s) = unlink_prev (nx s) (pv s) t"
  "timers (unlink t s) = (if timers s = Some t then nx s t else timers s)"
  "po (unlink t s) = po s" "ix (unlink t s) = ix s" "heap (unlink t s) = heap s" "op_ec (unlink t s) = op_ec s"
  by (auto simp: unlink_def unlink_next_def unlink_prev_def Let_def split: option.splits)

text \<open>The first half of \<open>remove_timer\<close> for an entry before the last: the last entry takes its place.\<close>

lemma heap_swap_out:
  assumes ok: "idx_ok (heap s) (ix s)" and n: "n = length (heap s) - 1" "n < length (heap s)" "i < n" and t: "snd (heap s ! i) = t"
    and sb: "sb = (set_index t None (swap_heap i n s))\<lparr>heap := butlast (heap (swap_heap i n s))\<rparr>"
  shows "heap sb = (butlast (heap s))[i := last (heap s)]" "idx_ok (heap sb) (ix sb)"
    "mset (heap sb) = mset (heap s) - {#heap s ! i#}" "same_links s sb"
proof -
  let ?h = "heap s" and ?sa = "swap_heap i n s"
  have i: "i < length ?h" "i \<noteq> n" and ne: "?h \<noteq> []" using n by auto
  have last: "last ?h = ?h ! n" using ne n(1) by (simp add: last_conv_nth)
  have ha: "heap ?sa = swap ?h i n" by (rule swap_heap_heap)
  have nea: "heap ?sa \<noteq> []" using ne by (metis ha length_0_conv length_swap)
  have "last (heap ?sa) = heap ?sa ! n" using nea n(1) by (simp add: last_conv_nth ha)
  also have "\<dots> = ?h ! i" using nth_swap [OF i(1) n(2) n(2)] i(2) by (simp add: ha)
  finally have lasta: "last (heap ?sa) = ?h ! i" .
  show "heap sb = (butlast ?h)[i := last ?h]"
  proof (rule nth_equalityI)
    fix k assume "k < length (heap sb)"
    then have k: "k < n" "k < length ?h" using n by (auto simp: sb ha)
    then have "heap sb ! k = butlast (swap ?h i n) ! k" by (simp add: sb ha)
    also have "\<dots> = swap ?h i n ! k" using k n(1) by (intro nth_butlast) simp
    also have "\<dots> = ((butlast ?h)[i := last ?h]) ! k"
      using k n nth_swap [OF i(1) n(2) k(2)] unfolding last by (auto simp: nth_butlast nth_list_update)
    finally show "heap sb ! k = ((butlast ?h)[i := last ?h]) ! k" .
  qed (simp add: sb ha)
  show "idx_ok (heap sb) (ix sb)"
    using idx_ok_butlast [OF swap_heap_idx [OF ok i(1) n(2) i(2)] nea] unfolding lasta t by (simp add: sb)
  have "mset (heap ?sa) = mset (butlast (heap ?sa)) + {#?h ! i#}"
    by (metis append_butlast_last_id lasta nea mset.simps mset_append union_mset_add_mset_right add_0_right)
  then show "mset (heap sb) = mset ?h - {#?h ! i#}" using i(1) n(2) by (simp add: sb ha)
  show "same_links s sb" using swap_heap_links by (auto simp: same_links_def sb)
qed

lemma heap_remove_ok:
  assumes ok: "idx_ok (heap s) (ix s)" "heap_ok fst (heap s)" and t: "ix s t = Some i"
  shows "heap_ok fst (heap (heap_remove t s))"
    and "idx_ok (heap (heap_remove t s)) (ix (heap_remove t s))"
    and "mset (heap (heap_remove t s)) = mset (heap s) - {#heap s ! i#}"
    and "same_links s (heap_remove t s)"
proof -
  let ?h = "heap s" and ?n = "length (heap s) - 1"
  have i: "i < length ?h" "snd (?h ! i) = t" using idx_okD [OF ok(1)] t by auto
  then have ne: "?h \<noteq> []" by auto
  then have last: "last ?h = ?h ! ?n" by (rule last_conv_nth)
  have "heap_ok fst (heap (heap_remove t s)) \<and> idx_ok (heap (heap_remove t s)) (ix (heap_remove t s))
    \<and> mset (heap (heap_remove t s)) = mset ?h - {#?h ! i#} \<and> same_links s (heap_remove t s)"
  proof (cases "i = ?n")
    case True
    then have r: "heap_remove t s = (set_index t None s)\<lparr>heap := butlast ?h\<rparr>"
      using t ne i(1) by (simp add: heap_remove_def)
    have "mset ?h = mset (butlast ?h) + {#last ?h#}"
      using ne by (metis append_butlast_last_id mset.simps mset_append union_mset_add_mset_right add_0_right)
    moreover have "idx_ok (butlast ?h) ((ix s)(t := None))"
      using idx_ok_butlast [OF ok(1) ne] True i(2) last by simp
    ultimately show ?thesis
      using heap_ok_butlast [OF ok(2)] True last by (simp add: r same_links_def)
  next
    case False
    then have n: "?n < length ?h" "i < ?n" using i(1) ne by auto
    define sb where "sb = (set_index t None (swap_heap i ?n s))\<lparr>heap := butlast (heap (swap_heap i ?n s))\<rparr>"
    note out = heap_swap_out [OF ok(1) refl n i(2) sb_def]
    let ?up = "i > 0 \<and> fst (heap sb ! i) < fst (heap sb ! ((i - 1) div 2))"
    have r: "heap_remove t s = (if ?up then up_heap i sb else down_heap i sb)"
      using t ne i(1) False by (simp add: heap_remove_def Let_def sb_def)
    have okb: "heap_ok fst (butlast ?h)" by (rule heap_ok_butlast [OF ok(2)])
    have lenb: "i < length (heap sb)" using n by (simp add: out(1))
    have par_get: "heap sb ! ((i - 1) div 2) = butlast ?h ! par i" if "0 < i"
      using par_less [OF that] unfolding out(1) par_def by simp
    have get_i: "heap sb ! i = last ?h" using n unfolding out(1) by simp
    have "sifted sb (heap_remove t s)"
    proof (cases ?up)
      case True
      have "up_ok fst (heap sb) i"
        unfolding out(1) using True n par_get get_i by (intro heap_replace_up [OF okb]) auto
      then have "sifted sb (up_heap i sb)" by (rule up_heap_sifted [OF out(2) lenb])
      then show ?thesis unfolding r if_P [OF True] .
    next
      case False
      have "down_ok fst (heap sb) i"
        unfolding out(1) using False par_get get_i n
        by (intro heap_replace_down [OF okb]) (cases "i = 0"; auto simp: not_less)+
      then have "sifted sb (down_heap i sb)" by (rule down_heap_sifted [OF out(2) lenb])
      then show ?thesis unfolding r if_not_P [OF False] .
    qed
    then show ?thesis using out(3) same_links_trans [OF out(4)] by (simp add: sifted_def)
  qed
  then show "heap_ok fst (heap (heap_remove t s))"
    and "idx_ok (heap (heap_remove t s)) (ix (heap_remove t s))"
    and "mset (heap (heap_remove t s)) = mset (heap s) - {#heap s ! i#}"
    and "same_links s (heap_remove t s)"
    by blast+
qed

end
