(* ===== verification/TimerQueueOps.thy ===== *)
theory TimerQueueOps
  imports TimerQueueInv
begin

text \<open>
  The invariant of the timer queue, that every operation keeps it, and what each operation does to
  the pending operations: the properties of the component, with its priority-queue contract.
\<close>

section \<open>The invariant\<close>

text \<open>The active timers (those in the linked list) are those with a waiting operation, and every heap
  entry belongs to one. \<open>X\<close> are timers whose operations have just been taken and that are still to be
  removed.\<close>

definition tq_invX :: "'tm set \<Rightarrow> ('t::linorder, 'tm, 'op) timer_queue \<Rightarrow> bool" where
  "tq_invX X s \<longleftrightarrow>
     (\<exists>ts. dlist (timers s) (nx s) (pv s) ts \<and> (\<forall>t. t \<in> set ts \<longleftrightarrow> po s t \<noteq> [] \<or> t \<in> X))
     \<and> heap_ok fst (heap s) \<and> idx_ok (heap s) (ix s)
     \<and> (\<forall>e \<in> set (heap s). po s (snd e) \<noteq> [] \<or> snd e \<in> X)"

definition tq_inv :: "('t::linorder, 'tm, 'op) timer_queue \<Rightarrow> bool" where
  "tq_inv s \<longleftrightarrow> tq_invX {} s"

lemma tq_invX_parts:
  assumes "tq_invX X s"
  shows "heap_ok fst (heap s)" "idx_ok (heap s) (ix s)"
    "\<And>e. e \<in> set (heap s) \<Longrightarrow> po s (snd e) \<noteq> [] \<or> snd e \<in> X"
  using assms by (auto simp: tq_invX_def)

lemma tq_invX_listE:
  assumes "tq_invX X s"
  obtains ts where "dlist (timers s) (nx s) (pv s) ts" "\<forall>t. t \<in> set ts \<longleftrightarrow> po s t \<noteq> [] \<or> t \<in> X"
  using assms by (auto simp: tq_invX_def)

lemma new_timer_queue_inv: "tq_inv (new_timer_queue ec :: ('t::linorder, 'tm, 'op) timer_queue)"
proof -
  let ?s = "new_timer_queue ec :: ('t, 'tm, 'op) timer_queue"
  have "nx ?s = (\<lambda>_. None)" "pv ?s = (\<lambda>_. None)" "ix ?s = (\<lambda>_. None)" "po ?s = (\<lambda>_. [])"
    "timers ?s = None" "heap ?s = []"
    by (auto simp: fun_eq_iff nx_def pv_def ix_def po_def new_timer_queue_def new_timer_def)
  then show ?thesis
    by (auto simp: tq_inv_def tq_invX_def heap_ok_def idx_ok_def intro!: exI [of _ "[]"])
qed

text \<open>The membership test of the code.\<close>

lemma active_iff:
  assumes "tq_invX X s"
  shows "pv s t \<noteq> None \<or> timers s = Some t \<longleftrightarrow> po s t \<noteq> [] \<or> t \<in> X"
proof -
  from assms obtain ts where ts: "dlist (timers s) (nx s) (pv s) ts"
    "\<forall>t. t \<in> set ts \<longleftrightarrow> po s t \<noteq> [] \<or> t \<in> X"
    by (rule tq_invX_listE)
  show ?thesis using dlist_mem_iff [OF ts(1), of t] ts(2) by blast
qed

lemma filter_out_entry:
  assumes "idx_ok h f" and "i < length h" and "snd (h ! i) = t"
  shows "filter_mset (\<lambda>e. snd e \<noteq> t) (mset h) = mset h - {#h ! i#}"
proof -
  let ?l = "take i h" and ?r = "drop (Suc i) h"
  have h: "h = ?l @ h ! i # ?r" using assms(2) by (rule id_take_nth_drop)
  have "distinct (map snd (?l @ h ! i # ?r))" using idx_ok_distinct [OF assms(1)] h by simp
  then have "t \<notin> snd ` set ?l" "t \<notin> snd ` set ?r" using assms(3) by auto
  then have "filter (\<lambda>e. snd e \<noteq> t) ?l = ?l" "filter (\<lambda>e. snd e \<noteq> t) ?r = ?r"
    by (auto simp: filter_id_conv)
  then have "filter (\<lambda>e. snd e \<noteq> t) h = ?l @ ?r"
    using assms(3) by (subst h) simp
  moreover have "mset h = add_mset (h ! i) (mset (?l @ ?r))" by (subst h) simp
  ultimately show ?thesis by (metis add_mset_remove_trivial mset_filter)
qed

lemma filter_absent: "t \<notin> snd ` set h \<Longrightarrow> filter_mset (\<lambda>e. snd e \<noteq> t) (mset h) = mset h"
  by (metis (mono_tags, lifting) filter_True image_eqI mset_filter)

text \<open>\<open>remove_timer\<close> on a timer whose operations have all been taken.\<close>

lemma remove_timer_ok:
  assumes inv: "tq_invX {t} s" and t: "po s t = []"
  shows "tq_inv (remove_timer t s)"
    and "mset (heap (remove_timer t s)) = filter_mset (\<lambda>e. snd e \<noteq> t) (mset (heap s))"
    and "po (remove_timer t s) = po s" and "op_ec (remove_timer t s) = op_ec s"
proof -
  note parts = tq_invX_parts [OF inv]
  let ?h = "heap_remove t s"
  have h: "heap_ok fst (heap ?h) \<and> idx_ok (heap ?h) (ix ?h) \<and> same_links s ?h
    \<and> mset (heap ?h) = filter_mset (\<lambda>e. snd e \<noteq> t) (mset (heap s))"
  proof (cases "ix s t")
    case None
    then have "t \<notin> snd ` set (heap s)" using idx_ok_None [OF parts(2)] by simp
    then show ?thesis using parts None by (simp add: heap_remove_def filter_absent)
  next
    case (Some i)
    then have "i < length (heap s)" "snd (heap s ! i) = t" using idx_okD [OF parts(2)] by auto
    then show ?thesis
      using heap_remove_ok [OF parts(2,1) Some] filter_out_entry [OF parts(2)] by simp
  qed
  then have links: "nx ?h = nx s" "pv ?h = pv s" "po ?h = po s" "timers ?h = timers s" "op_ec ?h = op_ec s"
    by (simp_all add: same_links_def)
  from inv obtain ts where ts: "dlist (timers s) (nx s) (pv s) ts"
    "\<forall>u. u \<in> set ts \<longleftrightarrow> po s u \<noteq> [] \<or> u \<in> {t}"
    by (rule tq_invX_listE)
  then obtain as bs where split: "ts = as @ t # bs" using split_list by fastforce
  have "dlist (timers (unlink t ?h)) (nx (unlink t ?h)) (pv (unlink t ?h)) (as @ bs)"
    using dlist_unlink [OF ts(1) [unfolded split]] by (simp only: unlink_fields links)
  moreover have "u \<in> set (as @ bs) \<longleftrightarrow> po s u \<noteq> []" for u
    using ts split t by (auto simp: dlist_def)
  moreover have "po s (snd e) \<noteq> []" if "e \<in> set (heap ?h)" for e
  proof -
    have "e \<in># filter_mset (\<lambda>e. snd e \<noteq> t) (mset (heap s))" using that h by (metis set_mset_mset)
    then show ?thesis using parts(3) [of e] by auto
  qed
  ultimately show "tq_inv (remove_timer t s)"
    using h by (auto simp: tq_inv_def tq_invX_def remove_timer_split unlink_fields links)
  show "mset (heap (remove_timer t s)) = filter_mset (\<lambda>e. snd e \<noteq> t) (mset (heap s))"
    "po (remove_timer t s) = po s" "op_ec (remove_timer t s) = op_ec s"
    using h by (simp_all add: remove_timer_split unlink_fields links)
qed

text \<open>Taking operations of a timer: either some are left, or the timer is due for removal.\<close>

lemma set_ops_inv:
  assumes inv: "tq_inv s" and t: "po s t \<noteq> []"
  shows "q \<noteq> [] \<Longrightarrow> tq_inv ((set_ops t q s)\<lparr>op_ec := e\<rparr>)"
    and "tq_invX {t} ((set_ops t [] s)\<lparr>op_ec := e\<rparr>)"
proof -
  from inv have inv': "tq_invX {} s" by (simp add: tq_inv_def)
  note parts = tq_invX_parts [OF inv']
  from inv' obtain ts where ts: "dlist (timers s) (nx s) (pv s) ts"
    "\<forall>u. u \<in> set ts \<longleftrightarrow> po s u \<noteq> [] \<or> u \<in> {}"
    by (rule tq_invX_listE)
  show "q \<noteq> [] \<Longrightarrow> tq_inv ((set_ops t q s)\<lparr>op_ec := e\<rparr>)"
    using ts parts t by (auto simp: tq_inv_def tq_invX_def)
  show "tq_invX {t} ((set_ops t [] s)\<lparr>op_ec := e\<rparr>)"
    using ts parts t by (auto simp: tq_invX_def)
qed

section \<open>Enqueueing\<close>

text \<open>The branch of \<open>enqueue_timer\<close> for a timer that is not in the list.\<close>

definition push_entry :: "'t::linorder \<Rightarrow> 'tm \<Rightarrow> ('t, 'tm, 'op) timer_queue \<Rightarrow> ('t, 'tm, 'op) timer_queue" where
  "push_entry time t s =
     (let sb = set_index t (Some (length (heap s))) s;
          sc = sb\<lparr>heap := heap sb @ [(time, t)]\<rparr>
      in up_heap (length (heap sc) - 1) sc)"

definition link_head :: "'tm \<Rightarrow> ('t, 'tm, 'op) timer_queue \<Rightarrow> ('t, 'tm, 'op) timer_queue" where
  "link_head t sa =
     (let sd = set_prev t None (set_next t (timers sa) sa);
          se = (case timers sd of None \<Rightarrow> sd | Some h \<Rightarrow> set_prev h (Some t) sd)
      in se\<lparr>timers := Some t\<rparr>)"

lemma enqueue_timer_split:
  "enqueue_timer isinf time t opn s =
     (let s1 = (if pv s t = None \<and> timers s \<noteq> Some t
                then link_head t (if isinf time then set_index t None s else push_entry time t s)
                else s);
          s2 = set_ops t (po s1 t @ [opn]) s1
      in (ix s2 t = Some 0 \<and> hd (po s2 t) = opn, s2))"
  unfolding enqueue_timer_def push_entry_def link_head_def fields_fold Let_def ..

lemma link_head_fields:
  "nx (link_head t s) = (nx s)(t := timers s)" "po (link_head t s) = po s" "ix (link_head t s) = ix s"
  "heap (link_head t s) = heap s" "op_ec (link_head t s) = op_ec s" "timers (link_head t s) = Some t"
  "pv (link_head t s) =
     (case timers s of None \<Rightarrow> (pv s)(t := None) | Some x \<Rightarrow> ((pv s)(t := None))(x := Some t))"
  by (auto simp: link_head_def Let_def split: option.splits)

lemma enqueue_active:
  assumes inv: "tq_inv s" and t: "po s t \<noteq> []" and r: "enqueue_timer isinf time t opn s = (b, s')"
  shows "tq_inv s'" "heap s' = heap s" "po s' = (po s)(t := po s t @ [opn])" "op_ec s' = op_ec s"
    "b \<longleftrightarrow> ix s t = Some 0 \<and> hd (po s t) = opn"
proof -
  have act: "\<not> (pv s t = None \<and> timers s \<noteq> Some t)"
    using active_iff [OF inv [unfolded tq_inv_def], of t] t by auto
  then have s': "s' = set_ops t (po s t @ [opn]) s"
    using r unfolding enqueue_timer_split if_not_P [OF act] by (simp add: Let_def)
  have b: "b \<longleftrightarrow> ix s t = Some 0 \<and> hd (po s t @ [opn]) = opn"
    using r unfolding enqueue_timer_split if_not_P [OF act] by (auto simp: Let_def)
  have "tq_inv ((set_ops t (po s t @ [opn]) s)\<lparr>op_ec := op_ec s\<rparr>)"
    by (rule set_ops_inv(1) [OF inv t]) simp
  moreover have "(set_ops t (po s t @ [opn]) s)\<lparr>op_ec := op_ec s\<rparr> = s'" by (simp add: s' set_defs)
  ultimately show "tq_inv s'" by simp
  show "heap s' = heap s" "po s' = (po s)(t := po s t @ [opn])" "op_ec s' = op_ec s"
    "b \<longleftrightarrow> ix s t = Some 0 \<and> hd (po s t) = opn"
    using t by (simp_all add: s' b)
qed

text \<open>The heap part of enqueueing a new timer.\<close>

lemma push_entry_ok:
  assumes ok: "idx_ok (heap s) (ix s)" "heap_ok fst (heap s)" and t: "t \<notin> snd ` set (heap s)"
  shows "heap_ok fst (heap (push_entry time t s))"
    "idx_ok (heap (push_entry time t s)) (ix (push_entry time t s))"
    "mset (heap (push_entry time t s)) = add_mset (time, t) (mset (heap s))"
    "same_links s (push_entry time t s)"
    "ix (push_entry time t s) t = Some 0 \<longleftrightarrow> heap s = [] \<or> time < fst (heap s ! 0)"
proof -
  let ?n = "length (heap s)"
  let ?sc = "(set_index t (Some ?n) s)\<lparr>heap := heap s @ [(time, t)]\<rparr>"
  have pe: "push_entry time t s = up_heap ?n ?sc" by (simp add: push_entry_def Let_def)
  have "idx_ok (heap ?sc) (ix ?sc)" using idx_ok_snoc [OF ok(1) t] by simp
  moreover have "up_ok fst (heap ?sc) ?n" using up_ok_snoc [OF ok(2)] by simp
  ultimately have "sifted ?sc (up_heap ?n ?sc)" by (intro up_heap_sifted) auto
  then show res: "heap_ok fst (heap (push_entry time t s))"
    "idx_ok (heap (push_entry time t s)) (ix (push_entry time t s))"
    "mset (heap (push_entry time t s)) = add_mset (time, t) (mset (heap s))"
    "same_links s (push_entry time t s)"
    by (auto simp: pe sifted_def same_links_def)
  let ?h = "heap (push_entry time t s)"
  have len: "0 < length ?h" using res(3) by (metis length_greater_0_conv mset_zero_iff union_eq_empty add_mset_not_empty)
  have root: "ix (push_entry time t s) t = Some 0 \<longleftrightarrow> snd (?h ! 0) = t"
    using idx_okD [OF res(2), of t 0] len by simp
  have mem: "?h ! 0 \<in># add_mset (time, t) (mset (heap s))" using len res(3) by (metis nth_mem_mset)
  show "ix (push_entry time t s) t = Some 0 \<longleftrightarrow> heap s = [] \<or> time < fst (heap s ! 0)"
  proof (cases "heap s = [] \<or> time < fst (heap s ! 0)")
    case True
    have "snd (?h ! 0) = t"
    proof (rule ccontr)
      assume ne: "snd (?h ! 0) \<noteq> t"
      then have "?h ! 0 \<in> set (heap s)" using mem by auto
      then obtain j where j: "j < length (heap s)" "heap s ! j = ?h ! 0" by (metis in_set_conv_nth)
      then have lt: "time < fst (?h ! 0)"
        using True heap_min [OF ok(2) j(1)] by (auto intro: less_le_trans)
      have "(time, t) \<in> set ?h" using res(3) by (metis set_mset_mset union_single_eq_member add_mset_add_single)
      then obtain k where "k < length ?h" "?h ! k = (time, t)" by (metis in_set_conv_nth)
      then have "fst (?h ! 0) \<le> time" using heap_min [OF res(1)] by fastforce
      with lt show False by simp
    qed
    then show ?thesis using True root by simp
  next
    case False
    then have n: "0 < ?n" "?n < length (heap ?sc)" by auto
    have "\<not> fst (heap ?sc ! ?n) < fst (heap ?sc ! 0)" using False n by (simp add: nth_append)
    then have "?h ! 0 = heap ?sc ! 0" unfolding pe by (rule up_heap_keeps_root [OF n])
    then have "?h ! 0 \<in> set (heap s)" using n by (simp add: nth_append)
    then have "snd (?h ! 0) \<noteq> t" using t by force
    then show ?thesis using False root by simp
  qed
qed

lemma enqueue_new:
  assumes inv: "tq_inv s" and t: "po s t = []" and r: "enqueue_timer isinf time t opn s = (b, s')"
  shows "tq_inv s'" "po s' = (po s)(t := [opn])" "op_ec s' = op_ec s"
    "mset (heap s') = (if isinf time then mset (heap s) else add_mset (time, t) (mset (heap s)))"
    "b \<longleftrightarrow> \<not> isinf time \<and> (heap s = [] \<or> time < fst (heap s ! 0))"
proof -
  from inv have inv': "tq_invX {} s" by (simp add: tq_inv_def)
  note parts = tq_invX_parts [OF inv']
  from inv' obtain ts where ts: "dlist (timers s) (nx s) (pv s) ts"
    "\<forall>u. u \<in> set ts \<longleftrightarrow> po s u \<noteq> [] \<or> u \<in> {}"
    by (rule tq_invX_listE)
  have t_ts: "t \<notin> set ts" using ts(2) t by simp
  have t_heap: "t \<notin> snd ` set (heap s)" using parts(3) t by fastforce
  have new: "pv s t = None \<and> timers s \<noteq> Some t" using active_iff [OF inv', of t] t by auto
  let ?sa = "if isinf time then set_index t None s else push_entry time t s"
  have t_None: "ix s t = None" using idx_ok_None [OF parts(2)] t_heap by simp
  have a: "heap_ok fst (heap ?sa)" "idx_ok (heap ?sa) (ix ?sa)"
    "mset (heap ?sa) = (if isinf time then mset (heap s) else add_mset (time, t) (mset (heap s)))"
    "same_links s ?sa"
    "ix ?sa t = Some 0 \<longleftrightarrow> \<not> isinf time \<and> (heap s = [] \<or> time < fst (heap s ! 0))"
    using push_entry_ok [OF parts(2,1) t_heap, of time] parts t_None
    by (auto simp: same_links_def fun_upd_idem)
  then have links: "nx ?sa = nx s" "pv ?sa = pv s" "po ?sa = po s" "timers ?sa = timers s" "op_ec ?sa = op_ec s"
    by (simp_all add: same_links_def)
  define se where "se = link_head t ?sa"
  have s': "s' = set_ops t [opn] se" and b: "b \<longleftrightarrow> ix se t = Some 0"
    using r t links(3) unfolding enqueue_timer_split if_P [OF new] se_def
    by (auto simp: Let_def link_head_fields)
  have se: "nx se = (nx s)(t := timers s)" "po se = po s" "ix se = ix ?sa" "heap se = heap ?sa"
    "op_ec se = op_ec s" "timers se = Some t"
    "pv se = (case timers s of None \<Rightarrow> (pv s)(t := None) | Some x \<Rightarrow> ((pv s)(t := None))(x := Some t))"
    unfolding se_def link_head_fields links by (rule refl)+
  have "dlist (timers s') (nx s') (pv s') (t # ts)"
    using dlist_push [OF ts(1) t_ts] by (simp add: s' se)
  moreover have "u \<in> set (t # ts) \<longleftrightarrow> po s' u \<noteq> []" for u using ts(2) by (simp add: s' se)
  moreover have "po s' (snd e) \<noteq> []" if "e \<in> set (heap s')" for e
  proof -
    have "e \<in># mset (heap ?sa)" using that by (simp add: s' se)
    then have "e = (time, t) \<or> e \<in> set (heap s)" using a(3) by (auto split: if_splits)
    then show ?thesis using parts(3) [of e] by (auto simp: s' se)
  qed
  ultimately have "\<exists>ts. dlist (timers s') (nx s') (pv s') ts \<and> (\<forall>u. u \<in> set ts \<longleftrightarrow> po s' u \<noteq> [] \<or> u \<in> {})"
    "\<forall>e \<in> set (heap s'). po s' (snd e) \<noteq> [] \<or> snd e \<in> {}"
    by blast+
  moreover have "heap_ok fst (heap s')" "idx_ok (heap s') (ix s')" using a by (simp_all add: s' se)
  ultimately show "tq_inv s'" unfolding tq_inv_def tq_invX_def by blast
  show "po s' = (po s)(t := [opn])" "op_ec s' = op_ec s"
    "mset (heap s') = (if isinf time then mset (heap s) else add_mset (time, t) (mset (heap s)))"
    using a by (simp_all add: s' se)
  show "b \<longleftrightarrow> \<not> isinf time \<and> (heap s = [] \<or> time < fst (heap s ! 0))"
    using a(5) by (simp add: b se)
qed

section \<open>Expiry\<close>

lemma ready_ops_eq:
  "ready_ops q ops ec = (ops @ q, \<lambda>x. if x \<in> set q then ec_success else ec x)"
  by (induction q arbitrary: ops ec) (auto simp: fun_eq_iff)

text \<open>\<open>fired now h es\<close>: \<open>es\<close> are the entries of the heap that are due, in order of their times.\<close>

definition fired :: "'t::linorder \<Rightarrow> ('t \<times> 'tm) list \<Rightarrow> ('t \<times> 'tm) list \<Rightarrow> bool" where
  "fired now h es \<longleftrightarrow>
     mset es = filter_mset (\<lambda>e. fst e \<le> now) (mset h) \<and> sorted (map fst es)"

lemma filter_head_out:
  fixes now :: "'t::linorder"
  assumes ok: "idx_ok h f" and i: "i < length h" and due: "fst (h ! i) \<le> now"
    and es: "mset es = filter_mset (\<lambda>e. fst e \<le> now) (filter_mset (\<lambda>e. snd e \<noteq> snd (h ! i)) (mset h))"
  shows "mset (h ! i # es) = filter_mset (\<lambda>e. fst e \<le> now) (mset h)"
    and "filter_mset (\<lambda>e. now < fst e) (filter_mset (\<lambda>e. snd e \<noteq> snd (h ! i)) (mset h))
      = filter_mset (\<lambda>e. now < fst e) (mset h)"
proof -
  define r where "r = filter_mset (\<lambda>e. snd e \<noteq> snd (h ! i)) (mset h)"
  have h: "mset h = add_mset (h ! i) r"
    unfolding r_def using filter_out_entry [OF ok i refl] i by (metis insert_DiffM nth_mem_mset)
  show "mset (h ! i # es) = filter_mset (\<lambda>e. fst e \<le> now) (mset h)"
    using due es unfolding r_def [symmetric] unfolding h by simp
  have "filter_mset (\<lambda>e. now < fst e) r = filter_mset (\<lambda>e. now < fst e) (add_mset (h ! i) r)"
    using leD [OF due] by simp
  then show "filter_mset (\<lambda>e. now < fst e) (filter_mset (\<lambda>e. snd e \<noteq> snd (h ! i)) (mset h))
      = filter_mset (\<lambda>e. now < fst e) (mset h)"
    unfolding r_def [symmetric] unfolding h .
qed

text \<open>One turn of the loop: the first timer is due, and its operations leave with it.\<close>

lemma fire_first:
  assumes inv: "tq_inv s" and due: "heap s \<noteq> []" "\<not> now < fst (heap s ! 0)" and t: "t = snd (heap s ! 0)"
    and s2: "s2 = remove_timer t ((set_ops t [] s)\<lparr>op_ec := \<lambda>x. if x \<in> set (po s t) then ec_success else op_ec s x\<rparr>)"
  shows "tq_inv s2" "mset (heap s2) = filter_mset (\<lambda>e. snd e \<noteq> t) (mset (heap s))" "length (heap s2) < length (heap s)"
    "po s2 = (po s)(t := [])" "op_ec s2 = (\<lambda>x. if x \<in> set (po s t) then ec_success else op_ec s x)"
    "get_ready_loop now ops s = get_ready_loop now (ops @ po s t) s2"
proof -
  from inv have "tq_invX {} s" by (simp add: tq_inv_def)
  note parts = tq_invX_parts [OF this]
  have len: "0 < length (heap s)" using due by auto
  then have ops: "po s t \<noteq> []" using parts(3) [of "heap s ! 0"] by (simp add: t)
  define s1 where "s1 = (set_ops t [] s)\<lparr>op_ec := \<lambda>x. if x \<in> set (po s t) then ec_success else op_ec s x\<rparr>"
  have inv1: "tq_invX {t} s1" unfolding s1_def by (rule set_ops_inv(2) [OF inv ops])
  have "po s1 t = []" by (simp add: s1_def)
  note rem = remove_timer_ok [OF inv1 this, folded s2 [folded s1_def]]
  show h2: "mset (heap s2) = filter_mset (\<lambda>e. snd e \<noteq> t) (mset (heap s))" using rem(2) by (simp add: s1_def)
  then have "mset (heap s2) = mset (heap s) - {#heap s ! 0#}" using filter_out_entry [OF parts(2) len refl] by (simp add: t)
  then have "size (mset (heap s2)) < size (mset (heap s))" using len by (metis nth_mem_mset size_Diff1_less)
  then show "length (heap s2) < length (heap s)" by simp
  show "tq_inv s2" "po s2 = (po s)(t := [])" "op_ec s2 = (\<lambda>x. if x \<in> set (po s t) then ec_success else op_ec s x)"
    using rem(1,3,4) by (simp_all add: s1_def)
  show "get_ready_loop now ops s = get_ready_loop now (ops @ po s t) s2"
    using due by (subst get_ready_loop.simps) (simp add: Let_def ready_ops_eq s2 t fields_fold)
qed

lemma get_ready_loop_ok:
  assumes "tq_inv s"
  shows "\<exists>es s'. get_ready_loop now ops s = Some (ops @ concat (map (\<lambda>e. po s (snd e)) es), s')
    \<and> tq_inv s' \<and> fired now (heap s) es
    \<and> mset (heap s') = filter_mset (\<lambda>e. now < fst e) (mset (heap s))
    \<and> po s' = (\<lambda>t. if t \<in> snd ` set es then [] else po s t)
    \<and> op_ec s' = (\<lambda>x. if x \<in> set (concat (map (\<lambda>e. po s (snd e)) es)) then ec_success else op_ec s x)"
  using assms
proof (induction "length (heap s)" arbitrary: s ops rule: less_induct)
  case (less s ops)
  from less.prems have invX: "tq_invX {} s" by (simp add: tq_inv_def)
  note parts = tq_invX_parts [OF invX]
  show ?case
  proof (cases "heap s \<noteq> [] \<and> \<not> now < fst (heap s ! 0)")
    case False
    have none: "now < fst e" if "e \<in> set (heap s)" for e
    proof -
      from that obtain i where i: "i < length (heap s)" "heap s ! i = e" by (metis in_set_conv_nth)
      then have "now < fst (heap s ! 0)" using False by (cases "heap s") auto
      also have "\<dots> \<le> fst e" using heap_min [OF parts(1) i(1)] i(2) by simp
      finally show ?thesis .
    qed
    then have "filter_mset (\<lambda>e. fst e \<le> now) (mset (heap s)) = {#}"
      "filter_mset (\<lambda>e. now < fst e) (mset (heap s)) = mset (heap s)"
      by (auto simp: filter_mset_eq_conv not_le)
    moreover have "get_ready_loop now ops s = Some (ops, s)"
      using False by (subst get_ready_loop.simps) auto
    ultimately show ?thesis using less.prems
      by (intro exI [of _ "[]"] exI [of _ s]) (simp add: fired_def)
  next
    case True
    let ?t = "snd (heap s ! 0)"
    have len: "0 < length (heap s)" and due: "fst (heap s ! 0) \<le> now" using True by auto
    obtain s2 where s2: "s2 = remove_timer ?t ((set_ops ?t [] s)\<lparr>op_ec := \<lambda>x. if x \<in> set (po s ?t) then ec_success else op_ec s x\<rparr>)"
      by blast
    note fire = fire_first [OF less.prems _ _ refl s2, of now] 
    have inv2: "tq_inv s2" and h2: "mset (heap s2) = filter_mset (\<lambda>e. snd e \<noteq> ?t) (mset (heap s))"
      and shorter: "length (heap s2) < length (heap s)" and po2: "po s2 = (po s)(?t := [])"
      and ec2: "op_ec s2 = (\<lambda>x. if x \<in> set (po s ?t) then ec_success else op_ec s x)"
      and step: "get_ready_loop now ops s = get_ready_loop now (ops @ po s ?t) s2"
      using fire True by blast+
    from less.hyps [OF shorter inv2, of "ops @ po s ?t"] obtain es s' where ih:
      "get_ready_loop now (ops @ po s ?t) s2
         = Some ((ops @ po s ?t) @ concat (map (\<lambda>e. po s2 (snd e)) es), s')"
      "tq_inv s'" "fired now (heap s2) es"
      "mset (heap s') = filter_mset (\<lambda>e. now < fst e) (mset (heap s2))"
      "po s' = (\<lambda>t. if t \<in> snd ` set es then [] else po s2 t)"
      "op_ec s' = (\<lambda>x. if x \<in> set (concat (map (\<lambda>e. po s2 (snd e)) es)) then ec_success else op_ec s2 x)"
      by (elim exE conjE) rule
    have mem: "e \<in> set (heap s) \<and> snd e \<noteq> ?t" if "e \<in> set es" for e
    proof -
      have "e \<in># filter_mset (\<lambda>e. fst e \<le> now) (mset (heap s2))" using that ih(3) by (metis fired_def set_mset_mset)
      then show ?thesis using h2 by auto
    qed
    then have po_es: "map (\<lambda>e. po s2 (snd e)) es = map (\<lambda>e. po s (snd e)) es" by (simp add: po2)
    note out = filter_head_out [OF parts(2) len due, of es]
    have fired: "fired now (heap s) (heap s ! 0 # es)"
    proof -
      have "mset (heap s ! 0 # es) = filter_mset (\<lambda>e. fst e \<le> now) (mset (heap s))"
        using out(1) ih(3) h2 by (simp add: fired_def)
      moreover have "fst (heap s ! 0) \<le> fst e" if "e \<in> set es" for e
        using mem [OF that] heap_min [OF parts(1)] by (metis in_set_conv_nth)
      ultimately show ?thesis using ih(3) by (simp add: fired_def)
    qed
    show ?thesis
    proof (intro exI conjI)
      show "get_ready_loop now ops s
        = Some (ops @ concat (map (\<lambda>e. po s (snd e)) (heap s ! 0 # es)), s')"
        using step ih(1) po_es by simp
      show "mset (heap s') = filter_mset (\<lambda>e. now < fst e) (mset (heap s))"
        using ih(3,4) h2 out(2) by (simp add: fired_def)
      show "po s' = (\<lambda>t. if t \<in> snd ` set (heap s ! 0 # es) then [] else po s t)"
        using ih(5) by (auto simp: po2)
      show "op_ec s' = (\<lambda>x. if x \<in> set (concat (map (\<lambda>e. po s (snd e)) (heap s ! 0 # es)))
          then ec_success else op_ec s x)"
        using ih(6) by (auto simp: po_es ec2 fun_eq_iff)
    qed (use ih fired in auto)
  qed
qed

section \<open>Cancelling\<close>

lemma cancel_ops_eq:
  assumes "num \<le> m"
  shows "cancel_ops num m q ops ec =
    (num + min (m - num) (length q), drop (m - num) q, ops @ take (m - num) q,
     \<lambda>x. if x \<in> set (take (m - num) q) then basic_ec operation_aborted else ec x)"
  using assms
proof (induction q arbitrary: num ops ec)
  case (Cons a q)
  show ?case
  proof (cases "num = m")
    case False
    then have "m - num = Suc (m - (num + 1))" "num + 1 \<le> m" using Cons.prems by auto
    then show ?thesis using False Cons.IH [of "num + 1"] by (auto simp: fun_eq_iff)
  qed simp
qed simp

lemma cancel_by_key_eq:
  "cancel_by_key key_of key q other ops ec =
    (other @ filter (\<lambda>x. key_of x \<noteq> key) q, ops @ filter (\<lambda>x. key_of x = key) q,
     \<lambda>x. if x \<in> set q \<and> key_of x = key then basic_ec operation_aborted else ec x)"
  by (induction q arbitrary: other ops ec) (auto simp: fun_eq_iff)

text \<open>Both cancel operations end by dropping the timer when no operation is left.\<close>

definition settle :: "'tm \<Rightarrow> 'op list \<Rightarrow> ('op \<Rightarrow> error_code) \<Rightarrow> ('t::linorder, 'tm, 'op) timer_queue
    \<Rightarrow> ('t, 'tm, 'op) timer_queue" where
  "settle t q ec s =
     (let s1 = (set_ops t q s)\<lparr>op_ec := ec\<rparr> in if q = [] then remove_timer t s1 else s1)"

lemma settle_ok:
  assumes inv: "tq_inv s" and t: "po s t \<noteq> []"
  shows "tq_inv (settle t q ec s)" "po (settle t q ec s) = (po s)(t := q)" "op_ec (settle t q ec s) = ec"
    "mset (heap (settle t q ec s))
      = (if q = [] then filter_mset (\<lambda>e. snd e \<noteq> t) (mset (heap s)) else mset (heap s))"
proof -
  let ?s1 = "(set_ops t q s)\<lparr>op_ec := ec\<rparr>"
  have "tq_inv (settle t q ec s) \<and> po (settle t q ec s) = (po s)(t := q) \<and> op_ec (settle t q ec s) = ec
    \<and> mset (heap (settle t q ec s))
      = (if q = [] then filter_mset (\<lambda>e. snd e \<noteq> t) (mset (heap s)) else mset (heap s))"
  proof (cases "q = []")
    case True
    have "tq_invX {t} ?s1" using set_ops_inv(2) [OF inv t] True by simp
    moreover have "po ?s1 t = []" using True by simp
    ultimately show ?thesis using remove_timer_ok [of t ?s1] True by (simp add: settle_def)
  next
    case False
    then show ?thesis using set_ops_inv(1) [OF inv t False] by (simp add: settle_def)
  qed
  then show "tq_inv (settle t q ec s)" "po (settle t q ec s) = (po s)(t := q)" "op_ec (settle t q ec s) = ec"
    "mset (heap (settle t q ec s))
      = (if q = [] then filter_mset (\<lambda>e. snd e \<noteq> t) (mset (heap s)) else mset (heap s))"
    by simp_all
qed

lemma cancel_timer_split:
  assumes "tq_inv s"
  shows "cancel_timer t ops m s =
    (if po s t = [] then (0, ops, s)
     else (min m (length (po s t)), ops @ take m (po s t),
           settle t (drop m (po s t))
             (\<lambda>x. if x \<in> set (take m (po s t)) then basic_ec operation_aborted else op_ec s x) s))"
  using active_iff [OF assms [unfolded tq_inv_def], of t]
  unfolding cancel_timer_def fields_fold
  by (auto simp: cancel_ops_eq settle_def Let_def)

lemma cancel_timer_by_key_split:
  assumes "tq_inv s"
  shows "cancel_timer_by_key key_of t ops key s =
    (if po s t = [] then (ops, s)
     else (ops @ filter (\<lambda>x. key_of x = key) (po s t),
           settle t (filter (\<lambda>x. key_of x \<noteq> key) (po s t))
             (\<lambda>x. if x \<in> set (po s t) \<and> key_of x = key then basic_ec operation_aborted else op_ec s x) s))"
  using active_iff [OF assms [unfolded tq_inv_def], of t]
  unfolding cancel_timer_by_key_def fields_fold
  by (auto simp: cancel_by_key_eq settle_def Let_def)

lemma absent_from_heap:
  assumes "tq_inv s" and "po s t = []"
  shows "filter_mset (\<lambda>e. snd e \<noteq> t) (mset (heap s)) = mset (heap s)"
  using tq_invX_parts(3) [OF assms(1) [unfolded tq_inv_def]] assms(2) by (intro filter_absent) fastforce

end
