(* ===== verification/TimerQueueMove.thy ===== *)
theory TimerQueueMove
  imports TimerQueueOps
begin

text \<open>
  The two operations of the timer queue that handle whole timers: \<open>move_timer\<close> (a timer object is
  moved in memory, its heap entry and list links follow it) and \<open>get_all_timers\<close> (shutdown).
\<close>

section \<open>Moving a timer\<close>

definition move_data :: "'tm \<Rightarrow> 'tm \<Rightarrow> ('t, 'tm, 'op) timer_queue \<Rightarrow> ('t, 'tm, 'op) timer_queue" where
  "move_data tgt src s =
     (let s1 = set_ops src [] (set_ops tgt (po s tgt @ po s src) s);
          s2 = set_index tgt (ix s1 src) s1;
          s3 = set_index src None s2
      in (case ix s3 tgt of
            Some i \<Rightarrow> (if i < length (heap s3)
                       then s3\<lparr>heap := (heap s3)[i := (fst (heap s3 ! i), tgt)]\<rparr> else s3)
          | None \<Rightarrow> s3))"

definition move_links :: "'tm \<Rightarrow> 'tm \<Rightarrow> ('t, 'tm, 'op) timer_queue \<Rightarrow> ('t, 'tm, 'op) timer_queue" where
  "move_links tgt src s4 =
     (let s5 = (if timers s4 = Some src then s4\<lparr>timers := Some tgt\<rparr> else s4);
          s6 = (case pv s5 src of None \<Rightarrow> s5 | Some p \<Rightarrow> set_next p (Some tgt) s5);
          s7 = (case nx s6 src of None \<Rightarrow> s6 | Some n \<Rightarrow> set_prev n (Some tgt) s6);
          s8 = set_next tgt (nx s7 src) s7;
          s9 = set_prev tgt (pv s8 src) s8
      in set_prev src None (set_next src None s9))"

lemma move_timer_split: "move_timer tgt src s = move_links tgt src (move_data tgt src s)"
  unfolding move_timer_def move_links_def move_data_def fields_fold Let_def ..

lemma move_data_fields:
  assumes "tgt \<noteq> src"
  shows "nx (move_data tgt src s) = nx s" "pv (move_data tgt src s) = pv s"
    "timers (move_data tgt src s) = timers s" "op_ec (move_data tgt src s) = op_ec s"
    "po (move_data tgt src s) = (po s)(tgt := po s tgt @ po s src, src := [])"
    "ix (move_data tgt src s) = (ix s)(tgt := ix s src, src := None)"
    "heap (move_data tgt src s) =
      (case ix s src of None \<Rightarrow> heap s
       | Some i \<Rightarrow> if i < length (heap s) then (heap s)[i := (fst (heap s ! i), tgt)] else heap s)"
  using assms by (cases "ix s src"; simp add: move_data_def Let_def)+

lemma move_links_fields:
  assumes "tgt \<noteq> src" "pv s src \<noteq> Some src" "nx s src \<noteq> Some src"
  shows "nx (move_links tgt src s) = replace_next (nx s) (pv s) tgt src"
    "pv (move_links tgt src s) = replace_prev (nx s) (pv s) tgt src"
    "timers (move_links tgt src s) = (if timers s = Some src then Some tgt else timers s)"
    "po (move_links tgt src s) = po s" "ix (move_links tgt src s) = ix s"
    "heap (move_links tgt src s) = heap s" "op_ec (move_links tgt src s) = op_ec s"
  using assms
  by (cases "pv s src"; cases "nx s src"; simp add: move_links_def Let_def replace_next_def replace_prev_def)+

lemma move_timer_fields:
  assumes ne: "tgt \<noteq> src" and pv: "pv s src \<noteq> Some src" and nx: "nx s src \<noteq> Some src"
  shows "nx (move_timer tgt src s) = replace_next (nx s) (pv s) tgt src"
    "pv (move_timer tgt src s) = replace_prev (nx s) (pv s) tgt src"
    "po (move_timer tgt src s) = (po s)(tgt := po s tgt @ po s src, src := [])"
    "ix (move_timer tgt src s) = (ix s)(tgt := ix s src, src := None)"
    "timers (move_timer tgt src s) = (if timers s = Some src then Some tgt else timers s)"
    "op_ec (move_timer tgt src s) = op_ec s"
    "heap (move_timer tgt src s) =
      (case ix s src of None \<Rightarrow> heap s
       | Some i \<Rightarrow> if i < length (heap s) then (heap s)[i := (fst (heap s ! i), tgt)] else heap s)"
  using assms unfolding move_timer_split
  by (simp_all only: move_links_fields move_data_fields not_False_eq_True)

lemma update_entry_map:
  assumes ok: "idx_ok h f" and i: "f src = Some i"
  shows "h[i := (fst (h ! i), tgt)] = map (\<lambda>e. if snd e = src then (fst e, tgt) else e) h"
proof (rule nth_equalityI)
  have len: "i < length h" and src: "snd (h ! i) = src" using idx_okD [OF ok] i by auto
  fix k
  assume k: "k < length (h[i := (fst (h ! i), tgt)])"
  then have "snd (h ! k) = src \<longleftrightarrow> k = i" using idx_ok_inj [OF ok, of k i] len src by auto
  then show "h[i := (fst (h ! i), tgt)] ! k = map (\<lambda>e. if snd e = src then (fst e, tgt) else e) h ! k"
    using k by (simp add: nth_list_update)
qed simp

lemma move_heap:
  assumes ok: "idx_ok (heap s) (ix s)" and ne: "tgt \<noteq> src" "pv s src \<noteq> Some src" "nx s src \<noteq> Some src"
  shows "heap (move_timer tgt src s) = map (\<lambda>e. if snd e = src then (fst e, tgt) else e) (heap s)"
proof (cases "ix s src")
  case None
  then have "src \<notin> snd ` set (heap s)" using idx_ok_None [OF ok] by simp
  then have "map (\<lambda>e. if snd e = src then (fst e, tgt) else e) (heap s) = heap s"
    by (intro map_idI) auto
  then show ?thesis using None by (simp add: move_timer_fields(7) [OF ne])
next
  case (Some i)
  then have "i < length (heap s)" using idx_okD [OF ok] by blast
  then show ?thesis using update_entry_map [OF ok Some] Some by (simp add: move_timer_fields(7) [OF ne])
qed

lemma idx_ok_rename:
  assumes ok: "idx_ok h f" and tgt: "f tgt = None" and ne: "tgt \<noteq> src"
  shows "idx_ok (map (\<lambda>e. if snd e = src then (fst e, tgt) else e) h) (f(tgt := f src, src := None))"
  unfolding idx_ok_def
proof (intro allI)
  fix t i
  have src: "f src = Some i \<longleftrightarrow> i < length h \<and> snd (h ! i) = src" by (rule idx_okD [OF ok])
  have "i < length h \<Longrightarrow> snd (h ! i) \<noteq> tgt" using idx_okD [OF ok, of tgt i] tgt by auto
  then show "(f(tgt := f src, src := None)) t = Some i \<longleftrightarrow>
      i < length (map (\<lambda>e. if snd e = src then (fst e, tgt) else e) h)
      \<and> snd (map (\<lambda>e. if snd e = src then (fst e, tgt) else e) h ! i) = t"
    using src ne idx_okD [OF ok, of t i] by auto
qed

lemma heap_ok_rename:
  assumes "heap_ok fst h"
  shows "heap_ok fst (map (\<lambda>e. if snd e = src then (fst e, tgt) else e) h)"
proof -
  have "fst (map (\<lambda>e. if snd e = src then (fst e, tgt) else e) h ! i) = fst (h ! i)" if "i < length h" for i
    using that by simp
  moreover have "par i < length h" if "i < length h" for i
    using that by (cases "i = 0") (auto simp: par_def)
  ultimately show ?thesis using assms by (simp add: heap_ok_def)
qed

lemma move_timer_ok:
  assumes inv: "tq_inv s" and tgt: "po s tgt = []" and ne: "tgt \<noteq> src"
  shows "tq_inv (move_timer tgt src s)"
    "po (move_timer tgt src s) = (po s)(tgt := po s src, src := [])"
    "heap (move_timer tgt src s) = map (\<lambda>e. if snd e = src then (fst e, tgt) else e) (heap s)"
    "op_ec (move_timer tgt src s) = op_ec s"
proof -
  from inv have inv': "tq_invX {} s" by (simp add: tq_inv_def)
  note parts = tq_invX_parts [OF inv']
  from inv' obtain ts where ts: "dlist (timers s) (nx s) (pv s) ts"
    "\<forall>u. u \<in> set ts \<longleftrightarrow> po s u \<noteq> [] \<or> u \<in> {}"
    by (rule tq_invX_listE)
  have tgt_ts: "tgt \<notin> set ts" using ts(2) tgt by simp
  have tgt_heap: "ix s tgt = None" using idx_ok_None [OF parts(2)] parts(3) tgt by fastforce
  have "pv s src \<noteq> Some src \<and> nx s src \<noteq> Some src
    \<and> (\<exists>us. dlist (if timers s = Some src then Some tgt else timers s)
         (replace_next (nx s) (pv s) tgt src) (replace_prev (nx s) (pv s) tgt src) us
       \<and> set us = (if src \<in> set ts then insert tgt (set ts - {src}) else set ts))"
  proof (cases "src \<in> set ts")
    case True
    then obtain as bs where split: "ts = as @ src # bs" by (auto dest: split_list)
    note sp = dlist_split [OF ts(1) [unfolded split]]
    have dis: "src \<notin> set as" "src \<notin> set bs" using ts(1) split by (auto simp: dlist_def)
    then have "pv s src \<noteq> Some src" "nx s src \<noteq> Some src"
      using sp(1,2) by (auto dest: opt_hd_in opt_last_in)
    moreover have "set (as @ tgt # bs) = insert tgt (set ts - {src})" using split dis by auto
    ultimately show ?thesis
      using dlist_replace [OF ts(1) [unfolded split] tgt_ts [unfolded split]] True by metis
  next
    case False
    then have none: "nx s src = None" "pv s src = None" "timers s \<noteq> Some src"
      using ts(1) by (auto simp: dlist_def dest: opt_hd_in)
    have tnone: "nx s tgt = None" "pv s tgt = None" using ts(1) tgt_ts by (auto simp: dlist_def)
    have "replace_next (nx s) (pv s) tgt src = nx s" "replace_prev (nx s) (pv s) tgt src = pv s"
      using none tnone by (auto simp: replace_next_def replace_prev_def fun_eq_iff)
    then show ?thesis using False none ts(1) by auto
  qed
  then obtain us where self: "pv s src \<noteq> Some src" "nx s src \<noteq> Some src"
    and us: "dlist (if timers s = Some src then Some tgt else timers s)
         (replace_next (nx s) (pv s) tgt src) (replace_prev (nx s) (pv s) tgt src) us"
      "set us = (if src \<in> set ts then insert tgt (set ts - {src}) else set ts)" by blast
  note f = move_timer_fields [OF ne self]
  show po: "po (move_timer tgt src s) = (po s)(tgt := po s src, src := [])"
    and h: "heap (move_timer tgt src s) = map (\<lambda>e. if snd e = src then (fst e, tgt) else e) (heap s)"
    and "op_ec (move_timer tgt src s) = op_ec s"
    using move_heap [OF parts(2) ne self] by (simp_all add: f tgt)
  have "u \<in> set us \<longleftrightarrow> po (move_timer tgt src s) u \<noteq> []" for u
    using us(2) ts(2) tgt ne by (auto simp: po)
  moreover have "dlist (timers (move_timer tgt src s)) (nx (move_timer tgt src s)) (pv (move_timer tgt src s)) us"
    using us(1) by (simp only: f)
  moreover have "po (move_timer tgt src s) (snd e) \<noteq> []" if e: "e \<in> set (heap (move_timer tgt src s))" for e
  proof -
    from e have "e \<in> (\<lambda>d. if snd d = src then (fst d, tgt) else d) ` set (heap s)" by (simp only: h set_map)
    then obtain d where d: "d \<in> set (heap s)" "e = (if snd d = src then (fst d, tgt) else d)" by blast
    then have "po s (snd d) \<noteq> []" using parts(3) by auto
    then show ?thesis using d(2) tgt ne by (auto simp: po)
  qed
  moreover have "heap_ok fst (heap (move_timer tgt src s))"
    "idx_ok (heap (move_timer tgt src s)) (ix (move_timer tgt src s))"
    using heap_ok_rename [OF parts(1)] idx_ok_rename [OF parts(2) tgt_heap ne] by (simp_all only: h f)
  ultimately show "tq_inv (move_timer tgt src s)" unfolding tq_inv_def tq_invX_def by blast
qed

section \<open>Shutdown\<close>

lemma get_all_loop_ok:
  assumes "timers s = opt_hd ts" "distinct ts" "dseg (nx s) (pv s) p ts None"
    "\<forall>x. x \<notin> set ts \<longrightarrow> nx s x = None \<and> pv s x = None"
  shows "\<exists>s'. get_all_loop ops s = Some (ops @ concat (map (po s) ts), s')
    \<and> timers s' = None \<and> nx s' = (\<lambda>_. None) \<and> pv s' = (\<lambda>_. None)
    \<and> po s' = (\<lambda>t. if t \<in> set ts then [] else po s t)
    \<and> ix s' = ix s \<and> heap s' = heap s \<and> op_ec s' = op_ec s"
  using assms
proof (induction ts arbitrary: s p ops)
  case Nil
  then show ?case by (subst get_all_loop.simps) (auto simp: fun_eq_iff)
next
  case (Cons t ts)
  define s1 where "s1 = set_prev t None (set_next t None (set_ops t [] (s\<lparr>timers := nx s t\<rparr>)))"
  have step: "get_all_loop ops s = get_all_loop (ops @ po s t) s1"
    using Cons.prems(1) by (subst get_all_loop.simps) (simp add: Let_def s1_def fields_fold)
  have f: "nx s1 = (nx s)(t := None)" "pv s1 = (pv s)(t := None)" "po s1 = (po s)(t := [])"
    "ix s1 = ix s" "heap s1 = heap s" "op_ec s1 = op_ec s" "timers s1 = nx s t"
    by (simp_all add: s1_def)
  have t: "t \<notin> set ts" using Cons.prems(2) by simp
  have "timers s1 = opt_hd ts" using Cons.prems(3) by (cases ts) (simp_all add: f)
  moreover have "distinct ts" using Cons.prems(2) by simp
  moreover have "dseg (nx s1) (pv s1) (Some t) ts None"
  proof -
    have "dseg (nx s1) (pv s1) (Some t) ts None \<longleftrightarrow> dseg (nx s) (pv s) (Some t) ts None"
      by (rule dseg_cong) (use t in \<open>auto simp: f\<close>)
    then show ?thesis using Cons.prems(3) by simp
  qed
  moreover have "\<forall>x. x \<notin> set ts \<longrightarrow> nx s1 x = None \<and> pv s1 x = None" using Cons.prems(4) by (auto simp: f)
  ultimately have "\<exists>s'. get_all_loop (ops @ po s t) s1 = Some ((ops @ po s t) @ concat (map (po s1) ts), s')
    \<and> timers s' = None \<and> nx s' = (\<lambda>_. None) \<and> pv s' = (\<lambda>_. None)
    \<and> po s' = (\<lambda>t. if t \<in> set ts then [] else po s1 t)
    \<and> ix s' = ix s1 \<and> heap s' = heap s1 \<and> op_ec s' = op_ec s1"
    by (rule Cons.IH)
  then obtain s' where ih:
    "get_all_loop (ops @ po s t) s1 = Some ((ops @ po s t) @ concat (map (po s1) ts), s')"
    "timers s' = None" "nx s' = (\<lambda>_. None)" "pv s' = (\<lambda>_. None)"
    "po s' = (\<lambda>t. if t \<in> set ts then [] else po s1 t)"
    "ix s' = ix s1" "heap s' = heap s1" "op_ec s' = op_ec s1"
    by (elim exE conjE) rule
  have map: "map (po s1) ts = map (po s) ts" using t by (auto simp: f)
  have po: "po s' = (\<lambda>u. if u \<in> set (t # ts) then [] else po s u)" by (auto simp: ih(5) f)
  show ?case
  proof (intro exI conjI)
    show "get_all_loop ops s = Some (ops @ concat (map (po s) (t # ts)), s')"
      using step ih(1) unfolding map by simp
  qed (use ih(2-4,6-8) f po in simp_all)
qed

lemma get_all_timers_ok:
  assumes inv: "tq_inv s"
  obtains ts s' where "distinct ts" "set ts = {t. po s t \<noteq> []}"
    "get_all_timers ops s = Some (ops @ concat (map (po s) ts), s')"
    "tq_empty s'" "heap s' = []" "po s' = (\<lambda>_. [])" "ix s' = ix s" "op_ec s' = op_ec s"
proof -
  from inv have inv': "tq_invX {} s" by (simp add: tq_inv_def)
  from inv' obtain ts where ts: "dlist (timers s) (nx s) (pv s) ts"
    "\<forall>u. u \<in> set ts \<longleftrightarrow> po s u \<noteq> [] \<or> u \<in> {}"
    by (rule tq_invX_listE)
  then obtain s' where s': "get_all_loop ops s = Some (ops @ concat (map (po s) ts), s')"
    "timers s' = None" "po s' = (\<lambda>t. if t \<in> set ts then [] else po s t)"
    "ix s' = ix s" "heap s' = heap s" "op_ec s' = op_ec s"
    using get_all_loop_ok [of s ts None ops] unfolding dlist_def by (elim exE conjE) blast
  show ?thesis
  proof (rule that)
    show "get_all_timers ops s = Some (ops @ concat (map (po s) ts), s'\<lparr>heap := []\<rparr>)"
      using s' by (simp add: get_all_timers_def)
    show "po (s'\<lparr>heap := []\<rparr>) = (\<lambda>_. [])" using s'(3) ts(2) by (auto simp: fun_eq_iff)
  qed (use s' ts in \<open>auto simp: tq_empty_def dlist_def\<close>)
qed

end
