(* ===== verification/TimerContract.thy ===== *)
theory TimerContract
  imports TimerQueueMove
begin

text \<open>
  What the timer queue promises the reactor that owns it (\<open>epoll_reactor::schedule_timer\<close>,
  \<open>cancel_timer\<close>, \<open>move_timer\<close>, and the expiry pass of \<open>run\<close>): the properties of each operation,
  and the contract \<open>timer_store\<close>, under which no wait operation is lost or completed twice.
\<close>

section \<open>The contract\<close>

text \<open>\<open>accounted S D p\<close>: of the operations \<open>S\<close> scheduled so far, those in \<open>D\<close> were handed out, each
  once, and every other is pending on exactly one timer.\<close>

definition accounted :: "'op set \<Rightarrow> 'op list \<Rightarrow> ('tm \<Rightarrow> 'op list) \<Rightarrow> bool" where
  "accounted S D p \<longleftrightarrow>
     distinct D \<and> (\<forall>t. distinct (p t)) \<and> (\<forall>t. set (p t) \<inter> set D = {})
     \<and> (\<forall>t u. t \<noteq> u \<longrightarrow> set (p t) \<inter> set (p u) = {})
     \<and> S = set D \<union> (\<Union>t. set (p t))"

lemma accounted_init: "accounted {} [] (\<lambda>_. [])"
  by (simp add: accounted_def)

lemma accounted_add:
  assumes "accounted S D p" "x \<notin> S"
  shows "accounted (insert x S) D (p(t := p t @ [x]))"
  using assms unfolding accounted_def by (auto split: if_splits)

text \<open>Handing out a part of one timer's operations.\<close>

lemma accounted_take:
  assumes a: "accounted S D p" and pm: "mset (p t) = mset out + mset rest"
  shows "accounted S (D @ out) (p(t := rest))"
proof -
  have set: "set (p t) = set out \<union> set rest" by (metis pm set_mset_mset set_mset_union)
  have "distinct (out @ rest)" using a pm
    by (metis accounted_def mset_append mset_eq_imp_distinct_iff)
  then show ?thesis using a set unfolding accounted_def by (auto split: if_splits; blast)
qed

text \<open>Handing out all operations of several timers.\<close>

lemma accounted_take_all:
  assumes "accounted S D p" "distinct ts"
  shows "accounted S (D @ concat (map p ts)) (\<lambda>t. if t \<in> set ts then [] else p t)"
  using assms
proof (induction ts arbitrary: D p)
  case (Cons t ts)
  have one: "accounted S (D @ p t) (p(t := []))" by (rule accounted_take [OF Cons.prems(1)]) simp
  have "accounted S ((D @ p t) @ concat (map (p(t := [])) ts))
    (\<lambda>u. if u \<in> set ts then [] else (p(t := [])) u)"
    by (rule Cons.IH [OF one]) (use Cons.prems(2) in simp)
  moreover have map: "map (p(t := [])) ts = map p ts" using Cons.prems(2) by auto
  moreover have rest: "(\<lambda>u. if u \<in> set ts then [] else (p(t := [])) u) = (\<lambda>u. if u \<in> set (t # ts) then [] else p u)"
    by auto
  ultimately show ?case unfolding map rest by simp
qed simp

lemma accounted_move:
  assumes "accounted S D p" "p tgt = []" "tgt \<noteq> src"
  shows "accounted S D (p(tgt := p src, src := []))"
proof -
  have "(\<Union>t. set ((p(tgt := p src, src := [])) t)) = (\<Union>t. set (p t))"
  proof (intro set_eqI iffI)
    fix x assume "x \<in> (\<Union>t. set (p t))"
    then obtain t where t: "x \<in> set (p t)" by blast
    show "x \<in> (\<Union>t. set ((p(tgt := p src, src := [])) t))"
    proof (cases "t = src")
      case True
      then show ?thesis using t assms(3) by (intro UN_I [of tgt]) auto
    next
      case False
      then show ?thesis using t assms(2) by (intro UN_I [of t]) auto
    qed
  qed (auto split: if_splits)
  then show ?thesis using assms unfolding accounted_def by auto
qed

locale timer_store =
  fixes inv :: "'s \<Rightarrow> bool"
    and pending :: "'s \<Rightarrow> 'tm \<Rightarrow> 'op list"
    and enq :: "'t \<Rightarrow> 'tm \<Rightarrow> 'op \<Rightarrow> 's \<Rightarrow> 's"
    and expire :: "'t \<Rightarrow> 's \<Rightarrow> ('op list \<times> 's) option"
    and cancel :: "'tm \<Rightarrow> nat \<Rightarrow> 's \<Rightarrow> 'op list \<times> 's"
    and move :: "'tm \<Rightarrow> 'tm \<Rightarrow> 's \<Rightarrow> 's"
  assumes enq_law: "inv s \<Longrightarrow> inv (enq time t x s) \<and> pending (enq time t x s) = (pending s)(t := pending s t @ [x])"
    and expire_law: "inv s \<Longrightarrow> \<exists>ts s'. expire now s = Some (concat (map (pending s) ts), s') \<and> inv s'
      \<and> distinct ts \<and> pending s' = (\<lambda>t. if t \<in> set ts then [] else pending s t)"
    and cancel_law: "inv s \<Longrightarrow> \<exists>s'. cancel t n s = (take n (pending s t), s') \<and> inv s'
      \<and> pending s' = (pending s)(t := drop n (pending s t))"
    and move_law: "inv s \<Longrightarrow> pending s tgt = [] \<Longrightarrow> tgt \<noteq> src \<Longrightarrow>
      inv (move tgt src s) \<and> pending (move tgt src s) = (pending s)(tgt := pending s src, src := [])"
begin

definition books :: "'op set \<Rightarrow> 'op list \<Rightarrow> 's \<Rightarrow> bool" where
  "books S D s \<longleftrightarrow> inv s \<and> accounted S D (pending s)"

lemma books_enq: "books S D s \<Longrightarrow> x \<notin> S \<Longrightarrow> books (insert x S) D (enq time t x s)"
  using accounted_add enq_law by (auto simp: books_def)

lemma books_expire:
  assumes "books S D s"
  obtains ops s' where "expire now s = Some (ops, s')" "books S (D @ ops) s'"
  using expire_law [of s now] accounted_take_all [of S D "pending s"] assms by (auto simp: books_def)

lemma books_expire_step: "books S D s \<Longrightarrow> expire now s = Some (ops, s') \<Longrightarrow> books S (D @ ops) s'"
  by (metis books_expire option.inject prod.inject)

lemma books_cancel:
  assumes "books S D s" "cancel t n s = (ops, s')"
  shows "books S (D @ ops) s'"
proof -
  have inv: "inv s" and acc: "accounted S D (pending s)" using assms(1) by (simp_all add: books_def)
  have ops: "ops = take n (pending s t)" and s': "inv s'"
    and pend: "pending s' = (pending s)(t := drop n (pending s t))"
    using cancel_law [OF inv, of t n] assms(2) by auto
  have "mset (pending s t) = mset ops + mset (drop n (pending s t))"
    by (metis append_take_drop_id mset_append ops)
  then show ?thesis using accounted_take [OF acc] s' by (simp add: books_def pend)
qed

lemma books_move:
  "books S D s \<Longrightarrow> pending s tgt = [] \<Longrightarrow> tgt \<noteq> src \<Longrightarrow> books S D (move tgt src s)"
  using accounted_move [of S D "pending s" tgt src] move_law by (simp add: books_def)

end

section \<open>The timer queue as the provider\<close>

lemma enqueue_timer_ok:
  assumes "tq_inv s"
  shows "tq_inv (snd (enqueue_timer isinf time t x s))"
    "po (snd (enqueue_timer isinf time t x s)) = (po s)(t := po s t @ [x])"
    "op_ec (snd (enqueue_timer isinf time t x s)) = op_ec s"
  using enqueue_new [OF assms] enqueue_active [OF assms]
  by (cases "po s t = []"; metis append_Nil prod.collapse)+

lemma get_ready_timers_ok:
  assumes "tq_inv s"
  obtains es s' where
    "get_ready_timers now ops s = Some (ops @ concat (map (\<lambda>e. po s (snd e)) es), s')"
    "tq_inv s'" "fired now (heap s) es"
    "mset (heap s') = filter_mset (\<lambda>e. now < fst e) (mset (heap s))"
    "po s' = (\<lambda>t. if t \<in> snd ` set es then [] else po s t)"
    "op_ec s' = (\<lambda>x. if x \<in> set (concat (map (\<lambda>e. po s (snd e)) es)) then ec_success else op_ec s x)"
proof (cases "heap s = []")
  case True
  show ?thesis
    by (rule that [of "[]" s]) (use True assms in \<open>simp_all add: get_ready_timers_def fired_def\<close>)
next
  case False
  then have "get_ready_timers now ops s = get_ready_loop now ops s" by (simp add: get_ready_timers_def)
  then show ?thesis using get_ready_loop_ok [OF assms, of now ops] that by (elim exE conjE) simp
qed

lemma fired_distinct:
  assumes inv: "tq_inv s" and f: "fired now (heap s) es"
  shows "distinct (map snd es)"
proof -
  have dis: "distinct (map snd (heap s))"
    using idx_ok_distinct tq_invX_parts(2) inv by (metis tq_inv_def)
  have "mset es = mset (filter (\<lambda>e. fst e \<le> now) (heap s))" using f by (simp add: fired_def)
  then have "mset (map snd es) = mset (map snd (filter (\<lambda>e. fst e \<le> now) (heap s)))" by (metis mset_map)
  moreover have "distinct (map snd (filter (\<lambda>e. fst e \<le> now) (heap s)))" using dis by (rule distinct_map_filter)
  ultimately show ?thesis using mset_eq_imp_distinct_iff by blast
qed

interpretation tqs: timer_store
  "tq_inv :: ('t::linorder, 'tm, 'op) timer_queue \<Rightarrow> bool" po
  "\<lambda>time t x s. snd (enqueue_timer isinf time t x s)"
  "\<lambda>now. get_ready_timers now []"
  "\<lambda>t n s. snd (cancel_timer t [] n s)"
  move_timer
proof unfold_locales
  fix s :: "('t, 'tm, 'op) timer_queue" and time t x
  assume "tq_inv s"
  then show "tq_inv (snd (enqueue_timer isinf time t x s))
    \<and> po (snd (enqueue_timer isinf time t x s)) = (po s)(t := po s t @ [x])"
    by (simp add: enqueue_timer_ok)
next
  fix s :: "('t, 'tm, 'op) timer_queue" and now
  assume inv: "tq_inv s"
  from get_ready_timers_ok [OF inv, of now "[]"] obtain es s' where r:
    "get_ready_timers now [] s = Some ([] @ concat (map (\<lambda>e. po s (snd e)) es), s')"
    "tq_inv s'" "fired now (heap s) es" "po s' = (\<lambda>t. if t \<in> snd ` set es then [] else po s t)" .
  show "\<exists>ts s'. get_ready_timers now [] s = Some (concat (map (po s) ts), s') \<and> tq_inv s'
    \<and> distinct ts \<and> po s' = (\<lambda>t. if t \<in> set ts then [] else po s t)"
    using r fired_distinct [OF inv r(3)] by (intro exI [of _ "map snd es"] exI [of _ s']) (simp add: comp_def)
next
  fix s :: "('t, 'tm, 'op) timer_queue" and t n
  assume inv: "tq_inv s"
  show "\<exists>s'. snd (cancel_timer t [] n s) = (take n (po s t), s') \<and> tq_inv s'
    \<and> po s' = (po s)(t := drop n (po s t))"
  proof (cases "po s t = []")
    case True
    then show ?thesis using inv by (simp add: cancel_timer_split [OF inv] fun_upd_idem)
  next
    case False
    then show ?thesis using settle_ok [OF inv False] by (simp add: cancel_timer_split [OF inv])
  qed
next
  fix s :: "('t, 'tm, 'op) timer_queue" and tgt src
  assume "tq_inv s" "po s tgt = []" "tgt \<noteq> src"
  then show "tq_inv (move_timer tgt src s) \<and> po (move_timer tgt src s) = (po s)(tgt := po s src, src := [])"
    by (simp add: move_timer_ok)
qed

end
