(* ===== verification/TimerSpec.thy ===== *)
theory TimerSpec
  imports TimerContract
begin

text \<open>
  The properties of the timer queue, and their witnesses on a queue of two timers.
\<close>

text \<open>A queue with timer 1 waiting until 5 (operation 10) and timer 2 until 3 (operations 20, 21).\<close>

definition two_timers :: "(nat, nat, nat) timer_queue" where
  "two_timers =
     snd (enqueue_timer (\<lambda>_. False) 3 2 21 (snd (enqueue_timer (\<lambda>_. False) 3 2 20
       (snd (enqueue_timer (\<lambda>_. False) 5 1 10 (new_timer_queue (\<lambda>_. basic_ec fault)))))))"

lemma two_timers_inv: "tq_inv two_timers"
  unfolding two_timers_def by (intro enqueue_timer_ok(1) new_timer_queue_inv)

lemma two_timers_po: "po two_timers = (\<lambda>_. [])(1 := [10], 2 := [20, 21])"
proof -
  note inv = enqueue_timer_ok(1) new_timer_queue_inv
  have "po (new_timer_queue (\<lambda>_. basic_ec fault) :: (nat, nat, nat) timer_queue) = (\<lambda>_. [])"
    by (simp add: fun_eq_iff po_def new_timer_queue_def new_timer_def)
  then show ?thesis
    unfolding two_timers_def by (simp add: enqueue_timer_ok(2) inv fun_eq_iff)
qed

lemma two_timers_heap: "heap two_timers = [(3, 2), (5, 1)]"
  by (simp add: two_timers_def enqueue_timer_def new_timer_queue_def new_timer_def set_defs Let_def
      up_heap.simps swap_heap_def)

text \<open>\<open>enqueue_timer\<close> keeps the invariant of the queue, appends the operation to those waiting on
  its timer and leaves every other timer alone. It returns true, which tells the reactor to reprogram
  its wake-up, exactly if the operation is the first of its timer and the timer expires strictly before
  every other one (a timer at positive infinity never does).\<close>

theorem enqueue_timer_correct:
  assumes "tq_inv s" and "opn \<notin> set (po s timer)"
    and "enqueue_timer is_pos_inf time timer opn s = (earliest, s')"
  shows "tq_inv s' \<and> po s' = (po s)(timer := po s timer @ [opn])
    \<and> mset (heap s') = (if po s timer = [] \<and> \<not> is_pos_inf time
       then add_mset (time, timer) (mset (heap s)) else mset (heap s))
    \<and> (earliest \<longleftrightarrow> po s timer = [] \<and> \<not> is_pos_inf time \<and> (\<forall>e \<in> set (heap s). time < fst e))"
proof (cases "po s timer = []")
  case True
  have ok: "heap_ok fst (heap s)" using tq_invX_parts(1) assms(1) by (metis tq_inv_def)
  have "(heap s = [] \<or> time < fst (heap s ! 0)) \<longleftrightarrow> (\<forall>e \<in> set (heap s). time < fst e)"
  proof (cases "heap s = []")
    case False
    have "fst (heap s ! 0) \<le> fst e" if "e \<in> set (heap s)" for e
      using heap_min [OF ok] that by (metis in_set_conv_nth)
    then show ?thesis using False by (auto intro: less_le_trans)
  qed simp
  then show ?thesis using enqueue_new [OF assms(1) True assms(3)] True by auto
next
  case False
  then have "hd (po s timer) \<noteq> opn" using assms(2) by (metis hd_in_set)
  then show ?thesis using enqueue_active [OF assms(1) False assms(3)] False by auto
qed

theorem enqueue_timer_correct_witness:
  "fst (enqueue_timer (\<lambda>_. False) 2 (7::nat) 70 two_timers)
   \<and> \<not> fst (enqueue_timer (\<lambda>_. False) 3 (7::nat) 70 two_timers)"
  using enqueue_timer_correct [OF two_timers_inv _ surjective_pairing, of 70 7 "\<lambda>_. False" 2]
    enqueue_timer_correct [OF two_timers_inv _ surjective_pairing, of 70 7 "\<lambda>_. False" 3]
  by (simp add: two_timers_po two_timers_heap)

text \<open>\<open>get_ready_timers\<close> ends, and appends to the caller's queue all operations of exactly the
  timers that are due, timer by timer in the order of their expiry times and in arrival order within a
  timer, each with the success code; the other timers and their operations are left as they were.\<close>

theorem get_ready_timers_correct:
  assumes "tq_inv s"
  shows "\<exists>es s'. get_ready_timers now ops s = Some (ops @ concat (map (\<lambda>e. po s (snd e)) es), s')
    \<and> mset es = filter_mset (\<lambda>e. fst e \<le> now) (mset (heap s)) \<and> sorted (map fst es)
    \<and> tq_inv s' \<and> mset (heap s') = filter_mset (\<lambda>e. now < fst e) (mset (heap s))
    \<and> po s' = (\<lambda>t. if t \<in> snd ` set es then [] else po s t)
    \<and> (\<forall>x. op_ec s' x = (if \<exists>e \<in> set es. x \<in> set (po s (snd e)) then ec_success else op_ec s x))"
proof -
  from get_ready_timers_ok [OF assms, of now ops] obtain es s' where r:
    "get_ready_timers now ops s = Some (ops @ concat (map (\<lambda>e. po s (snd e)) es), s')"
    "tq_inv s'" "fired now (heap s) es"
    "mset (heap s') = filter_mset (\<lambda>e. now < fst e) (mset (heap s))"
    "po s' = (\<lambda>t. if t \<in> snd ` set es then [] else po s t)"
    "op_ec s' = (\<lambda>x. if x \<in> set (concat (map (\<lambda>e. po s (snd e)) es)) then ec_success else op_ec s x)" .
  then show ?thesis by (intro exI [of _ es] exI [of _ s']) (auto simp: fired_def)
qed

theorem get_ready_timers_correct_witness:
  "map_option fst (get_ready_timers 4 [99] two_timers) = Some [99, 20, 21]"
proof -
  from get_ready_timers_correct [OF two_timers_inv, of 4 "[99]"] obtain es where
    r: "map_option fst (get_ready_timers 4 [99] two_timers)
          = Some ([99] @ concat (map (\<lambda>e. po two_timers (snd e)) es))"
      "mset es = filter_mset (\<lambda>e. fst e \<le> 4) (mset (heap two_timers))" by auto
  then have "es = [(3, 2)]" by (simp add: two_timers_heap)
  then show ?thesis using r(1) by (simp add: two_timers_po)
qed

text \<open>\<open>cancel_timer\<close> takes the oldest operations of the timer, at most \<open>max_cancelled\<close> of them,
  completes them with \<open>operation_aborted\<close> in their order and returns their number; the timer leaves the
  queue exactly if none is left, and no other timer changes.\<close>

theorem cancel_timer_correct:
  assumes "tq_inv s" and "cancel_timer timer ops max_cancelled s = (n, ops', s')"
  shows "n = min max_cancelled (length (po s timer)) \<and> ops' = ops @ take n (po s timer)
    \<and> tq_inv s' \<and> po s' = (po s)(timer := drop n (po s timer))
    \<and> mset (heap s') = (if drop n (po s timer) = []
      then filter_mset (\<lambda>e. snd e \<noteq> timer) (mset (heap s)) else mset (heap s))
    \<and> (\<forall>x. op_ec s' x = (if x \<in> set (take n (po s timer)) then basic_ec operation_aborted else op_ec s x))"
proof (cases "po s timer = []")
  case True
  then show ?thesis
    using assms absent_from_heap [OF assms(1) True] by (auto simp: cancel_timer_split fun_upd_idem)
next
  case False
  have n: "take (min k (length xs)) xs = take k xs" "drop (min k (length xs)) xs = drop k xs"
    for k and xs :: "'c list" by (auto simp: min_def)
  show ?thesis using assms False settle_ok [OF assms(1) False] by (auto simp: cancel_timer_split n)
qed

theorem cancel_timer_correct_witness:
  "fst (cancel_timer 2 [] 1 two_timers) = 1 \<and> fst (snd (cancel_timer 2 [] 1 two_timers)) = [20]
   \<and> tq_inv (snd (snd (cancel_timer 2 [] 1 two_timers)))"
proof -
  obtain n ops' s' where r: "cancel_timer 2 [] 1 two_timers = (n, ops', s')" by (metis prod_cases3)
  show ?thesis
    using cancel_timer_correct [OF two_timers_inv r] unfolding r by (simp add: two_timers_po)
qed

text \<open>\<open>cancel_timer_by_key\<close> aborts exactly the operations of the timer that carry the key, in
  order, and keeps the others waiting in order.\<close>

theorem cancel_timer_by_key_correct:
  assumes "tq_inv s" and "cancel_timer_by_key key_of timer ops key s = (ops', s')"
  shows "ops' = ops @ filter (\<lambda>x. key_of x = key) (po s timer)
    \<and> tq_inv s' \<and> po s' = (po s)(timer := filter (\<lambda>x. key_of x \<noteq> key) (po s timer))
    \<and> (\<forall>x. op_ec s' x = (if x \<in> set (po s timer) \<and> key_of x = key
      then basic_ec operation_aborted else op_ec s x))"
proof (cases "po s timer = []")
  case True
  then show ?thesis using assms by (auto simp: cancel_timer_by_key_split fun_upd_idem)
next
  case False
  then show ?thesis using assms settle_ok [OF assms(1) False] by (auto simp: cancel_timer_by_key_split)
qed

theorem cancel_timer_by_key_correct_witness:
  "fst (cancel_timer_by_key (\<lambda>x. x mod 2) 2 [] 1 two_timers) = [21]
   \<and> po (snd (cancel_timer_by_key (\<lambda>x. x mod 2) 2 [] 1 two_timers)) 2 = [20]"
proof -
  obtain ops' s' where r: "cancel_timer_by_key (\<lambda>x. x mod 2) 2 [] 1 two_timers = (ops', s')"
    by (metis surj_pair)
  show ?thesis
    using cancel_timer_by_key_correct [OF two_timers_inv r] unfolding r by (simp add: two_timers_po)
qed

text \<open>\<open>move_timer\<close> to an idle timer object carries the operations, the expiry time and the list
  position over, leaves the source idle, and touches no other timer.\<close>

theorem move_timer_correct:
  assumes "tq_inv s" and "po s target = []" and "target \<noteq> source"
  shows "tq_inv (move_timer target source s)
    \<and> po (move_timer target source s) = (po s)(target := po s source, source := [])
    \<and> heap (move_timer target source s)
        = map (\<lambda>(time, t). (time, if t = source then target else t)) (heap s)
    \<and> op_ec (move_timer target source s) = op_ec s"
  using move_timer_ok [OF assms] by (auto simp: case_prod_beta intro!: map_cong)

theorem move_timer_correct_witness:
  "heap (move_timer 7 2 two_timers) = [(3, 7), (5, 1)] \<and> po (move_timer 7 2 two_timers) 7 = [20, 21]"
  using move_timer_correct [OF two_timers_inv, of 7 2] by (simp add: two_timers_po two_timers_heap)

section \<open>The books of a timer queue\<close>

text \<open>The states a timer queue reaches, with the set of operations enqueued so far (each once) and the
  operations handed out by expiry and cancellation, in order.\<close>

inductive tq_reach ::
  "'op set \<Rightarrow> 'op list \<Rightarrow> ('t::linorder, 'tm, 'op) timer_queue \<Rightarrow> bool" where
  init: "tq_reach {} [] (new_timer_queue ec)"
| enqueue: "tq_reach S D s \<Longrightarrow> opn \<notin> S \<Longrightarrow> enqueue_timer is_pos_inf time timer opn s = (earliest, s')
    \<Longrightarrow> tq_reach (insert opn S) D s'"
| expire: "tq_reach S D s \<Longrightarrow> get_ready_timers now [] s = Some (ops, s') \<Longrightarrow> tq_reach S (D @ ops) s'"
| cancel: "tq_reach S D s \<Longrightarrow> cancel_timer timer [] max_cancelled s = (n, ops, s')
    \<Longrightarrow> tq_reach S (D @ ops) s'"
| move: "tq_reach S D s \<Longrightarrow> po s target = [] \<Longrightarrow> target \<noteq> source
    \<Longrightarrow> tq_reach S D (move_timer target source s)"

lemma new_timer_queue_po: "po (new_timer_queue ec) = (\<lambda>_. [])"
  by (simp add: fun_eq_iff po_def new_timer_queue_def new_timer_def)

lemma tq_reach_books: "tq_reach S D s \<Longrightarrow> tqs.books S D s"
proof (induction rule: tq_reach.induct)
  case (init ec)
  show ?case by (simp add: tqs.books_def new_timer_queue_inv new_timer_queue_po accounted_init)
next
  case (enqueue S D s opn is_pos_inf time timer earliest s')
  then show ?case using tqs.books_enq [of S D s opn is_pos_inf time timer] by simp
next
  case (expire S D s now ops s')
  then show ?case by (intro tqs.books_expire_step)
next
  case (cancel S D s timer max_cancelled n ops s')
  then show ?case by (intro tqs.books_cancel [of S D s timer max_cancelled]) simp_all
next
  case (move S D s target source)
  then show ?case by (intro tqs.books_move)
qed

text \<open>C12: no wait operation is lost and none completes twice. Whatever sequence of enqueue, expiry,
  cancel and move operations a timer queue goes through, every operation enqueued so far is either
  handed out exactly once or waits on exactly one timer; an expiry pass always ends; and shutdown
  (\<open>get_all_timers\<close>) ends, hands out everything that still waits and leaves the queue empty.\<close>

theorem timer_operations_accounted:
  assumes "tq_reach S D s"
  shows "accounted S D (po s)
    \<and> (\<exists>ops s'. get_ready_timers now [] s = Some (ops, s'))
    \<and> (\<exists>ops s'. get_all_timers [] s = Some (ops, s') \<and> tq_empty s' \<and> heap s' = []
         \<and> distinct (D @ ops) \<and> set (D @ ops) = S)"
proof -
  have acc: "accounted S D (po s)" and inv: "tq_inv s"
    using tq_reach_books [OF assms] by (simp_all add: tqs.books_def)
  from get_ready_timers_ok [OF inv, of now "[]"]
  have "\<exists>ops s'. get_ready_timers now [] s = Some (ops, s')" by metis
  moreover from get_all_timers_ok [OF inv, of "[]"] obtain ts s' where all:
    "distinct ts" "set ts = {t. po s t \<noteq> []}"
    "get_all_timers [] s = Some ([] @ concat (map (po s) ts), s')" "tq_empty s'" "heap s' = []" .
  have none: "(\<lambda>t. if t \<in> set ts then [] else po s t) = (\<lambda>_. [])" using all(2) by auto
  have "distinct (D @ concat (map (po s) ts)) \<and> set (D @ concat (map (po s) ts)) = S"
    using accounted_take_all [OF acc all(1)] unfolding none by (simp add: accounted_def)
  ultimately show ?thesis using acc all(3-5) by simp
qed

lemma two_timers_reach: "tq_reach {21, 20, 10} [] two_timers"
  unfolding two_timers_def
  by (rule tq_reach.enqueue [OF tq_reach.enqueue [OF tq_reach.enqueue [OF tq_reach.init]]])
    (auto intro: surjective_pairing)

theorem timer_operations_accounted_witness:
  "accounted {21, 20, 10} [] (po two_timers)
   \<and> (\<exists>ops s'. get_all_timers [] two_timers = Some (ops, s') \<and> distinct ops \<and> set ops = {21, 20, 10})"
  using timer_operations_accounted [OF two_timers_reach] by fastforce

end
