(* ===== verification/Scheduler.thy ===== *)
theory Scheduler
  imports ErrorCode "HOL-Library.Word"
begin

unbundle bit_operations_syntax

text \<open>
  The scheduler behind \<open>asio::io_context\<close>: \<^verbatim>\<open>asio/detail/scheduler.hpp\<close>,
  \<^verbatim>\<open>asio/detail/impl/scheduler.ipp\<close>, with its wake-up event (\<^verbatim>\<open>posix_event.hpp\<close>,
  \<^verbatim>\<open>conditionally_enabled_event.hpp\<close>), its lock (\<^verbatim>\<open>conditionally_enabled_mutex.hpp\<close>) and the
  concurrency hints.

  The state is that of one scheduler as seen by one calling thread; \<open>stack\<close> holds the thread infos
  of that thread's nested run functions, innermost first. Queues are the lists of their operations
  (theory OpQueue). \<open>world\<close> is everything outside the scheduler. What the code calls and does not
  define is a record of functions \<open>sched_env\<close>: completing an operation (true when the handler
  throws), running the task (the reactor), and what happens to the state while the thread sleeps on
  its condition variable (\<open>None\<close>: it is never woken).

  \<open>lock_error\<close> records a violation of the lock discipline: acquiring a mutex the thread holds already
  (a deadlock), or the assertion \<open>lock.locked()\<close> of the event failing. \<open>interrupts\<close> counts the calls
  of \<open>task_->interrupt()\<close>.
\<close>

section \<open>Concurrency hints\<close>

definition hint_id :: "32 word" where "hint_id = 0xA5100000"
definition hint_id_mask :: "32 word" where "hint_id_mask = 0xFFFF0000"
definition hint_locking_scheduler :: "32 word" where "hint_locking_scheduler = 1"
definition hint_locking_registration :: "32 word" where "hint_locking_registration = 2"
definition hint_locking_reactor_io :: "32 word" where "hint_locking_reactor_io = 4"

definition hint_is_special :: "32 word \<Rightarrow> bool" where
  "hint_is_special hint \<longleftrightarrow> hint AND hint_id_mask = hint_id"

definition hint_is_locking :: "32 word \<Rightarrow> 32 word \<Rightarrow> bool" where
  "hint_is_locking facility hint \<longleftrightarrow> (hint AND (hint_id_mask OR facility)) XOR hint_id \<noteq> 0"

definition hint_unsafe :: "32 word" where "hint_unsafe = hint_id"

definition hint_unsafe_io :: "32 word" where
  "hint_unsafe_io = hint_id OR hint_locking_scheduler OR hint_locking_registration"

definition hint_safe :: "32 word" where
  "hint_safe = hint_id OR hint_locking_scheduler OR hint_locking_registration OR hint_locking_reactor_io"

definition hint_default :: "32 word" where "hint_default = - 1"

lemmas hint_defs = hint_id_def hint_id_mask_def hint_locking_scheduler_def hint_locking_registration_def
  hint_locking_reactor_io_def hint_is_special_def hint_is_locking_def hint_unsafe_def hint_unsafe_io_def
  hint_safe_def hint_default_def

section \<open>State\<close>

text \<open>An entry of the queue: the operation that stands for the task (\<open>task_operation_\<close>), or a handler.\<close>

datatype 'op entry = Task | Op 'op

record 'op thread_info =
  private_op_queue :: "'op entry list"
  private_outstanding_work :: int

record ('op, 'w) sched =
  one_thread :: bool
  mutex_enabled :: bool
  locked :: bool
  lock_error :: bool
  event_state :: nat
  has_task :: bool
  task_interrupted :: bool
  interrupts :: nat
  outstanding_work :: int
  sched_queue :: "'op entry list"
  task_result :: "'op \<Rightarrow> nat"
  stopped :: bool
  shut_down_flag :: bool
  stack :: "'op thread_info list"
  world :: 'w

record ('op, 'w) sched_env =
  env_complete :: "'op \<Rightarrow> nat \<Rightarrow> ('op, 'w) sched \<Rightarrow> bool \<times> ('op, 'w) sched"
  env_run_task :: "int \<Rightarrow> ('op, 'w) sched \<Rightarrow> bool \<times> ('op, 'w) sched"
  env_sleep :: "('op, 'w) sched \<Rightarrow> ('op, 'w) sched option"
  env_sleep_usec :: "int \<Rightarrow> ('op, 'w) sched \<Rightarrow> ('op, 'w) sched"

definition new_sched :: "32 word \<Rightarrow> 'w \<Rightarrow> ('op, 'w) sched" where
  "new_sched concurrency_hint w =
     \<lparr>one_thread = (concurrency_hint = 1
        \<or> \<not> hint_is_locking hint_locking_scheduler concurrency_hint
        \<or> \<not> hint_is_locking hint_locking_reactor_io concurrency_hint),
      mutex_enabled = hint_is_locking hint_locking_scheduler concurrency_hint,
      locked = False, lock_error = False, event_state = 0,
      has_task = False, task_interrupted = True, interrupts = 0, outstanding_work = 0,
      sched_queue = [], task_result = (\<lambda>_. 0), stopped = False, shut_down_flag = False, stack = [],
      world = w\<rparr>"

section \<open>Lock\<close>

text \<open>\<open>acquire\<close>: a new \<open>scoped_lock\<close>; \<open>relock\<close> and \<open>unlock\<close>: \<open>lock()\<close> and \<open>unlock()\<close> of an existing one.\<close>

definition acquire :: "('op, 'w) sched \<Rightarrow> ('op, 'w) sched" where
  "acquire s = (if mutex_enabled s
     then s\<lparr>lock_error := lock_error s \<or> locked s, locked := True\<rparr> else s)"

definition relock :: "('op, 'w) sched \<Rightarrow> ('op, 'w) sched" where
  "relock s = (if mutex_enabled s \<and> \<not> locked s then s\<lparr>locked := True\<rparr> else s)"

definition unlock :: "('op, 'w) sched \<Rightarrow> ('op, 'w) sched" where
  "unlock s = (if locked s then s\<lparr>locked := False\<rparr> else s)"

definition assert_locked :: "('op, 'w) sched \<Rightarrow> ('op, 'w) sched" where
  "assert_locked s = s\<lparr>lock_error := lock_error s \<or> \<not> locked s\<rparr>"

section \<open>Event\<close>

text \<open>The lowest bit of \<open>state_\<close> says whether the event is signalled, the rest counts the waiters.\<close>

definition set_signalled :: "nat \<Rightarrow> nat" where
  "set_signalled st = (if even st then st + 1 else st)"

definition posix_signal_all :: "('op, 'w) sched \<Rightarrow> ('op, 'w) sched" where
  "posix_signal_all s = (let s = assert_locked s in s\<lparr>event_state := set_signalled (event_state s)\<rparr>)"

definition posix_unlock_and_signal_one :: "('op, 'w) sched \<Rightarrow> ('op, 'w) sched" where
  "posix_unlock_and_signal_one s =
     (let s = assert_locked s in unlock (s\<lparr>event_state := set_signalled (event_state s)\<rparr>))"

definition posix_maybe_unlock_and_signal_one :: "('op, 'w) sched \<Rightarrow> bool \<times> ('op, 'w) sched" where
  "posix_maybe_unlock_and_signal_one s =
     (let s = assert_locked s;
          s = s\<lparr>event_state := set_signalled (event_state s)\<rparr>
      in if event_state s > 1 then (True, unlock s) else (False, s))"

definition posix_clear :: "('op, 'w) sched \<Rightarrow> ('op, 'w) sched" where
  "posix_clear s = (let s = assert_locked s in
     s\<lparr>event_state := (if odd (event_state s) then event_state s - 1 else event_state s)\<rparr>)"

partial_function (option) posix_wait ::
  "('op, 'w) sched_env \<Rightarrow> ('op, 'w) sched \<Rightarrow> ('op, 'w) sched option" where
  "posix_wait E s =
     (if even (event_state s) then
        (case env_sleep E (s\<lparr>event_state := event_state s + 2, locked := False\<rparr>) of
           None \<Rightarrow> None
         | Some s' \<Rightarrow> posix_wait E (s'\<lparr>event_state := event_state s' - 2, locked := True\<rparr>))
      else Some s)"

declare posix_wait.simps [code]

definition posix_wait_for_usec ::
  "('op, 'w) sched_env \<Rightarrow> int \<Rightarrow> ('op, 'w) sched \<Rightarrow> bool \<times> ('op, 'w) sched" where
  "posix_wait_for_usec E usec s =
     (let s = assert_locked s;
          s = (if even (event_state s) then
                 let s' = env_sleep_usec E usec (s\<lparr>event_state := event_state s + 2, locked := False\<rparr>)
                 in s'\<lparr>event_state := event_state s' - 2, locked := True\<rparr>
               else s)
      in (odd (event_state s), s))"

text \<open>The adapter that leaves the event out when locking is disabled.\<close>

definition signal_all :: "('op, 'w) sched \<Rightarrow> ('op, 'w) sched" where
  "signal_all s = (if mutex_enabled s then posix_signal_all s else s)"

definition unlock_and_signal_one :: "('op, 'w) sched \<Rightarrow> ('op, 'w) sched" where
  "unlock_and_signal_one s = (if mutex_enabled s then posix_unlock_and_signal_one s else s)"

definition maybe_unlock_and_signal_one :: "('op, 'w) sched \<Rightarrow> bool \<times> ('op, 'w) sched" where
  "maybe_unlock_and_signal_one s =
     (if mutex_enabled s then posix_maybe_unlock_and_signal_one s else (False, s))"

definition clear_event :: "('op, 'w) sched \<Rightarrow> ('op, 'w) sched" where
  "clear_event s = (if mutex_enabled s then posix_clear s else s)"

text \<open>Without locking, waiting is the null event's: an endless sleep, or a plain sleep.\<close>

definition wait_event ::
  "('op, 'w) sched_env \<Rightarrow> ('op, 'w) sched \<Rightarrow> ('op, 'w) sched option" where
  "wait_event E s = (if mutex_enabled s then posix_wait E (assert_locked s) else None)"

definition wait_event_for_usec ::
  "('op, 'w) sched_env \<Rightarrow> int \<Rightarrow> ('op, 'w) sched \<Rightarrow> bool \<times> ('op, 'w) sched" where
  "wait_event_for_usec E usec s =
     (if mutex_enabled s then posix_wait_for_usec E usec s else (True, env_sleep_usec E usec s))"

section \<open>Stopping and waking\<close>

definition interrupt_task :: "('op, 'w) sched \<Rightarrow> ('op, 'w) sched" where
  "interrupt_task s =
     (if \<not> task_interrupted s \<and> has_task s
      then s\<lparr>task_interrupted := True, interrupts := interrupts s + 1\<rparr> else s)"

definition stop_all_threads :: "('op, 'w) sched \<Rightarrow> ('op, 'w) sched" where
  "stop_all_threads s = interrupt_task (signal_all (s\<lparr>stopped := True\<rparr>))"

definition wake_one_thread_and_unlock :: "('op, 'w) sched \<Rightarrow> ('op, 'w) sched" where
  "wake_one_thread_and_unlock s =
     (let (woken, s1) = maybe_unlock_and_signal_one s
      in if woken then s1 else unlock (interrupt_task s1))"

definition stop :: "('op, 'w) sched \<Rightarrow> ('op, 'w) sched" where
  "stop s = unlock (stop_all_threads (acquire s))"

definition is_stopped :: "('op, 'w) sched \<Rightarrow> bool \<times> ('op, 'w) sched" where
  "is_stopped s = (let s = acquire s in (stopped s, unlock s))"

definition restart :: "('op, 'w) sched \<Rightarrow> ('op, 'w) sched" where
  "restart s = unlock ((acquire s)\<lparr>stopped := False\<rparr>)"

section \<open>Work\<close>

definition work_started :: "('op, 'w) sched \<Rightarrow> ('op, 'w) sched" where
  "work_started s = s\<lparr>outstanding_work := outstanding_work s + 1\<rparr>"

definition work_finished :: "('op, 'w) sched \<Rightarrow> ('op, 'w) sched" where
  "work_finished s =
     (let s = s\<lparr>outstanding_work := outstanding_work s - 1\<rparr>
      in if outstanding_work s = 0 then stop s else s)"

text \<open>The innermost run function of the calling thread.\<close>

definition can_dispatch :: "('op, 'w) sched \<Rightarrow> bool" where
  "can_dispatch s \<longleftrightarrow> stack s \<noteq> []"

definition upd_top :: "('op thread_info \<Rightarrow> 'op thread_info) \<Rightarrow> ('op, 'w) sched \<Rightarrow> ('op, 'w) sched" where
  "upd_top f s = (case stack s of [] \<Rightarrow> s | t # ts \<Rightarrow> s\<lparr>stack := f t # ts\<rparr>)"

definition compensating_work_started :: "('op, 'w) sched \<Rightarrow> ('op, 'w) sched" where
  "compensating_work_started s =
     upd_top (\<lambda>t. t\<lparr>private_outstanding_work := private_outstanding_work t + 1\<rparr>) s"

definition push_op :: "'op entry list \<Rightarrow> ('op, 'w) sched \<Rightarrow> ('op, 'w) sched" where
  "push_op ops s = s\<lparr>sched_queue := sched_queue s @ ops\<rparr>"

definition push_private :: "int \<Rightarrow> 'op entry list \<Rightarrow> ('op, 'w) sched \<Rightarrow> ('op, 'w) sched" where
  "push_private n ops s =
     upd_top (\<lambda>t. t\<lparr>private_outstanding_work := private_outstanding_work t + n,
                    private_op_queue := private_op_queue t @ ops\<rparr>) s"

section \<open>Posting\<close>

definition post_immediate_completion :: "'op \<Rightarrow> bool \<Rightarrow> ('op, 'w) sched \<Rightarrow> ('op, 'w) sched" where
  "post_immediate_completion opn is_continuation s =
     (if (one_thread s \<or> is_continuation) \<and> can_dispatch s
      then push_private 1 [Op opn] s
      else wake_one_thread_and_unlock (push_op [Op opn] (acquire (work_started s))))"

definition post_immediate_completions ::
  "int \<Rightarrow> 'op list \<Rightarrow> bool \<Rightarrow> ('op, 'w) sched \<Rightarrow> ('op, 'w) sched" where
  "post_immediate_completions n ops is_continuation s =
     (if (one_thread s \<or> is_continuation) \<and> can_dispatch s
      then push_private n (map Op ops) s
      else wake_one_thread_and_unlock
             (push_op (map Op ops) (acquire (s\<lparr>outstanding_work := outstanding_work s + n\<rparr>))))"

definition post_deferred_completion :: "'op \<Rightarrow> ('op, 'w) sched \<Rightarrow> ('op, 'w) sched" where
  "post_deferred_completion opn s =
     (if one_thread s \<and> can_dispatch s then push_private 0 [Op opn] s
      else wake_one_thread_and_unlock (push_op [Op opn] (acquire s)))"

definition post_deferred_completions :: "'op list \<Rightarrow> ('op, 'w) sched \<Rightarrow> ('op, 'w) sched" where
  "post_deferred_completions ops s =
     (if ops \<noteq> [] then
        if one_thread s \<and> can_dispatch s then push_private 0 (map Op ops) s
        else wake_one_thread_and_unlock (push_op (map Op ops) (acquire s))
      else s)"

definition do_dispatch :: "'op \<Rightarrow> ('op, 'w) sched \<Rightarrow> ('op, 'w) sched" where
  "do_dispatch opn s = wake_one_thread_and_unlock (push_op [Op opn] (acquire (work_started s)))"

definition init_task :: "('op, 'w) sched \<Rightarrow> ('op, 'w) sched" where
  "init_task s =
     (let s = acquire s
      in if \<not> shut_down_flag s \<and> \<not> has_task s
         then wake_one_thread_and_unlock (push_op [Task] (s\<lparr>has_task := True\<rparr>))
         else unlock s)"

end
