(* ===== verification/SchedulerRun.thy ===== *)
theory SchedulerRun
  imports Scheduler
begin

text \<open>
  The run functions of the scheduler, from \<open>do_run_one\<close>, \<open>do_wait_one\<close> and \<open>do_poll_one\<close> up to
  \<open>io_context::run_one_until\<close>. A result \<open>(n, threw, s)\<close> is the returned count, or an exception of the
  handler or the task passing through (\<open>threw\<close>), and the state after the destructors on that way.
  A loop that need not end has \<open>None\<close> as the value for not ending.
\<close>

section \<open>Cleanup on block exit\<close>

definition top_info :: "('op, 'w) sched \<Rightarrow> 'op thread_info" where
  "top_info s = (case stack s of [] \<Rightarrow> \<lparr>private_op_queue = [], private_outstanding_work = 0\<rparr> | t # _ \<Rightarrow> t)"

definition task_cleanup :: "('op, 'w) sched \<Rightarrow> ('op, 'w) sched" where
  "task_cleanup s =
     (let work = private_outstanding_work (top_info s);
          s = (if work > 0 then s\<lparr>outstanding_work := outstanding_work s + work\<rparr> else s);
          s = upd_top (\<lambda>t. t\<lparr>private_outstanding_work := 0\<rparr>) s;
          s = relock s;
          s = s\<lparr>task_interrupted := True\<rparr>;
          s = push_op (private_op_queue (top_info s)) s;
          s = upd_top (\<lambda>t. t\<lparr>private_op_queue := []\<rparr>) s
      in push_op [Task] s)"

definition work_cleanup :: "('op, 'w) sched \<Rightarrow> ('op, 'w) sched" where
  "work_cleanup s =
     (let work = private_outstanding_work (top_info s);
          s = (if work > 1 then s\<lparr>outstanding_work := outstanding_work s + (work - 1)\<rparr>
               else if work < 1 then work_finished s
               else s);
          s = upd_top (\<lambda>t. t\<lparr>private_outstanding_work := 0\<rparr>) s
      in if private_op_queue (top_info s) \<noteq> [] then
           let s = relock s;
               s = push_op (private_op_queue (top_info s)) s
           in upd_top (\<lambda>t. t\<lparr>private_op_queue := []\<rparr>) s
         else s)"

section \<open>One turn of the loop\<close>

type_synonym ('op, 'w) run_result = "nat \<times> bool \<times> ('op, 'w) sched"

text \<open>The end of all three functions: \<open>opn\<close> has been taken off the queue.\<close>

definition run_op ::
  "('op, 'w) sched_env \<Rightarrow> 'op \<Rightarrow> ('op, 'w) sched \<Rightarrow> ('op, 'w) run_result" where
  "run_op E opn s =
     (let more_handlers = (sched_queue s \<noteq> []);
          result = task_result s opn;
          s = (if more_handlers \<and> \<not> one_thread s then wake_one_thread_and_unlock s else unlock s);
          (threw, s) = env_complete E opn result s;
          s = work_cleanup s
      in if threw then (0, True, s) else (1, False, s))"

text \<open>Running the task, which has been taken off the queue: for \<open>usec\<close> if the queue is empty.\<close>

definition run_the_task ::
  "('op, 'w) sched_env \<Rightarrow> int \<Rightarrow> ('op, 'w) sched \<Rightarrow> bool \<times> ('op, 'w) sched" where
  "run_the_task E usec s =
     (let more_handlers = (sched_queue s \<noteq> []);
          s = s\<lparr>task_interrupted := more_handlers\<rparr>;
          s = (if more_handlers \<and> \<not> one_thread s then unlock_and_signal_one s else unlock s);
          (threw, s) = env_run_task E (if more_handlers then 0 else usec) s
      in (threw, task_cleanup s))"

partial_function (option) do_run_one ::
  "('op, 'w) sched_env \<Rightarrow> ('op, 'w) sched \<Rightarrow> ('op, 'w) run_result option" where
  "do_run_one E s =
     (if \<not> stopped s then
        (case sched_queue s of
           Task # q \<Rightarrow>
             (let (threw, s') = run_the_task E (- 1) (s\<lparr>sched_queue := q\<rparr>)
              in if threw then Some (0, True, s') else do_run_one E s')
         | Op opn # q \<Rightarrow> Some (run_op E opn (s\<lparr>sched_queue := q\<rparr>))
         | [] \<Rightarrow>
             (case wait_event E (clear_event s) of
                None \<Rightarrow> None
              | Some s' \<Rightarrow> do_run_one E s'))
      else Some (0, False, s))"

declare do_run_one.simps [code]

text \<open>Without a handler at the front: give up; with one: run it.\<close>

definition run_front ::
  "('op, 'w) sched_env \<Rightarrow> ('op, 'w) sched \<Rightarrow> ('op, 'w) run_result" where
  "run_front E s =
     (case sched_queue s of
        Op opn # q \<Rightarrow> run_op E opn (s\<lparr>sched_queue := q\<rparr>)
      | _ \<Rightarrow> (0, False, s))"

definition do_wait_one ::
  "('op, 'w) sched_env \<Rightarrow> int \<Rightarrow> ('op, 'w) sched \<Rightarrow> ('op, 'w) run_result" where
  "do_wait_one E usec s =
     (if stopped s then (0, False, s)
      else
        let (usec, s) =
              (if sched_queue s = [] then (0, snd (wait_event_for_usec E usec (clear_event s)))
               else (usec, s))
        in case sched_queue s of
             Task # q \<Rightarrow>
               (let (threw, s) = run_the_task E usec (s\<lparr>sched_queue := q\<rparr>)
                in if threw then (0, True, s)
                   else case sched_queue s of
                          Task # _ \<Rightarrow>
                            (0, False, if \<not> one_thread s then snd (maybe_unlock_and_signal_one s) else s)
                        | _ \<Rightarrow> run_front E s)
           | _ \<Rightarrow> run_front E s)"

text \<open>\<open>do_poll_one\<close> runs the task without touching \<open>task_interrupted_\<close> and without waking anyone.\<close>

definition do_poll_one :: "('op, 'w) sched_env \<Rightarrow> ('op, 'w) sched \<Rightarrow> ('op, 'w) run_result" where
  "do_poll_one E s =
     (if stopped s then (0, False, s)
      else case sched_queue s of
             Task # q \<Rightarrow>
               (let s = unlock (s\<lparr>sched_queue := q\<rparr>);
                    (threw, s) = env_run_task E 0 s;
                    s = task_cleanup s
                in if threw then (0, True, s)
                   else case sched_queue s of
                          Task # _ \<Rightarrow> (0, False, snd (maybe_unlock_and_signal_one s))
                        | _ \<Rightarrow> run_front E s)
           | _ \<Rightarrow> run_front E s)"

section \<open>Run functions\<close>

text \<open>Entering: a thread info for this call on the stack, and the lock. Leaving: the lock's destructor,
  then the context's; operations left in the private queue are destroyed with it.\<close>

definition enter :: "('op, 'w) sched \<Rightarrow> ('op, 'w) sched" where
  "enter s = acquire (s\<lparr>stack := \<lparr>private_op_queue = [], private_outstanding_work = 0\<rparr> # stack s\<rparr>)"

definition leave :: "('op, 'w) sched \<Rightarrow> ('op, 'w) sched" where
  "leave s = (let s = unlock s in s\<lparr>stack := tl (stack s)\<rparr>)"

definition leave_result :: "('op, 'w) run_result \<Rightarrow> ('op, 'w) run_result" where
  "leave_result r = (case r of (n, threw, s) \<Rightarrow> (n, threw, leave s))"

definition run_one :: "('op, 'w) sched_env \<Rightarrow> ('op, 'w) sched \<Rightarrow> ('op, 'w) run_result option" where
  "run_one E s =
     (if outstanding_work s = 0 then Some (0, False, stop s)
      else map_option leave_result (do_run_one E (enter s)))"

definition wait_one :: "('op, 'w) sched_env \<Rightarrow> int \<Rightarrow> ('op, 'w) sched \<Rightarrow> ('op, 'w) run_result" where
  "wait_one E usec s =
     (if outstanding_work s = 0 then (0, False, stop s)
      else leave_result (do_wait_one E usec (enter s)))"

text \<open>The counting loops of \<open>run\<close> and \<open>poll\<close>; the count stops at \<open>numeric_limits<size_t>::max()\<close>.\<close>

definition count_up :: "nat \<Rightarrow> nat" where
  "count_up n = (if n \<noteq> 2 ^ 64 - 1 then n + 1 else n)"

partial_function (option) run_loop ::
  "('op, 'w) sched_env \<Rightarrow> nat \<Rightarrow> ('op, 'w) sched \<Rightarrow> ('op, 'w) run_result option" where
  "run_loop E n s =
     (case do_run_one E s of
        None \<Rightarrow> None
      | Some (k, threw, s') \<Rightarrow>
          if threw then Some (n, True, s')
          else if k = 0 then Some (n, False, s')
          else run_loop E (count_up n) (relock s'))"

declare run_loop.simps [code]

definition run :: "('op, 'w) sched_env \<Rightarrow> ('op, 'w) sched \<Rightarrow> ('op, 'w) run_result option" where
  "run E s =
     (if outstanding_work s = 0 then Some (0, False, stop s)
      else map_option leave_result (run_loop E 0 (enter s)))"

text \<open>Handlers waiting in the private queue of an enclosing run function go to the main queue first.\<close>

definition adopt_outer :: "('op, 'w) sched \<Rightarrow> ('op, 'w) sched" where
  "adopt_outer s =
     (if one_thread s then
        case stack s of
          t # outer # ts \<Rightarrow>
            (push_op (private_op_queue outer) s)
              \<lparr>stack := t # outer\<lparr>private_op_queue := []\<rparr> # ts\<rparr>
        | _ \<Rightarrow> s
      else s)"

partial_function (option) poll_loop ::
  "('op, 'w) sched_env \<Rightarrow> nat \<Rightarrow> ('op, 'w) sched \<Rightarrow> ('op, 'w) run_result option" where
  "poll_loop E n s =
     (case do_poll_one E s of
        (k, threw, s') \<Rightarrow>
          if threw then Some (n, True, s')
          else if k = 0 then Some (n, False, s')
          else poll_loop E (count_up n) (relock s'))"

declare poll_loop.simps [code]

definition poll :: "('op, 'w) sched_env \<Rightarrow> ('op, 'w) sched \<Rightarrow> ('op, 'w) run_result option" where
  "poll E s =
     (if outstanding_work s = 0 then Some (0, False, stop s)
      else map_option leave_result (poll_loop E 0 (adopt_outer (enter s))))"

definition poll_one :: "('op, 'w) sched_env \<Rightarrow> ('op, 'w) sched \<Rightarrow> ('op, 'w) run_result" where
  "poll_one E s =
     (if outstanding_work s = 0 then (0, False, stop s)
      else leave_result (do_poll_one E (adopt_outer (enter s))))"

text \<open>\<open>io_context::run_one_until\<close> with times in nanoseconds; \<open>clock\<close> reads the monotonic clock of the
  world. \<open>run_one_for\<close> adds the relative time to the current one; \<open>later\<close> is the time that passes
  until \<open>run_one_until\<close> reads the clock for the first time.\<close>

partial_function (option) run_one_until ::
  "('op, 'w) sched_env \<Rightarrow> ('w \<Rightarrow> int) \<Rightarrow> int \<Rightarrow> int \<Rightarrow> ('op, 'w) sched \<Rightarrow> ('op, 'w) run_result option" where
  "run_one_until E clock abs_time now s =
     (if now < abs_time then
        (let rel_time = min (abs_time - now) 1000000000;
             (n, threw, s) = wait_one E (rel_time div 1000) s
         in if threw then Some (0, True, s)
            else if n \<noteq> 0 then Some (n, False, s)
            else let (st, s) = is_stopped s
                 in if st then Some (n, False, s)
                    else run_one_until E clock abs_time (clock (world s)) s)
      else Some (0, False, s))"

declare run_one_until.simps [code]

definition run_one_for ::
  "('op, 'w) sched_env \<Rightarrow> ('w \<Rightarrow> int) \<Rightarrow> int \<Rightarrow> int \<Rightarrow> ('op, 'w) sched \<Rightarrow> ('op, 'w) run_result option" where
  "run_one_for E clock later rel_time s =
     run_one_until E clock (clock (world s) + rel_time) (clock (world s) + later) s"

text \<open>\<open>scheduler::shutdown\<close> without a thread of its own: the handlers still queued are destroyed, in
  order; \<open>destroy\<close> is what their destructors do.\<close>

fun destroy_queued :: "('op \<Rightarrow> ('op, 'w) sched \<Rightarrow> ('op, 'w) sched) \<Rightarrow> nat \<Rightarrow> ('op, 'w) sched \<Rightarrow> ('op, 'w) sched option" where
  "destroy_queued destroy 0 s = None"
| "destroy_queued destroy (Suc fuel) s =
     (case sched_queue s of
        [] \<Rightarrow> Some s
      | Task # q \<Rightarrow> destroy_queued destroy fuel (s\<lparr>sched_queue := q\<rparr>)
      | Op opn # q \<Rightarrow> destroy_queued destroy fuel (destroy opn (s\<lparr>sched_queue := q\<rparr>)))"

definition shutdown ::
  "('op \<Rightarrow> ('op, 'w) sched \<Rightarrow> ('op, 'w) sched) \<Rightarrow> nat \<Rightarrow> ('op, 'w) sched \<Rightarrow> ('op, 'w) sched option" where
  "shutdown destroy fuel s =
     map_option (\<lambda>s. s\<lparr>has_task := False\<rparr>)
       (destroy_queued destroy fuel (unlock ((acquire s)\<lparr>shut_down_flag := True\<rparr>)))"

end
