(* ===== verification/SchedulerInv.thy ===== *)
theory SchedulerInv
  imports SchedulerRun
begin

text \<open>
  The invariant of the scheduler: its books of outstanding work, the place of the task in the queue,
  and the lock discipline; what every operation and run function does to them, for any handlers and
  any task that keep to the contract \<open>scheduler_client\<close>.
\<close>

section \<open>What the lock and event operations leave alone\<close>

lemma acquire_fields [simp]:
  "one_thread (acquire s) = one_thread s" "mutex_enabled (acquire s) = mutex_enabled s"
  "has_task (acquire s) = has_task s" "outstanding_work (acquire s) = outstanding_work s"
  "sched_queue (acquire s) = sched_queue s" "task_result (acquire s) = task_result s"
  "shut_down_flag (acquire s) = shut_down_flag s" "stack (acquire s) = stack s"
  "world (acquire s) = world s" "stopped (acquire s) = stopped s"
  "event_state (acquire s) = event_state s"
  by (simp_all add: acquire_def Let_def split: prod.splits)

lemma relock_fields [simp]:
  "one_thread (relock s) = one_thread s" "mutex_enabled (relock s) = mutex_enabled s"
  "has_task (relock s) = has_task s" "outstanding_work (relock s) = outstanding_work s"
  "sched_queue (relock s) = sched_queue s" "task_result (relock s) = task_result s"
  "shut_down_flag (relock s) = shut_down_flag s" "stack (relock s) = stack s"
  "world (relock s) = world s" "stopped (relock s) = stopped s"
  "event_state (relock s) = event_state s" "lock_error (relock s) = lock_error s"
  by (simp_all add: relock_def Let_def split: prod.splits)

lemma unlock_fields [simp]:
  "one_thread (unlock s) = one_thread s" "mutex_enabled (unlock s) = mutex_enabled s"
  "has_task (unlock s) = has_task s" "outstanding_work (unlock s) = outstanding_work s"
  "sched_queue (unlock s) = sched_queue s" "task_result (unlock s) = task_result s"
  "shut_down_flag (unlock s) = shut_down_flag s" "stack (unlock s) = stack s"
  "world (unlock s) = world s" "stopped (unlock s) = stopped s"
  "event_state (unlock s) = event_state s" "lock_error (unlock s) = lock_error s"
  by (simp_all add: unlock_def Let_def split: prod.splits)

lemma assert_locked_fields [simp]:
  "one_thread (assert_locked s) = one_thread s" "mutex_enabled (assert_locked s) = mutex_enabled s"
  "has_task (assert_locked s) = has_task s"
  "outstanding_work (assert_locked s) = outstanding_work s"
  "sched_queue (assert_locked s) = sched_queue s" "task_result (assert_locked s) = task_result s"
  "shut_down_flag (assert_locked s) = shut_down_flag s" "stack (assert_locked s) = stack s"
  "world (assert_locked s) = world s" "stopped (assert_locked s) = stopped s"
  "locked (assert_locked s) = locked s" "event_state (assert_locked s) = event_state s"
  by (simp_all add: assert_locked_def Let_def split: prod.splits)

lemma posix_signal_all_fields [simp]:
  "one_thread (posix_signal_all s) = one_thread s"
  "mutex_enabled (posix_signal_all s) = mutex_enabled s"
  "has_task (posix_signal_all s) = has_task s"
  "outstanding_work (posix_signal_all s) = outstanding_work s"
  "sched_queue (posix_signal_all s) = sched_queue s"
  "task_result (posix_signal_all s) = task_result s"
  "shut_down_flag (posix_signal_all s) = shut_down_flag s" "stack (posix_signal_all s) = stack s"
  "world (posix_signal_all s) = world s" "stopped (posix_signal_all s) = stopped s"
  "locked (posix_signal_all s) = locked s"
  by (simp_all add: posix_signal_all_def Let_def split: prod.splits)

lemma posix_unlock_and_signal_one_fields [simp]:
  "one_thread (posix_unlock_and_signal_one s) = one_thread s"
  "mutex_enabled (posix_unlock_and_signal_one s) = mutex_enabled s"
  "has_task (posix_unlock_and_signal_one s) = has_task s"
  "outstanding_work (posix_unlock_and_signal_one s) = outstanding_work s"
  "sched_queue (posix_unlock_and_signal_one s) = sched_queue s"
  "task_result (posix_unlock_and_signal_one s) = task_result s"
  "shut_down_flag (posix_unlock_and_signal_one s) = shut_down_flag s"
  "stack (posix_unlock_and_signal_one s) = stack s"
  "world (posix_unlock_and_signal_one s) = world s"
  "stopped (posix_unlock_and_signal_one s) = stopped s"
  by (simp_all add: posix_unlock_and_signal_one_def Let_def split: prod.splits)

lemma posix_maybe_unlock_and_signal_one_fields [simp]:
  "one_thread (snd (posix_maybe_unlock_and_signal_one s)) = one_thread s"
  "mutex_enabled (snd (posix_maybe_unlock_and_signal_one s)) = mutex_enabled s"
  "has_task (snd (posix_maybe_unlock_and_signal_one s)) = has_task s"
  "outstanding_work (snd (posix_maybe_unlock_and_signal_one s)) = outstanding_work s"
  "sched_queue (snd (posix_maybe_unlock_and_signal_one s)) = sched_queue s"
  "task_result (snd (posix_maybe_unlock_and_signal_one s)) = task_result s"
  "shut_down_flag (snd (posix_maybe_unlock_and_signal_one s)) = shut_down_flag s"
  "stack (snd (posix_maybe_unlock_and_signal_one s)) = stack s"
  "world (snd (posix_maybe_unlock_and_signal_one s)) = world s"
  "stopped (snd (posix_maybe_unlock_and_signal_one s)) = stopped s"
  by (simp_all add: posix_maybe_unlock_and_signal_one_def Let_def case_prod_beta)

lemma posix_clear_fields [simp]:
  "one_thread (posix_clear s) = one_thread s" "mutex_enabled (posix_clear s) = mutex_enabled s"
  "has_task (posix_clear s) = has_task s" "outstanding_work (posix_clear s) = outstanding_work s"
  "sched_queue (posix_clear s) = sched_queue s" "task_result (posix_clear s) = task_result s"
  "shut_down_flag (posix_clear s) = shut_down_flag s" "stack (posix_clear s) = stack s"
  "world (posix_clear s) = world s" "stopped (posix_clear s) = stopped s"
  "locked (posix_clear s) = locked s"
  by (simp_all add: posix_clear_def Let_def split: prod.splits)

lemma signal_all_fields [simp]:
  "one_thread (signal_all s) = one_thread s" "mutex_enabled (signal_all s) = mutex_enabled s"
  "has_task (signal_all s) = has_task s" "outstanding_work (signal_all s) = outstanding_work s"
  "sched_queue (signal_all s) = sched_queue s" "task_result (signal_all s) = task_result s"
  "shut_down_flag (signal_all s) = shut_down_flag s" "stack (signal_all s) = stack s"
  "world (signal_all s) = world s" "stopped (signal_all s) = stopped s"
  "locked (signal_all s) = locked s"
  by (simp_all add: signal_all_def Let_def split: prod.splits)

lemma unlock_and_signal_one_fields [simp]:
  "one_thread (unlock_and_signal_one s) = one_thread s"
  "mutex_enabled (unlock_and_signal_one s) = mutex_enabled s"
  "has_task (unlock_and_signal_one s) = has_task s"
  "outstanding_work (unlock_and_signal_one s) = outstanding_work s"
  "sched_queue (unlock_and_signal_one s) = sched_queue s"
  "task_result (unlock_and_signal_one s) = task_result s"
  "shut_down_flag (unlock_and_signal_one s) = shut_down_flag s"
  "stack (unlock_and_signal_one s) = stack s" "world (unlock_and_signal_one s) = world s"
  "stopped (unlock_and_signal_one s) = stopped s"
  by (simp_all add: unlock_and_signal_one_def Let_def split: prod.splits)

lemma maybe_unlock_and_signal_one_fields [simp]:
  "one_thread (snd (maybe_unlock_and_signal_one s)) = one_thread s"
  "mutex_enabled (snd (maybe_unlock_and_signal_one s)) = mutex_enabled s"
  "has_task (snd (maybe_unlock_and_signal_one s)) = has_task s"
  "outstanding_work (snd (maybe_unlock_and_signal_one s)) = outstanding_work s"
  "sched_queue (snd (maybe_unlock_and_signal_one s)) = sched_queue s"
  "task_result (snd (maybe_unlock_and_signal_one s)) = task_result s"
  "shut_down_flag (snd (maybe_unlock_and_signal_one s)) = shut_down_flag s"
  "stack (snd (maybe_unlock_and_signal_one s)) = stack s"
  "world (snd (maybe_unlock_and_signal_one s)) = world s"
  "stopped (snd (maybe_unlock_and_signal_one s)) = stopped s"
  by (simp_all add: maybe_unlock_and_signal_one_def Let_def case_prod_beta)

lemma clear_event_fields [simp]:
  "one_thread (clear_event s) = one_thread s" "mutex_enabled (clear_event s) = mutex_enabled s"
  "has_task (clear_event s) = has_task s" "outstanding_work (clear_event s) = outstanding_work s"
  "sched_queue (clear_event s) = sched_queue s" "task_result (clear_event s) = task_result s"
  "shut_down_flag (clear_event s) = shut_down_flag s" "stack (clear_event s) = stack s"
  "world (clear_event s) = world s" "stopped (clear_event s) = stopped s"
  "locked (clear_event s) = locked s"
  by (simp_all add: clear_event_def Let_def split: prod.splits)

lemma interrupt_task_fields [simp]:
  "one_thread (interrupt_task s) = one_thread s"
  "mutex_enabled (interrupt_task s) = mutex_enabled s" "has_task (interrupt_task s) = has_task s"
  "outstanding_work (interrupt_task s) = outstanding_work s"
  "sched_queue (interrupt_task s) = sched_queue s" "task_result (interrupt_task s) = task_result s"
  "shut_down_flag (interrupt_task s) = shut_down_flag s" "stack (interrupt_task s) = stack s"
  "world (interrupt_task s) = world s" "stopped (interrupt_task s) = stopped s"
  "locked (interrupt_task s) = locked s" "lock_error (interrupt_task s) = lock_error s"
  by (simp_all add: interrupt_task_def Let_def split: prod.splits)

lemma stop_all_threads_fields [simp]:
  "one_thread (stop_all_threads s) = one_thread s"
  "mutex_enabled (stop_all_threads s) = mutex_enabled s"
  "has_task (stop_all_threads s) = has_task s"
  "outstanding_work (stop_all_threads s) = outstanding_work s"
  "sched_queue (stop_all_threads s) = sched_queue s"
  "task_result (stop_all_threads s) = task_result s"
  "shut_down_flag (stop_all_threads s) = shut_down_flag s" "stack (stop_all_threads s) = stack s"
  "world (stop_all_threads s) = world s" "locked (stop_all_threads s) = locked s"
  by (simp_all add: stop_all_threads_def Let_def split: prod.splits)

lemma wake_one_thread_and_unlock_fields [simp]:
  "one_thread (wake_one_thread_and_unlock s) = one_thread s"
  "mutex_enabled (wake_one_thread_and_unlock s) = mutex_enabled s"
  "has_task (wake_one_thread_and_unlock s) = has_task s"
  "outstanding_work (wake_one_thread_and_unlock s) = outstanding_work s"
  "sched_queue (wake_one_thread_and_unlock s) = sched_queue s"
  "task_result (wake_one_thread_and_unlock s) = task_result s"
  "shut_down_flag (wake_one_thread_and_unlock s) = shut_down_flag s"
  "stack (wake_one_thread_and_unlock s) = stack s" "world (wake_one_thread_and_unlock s) = world s"
  "stopped (wake_one_thread_and_unlock s) = stopped s"
  by (simp_all add: wake_one_thread_and_unlock_def Let_def case_prod_beta)

lemma stop_fields [simp]:
  "one_thread (stop s) = one_thread s" "mutex_enabled (stop s) = mutex_enabled s"
  "has_task (stop s) = has_task s" "outstanding_work (stop s) = outstanding_work s"
  "sched_queue (stop s) = sched_queue s" "task_result (stop s) = task_result s"
  "shut_down_flag (stop s) = shut_down_flag s" "stack (stop s) = stack s" "world (stop s) = world s"
  by (simp_all add: stop_def Let_def split: prod.splits)

lemma restart_fields [simp]:
  "one_thread (restart s) = one_thread s" "mutex_enabled (restart s) = mutex_enabled s"
  "has_task (restart s) = has_task s" "outstanding_work (restart s) = outstanding_work s"
  "sched_queue (restart s) = sched_queue s" "task_result (restart s) = task_result s"
  "shut_down_flag (restart s) = shut_down_flag s" "stack (restart s) = stack s"
  "world (restart s) = world s"
  by (simp_all add: restart_def Let_def split: prod.splits)

section \<open>The lock discipline\<close>

definition hold :: "bool \<Rightarrow> ('op, 'w) sched \<Rightarrow> bool" where
  "hold l s \<longleftrightarrow> (locked s \<longleftrightarrow> l \<and> mutex_enabled s) \<and> \<not> lock_error s"

lemma hold_acquire: "hold False s \<Longrightarrow> hold True (acquire s)"
  by (simp add: hold_def acquire_def)

lemma hold_relock: "hold l s \<Longrightarrow> hold True (relock s)"
  by (auto simp: hold_def relock_def)

lemma hold_unlock: "hold l s \<Longrightarrow> hold False (unlock s)"
  by (auto simp: hold_def unlock_def)

lemma hold_signal_all: "hold True s \<Longrightarrow> hold True (signal_all s)"
  by (simp add: hold_def signal_all_def posix_signal_all_def assert_locked_def Let_def)

lemma hold_clear: "hold True s \<Longrightarrow> hold True (clear_event s)"
  by (simp add: hold_def clear_event_def posix_clear_def assert_locked_def Let_def)

lemma hold_unlock_and_signal_one: "hold True s \<Longrightarrow> hold False (unlock_and_signal_one s)"
  by (simp add: hold_def unlock_and_signal_one_def posix_unlock_and_signal_one_def assert_locked_def
      unlock_def Let_def)

lemma hold_maybe: "hold True s \<Longrightarrow> hold (\<not> fst (maybe_unlock_and_signal_one s)) (snd (maybe_unlock_and_signal_one s))"
  by (simp add: hold_def maybe_unlock_and_signal_one_def posix_maybe_unlock_and_signal_one_def
      assert_locked_def unlock_def Let_def)

lemma hold_interrupt: "hold l (interrupt_task s) \<longleftrightarrow> hold l s"
  by (simp add: hold_def)

lemma hold_stop_all: "hold True s \<Longrightarrow> hold True (stop_all_threads s)"
  unfolding stop_all_threads_def hold_interrupt by (rule hold_signal_all) (simp add: hold_def)

lemma hold_wake: "hold True s \<Longrightarrow> hold False (wake_one_thread_and_unlock s)"
proof -
  assume "hold True s"
  note h = hold_maybe [OF this]
  show ?thesis
  proof (cases "fst (maybe_unlock_and_signal_one s)")
    case False
    have "hold False (unlock (interrupt_task (snd (maybe_unlock_and_signal_one s))))"
      by (rule hold_unlock) (use h in \<open>simp only: hold_interrupt\<close>)
    then show ?thesis using False by (simp add: wake_one_thread_and_unlock_def case_prod_beta)
  qed (use h in \<open>simp add: wake_one_thread_and_unlock_def case_prod_beta\<close>)
qed

lemma hold_stop: "hold False s \<Longrightarrow> hold False (stop s)"
  unfolding stop_def by (rule hold_unlock, rule hold_stop_all, rule hold_acquire)

lemma hold_restart: "hold False s \<Longrightarrow> hold False (restart s)"
proof -
  assume "hold False s"
  then have "hold True (acquire s)" by (rule hold_acquire)
  then have "hold True ((acquire s)\<lparr>stopped := False\<rparr>)" by (simp add: hold_def)
  then show ?thesis unfolding restart_def by (rule hold_unlock)
qed

lemma hold_upd [simp]:
  "hold l (s\<lparr>sched_queue := q\<rparr>) = hold l s" "hold l (s\<lparr>stack := st\<rparr>) = hold l s"
  "hold l (s\<lparr>outstanding_work := w\<rparr>) = hold l s" "hold l (s\<lparr>task_interrupted := b\<rparr>) = hold l s"
  "hold l (s\<lparr>has_task := b\<rparr>) = hold l s" "hold l (s\<lparr>event_state := n\<rparr>) = hold l s"
  "hold l (s\<lparr>world := x\<rparr>) = hold l s" "hold l (s\<lparr>stopped := b\<rparr>) = hold l s"
  "hold l (s\<lparr>shut_down_flag := b\<rparr>) = hold l s"
  by (simp_all add: hold_def)

section \<open>The books\<close>

definition nops :: "'op entry list \<Rightarrow> int" where
  "nops q = int (length (filter (\<lambda>e. e \<noteq> Task) q))"

definition ntasks :: "'op entry list \<Rightarrow> nat" where
  "ntasks q = length (filter (\<lambda>e. e = Task) q)"

lemma nops_simps [simp]:
  "nops [] = 0" "nops (Task # q) = nops q" "nops (Op x # q) = nops q + 1" "nops (p @ q) = nops p + nops q"
  "nops (map Op xs) = int (length xs)" "0 \<le> nops q"
  by (simp_all add: nops_def comp_def)

lemma ntasks_simps [simp]:
  "ntasks [] = 0" "ntasks (Task # q) = Suc (ntasks q)" "ntasks (Op x # q) = ntasks q"
  "ntasks (p @ q) = ntasks p + ntasks q" "ntasks (map Op xs) = 0"
  by (simp_all add: ntasks_def comp_def)

text \<open>\<open>ledger\<close>: the work that is counted and not in a queue: operations in the hands of the task, and
  handlers being executed.\<close>

definition private_balance :: "'op thread_info list \<Rightarrow> int" where
  "private_balance ts = (\<Sum>t\<leftarrow>ts. private_outstanding_work t - nops (private_op_queue t))"

lemma private_balance_simps [simp]:
  "private_balance [] = 0"
  "private_balance (t # ts) = private_outstanding_work t - nops (private_op_queue t) + private_balance ts"
  by (simp_all add: private_balance_def)

definition ledger :: "('op, 'w) sched \<Rightarrow> int" where
  "ledger s = outstanding_work s + private_balance (stack s) - nops (sched_queue s)"

definition stack_ok :: "'op thread_info list \<Rightarrow> bool" where
  "stack_ok ts \<longleftrightarrow> (\<forall>t \<in> set ts. 0 \<le> private_outstanding_work t \<and> ntasks (private_op_queue t) = 0)"

lemma stack_ok_simps [simp]:
  "stack_ok []"
  "stack_ok (t # ts) \<longleftrightarrow> (0 \<le> private_outstanding_work t \<and> ntasks (private_op_queue t) = 0) \<and> stack_ok ts"
  by (simp_all add: stack_ok_def)

text \<open>\<open>sched_ok pend k j l s\<close>: \<open>k\<close> handlers are being executed, the task is off the queue (\<open>j = 1\<close>) or in
  it (\<open>j = 0\<close>), the lock is held (\<open>l\<close>), and the world has \<open>pend\<close> operations in hand.\<close>

definition sched_ok :: "('w \<Rightarrow> int) \<Rightarrow> int \<Rightarrow> nat \<Rightarrow> bool \<Rightarrow> ('op, 'w) sched \<Rightarrow> bool" where
  "sched_ok pend k j l s \<longleftrightarrow>
     ledger s = pend (world s) + k \<and> stack_ok (stack s)
     \<and> ntasks (sched_queue s) + j = (if has_task s then 1 else 0) \<and> hold l s"

lemma sched_okD:
  assumes "sched_ok pend k j l s"
  shows "ledger s = pend (world s) + k" "stack_ok (stack s)"
    "ntasks (sched_queue s) + j = (if has_task s then 1 else 0)" "hold l s"
  using assms by (simp_all add: sched_ok_def)

lemma new_sched_ok: "pend w = 0 \<Longrightarrow> sched_ok pend 0 0 False (new_sched hint w)"
  by (simp add: sched_ok_def ledger_def new_sched_def hold_def)

text \<open>An operation that changes neither the books nor the queue.\<close>

definition same_books :: "('op, 'w) sched \<Rightarrow> ('op, 'w) sched \<Rightarrow> bool" where
  "same_books s s' \<longleftrightarrow> outstanding_work s' = outstanding_work s \<and> stack s' = stack s
     \<and> sched_queue s' = sched_queue s \<and> has_task s' = has_task s \<and> world s' = world s"

lemma same_books_ok: "same_books s s' \<Longrightarrow> hold l' s' \<Longrightarrow> sched_ok pend k j l s \<Longrightarrow> sched_ok pend k j l' s'"
  by (simp add: same_books_def sched_ok_def ledger_def)

lemma stop_ok: "sched_ok pend k j False s \<Longrightarrow> sched_ok pend k j False (stop s)"
  by (rule same_books_ok) (auto simp: same_books_def sched_ok_def intro: hold_stop)

lemma restart_ok: "sched_ok pend k j False s \<Longrightarrow> sched_ok pend k j False (restart s)"
  by (rule same_books_ok) (auto simp: same_books_def sched_ok_def intro: hold_restart)

lemma is_stopped_ok:
  "sched_ok pend k j False s \<Longrightarrow> sched_ok pend k j False (snd (is_stopped s))"
  "fst (is_stopped s) = stopped s"
proof -
  show "sched_ok pend k j False s \<Longrightarrow> sched_ok pend k j False (snd (is_stopped s))"
    by (rule same_books_ok)
      (auto simp: same_books_def sched_ok_def is_stopped_def Let_def intro: hold_unlock hold_acquire)
qed (simp add: is_stopped_def Let_def)

lemma work_started_ok: "sched_ok pend k j l s \<Longrightarrow> sched_ok pend (k + 1) j l (work_started s)"
  by (simp add: sched_ok_def ledger_def work_started_def)

lemma work_finished_ok: "sched_ok pend (k + 1) j False s \<Longrightarrow> sched_ok pend k j False (work_finished s)"
proof -
  assume "sched_ok pend (k + 1) j False s"
  then have a: "sched_ok pend k j False (s\<lparr>outstanding_work := outstanding_work s - 1\<rparr>)"
    by (simp add: sched_ok_def ledger_def)
  then show ?thesis unfolding work_finished_def Let_def by (simp only: stop_ok split: if_split) blast
qed

section \<open>Posting\<close>

lemma upd_top_simps [simp]:
  "one_thread (upd_top f s) = one_thread s" "mutex_enabled (upd_top f s) = mutex_enabled s"
  "has_task (upd_top f s) = has_task s" "outstanding_work (upd_top f s) = outstanding_work s"
  "sched_queue (upd_top f s) = sched_queue s" "world (upd_top f s) = world s"
  "hold l (upd_top f s) = hold l s" "length (stack (upd_top f s)) = length (stack s)"
  "stopped (upd_top f s) = stopped s"
  by (simp_all add: upd_top_def split: list.splits)

lemma push_op_simps [simp]:
  "one_thread (push_op q s) = one_thread s" "mutex_enabled (push_op q s) = mutex_enabled s"
  "has_task (push_op q s) = has_task s" "outstanding_work (push_op q s) = outstanding_work s"
  "sched_queue (push_op q s) = sched_queue s @ q" "world (push_op q s) = world s"
  "hold l (push_op q s) = hold l s" "stack (push_op q s) = stack s" "stopped (push_op q s) = stopped s"
  by (simp_all add: push_op_def)

lemma push_private_ok:
  assumes "sched_ok pend k j l s" "can_dispatch s" "0 \<le> n"
  shows "sched_ok pend (k + n - int (length ops)) j l (push_private n (map Op ops) s)"
  using assms by (cases "stack s") (auto simp: sched_ok_def ledger_def push_private_def upd_top_def can_dispatch_def)

lemma push_wake_ok:
  assumes "sched_ok pend k j False s"
  shows "sched_ok pend (k - int (length ops)) j False
    (wake_one_thread_and_unlock (push_op (map Op ops) (acquire s)))"
proof -
  have "hold False (wake_one_thread_and_unlock (push_op (map Op ops) (acquire s)))"
    using sched_okD(4) [OF assms] by (intro hold_wake) (simp add: hold_acquire)
  then show ?thesis using assms by (simp add: sched_ok_def ledger_def)
qed

lemma post_deferred_completions_ok:
  assumes "sched_ok pend k j False s"
  shows "sched_ok pend (k - int (length ops)) j False (post_deferred_completions ops s)"
  using push_private_ok [OF assms, of 0 ops] push_wake_ok [OF assms, of ops] assms
  by (auto simp: post_deferred_completions_def)

lemma post_deferred_completion_ok:
  assumes "sched_ok pend (k + 1) j False s"
  shows "sched_ok pend k j False (post_deferred_completion opn s)"
  using push_private_ok [OF assms, of 0 "[opn]"] push_wake_ok [OF assms, of "[opn]"]
  by (auto simp: post_deferred_completion_def)

lemma post_immediate_completions_ok:
  assumes "sched_ok pend k j False s"
  shows "sched_ok pend k j False (post_immediate_completions (int (length ops)) ops c s)"
proof -
  have "sched_ok pend (k + int (length ops)) j False (s\<lparr>outstanding_work := outstanding_work s + int (length ops)\<rparr>)"
    using assms by (simp add: sched_ok_def ledger_def)
  from push_wake_ok [OF this, of ops] push_private_ok [OF assms, of "int (length ops)" ops]
  show ?thesis by (auto simp: post_immediate_completions_def)
qed

lemma post_immediate_completion_ok:
  assumes "sched_ok pend k j False s"
  shows "sched_ok pend k j False (post_immediate_completion opn c s)"
  using push_wake_ok [OF work_started_ok [OF assms], of "[opn]"] push_private_ok [OF assms, of 1 "[opn]"]
  by (auto simp: post_immediate_completion_def)

lemma do_dispatch_ok:
  assumes "sched_ok pend k j False s"
  shows "sched_ok pend k j False (do_dispatch opn s)"
  using push_wake_ok [OF work_started_ok [OF assms], of "[opn]"] by (simp add: do_dispatch_def)

lemma compensating_ok:
  assumes "sched_ok pend k j l s" "can_dispatch s"
  shows "sched_ok pend (k + 1) j l (compensating_work_started s)"
  using assms by (cases "stack s") (auto simp: sched_ok_def ledger_def compensating_work_started_def upd_top_def can_dispatch_def)

lemma init_task_ok:
  assumes ok: "sched_ok pend k j False s"
  shows "sched_ok pend k j False (init_task s)"
proof (cases "\<not> shut_down_flag s \<and> \<not> has_task s")
  case True
  have "hold False (wake_one_thread_and_unlock (push_op [Task] ((acquire s)\<lparr>has_task := True\<rparr>)))"
    using sched_okD(4) [OF ok] by (intro hold_wake) (simp add: hold_acquire)
  then show ?thesis using ok True by (simp add: init_task_def Let_def sched_ok_def ledger_def)
next
  case False
  then have "init_task s = unlock (acquire s)" by (auto simp: init_task_def Let_def)
  then show ?thesis using ok by (auto simp: sched_ok_def ledger_def intro: hold_unlock hold_acquire)
qed

end
