(* ===== verification/SchedulerClient.thy ===== *)
theory SchedulerClient
  imports SchedulerInv
begin

text \<open>
  The contract between the scheduler and what runs on it, and what the run functions promise to every
  client that keeps to it. A handler, called with the lock released, leaves the books balanced while
  counting itself as work in progress; the task moves operations it has in hand to the private queue;
  sleeping threads let others do either.
\<close>

lemma top_info_Cons [simp]: "stack s = t # ts \<Longrightarrow> top_info s = t"
  by (simp add: top_info_def)

lemma stack_upd_top: "stack s = t # ts \<Longrightarrow> stack (upd_top f s) = f t # ts"
  by (simp add: upd_top_def)

text \<open>The innermost thread info is as it was when its run function entered.\<close>

definition clean :: "('op, 'w) sched \<Rightarrow> bool" where
  "clean s \<longleftrightarrow> stack s \<noteq> [] \<and> private_op_queue (top_info s) = [] \<and> private_outstanding_work (top_info s) = 0"

lemma clean_stack: "stack s = stack s' \<Longrightarrow> clean s = clean s'"
  by (simp add: clean_def top_info_def)

text \<open>What a run function returns with: balanced books, at most one handler run.\<close>

definition returned ::
  "('w \<Rightarrow> int) \<Rightarrow> int \<Rightarrow> nat \<Rightarrow> nat \<Rightarrow> nat \<times> bool \<times> ('op, 'w) sched \<Rightarrow> bool" where
  "returned pend k j depth r \<longleftrightarrow> (case r of (n, threw, s) \<Rightarrow>
     (\<exists>l. sched_ok pend k j l s) \<and> length (stack s) = depth \<and> n \<le> 1 \<and> clean s)"

text \<open>The cleanups.\<close>

lemma task_cleanup_ok:
  assumes ok: "sched_ok pend k 1 False s" and st: "stack s \<noteq> []"
  shows "sched_ok pend k 0 True (task_cleanup s)" "length (stack (task_cleanup s)) = length (stack s)"
    "sched_queue (task_cleanup s) = sched_queue s @ private_op_queue (top_info s) @ [Task]"
    "has_task (task_cleanup s)" "stopped (task_cleanup s) = stopped s" "clean (task_cleanup s)"
proof -
  obtain t ts where s: "stack s = t # ts" using st by (cases "stack s") auto
  have task: "has_task s" and nt: "ntasks (sched_queue s) = 0"
    using sched_okD(3) [OF ok] by (auto split: if_splits)
  have pos: "0 \<le> private_outstanding_work t" "ntasks (private_op_queue t) = 0" "stack_ok ts"
    using sched_okD(2) [OF ok] s by auto
  define u where "u = upd_top (\<lambda>t. t\<lparr>private_outstanding_work := 0\<rparr>)
    (s\<lparr>outstanding_work := outstanding_work s + private_outstanding_work t\<rparr>)"
  have same: "(if private_outstanding_work t > 0
      then s\<lparr>outstanding_work := outstanding_work s + private_outstanding_work t\<rparr> else s)
    = s\<lparr>outstanding_work := outstanding_work s + private_outstanding_work t\<rparr>"
    using pos(1) by simp
  have u: "stack u = t\<lparr>private_outstanding_work := 0\<rparr> # ts"
    "outstanding_work u = outstanding_work s + private_outstanding_work t"
    "sched_queue u = sched_queue s" "has_task u = has_task s" "world u = world s" "stopped u = stopped s"
    using s by (simp_all add: u_def upd_top_def)
  have "hold False u" using sched_okD(4) [OF ok] by (simp add: u_def)
  then have h: "hold True (relock u)" by (rule hold_relock)
  define v where "v = (relock u)\<lparr>task_interrupted := True\<rparr>"
  have v: "stack v = t\<lparr>private_outstanding_work := 0\<rparr> # ts"
    "outstanding_work v = outstanding_work s + private_outstanding_work t"
    "sched_queue v = sched_queue s" "has_task v = has_task s" "world v = world s" "stopped v = stopped s"
    "hold True v"
    using u h by (simp_all add: v_def)
  have tc: "task_cleanup s = push_op [Task] (upd_top (\<lambda>t. t\<lparr>private_op_queue := []\<rparr>)
      (push_op (private_op_queue t) v))"
    unfolding task_cleanup_def Let_def top_info_Cons [OF s] same u_def [symmetric] v_def [symmetric]
    using v(1) by simp
  have st': "stack (task_cleanup s) = t\<lparr>private_outstanding_work := 0, private_op_queue := []\<rparr> # ts"
    unfolding tc using v(1) by (simp add: stack_upd_top)
  show q: "sched_queue (task_cleanup s) = sched_queue s @ private_op_queue (top_info s) @ [Task]"
    "has_task (task_cleanup s)" "stopped (task_cleanup s) = stopped s"
    using s v task by (simp_all add: tc)
  show "length (stack (task_cleanup s)) = length (stack s)" "clean (task_cleanup s)"
    using st' s by (simp_all add: clean_def)
  have "hold True (task_cleanup s)" "outstanding_work (task_cleanup s) = outstanding_work s + private_outstanding_work t"
    "world (task_cleanup s) = world s"
    using v by (simp_all add: tc)
  then show "sched_ok pend k 0 True (task_cleanup s)"
    using sched_okD(1) [OF ok] s q pos nt by (simp add: sched_ok_def ledger_def st')
qed

lemma work_cleanup_ok:
  assumes ok: "sched_ok pend (k + 1) j False s" and st: "stack s \<noteq> []"
  shows "sched_ok pend k j (private_op_queue (top_info s) \<noteq> []) (work_cleanup s)"
    "length (stack (work_cleanup s)) = length (stack s)"
    "clean (work_cleanup s)"
proof -
  obtain t ts where s: "stack s = t # ts" using st by (cases "stack s") auto
  define w where "w = private_outstanding_work t"
  define a where "a = (if w > 1 then s\<lparr>outstanding_work := outstanding_work s + (w - 1)\<rparr>
    else if w < 1 then work_finished s else s)"
  have pos: "0 \<le> w" "ntasks (private_op_queue t) = 0" "stack_ok ts"
    using sched_okD(2) [OF ok] s by (auto simp: w_def)
  have fin: "stack (work_finished s) = stack s" "sched_queue (work_finished s) = sched_queue s"
    "outstanding_work (work_finished s) = outstanding_work s - 1"
    "has_task (work_finished s) = has_task s" "world (work_finished s) = world s"
    by (simp_all add: work_finished_def Let_def)
  have a: "stack a = t # ts" "sched_queue a = sched_queue s" "has_task a = has_task s" "world a = world s"
    "outstanding_work a = outstanding_work s + w - 1"
    using pos(1) s fin by (auto simp: a_def)
  have "hold False (work_finished s)" using work_finished_ok [OF ok] by (rule sched_okD(4))
  then have ha: "hold False a" using sched_okD(4) [OF ok] by (simp add: a_def)
  define b where "b = upd_top (\<lambda>t. t\<lparr>private_outstanding_work := 0\<rparr>) a"
  have b: "stack b = t\<lparr>private_outstanding_work := 0\<rparr> # ts" "sched_queue b = sched_queue s"
    "has_task b = has_task s" "world b = world s" "outstanding_work b = outstanding_work s + w - 1"
    "hold False b"
    using a ha by (simp_all add: b_def stack_upd_top)
  have wc: "work_cleanup s = (if private_op_queue t \<noteq> [] then
      upd_top (\<lambda>t. t\<lparr>private_op_queue := []\<rparr>) (push_op (private_op_queue t) (relock b)) else b)"
    unfolding work_cleanup_def Let_def top_info_Cons [OF s] a_def [symmetric] w_def [symmetric] b_def [symmetric]
    using b(1) by (simp add: top_info_def)
  have hr: "hold True (relock b)" using b(6) by (rule hold_relock)
  show "length (stack (work_cleanup s)) = length (stack s)" "clean (work_cleanup s)"
    using b(1) s by (simp_all add: wc clean_def top_info_def stack_upd_top)
  show "sched_ok pend k j (private_op_queue (top_info s) \<noteq> []) (work_cleanup s)"
    using sched_okD(1,3) [OF ok] b pos hr s
    by (auto simp: wc sched_ok_def ledger_def w_def stack_upd_top)
qed

text \<open>Taking the front of the queue.\<close>

lemma pop_task:
  assumes "sched_ok pend k 0 l s" "sched_queue s = Task # q"
  shows "sched_ok pend k 1 l (s\<lparr>sched_queue := q\<rparr>)"
  using assms by (simp add: sched_ok_def ledger_def)

lemma pop_op:
  assumes "sched_ok pend k j l s" "sched_queue s = Op opn # q"
  shows "sched_ok pend (k + 1) j l (s\<lparr>sched_queue := q\<rparr>)"
  using assms by (simp add: sched_ok_def ledger_def)

section \<open>The contract\<close>

locale scheduler_handlers =
  fixes E :: "('op, 'w) sched_env" and pend :: "'w \<Rightarrow> int"
  assumes complete_law: "sched_ok pend (k + 1) j False s \<Longrightarrow> stack s \<noteq> [] \<Longrightarrow>
      env_complete E opn r s = (threw, s') \<Longrightarrow>
      sched_ok pend (k + 1) j False s' \<and> length (stack s') = length (stack s)"
    and task_law: "sched_ok pend k 1 False s \<Longrightarrow> stack s \<noteq> [] \<Longrightarrow> env_run_task E usec s = (threw, s') \<Longrightarrow>
      sched_ok pend k 1 False s' \<and> length (stack s') = length (stack s)"
begin

lemma run_op_ok:
  assumes ok: "sched_ok pend (k + 1) j True s" and st: "stack s \<noteq> []" and r: "run_op E opn s = (n, threw, s')"
  shows "returned pend k j (length (stack s)) (n, threw, s') \<and> n = (if threw then 0 else 1)"
proof -
  define s1 where "s1 = (if sched_queue s \<noteq> [] \<and> \<not> one_thread s then wake_one_thread_and_unlock s else unlock s)"
  have "hold False s1" using sched_okD(4) [OF ok] by (auto simp: s1_def intro: hold_wake hold_unlock)
  then have ok1: "sched_ok pend (k + 1) j False s1" and st1: "stack s1 = stack s"
    using ok by (auto simp: s1_def sched_ok_def ledger_def)
  obtain t2 s2 where c: "env_complete E opn (task_result s opn) s1 = (t2, s2)" by (rule prod.exhaust)
  then have ok2: "sched_ok pend (k + 1) j False s2" and st2: "length (stack s2) = length (stack s)"
    using complete_law [OF ok1 _ c] st st1 by auto
  then have "stack s2 \<noteq> []" using st by auto
  note wc = work_cleanup_ok [OF ok2 this]
  have "run_op E opn s = (if t2 then (0, True, work_cleanup s2) else (1, False, work_cleanup s2))"
    unfolding run_op_def Let_def s1_def [symmetric] c by simp
  then show ?thesis using r wc st2 by (auto simp: returned_def split: if_splits)
qed

lemma run_the_task_ok:
  assumes ok: "sched_ok pend k 1 True s" and st: "stack s \<noteq> []" and r: "run_the_task E usec s = (threw, s')"
  shows "sched_ok pend k 0 True s' \<and> length (stack s') = length (stack s) \<and> has_task s' \<and> clean s'"
proof -
  let ?more = "sched_queue s \<noteq> []"
  define s0 where "s0 = s\<lparr>task_interrupted := ?more\<rparr>"
  define s1 where "s1 = (if ?more \<and> \<not> one_thread s then unlock_and_signal_one s0 else unlock s0)"
  have "hold True s0" using sched_okD(4) [OF ok] by (simp add: s0_def)
  then have "hold False s1" by (auto simp: s1_def intro: hold_unlock_and_signal_one hold_unlock)
  moreover have "has_task s" using sched_okD(3) [OF ok] by (auto split: if_splits)
  ultimately have ok1: "sched_ok pend k 1 False s1" and st1: "stack s1 = stack s"
    using ok by (auto simp: s1_def s0_def sched_ok_def ledger_def)
  obtain t2 s2 where c: "env_run_task E (if ?more then 0 else usec) s1 = (t2, s2)" by (rule prod.exhaust)
  then have ok2: "sched_ok pend k 1 False s2" and st2: "length (stack s2) = length (stack s)"
    using task_law [OF ok1 _ c] st st1 by auto
  then have "stack s2 \<noteq> []" using st by auto
  note tc = task_cleanup_ok [OF ok2 this]
  have "run_the_task E usec s = (t2, task_cleanup s2)"
    using c unfolding run_the_task_def Let_def s1_def s0_def by simp
  then show ?thesis using r tc st2 by auto
qed

end

text \<open>While the thread sleeps on the event, other threads act on the scheduler, not on this thread's
  stack.\<close>

locale scheduler_client = scheduler_handlers E pend
  for E :: "('op, 'w) sched_env" and pend :: "'w \<Rightarrow> int" +
  assumes sleep_law: "sched_ok pend k j False s \<Longrightarrow> stack s \<noteq> [] \<Longrightarrow> env_sleep E s = Some s' \<Longrightarrow>
      sched_ok pend k j False s' \<and> stack s' = stack s \<and> mutex_enabled s' = mutex_enabled s"
    and sleep_usec_law: "sched_ok pend k j False s \<Longrightarrow> stack s \<noteq> [] \<Longrightarrow> s' = env_sleep_usec E usec s \<Longrightarrow>
      sched_ok pend k j False s' \<and> stack s' = stack s \<and> mutex_enabled s' = mutex_enabled s"
begin

text \<open>Sleeping on the event, with the lock released in between.\<close>

lemma posix_wait_ok:
  assumes "posix_wait E s = Some s'" "sched_ok pend k j True s" "mutex_enabled s" "stack s \<noteq> []"
  shows "sched_ok pend k j True s' \<and> stack s' = stack s"
proof -
  have "E = E \<longrightarrow> sched_ok pend k j True s \<and> mutex_enabled s \<and> stack s \<noteq> [] \<longrightarrow>
    sched_ok pend k j True s' \<and> stack s' = stack s"
  proof (rule posix_wait.raw_induct [OF _ assms(1), of "\<lambda>E' s s'. E' = E \<longrightarrow>
      sched_ok pend k j True s \<and> mutex_enabled s \<and> stack s \<noteq> [] \<longrightarrow>
      sched_ok pend k j True s' \<and> stack s' = stack s"], intro impI, elim conjE)
    fix f :: "('op, 'w) sched_env \<Rightarrow> ('op, 'w) sched \<Rightarrow> ('op, 'w) sched option" and E' s s'
    assume ih: "\<And>E' s s'. f E' s = Some s' \<Longrightarrow> E' = E \<longrightarrow>
        sched_ok pend k j True s \<and> mutex_enabled s \<and> stack s \<noteq> [] \<longrightarrow>
        sched_ok pend k j True s' \<and> stack s' = stack s"
      and body: "(if even (event_state s) then
          (case env_sleep E' (s\<lparr>event_state := event_state s + 2, locked := False\<rparr>) of
             None \<Rightarrow> None
           | Some s' \<Rightarrow> f E' (s'\<lparr>event_state := event_state s' - 2, locked := True\<rparr>))
        else Some s) = Some s'"
      and E': "E' = E" and ok: "sched_ok pend k j True s" and en: "mutex_enabled s" and st: "stack s \<noteq> []"
    show "sched_ok pend k j True s' \<and> stack s' = stack s"
    proof (cases "even (event_state s)")
      case False
      then show ?thesis using body ok by simp
    next
      case True
      let ?a = "s\<lparr>event_state := event_state s + 2, locked := False\<rparr>"
      from body True E' obtain b where b: "env_sleep E ?a = Some b"
        "f E (b\<lparr>event_state := event_state b - 2, locked := True\<rparr>) = Some s'"
        by (auto split: option.splits)
      have "sched_ok pend k j False ?a" using ok by (simp add: sched_ok_def ledger_def hold_def)
      then have okb: "sched_ok pend k j False b" "stack b = stack s" "mutex_enabled b"
        using sleep_law [OF _ _ b(1)] st en by auto
      have "sched_ok pend k j True (b\<lparr>event_state := event_state b - 2, locked := True\<rparr>)"
        using okb(1,3) by (simp add: sched_ok_def ledger_def hold_def)
      moreover have "stack b \<noteq> []" using okb(2) st by auto
      ultimately show ?thesis using ih [OF b(2)] okb(2,3) by simp
    qed
  qed
  then show ?thesis using assms by blast
qed

lemma wait_event_ok:
  assumes w: "wait_event E (clear_event s) = Some s'" and ok: "sched_ok pend k j True s" and st: "stack s \<noteq> []"
  shows "sched_ok pend k j True s' \<and> stack s' = stack s"
proof -
  have "hold True (clear_event s)" using ok by (intro hold_clear) (rule sched_okD(4))
  then have "sched_ok pend k j True (assert_locked (clear_event s)) \<and> mutex_enabled (clear_event s)"
    using ok w by (auto simp: sched_ok_def ledger_def hold_def assert_locked_def wait_event_def split: if_splits)
  then show ?thesis using posix_wait_ok [of "assert_locked (clear_event s)" s' k j] w st
    by (auto simp: wait_event_def split: if_splits)
qed

lemma wait_event_for_usec_ok:
  assumes ok: "sched_ok pend k j True s" and st: "stack s \<noteq> []"
    and s': "s' = snd (wait_event_for_usec E usec (clear_event s))"
  shows "sched_ok pend k j True s' \<and> stack s' = stack s"
proof -
  let ?c = "clear_event s"
  have h: "hold True ?c" using ok by (intro hold_clear) (rule sched_okD(4))
  have okc: "sched_ok pend k j True ?c" using ok h by (simp add: sched_ok_def ledger_def)
  show ?thesis
  proof (cases "mutex_enabled s")
    case False
    then have "sched_ok pend k j False ?c" using okc by (simp add: sched_ok_def hold_def)
    moreover have "s' = env_sleep_usec E usec ?c" using s' False by (simp add: wait_event_for_usec_def)
    ultimately have "sched_ok pend k j False s' \<and> stack s' = stack s \<and> \<not> mutex_enabled s'"
      using sleep_usec_law [of k j ?c s' usec] st False by simp
    then show ?thesis by (auto simp: sched_ok_def hold_def)
  next
    case True
    let ?d = "assert_locked ?c"
    have okd: "sched_ok pend k j True ?d" using okc True by (simp add: sched_ok_def ledger_def hold_def assert_locked_def)
    define a where "a = ?d\<lparr>event_state := event_state ?d + 2, locked := False\<rparr>"
    define b where "b = env_sleep_usec E usec a"
    have "sched_ok pend k j False a" "stack a = stack s" "mutex_enabled a"
      using okd True by (simp_all add: sched_ok_def ledger_def hold_def a_def)
    then have b: "sched_ok pend k j False b" "stack b = stack s" "mutex_enabled b"
      using sleep_usec_law [of k j a b usec] st by (simp_all add: b_def)
    have "sched_ok pend k j True (b\<lparr>event_state := event_state b - 2, locked := True\<rparr>)"
      using b by (simp add: sched_ok_def ledger_def hold_def)
    moreover have "s' = (if even (event_state ?d) then b\<lparr>event_state := event_state b - 2, locked := True\<rparr> else ?d)"
      using s' True by (simp add: wait_event_for_usec_def posix_wait_for_usec_def Let_def a_def b_def)
    ultimately show ?thesis using okd b(2) by simp
  qed
qed

end

end
