(* ===== verification/SchedulerSpec.thy ===== *)
theory SchedulerSpec
  imports SchedulerLoops
begin

text \<open>
  The properties of the scheduler: the books of outstanding work, the contract under which \<open>do_run_one\<close>
  makes progress (which theory EpollLive discharges for the reactor), that a scheduler with a task never sleeps
  on its event, and the meaning of the concurrency hints.
\<close>

section \<open>Progress\<close>

text \<open>A task that only appends to the queue and, when it may block, comes back with something to do after a
  number of runs: \<open>soon n w\<close> says that \<open>n\<close> runs from the world \<open>w\<close> are enough.\<close>

locale scheduler_live = scheduler_handlers E pend
  for E :: "('op, 'w) sched_env" and pend :: "'w \<Rightarrow> int" +
  fixes soon :: "nat \<Rightarrow> 'w \<Rightarrow> bool"
  assumes append_law: "env_run_task E usec s = (threw, s') \<Longrightarrow> \<exists>more. sched_queue s' = sched_queue s @ more"
    and soon_0: "\<not> soon 0 w"
    and deliver_law: "env_run_task E (- 1) s = (False, s') \<Longrightarrow> stack s \<noteq> [] \<Longrightarrow> soon (Suc n) (world s) \<Longrightarrow>
      stopped s' \<or> private_op_queue (top_info s') \<noteq> [] \<or> sched_queue s' \<noteq> [] \<or> soon n (world s')"
begin

text \<open>One run of the task brings an operation to the front, or the scheduler stops, or it takes one run less.\<close>

lemma task_brings_op:
  assumes ok: "sched_ok pend k 1 True s" and st: "stack s \<noteq> []" and r: "run_the_task E (- 1) s = (False, s')"
    and live: "sched_queue s = [] \<Longrightarrow> soon (Suc n) (world s)"
  shows "stopped s' \<or> (\<exists>x q. sched_queue s' = Op x # q) \<or> sched_queue s = [] \<and> soon n (world s')"
proof -
  let ?more = "sched_queue s \<noteq> []"
  define s1 where "s1 = (if ?more \<and> \<not> one_thread s then unlock_and_signal_one (s\<lparr>task_interrupted := ?more\<rparr>)
    else unlock (s\<lparr>task_interrupted := ?more\<rparr>))"
  have q1: "sched_queue s1 = sched_queue s" "stack s1 \<noteq> []" "world s1 = world s" using st by (simp_all add: s1_def)
  obtain t s2 where c: "env_run_task E (if ?more then 0 else - 1) s1 = (t, s2)" by (rule prod.exhaust)
  have res: "run_the_task E (- 1) s = (t, task_cleanup s2)"
    using c unfolding run_the_task_def Let_def s1_def by simp
  then have t: "\<not> t" and s': "s' = task_cleanup s2" using r by auto
  have fin: "sched_ok pend k 0 True s'" using run_the_task_ok [OF ok st r] by simp
  obtain more where app: "sched_queue s2 = sched_queue s @ more" using append_law [OF c] q1(1) by auto
  have one: "ntasks (sched_queue s') = 1"
    using sched_okD(3) [OF fin] run_the_task_ok [OF ok st r] by simp
  have "\<exists>q2. sched_queue s' = sched_queue s2 @ private_op_queue (top_info s2) @ [Task] \<and> stopped s' = stopped s2
      \<and> world s' = world s2"
    unfolding s' by (simp add: task_cleanup_def Let_def top_info_def upd_top_def relock_def push_op_def
        split: list.splits)
  then have q': "sched_queue s' = sched_queue s2 @ private_op_queue (top_info s2) @ [Task]"
    and stp: "stopped s' = stopped s2" and w': "world s' = world s2" by auto
  show ?thesis
  proof (cases "stopped s2 \<or> sched_queue s = [] \<and> soon n (world s')")
    case False
    then have ne: "sched_queue s2 @ private_op_queue (top_info s2) \<noteq> []"
      using app deliver_law [of s1 s2 n] c t q1 live w' by (cases ?more) auto
    then obtain e q where e: "sched_queue s2 @ private_op_queue (top_info s2) = e # q"
      by (cases "sched_queue s2 @ private_op_queue (top_info s2)") auto
    have full: "sched_queue s' = e # q @ [Task]" using q' e by (metis append_Cons append_assoc)
    have "e \<noteq> Task"
    proof
      assume "e = Task"
      then have "ntasks (sched_queue s') = Suc (ntasks q + 1)" using full by simp
      with one show False by simp
    qed
    then show ?thesis using full by (cases e) auto
  qed (use stp in auto)
qed

text \<open>At a handler, or stopped, \<open>do_run_one\<close> is at its end.\<close>

lemma do_run_one_direct:
  assumes front: "stopped s \<or> (\<exists>x q. sched_queue s = Op x # q)"
  shows "\<exists>n threw s'. do_run_one E s = Some (n, threw, s') \<and> (n = 1 \<or> threw \<or> stopped s')"
proof (cases "stopped s")
  case True
  then have "do_run_one E s = Some (0, False, s)" by (subst do_run_one.simps) simp
  then show ?thesis using True by blast
next
  case False
  then obtain x q where q: "sched_queue s = Op x # q" using front by blast
  obtain n threw s' where r: "run_op E x (s\<lparr>sched_queue := q\<rparr>) = (n, threw, s')" by (rule prod_cases3)
  then have "n = 1 \<or> threw" unfolding run_op_def Let_def by (auto split: prod.splits if_splits)
  moreover have "do_run_one E s = Some (n, threw, s')" using r q False by (subst do_run_one.simps) simp
  ultimately show ?thesis by blast
qed

lemma do_run_one_returns:
  assumes "sched_ok pend k 0 True s" "clean s" "has_task s" "sched_queue s = [Task] \<Longrightarrow> soon waits (world s)"
  shows "\<exists>n threw s'. do_run_one E s = Some (n, threw, s') \<and> (n = 1 \<or> threw \<or> stopped s')"
  using assms
proof (induction waits arbitrary: s rule: less_induct)
  case (less waits)
  note ok = less.prems(1) and st = less.prems(2) and task = less.prems(3)
  show ?case
  proof (cases "stopped s \<or> (\<exists>x q. sched_queue s = Op x # q)")
    case True
    then show ?thesis by (rule do_run_one_direct)
  next
    case ns: False
    have "ntasks (sched_queue s) = 1" using sched_okD(3) [OF ok] task by simp
    then obtain q where q: "sched_queue s = Task # q" using ns by (cases "sched_queue s" rule: queue_cases) auto
    obtain tw t where t: "run_the_task E (- 1) (s\<lparr>sched_queue := q\<rparr>) = (tw, t)" by (rule prod.exhaust)
    have step: "do_run_one E s = (if tw then Some (0, True, t) else do_run_one E t)"
      using ns q t by (subst do_run_one.simps) simp
    have st': "stack (s\<lparr>sched_queue := q\<rparr>) \<noteq> []" using st by (simp add: clean_def)
    note pop = pop_task [OF ok q]
    note okt = run_the_task_ok [OF pop st' t]
    show ?thesis
    proof (cases tw)
      case True
      then show ?thesis using step by auto
    next
      case False
      obtain m where m: "q = [] \<Longrightarrow> m < waits \<and> soon (Suc m) (world s)"
      proof (cases waits)
        case 0
        then have "q \<noteq> []" using soon_0 less.prems(4) q by auto
        then show ?thesis using that by blast
      next
        case (Suc m)
        then show ?thesis using that [of m] less.prems(4) q by simp
      qed
      have "stopped t \<or> (\<exists>x q. sched_queue t = Op x # q) \<or> q = [] \<and> soon m (world t)"
        using task_brings_op [OF pop st', of t m] t False m by simp
      then show ?thesis
      proof (elim disjE conjE)
        assume "q = []" "soon m (world t)"
        then show ?thesis using less.IH [of m t] m okt step False by auto
      next
        assume "stopped t"
        then show ?thesis using do_run_one_direct [of t] step False by simp
      next
        assume "\<exists>x q. sched_queue t = Op x # q"
        then show ?thesis using do_run_one_direct [of t] step False by simp
      qed
    qed
  qed
qed

end

section \<open>Where the thread waits\<close>

definition same_handlers :: "('op, 'w) sched_env \<Rightarrow> ('op, 'w) sched_env \<Rightarrow> bool" where
  "same_handlers E F \<longleftrightarrow> env_complete F = env_complete E \<and> env_run_task F = env_run_task E"

lemma same_handlers_runs:
  assumes "same_handlers E F"
  shows "run_op F = run_op E" "run_the_task F = run_the_task E"
  using assms by (auto simp: fun_eq_iff same_handlers_def run_op_def run_the_task_def Let_def)

lemma same_handlers_contract: "same_handlers E F \<Longrightarrow> scheduler_handlers E pend \<Longrightarrow> scheduler_handlers F pend"
  by (simp add: same_handlers_def scheduler_handlers_def)

lemma do_run_one_other_sleep:
  assumes r: "do_run_one E s = Some r" and h: "scheduler_handlers E pend" and same: "same_handlers E F"
    and s: "sched_ok pend k 0 True s" "clean s" "has_task s"
  shows "do_run_one F s = Some r"
proof -
  let ?P = "\<lambda>E' s r. E' = E \<longrightarrow> sched_ok pend k 0 True s \<and> clean s \<and> has_task s \<longrightarrow> do_run_one F s = Some r"
  have "?P E s r"
  proof (rule do_run_one.raw_induct [OF _ r, of ?P], intro impI, elim conjE)
    fix f :: "('a, 'b) sched_env \<Rightarrow> ('a, 'b) sched \<Rightarrow> ('a, 'b) run_result option" and E' s r
    assume ih: "\<And>E' s r. f E' s = Some r \<Longrightarrow> ?P E' s r"
      and body: "(if \<not> stopped s then
        (case sched_queue s of
           [] \<Rightarrow> (case wait_event E' (clear_event s) of None \<Rightarrow> None | Some s' \<Rightarrow> f E' s')
         | Task # q \<Rightarrow>
             (let (threw, s') = run_the_task E' (- 1) (s\<lparr>sched_queue := q\<rparr>)
              in if threw then Some (0, True, s') else f E' s')
         | Op opn # q \<Rightarrow> Some (run_op E' opn (s\<lparr>sched_queue := q\<rparr>)))
      else Some (0, False, s)) = Some r"
      and E': "E' = E" and ok: "sched_ok pend k 0 True s" and st: "clean s" and task: "has_task s"
    note body = body [unfolded E']
    show "do_run_one F s = Some r"
    proof (cases "sched_queue s" rule: queue_cases)
      case empty
      then show ?thesis using sched_okD(3) [OF ok] task by simp
    next
      case (opn x q)
      then show ?thesis using body same_handlers_runs(1) [OF same]
        by (subst do_run_one.simps) (cases "stopped s"; simp)
    next
      case (task q)
      obtain tw t where t: "run_the_task E (- 1) (s\<lparr>sched_queue := q\<rparr>) = (tw, t)" by (rule prod.exhaust)
      have "stack (s\<lparr>sched_queue := q\<rparr>) \<noteq> []" using st by (simp add: clean_def)
      from scheduler_handlers.run_the_task_ok [OF h pop_task [OF ok task] this t]
      have "sched_ok pend k 0 True t \<and> clean t \<and> has_task t" by simp
      then have "do_run_one F t = Some r" if "\<not> stopped s" "\<not> tw"
        using body task t that ih [of E t r] by simp
      then show ?thesis using body task t same_handlers_runs(2) [OF same]
        by (subst do_run_one.simps) (auto split: if_splits)
    qed
  qed
  then show ?thesis using s by simp
qed

section \<open>Properties\<close>

text \<open>An environment for the witnesses: handlers do nothing, a run of the task hands over the one
  operation the world still has (the world is the list of those operations).\<close>

definition idle_env :: "(nat, nat list) sched_env" where
  "idle_env = \<lparr>env_complete = (\<lambda>_ _ s. (False, s)),
     env_run_task = (\<lambda>_ s. case world s of [] \<Rightarrow> (False, s\<lparr>stopped := True\<rparr>)
        | x # xs \<Rightarrow> (False, push_private 0 [Op x] (s\<lparr>world := xs\<rparr>))),
     env_sleep = (\<lambda>_. None), env_sleep_usec = (\<lambda>_ s. s)\<rparr>"

lemma idle_client: "scheduler_client idle_env (\<lambda>w. int (length w))"
proof unfold_locales
  fix k s usec threw and s' :: "(nat, nat list) sched"
  assume a: "sched_ok (\<lambda>w. int (length w)) k 1 False s" "stack s \<noteq> []"
    "env_run_task idle_env usec s = (threw, s')"
  show "sched_ok (\<lambda>w. int (length w)) k 1 False s' \<and> length (stack s') = length (stack s)"
  proof (cases "world s")
    case Nil
    then have "s' = s\<lparr>stopped := True\<rparr>" using a(3) by (simp add: idle_env_def)
    moreover have "sched_ok (\<lambda>w. int (length w)) k 1 False (s\<lparr>stopped := True\<rparr>)"
      using a(1) by (simp add: sched_ok_def ledger_def)
    ultimately show ?thesis by simp
  next
    case (Cons x xs)
    then have s': "s' = push_private 0 [Op x] (s\<lparr>world := xs\<rparr>)" using a(3) by (simp add: idle_env_def)
    have "sched_ok (\<lambda>w. int (length w)) (k + 1) 1 False (s\<lparr>world := xs\<rparr>)"
      using a(1) Cons by (simp add: sched_ok_def ledger_def)
    from push_private_ok [OF this, of 0 "[x]"] a(2) show ?thesis
      by (simp add: s' can_dispatch_def push_private_def)
  qed
qed (auto simp: idle_env_def)

text \<open>C5: every run function keeps the scheduler's books. For handlers and a task that keep to the
  contract, \<open>run\<close>, \<open>run_one\<close>, \<open>wait_one\<close> and \<open>poll_one\<close> return with the lock released and no violation
  of the lock discipline, with the task back in the queue, and with a count of outstanding work that is
  zero exactly if no handler is queued and no operation is in the hands of the task.\<close>

theorem run_functions_keep_the_books:
  assumes client: "scheduler_client E pend" and pos: "\<forall>w. 0 \<le> pend w"
    and ok: "sched_ok pend 0 0 False s" and st: "stack s = []"
    and r: "run_one E s = Some (n, threw, s') \<or> run E s = Some (n, threw, s')
      \<or> wait_one E usec s = (n, threw, s') \<or> poll_one E s = (n, threw, s')"
  shows "sched_ok pend 0 0 False s' \<and> stack s' = [] \<and> \<not> locked s' \<and> \<not> lock_error s'
    \<and> (outstanding_work s' = 0 \<longleftrightarrow> pend (world s') = 0 \<and> nops (sched_queue s') = 0)"
proof -
  have "finished pend 0 s (n, threw, s')"
    using r
  proof (elim disjE)
    assume "run_one E s = Some (n, threw, s')"
    then show ?thesis by (rule conjunct1 [OF scheduler_client.run_one_ok [OF client _ ok]])
  next
    assume "run E s = Some (n, threw, s')"
    then show ?thesis by (rule scheduler_client.run_ok [OF client _ ok])
  next
    assume "wait_one E usec s = (n, threw, s')"
    then show ?thesis by (rule conjunct1 [OF scheduler_client.wait_one_ok [OF client _ ok]])
  next
    assume "poll_one E s = (n, threw, s')"
    then show ?thesis by (rule conjunct1 [OF scheduler_client.poll_one_ok [OF client _ ok]])
  qed
  then have "sched_ok pend 0 0 False s' \<and> length (stack s') = length (stack s)"
    by (simp add: finished_def)
  then have ok': "sched_ok pend 0 0 False s'" and st': "stack s' = []" using st by auto
  have "outstanding_work s' = pend (world s') + nops (sched_queue s')"
    using sched_okD(1) [OF ok'] st' by (simp add: ledger_def)
  moreover have "0 \<le> pend (world s')" "0 \<le> nops (sched_queue s')" using pos by simp_all
  ultimately have "outstanding_work s' = 0 \<longleftrightarrow> pend (world s') = 0 \<and> nops (sched_queue s') = 0" by linarith
  then show ?thesis using ok' st' sched_okD(4) [OF ok'] by (simp add: hold_def)
qed

definition idle_sched :: "(nat, nat list) sched" where
  "idle_sched = (new_sched hint_default [7])\<lparr>has_task := True, sched_queue := [Task], outstanding_work := 1\<rparr>"

lemma idle_sched_ok: "sched_ok (\<lambda>w. int (length w)) 0 0 False idle_sched"
  by (simp add: idle_sched_def sched_ok_def ledger_def new_sched_def hold_def)

theorem run_functions_keep_the_books_witness:
  "sched_ok (\<lambda>w. int (length w)) 0 0 False (snd (snd (wait_one idle_env 5 idle_sched)))
   \<and> stack (snd (snd (wait_one idle_env 5 idle_sched))) = []"
proof -
  obtain n threw s' where r: "wait_one idle_env 5 idle_sched = (n, threw, s')" by (rule prod_cases3)
  have "stack idle_sched = []" by (simp add: idle_sched_def new_sched_def)
  then show ?thesis
    using run_functions_keep_the_books [OF idle_client _ idle_sched_ok, of n threw s' 5] r by simp
qed

text \<open>Posting and the work counters keep the books: an operation posted for immediate completion is
  counted and queued, a deferred one, counted before, only queued, whichever queue (the thread's private
  one or the scheduler's) it goes to; \<open>work_started\<close> and \<open>work_finished\<close> move the count by one, the
  latter stopping the scheduler when it reaches zero.\<close>

theorem posting_keeps_the_books:
  assumes ok: "sched_ok pend k j False s"
  shows "sched_ok pend k j False (post_immediate_completion opn is_continuation s)
    \<and> sched_ok pend k j False (post_immediate_completions (int (length ops)) ops is_continuation s)
    \<and> sched_ok pend k j False (do_dispatch opn s)
    \<and> sched_ok pend (k - 1) j False (post_deferred_completion opn s)
    \<and> sched_ok pend (k - int (length ops)) j False (post_deferred_completions ops s)
    \<and> sched_ok pend (k + 1) j False (work_started s)
    \<and> sched_ok pend (k - 1) j False (work_finished s)
    \<and> (outstanding_work s = 1 \<longrightarrow> stopped (work_finished s))
    \<and> sched_ok pend k j False (init_task s)"
proof -
  have ok': "sched_ok pend (k - 1 + 1) j False s" using ok by simp
  have "stopped (work_finished s)" if "outstanding_work s = 1"
    using that by (simp add: work_finished_def Let_def stop_def stop_all_threads_def)
  then show ?thesis
    using post_immediate_completion_ok [OF ok] post_immediate_completions_ok [OF ok] do_dispatch_ok [OF ok]
      post_deferred_completion_ok [OF ok'] post_deferred_completions_ok [OF ok] work_started_ok [OF ok]
      work_finished_ok [OF ok'] init_task_ok [OF ok] by simp
qed

theorem posting_keeps_the_books_witness:
  "sched_ok (\<lambda>w. int (length w)) 0 0 False (post_immediate_completion 3 False idle_sched)
   \<and> stopped (work_finished idle_sched)"
  using posting_keeps_the_books [OF idle_sched_ok, of 3 False "[]"] by (simp add: idle_sched_def)

text \<open>A single-threaded scheduler that has a task never sleeps on its wake-up event: \<open>do_run_one\<close>
  gives the same result whatever sleeping would do, so it waits inside the reactor only.\<close>

theorem do_run_one_waits_in_the_task_only:
  assumes "scheduler_handlers E pend" and "sched_ok pend k 0 True s" and "clean s" and "has_task s"
  shows "do_run_one (E\<lparr>env_sleep := other\<rparr>) s = do_run_one E s"
proof -
  let ?F = "E\<lparr>env_sleep := other\<rparr>"
  have same: "same_handlers E ?F" "same_handlers ?F E" by (simp_all add: same_handlers_def)
  have F: "scheduler_handlers ?F pend" by (rule same_handlers_contract [OF same(1) assms(1)])
  show ?thesis
    using do_run_one_other_sleep [OF _ assms(1) same(1) assms(2-4)]
      do_run_one_other_sleep [OF _ F same(2) assms(2-4)]
    by (cases "do_run_one E s"; cases "do_run_one ?F s") auto
qed

theorem do_run_one_waits_in_the_task_only_witness:
  "do_run_one (idle_env\<lparr>env_sleep := (\<lambda>s. Some s)\<rparr>) (enter idle_sched) = do_run_one idle_env (enter idle_sched)"
proof (rule do_run_one_waits_in_the_task_only)
  show "scheduler_handlers idle_env (\<lambda>w. int (length w))" by (rule scheduler_client.axioms(1) [OF idle_client])
  show "sched_ok (\<lambda>w. int (length w)) 0 0 True (enter idle_sched)" "clean (enter idle_sched)"
    by (rule scheduler_client.enter_ok(1,2) [OF idle_client idle_sched_ok])+
  show "has_task (enter idle_sched)" by (simp add: enter_def idle_sched_def)
qed

section \<open>Concurrency hints\<close>

lemma xor_zero_iff: "a XOR b = 0 \<longleftrightarrow> a = (b :: 32 word)"
proof
  assume "a XOR b = 0"
  then have "(a XOR b) XOR b = b" by simp
  then show "a = b" by (simp add: xor.assoc)
qed simp

lemma and_or_split:
  fixes h :: "32 word"
  assumes d: "a AND b = 0" "c AND b = 0" "c AND a = c"
  shows "h AND (a OR b) = c \<longleftrightarrow> h AND a = c \<and> h AND b = 0"
proof
  assume h: "h AND (a OR b) = c"
  have "(h AND (a OR b)) AND a = h AND a" by (rule bit_word_eqI) (auto simp: bit_simps)
  moreover have "(h AND (a OR b)) AND b = h AND b" by (rule bit_word_eqI) (auto simp: bit_simps)
  ultimately show "h AND a = c \<and> h AND b = 0" using h d by metis
next
  assume "h AND a = c \<and> h AND b = 0"
  then show "h AND (a OR b) = c" by (simp add: bit.conj_disj_distrib)
qed

text \<open>The locking macro means what its comment says. A hint that is not one of the special ones always
  asks for locking; a special one asks for it exactly if the facility's bit is set. So the default hint of
  \<open>io_context()\<close> gives a locking scheduler that is not optimised for one thread.\<close>

theorem hint_is_locking_iff:
  assumes "facility \<in> {hint_locking_scheduler, hint_locking_registration, hint_locking_reactor_io}"
  shows "(hint_is_locking facility hint \<longleftrightarrow> \<not> hint_is_special hint \<or> hint AND facility \<noteq> 0)
    \<and> mutex_enabled (new_sched hint_default w) \<and> \<not> one_thread (new_sched hint_default w)"
proof -
  have d: "hint_id_mask AND facility = 0" "hint_id AND facility = 0" "hint_id AND hint_id_mask = hint_id"
    using assms by (auto simp: hint_defs)
  have "hint_is_locking facility hint \<longleftrightarrow> hint AND (hint_id_mask OR facility) \<noteq> hint_id"
    by (simp add: hint_is_locking_def xor_zero_iff)
  then have "hint_is_locking facility hint \<longleftrightarrow> \<not> (hint AND hint_id_mask = hint_id \<and> hint AND facility = 0)"
    using and_or_split [OF d, of hint] by simp
  moreover have "mutex_enabled (new_sched hint_default w)" "\<not> one_thread (new_sched hint_default w)"
    by (simp_all add: new_sched_def hint_defs)
  ultimately show ?thesis by (auto simp: hint_is_special_def)
qed

theorem hint_is_locking_iff_witness:
  "\<not> hint_is_locking hint_locking_scheduler hint_unsafe \<and> hint_is_locking hint_locking_scheduler hint_unsafe_io
   \<and> \<not> hint_is_locking hint_locking_reactor_io hint_unsafe_io \<and> hint_is_locking hint_locking_reactor_io hint_safe"
  using hint_is_locking_iff [of hint_locking_scheduler hint_unsafe]
    hint_is_locking_iff [of hint_locking_scheduler hint_unsafe_io]
    hint_is_locking_iff [of hint_locking_reactor_io hint_unsafe_io]
    hint_is_locking_iff [of hint_locking_reactor_io hint_safe]
  by (simp add: hint_defs)

end
