(* ===== verification/IpAddress.thy ===== *)
theory IpAddress
  imports ErrorCode "HOL-Library.Word"
begin

unbundle bit_operations_syntax

text \<open>
  IP addresses: \<^verbatim>\<open>asio/ip/impl/address_v4.ipp\<close>, \<^verbatim>\<open>address_v6.ipp\<close>, \<^verbatim>\<open>address.ipp\<close>, their headers, and the
  address iterators. An address holds its bytes in network order, as the memory of \<open>in_addr\<close> and
  \<open>in6_addr\<close> does; \<open>to_uint\<close> is the number in host order. \<open>None\<close> is a thrown exception.

  Parsing and printing go through \<open>socket_ops::inet_pton\<close> and \<open>inet_ntop\<close>, which end in the operating
  system's functions: they are parameters.

  The comparison operators make all three types linear orders.
\<close>

section \<open>IPv4 addresses\<close>

datatype address_v4 = AddrV4 "8 word" "8 word" "8 word" "8 word"

definition v4_any :: address_v4 where "v4_any = AddrV4 0 0 0 0"

text \<open>Construction from a number (\<open>host_to_network_long\<close>) and back (\<open>network_to_host_long\<close>).\<close>

definition v4_of_uint :: "32 word \<Rightarrow> address_v4" where
  "v4_of_uint a = AddrV4 (ucast (drop_bit 24 a)) (ucast (drop_bit 16 a)) (ucast (drop_bit 8 a)) (ucast a)"

fun v4_to_uint :: "address_v4 \<Rightarrow> 32 word" where
  "v4_to_uint (AddrV4 b0 b1 b2 b3) =
     push_bit 24 (ucast b0) OR push_bit 16 (ucast b1) OR push_bit 8 (ucast b2) OR ucast b3"

fun v4_to_bytes :: "address_v4 \<Rightarrow> 8 word list" where
  "v4_to_bytes (AddrV4 b0 b1 b2 b3) = [b0, b1, b2, b3]"

fun v4_of_bytes :: "8 word list \<Rightarrow> address_v4" where
  "v4_of_bytes [b0, b1, b2, b3] = AddrV4 b0 b1 b2 b3"
| "v4_of_bytes _ = v4_any"

definition v4_loopback :: address_v4 where "v4_loopback = v4_of_uint 0x7F000001"
definition v4_broadcast_all :: address_v4 where "v4_broadcast_all = v4_of_uint 0xFFFFFFFF"

definition v4_is_loopback :: "address_v4 \<Rightarrow> bool" where
  "v4_is_loopback a \<longleftrightarrow> v4_to_uint a AND 0xFF000000 = 0x7F000000"

definition v4_is_unspecified :: "address_v4 \<Rightarrow> bool" where
  "v4_is_unspecified a \<longleftrightarrow> v4_to_uint a = 0"

definition v4_is_class_a :: "address_v4 \<Rightarrow> bool" where
  "v4_is_class_a a \<longleftrightarrow> v4_to_uint a AND 0x80000000 = 0"

definition v4_is_class_b :: "address_v4 \<Rightarrow> bool" where
  "v4_is_class_b a \<longleftrightarrow> v4_to_uint a AND 0xC0000000 = 0x80000000"

definition v4_is_class_c :: "address_v4 \<Rightarrow> bool" where
  "v4_is_class_c a \<longleftrightarrow> v4_to_uint a AND 0xE0000000 = 0xC0000000"

definition v4_is_multicast :: "address_v4 \<Rightarrow> bool" where
  "v4_is_multicast a \<longleftrightarrow> v4_to_uint a AND 0xF0000000 = 0xE0000000"

definition v4_broadcast :: "address_v4 \<Rightarrow> address_v4 \<Rightarrow> address_v4" where
  "v4_broadcast addr msk = v4_of_uint (v4_to_uint addr OR (v4_to_uint msk XOR 0xFFFFFFFF))"

definition v4_netmask :: "address_v4 \<Rightarrow> address_v4" where
  "v4_netmask addr =
     (if v4_is_class_a addr then v4_of_uint 0xFF000000
      else if v4_is_class_b addr then v4_of_uint 0xFFFF0000
      else if v4_is_class_c addr then v4_of_uint 0xFFFFFF00
      else v4_of_uint 0xFFFFFFFF)"

type_synonym pton4 = "string \<Rightarrow> error_code + 8 word list"

text \<open>\<open>socket_ops::inet_pton\<close> either fills in the bytes or fails with an error code.\<close>

definition make_address_v4 :: "pton4 \<Rightarrow> string \<Rightarrow> address_v4 \<times> error_code" where
  "make_address_v4 pton str =
     (case pton str of Inl ec \<Rightarrow> (v4_any, ec) | Inr bytes \<Rightarrow> (v4_of_bytes bytes, ec_success))"

text \<open>Round trips.\<close>

lemma v4_to_of_uint [simp]: "v4_to_uint (v4_of_uint a) = a"
proof (rule bit_word_eqI)
  fix n assume "n < LENGTH(32)"
  then consider "n < 8" | "8 \<le> n" "n < 16" | "16 \<le> n" "n < 24" | "24 \<le> n" "n < 32" by fastforce
  then show "bit (v4_to_uint (v4_of_uint a)) n = bit a n"
    by cases (auto simp: v4_of_uint_def bit_simps)
qed

lemma v4_of_to_uint [simp]: "v4_of_uint (v4_to_uint a) = a"
proof (cases a)
  case (AddrV4 b0 b1 b2 b3)
  have "ucast (drop_bit 24 (v4_to_uint a)) = b0" "ucast (drop_bit 16 (v4_to_uint a)) = b1"
    "ucast (drop_bit 8 (v4_to_uint a)) = b2" "ucast (v4_to_uint a) = b3"
    unfolding AddrV4 v4_to_uint.simps by (rule bit_word_eqI; auto simp: bit_simps dest: bit_imp_le_length)+
  then show ?thesis by (simp add: v4_of_uint_def AddrV4)
qed

lemma v4_uint_inject: "v4_to_uint a = v4_to_uint b \<longleftrightarrow> a = b"
  by (metis v4_of_to_uint)

lemma v4_bytes_roundtrip [simp]: "v4_of_bytes (v4_to_bytes a) = a"
  by (cases a) simp

definition v4_less_eq :: "address_v4 \<Rightarrow> address_v4 \<Rightarrow> bool" where
  "v4_less_eq a b \<longleftrightarrow> v4_to_uint a \<le> v4_to_uint b"

definition v4_less :: "address_v4 \<Rightarrow> address_v4 \<Rightarrow> bool" where
  "v4_less a b \<longleftrightarrow> v4_to_uint a < v4_to_uint b"

instantiation address_v4 :: linorder
begin

definition less_eq_address_v4 :: "address_v4 \<Rightarrow> address_v4 \<Rightarrow> bool" where
  "less_eq_address_v4 = v4_less_eq"

definition less_address_v4 :: "address_v4 \<Rightarrow> address_v4 \<Rightarrow> bool" where
  "less_address_v4 = v4_less"

instance
  by standard (auto simp: less_eq_address_v4_def v4_less_eq_def less_address_v4_def v4_less_def v4_uint_inject [symmetric])

end

section \<open>IPv6 addresses\<close>

record address_v6 =
  s6_addr :: "8 word list"
  scope_id :: "32 word"

definition v6_of_bytes :: "8 word list \<Rightarrow> 32 word \<Rightarrow> address_v6" where
  "v6_of_bytes bytes scope = \<lparr>s6_addr = bytes, scope_id = scope\<rparr>"

definition v6_any :: address_v6 where "v6_any = v6_of_bytes (replicate 16 0) 0"

definition v6_loopback :: address_v6 where
  "v6_loopback = v6_any\<lparr>s6_addr := (s6_addr v6_any)[15 := 1]\<rparr>"

definition v6_ok :: "address_v6 \<Rightarrow> bool" where
  "v6_ok a \<longleftrightarrow> length (s6_addr a) = 16"

definition zero_bytes :: "nat \<Rightarrow> nat \<Rightarrow> 8 word list \<Rightarrow> bool" where
  "zero_bytes lo hi bs \<longleftrightarrow> (\<forall>i \<in> set [lo..<hi]. bs ! i = 0)"

definition v6_is_loopback :: "address_v6 \<Rightarrow> bool" where
  "v6_is_loopback a \<longleftrightarrow> zero_bytes 0 15 (s6_addr a) \<and> s6_addr a ! 15 = 1"

definition v6_is_unspecified :: "address_v6 \<Rightarrow> bool" where
  "v6_is_unspecified a \<longleftrightarrow> zero_bytes 0 16 (s6_addr a)"

definition v6_is_link_local :: "address_v6 \<Rightarrow> bool" where
  "v6_is_link_local a \<longleftrightarrow> s6_addr a ! 0 = 0xfe \<and> s6_addr a ! 1 AND 0xc0 = 0x80"

definition v6_is_site_local :: "address_v6 \<Rightarrow> bool" where
  "v6_is_site_local a \<longleftrightarrow> s6_addr a ! 0 = 0xfe \<and> s6_addr a ! 1 AND 0xc0 = 0xc0"

definition v6_is_v4_mapped :: "address_v6 \<Rightarrow> bool" where
  "v6_is_v4_mapped a \<longleftrightarrow> zero_bytes 0 10 (s6_addr a) \<and> s6_addr a ! 10 = 0xff \<and> s6_addr a ! 11 = 0xff"

definition v6_is_v4_compatible :: "address_v6 \<Rightarrow> bool" where
  "v6_is_v4_compatible a \<longleftrightarrow> zero_bytes 0 12 (s6_addr a)
     \<and> \<not> (s6_addr a ! 12 = 0 \<and> s6_addr a ! 13 = 0 \<and> s6_addr a ! 14 = 0
          \<and> (s6_addr a ! 15 = 0 \<or> s6_addr a ! 15 = 1))"

definition v6_is_multicast :: "address_v6 \<Rightarrow> bool" where
  "v6_is_multicast a \<longleftrightarrow> s6_addr a ! 0 = 0xff"

definition v6_multicast_scope :: "8 word \<Rightarrow> address_v6 \<Rightarrow> bool" where
  "v6_multicast_scope scope a \<longleftrightarrow> s6_addr a ! 0 = 0xff \<and> s6_addr a ! 1 AND 0x0f = scope"

definition v6_is_multicast_global :: "address_v6 \<Rightarrow> bool" where
  "v6_is_multicast_global = v6_multicast_scope 0x0e"

definition v6_is_multicast_link_local :: "address_v6 \<Rightarrow> bool" where
  "v6_is_multicast_link_local = v6_multicast_scope 0x02"

definition v6_is_multicast_node_local :: "address_v6 \<Rightarrow> bool" where
  "v6_is_multicast_node_local = v6_multicast_scope 0x01"

definition v6_is_multicast_org_local :: "address_v6 \<Rightarrow> bool" where
  "v6_is_multicast_org_local = v6_multicast_scope 0x08"

definition v6_is_multicast_site_local :: "address_v6 \<Rightarrow> bool" where
  "v6_is_multicast_site_local = v6_multicast_scope 0x05"

text \<open>Conversions between the two families; \<open>bad_address_cast\<close> is \<open>None\<close>.\<close>

definition last_four :: "8 word list \<Rightarrow> address_v4" where
  "last_four bs = v4_of_bytes [bs ! 12, bs ! 13, bs ! 14, bs ! 15]"

definition v6_to_v4 :: "address_v6 \<Rightarrow> address_v4 option" where
  "v6_to_v4 a = (if \<not> v6_is_v4_mapped a \<and> \<not> v6_is_v4_compatible a then None
     else Some (last_four (s6_addr a)))"

definition v6_v4_mapped :: "address_v4 \<Rightarrow> address_v6" where
  "v6_v4_mapped a = v6_of_bytes (replicate 10 0 @ [0xFF, 0xFF] @ v4_to_bytes a) 0"

definition v6_v4_compatible :: "address_v4 \<Rightarrow> address_v6" where
  "v6_v4_compatible a = v6_of_bytes (replicate 12 0 @ v4_to_bytes a) 0"

definition make_v4_from_mapped :: "address_v6 \<Rightarrow> address_v4 option" where
  "make_v4_from_mapped a = (if \<not> v6_is_v4_mapped a then None else Some (last_four (s6_addr a)))"

definition make_v6_mapped :: "address_v4 \<Rightarrow> address_v6" where
  "make_v6_mapped a = v6_of_bytes (replicate 10 0 @ [0xFF, 0xFF] @ v4_to_bytes a) 0"

type_synonym pton6 = "string \<Rightarrow> error_code + 8 word list \<times> 32 word"

definition make_address_v6 ::
  "pton6 \<Rightarrow> string \<Rightarrow> address_v6 \<times> error_code" where
  "make_address_v6 pton str =
     (case pton str of Inl ec \<Rightarrow> (v6_any, ec) | Inr (bytes, scope) \<Rightarrow> (v6_of_bytes bytes scope, ec_success))"

text \<open>\<open>memcmp\<close> on bytes.\<close>

fun memcmp :: "8 word list \<Rightarrow> 8 word list \<Rightarrow> int" where
  "memcmp [] [] = 0"
| "memcmp [] (y # ys) = -1"
| "memcmp (x # xs) [] = 1"
| "memcmp (x # xs) (y # ys) = (if x < y then -1 else if y < x then 1 else memcmp xs ys)"

definition v6_less :: "address_v6 \<Rightarrow> address_v6 \<Rightarrow> bool" where
  "v6_less a b =
     (let r = memcmp (s6_addr a) (s6_addr b)
      in if r < 0 then True else if r > 0 then False else scope_id a < scope_id b)"

lemma memcmp_eq_0: "memcmp a b = 0 \<longleftrightarrow> a = b"
  by (induction a b rule: memcmp.induct) auto

lemma memcmp_refl [simp]: "memcmp a a = 0"
  by (simp add: memcmp_eq_0)

lemma memcmp_flip: "memcmp b a = - memcmp a b"
  by (induction a b rule: memcmp.induct) auto

lemma memcmp_trans: "memcmp a b < 0 \<Longrightarrow> memcmp b c < 0 \<Longrightarrow> memcmp a c < 0"
proof (induction a b arbitrary: c rule: memcmp.induct)
  case (2 y ys)
  then show ?case by (cases c) auto
next
  case (4 x xs y ys)
  then show ?case by (cases c) (auto split: if_splits)
qed auto

instantiation address_v6_ext :: (linorder) linorder
begin

definition less_eq_address_v6_ext :: "'a address_v6_scheme \<Rightarrow> 'a address_v6_scheme \<Rightarrow> bool" where
  "less_eq_address_v6_ext a b \<longleftrightarrow>
     (let r = memcmp (s6_addr a) (s6_addr b) in r < 0 \<or> r = 0 \<and>
       (scope_id a < scope_id b \<or> scope_id a = scope_id b \<and> address_v6.more a \<le> address_v6.more b))"

definition less_address_v6_ext :: "'a address_v6_scheme \<Rightarrow> 'a address_v6_scheme \<Rightarrow> bool" where
  "less_address_v6_ext a b \<longleftrightarrow>
     (let r = memcmp (s6_addr a) (s6_addr b) in r < 0 \<or> r = 0 \<and>
       (scope_id a < scope_id b \<or> scope_id a = scope_id b \<and> address_v6.more a < address_v6.more b))"

instance
proof
  fix a b c :: "'a address_v6_scheme"
  note defs = less_eq_address_v6_ext_def less_address_v6_ext_def Let_def
  show "a < b \<longleftrightarrow> a \<le> b \<and> \<not> b \<le> a"
    using memcmp_flip [of "s6_addr b" "s6_addr a"] by (auto simp: defs)
  show "a \<le> a" by (simp add: defs memcmp_eq_0)
  show "a \<le> b \<Longrightarrow> b \<le> c \<Longrightarrow> a \<le> c"
    using memcmp_trans [of "s6_addr a" "s6_addr b" "s6_addr c"]
    by (auto simp: defs memcmp_eq_0)
  show "a \<le> b \<Longrightarrow> b \<le> a \<Longrightarrow> a = b"
    using memcmp_flip [of "s6_addr b" "s6_addr a"] by (auto simp: defs memcmp_eq_0)
  show "a \<le> b \<or> b \<le> a"
    using memcmp_flip [of "s6_addr b" "s6_addr a"] by (auto simp: defs memcmp_eq_0)
qed

end

lemma v6_less_iff: "v6_less a b \<longleftrightarrow> a < b"
  by (auto simp: v6_less_def less_address_v6_ext_def Let_def)

section \<open>Addresses of either family\<close>

datatype address = IPv4 address_v4 | IPv6 address_v6

definition address_none :: address where "address_none = IPv4 v4_any"

definition make_address ::
  "pton4 \<Rightarrow> pton6 \<Rightarrow> string \<Rightarrow> address \<times> error_code" where
  "make_address pton4 pton6 str =
     (let (a6, ec) = make_address_v6 pton6 str
      in if \<not> failed ec then (IPv6 a6, ec)
         else let (a4, ec) = make_address_v4 pton4 str
              in if \<not> failed ec then (IPv4 a4, ec) else (address_none, ec))"

text \<open>\<open>address::from_string\<close>: throws on an error.\<close>

definition address_from_string ::
  "pton4 \<Rightarrow> pton6 \<Rightarrow> string \<Rightarrow> address option" where
  "address_from_string pton4 pton6 str =
     (let (a, ec) = make_address pton4 pton6 str in if failed ec then None else Some a)"

fun address_to_v4 :: "address \<Rightarrow> address_v4 option" where
  "address_to_v4 (IPv4 a) = Some a"
| "address_to_v4 (IPv6 a) = None"

fun address_to_v6 :: "address \<Rightarrow> address_v6 option" where
  "address_to_v6 (IPv6 a) = Some a"
| "address_to_v6 (IPv4 a) = None"

fun address_is_v6 :: "address \<Rightarrow> bool" where
  "address_is_v6 (IPv6 _) = True"
| "address_is_v6 (IPv4 _) = False"

fun address_to_string ::
  "(address_v4 \<Rightarrow> string) \<Rightarrow> (address_v6 \<Rightarrow> string) \<Rightarrow> address \<Rightarrow> string" where
  "address_to_string ntop4 ntop6 (IPv6 a) = ntop6 a"
| "address_to_string ntop4 ntop6 (IPv4 a) = ntop4 a"

fun address_is_loopback :: "address \<Rightarrow> bool" where
  "address_is_loopback (IPv4 a) = v4_is_loopback a"
| "address_is_loopback (IPv6 a) = v6_is_loopback a"

fun address_is_unspecified :: "address \<Rightarrow> bool" where
  "address_is_unspecified (IPv4 a) = v4_is_unspecified a"
| "address_is_unspecified (IPv6 a) = v6_is_unspecified a"

fun address_is_multicast :: "address \<Rightarrow> bool" where
  "address_is_multicast (IPv4 a) = v4_is_multicast a"
| "address_is_multicast (IPv6 a) = v6_is_multicast a"

fun address_less :: "address \<Rightarrow> address \<Rightarrow> bool" where
  "address_less (IPv4 a) (IPv6 b) = True"
| "address_less (IPv6 a) (IPv4 b) = False"
| "address_less (IPv6 a) (IPv6 b) = v6_less a b"
| "address_less (IPv4 a) (IPv4 b) = (a < b)"

instantiation address :: linorder
begin

definition less_address :: "address \<Rightarrow> address \<Rightarrow> bool" where
  "less_address a b \<longleftrightarrow> address_less a b"

definition less_eq_address :: "address \<Rightarrow> address \<Rightarrow> bool" where
  "less_eq_address a b \<longleftrightarrow> address_less a b \<or> a = b"

instance
proof
  fix a b c :: address
  note defs = less_eq_address_def less_address_def v6_less_iff
  show "a < b \<longleftrightarrow> a \<le> b \<and> \<not> b \<le> a" by (cases a; cases b) (auto simp: defs)
  show "a \<le> a" by (simp add: defs)
  show "a \<le> b \<Longrightarrow> b \<le> c \<Longrightarrow> a \<le> c" by (cases a; cases b; cases c) (auto simp: defs)
  show "a \<le> b \<Longrightarrow> b \<le> a \<Longrightarrow> a = b" by (cases a; cases b) (auto simp: defs)
  show "a \<le> b \<or> b \<le> a" by (cases a; cases b) (auto simp: defs)
qed

end

section \<open>Iterators\<close>

definition v4_next :: "address_v4 \<Rightarrow> address_v4" where
  "v4_next a = v4_of_uint ((v4_to_uint a + 1) AND 0xFFFFFFFF)"

definition v4_prev :: "address_v4 \<Rightarrow> address_v4" where
  "v4_prev a = v4_of_uint ((v4_to_uint a - 1) AND 0xFFFFFFFF)"

text \<open>The loops of \<open>operator++\<close> and \<open>operator--\<close> on IPv6 addresses, from the last byte up; \<open>i\<close> is one more
  than the loop variable.\<close>

fun v6_inc_loop :: "nat \<Rightarrow> 8 word list \<Rightarrow> 8 word list" where
  "v6_inc_loop 0 bs = bs"
| "v6_inc_loop (Suc i) bs =
     (if bs ! i < 0xFF then bs[i := bs ! i + 1] else v6_inc_loop i (bs[i := 0]))"

fun v6_dec_loop :: "nat \<Rightarrow> 8 word list \<Rightarrow> 8 word list" where
  "v6_dec_loop 0 bs = bs"
| "v6_dec_loop (Suc i) bs =
     (if bs ! i > 0 then bs[i := bs ! i - 1] else v6_dec_loop i (bs[i := 0xFF]))"

definition v6_next :: "address_v6 \<Rightarrow> address_v6" where
  "v6_next a = a\<lparr>s6_addr := v6_inc_loop 16 (s6_addr a)\<rparr>"

definition v6_prev :: "address_v6 \<Rightarrow> address_v6" where
  "v6_prev a = a\<lparr>s6_addr := v6_dec_loop 16 (s6_addr a)\<rparr>"

section \<open>Endpoints\<close>

text \<open>The \<^verbatim>\<open>sockaddr\<close> union of \<^verbatim>\<open>asio/ip/detail/impl/endpoint.ipp\<close>: family, port in network order,
  address.\<close>

type_synonym net_short = "8 word \<times> 8 word"

definition host_to_network_short :: "16 word \<Rightarrow> net_short" where
  "host_to_network_short p = (ucast (drop_bit 8 p), ucast p)"

definition network_to_host_short :: "net_short \<Rightarrow> 16 word" where
  "network_to_host_short b = push_bit 8 (ucast (fst b)) OR ucast (snd b)"

datatype endpoint =
    SockaddrIn (sa_port: net_short) address_v4
  | SockaddrIn6 (sa_port: net_short) (flowinfo: "32 word") "8 word list" "32 word"

definition endpoint_default :: endpoint where "endpoint_default = SockaddrIn (0, 0) v4_any"

definition endpoint_of_family :: "bool \<Rightarrow> 16 word \<Rightarrow> endpoint" where
  "endpoint_of_family v4 port =
     (if v4 then SockaddrIn (host_to_network_short port) v4_any
      else SockaddrIn6 (host_to_network_short port) 0 (replicate 16 0) 0)"

fun endpoint_of_address :: "address \<Rightarrow> 16 word \<Rightarrow> endpoint" where
  "endpoint_of_address (IPv4 a) port = SockaddrIn (host_to_network_short port) (v4_of_uint (v4_to_uint a))"
| "endpoint_of_address (IPv6 a) port = SockaddrIn6 (host_to_network_short port) 0 (s6_addr a) (scope_id a)"

definition endpoint_port :: "endpoint \<Rightarrow> 16 word" where
  "endpoint_port ep = network_to_host_short (sa_port ep)"

fun endpoint_set_port :: "16 word \<Rightarrow> endpoint \<Rightarrow> endpoint" where
  "endpoint_set_port port (SockaddrIn p a) = SockaddrIn (host_to_network_short port) a"
| "endpoint_set_port port (SockaddrIn6 p f b sc) = SockaddrIn6 (host_to_network_short port) f b sc"

fun endpoint_address :: "endpoint \<Rightarrow> address" where
  "endpoint_address (SockaddrIn p a) = IPv4 (v4_of_uint (v4_to_uint a))"
| "endpoint_address (SockaddrIn6 p f b sc) = IPv6 (v6_of_bytes b sc)"

definition endpoint_set_address :: "address \<Rightarrow> endpoint \<Rightarrow> endpoint" where
  "endpoint_set_address a ep = endpoint_of_address a (endpoint_port ep)"

definition endpoint_eq :: "endpoint \<Rightarrow> endpoint \<Rightarrow> bool" where
  "endpoint_eq e1 e2 \<longleftrightarrow> endpoint_address e1 = endpoint_address e2 \<and> endpoint_port e1 = endpoint_port e2"

definition endpoint_less :: "endpoint \<Rightarrow> endpoint \<Rightarrow> bool" where
  "endpoint_less e1 e2 \<longleftrightarrow>
     (if endpoint_address e1 < endpoint_address e2 then True
      else if endpoint_address e1 \<noteq> endpoint_address e2 then False
      else endpoint_port e1 < endpoint_port e2)"

text \<open>A port in decimal, as an output stream and \<open>std::to_string\<close> write it.\<close>

fun decimal :: "nat \<Rightarrow> string" where
  "decimal n = (if n < 10 then [char_of (48 + n)] else decimal (n div 10) @ [char_of (48 + n mod 10)])"

declare decimal.simps [simp del]

definition endpoint_to_string ::
  "(address_v4 \<Rightarrow> string) \<Rightarrow> (address_v6 \<Rightarrow> string) \<Rightarrow> endpoint \<Rightarrow> string" where
  "endpoint_to_string ntop4 ntop6 ep =
     (let a = address_to_string ntop4 ntop6 (endpoint_address ep)
      in (if address_is_v6 (endpoint_address ep) then ''['' @ a @ '']'' else a)
         @ '':'' @ decimal (unat (endpoint_port ep)))"

lemma network_short_roundtrip [simp]: "network_to_host_short (host_to_network_short p) = p"
proof (rule bit_word_eqI)
  fix n assume "n < LENGTH(16)"
  then consider "n < 8" | "8 \<le> n" "n < 16" by fastforce
  then show "bit (network_to_host_short (host_to_network_short p)) n = bit p n"
    by cases (auto simp: network_to_host_short_def host_to_network_short_def bit_simps)
qed

lemma endpoint_of_address_roundtrip:
  "endpoint_address (endpoint_of_address a port) = a \<and> endpoint_port (endpoint_of_address a port) = port"
  by (cases a) (simp_all add: endpoint_port_def v6_of_bytes_def)

end
