(* ===== verification/IpSpec.thy ===== *)
theory IpSpec
  imports IpAddress
begin

text \<open>
  Properties of IP addresses: conversions, order, and the iterators as counting.
\<close>

section \<open>IPv4\<close>

text \<open>An IPv4 address, its 32-bit number and its four bytes determine each other; the comparison of
  addresses is that of the numbers, and the iterator steps through the numbers, wrapping around at both ends.\<close>

theorem address_v4_conversions:
  "v4_to_uint (v4_of_uint n) = n \<and> v4_of_uint (v4_to_uint a) = a \<and> v4_of_bytes (v4_to_bytes a) = a
    \<and> (a < b \<longleftrightarrow> v4_to_uint a < v4_to_uint b)
    \<and> v4_to_uint (v4_next a) = v4_to_uint a + 1 \<and> v4_prev (v4_next a) = a \<and> v4_next (v4_prev a) = a"
proof -
  have m: "x AND 0xFFFFFFFF = x" for x :: "32 word"
  proof -
    have "(0xFFFFFFFF :: 32 word) = - 1" by simp
    then show ?thesis by (simp only: bit.conj_one_right)
  qed
  show ?thesis by (simp add: less_address_v4_def v4_less_def v4_next_def v4_prev_def m)
qed

section \<open>IPv6\<close>

text \<open>The number written by bytes in network order.\<close>

fun be_value :: "8 word list \<Rightarrow> nat" where
  "be_value [] = 0"
| "be_value (b # bs) = unat b * 256 ^ length bs + be_value bs"

lemma be_value_snoc: "be_value (bs @ [b]) = be_value bs * 256 + unat b"
  by (induction bs) (simp_all add: algebra_simps)

lemma byte_less: "unat (b :: 8 word) < 256"
  using unsigned_less [of b] by simp

lemma be_value_less: "be_value bs < 256 ^ length bs"
proof (induction bs)
  case (Cons b bs)
  have "unat b * 256 ^ length bs + be_value bs < unat b * 256 ^ length bs + 256 ^ length bs" using Cons by simp
  also have "\<dots> = (unat b + 1) * 256 ^ length bs" by simp
  also have "\<dots> \<le> 256 * 256 ^ length bs" using byte_less [of b] by (intro mult_right_mono) simp_all
  finally show ?case by simp
qed simp

lemma byte_inc: "(b :: 8 word) < 0xFF \<Longrightarrow> unat (b + 1) = unat b + 1"
  by (simp add: word_less_nat_alt unat_plus_if')

lemma byte_full: "\<not> (b :: 8 word) < 0xFF \<Longrightarrow> unat b = 255"
  using byte_less [of b] by (simp add: word_less_nat_alt)

lemma byte_dec: "(b :: 8 word) > 0 \<Longrightarrow> unat (b - 1) + 1 = unat b"
  using unat_minus_one [of b] by (cases "b = 0") (auto simp: word_less_nat_alt)

lemma v6_inc_loop_length [simp]: "length (v6_inc_loop i bs) = length bs"
  by (induction i bs rule: v6_inc_loop.induct) auto

lemma v6_dec_loop_length [simp]: "length (v6_dec_loop i bs) = length bs"
  by (induction i bs rule: v6_dec_loop.induct) auto

lemma take_update: "i < length bs \<Longrightarrow> take (Suc i) (bs[i := x]) = take i bs @ [x]"
  by (simp add: take_Suc_conv_app_nth)

lemma v6_inc_loop_above: "i \<le> k \<Longrightarrow> v6_inc_loop i bs ! k = bs ! k"
  by (induction i bs rule: v6_inc_loop.induct) auto

lemma v6_dec_loop_above: "i \<le> k \<Longrightarrow> v6_dec_loop i bs ! k = bs ! k"
  by (induction i bs rule: v6_dec_loop.induct) auto

lemma be_value_take: "i < length bs \<Longrightarrow> be_value (take (Suc i) bs) = be_value (take i bs) * 256 + unat (bs ! i)"
  by (simp add: take_Suc_conv_app_nth be_value_snoc)

lemma v6_inc_loop_value:
  "i \<le> length bs \<Longrightarrow> be_value (take i (v6_inc_loop i bs)) = (be_value (take i bs) + 1) mod 256 ^ i"
proof (induction i bs rule: v6_inc_loop.induct)
  case (2 i bs)
  let ?v = "be_value (take i bs)"
  have old: "be_value (take (Suc i) bs) = ?v * 256 + unat (bs ! i)" using 2(2) by (intro be_value_take) simp
  show ?case
  proof (cases "bs ! i < 0xFF")
    case True
    let ?r = "bs[i := bs ! i + 1]"
    have new: "be_value (take (Suc i) ?r) = be_value (take (Suc i) bs) + 1"
      using 2(2) be_value_take [of i ?r] byte_inc [OF True] old by simp
    have "be_value (take (Suc i) ?r) < 256 ^ length (take (Suc i) ?r)" by (rule be_value_less)
    then have "be_value (take (Suc i) ?r) < 256 ^ Suc i" using 2(2) by (simp add: min_absorb2)
    then show ?thesis using True new by simp
  next
    case False
    let ?r = "v6_inc_loop i (bs[i := 0])"
    have r: "be_value (take i ?r) = (?v + 1) mod 256 ^ i" using 2(1) [OF False] 2(2) by simp
    have "be_value (take (Suc i) ?r) = be_value (take i ?r) * 256 + unat (?r ! i)"
      using 2(2) by (intro be_value_take) simp
    also have "\<dots> = (?v + 1) mod 256 ^ i * 256" using 2(2) r by (simp add: v6_inc_loop_above)
    also have "\<dots> = ((?v + 1) * 256) mod (256 ^ i * 256)" by (simp only: mult_mod_left)
    also have "\<dots> = (be_value (take (Suc i) bs) + 1) mod 256 ^ Suc i"
      using old byte_full [OF False] by (simp add: algebra_simps)
    finally show ?thesis using False by simp
  qed
qed simp

lemma v6_dec_loop_update: "i \<le> k \<Longrightarrow> v6_dec_loop i (bs[k := x]) = (v6_dec_loop i bs)[k := x]"
  by (induction i bs rule: v6_dec_loop.induct) (simp_all add: list_update_swap)

lemma v6_loops_inverse:
  "i \<le> length bs \<Longrightarrow> v6_dec_loop i (v6_inc_loop i bs) = bs"
proof (induction i bs rule: v6_inc_loop.induct)
  case (2 i bs)
  show ?case
  proof (cases "bs ! i < 0xFF")
    case True
    have "bs ! i + 1 > 0" using byte_inc [OF True] by (simp add: word_less_nat_alt)
    then show ?thesis using True 2(2) by simp
  next
    case False
    have full: "bs ! i = 0xFF" using byte_full [OF False] by (simp add: word_unat_eq_iff)
    have "v6_dec_loop i ((v6_inc_loop i (bs[i := 0]))[i := 0xFF]) = (bs[i := 0])[i := 0xFF]"
      using 2(1) [OF False] 2(2) by (simp add: v6_dec_loop_update)
    also have "\<dots> = bs" using full list_update_id [of bs i] by simp
    finally show ?thesis using False 2(2) by (simp add: v6_inc_loop_above)
  qed
qed simp

lemma memcmp_value:
  "length a = length b \<Longrightarrow> memcmp a b < 0 \<longleftrightarrow> be_value a < be_value b"
proof (induction a b rule: memcmp.induct)
  case (4 x xs y ys)
  have l: "be_value xs < 256 ^ length xs" "be_value ys < 256 ^ length xs"
    using be_value_less [of xs] be_value_less [of ys] 4(2) by simp_all
  have step: "u * m + p < w * m + q" if "u < w" "p < m" for u w m p q :: nat
  proof -
    have "u * m + p < (u + 1) * m" using that by simp
    also have "\<dots> \<le> w * m" using that by (intro mult_right_mono) simp_all
    finally show ?thesis by simp
  qed
  consider "unat x < unat y" | "unat y < unat x" | "x = y"
    by (metis linorder_neqE_nat word_unat_eq_iff)
  then show ?case
  proof cases
    case 1
    then show ?thesis using step [OF 1 l(1), of "be_value ys"] 4(2) by (simp add: word_less_nat_alt)
  next
    case 2
    then show ?thesis using step [OF 2 l(2), of "be_value xs"] 4(2) by (simp add: word_less_nat_alt)
  qed (use 4 in simp)
qed simp_all

text \<open>IPv6 addresses are ordered as their 128-bit numbers, then by scope; the iterator adds one to the
  number modulo \<open>2 ^ 128\<close>, keeps the scope, and stepping back undoes stepping forward.\<close>

theorem address_v6_counting:
  assumes "v6_ok a" "v6_ok b"
  shows "be_value (s6_addr (v6_next a)) = (be_value (s6_addr a) + 1) mod 2 ^ 128
    \<and> scope_id (v6_next a) = scope_id a \<and> v6_ok (v6_next a) \<and> v6_prev (v6_next a) = a
    \<and> (a < b \<longleftrightarrow> be_value (s6_addr a) < be_value (s6_addr b)
         \<or> s6_addr a = s6_addr b \<and> scope_id a < scope_id b)"
proof -
  have l: "length (s6_addr a) = 16" "length (s6_addr b) = 16" using assms by (simp_all add: v6_ok_def)
  have "be_value (s6_addr (v6_next a)) = (be_value (s6_addr a) + 1) mod 256 ^ 16"
    using v6_inc_loop_value [of 16 "s6_addr a"] l by (simp add: v6_next_def)
  moreover have "(256 :: nat) ^ 16 = 2 ^ 128" by simp
  moreover have "v6_prev (v6_next a) = a"
    using v6_loops_inverse [of 16 "s6_addr a"] l by (simp add: v6_prev_def v6_next_def)
  moreover have "a < b \<longleftrightarrow> be_value (s6_addr a) < be_value (s6_addr b)
      \<or> s6_addr a = s6_addr b \<and> scope_id a < scope_id b"
    using memcmp_value [of "s6_addr a" "s6_addr b"] l
    by (auto simp: less_address_v6_ext_def Let_def memcmp_eq_0)
  ultimately show ?thesis using l by (simp add: v6_next_def v6_ok_def)
qed

theorem address_v6_counting_witness:
  "v6_prev (v6_next (v6_of_bytes (replicate 16 0xFF) 7)) = v6_of_bytes (replicate 16 0xFF) 7
    \<and> be_value (s6_addr (v6_next (v6_of_bytes (replicate 16 0xFF) 7)))
      = (be_value (replicate 16 0xFF) + 1) mod 2 ^ 128"
proof -
  have "v6_ok (v6_of_bytes (replicate 16 0xFF) 7)" by (simp add: v6_ok_def v6_of_bytes_def)
  from address_v6_counting [OF this this] show ?thesis by (simp only: v6_of_bytes_def address_v6.simps)
qed

section \<open>Between the families\<close>

text \<open>An IPv4 address mapped into IPv6 is recognised and read back, by the conversion that also accepts
  IPv4-compatible addresses and by the one that does not; every other IPv6 address is refused. Only
  \<open>0.0.0.0\<close> and \<open>0.0.0.1\<close> are lost by the deprecated IPv4-compatible form, being taken for the unspecified
  and the loopback address.\<close>

theorem v4_mapped_conversions:
  "v6_is_v4_mapped (make_v6_mapped a) \<and> make_v4_from_mapped (make_v6_mapped a) = Some a
    \<and> v6_to_v4 (v6_v4_mapped a) = Some a
    \<and> v6_to_v4 (v6_v4_compatible a) = (if a = AddrV4 0 0 0 0 \<or> a = AddrV4 0 0 0 1 then None else Some a)
    \<and> (v6_ok x \<longrightarrow> make_v4_from_mapped x = Some a \<longrightarrow> x\<lparr>scope_id := 0\<rparr> = make_v6_mapped a)"
proof -
  obtain b0 b1 b2 b3 where a: "a = AddrV4 b0 b1 b2 b3" by (cases a)
  have u16: "[0..<16] = [0,1,2,3,4,5,6,7,8,9,10,11,12,13,14,15::nat]" by (simp add: upt_rec)
  have u12: "[0..<12] = [0,1,2,3,4,5,6,7,8,9,10,11::nat]" by (simp add: upt_rec)
  have u10: "[0..<10] = [0,1,2,3,4,5,6,7,8,9::nat]" by (simp add: upt_rec)
  have r: "replicate 10 (0 :: 8 word) = [0,0,0,0,0,0,0,0,0,0]" "replicate 12 (0 :: 8 word) = [0,0,0,0,0,0,0,0,0,0,0,0]"
    by (simp_all add: numeral_eq_Suc)
  note defs = v6_is_v4_mapped_def make_v6_mapped_def v6_of_bytes_def zero_bytes_def make_v4_from_mapped_def last_four_def
    v6_to_v4_def v6_v4_mapped_def v6_v4_compatible_def v6_is_v4_compatible_def
  have recover: "x\<lparr>scope_id := 0\<rparr> = make_v6_mapped a" if x: "v6_ok x" and m: "make_v4_from_mapped x = Some a"
  proof -
    have "s6_addr x = map ((!) (s6_addr x)) [0..<16]" using x map_nth [of "s6_addr x"] by (simp add: v6_ok_def)
    also have "\<dots> = replicate 10 0 @ [0xFF, 0xFF] @ v4_to_bytes a"
      using m unfolding u16 r a by (auto simp: defs u10 split: if_splits)
    finally show ?thesis by (cases x) (simp add: make_v6_mapped_def v6_of_bytes_def)
  qed
  then show ?thesis unfolding a by (auto simp: defs u10 u12 r)
qed

theorem v4_mapped_conversions_witness:
  "make_v4_from_mapped (make_v6_mapped v4_loopback) = Some v4_loopback"
  using v4_mapped_conversions [of v4_loopback] by blast

text \<open>A text is read as an IPv6 address if it is one, else as an IPv4 address; \<open>from_string\<close> throws exactly
  when it is neither, and the error reported is that of the second attempt.\<close>

theorem make_address_tries_both:
  assumes "\<And>ec. pton4 str = Inl ec \<Longrightarrow> failed ec" "\<And>ec. pton6 str = Inl ec \<Longrightarrow> failed ec"
  shows "make_address pton4 pton6 str =
      (case pton6 str of Inr (bytes, scope) \<Rightarrow> (IPv6 (v6_of_bytes bytes scope), ec_success)
       | Inl _ \<Rightarrow> (case pton4 str of Inr bytes \<Rightarrow> (IPv4 (v4_of_bytes bytes), ec_success)
                  | Inl ec \<Rightarrow> (address_none, ec)))
    \<and> (address_from_string pton4 pton6 str = None \<longleftrightarrow> isl (pton4 str) \<and> isl (pton6 str))"
  using assms
  by (cases "pton4 str"; cases "pton6 str")
    (auto simp: make_address_def address_from_string_def make_address_v6_def make_address_v4_def Let_def
      split: prod.splits)

theorem make_address_tries_both_witness:
  "address_from_string (\<lambda>_. Inr [127, 0, 0, 1]) (\<lambda>_. Inl (basic_ec invalid_argument)) ''127.0.0.1'' \<noteq> None"
proof -
  have "failed (basic_ec invalid_argument)" by simp
  then show ?thesis
    using make_address_tries_both [of "\<lambda>_. Inr [127, 0, 0, 1]" "''127.0.0.1''" "\<lambda>_. Inl (basic_ec invalid_argument)"]
    by auto
qed

end
