(* ===== verification/Network.thy ===== *)
theory Network
  imports IpSpec
begin

unbundle bit_operations_syntax

text \<open>
  Networks and address ranges: \<^verbatim>\<open>asio/ip/impl/network_v4.ipp\<close>, \<^verbatim>\<open>network_v6.ipp\<close>, their headers, and
  \<^verbatim>\<open>address_v4_range.hpp\<close>, \<^verbatim>\<open>address_v6_range.hpp\<close>. A thrown exception is the left value of a sum.
\<close>

section \<open>Ranges\<close>

record 'a address_range =
  range_begin :: 'a
  range_end :: 'a

definition v4_range_size :: "address_v4 address_range \<Rightarrow> nat" where
  "v4_range_size r = unat (v4_to_uint (range_end r) - v4_to_uint (range_begin r))"

definition v4_range_empty :: "address_v4 address_range \<Rightarrow> bool" where
  "v4_range_empty r \<longleftrightarrow> v4_range_size r = 0"

definition v4_range_find :: "address_v4 \<Rightarrow> address_v4 address_range \<Rightarrow> address_v4" where
  "v4_range_find addr r = (if range_begin r \<le> addr \<and> addr < range_end r then addr else range_end r)"

definition v6_range_empty :: "address_v6 address_range \<Rightarrow> bool" where
  "v6_range_empty r \<longleftrightarrow> range_begin r = range_end r"

definition v6_range_find :: "address_v6 \<Rightarrow> address_v6 address_range \<Rightarrow> address_v6" where
  "v6_range_find addr r = (if range_begin r \<le> addr \<and> addr < range_end r then addr else range_end r)"

section \<open>IPv4 networks\<close>

datatype net_exception = PrefixTooLarge | NonContiguousMask | NonContiguousMaskByte

record network_v4 =
  nv4_address :: address_v4
  nv4_prefix_length :: nat

definition network_v4_default :: network_v4 where
  "network_v4_default = \<lparr>nv4_address = v4_any, nv4_prefix_length = 0\<rparr>"

definition network_v4_of :: "address_v4 \<Rightarrow> nat \<Rightarrow> net_exception + network_v4" where
  "network_v4_of addr prefix_len =
     (if prefix_len > 32 then Inl PrefixTooLarge
      else Inr \<lparr>nv4_address = addr, nv4_prefix_length = prefix_len\<rparr>)"

text \<open>The switch on a byte of the mask: each case falls through to the next, adding one.\<close>

definition mask_switch :: "8 word \<Rightarrow> nat option" where
  "mask_switch b =
     (if b = 254 then Some 7 else if b = 252 then Some 6 else if b = 248 then Some 5 else if b = 240 then Some 4
      else if b = 224 then Some 3 else if b = 192 then Some 2 else if b = 128 then Some 1 else if b = 0 then Some 0
      else None)"

fun mask_loop :: "8 word list \<Rightarrow> bool \<Rightarrow> nat \<Rightarrow> net_exception + nat" where
  "mask_loop [] finished len = Inr len"
| "mask_loop (b # bs) finished len =
     (if finished then if b \<noteq> 0 then Inl NonContiguousMask else mask_loop bs finished len
      else if b = 255 then mask_loop bs finished (len + 8)
      else case mask_switch b of
             Some n \<Rightarrow> mask_loop bs True (len + n)
           | None \<Rightarrow> Inl NonContiguousMaskByte)"

definition network_v4_of_mask :: "address_v4 \<Rightarrow> address_v4 \<Rightarrow> net_exception + network_v4" where
  "network_v4_of_mask addr msk =
     (case mask_loop (v4_to_bytes msk) False 0 of
        Inl e \<Rightarrow> Inl e
      | Inr len \<Rightarrow> Inr \<lparr>nv4_address = addr, nv4_prefix_length = len\<rparr>)"

definition netmask_bits :: "nat \<Rightarrow> 32 word" where
  "netmask_bits len = (if len = 0 then 0 else push_bit (32 - len) 0xffffffff)"

definition nv4_netmask :: "network_v4 \<Rightarrow> address_v4" where
  "nv4_netmask n = v4_of_uint (netmask_bits (nv4_prefix_length n))"

definition nv4_network :: "network_v4 \<Rightarrow> address_v4" where
  "nv4_network n = v4_of_uint (v4_to_uint (nv4_address n) AND v4_to_uint (nv4_netmask n))"

definition nv4_broadcast :: "network_v4 \<Rightarrow> address_v4" where
  "nv4_broadcast n = v4_of_uint (v4_to_uint (nv4_network n) OR (v4_to_uint (nv4_netmask n) XOR 0xFFFFFFFF))"

definition nv4_is_host :: "network_v4 \<Rightarrow> bool" where
  "nv4_is_host n \<longleftrightarrow> nv4_prefix_length n = 32"

definition nv4_hosts :: "network_v4 \<Rightarrow> address_v4 address_range" where
  "nv4_hosts n =
     (if nv4_is_host n
      then \<lparr>range_begin = nv4_address n, range_end = v4_of_uint (v4_to_uint (nv4_address n) + 1)\<rparr>
      else \<lparr>range_begin = v4_of_uint (v4_to_uint (nv4_network n) + 1), range_end = nv4_broadcast n\<rparr>)"

definition nv4_canonical :: "network_v4 \<Rightarrow> network_v4" where
  "nv4_canonical n = n\<lparr>nv4_address := nv4_network n\<rparr>"

definition nv4_is_subnet_of :: "network_v4 \<Rightarrow> network_v4 \<Rightarrow> bool" where
  "nv4_is_subnet_of n other =
     (if nv4_prefix_length other \<ge> nv4_prefix_length n then False
      else let me = n\<lparr>nv4_prefix_length := nv4_prefix_length other\<rparr>
           in nv4_canonical other = nv4_canonical me)"

definition nv4_to_string :: "(address_v4 \<Rightarrow> string) \<Rightarrow> network_v4 \<Rightarrow> string" where
  "nv4_to_string ntop4 n = ntop4 (nv4_address n) @ ''/'' @ decimal (nv4_prefix_length n)"

text \<open>\<open>std::atoi\<close> as the C library computes it: a 64-bit \<open>strtol\<close>, which saturates, cut to an \<open>int\<close>. (The
  standard leaves values beyond \<open>int\<close> undefined.) It is only given digits.\<close>

definition digits_value :: "string \<Rightarrow> nat" where
  "digits_value ds = foldl (\<lambda>v c. v * 10 + (of_char c - 48)) 0 ds"

definition atoi :: "string \<Rightarrow> int" where
  "atoi ds = sint (word_of_nat (min (digits_value ds) (2 ^ 63 - 1)) :: 32 word)"

definition is_digit :: "char \<Rightarrow> bool" where
  "is_digit c \<longleftrightarrow> c \<in> set ''0123456789''"

text \<open>The common part of \<open>make_network_v4\<close> and \<open>make_network_v6\<close>: the address text and the prefix length text, or
  \<open>None\<close> if there is no slash, nothing after it, or something other than digits.\<close>

definition split_network :: "string \<Rightarrow> (string \<times> string) option" where
  "split_network str =
     (let pos = length (takeWhile (\<lambda>c. c \<noteq> CHR ''/'') str)
      in if pos = length str then None
         else if pos = length str - 1 then None
         else if \<exists>c \<in> set (drop (pos + 1) str). \<not> is_digit c then None
         else Some (take pos str, drop (pos + 1) str))"

definition make_network_v4 :: "pton4 \<Rightarrow> string \<Rightarrow> network_v4 \<times> error_code" where
  "make_network_v4 pton4 str =
     (case split_network str of
        None \<Rightarrow> (network_v4_default, basic_ec invalid_argument)
      | Some (a, p) \<Rightarrow>
          let (addr, ec) = make_address_v4 pton4 a
          in if failed ec then (network_v4_default, ec)
             else let prefix_len = atoi p
                  in if prefix_len < 0 \<or> prefix_len > 32
                     then (network_v4_default, basic_ec invalid_argument)
                     else (\<lparr>nv4_address = addr, nv4_prefix_length = nat prefix_len\<rparr>, ec_success))"

section \<open>IPv6 networks\<close>

record network_v6 =
  nv6_address :: address_v6
  nv6_prefix_length :: nat

definition network_v6_default :: network_v6 where
  "network_v6_default = \<lparr>nv6_address = v6_any, nv6_prefix_length = 0\<rparr>"

definition network_v6_of :: "address_v6 \<Rightarrow> nat \<Rightarrow> net_exception + network_v6" where
  "network_v6_of addr prefix_len =
     (if prefix_len > 128 then Inl PrefixTooLarge
      else Inr \<lparr>nv6_address = addr, nv6_prefix_length = prefix_len\<rparr>)"

text \<open>One byte of the loops of \<open>network\<close> and \<open>hosts\<close>: the byte of the first and of the last address.\<close>

definition first_byte :: "nat \<Rightarrow> nat \<Rightarrow> 8 word \<Rightarrow> 8 word" where
  "first_byte len i b =
     (if len \<le> i * 8 then 0
      else if len < (i + 1) * 8 then b AND ucast (drop_bit (len mod 8) (0xFF00 :: 32 word))
      else b)"

definition last_byte :: "nat \<Rightarrow> nat \<Rightarrow> 8 word \<Rightarrow> 8 word" where
  "last_byte len i b =
     (if len \<le> i * 8 then 0xFF
      else if len < (i + 1) * 8 then b OR ucast (drop_bit (len mod 8) (0xFF :: 32 word))
      else b)"

definition nv6_network :: "network_v6 \<Rightarrow> address_v6" where
  "nv6_network n =
     v6_of_bytes (map (\<lambda>i. first_byte (nv6_prefix_length n) i (s6_addr (nv6_address n) ! i)) [0..<16])
       (scope_id (nv6_address n))"

definition nv6_hosts :: "network_v6 \<Rightarrow> address_v6 address_range" where
  "nv6_hosts n =
     (let b = s6_addr (nv6_address n);
          begin_bytes = map (\<lambda>i. first_byte (nv6_prefix_length n) i (b ! i)) [0..<16];
          end_bytes = map (\<lambda>i. last_byte (nv6_prefix_length n) i (b ! i)) [0..<16];
          sc = scope_id (nv6_address n)
      in \<lparr>range_begin = v6_of_bytes begin_bytes sc, range_end = v6_next (v6_of_bytes end_bytes sc)\<rparr>)"

definition nv6_canonical :: "network_v6 \<Rightarrow> network_v6" where
  "nv6_canonical n = n\<lparr>nv6_address := nv6_network n\<rparr>"

definition nv6_is_host :: "network_v6 \<Rightarrow> bool" where
  "nv6_is_host n \<longleftrightarrow> nv6_prefix_length n = 128"

definition nv6_is_subnet_of :: "network_v6 \<Rightarrow> network_v6 \<Rightarrow> bool" where
  "nv6_is_subnet_of n other =
     (if nv6_prefix_length other \<ge> nv6_prefix_length n then False
      else let me = n\<lparr>nv6_prefix_length := nv6_prefix_length other\<rparr>
           in nv6_canonical other = nv6_canonical me)"

definition nv6_to_string :: "(address_v6 \<Rightarrow> string) \<Rightarrow> network_v6 \<Rightarrow> string" where
  "nv6_to_string ntop6 n = ntop6 (nv6_address n) @ ''/'' @ decimal (nv6_prefix_length n)"

definition make_network_v6 :: "pton6 \<Rightarrow> string \<Rightarrow> network_v6 \<times> error_code" where
  "make_network_v6 pton6 str =
     (case split_network str of
        None \<Rightarrow> (network_v6_default, basic_ec invalid_argument)
      | Some (a, p) \<Rightarrow>
          let (addr, ec) = make_address_v6 pton6 a
          in if failed ec then (network_v6_default, ec)
             else let prefix_len = atoi p
                  in if prefix_len < 0 \<or> prefix_len > 128
                     then (network_v6_default, basic_ec invalid_argument)
                     else (\<lparr>nv6_address = addr, nv6_prefix_length = nat prefix_len\<rparr>, ec_success))"

end
