(* ===== verification/NetworkSpec.thy ===== *)
theory NetworkSpec
  imports Network
begin

text \<open>
  Properties of networks: netmasks and prefix lengths, subnets as subsets, the hosts of a network, and
  parsing what was printed.
\<close>

section \<open>Netmasks\<close>

lemma netmask_loop: "p \<le> 32 \<Longrightarrow> mask_loop (v4_to_bytes (v4_of_uint (netmask_bits p))) False 0 = Inr p"
proof -
  have "\<forall>p \<in> set [0..<33]. mask_loop (v4_to_bytes (v4_of_uint (netmask_bits p))) False 0 = Inr p"
    by code_simp
  then show "p \<le> 32 \<Longrightarrow> ?thesis" by simp
qed

lemma mask_switch_cases:
  assumes "mask_switch b = Some k"
  obtains "b = 254" "k = 7" | "b = 252" "k = 6" | "b = 248" "k = 5" | "b = 240" "k = 4" | "b = 224" "k = 3"
  | "b = 192" "k = 2" | "b = 128" "k = 1" | "b = 0" "k = 0"
  using assms by (auto simp: mask_switch_def split: if_splits)

lemma mask_loop_finished: "mask_loop bs True len = Inr n \<longleftrightarrow> n = len \<and> (\<forall>b \<in> set bs. b = 0)"
  by (induction bs) auto

lemma mask_loop_unfinished:
  "mask_loop (b # bs) False len = Inr n \<longleftrightarrow>
     (if b = 255 then mask_loop bs False (len + 8) = Inr n
      else \<exists>m. mask_switch b = Some m \<and> n = len + m \<and> (\<forall>x \<in> set bs. x = 0))"
  by (auto simp: mask_loop_finished split: option.splits)

lemma mask_loop_netmask:
  assumes "mask_loop [b0, b1, b2, b3] False 0 = Inr n"
  shows "v4_of_uint (netmask_bits n) = AddrV4 b0 b1 b2 b3 \<and> n \<le> 32"
proof -
  consider (0) m where "mask_switch b0 = Some m" "n = m" "b1 = 0" "b2 = 0" "b3 = 0"
    | (1) m where "b0 = 255" "mask_switch b1 = Some m" "n = 8 + m" "b2 = 0" "b3 = 0"
    | (2) m where "b0 = 255" "b1 = 255" "mask_switch b2 = Some m" "n = 16 + m" "b3 = 0"
    | (3) m where "b0 = 255" "b1 = 255" "b2 = 255" "mask_switch b3 = Some m" "n = 24 + m"
    | (4) "b0 = 255" "b1 = 255" "b2 = 255" "b3 = 255" "n = 32"
    using assms by (auto simp: mask_loop_unfinished simp del: mask_loop.simps(2) split: if_splits)
  then show ?thesis
  proof cases
    case 0
    show ?thesis using 0(1) by (rule mask_switch_cases) (use 0 in \<open>simp, code_simp\<close>)+
  next
    case 1
    show ?thesis using 1(2) by (rule mask_switch_cases) (use 1 in \<open>simp, code_simp\<close>)+
  next
    case 2
    show ?thesis using 2(3) by (rule mask_switch_cases) (use 2 in \<open>simp, code_simp\<close>)+
  next
    case 3
    show ?thesis using 3(4) by (rule mask_switch_cases) (use 3 in \<open>simp, code_simp\<close>)+
  next
    case 4
    show ?thesis using 4 by (simp, code_simp)
  qed
qed

text \<open>C38: Prefix lengths and netmasks are one-to-one: the constructor from a netmask recovers the prefix length
  from which the netmask was made, and every netmask it accepts is the netmask of the result.\<close>

theorem netmask_prefix_roundtrip:
  "(p \<le> 32 \<longrightarrow> network_v4_of_mask addr (nv4_netmask \<lparr>nv4_address = addr, nv4_prefix_length = p\<rparr>)
       = Inr \<lparr>nv4_address = addr, nv4_prefix_length = p\<rparr>)
    \<and> (network_v4_of_mask addr msk = Inr n \<longrightarrow>
         nv4_netmask n = msk \<and> nv4_prefix_length n \<le> 32 \<and> nv4_address n = addr)"
proof -
  obtain b0 b1 b2 b3 where m: "msk = AddrV4 b0 b1 b2 b3" by (cases msk)
  show ?thesis
    using netmask_loop [of p] mask_loop_netmask [of b0 b1 b2 b3]
    by (auto simp: network_v4_of_mask_def nv4_netmask_def m simp del: mask_loop.simps split: sum.splits)
qed

theorem netmask_prefix_roundtrip_witness:
  "network_v4_of_mask v4_loopback (nv4_netmask \<lparr>nv4_address = v4_loopback, nv4_prefix_length = 20\<rparr>)
     = Inr \<lparr>nv4_address = v4_loopback, nv4_prefix_length = 20\<rparr>"
  using netmask_prefix_roundtrip [of 20 v4_loopback] by simp

section \<open>Subnets\<close>

lemma v4_of_uint_inject: "v4_of_uint a = v4_of_uint b \<longleftrightarrow> a = b"
  by (metis v4_to_of_uint)

definition nv4_contains :: "network_v4 \<Rightarrow> address_v4 \<Rightarrow> bool" where
  "nv4_contains n x \<longleftrightarrow>
     v4_to_uint x AND netmask_bits (nv4_prefix_length n) = v4_to_uint (nv4_address n) AND netmask_bits (nv4_prefix_length n)"

lemma all_ones_32: "(0xFFFFFFFF :: 32 word) = - 1" by simp

lemma bit_netmask: "p \<le> 32 \<Longrightarrow> bit (netmask_bits p) k \<longleftrightarrow> k < 32 \<and> 32 - p \<le> k"
  unfolding netmask_bits_def all_ones_32 by (auto simp: bit_simps)

lemma netmask_mono: "p \<le> q \<Longrightarrow> q \<le> 32 \<Longrightarrow> netmask_bits q AND netmask_bits p = netmask_bits p"
  by (rule bit_word_eqI) (auto simp: bit_and_iff bit_netmask)

text \<open>\<open>is_subnet_of\<close> is proper inclusion: it holds exactly when the other prefix is shorter and every address
  of this network belongs to the other.\<close>

theorem is_subnet_of_iff:
  assumes "nv4_prefix_length n \<le> 32" "nv4_prefix_length other \<le> 32"
  shows "nv4_is_subnet_of n other \<longleftrightarrow>
    nv4_prefix_length other < nv4_prefix_length n \<and> (\<forall>x. nv4_contains n x \<longrightarrow> nv4_contains other x)"
proof -
  let ?p = "nv4_prefix_length n" and ?q = "nv4_prefix_length other"
  have eq: "nv4_is_subnet_of n other \<longleftrightarrow> ?q < ?p \<and> nv4_contains other (nv4_address n)"
    by (cases n; cases other)
      (auto simp: nv4_is_subnet_of_def nv4_canonical_def nv4_network_def nv4_netmask_def nv4_contains_def Let_def
        v4_of_uint_inject)
  have self: "nv4_contains n (nv4_address n)" by (simp add: nv4_contains_def)
  have "nv4_contains other x"
    if "?q < ?p" "nv4_contains other (nv4_address n)" "nv4_contains n x" for x
  proof -
    have m: "netmask_bits ?p AND netmask_bits ?q = netmask_bits ?q" using netmask_mono [of ?q ?p] that(1) assms by simp
    have "v4_to_uint x AND netmask_bits ?q = (v4_to_uint x AND netmask_bits ?p) AND netmask_bits ?q"
      by (simp add: and.assoc m)
    also have "\<dots> = (v4_to_uint (nv4_address n) AND netmask_bits ?p) AND netmask_bits ?q"
      using that(3) by (simp add: nv4_contains_def)
    also have "\<dots> = v4_to_uint (nv4_address other) AND netmask_bits ?q"
      using that(2) by (simp add: and.assoc m nv4_contains_def)
    finally show ?thesis by (simp add: nv4_contains_def)
  qed
  then show ?thesis using eq self by blast
qed

theorem is_subnet_of_iff_witness:
  "nv4_is_subnet_of \<lparr>nv4_address = AddrV4 10 1 2 3, nv4_prefix_length = 16\<rparr>
     \<lparr>nv4_address = AddrV4 10 0 0 0, nv4_prefix_length = 8\<rparr>"
proof -
  let ?n = "\<lparr>nv4_address = AddrV4 10 1 2 3, nv4_prefix_length = 16\<rparr>"
  let ?o = "\<lparr>nv4_address = AddrV4 10 0 0 0, nv4_prefix_length = 8\<rparr>"
  have "nv4_is_subnet_of ?n ?o" by code_simp
  moreover have "nv4_prefix_length ?n \<le> 32" "nv4_prefix_length ?o \<le> 32" by simp_all
  ultimately show ?thesis using is_subnet_of_iff [of ?n ?o] by blast
qed

section \<open>Hosts\<close>

lemma unat_split: "unat (w :: 32 word) = 2 ^ k * unat (drop_bit k w) + unat (take_bit k w)"
  using bits_ident [of k "unat w"] by (simp add: unat_drop_bit_eq unsigned_take_bit_eq push_bit_eq_mult mult.commute)

lemma same_network:
  "p \<le> 32 \<Longrightarrow> (x AND netmask_bits p = a AND netmask_bits p) \<longleftrightarrow> drop_bit (32 - p) x = drop_bit (32 - p) a"
proof
  assume p: "p \<le> 32" and e: "x AND netmask_bits p = a AND netmask_bits p"
  show "drop_bit (32 - p) x = drop_bit (32 - p) a"
  proof (rule bit_word_eqI)
    fix k assume "k < LENGTH(32)"
    show "bit (drop_bit (32 - p) x) k = bit (drop_bit (32 - p) a) k"
      using arg_cong [OF e, of "\<lambda>w. bit w (32 - p + k)"] p
      by (auto simp: bit_and_iff bit_netmask bit_drop_bit_eq dest: bit_imp_le_length)
  qed
next
  assume p: "p \<le> 32" and e: "drop_bit (32 - p) x = drop_bit (32 - p) a"
  show "x AND netmask_bits p = a AND netmask_bits p"
  proof (rule bit_word_eqI)
    fix k assume k: "k < LENGTH(32)"
    show "bit (x AND netmask_bits p) k = bit (a AND netmask_bits p) k"
      using arg_cong [OF e, of "\<lambda>w. bit w (k - (32 - p))"] p
      by (auto simp: bit_and_iff bit_netmask bit_drop_bit_eq)
  qed
qed

lemma network_number:
  assumes "p \<le> 32"
  shows "unat (a AND netmask_bits p) = 2 ^ (32 - p) * unat (drop_bit (32 - p) a)"
    "unat ((a AND netmask_bits p) OR (netmask_bits p XOR 0xFFFFFFFF))
       = 2 ^ (32 - p) * unat (drop_bit (32 - p) a) + (2 ^ (32 - p) - 1)"
proof -
  let ?k = "32 - p" and ?n = "a AND netmask_bits p"
  let ?b = "?n OR (netmask_bits p XOR 0xFFFFFFFF)"
  have "drop_bit ?k ?n = drop_bit ?k a" "take_bit ?k ?n = 0"
    by (rule bit_word_eqI; use assms in \<open>auto simp: bit_simps bit_netmask dest: bit_imp_le_length\<close>)+
  then show "unat ?n = 2 ^ ?k * unat (drop_bit ?k a)" using unat_split [of ?n ?k] by simp
  have "drop_bit ?k ?b = drop_bit ?k a" "take_bit ?k ?b = mask ?k"
    unfolding all_ones_32
    by (rule bit_word_eqI; use assms in \<open>auto simp: bit_simps bit_netmask dest: bit_imp_le_length\<close>)+
  moreover have "unat (mask ?k :: 32 word) = 2 ^ ?k - 1" 
  proof -
    have "(mask ?k :: 32 word) = take_bit ?k (- 1)" by simp
    then have "unat (mask ?k :: 32 word) = take_bit ?k (mask 32)"
      by (simp only: unsigned_take_bit_eq unsigned_minus_1_eq_mask) simp
    also have "take_bit ?k (mask 32 :: nat) = mask (min ?k 32)" by (rule take_bit_of_mask)
    finally show ?thesis by (simp only: min.absorb1 diff_le_self mask_eq_exp_minus_1)
  qed
  ultimately show "unat ?b = 2 ^ ?k * unat (drop_bit ?k a) + (2 ^ ?k - 1)" using unat_split [of ?b ?k] by simp
qed

text \<open>The hosts of an IPv4 network with a prefix shorter than 32 are its addresses except the network and the
  broadcast address, \<open>2 ^ (32 - p) - 2\<close> of them. Of a host network it is the address itself, which \<open>find\<close>
  finds except for 255.255.255.255, where the end of the range wraps around.\<close>

theorem hosts_v4:
  assumes "nv4_prefix_length n \<le> 32"
  shows "if nv4_prefix_length n < 32
    then v4_range_size (nv4_hosts n) = 2 ^ (32 - nv4_prefix_length n) - 2
      \<and> v4_range_find x (nv4_hosts n)
        = (if nv4_contains n x \<and> x \<noteq> nv4_network n \<and> x \<noteq> nv4_broadcast n then x else nv4_broadcast n)
    else v4_range_size (nv4_hosts n) = 1
      \<and> (v4_range_find (nv4_address n) (nv4_hosts n) = nv4_address n \<longleftrightarrow> nv4_address n \<noteq> v4_broadcast_all)"
proof (cases "nv4_prefix_length n < 32")
  case True
  let ?p = "nv4_prefix_length n" and ?a = "v4_to_uint (nv4_address n)" and ?x = "v4_to_uint x"
  define k d where "k = 32 - ?p" and "d = unat (drop_bit (32 - ?p) ?a)"
  let ?n = "?a AND netmask_bits ?p"
  let ?b = "?n OR (netmask_bits ?p XOR 0xFFFFFFFF)"
  have k: "(2::nat) \<le> 2 ^ k" using True unfolding k_def by (cases "32 - ?p") simp_all
  have nb: "unat ?n = 2 ^ k * d" "unat ?b = 2 ^ k * d + (2 ^ k - 1)"
    using network_number [of ?p ?a] True by (simp_all add: k_def d_def)
  have n1: "unat (?n + 1) = 2 ^ k * d + 1"
  proof -
    have "unat ?b < 2 ^ 32" using unsigned_less [of ?b] by simp
    then have "unat ?n + 1 < 2 ^ 32" using k unfolding nb by linarith
    then show ?thesis using nb(1) by (simp add: unat_plus_if')
  qed
  have bound: "unat (?n + 1) \<le> unat ?b" unfolding n1 nb using k by simp
  have "unat (?b - (?n + 1)) = unat ?b - unat (?n + 1)"
    using bound by (simp add: unat_sub_if')
  then have size: "unat (?b - (?n + 1)) = 2 ^ k - 2" unfolding n1 nb(2) by simp
  have c: "nv4_contains n x \<longleftrightarrow> unat ?x div 2 ^ k = d"
  proof -
    have "unat ?x div 2 ^ k = unat (drop_bit k ?x)" by (simp only: unat_drop_bit_eq) (rule drop_bit_eq_div [symmetric])
    moreover have "nv4_contains n x \<longleftrightarrow> drop_bit k ?x = drop_bit k ?a"
      using True same_network [of ?p ?x ?a] by (simp add: nv4_contains_def k_def)
    ultimately show ?thesis by (simp only: d_def k_def [symmetric] word_unat_eq_iff)
  qed
  have r: "?n + 1 \<le> ?x \<and> ?x < ?b \<longleftrightarrow> nv4_contains n x \<and> ?x \<noteq> ?n \<and> ?x \<noteq> ?b"
  proof -
    have dm: "unat ?x = 2 ^ k * (unat ?x div 2 ^ k) + unat ?x mod 2 ^ k" "unat ?x mod 2 ^ k < 2 ^ k" using k by simp_all
    have q: "2 ^ k * d \<le> unat ?x \<and> unat ?x \<le> 2 ^ k * d + (2 ^ k - 1) \<longleftrightarrow> unat ?x div 2 ^ k = d"
    proof
      assume "2 ^ k * d \<le> unat ?x \<and> unat ?x \<le> 2 ^ k * d + (2 ^ k - 1)"
      then have "2 ^ k * d \<le> unat ?x" "unat ?x < 2 ^ k * d + 2 ^ k" using k by linarith+
      then show "unat ?x div 2 ^ k = d" using k by (intro div_nat_eqI) (simp_all add: algebra_simps)
    next
      assume dd: "unat ?x div 2 ^ k = d"
      show "2 ^ k * d \<le> unat ?x \<and> unat ?x \<le> 2 ^ k * d + (2 ^ k - 1)"
        using dm(1) [unfolded dd] dm(2) by (intro conjI) linarith+
    qed
    show ?thesis unfolding c q [symmetric] word_le_nat_alt word_less_nat_alt word_unat_eq_iff nb n1 by arith
  qed
  have rr: "range_begin (nv4_hosts n) \<le> x \<and> x < range_end (nv4_hosts n)
      \<longleftrightarrow> nv4_contains n x \<and> x \<noteq> nv4_network n \<and> x \<noteq> nv4_broadcast n"
  proof -
    have "x \<noteq> nv4_network n \<longleftrightarrow> ?x \<noteq> ?n" "x \<noteq> nv4_broadcast n \<longleftrightarrow> ?x \<noteq> ?b"
      by (auto simp: nv4_network_def nv4_broadcast_def nv4_netmask_def v4_uint_inject [symmetric])
    then show ?thesis using r True
      by (simp add: nv4_hosts_def nv4_is_host_def nv4_network_def nv4_broadcast_def nv4_netmask_def
          less_eq_address_v4_def v4_less_eq_def less_address_v4_def v4_less_def)
  qed
  have "range_end (nv4_hosts n) = nv4_broadcast n" using True by (simp add: nv4_hosts_def nv4_is_host_def)
  then show ?thesis using True rr size
    by (simp add: v4_range_find_def v4_range_size_def nv4_hosts_def nv4_is_host_def nv4_network_def
        nv4_broadcast_def nv4_netmask_def k_def)
next
  case False
  let ?a = "v4_to_uint (nv4_address n)"
  have "nv4_address n = v4_broadcast_all \<longleftrightarrow> ?a = - 1"
    unfolding v4_broadcast_all_def all_ones_32 by (metis v4_of_to_uint v4_to_of_uint)
  moreover have "?a < ?a + 1 \<longleftrightarrow> ?a \<noteq> - 1"
    using unsigned_less [of ?a, where 'a = nat]
    by (auto simp: word_less_nat_alt word_unat_eq_iff unat_plus_if' unsigned_minus_1_eq_mask mask_eq_exp_minus_1)
  moreover have "?a = - 1 \<Longrightarrow> v4_of_uint 0 \<noteq> nv4_address n"
  proof -
    assume "?a = - 1"
    then have "v4_to_uint (v4_of_uint 0) \<noteq> ?a" by simp
    then show "v4_of_uint 0 \<noteq> nv4_address n" by metis
  qed
  ultimately show ?thesis using False assms
    by (simp add: v4_range_size_def v4_range_find_def nv4_hosts_def nv4_is_host_def less_address_v4_def v4_less_def)
qed

theorem hosts_v4_witness:
  "v4_range_size (nv4_hosts \<lparr>nv4_address = AddrV4 192 168 1 77, nv4_prefix_length = 24\<rparr>) = 254"
  using hosts_v4 [of "\<lparr>nv4_address = AddrV4 192 168 1 77, nv4_prefix_length = 24\<rparr>" v4_any] by simp

end
