(* ===== verification/NetworkParse.thy ===== *)
theory NetworkParse
  imports NetworkSpec
begin

text \<open>
  Reading a printed network back, and the host range of an IPv6 network.
\<close>

section \<open>Reading what was printed\<close>

lemma digit_char:
  assumes "(d :: nat) < 10"
  shows "of_char (char_of (48 + d)) = 48 + d" "is_digit (char_of (48 + d))" "char_of (48 + d) \<noteq> CHR ''/''"
proof -
  have "\<forall>d \<in> set [0..<10 :: nat]. of_char (char_of (48 + d) :: char) = 48 + d \<and> is_digit (char_of (48 + d))
      \<and> (char_of (48 + d) :: char) \<noteq> CHR ''/''"
    by code_simp
  then have "of_char (char_of (48 + d) :: char) = 48 + d \<and> is_digit (char_of (48 + d))
      \<and> (char_of (48 + d) :: char) \<noteq> CHR ''/''"
    by (rule bspec) (use assms in simp)
  then show "of_char (char_of (48 + d)) = 48 + d" "is_digit (char_of (48 + d))" "char_of (48 + d) \<noteq> CHR ''/''"
    by blast+
qed

lemma decimal_nonempty: "decimal n \<noteq> []"
  by (subst decimal.simps) simp

lemma digits_value_decimal: "digits_value (decimal n) = n"
proof (induction n rule: decimal.induct)
  case (1 n)
  show ?case
  proof (cases "n < 10")
    case True
    then show ?thesis using digit_char(1) [OF True]
      by (subst decimal.simps) (simp add: digits_value_def)
  next
    case False
    have "n mod 10 < 10" by simp
    note d = digit_char(1) [OF this]
    have "digits_value (decimal n) = digits_value (decimal (n div 10)) * 10 + n mod 10"
      using False d by (subst decimal.simps) (simp add: digits_value_def)
    then show ?thesis using 1 [OF False] by simp
  qed
qed

lemma decimal_digits: "\<forall>c \<in> set (decimal n). is_digit c"
proof (induction n rule: decimal.induct)
  case (1 n)
  show ?case
  proof (cases "n < 10")
    case True
    then show ?thesis using digit_char(2) [OF True] by (subst decimal.simps) simp
  next
    case False
    have "n mod 10 < 10" by simp
    then show ?thesis using 1 [OF False] False digit_char(2) by (subst decimal.simps) auto
  qed
qed

lemma takeWhile_slash: "CHR ''/'' \<notin> set a \<Longrightarrow> takeWhile (\<lambda>c. c \<noteq> CHR ''/'') (a @ CHR ''/'' # p) = a"
  by (induction a) auto

lemma split_network_append:
  assumes "CHR ''/'' \<notin> set a" "p \<noteq> []" "\<forall>c \<in> set p. is_digit c"
  shows "split_network (a @ ''/'' @ p) = Some (a, p)"
  using assms by (simp add: split_network_def takeWhile_slash Let_def)

lemma atoi_decimal:
  assumes "p < 2 ^ 63"
  shows "atoi (decimal p) = sint (word_of_nat p :: 32 word)"
  using assms by (simp add: atoi_def digits_value_decimal min_absorb1)

lemma sint_small: "p < 2 ^ 31 \<Longrightarrow> sint (word_of_nat p :: 32 word) = int p"
  by (simp add: signed_of_nat signed_take_bit_int_eq_self)

text \<open>A printed network is read back as it was, whatever functions print and parse its address, as long
  as parsing undoes printing and the address text has no slash.\<close>

theorem make_network_v4_roundtrip:
  assumes "nv4_prefix_length n \<le> 32" "CHR ''/'' \<notin> set (ntop4 (nv4_address n))"
    and "pton4 (ntop4 (nv4_address n)) = Inr (v4_to_bytes (nv4_address n))"
  shows "make_network_v4 pton4 (nv4_to_string ntop4 n) = (n, ec_success)"
proof -
  let ?p = "nv4_prefix_length n"
  have s: "split_network (nv4_to_string ntop4 n) = Some (ntop4 (nv4_address n), decimal ?p)"
    unfolding nv4_to_string_def using assms(2) decimal_nonempty decimal_digits by (intro split_network_append)
  have "atoi (decimal ?p) = int ?p" using assms(1) atoi_decimal [of ?p] sint_small [of ?p] by simp
  then show ?thesis using assms(1,3) by (simp add: make_network_v4_def s make_address_v4_def)
qed

theorem make_network_v4_roundtrip_witness:
  "make_network_v4 (\<lambda>s. if s = ''10.0.0.0'' then Inr [10, 0, 0, 0] else Inl (basic_ec invalid_argument)) ''10.0.0.0/24''
     = (\<lparr>nv4_address = AddrV4 10 0 0 0, nv4_prefix_length = 24\<rparr>, ec_success)"
proof -
  have "nv4_to_string (\<lambda>_. ''10.0.0.0'') \<lparr>nv4_address = AddrV4 10 0 0 0, nv4_prefix_length = 24\<rparr> = ''10.0.0.0/24''"
    by code_simp
  then show ?thesis
    using make_network_v4_roundtrip [of "\<lparr>nv4_address = AddrV4 10 0 0 0, nv4_prefix_length = 24\<rparr>" "\<lambda>_. ''10.0.0.0''"
        "\<lambda>s. if s = ''10.0.0.0'' then Inr [10, 0, 0, 0] else Inl (basic_ec invalid_argument)"]
    by simp
qed

text \<open>A prefix length that does not fit an \<open>int\<close> is not refused: with the C library's \<open>atoi\<close>, a prefix
  length of \<open>2 ^ 32 + p\<close> is read as \<open>p\<close>.\<close>

theorem make_network_v4_wraps:
  assumes "p \<le> 32" "CHR ''/'' \<notin> set a" "pton4 a = Inr bytes"
  shows "make_network_v4 pton4 (a @ ''/'' @ decimal (2 ^ 32 + p))
    = (\<lparr>nv4_address = v4_of_bytes bytes, nv4_prefix_length = p\<rparr>, ec_success)"
proof -
  have s: "split_network (a @ ''/'' @ decimal (2 ^ 32 + p)) = Some (a, decimal (2 ^ 32 + p))"
    using assms(2) decimal_nonempty decimal_digits by (intro split_network_append)
  have "(word_of_nat (2 ^ 32 + p) :: 32 word) = word_of_nat p"
    by (simp only: of_nat_add of_nat_power) simp
  moreover have "atoi (decimal (2 ^ 32 + p)) = sint (word_of_nat (2 ^ 32 + p) :: 32 word)"
    by (rule atoi_decimal) (use assms(1) in simp)
  ultimately have "atoi (decimal (2 ^ 32 + p)) = sint (word_of_nat p :: 32 word)" by (simp only:)
  also have "\<dots> = int p" by (rule sint_small) (use assms(1) in simp)
  finally show ?thesis using assms(1,3) unfolding make_network_v4_def s by (simp add: make_address_v4_def)
qed

theorem make_network_v4_wraps_witness:
  "make_network_v4 (\<lambda>_. Inr [10, 0, 0, 0]) ''10.0.0.0/4294967304''
     = (\<lparr>nv4_address = AddrV4 10 0 0 0, nv4_prefix_length = 8\<rparr>, ec_success)"
proof -
  have "''10.0.0.0'' @ ''/'' @ decimal (2 ^ 32 + 8) = ''10.0.0.0/4294967304''"
    by (simp add: decimal.simps) code_simp
  then show ?thesis
    using make_network_v4_wraps [of 8 "''10.0.0.0''" "\<lambda>_. Inr [10, 0, 0, 0]" "[10, 0, 0, 0]"] by simp
qed

section \<open>IPv6 hosts\<close>

text \<open>The loop of \<open>hosts\<close> from index \<open>i\<close> on.\<close>

fun bytes_from :: "(nat \<Rightarrow> 8 word \<Rightarrow> 8 word) \<Rightarrow> nat \<Rightarrow> 8 word list \<Rightarrow> 8 word list" where
  "bytes_from f i [] = []"
| "bytes_from f i (b # bs) = f i b # bytes_from f (Suc i) bs"

lemma bytes_from_length [simp]: "length (bytes_from f i bs) = length bs"
  by (induction bs arbitrary: i) auto

lemma bytes_from_nth: "j < length bs \<Longrightarrow> bytes_from f i bs ! j = f (i + j) (bs ! j)"
proof (induction bs arbitrary: i j)
  case (Cons b bs)
  then show ?case by (cases j) auto
qed simp

lemma map_bytes: "length bs = n \<Longrightarrow> map (\<lambda>i. f i (bs ! i)) [0..<n] = bytes_from f 0 bs"
  by (rule nth_equalityI) (simp_all add: bytes_from_nth)

lemma byte_masks:
  assumes "0 < k" "k < 8"
  shows "(ucast (drop_bit k (0xFF :: 32 word)) :: 8 word) = mask (8 - k)"
    "(ucast (drop_bit k (0xFF00 :: 32 word)) :: 8 word) = NOT (mask (8 - k))"
proof -
  have "\<forall>k \<in> set [1..<8]. (ucast (drop_bit k (0xFF :: 32 word)) :: 8 word) = mask (8 - k)
      \<and> (ucast (drop_bit k (0xFF00 :: 32 word)) :: 8 word) = NOT (mask (8 - k))"
    by code_simp
  then show "(ucast (drop_bit k (0xFF :: 32 word)) :: 8 word) = mask (8 - k)"
    "(ucast (drop_bit k (0xFF00 :: 32 word)) :: 8 word) = NOT (mask (8 - k))"
    using assms by simp_all
qed

lemma byte_range:
  assumes "m \<le> 8"
  shows "unat ((b :: 8 word) OR mask m) = unat (b AND NOT (mask m)) + (2 ^ m - 1)"
proof -
  have split: "unat w = 2 ^ m * unat (drop_bit m w) + unat (take_bit m w)" for w :: "8 word"
    using bits_ident [of m "unat w"] by (simp add: unat_drop_bit_eq unsigned_take_bit_eq push_bit_eq_mult mult.commute)
  have "drop_bit m (b OR mask m) = drop_bit m b" "take_bit m (b OR mask m) = mask m"
    "drop_bit m (b AND NOT (mask m)) = drop_bit m b" "take_bit m (b AND NOT (mask m)) = 0"
    by (rule bit_word_eqI; auto simp: bit_simps dest: bit_imp_le_length)+
  moreover have "unat (mask m :: 8 word) = 2 ^ m - 1"
  proof -
    have "(mask m :: 8 word) = take_bit m (- 1)" by simp
    then have "unat (mask m :: 8 word) = take_bit m (mask 8)"
      by (simp only: unsigned_take_bit_eq unsigned_minus_1_eq_mask) simp
    also have "take_bit m (mask 8 :: nat) = mask (min m 8)" by (rule take_bit_of_mask)
    finally show ?thesis using assms by (simp only: min.absorb1 mask_eq_exp_minus_1)
  qed
  ultimately show ?thesis using split [of "b OR mask m"] split [of "b AND NOT (mask m)"] by simp
qed

text \<open>The free bits behind prefix \<open>p\<close> in \<open>n\<close> bytes from index \<open>i\<close> on.\<close>

definition free_bits :: "nat \<Rightarrow> nat \<Rightarrow> nat \<Rightarrow> nat" where
  "free_bits p i n = 8 * n - (p - 8 * i)"

lemma pow256: "(2 :: nat) ^ (8 * n) = 256 ^ n"
  by (simp add: power_mult)

lemma last_value:
  "p \<le> 8 * (i + length bs) \<Longrightarrow>
   be_value (bytes_from (last_byte p) i bs) + 1 = be_value (bytes_from (first_byte p) i bs) + 2 ^ free_bits p i (length bs)"
proof (induction bs arbitrary: i)
  case (Cons b bs)
  let ?n = "length bs"
  have ih: "be_value (bytes_from (last_byte p) (Suc i) bs) + 1
      = be_value (bytes_from (first_byte p) (Suc i) bs) + 2 ^ free_bits p (Suc i) ?n"
    using Cons by simp
  consider "p \<le> 8 * i" | "8 * i < p" "p < 8 * Suc i" | "8 * Suc i \<le> p" by linarith
  then show ?case
  proof cases
    case 1
    then have "free_bits p (Suc i) ?n = 8 * ?n" "free_bits p i (Suc ?n) = 8 + 8 * ?n" by (simp_all add: free_bits_def)
    moreover have "first_byte p i b = 0" "last_byte p i b = 0xFF" using 1 by (simp_all add: first_byte_def last_byte_def)
    ultimately show ?thesis using ih by (simp add: pow256 power_add)
  next
    case 2
    define m where "m = 8 - p mod 8"
    have pm: "p mod 8 = p - 8 * i"
    proof -
      have "(8 * i + (p - 8 * i)) mod 8 = (p - 8 * i) mod 8" by (rule mod_mult_self4)
      then show ?thesis using 2 by simp
    qed
    have m: "0 < m" "m < 8" "0 < p mod 8" "p mod 8 < 8" using 2 pm by (simp_all add: m_def)
    have f: "free_bits p (Suc i) ?n = 8 * ?n" "free_bits p i (Suc ?n) = m + 8 * ?n"
      using 2 pm by (simp_all add: free_bits_def m_def)
    have b: "unat (last_byte p i b) + 1 = unat (first_byte p i b) + 2 ^ m"
      using 2 byte_range [of m b] m byte_masks [OF m(3,4)] by (simp add: first_byte_def last_byte_def m_def)
    have "be_value (bytes_from (last_byte p) i (b # bs)) + 1
        = unat (last_byte p i b) * 256 ^ ?n + (be_value (bytes_from (first_byte p) (Suc i) bs) + 256 ^ ?n)"
      using ih f(1) by (simp add: pow256)
    also have "\<dots> = (unat (last_byte p i b) + 1) * 256 ^ ?n + be_value (bytes_from (first_byte p) (Suc i) bs)"
      by (simp add: algebra_simps)
    also have "\<dots> = be_value (bytes_from (first_byte p) i (b # bs)) + 2 ^ free_bits p i (length (b # bs))"
    proof -
      have "(2 :: nat) ^ free_bits p i (length (b # bs)) = 2 ^ m * 256 ^ ?n" using f(2) by (simp add: power_add pow256)
      then show ?thesis unfolding b by (simp add: distrib_right)
    qed
    finally show ?thesis .
  next
    case 3
    then have "free_bits p (Suc i) ?n = free_bits p i (Suc ?n)" by (simp add: free_bits_def)
    moreover have "first_byte p i b = b" "last_byte p i b = b" using 3 by (simp_all add: first_byte_def last_byte_def)
    ultimately show ?thesis using ih by simp
  qed
qed (simp add: free_bits_def)

lemma be_value_inject: "length a = length b \<Longrightarrow> be_value a = be_value b \<Longrightarrow> a = b"
  using memcmp_value [of a b] memcmp_value [of b a] memcmp_flip [of a b] memcmp_eq_0 [of a b] by fastforce

text \<open>The host range of an IPv6 network begins at its network address and ends \<open>2 ^ (128 - p)\<close> addresses
  later, modulo \<open>2 ^ 128\<close>. So the hosts of \<open>::/0\<close>, the network of all addresses, are an empty range, and only
  of that network.\<close>

theorem hosts_v6:
  assumes "v6_ok (nv6_address n)" "nv6_prefix_length n \<le> 128"
  shows "range_begin (nv6_hosts n) = nv6_network n
    \<and> be_value (s6_addr (range_end (nv6_hosts n)))
      = (be_value (s6_addr (nv6_network n)) + 2 ^ (128 - nv6_prefix_length n)) mod 2 ^ 128
    \<and> (v6_range_empty (nv6_hosts n) \<longleftrightarrow> nv6_prefix_length n = 0)"
proof -
  let ?p = "nv6_prefix_length n" and ?b = "s6_addr (nv6_address n)" and ?sc = "scope_id (nv6_address n)"
  have len: "length ?b = 16" using assms(1) by (simp add: v6_ok_def)
  let ?first = "bytes_from (first_byte ?p) 0 ?b" and ?last = "bytes_from (last_byte ?p) 0 ?b"
  have r: "nv6_network n = v6_of_bytes ?first ?sc"
    "nv6_hosts n = \<lparr>range_begin = v6_of_bytes ?first ?sc, range_end = v6_next (v6_of_bytes ?last ?sc)\<rparr>"
    using map_bytes [OF len, of "first_byte ?p"] map_bytes [OF len, of "last_byte ?p"]
    by (simp_all add: nv6_network_def nv6_hosts_def Let_def)
  let ?e = "v6_next (v6_of_bytes ?last ?sc)"
  have l: "be_value ?last + 1 = be_value ?first + 2 ^ (128 - ?p)"
    using last_value [of ?p 0 ?b] len assms(2) by (simp add: free_bits_def)
  have ok: "v6_ok (v6_of_bytes ?last ?sc)" by (simp add: v6_ok_def v6_of_bytes_def len)
  note c = v6_inc_loop_value [of 16 ?last]
  have e: "be_value (s6_addr ?e) = (be_value ?first + 2 ^ (128 - ?p)) mod 2 ^ 128"
  proof -
    have "be_value (s6_addr ?e) = (be_value ?last + 1) mod 256 ^ 16"
      using c len by (simp add: v6_next_def v6_of_bytes_def)
    also have "(256 :: nat) ^ 16 = 2 ^ 128" by simp
    finally show ?thesis unfolding l .
  qed
  have fl: "be_value ?first < 2 ^ 128" using be_value_less [of ?first] len by simp
  have "v6_range_empty (nv6_hosts n) \<longleftrightarrow> be_value ?first = be_value (s6_addr ?e)"
  proof
    assume "be_value ?first = be_value (s6_addr ?e)"
    then have "?first = s6_addr ?e" by (intro be_value_inject) (simp_all add: v6_next_def v6_of_bytes_def)
    then show "v6_range_empty (nv6_hosts n)" by (simp add: v6_range_empty_def r(2) v6_next_def v6_of_bytes_def)
  next
    assume "v6_range_empty (nv6_hosts n)"
    then have "v6_of_bytes ?first ?sc = ?e" by (simp add: v6_range_empty_def r(2))
    then have "s6_addr (v6_of_bytes ?first ?sc) = s6_addr ?e" by (rule arg_cong)
    then have "?first = s6_addr ?e" by (simp only: v6_of_bytes_def address_v6.simps)
    then show "be_value ?first = be_value (s6_addr ?e)" by (rule arg_cong)
  qed
  also have "\<dots> \<longleftrightarrow> ?p = 0"
  proof (cases "?p = 0")
    case True
    then show ?thesis using e fl by simp
  next
    case False
    have "be_value ?first + 2 ^ (128 - ?p) < 2 ^ 128 \<or> be_value (s6_addr ?e) + 2 ^ 128 = be_value ?first + 2 ^ (128 - ?p)"
    proof (cases "be_value ?first + 2 ^ (128 - ?p) < 2 ^ 128")
      case f: False
      have "(2::nat) ^ (128 - ?p) < 2 ^ 128" using False by (intro power_strict_increasing) simp_all
      then have "be_value ?first + 2 ^ (128 - ?p) - 2 ^ 128 < 2 ^ 128" using fl by linarith
      moreover have "be_value (s6_addr ?e) = (be_value ?first + 2 ^ (128 - ?p) - 2 ^ 128) mod 2 ^ 128"
        unfolding e using f by (intro le_mod_geq) simp
      ultimately have "be_value (s6_addr ?e) = be_value ?first + 2 ^ (128 - ?p) - 2 ^ 128" by simp
      then show ?thesis using f by linarith
    qed simp
    moreover have "(2::nat) ^ (128 - ?p) < 2 ^ 128" using False by (intro power_strict_increasing) simp_all
    moreover have "(0::nat) < 2 ^ (128 - ?p)" by simp
    ultimately show ?thesis using e False by auto
  qed
  finally show ?thesis using e unfolding r by (simp add: v6_of_bytes_def)
qed

theorem hosts_v6_witness:
  "v6_range_empty (nv6_hosts network_v6_default)"
proof -
  have "v6_ok (nv6_address network_v6_default)" "nv6_prefix_length network_v6_default \<le> 128"
    by (simp_all add: network_v6_default_def v6_any_def v6_of_bytes_def v6_ok_def)
  from hosts_v6 [OF this] show ?thesis by (simp add: network_v6_default_def)
qed

end
