(* ===== verification/LuaAsio.thy ===== *)
theory LuaAsio
  imports SchedulerSpec IpAddress
begin

text \<open>
  The C++ half of the program, \<^verbatim>\<open>src/luaAsio.cpp\<close>: the queue of events for Lua, connections and
  servers with their completion handlers, and the C interface. The state \<open>app\<close> is the world of the
  scheduler. Starting an asynchronous operation adds a \<open>request\<close> to \<open>pending\<close> and counts as work;
  what the operating system answers to it (error code, number of bytes, data) is a \<open>completion\<close>,
  the operation the scheduler runs the handler for.

  Connections and servers are numbered. The number stands for the object and for the pointer to it;
  \<open>conn_refs\<close> counts the \<open>shared_ptr\<close> objects handed out to Lua, \<open>servers\<close> the live servers with
  their ports. A handler that touches a deleted server, or a call through a deleted pointer, sets
  \<open>undefined\<close>: its behaviour is not defined from there on. System error texts are the parameter
  \<open>strerror\<close>; \<open>inet_pton\<close>, \<open>inet_ntop\<close>, the resolver and \<open>getsockopt\<close> are the parameters \<open>pton4\<close>, \<open>pton6\<close>,
  \<open>ntop4\<close>, \<open>ntop6\<close>, \<open>resolve\<close> and \<open>dst6\<close>, \<open>dst4\<close>.
\<close>

section \<open>Events\<close>

definition EVT_ACCEPT :: int where "EVT_ACCEPT = 1"
definition EVT_CONTINUE :: int where "EVT_CONTINUE = 2"
definition MAX_EVT_MSG :: nat where "MAX_EVT_MSG = 10240"
definition MAX_BUFF_SIZE :: nat where "MAX_BUFF_SIZE = 10240"

record event_message =
  ev_type :: int
  dest_id :: int
  source :: "nat option"
  ev_data :: string

fun drop_oldest :: "nat \<Rightarrow> event_message list \<Rightarrow> event_message list" where
  "drop_oldest limit [] = []"
| "drop_oldest limit (e # q) = (if length (e # q) > limit then drop_oldest limit q else e # q)"

definition push_event_queue ::
  "int \<Rightarrow> int \<Rightarrow> nat option \<Rightarrow> string \<Rightarrow> event_message list \<Rightarrow> event_message list" where
  "push_event_queue type dest src txt q =
     drop_oldest MAX_EVT_MSG (q @ [\<lparr>ev_type = type, dest_id = dest, source = src, ev_data = txt\<rparr>])"

section \<open>State\<close>

datatype request =
    AsyncConnect nat endpoint int
  | AsyncWrite nat string int
  | AsyncRead nat nat int
  | AsyncReadSome nat int
  | AsyncAccept nat
  | AsyncWait int int

record app =
  g_evt_queue :: "event_message list"
  socket_open :: "nat \<Rightarrow> bool"
  read_buff :: "nat \<Rightarrow> string"
  conn_refs :: "nat \<Rightarrow> nat"
  servers :: "nat \<Rightarrow> int option"
  next_id :: nat
  pending :: "request list"
  undefined_behaviour :: bool

text \<open>The answer to a request: the error code, the bytes transferred, and the data received. For an
  accept, the data is not used and the new connection's socket is open.\<close>

datatype completion =
  Completion (for_request: "request") (comp_ec: error_code) (comp_bytes: nat) (comp_data: string)

type_synonym lua_sched = "(completion, app) sched"

definition new_app :: "app" where
  "new_app = \<lparr>g_evt_queue = [], socket_open = (\<lambda>_. False), read_buff = (\<lambda>_. []), conn_refs = (\<lambda>_. 0),
     servers = (\<lambda>_. None), next_id = 0, pending = [], undefined_behaviour = False\<rparr>"

definition upd_world :: "('w \<Rightarrow> 'w) \<Rightarrow> ('op, 'w) sched \<Rightarrow> ('op, 'w) sched" where
  "upd_world f s = s\<lparr>world := f (world s)\<rparr>"

definition push_event :: "int \<Rightarrow> int \<Rightarrow> nat option \<Rightarrow> string \<Rightarrow> lua_sched \<Rightarrow> lua_sched" where
  "push_event type dest src txt =
     upd_world (\<lambda>a. a\<lparr>g_evt_queue := push_event_queue type dest src txt (g_evt_queue a)\<rparr>)"

text \<open>Handing an operation to an I/O object of asio: the object's service has made sure that the reactor
  is installed, and the operation counts as work.\<close>

definition start_async :: "request \<Rightarrow> lua_sched \<Rightarrow> lua_sched" where
  "start_async rq s = upd_world (\<lambda>a. a\<lparr>pending := pending a @ [rq]\<rparr>) (work_started (init_task s))"

definition set_undefined :: "lua_sched \<Rightarrow> lua_sched" where
  "set_undefined = upd_world (\<lambda>a. a\<lparr>undefined_behaviour := True\<rparr>)"

definition close_socket :: "nat \<Rightarrow> lua_sched \<Rightarrow> lua_sched" where
  "close_socket c = upd_world (\<lambda>a. a\<lparr>socket_open := (socket_open a)(c := False)\<rparr>)"

definition conn_open :: "nat \<Rightarrow> lua_sched \<Rightarrow> lua_sched" where
  "conn_open c = upd_world (\<lambda>a. a\<lparr>socket_open := (socket_open a)(c := True)\<rparr>)"

definition set_read_buff :: "nat \<Rightarrow> string \<Rightarrow> lua_sched \<Rightarrow> lua_sched" where
  "set_read_buff c b = upd_world (\<lambda>a. a\<lparr>read_buff := (read_buff a)(c := b)\<rparr>)"

text \<open>\<open>std::string::resize\<close>, and the reactor writing received data to the front of the buffer.\<close>

definition resize :: "nat \<Rightarrow> string \<Rightarrow> string" where
  "resize n b = take n b @ replicate (n - length b) (CHR 0x00)"

definition overwrite :: "string \<Rightarrow> string \<Rightarrow> string" where
  "overwrite d b = take (length b) d @ drop (length d) b"

section \<open>Connections\<close>

text \<open>\<open>async_connect\<close> opens the socket for the protocol of the endpoint before it starts the operation. When
  the system has no socket to give, the completion says so; the flag of the unused socket is not read.\<close>

definition do_connect :: "nat \<Rightarrow> endpoint \<Rightarrow> int \<Rightarrow> lua_sched \<Rightarrow> lua_sched" where
  "do_connect c ep dest s = start_async (AsyncConnect c ep dest) (conn_open c s)"

definition on_connect ::
  "(int \<Rightarrow> string) \<Rightarrow> nat \<Rightarrow> int \<Rightarrow> error_code \<Rightarrow> lua_sched \<Rightarrow> lua_sched" where
  "on_connect strerror c dest ec =
     (if \<not> failed ec then push_event EVT_CONTINUE dest (Some c) []
      else push_event EVT_CONTINUE dest None (ec_message strerror ec))"

definition conn_write :: "nat \<Rightarrow> string \<Rightarrow> int \<Rightarrow> lua_sched \<Rightarrow> lua_sched" where
  "conn_write c txt dest = start_async (AsyncWrite c txt dest)"

definition on_write ::
  "(int \<Rightarrow> string) \<Rightarrow> nat \<Rightarrow> int \<Rightarrow> error_code \<Rightarrow> lua_sched \<Rightarrow> lua_sched" where
  "on_write strerror c dest ec s =
     (if \<not> failed ec then push_event EVT_CONTINUE dest (Some c) [] s
      else push_event EVT_CONTINUE dest None (ec_message strerror ec) (close_socket c s))"

definition conn_read :: "nat \<Rightarrow> nat \<Rightarrow> int \<Rightarrow> lua_sched \<Rightarrow> lua_sched" where
  "conn_read c sz dest s =
     start_async (AsyncRead c sz dest) (set_read_buff c (resize sz (read_buff (world s) c)) s)"

definition on_read ::
  "(int \<Rightarrow> string) \<Rightarrow> nat \<Rightarrow> int \<Rightarrow> error_code \<Rightarrow> lua_sched \<Rightarrow> lua_sched" where
  "on_read strerror c dest ec s =
     (if \<not> failed ec then push_event EVT_CONTINUE dest (Some c) (read_buff (world s) c) s
      else push_event EVT_CONTINUE dest None (ec_message strerror ec) (close_socket c s))"

definition conn_read_some :: "nat \<Rightarrow> int \<Rightarrow> lua_sched \<Rightarrow> lua_sched" where
  "conn_read_some c dest s =
     start_async (AsyncReadSome c dest) (set_read_buff c (resize MAX_BUFF_SIZE (read_buff (world s) c)) s)"

definition on_read_some ::
  "(int \<Rightarrow> string) \<Rightarrow> nat \<Rightarrow> int \<Rightarrow> error_code \<Rightarrow> nat \<Rightarrow> lua_sched \<Rightarrow> lua_sched" where
  "on_read_some strerror c dest ec bytes_transferred s =
     (if \<not> failed ec then
        let s = set_read_buff c (resize bytes_transferred (read_buff (world s) c)) s
        in push_event EVT_CONTINUE dest (Some c) (read_buff (world s) c) s
      else
        let s = close_socket c s;
            s = set_read_buff c (resize bytes_transferred (read_buff (world s) c)) s;
            s = push_event EVT_CONTINUE dest None (read_buff (world s) c) s
        in push_event EVT_CONTINUE dest None (ec_message strerror ec) s)"

definition conn_close :: "nat \<Rightarrow> lua_sched \<Rightarrow> lua_sched" where
  "conn_close = close_socket"

section \<open>Servers\<close>

definition do_accept :: "nat \<Rightarrow> lua_sched \<Rightarrow> lua_sched" where
  "do_accept sv s =
     (if servers (world s) sv = None then set_undefined s else start_async (AsyncAccept sv) s)"

text \<open>A new connection object with one \<open>shared_ptr\<close> to it.\<close>

definition new_connection :: "bool \<Rightarrow> lua_sched \<Rightarrow> nat \<times> lua_sched" where
  "new_connection is_open s =
     (let c = next_id (world s)
      in (c, upd_world (\<lambda>a. a\<lparr>next_id := c + 1, socket_open := (socket_open a)(c := is_open),
              read_buff := (read_buff a)(c := []), conn_refs := (conn_refs a)(c := 1)\<rparr>) s))"

text \<open>The handler of \<open>do_accept\<close> captured \<open>this\<close>: with the server deleted it reads a freed object.\<close>

definition on_accept :: "nat \<Rightarrow> error_code \<Rightarrow> lua_sched \<Rightarrow> lua_sched" where
  "on_accept sv ec s =
     (if \<not> failed ec then
        let (c, s) = new_connection True s
        in case servers (world s) sv of
             None \<Rightarrow> set_undefined s
           | Some port \<Rightarrow> do_accept sv (push_event EVT_ACCEPT port (Some c) [] s)
      else if ec = basic_ec operation_aborted then s
      else do_accept sv s)"

definition on_timer :: "(int \<Rightarrow> string) \<Rightarrow> int \<Rightarrow> error_code \<Rightarrow> lua_sched \<Rightarrow> lua_sched" where
  "on_timer strerror dest ec =
     (if \<not> failed ec then push_event EVT_CONTINUE dest None []
      else push_event EVT_CONTINUE dest None (ec_message strerror ec))"

section \<open>What runs on the scheduler\<close>

definition handle :: "(int \<Rightarrow> string) \<Rightarrow> completion \<Rightarrow> lua_sched \<Rightarrow> lua_sched" where
  "handle strerror cp s =
     (case cp of Completion rq ec n d \<Rightarrow>
       (case rq of
          AsyncConnect c ep dest \<Rightarrow> on_connect strerror c dest ec s
        | AsyncWrite c txt dest \<Rightarrow> on_write strerror c dest ec s
        | AsyncRead c sz dest \<Rightarrow>
            on_read strerror c dest ec (set_read_buff c (overwrite d (read_buff (world s) c)) s)
        | AsyncReadSome c dest \<Rightarrow>
            on_read_some strerror c dest ec n (set_read_buff c (overwrite d (read_buff (world s) c)) s)
        | AsyncAccept sv \<Rightarrow> on_accept sv ec s
        | AsyncWait msec dest \<Rightarrow> on_timer strerror dest ec s))"

text \<open>The task: \<open>answers\<close> is what the operating system has to say within the given time; an answer to
  no pending request is not one.\<close>

fun deliver :: "completion list \<Rightarrow> lua_sched \<Rightarrow> lua_sched" where
  "deliver [] s = s"
| "deliver (cp # cps) s =
     (if for_request cp \<in> set (pending (world s)) then
        deliver cps (push_private 0 [Op cp]
          (upd_world (\<lambda>a. a\<lparr>pending := remove1 (for_request cp) (pending a)\<rparr>) s))
      else deliver cps s)"

text \<open>Nobody but the one Lua thread uses the \<open>io_context\<close>, so a thread that sleeps is never woken.\<close>

definition lua_env ::
  "(int \<Rightarrow> string) \<Rightarrow> (int \<Rightarrow> app \<Rightarrow> completion list) \<Rightarrow> (completion, app) sched_env" where
  "lua_env strerror answers =
     \<lparr>env_complete = (\<lambda>cp _ s. (False, handle strerror cp s)),
      env_run_task = (\<lambda>usec s. (False, deliver (answers usec (world s)) s)),
      env_sleep = (\<lambda>_. None), env_sleep_usec = (\<lambda>_ s. s)\<rparr>"

section \<open>The C interface\<close>

definition asio_delete_server :: "nat \<Rightarrow> lua_sched \<Rightarrow> lua_sched" where
  "asio_delete_server sv = upd_world (\<lambda>a. a\<lparr>servers := (servers a)(sv := None)\<rparr>)"

text \<open>\<open>from_string\<close> throws (\<open>None\<close>) on a malformed address; \<open>listens\<close> says whether opening, binding and
  listening succeed. Either failure gives a null pointer. The endpoint takes the low 16 bits of the port.\<close>

definition asio_new_server ::
  "pton4 \<Rightarrow> pton6 \<Rightarrow> (endpoint \<Rightarrow> bool) \<Rightarrow> string \<Rightarrow> int \<Rightarrow> lua_sched \<Rightarrow> nat option \<times> lua_sched" where
  "asio_new_server pton4 pton6 listens ip port s =
     (case address_from_string pton4 pton6 ip of
        None \<Rightarrow> (None, s)
      | Some ip_addr \<Rightarrow>
          if listens (endpoint_of_address ip_addr (word_of_int port)) then
            let sv = next_id (world s);
                s = upd_world (\<lambda>a. a\<lparr>next_id := sv + 1, servers := (servers a)(sv \<mapsto> port)\<rparr>) s
            in (Some sv, do_accept sv s)
          else (None, s))"

definition asio_delete_connection :: "nat \<Rightarrow> lua_sched \<Rightarrow> lua_sched" where
  "asio_delete_connection c s =
     (if conn_refs (world s) c = 0 then set_undefined s
      else upd_world (\<lambda>a. a\<lparr>conn_refs := (conn_refs a)(c := conn_refs a c - 1)\<rparr>) s)"

text \<open>The loop over the resolver's results; \<open>ep\<close> is the endpoint before it.\<close>

fun choose_endpoint :: "bool \<Rightarrow> endpoint \<Rightarrow> endpoint list \<Rightarrow> endpoint" where
  "choose_endpoint v6 ep [] = ep"
| "choose_endpoint v6 ep (i # r) =
     (if address_is_v6 (endpoint_address i) \<and> v6 then i else choose_endpoint v6 i r)"

text \<open>\<open>None\<close>: the exception of the resolver leaves the function.\<close>

definition asio_new_connect ::
  "pton4 \<Rightarrow> pton6 \<Rightarrow> (string \<Rightarrow> string \<Rightarrow> endpoint list option) \<Rightarrow> string \<Rightarrow> 16 word \<Rightarrow> int \<Rightarrow> bool
    \<Rightarrow> lua_sched \<Rightarrow> (nat \<times> lua_sched) option" where
  "asio_new_connect pton4 pton6 resolve host port dest v6 s =
     (case (case address_from_string pton4 pton6 host of
              Some addr \<Rightarrow> Some (endpoint_of_address addr port)
            | None \<Rightarrow> map_option (choose_endpoint v6 endpoint_default) (resolve host (decimal (unat port)))) of
        None \<Rightarrow> None
      | Some ep \<Rightarrow> let (c, s) = new_connection False s in Some (c, do_connect c ep dest s))"

text \<open>The address and port of a \<^verbatim>\<open>sockaddr_storage\<close>.\<close>

fun get_addr_ip_port :: "endpoint \<Rightarrow> address \<times> 16 word" where
  "get_addr_ip_port (SockaddrIn6 sin6_port f bytes scope) =
     (IPv6 (v6_of_bytes bytes 0), network_to_host_short sin6_port)"
| "get_addr_ip_port (SockaddrIn sin_port sin_addr) =
     (IPv4 (v4_of_bytes (v4_to_bytes sin_addr)), network_to_host_short sin_port)"

definition asio_addr_to_str ::
  "(address_v4 \<Rightarrow> string) \<Rightarrow> (address_v6 \<Rightarrow> string) \<Rightarrow> endpoint \<Rightarrow> string" where
  "asio_addr_to_str ntop4 ntop6 p =
     (let (ip, port) = get_addr_ip_port p
      in address_to_string ntop4 ntop6 ip @ '':'' @ decimal (unat port))"

definition asio_new_connect_sockaddr :: "endpoint \<Rightarrow> int \<Rightarrow> lua_sched \<Rightarrow> nat \<times> lua_sched" where
  "asio_new_connect_sockaddr p dest s =
     (let (ip, port) = get_addr_ip_port p; (c, s) = new_connection False s
      in (c, do_connect c (endpoint_of_address ip port) dest s))"

text \<open>Calls through a pointer to \<open>shared_ptr\<close>.\<close>

definition through :: "nat \<Rightarrow> (lua_sched \<Rightarrow> lua_sched) \<Rightarrow> lua_sched \<Rightarrow> lua_sched" where
  "through c f s = (if conn_refs (world s) c = 0 then set_undefined s else f s)"

definition asio_conn_read :: "nat \<Rightarrow> nat \<Rightarrow> int \<Rightarrow> lua_sched \<Rightarrow> lua_sched" where
  "asio_conn_read c sz dest = through c (conn_read c sz dest)"

definition asio_conn_read_some :: "nat \<Rightarrow> int \<Rightarrow> lua_sched \<Rightarrow> lua_sched" where
  "asio_conn_read_some c dest = through c (conn_read_some c dest)"

definition asio_conn_write :: "nat \<Rightarrow> string \<Rightarrow> nat \<Rightarrow> int \<Rightarrow> lua_sched \<Rightarrow> lua_sched" where
  "asio_conn_write c txt sz dest = through c (conn_write c (take sz txt) dest)"

definition asio_conn_close :: "nat \<Rightarrow> lua_sched \<Rightarrow> lua_sched" where
  "asio_conn_close c = through c (conn_close c)"

definition get_original_dst ::
  "(nat \<Rightarrow> endpoint option) \<Rightarrow> (nat \<Rightarrow> endpoint option) \<Rightarrow> nat \<Rightarrow> endpoint option" where
  "get_original_dst dst6 dst4 c =
     (case dst6 c of Some a \<Rightarrow> Some a | None \<Rightarrow> (case dst4 c of Some a \<Rightarrow> Some a | None \<Rightarrow> None))"

definition asio_get_original_dst ::
  "(nat \<Rightarrow> endpoint option) \<Rightarrow> (nat \<Rightarrow> endpoint option) \<Rightarrow> nat \<Rightarrow> lua_sched \<Rightarrow> endpoint option \<times> lua_sched" where
  "asio_get_original_dst dst6 dst4 c s =
     (if conn_refs (world s) c = 0 then (None, set_undefined s) else (get_original_dst dst6 dst4 c, s))"

text \<open>The seconds are given in thousandths: the code truncates the double \<open>sec * 1000\<close> to an integer.\<close>

definition asio_sleep :: "int \<Rightarrow> int \<Rightarrow> lua_sched \<Rightarrow> lua_sched" where
  "asio_sleep dest msec = start_async (AsyncWait msec dest)"

definition asio_stopped :: "lua_sched \<Rightarrow> bool \<times> lua_sched" where
  "asio_stopped s = is_stopped s"

definition asio_get ::
  "(completion, app) sched_env \<Rightarrow> (app \<Rightarrow> int) \<Rightarrow> int \<Rightarrow> int \<Rightarrow> lua_sched
    \<Rightarrow> (event_message option \<times> lua_sched) option" where
  "asio_get E clock later wait_sec s =
     (case (if g_evt_queue (world s) = [] then
              let (st, s) = is_stopped s;
                  s = (if st then restart s else s)
              in if wait_sec < 0 then run_one E s
                 else run_one_for E clock later (wait_sec * 1000000000) s
            else Some (0, False, s)) of
        None \<Rightarrow> None
      | Some (n, threw, s) \<Rightarrow>
          if threw then Some (None, s)
          else case g_evt_queue (world s) of
                 [] \<Rightarrow> Some (None, s)
               | e # q \<Rightarrow> Some (Some e, upd_world (\<lambda>a. a\<lparr>g_evt_queue := q\<rparr>) s))"

end
