(* ===== verification/LuaAsioInv.thy ===== *)
theory LuaAsioInv
  imports LuaAsio
begin

text \<open>
  The C++ half keeps the scheduler's contract: the interpretation of \<open>scheduler_client\<close> on its own
  handlers. On top of it, the states the program reaches through its C interface, and their invariant:
  balanced books, and at most one event left in the queue between two calls.
\<close>

section \<open>Handlers keep the books\<close>

definition in_hand :: "app \<Rightarrow> int" where "in_hand a = int (length (pending a))"

abbreviation app_ok :: "int \<Rightarrow> nat \<Rightarrow> bool \<Rightarrow> lua_sched \<Rightarrow> bool" where
  "app_ok \<equiv> sched_ok in_hand"

lemma upd_world_fields [simp]:
  "stack (upd_world f s) = stack s" "world (upd_world f s) = f (world s)" "has_task (upd_world f s) = has_task s"
  "sched_queue (upd_world f s) = sched_queue s" "outstanding_work (upd_world f s) = outstanding_work s"
  "stopped (upd_world f s) = stopped s" "mutex_enabled (upd_world f s) = mutex_enabled s"
  "hold l (upd_world f s) = hold l s"
  by (simp_all add: upd_world_def)

lemma sched_ok_upd_world:
  "pend (f (world s)) = pend (world s) \<Longrightarrow> sched_ok pend k j l (upd_world f s) = sched_ok pend k j l s"
  by (simp add: sched_ok_def ledger_def)

text \<open>Operations on the state that leave the pending requests alone.\<close>

lemma world_ops_ok [simp]:
  "app_ok k j l (push_event ty dest src txt s) = app_ok k j l s"
  "app_ok k j l (set_undefined s) = app_ok k j l s"
  "app_ok k j l (close_socket c s) = app_ok k j l s"
  "app_ok k j l (conn_open c s) = app_ok k j l s"
  "app_ok k j l (set_read_buff c b s) = app_ok k j l s"
  "app_ok k j l (snd (new_connection op s)) = app_ok k j l s"
  unfolding push_event_def set_undefined_def close_socket_def conn_open_def set_read_buff_def new_connection_def Let_def snd_conv
  by (rule sched_ok_upd_world; simp add: in_hand_def)+

lemma world_ops_fields [simp]:
  "stack (push_event ty dest src txt s) = stack s" "stack (set_undefined s) = stack s"
  "stack (close_socket c s) = stack s" "stack (conn_open c s) = stack s" "stack (set_read_buff c b s) = stack s"
  "stack (snd (new_connection op s)) = stack s"
  by (simp_all add: push_event_def set_undefined_def close_socket_def conn_open_def set_read_buff_def new_connection_def
      Let_def)

lemma conn_open_fields [simp]:
  "outstanding_work (conn_open c s) = outstanding_work s" "pending (world (conn_open c s)) = pending (world s)"
  "stopped (conn_open c s) = stopped s" "sched_queue (conn_open c s) = sched_queue s"
  "g_evt_queue (world (conn_open c s)) = g_evt_queue (world s)"
  by (simp_all add: conn_open_def)

lemma init_task_fields [simp]:
  "stack (init_task s) = stack s" "world (init_task s) = world s" "stopped (init_task s) = stopped s"
  by (simp_all add: init_task_def Let_def)

lemma start_async_ok:
  assumes "app_ok k j False s"
  shows "app_ok k j False (start_async rq s)"
proof -
  have "app_ok (k + 1) j False (work_started (init_task s))" by (intro work_started_ok init_task_ok assms)
  then show ?thesis unfolding start_async_def
    by (auto simp: sched_ok_def ledger_def in_hand_def)
qed

lemma start_async_fields [simp]:
  "stack (start_async rq s) = stack s" "stopped (start_async rq s) = stopped s"
  "world (start_async rq s) = (world s)\<lparr>pending := pending (world s) @ [rq]\<rparr>"
  by (simp_all add: start_async_def work_started_def)

lemma do_accept_ok:
  "app_ok k j False s \<Longrightarrow> app_ok k j False (do_accept sv s)" "stack (do_accept sv s) = stack s"
  by (simp_all add: do_accept_def start_async_ok)

lemma on_accept_ok:
  assumes "app_ok k j False s"
  shows "app_ok k j False (on_accept sv ec s)" "stack (on_accept sv ec s) = stack s"
proof -
  obtain c s1 where n: "new_connection True s = (c, s1)" by (rule prod.exhaust)
  then have s1: "s1 = snd (new_connection True s)" by simp
  have "app_ok k j False s1" "stack s1 = stack s" using assms by (simp_all add: s1)
  then show "app_ok k j False (on_accept sv ec s)" "stack (on_accept sv ec s) = stack s"
    using assms by (auto simp: on_accept_def n do_accept_ok split: option.splits)
qed

lemma plain_handlers_ok [simp]:
  "app_ok k j l (on_connect strerror c dest ec s) = app_ok k j l s"
  "app_ok k j l (on_write strerror c dest ec s) = app_ok k j l s"
  "app_ok k j l (on_read strerror c dest ec s) = app_ok k j l s"
  "app_ok k j l (on_read_some strerror c dest ec n s) = app_ok k j l s"
  "app_ok k j l (on_timer strerror dest ec s) = app_ok k j l s"
  by (simp_all add: on_connect_def on_write_def on_read_def on_read_some_def on_timer_def Let_def)

lemma plain_handlers_stack [simp]:
  "stack (on_connect strerror c dest ec s) = stack s" "stack (on_write strerror c dest ec s) = stack s"
  "stack (on_read strerror c dest ec s) = stack s" "stack (on_read_some strerror c dest ec n s) = stack s"
  "stack (on_timer strerror dest ec s) = stack s"
  by (simp_all add: on_connect_def on_write_def on_read_def on_read_some_def on_timer_def Let_def)

lemma handle_ok:
  assumes "app_ok k j False s"
  shows "app_ok k j False (handle strerror cp s) \<and> stack (handle strerror cp s) = stack s"
proof (cases cp)
  case (Completion rq ec n d)
  show ?thesis
    by (cases rq) (use assms in \<open>simp_all add: Completion handle_def on_accept_ok\<close>)
qed

lemma deliver_ok:
  assumes "app_ok k 1 False s" "stack s \<noteq> []"
  shows "app_ok k 1 False (deliver cps s) \<and> length (stack (deliver cps s)) = length (stack s)"
  using assms
proof (induction cps s rule: deliver.induct)
  case (2 cp cps s)
  show ?case
  proof (cases "for_request cp \<in> set (pending (world s))")
    case True
    let ?a = "upd_world (\<lambda>a. a\<lparr>pending := remove1 (for_request cp) (pending a)\<rparr>) s"
    have "length (pending (world s)) > 0" using True by auto
    then have "in_hand (world ?a) + 1 = in_hand (world s)"
      using True by (simp add: in_hand_def length_remove1 of_nat_diff Suc_le_eq)
    then have "app_ok (k + 1) 1 False ?a"
      using 2(3) by (simp add: sched_ok_def ledger_def)
    then have "app_ok k 1 False (push_private 0 [Op cp] ?a)"
      using push_private_ok [of in_hand "k + 1" 1 False ?a 0 "[cp]"] 2(4) by (simp add: can_dispatch_def)
    moreover have "length (stack (push_private 0 [Op cp] ?a)) = length (stack s)" by (simp add: push_private_def)
    moreover from this have "stack (push_private 0 [Op cp] ?a) \<noteq> []" using 2(4) by auto
    ultimately show ?thesis using 2(1) [OF True] True by simp
  next
    case False
    then show ?thesis using 2(2) [OF False] 2(3,4) by simp
  qed
qed simp

interpretation lua: scheduler_client "lua_env strerror answers" in_hand
proof unfold_locales
  fix k j and s :: "lua_sched" and opn r threw s'
  assume "app_ok (k + 1) j False s" "stack s \<noteq> []"
    "env_complete (lua_env strerror answers) opn r s = (threw, s')"
  then show "app_ok (k + 1) j False s' \<and> length (stack s') = length (stack s)"
    using handle_ok [of "k + 1" j s strerror opn] by (auto simp: lua_env_def)
next
  fix k and s :: "lua_sched" and usec threw s'
  assume "app_ok k 1 False s" "stack s \<noteq> []"
    "env_run_task (lua_env strerror answers) usec s = (threw, s')"
  then show "app_ok k 1 False s' \<and> length (stack s') = length (stack s)"
    using deliver_ok [of k s "answers usec (world s)"] by (auto simp: lua_env_def)
qed (auto simp: lua_env_def)

section \<open>What the handlers say\<close>

text \<open>The events a completion pushes, in order.\<close>

definition evt :: "int \<Rightarrow> nat option \<Rightarrow> string \<Rightarrow> event_message" where
  "evt dest src txt = \<lparr>ev_type = EVT_CONTINUE, dest_id = dest, source = src, ev_data = txt\<rparr>"

fun events_of :: "(int \<Rightarrow> string) \<Rightarrow> app \<Rightarrow> completion \<Rightarrow> event_message list" where
  "events_of strerror a (Completion (AsyncConnect c ep dest) ec n d) =
     [if failed ec then evt dest None (ec_message strerror ec) else evt dest (Some c) []]"
| "events_of strerror a (Completion (AsyncWrite c txt dest) ec n d) =
     [if failed ec then evt dest None (ec_message strerror ec) else evt dest (Some c) []]"
| "events_of strerror a (Completion (AsyncRead c sz dest) ec n d) =
     [if failed ec then evt dest None (ec_message strerror ec)
      else evt dest (Some c) (overwrite d (read_buff a c))]"
| "events_of strerror a (Completion (AsyncReadSome c dest) ec n d) =
     (if failed ec
      then [evt dest None (resize n (overwrite d (read_buff a c))), evt dest None (ec_message strerror ec)]
      else [evt dest (Some c) (resize n (overwrite d (read_buff a c)))])"
| "events_of strerror a (Completion (AsyncWait msec dest) ec n d) =
     [evt dest None (if failed ec then ec_message strerror ec else [])]"
| "events_of strerror a (Completion (AsyncAccept sv) ec n d) =
     (if failed ec then [] else case servers a sv of None \<Rightarrow> []
      | Some port \<Rightarrow> [\<lparr>ev_type = EVT_ACCEPT, dest_id = port, source = Some (next_id a), ev_data = []\<rparr>])"

lemma drop_oldest_short: "length q \<le> limit \<Longrightarrow> drop_oldest limit q = q"
  by (cases q) auto

lemma push_event_queue_short:
  "length q < MAX_EVT_MSG \<Longrightarrow>
   push_event_queue ty dest src txt q = q @ [\<lparr>ev_type = ty, dest_id = dest, source = src, ev_data = txt\<rparr>]"
  by (simp add: push_event_queue_def drop_oldest_short)

lemma queue_fields [simp]:
  "g_evt_queue (world (close_socket c s)) = g_evt_queue (world s)"
  "g_evt_queue (world (set_read_buff c b s)) = g_evt_queue (world s)"
  "g_evt_queue (world (set_undefined s)) = g_evt_queue (world s)"
  "g_evt_queue (world (snd (new_connection op s))) = g_evt_queue (world s)"
  "g_evt_queue (world (push_event ty dest src txt s))
     = push_event_queue ty dest src txt (g_evt_queue (world s))"
  "read_buff (world (set_read_buff c b s)) c = b" "read_buff (world (close_socket c' s)) = read_buff (world s)"
  "servers (world (snd (new_connection op s))) = servers (world s)"
  "servers (world (push_event ty dest src txt s)) = servers (world s)"
  by (simp_all add: push_event_def set_undefined_def close_socket_def set_read_buff_def new_connection_def Let_def)

lemma do_accept_queue [simp]: "g_evt_queue (world (do_accept sv s)) = g_evt_queue (world s)"
  by (simp add: do_accept_def)

lemma events_of_length: "length (events_of strerror a cp) \<le> 2"
  by (cases "(strerror, a, cp)" rule: events_of.cases) (auto split: option.splits)

lemma handle_events:
  assumes "length (g_evt_queue (world s)) + 2 \<le> MAX_EVT_MSG"
  shows "g_evt_queue (world (handle strerror cp s))
    = g_evt_queue (world s) @ events_of strerror (world s) cp"
proof (cases "(strerror, world s, cp)" rule: events_of.cases)
  case (6 strerror' a sv ec n d)
  have "fst (new_connection True s) = next_id (world s)" by (simp add: new_connection_def Let_def)
  then show ?thesis using 6 assms
    by (auto simp: handle_def on_accept_def case_prod_beta push_event_queue_short split: option.splits)
qed (use assms in \<open>auto simp: handle_def on_connect_def on_write_def on_read_def on_read_some_def on_timer_def
      evt_def Let_def push_event_queue_short\<close>)

end
