(* ===== verification/LuaAsioRun.thy ===== *)
theory LuaAsioRun
  imports LuaAsioInv
begin

text \<open>
  What running the \<open>io_context\<close> does to the operations in progress: the task moves answered requests to
  the queue, in the order of the answers, and one call of a run function runs at most one handler, the
  one of the first completion in the queue. From this, the invariant of the states the program reaches.
\<close>

section \<open>One call, one handler\<close>

abbreviation evq :: "lua_sched \<Rightarrow> event_message list" where
  "evq s \<equiv> g_evt_queue (world s)"

text \<open>The completions in a queue of the scheduler, without the entry of the task.\<close>

fun completions_in :: "'op entry list \<Rightarrow> 'op list" where
  "completions_in [] = []"
| "completions_in (Task # q) = completions_in q"
| "completions_in (Op x # q) = x # completions_in q"

lemma completions_in_append [simp]: "completions_in (p @ q) = completions_in p @ completions_in q"
  by (induction p rule: completions_in.induct) simp_all

text \<open>\<open>polled answers ds s t\<close>: from \<open>s\<close> to \<open>t\<close> no handler ran and the task brought exactly the completions
  \<open>ds\<close>, which went to the end of the queue. They are what the operating system said, each answers one
  pending request, and that request is no longer pending; nothing else changed in the world.\<close>

definition polled :: "(int \<Rightarrow> app \<Rightarrow> completion list) \<Rightarrow> completion list \<Rightarrow> lua_sched \<Rightarrow> lua_sched \<Rightarrow> bool" where
  "polled answers ds s t \<longleftrightarrow>
     completions_in (sched_queue t) = completions_in (sched_queue s) @ ds
     \<and> mset (pending (world s)) = mset (pending (world t)) + mset (map for_request ds)
     \<and> world t = (world s)\<lparr>pending := pending (world t)\<rparr>
     \<and> (\<forall>cp \<in> set ds. \<exists>usec p. cp \<in> set (answers usec ((world s)\<lparr>pending := p\<rparr>)))"

lemma polled_same: "world t = world s \<Longrightarrow> completions_in (sched_queue t) = completions_in (sched_queue s) \<Longrightarrow> polled answers [] s t"
  by (simp add: polled_def)

lemma polled_trans:
  assumes "polled answers ds s t" "polled answers es t u"
  shows "polled answers (ds @ es) s u"
proof -
  have w: "world t = (world s)\<lparr>pending := pending (world t)\<rparr>" "world u = (world t)\<lparr>pending := pending (world u)\<rparr>"
    using assms unfolding polled_def by blast+
  have "world u = (world s)\<lparr>pending := pending (world u)\<rparr>" using w by (metis app.surjective app.update_convs(7))
  moreover have "(world t)\<lparr>pending := p\<rparr> = (world s)\<lparr>pending := p\<rparr>" for p
    using w(1) by (metis app.surjective app.update_convs(7))
  ultimately show ?thesis using assms unfolding polled_def by auto
qed

text \<open>\<open>ran strerror answers n s s'\<close>: \<open>n\<close> handlers ran from \<open>s\<close> to \<open>s'\<close>: none, or the one of the first
  completion in the queue after polling, which left the queue.\<close>

definition ran :: "(int \<Rightarrow> string) \<Rightarrow> (int \<Rightarrow> app \<Rightarrow> completion list) \<Rightarrow> nat \<Rightarrow> lua_sched \<Rightarrow> lua_sched \<Rightarrow> bool" where
  "ran strerror answers n s s' \<longleftrightarrow> (\<exists>ds.
     n = 0 \<and> polled answers ds s s'
     \<or> n = 1 \<and> (\<exists>t cp. polled answers ds s t \<and> completions_in (sched_queue t) = cp # completions_in (sched_queue s')
          \<and> world s' = world (handle strerror cp t)))"

lemma ran_same: "world t = world s \<Longrightarrow> completions_in (sched_queue t) = completions_in (sched_queue s) \<Longrightarrow> ran strerror answers 0 s t"
  unfolding ran_def using polled_same by blast

lemma ran_after: "polled answers ds s t \<Longrightarrow> ran strerror answers n t u \<Longrightarrow> ran strerror answers n s u"
  unfolding ran_def using polled_trans by meson

lemma ran_0: "ran strerror answers 0 s t \<Longrightarrow> \<exists>ds. polled answers ds s t"
  by (simp add: ran_def)

text \<open>Only the queue and the world of the two states count.\<close>

definition agree :: "lua_sched \<Rightarrow> lua_sched \<Rightarrow> bool" where
  "agree s t \<longleftrightarrow> world t = world s \<and> completions_in (sched_queue t) = completions_in (sched_queue s)"

lemma agree_ran:
  assumes "agree s s1" "agree t1 t" "ran strerror answers n s1 t1"
  shows "ran strerror answers n s t"
  using assms unfolding ran_def polled_def agree_def by simp

lemma events_of_pending [simp]: "events_of strerror (a\<lparr>pending := p\<rparr>) cp = events_of strerror a cp"
  by (cases "(strerror, a, cp)" rule: events_of.cases) (auto split: option.splits)

lemma polled_events:
  assumes "polled answers ds s t"
  shows "events_of strerror (world t) cp = events_of strerror (world s) cp" "evq t = evq s"
proof -
  have "world t = (world s)\<lparr>pending := pending (world t)\<rparr>" using assms by (simp add: polled_def)
  then show "events_of strerror (world t) cp = events_of strerror (world s) cp" "evq t = evq s"
    by (metis events_of_pending, metis app.select_convs(1) app.surjective app.update_convs(7))
qed

lemma ran_evq:
  assumes "ran strerror answers n s s'" "length (evq s) + 2 \<le> MAX_EVT_MSG"
  shows "n = 0 \<and> evq s' = evq s \<or> n = 1 \<and> (\<exists>cp. evq s' = evq s @ events_of strerror (world s) cp)"
proof -
  obtain ds where "n = 0 \<and> polled answers ds s s' \<or> n = 1 \<and> (\<exists>t cp. polled answers ds s t \<and>
      completions_in (sched_queue t) = cp # completions_in (sched_queue s') \<and> world s' = world (handle strerror cp t))"
    using assms(1) unfolding ran_def by blast
  then show ?thesis
  proof (elim disjE conjE exE)
    fix t cp
    assume n: "n = 1" and p: "polled answers ds s t" and w: "world s' = world (handle strerror cp t)"
    have "evq s' = evq s @ events_of strerror (world s) cp"
      using handle_events [of t strerror cp] assms(2) polled_events [OF p] w by simp
    then show ?thesis using n by blast
  qed (simp add: polled_events)
qed

lemma ran_length: "ran strerror answers n s s' \<Longrightarrow> length (evq s) + 2 \<le> MAX_EVT_MSG \<Longrightarrow> length (evq s') \<le> length (evq s) + 2"
  using ran_evq [of strerror answers n s s'] events_of_length [of strerror] by fastforce

lemma cleanup_world [simp]: "world (work_cleanup s) = world s" "world (task_cleanup s) = world s"
  by (simp_all add: work_cleanup_def task_cleanup_def work_finished_def Let_def)

text \<open>A handler's effect on the world depends on the world only; of the queue, it touches at most the entry
  of the task, and it leaves the private queues alone.\<close>

lemma world_of_ops:
  "world (upd_world f s) = f (world s)" "world (start_async rq s) = (world s)\<lparr>pending := pending (world s) @ [rq]\<rparr>"
  by simp_all

lemma start_async_queued: "completions_in (sched_queue (start_async rq s)) = completions_in (sched_queue s)"
  by (simp add: start_async_def work_started_def init_task_def Let_def)

lemmas handlers = handle_def on_connect_def on_write_def on_read_def on_read_some_def on_timer_def on_accept_def
  push_event_def close_socket_def set_read_buff_def set_undefined_def new_connection_def do_accept_def Let_def

lemma handle_world: "world s = world t \<Longrightarrow> world (handle strerror cp s) = world (handle strerror cp t)"
  by (cases cp; cases "for_request cp") (auto simp: handlers split: option.splits)

lemma handle_queued: "completions_in (sched_queue (handle strerror cp s)) = completions_in (sched_queue s)"
  by (cases cp; cases "for_request cp") (auto simp: handlers start_async_queued split: option.splits)

lemma handle_stack: "stack (handle strerror cp s) = stack s"
  by (cases cp; cases "for_request cp") (auto simp: handlers split: option.splits)

text \<open>The private queue of the innermost run function is empty.\<close>

definition no_private :: "lua_sched \<Rightarrow> bool" where
  "no_private s \<longleftrightarrow> stack s \<noteq> [] \<and> private_op_queue (top_info s) = []"

lemma no_private_stack: "stack s = stack t \<Longrightarrow> no_private s = no_private t"
  by (simp add: no_private_def top_info_def)

lemma deliver_polls:
  assumes "stack s = t # ts"
  shows "\<exists>ds t'. private_op_queue t' = private_op_queue t @ map Op ds \<and> stack (deliver cps s) = t' # ts
    \<and> sched_queue (deliver cps s) = sched_queue s
    \<and> mset (pending (world s)) = mset (pending (world (deliver cps s))) + mset (map for_request ds)
    \<and> world (deliver cps s) = (world s)\<lparr>pending := pending (world (deliver cps s))\<rparr> \<and> set ds \<subseteq> set cps"
  using assms
proof (induction cps s arbitrary: t rule: deliver.induct)
  case (1 s)
  show ?case by (rule exI [of _ "[]"], rule exI [of _ t]) (use 1 in simp)
next
  case (2 cp cps s)
  show ?case
  proof (cases "for_request cp \<in> set (pending (world s))")
    case False
    then show ?thesis using 2(2) [OF False 2(3)] by auto
  next
    case True
    let ?a = "upd_world (\<lambda>a. a\<lparr>pending := remove1 (for_request cp) (pending a)\<rparr>) s"
    let ?u = "push_private 0 [Op cp] ?a"
    let ?t = "t\<lparr>private_outstanding_work := private_outstanding_work t + 0, private_op_queue := private_op_queue t @ [Op cp]\<rparr>"
    have u: "stack ?u = ?t # ts" "sched_queue ?u = sched_queue s" "world ?u = world ?a"
      using 2(3) by (simp_all add: push_private_def upd_top_def)
    obtain ds t' where d: "private_op_queue t' = private_op_queue ?t @ map Op ds" "stack (deliver cps ?u) = t' # ts"
      "sched_queue (deliver cps ?u) = sched_queue ?u"
      "mset (pending (world ?u)) = mset (pending (world (deliver cps ?u))) + mset (map for_request ds)"
      "world (deliver cps ?u) = (world ?u)\<lparr>pending := pending (world (deliver cps ?u))\<rparr>" "set ds \<subseteq> set cps"
      using 2(1) [OF True u(1)] by blast
    have "mset (pending (world s)) = mset (pending (world ?u)) + {#for_request cp#}"
      using True by (simp add: u(3))
    moreover have "world (deliver cps ?u) = (world s)\<lparr>pending := pending (world (deliver cps ?u))\<rparr>"
      using d(5) unfolding u(3) by simp
    ultimately show ?thesis using d True u(2) by (intro exI [of _ "cp # ds"] exI [of _ t']) auto
  qed
qed

lemma run_op_queue:
  fixes s :: "lua_sched"
  assumes r: "run_op (lua_env strerror answers) cp s = (n, threw, s')" and q: "no_private s"
  shows "\<not> threw \<and> n = 1 \<and> completions_in (sched_queue s') = completions_in (sched_queue s) \<and> world s' = world (handle strerror cp s)"
proof -
  define s1 where "s1 = (if sched_queue s \<noteq> [] \<and> \<not> one_thread s then wake_one_thread_and_unlock s else unlock s)"
  have s1: "world s1 = world s" "sched_queue s1 = sched_queue s" "stack s1 = stack s" by (simp_all add: s1_def)
  define h where "h = handle strerror cp s1"
  have h: "completions_in (sched_queue h) = completions_in (sched_queue s)" "no_private h" "world h = world (handle strerror cp s)"
    using handle_queued [of strerror cp s1] s1 q no_private_stack [of h s] handle_world [OF s1(1)]
    by (simp_all add: h_def handle_stack)
  obtain t ts where t: "stack h = t # ts" "private_op_queue t = []"
    using h(2) by (cases "stack h") (auto simp: no_private_def)
  have "sched_queue (work_cleanup h) = sched_queue h"
    using t by (simp add: work_cleanup_def work_finished_def Let_def top_info_def upd_top_def split: list.splits)
  moreover have "run_op (lua_env strerror answers) cp s = (1, False, work_cleanup h)"
    unfolding run_op_def Let_def s1_def [symmetric] h_def by (simp add: lua_env_def)
  ultimately show ?thesis using r h by auto
qed

lemma run_op_ran:
  fixes s :: "lua_sched"
  assumes "run_op (lua_env strerror answers) cp (s\<lparr>sched_queue := q\<rparr>) = (n, threw, s')" "no_private s" "sched_queue s = Op cp # q"
  shows "\<not> threw \<and> ran strerror answers n s s'"
proof -
  have q: "no_private (s\<lparr>sched_queue := q\<rparr>)" using assms(2) no_private_stack [of "s\<lparr>sched_queue := q\<rparr>" s] by simp
  note k = run_op_queue [OF assms(1) q]
  have w: "world s' = world (handle strerror cp s)"
    using k handle_world [of "s\<lparr>sched_queue := q\<rparr>" s strerror cp] by simp
  have p: "polled answers [] s s" by (simp add: polled_def)
  have "completions_in (sched_queue s) = cp # completions_in (sched_queue s')" using k assms(3) by simp
  then have "\<exists>t cp. polled answers [] s t \<and> completions_in (sched_queue t) = cp # completions_in (sched_queue s')
      \<and> world s' = world (handle strerror cp t)"
    using p w by blast
  then show ?thesis using k unfolding ran_def by blast
qed

lemma run_the_task_queue:
  fixes s :: "lua_sched"
  assumes r: "run_the_task (lua_env strerror answers) usec s = (threw, s')" and q: "no_private s"
  shows "\<not> threw \<and> no_private s' \<and> (\<exists>ds. polled answers ds s s')"
proof -
  define s0 where "s0 = s\<lparr>task_interrupted := (sched_queue s \<noteq> [])\<rparr>"
  define s1 where "s1 = (if sched_queue s \<noteq> [] \<and> \<not> one_thread s then unlock_and_signal_one s0 else unlock s0)"
  have s1: "world s1 = world s" "sched_queue s1 = sched_queue s" "stack s1 = stack s" by (simp_all add: s1_def s0_def)
  let ?u = "if sched_queue s \<noteq> [] then 0 else usec"
  let ?d = "deliver (answers ?u (world s)) s1"
  have res: "threw = False" "s' = task_cleanup ?d"
    using r s1 unfolding run_the_task_def Let_def s0_def [symmetric] s1_def [symmetric]
    by (auto simp: lua_env_def s1_def s0_def)
  obtain t ts where t: "stack s1 = t # ts" "private_op_queue t = []"
    using q s1(3) by (cases "stack s") (auto simp: no_private_def)
  obtain ds t' where d: "private_op_queue t' = map Op ds" "stack ?d = t' # ts" "sched_queue ?d = sched_queue s"
    "mset (pending (world s)) = mset (pending (world ?d)) + mset (map for_request ds)"
    "world ?d = (world s)\<lparr>pending := pending (world ?d)\<rparr>" "set ds \<subseteq> set (answers ?u (world s))"
    using deliver_polls [OF t(1), of "answers ?u (world s)"] t(2) s1 by auto
  have q': "sched_queue s' = sched_queue s @ map Op ds @ [Task]" "no_private s'" "world s' = world ?d"
    using d(1-3) by (auto simp: res task_cleanup_def Let_def top_info_def upd_top_def no_private_def)
  have "completions_in (map Op ds) = ds" by (induction ds) simp_all
  moreover have "\<forall>cp \<in> set ds. \<exists>usec p. cp \<in> set (answers usec ((world s)\<lparr>pending := p\<rparr>))"
  proof
    fix cp
    assume "cp \<in> set ds"
    then have "cp \<in> set (answers ?u ((world s)\<lparr>pending := pending (world s)\<rparr>))" using d(6) by auto
    then show "\<exists>usec p. cp \<in> set (answers usec ((world s)\<lparr>pending := p\<rparr>))" by blast
  qed
  ultimately have "polled answers ds s s'" using d(4,5) q'(1,3) unfolding polled_def by simp
  then show ?thesis using res(1) q'(2) by blast
qed

lemma wait_event_world:
  "wait_event (lua_env strerror answers) (clear_event s) = Some t \<Longrightarrow>
    world t = world s \<and> stack t = stack s \<and> sched_queue t = sched_queue s"
  by (subst (asm) wait_event_def, subst (asm) posix_wait.simps)
    (auto simp: lua_env_def assert_locked_def split: if_splits)

lemma task_step:
  fixes s :: "lua_sched"
  assumes "run_the_task (lua_env strerror answers) usec (s\<lparr>sched_queue := q\<rparr>) = (threw, s')" "no_private s" "sched_queue s = Task # q"
  shows "\<not> threw \<and> no_private s' \<and> (\<exists>ds. polled answers ds s s')"
proof -
  have "no_private (s\<lparr>sched_queue := q\<rparr>)" using assms(2) no_private_stack [of "s\<lparr>sched_queue := q\<rparr>" s] by simp
  from run_the_task_queue [OF assms(1) this] show ?thesis using assms(3) by (simp add: polled_def)
qed

lemma do_run_one_queue:
  fixes s :: "lua_sched"
  assumes r: "do_run_one (lua_env strerror answers) s = Some (n, threw, s')" and no_private: "no_private s"
  shows "\<not> threw \<and> ran strerror answers n s s'"
proof -
  let ?P = "\<lambda>E' s r. E' = lua_env strerror answers \<longrightarrow> no_private s \<longrightarrow>
    \<not> fst (snd r) \<and> ran strerror answers (fst r) s (snd (snd r))"
  have "?P (lua_env strerror answers) s (n, threw, s')"
  proof (rule do_run_one.raw_induct [OF _ r, of ?P], intro impI)
    fix f :: "(completion, app) sched_env \<Rightarrow> lua_sched \<Rightarrow> (completion, app) run_result option"
      and E' s r
    assume ih: "\<And>E' s r. f E' s = Some r \<Longrightarrow> ?P E' s r"
      and body: "(if \<not> stopped s then
        (case sched_queue s of
           [] \<Rightarrow> (case wait_event E' (clear_event s) of None \<Rightarrow> None | Some s' \<Rightarrow> f E' s')
         | Task # q \<Rightarrow>
             (let (threw, s') = run_the_task E' (- 1) (s\<lparr>sched_queue := q\<rparr>)
              in if threw then Some (0, True, s') else f E' s')
         | Op opn # q \<Rightarrow> Some (run_op E' opn (s\<lparr>sched_queue := q\<rparr>)))
      else Some (0, False, s)) = Some r"
      and E': "E' = lua_env strerror answers" and no_private: "no_private s"
    note body = body [unfolded E']
    show "\<not> fst (snd r) \<and> ran strerror answers (fst r) s (snd (snd r))"
    proof (cases "stopped s")
      case True
      then show ?thesis using body by (auto intro: ran_same)
    next
      case False
      show ?thesis
      proof (cases "sched_queue s" rule: queue_cases)
        case empty
        then obtain t where t: "wait_event (lua_env strerror answers) (clear_event s) = Some t" "f (lua_env strerror answers) t = Some r"
          using body False by (auto split: option.splits)
        note w = wait_event_world [OF t(1)]
        then have "no_private t" using no_private no_private_stack by blast
        moreover have "polled answers [] s t" by (rule polled_same) (simp_all add: w)
        ultimately show ?thesis using ih [OF t(2)] ran_after by blast
      next
        case (task q)
        obtain tw t where t: "run_the_task (lua_env strerror answers) (- 1) (s\<lparr>sched_queue := q\<rparr>) = (tw, t)" by (rule prod.exhaust)
        note k = task_step [OF t no_private task]
        then have "f (lua_env strerror answers) t = Some r" using body False task t by simp
        then show ?thesis using ih [of "lua_env strerror answers" t r] k ran_after by blast
      next
        case (opn x q)
        obtain n' tw t where t: "run_op (lua_env strerror answers) x (s\<lparr>sched_queue := q\<rparr>) = (n', tw, t)" by (rule prod_cases3)
        then have "r = (n', tw, t)" using body False opn by simp
        then show ?thesis using run_op_ran [OF t no_private opn] by simp
      qed
    qed
  qed
  then show ?thesis using no_private by simp
qed

lemma run_front_queue:
  fixes s :: "lua_sched"
  assumes r: "run_front (lua_env strerror answers) s = (n, threw, s')" and no_private: "no_private s"
  shows "\<not> threw \<and> ran strerror answers n s s'"
proof (cases "sched_queue s" rule: queue_cases)
  case (opn x q)
  then have "run_op (lua_env strerror answers) x (s\<lparr>sched_queue := q\<rparr>) = (n, threw, s')" using r by (simp add: run_front_def)
  then show ?thesis by (rule run_op_ran [OF _ no_private opn])
qed (use r in \<open>auto simp: run_front_def intro: ran_same\<close>)

lemma do_wait_one_queue:
  fixes s :: "lua_sched"
  assumes r: "do_wait_one (lua_env strerror answers) usec s = (n, threw, s')" and no_private: "no_private s"
  shows "\<not> threw \<and> ran strerror answers n s s'"
proof (cases "stopped s")
  case True
  then show ?thesis using r by (auto simp: do_wait_one_def intro: ran_same)
next
  case False
  define s1 where "s1 = (if sched_queue s = [] then snd (wait_event_for_usec (lua_env strerror answers) usec (clear_event s)) else s)"
  define u where "u = (if sched_queue s = [] then 0 else usec)"
  have w1: "world s1 = world s" "sched_queue s1 = sched_queue s" "stack s1 = stack s"
    by (simp_all add: s1_def wait_event_for_usec_def posix_wait_for_usec_def assert_locked_def lua_env_def Let_def)
  have p1: "polled answers [] s s1" by (rule polled_same) (simp_all add: w1)
  have no_private1: "no_private s1" using no_private no_private_stack [OF w1(3)] by simp
  have res: "(n, threw, s') = (case sched_queue s1 of
       Task # q \<Rightarrow>
         (let (tw, s) = run_the_task (lua_env strerror answers) u (s1\<lparr>sched_queue := q\<rparr>)
          in if tw then (0, True, s)
             else case sched_queue s of
                    Task # _ \<Rightarrow> (0, False, if \<not> one_thread s then snd (maybe_unlock_and_signal_one s) else s)
                  | _ \<Rightarrow> run_front (lua_env strerror answers) s)
     | _ \<Rightarrow> run_front (lua_env strerror answers) s1)"
    using r False unfolding do_wait_one_def s1_def u_def by (cases "sched_queue s = []") simp_all
  show ?thesis
  proof (cases "\<exists>q. sched_queue s1 = Task # q")
    case False
    then have "run_front (lua_env strerror answers) s1 = (n, threw, s')" using res unfolding no_task_case [OF False] by simp
    from run_front_queue [OF this no_private1] show ?thesis using ran_after [OF p1] by blast
  next
    case True
    then obtain q where q: "sched_queue s1 = Task # q" ..
    obtain tw t where t: "run_the_task (lua_env strerror answers) u (s1\<lparr>sched_queue := q\<rparr>) = (tw, t)" by (rule prod.exhaust)
    note k = task_step [OF t no_private1 q]
    then obtain ds where p2: "polled answers ds s1 t" by blast
    note res' = res [unfolded q list.case entry.case t Let_def prod.case]
    show ?thesis
    proof (cases "\<exists>q. sched_queue t = Task # q")
      case True
      then have "n = 0" "\<not> threw" "s' = (if \<not> one_thread t then snd (maybe_unlock_and_signal_one t) else t)"
        using res' k by auto
      moreover from this have "ran strerror answers n t s'" by (simp add: ran_same)
      ultimately show ?thesis using ran_after [OF polled_trans [OF p1 p2]] by blast
    next
      case False
      then have "run_front (lua_env strerror answers) t = (n, threw, s')" using res' k unfolding no_task_case [OF False] by simp
      from run_front_queue [OF this] show ?thesis using k ran_after [OF polled_trans [OF p1 p2]] by blast
    qed
  qed
qed

text \<open>The functions of \<open>io_context\<close> that \<open>asio_get\<close> calls.\<close>

lemma enter_leave: "no_private (enter s)" "agree s (enter s)" "agree t (leave t)"
  by (simp_all add: no_private_def agree_def enter_def leave_def Let_def top_info_def)

lemma run_one_queue:
  fixes s :: "lua_sched"
  assumes r: "run_one (lua_env strerror answers) s = Some (n, threw, s')"
  shows "\<not> threw \<and> ran strerror answers n s s'"
proof (cases "outstanding_work s = 0")
  case True
  then show ?thesis using r by (auto simp: run_one_def intro: ran_same)
next
  case False
  then obtain t where t: "do_run_one (lua_env strerror answers) (enter s) = Some (n, threw, t)" "s' = leave t"
    using r by (auto simp: run_one_def leave_result_def)
  then show ?thesis using do_run_one_queue [OF t(1) enter_leave(1)] agree_ran [OF enter_leave(2,3)] by blast
qed

lemma wait_one_queue:
  fixes s :: "lua_sched"
  assumes r: "wait_one (lua_env strerror answers) usec s = (n, threw, s')"
  shows "\<not> threw \<and> ran strerror answers n s s'"
proof (cases "outstanding_work s = 0")
  case True
  then show ?thesis using r by (auto simp: wait_one_def intro: ran_same)
next
  case False
  obtain m tw t where t: "do_wait_one (lua_env strerror answers) usec (enter s) = (m, tw, t)" by (rule prod_cases3)
  then have eqs: "n = m" "threw = tw" "s' = leave t" using r False by (auto simp: wait_one_def leave_result_def)
  show ?thesis using do_wait_one_queue [OF t enter_leave(1)] agree_ran [OF enter_leave(2,3)] unfolding eqs by blast
qed

lemma run_one_until_ok:
  fixes s :: "lua_sched"
  assumes r: "run_one_until (lua_env strerror answers) clock abs_time now s = Some (n, threw, s')"
    and ok: "app_ok 0 0 False s"
  shows "\<not> threw \<and> ran strerror answers n s s' \<and> app_ok 0 0 False s' \<and> length (stack s') = length (stack s)"
proof -
  let ?P = "\<lambda>E' clock abs_time now s r. E' = lua_env strerror answers \<longrightarrow> app_ok 0 0 False s \<longrightarrow>
    \<not> fst (snd r) \<and> ran strerror answers (fst r) s (snd (snd r)) \<and> app_ok 0 0 False (snd (snd r))
    \<and> length (stack (snd (snd r))) = length (stack s)"
  have "?P (lua_env strerror answers) clock abs_time now s (n, threw, s')"
  proof (rule run_one_until.raw_induct [OF _ r, of ?P], intro impI)
    fix f :: "(completion, app) sched_env \<Rightarrow> (app \<Rightarrow> int) \<Rightarrow> int \<Rightarrow> int \<Rightarrow> lua_sched
      \<Rightarrow> (completion, app) run_result option" and E' clock abs_time now s r
    assume ih: "\<And>E' clock abs_time now s r. f E' clock abs_time now s = Some r \<Longrightarrow> ?P E' clock abs_time now s r"
      and body: "(if now < abs_time then
        (let rel_time = min (abs_time - now) 1000000000;
             (n, threw, s) = wait_one E' (rel_time div 1000) s
         in if threw then Some (0, True, s)
            else if n \<noteq> 0 then Some (n, False, s)
            else let (st, s) = is_stopped s
                 in if st then Some (n, False, s) else f E' clock abs_time (clock (world s)) s)
      else Some (0, False, s)) = Some r"
      and E': "E' = lua_env strerror answers" and ok: "app_ok 0 0 False s"
    show "\<not> fst (snd r) \<and> ran strerror answers (fst r) s (snd (snd r)) \<and> app_ok 0 0 False (snd (snd r))
      \<and> length (stack (snd (snd r))) = length (stack s)"
    proof (cases "now < abs_time")
      case False
      then show ?thesis using body ok by (auto intro: ran_same)
    next
      case True
      obtain m tw t where t: "wait_one (lua_env strerror answers) (min (abs_time - now) 1000000000 div 1000) s = (m, tw, t)"
        by (rule prod_cases3)
      note q = wait_one_queue [OF t]
      have okt: "app_ok 0 0 False t" "length (stack t) = length (stack s)"
        using lua.wait_one_ok [OF t ok] by (simp_all add: finished_def)
      define t2 where "t2 = snd (is_stopped t)"
      have okt2: "app_ok 0 0 False t2" using is_stopped_ok(1) [OF okt(1)] by (simp add: t2_def)
      have same: "world t2 = world t" "stack t2 = stack t" "sched_queue t2 = sched_queue t"
        by (simp_all add: t2_def is_stopped_def Let_def)
      then have agr: "agree t t2" "agree s s" by (simp_all add: agree_def)
      have isst: "is_stopped t = (stopped t, t2)"
        unfolding t2_def by (simp add: is_stopped_def Let_def)
      have body': "(if m \<noteq> 0 then Some (m, False, t)
          else if stopped t then Some (m, False, t2) else f (lua_env strerror answers) clock abs_time (clock (world t2)) t2) = Some r"
        using body [unfolded E'] True t q isst by (cases "m = 0"; cases "stopped t") simp_all
      have q2: "ran strerror answers m s t2" using agree_ran [OF agr(2,1)] q by blast
      show ?thesis
      proof (cases "m = 0 \<and> \<not> stopped t")
        case True
        then have "f (lua_env strerror answers) clock abs_time (clock (world t2)) t2 = Some r" using body' by simp
        moreover obtain ds where "polled answers ds s t2" using ran_0 q2 True by blast
        ultimately show ?thesis using ih [of "lua_env strerror answers" clock abs_time "clock (world t2)" t2 r] okt2 okt(2) same(2)
            ran_after by fastforce
      next
        case False
        then have "r = (m, False, t) \<or> r = (m, False, t2)" using body' by (auto split: if_splits)
        then show ?thesis using q q2 okt okt2 same(2) by auto
      qed
    qed
  qed
  then show ?thesis using ok by simp
qed

end
