(* ===== verification/LuaAsioSpec.thy ===== *)
theory LuaAsioSpec
  imports LuaAsioRun
begin

text \<open>
  The states the C++ half reaches through its C interface, their invariant, and the properties of the
  event queue.
\<close>

section \<open>Reachable states\<close>

text \<open>Calls of the C interface by the Lua thread, in any order, with any answers of the operating system.
  \<open>asio_get\<close> counts as a step when it returns.\<close>

inductive lua_reach :: "(int \<Rightarrow> string) \<Rightarrow> lua_sched \<Rightarrow> bool" for strerror where
  init: "lua_reach strerror (new_sched hint_default new_app)"
| get: "lua_reach strerror s \<Longrightarrow> asio_get (lua_env strerror answers) clock later wait_sec s = Some (e, s')
    \<Longrightarrow> lua_reach strerror s'"
| is_stopped: "lua_reach strerror s \<Longrightarrow> asio_stopped s = (b, s') \<Longrightarrow> lua_reach strerror s'"
| new_server: "lua_reach strerror s \<Longrightarrow> asio_new_server pton4 pton6 listens ip port s = (sv, s')
    \<Longrightarrow> lua_reach strerror s'"
| delete_server: "lua_reach strerror s \<Longrightarrow> lua_reach strerror (asio_delete_server sv s)"
| connect: "lua_reach strerror s \<Longrightarrow>
    asio_new_connect pton4 pton6 resolve host port dest v6 s = Some (c, s')
    \<Longrightarrow> lua_reach strerror s'"
| connect_sockaddr: "lua_reach strerror s \<Longrightarrow> asio_new_connect_sockaddr p dest s = (c, s')
    \<Longrightarrow> lua_reach strerror s'"
| delete_connection: "lua_reach strerror s \<Longrightarrow> lua_reach strerror (asio_delete_connection c s)"
| conn_read: "lua_reach strerror s \<Longrightarrow> lua_reach strerror (asio_conn_read c sz dest s)"
| conn_read_some: "lua_reach strerror s \<Longrightarrow> lua_reach strerror (asio_conn_read_some c dest s)"
| conn_write: "lua_reach strerror s \<Longrightarrow> lua_reach strerror (asio_conn_write c txt sz dest s)"
| conn_close: "lua_reach strerror s \<Longrightarrow> lua_reach strerror (asio_conn_close c s)"
| original_dst: "lua_reach strerror s \<Longrightarrow> asio_get_original_dst dst6 dst4 c s = (p, s') \<Longrightarrow> lua_reach strerror s'"
| sleep: "lua_reach strerror s \<Longrightarrow> lua_reach strerror (asio_sleep dest msec s)"

definition lua_inv :: "lua_sched \<Rightarrow> bool" where
  "lua_inv s \<longleftrightarrow> app_ok 0 0 False s \<and> stack s = [] \<and> length (evq s) \<le> 1"

lemma max_evt: "n \<le> 1 \<Longrightarrow> n + 2 \<le> MAX_EVT_MSG"
  by (simp add: MAX_EVT_MSG_def)

text \<open>Interface calls other than \<open>asio_get\<close> push no event.\<close>

lemma start_inv: "lua_inv s \<Longrightarrow> lua_inv (start_async rq s)"
  by (simp add: lua_inv_def start_async_ok)

lemma plain_inv [simp]:
  "lua_inv (set_undefined s) = lua_inv s" "lua_inv (close_socket c s) = lua_inv s" "lua_inv (conn_open c s) = lua_inv s"
  "lua_inv (set_read_buff c b s) = lua_inv s" "lua_inv (snd (new_connection op s)) = lua_inv s"
  by (simp_all add: lua_inv_def)

lemma do_accept_inv: "lua_inv s \<Longrightarrow> lua_inv (do_accept sv s)"
  by (simp add: do_accept_def start_inv)

lemma upd_inv:
  "lua_inv s \<Longrightarrow> pending (f (world s)) = pending (world s) \<Longrightarrow> g_evt_queue (f (world s)) = g_evt_queue (world s)
    \<Longrightarrow> lua_inv (upd_world f s)"
  by (simp add: lua_inv_def sched_ok_upd_world in_hand_def)

lemma calls_inv:
  assumes "lua_inv s"
  shows "lua_inv (asio_conn_read c sz dest s)" "lua_inv (asio_conn_read_some c dest s)"
    "lua_inv (asio_conn_write c txt sz dest s)" "lua_inv (asio_conn_close c s)" "lua_inv (asio_sleep dest msec s)"
    "lua_inv (asio_delete_connection c s)" "lua_inv (asio_delete_server sv s)"
    "lua_inv (snd (asio_new_server pton4 pton6 listens ip port s))"
    "lua_inv (snd (asio_new_connect_sockaddr p dest s))"
  using assms
  by (auto simp: asio_conn_read_def asio_conn_read_some_def asio_conn_write_def asio_conn_close_def through_def
      conn_read_def conn_read_some_def conn_write_def conn_close_def asio_sleep_def asio_delete_connection_def
      asio_delete_server_def asio_new_server_def asio_new_connect_sockaddr_def do_connect_def case_prod_beta Let_def
      intro!: start_inv do_accept_inv upd_inv split: option.splits)

text \<open>With an empty queue, one call of \<open>asio_get\<close> is one call of a run function and a look at the queue.\<close>

definition take_front :: "lua_sched \<Rightarrow> event_message option \<times> lua_sched" where
  "take_front s = (case evq s of [] \<Rightarrow> (None, s)
     | e # q \<Rightarrow> (Some e, upd_world (\<lambda>a. a\<lparr>g_evt_queue := q\<rparr>) s))"

lemma asio_get_polls:
  assumes inv: "lua_inv s" and empty: "evq s = []"
    and r: "asio_get (lua_env strerror answers) clock later wait_sec s = Some (e, s')"
  shows "\<exists>n u. ran strerror answers n s u \<and> app_ok 0 0 False u \<and> stack u = [] \<and> take_front u = (e, s')"
proof -
  have inv': "app_ok 0 0 False s" "stack s = []" using inv by (simp_all add: lua_inv_def)
  define t where "t = (let (st, s) = is_stopped s in if st then restart s else s)"
  have t: "app_ok 0 0 False t" "stack t = []" "agree s t"
    using is_stopped_ok(1) [OF inv'(1)] restart_ok inv'(2)
    by (auto simp: t_def is_stopped_def agree_def Let_def)
  define x where "x = (if wait_sec < 0 then run_one (lua_env strerror answers) t
    else run_one_for (lua_env strerror answers) clock later (wait_sec * 1000000000) t)"
  have eq: "asio_get (lua_env strerror answers) clock later wait_sec s = (case x of None \<Rightarrow> None
    | Some (n, threw, s) \<Rightarrow> if threw then Some (None, s) else Some (take_front s))"
  proof -
    have "asio_get (lua_env strerror answers) clock later wait_sec s = (case x of None \<Rightarrow> None
      | Some (n, threw, s) \<Rightarrow> if threw then Some (None, s) else (case evq s of [] \<Rightarrow> Some (None, s)
         | e # q \<Rightarrow> Some (Some e, upd_world (\<lambda>a. a\<lparr>g_evt_queue := q\<rparr>) s)))"
      using empty unfolding asio_get_def x_def t_def by (simp add: case_prod_beta)
    also have "\<dots> = (case x of None \<Rightarrow> None
      | Some (n, threw, s) \<Rightarrow> if threw then Some (None, s) else Some (take_front s))"
      by (intro arg_cong [of _ _ "\<lambda>f. case_option None f x"] ext) (auto simp: take_front_def split: list.splits)
    finally show ?thesis .
  qed
  obtain n threw u where x: "x = Some (n, threw, u)"
  proof (cases x)
    case (Some y)
    then show ?thesis using that by (cases y) auto
  qed (use r eq in simp)
  have ok: "\<not> threw \<and> ran strerror answers n t u \<and> app_ok 0 0 False u \<and> length (stack u) = length (stack t)"
  proof (cases "wait_sec < 0")
    case True
    then have x': "run_one (lua_env strerror answers) t = Some (n, threw, u)" using x by (simp add: x_def)
    then show ?thesis using run_one_queue [OF x'] lua.run_one_ok [OF x' t(1)] by (simp add: finished_def)
  next
    case False
    then have "run_one_until (lua_env strerror answers) clock (clock (world t) + wait_sec * 1000000000)
        (clock (world t) + later) t = Some (n, threw, u)"
      using x by (simp add: x_def run_one_for_def)
    then show ?thesis by (rule run_one_until_ok [OF _ t(1)])
  qed
  have res: "take_front u = (e, s')" using r eq x ok by simp
  have "agree u u" by (simp add: agree_def)
  then have ran: "ran strerror answers n s u" using agree_ran [OF t(3)] ok by blast
  have st: "stack u = []" using ok t(2) by simp
  from ran ok st res show ?thesis by blast
qed

lemma asio_get_pops:
  assumes "evq s = x # q"
  shows "asio_get (lua_env strerror answers) clock later wait_sec s
    = Some (Some x, upd_world (\<lambda>a. a\<lparr>g_evt_queue := q\<rparr>) s)"
  using assms by (simp add: asio_get_def)

lemma take_front_inv:
  assumes "take_front t = (e, s')" "app_ok 0 0 False t" "stack t = []" "length (evq t) \<le> 2"
  shows "lua_inv s'"
  using assms
  by (cases "evq t") (auto simp: take_front_def lua_inv_def sched_ok_upd_world in_hand_def)

lemma asio_get_inv:
  assumes inv: "lua_inv s" and r: "asio_get (lua_env strerror answers) clock later wait_sec s = Some (e, s')"
  shows "lua_inv s'"
proof (cases "evq s")
  case (Cons x q)
  have "take_front s = (e, s')" using asio_get_pops [OF Cons] r by (simp add: take_front_def Cons)
  then show ?thesis by (rule take_front_inv) (use inv in \<open>simp_all add: lua_inv_def\<close>)
next
  case Nil
  obtain n u where "ran strerror answers n s u" "app_ok 0 0 False u" "stack u = []" "take_front u = (e, s')"
    using asio_get_polls [OF inv Nil r] by blast
  then show ?thesis using take_front_inv ran_length [of strerror answers n s u] max_evt Nil by simp
qed

lemma init_inv: "lua_inv (new_sched hint_default new_app :: lua_sched)"
proof -
  have "stack (new_sched hint_default new_app :: lua_sched) = []" "evq (new_sched hint_default new_app) = []"
    by (simp_all add: new_sched_def new_app_def)
  moreover have "app_ok 0 0 False (new_sched hint_default new_app)"
    by (rule new_sched_ok) (simp add: in_hand_def new_app_def)
  ultimately show ?thesis by (simp add: lua_inv_def)
qed

lemma asio_stopped_inv:
  assumes "lua_inv s"
  shows "lua_inv (snd (asio_stopped s))"
proof -
  have "stack (snd (Scheduler.is_stopped s)) = stack s" "world (snd (Scheduler.is_stopped s)) = world s"
    by (simp_all add: is_stopped_def Let_def)
  then show ?thesis using assms is_stopped_ok(1) [of in_hand 0 0 s] by (simp add: lua_inv_def asio_stopped_def)
qed

lemma asio_get_original_dst_inv: "lua_inv s \<Longrightarrow> lua_inv (snd (asio_get_original_dst dst6 dst4 c s))"
  by (simp add: asio_get_original_dst_def)

lemma asio_new_connect_inv:
  assumes "lua_inv s" "asio_new_connect pton4 pton6 resolve host port dest v6 s = Some (c, s')"
  shows "lua_inv s'"
proof -
  let ?oep = "case address_from_string pton4 pton6 host of Some addr \<Rightarrow> Some (endpoint_of_address addr port)
    | None \<Rightarrow> map_option (choose_endpoint v6 endpoint_default) (resolve host (decimal (unat port)))"
  obtain ep where "?oep = Some ep" using assms(2) unfolding asio_new_connect_def by (cases ?oep) simp_all
  then have "s' = do_connect c ep dest (snd (new_connection False s))"
    using assms(2) unfolding asio_new_connect_def by (auto simp: case_prod_beta)
  then show ?thesis using assms(1) by (simp add: do_connect_def start_inv)
qed

lemma lua_reach_inv: "lua_reach strerror s \<Longrightarrow> lua_inv s"
proof (induction rule: lua_reach.induct)
  case init
  show ?case by (rule init_inv)
next
  case (get s answers clock later wait_sec e s')
  show ?case by (rule asio_get_inv [OF get(3) get(2)])
next
  case (is_stopped s b s')
  then show ?case using asio_stopped_inv [of s] by simp
next
  case (new_server s pton4 pton6 listens ip port sv s')
  then show ?case using calls_inv(8) [of s pton4 pton6 listens ip port] by simp
next
  case (connect_sockaddr s p dest c s')
  then show ?case using calls_inv(9) [of s p dest] by simp
next
  case (connect s pton4 pton6 resolve host port dest v6 c s')
  show ?case by (rule asio_new_connect_inv [OF connect(3) connect(2)])
next
  case (original_dst s dst6 dst4 c p s')
  then show ?case using asio_get_original_dst_inv [of s dst6 dst4 c] by simp
qed (rule calls_inv, assumption)+

lemma default_sched:
  "new_sched hint_default w = \<lparr>one_thread = False, mutex_enabled = True, locked = False, lock_error = False,
     event_state = 0, has_task = False, task_interrupted = True, interrupts = 0, outstanding_work = 0,
     sched_queue = [], task_result = (\<lambda>_. 0), stopped = False, shut_down_flag = False, stack = [], world = w\<rparr>"
proof -
  have "hint_is_locking hint_locking_scheduler hint_default" "hint_is_locking hint_locking_reactor_io hint_default"
    "hint_default \<noteq> 1"
    by code_simp+
  then show ?thesis by (simp add: new_sched_def)
qed

lemma after_start:
  "sched_queue (start_async rq (new_sched hint_default new_app)) = [Task]"
  "evq (start_async rq (new_sched hint_default new_app)) = []"
  "pending (world (start_async rq (new_sched hint_default new_app))) = [rq]"
  by (simp_all add: start_async_def default_sched init_task_def work_started_def acquire_def Let_def new_app_def)

section \<open>The event queue\<close>

text \<open>C3: In every state the program reaches through its C interface, at most one event waits in the queue
  between two calls, and any handler appends exactly the events of its completion: the loop of
  \<open>push_event\<close> that drops the oldest event never drops one. The count of outstanding work is the number of
  pending requests and queued completions, and the mutex is never misused.\<close>

theorem event_queue_never_overflows:
  assumes "lua_reach strerror s"
  shows "length (g_evt_queue (world s)) \<le> 1
    \<and> g_evt_queue (world (handle strerror cp s)) = g_evt_queue (world s) @ events_of strerror (world s) cp
    \<and> length (g_evt_queue (world (handle strerror cp s))) \<le> 3
    \<and> outstanding_work s = int (length (pending (world s))) + nops (sched_queue s)
    \<and> \<not> locked s \<and> \<not> lock_error s"
proof -
  have inv: "app_ok 0 0 False s" "stack s = []" and len: "length (evq s) \<le> 1"
    using lua_reach_inv [OF assms] by (simp_all add: lua_inv_def)
  have h: "evq (handle strerror cp s) = evq s @ events_of strerror (world s) cp"
    by (rule handle_events [OF max_evt [OF len]])
  have "outstanding_work s = int (length (pending (world s))) + nops (sched_queue s)"
    using sched_okD(1) [OF inv(1)] inv(2) by (simp add: ledger_def in_hand_def)
  then show ?thesis using h len events_of_length [of strerror "world s" cp] sched_okD(4) [OF inv(1)]
    by (simp add: hold_def)
qed

theorem event_queue_never_overflows_witness:
  "g_evt_queue (world (handle (\<lambda>_. []) (Completion (AsyncWait 100 7) ec_success 0 [])
      (asio_sleep 7 100 (new_sched hint_default new_app)))) = [evt 7 None []]
    \<and> outstanding_work (asio_sleep 7 100 (new_sched hint_default new_app)) = 1"
proof -
  have r: "lua_reach (\<lambda>_. []) (asio_sleep 7 100 (new_sched hint_default new_app))"
    by (rule lua_reach.sleep [OF lua_reach.init])
  show ?thesis
    using event_queue_never_overflows [OF r, of "Completion (AsyncWait 100 7) ec_success 0 []"]
      after_start [of "AsyncWait 100 7"]
    by (simp add: asio_sleep_def del: start_async_fields)
qed

text \<open>C4: \<open>asio_get\<close> delivers events first in, first out, and none is lost or made up. A waiting event is
  returned at once, without running anything. With an empty queue the call polls and runs at most one handler.
  Polling moves answered requests, and only those, from the requests in progress to the end of the
  \<open>io_context\<close>'s queue, each request once, and changes nothing else. If no handler runs, the call returns nothing
  and that is all that happened. Otherwise exactly one completion leaves the queue, the first one; the state
  afterwards is the one its handler makes, except that the first event of that completion has been taken off and
  returned (nothing is returned if it has no event) and its other events wait.\<close>

theorem asio_get_correct:
  assumes "lua_reach strerror s" "asio_get (lua_env strerror answers) clock later wait_sec s = Some (e, s')"
  shows "case g_evt_queue (world s) of
      x # q \<Rightarrow> e = Some x \<and> s' = upd_world (\<lambda>a. a\<lparr>g_evt_queue := q\<rparr>) s
    | [] \<Rightarrow> \<exists>ds. e = None \<and> polled answers ds s s'
        \<or> (\<exists>t cp. polled answers ds s t \<and> completions_in (sched_queue t) = cp # completions_in (sched_queue s')
            \<and> (case events_of strerror (world s) cp of
                 [] \<Rightarrow> e = None \<and> world s' = world (handle strerror cp t)
               | x # rest \<Rightarrow> e = Some x \<and> world s' = (world (handle strerror cp t))\<lparr>g_evt_queue := rest\<rparr>))"
proof (cases "evq s")
  case (Cons x q)
  then show ?thesis using asio_get_pops [OF Cons] assms(2) by simp
next
  case Nil
  obtain n u where u: "ran strerror answers n s u" "take_front u = (e, s')"
    using asio_get_polls [OF lua_reach_inv [OF assms(1)] Nil assms(2)] by blast
  from u(1) obtain ds where "n = 0 \<and> polled answers ds s u \<or> n = 1 \<and> (\<exists>t cp. polled answers ds s t \<and>
      completions_in (sched_queue t) = cp # completions_in (sched_queue u) \<and> world u = world (handle strerror cp t))"
    unfolding ran_def by blast
  then show ?thesis
  proof (elim disjE conjE exE)
    assume p: "polled answers ds s u"
    then have "evq u = []" using polled_events(2) [OF p] Nil by simp
    then show ?thesis using u(2) Nil p by (auto simp: take_front_def)
  next
    fix t cp
    assume p: "polled answers ds s t" and q: "completions_in (sched_queue t) = cp # completions_in (sched_queue u)"
      and w: "world u = world (handle strerror cp t)"
    have "evq u = events_of strerror (world s) cp"
      using handle_events [of t strerror cp] polled_events [OF p] Nil max_evt [of 0] w by simp
    then have "completions_in (sched_queue s') = completions_in (sched_queue u)" "case events_of strerror (world s) cp of
        [] \<Rightarrow> e = None \<and> world s' = world (handle strerror cp t)
      | x # rest \<Rightarrow> e = Some x \<and> world s' = (world (handle strerror cp t))\<lparr>g_evt_queue := rest\<rparr>"
      using u(2) w by (auto simp: take_front_def split: list.splits)
    then show ?thesis using p q Nil by auto
  qed
qed

text \<open>With a timeout of zero \<open>asio_get\<close> never polls: whatever has completed, it runs no handler, does not
  enter the reactor and delivers nothing new, because \<open>run_one_until\<close> compares the clock with the deadline
  before its first poll.\<close>

theorem asio_get_zero_never_polls:
  assumes "g_evt_queue (world s) = []" "0 \<le> later"
  shows "\<exists>s'. asio_get E clock later 0 s = Some (None, s')
    \<and> world s' = world s \<and> sched_queue s' = sched_queue s \<and> outstanding_work s' = outstanding_work s"
proof -
  define t where "t = (let (st, s) = is_stopped s in if st then restart s else s)"
  have t: "world t = world s" "sched_queue t = sched_queue s" "outstanding_work t = outstanding_work s"
    by (auto simp: t_def is_stopped_def restart_def Let_def)
  have "run_one_for E clock later 0 t = Some (0, False, t)"
    unfolding run_one_for_def by (subst run_one_until.simps) (use assms(2) in simp)
  then have "asio_get E clock later 0 s = Some (None, t)"
    using assms(1) t(1) unfolding asio_get_def by (simp add: t_def case_prod_beta Let_def split: list.splits)
  then show ?thesis using t by blast
qed

theorem asio_get_zero_never_polls_witness:
  "\<exists>s'. asio_get (lua_env (\<lambda>_. []) (\<lambda>_ _. [Completion (AsyncWait 100 7) ec_success 0 []])) (\<lambda>_. 5) 0 0
      (asio_sleep 7 100 (new_sched hint_default new_app)) = Some (None, s')
    \<and> pending (world s') = [AsyncWait 100 7] \<and> sched_queue s' = [Task]"
proof -
  let ?s = "asio_sleep 7 100 (new_sched hint_default new_app)"
  have q: "g_evt_queue (world ?s) = []" "pending (world ?s) = [AsyncWait 100 7]" "sched_queue ?s = [Task]"
    unfolding asio_sleep_def by (rule after_start)+
  show ?thesis
    using asio_get_zero_never_polls [OF q(1), of 0 "lua_env (\<lambda>_. []) (\<lambda>_ _. [Completion (AsyncWait 100 7) ec_success 0 []])" "\<lambda>_. 5"]
    by (auto simp: q)
qed

end
