(* ===== verification/ConnectSpec.thy ===== *)
theory ConnectSpec
  imports LuaAsioSpec
begin

text \<open>
  Which endpoint a new connection goes to, and what a completed accept does before and after its server
  is deleted.
\<close>

lemma choose_v4: "choose_endpoint False ep rs = last (ep # rs)"
  by (induction rs arbitrary: ep) auto

lemma choose_v6:
  "choose_endpoint True ep rs =
     (case filter (\<lambda>e. address_is_v6 (endpoint_address e)) rs of e # _ \<Rightarrow> e | [] \<Rightarrow> last (ep # rs))"
  by (induction rs arbitrary: ep) (auto split: list.split)

text \<open>Where \<open>asio_new_connect\<close> connects to. A textual address is used as it is. For a host name with
  \<open>v6\<close> set, it is the resolver's first IPv6 endpoint, or its last endpoint if there is none; with \<open>v6\<close> not
  set it is the last endpoint whatever its family, so it may be an IPv6 one although an IPv4 one was found;
  and if the resolver finds nothing without an error, it is port 0 of the unspecified address.\<close>

theorem asio_new_connect_endpoint:
  assumes "asio_new_connect pton4 pton6 resolve host port dest v6 s = Some (c, s')"
  shows "\<exists>ep. pending (world s') = pending (world s) @ [AsyncConnect c ep dest] \<and>
    (case address_from_string pton4 pton6 host of
       Some addr \<Rightarrow> endpoint_address ep = addr \<and> endpoint_port ep = port
     | None \<Rightarrow> (\<exists>rs. resolve host (decimal (unat port)) = Some rs \<and>
         ep = (if v6 \<and> (\<exists>e \<in> set rs. address_is_v6 (endpoint_address e))
               then hd (filter (\<lambda>e. address_is_v6 (endpoint_address e)) rs)
               else last (endpoint_default # rs))))"
proof -
  let ?oep = "case address_from_string pton4 pton6 host of Some addr \<Rightarrow> Some (endpoint_of_address addr port)
    | None \<Rightarrow> map_option (choose_endpoint v6 endpoint_default) (resolve host (decimal (unat port)))"
  obtain ep where ep: "?oep = Some ep" using assms unfolding asio_new_connect_def by (cases ?oep) simp_all
  then have s': "s' = do_connect c ep dest (snd (new_connection False s))"
    using assms unfolding asio_new_connect_def by (auto simp: case_prod_beta)
  have p: "pending (world s') = pending (world s) @ [AsyncConnect c ep dest]"
    unfolding s' by (simp add: do_connect_def new_connection_def Let_def)
  have chosen: "choose_endpoint v6 endpoint_default rs
    = (if v6 \<and> (\<exists>e \<in> set rs. address_is_v6 (endpoint_address e))
       then hd (filter (\<lambda>e. address_is_v6 (endpoint_address e)) rs) else last (endpoint_default # rs))" for rs
    by (cases v6; cases "filter (\<lambda>e. address_is_v6 (endpoint_address e)) rs")
      (auto simp: choose_v4 choose_v6 filter_empty_conv dest: filter_eq_ConsD)
  show ?thesis
  proof (cases "address_from_string pton4 pton6 host")
    case (Some addr)
    then show ?thesis using p ep endpoint_of_address_roundtrip [of addr port] by auto
  next
    case None
    then obtain rs where "resolve host (decimal (unat port)) = Some rs" "ep = choose_endpoint v6 endpoint_default rs"
      using ep by auto
    then show ?thesis using p None unfolding chosen by (intro exI [of _ ep]) simp
  qed
qed

text \<open>The host name has an IPv4 and an IPv6 address, and the caller asked for no IPv6.\<close>

theorem asio_new_connect_endpoint_witness:
  "\<exists>c s' ep. asio_new_connect (\<lambda>_. Inl (basic_ec invalid_argument)) (\<lambda>_. Inl (basic_ec invalid_argument))
      (\<lambda>_ _. Some [endpoint_of_address (IPv4 v4_loopback) 80, endpoint_of_address (IPv6 v6_loopback) 80])
      ''localhost'' 80 1 False (new_sched hint_default new_app) = Some (c, s')
    \<and> pending (world s') = [AsyncConnect c ep 1] \<and> address_is_v6 (endpoint_address ep)"
proof -
  let ?p = "\<lambda>_. Inl (basic_ec invalid_argument)"
  let ?r = "\<lambda>_ _. Some [endpoint_of_address (IPv4 v4_loopback) 80, endpoint_of_address (IPv6 v6_loopback) 80]"
  have none: "address_from_string ?p ?p ''localhost'' = None"
    by (simp add: address_from_string_def make_address_def make_address_v6_def make_address_v4_def Let_def)
  then obtain c s' where r: "asio_new_connect ?p ?p ?r ''localhost'' 80 1 False (new_sched hint_default new_app) = Some (c, s')"
    by (auto simp: asio_new_connect_def case_prod_beta)
  have "pending (world (new_sched hint_default new_app)) = []" by (simp add: new_sched_def new_app_def)
  then show ?thesis using asio_new_connect_endpoint [OF r] r none by auto
qed

text \<open>Connecting to the bytes of a socket address connects to the same address and port, except that the
  scope of an IPv6 address is dropped.\<close>

theorem asio_new_connect_sockaddr_endpoint:
  "\<exists>c s' ep. asio_new_connect_sockaddr p dest s = (c, s')
    \<and> pending (world s') = pending (world s) @ [AsyncConnect c ep dest]
    \<and> endpoint_port ep = endpoint_port p
    \<and> endpoint_address ep = (case endpoint_address p of IPv4 a \<Rightarrow> IPv4 a | IPv6 a \<Rightarrow> IPv6 (a\<lparr>scope_id := 0\<rparr>))"
proof -
  obtain c s1 where n: "new_connection False s = (c, s1)" by (rule prod.exhaust)
  then have s1: "s1 = snd (new_connection False s)" by simp
  have p1: "pending (world s1) = pending (world s)" by (simp add: s1 new_connection_def Let_def)
  show ?thesis
    by (cases p) (simp_all add: asio_new_connect_sockaddr_def n do_connect_def p1 endpoint_port_def v6_of_bytes_def)
qed

text \<open>C37: A completed accept and its server. While the server lives, a successful accept hands the new
  connection to Lua and listens again, an aborted one ends the loop, and any other error listens again.
  Once the server is deleted an aborted accept is harmless, but any other completion of it that is already
  queued uses the freed server.\<close>

theorem accept_and_deleted_server:
  assumes "servers (world s) sv = Some port" "length (g_evt_queue (world s)) + 2 \<le> MAX_EVT_MSG"
    and "\<not> undefined_behaviour (world s)"
  shows "(let s' = handle strerror (Completion (AsyncAccept sv) ec n d) s
      in \<not> undefined_behaviour (world s')
         \<and> (if ec = basic_ec operation_aborted then s' = s
            else pending (world s') = pending (world s) @ [AsyncAccept sv])
         \<and> g_evt_queue (world s') = g_evt_queue (world s) @ (if failed ec then []
              else [\<lparr>ev_type = EVT_ACCEPT, dest_id = port, source = Some (next_id (world s)), ev_data = []\<rparr>]))
    \<and> (undefined_behaviour (world (handle strerror (Completion (AsyncAccept sv) ec n d) (asio_delete_server sv s)))
        \<longleftrightarrow> ec \<noteq> basic_ec operation_aborted)"
proof -
  obtain c s1 where n: "new_connection True s = (c, s1)" by (rule prod.exhaust)
  then have s1: "s1 = snd (new_connection True s)" "c = next_id (world s)" by (auto simp: new_connection_def Let_def)
  have u: "undefined_behaviour (world (start_async rq t)) = undefined_behaviour (world t)" for rq t by simp
  have alive: "undefined_behaviour (world (handle strerror (Completion (AsyncAccept sv) ec n d) s)) = False"
    "ec = basic_ec operation_aborted \<Longrightarrow> handle strerror (Completion (AsyncAccept sv) ec n d) s = s"
    "ec \<noteq> basic_ec operation_aborted \<Longrightarrow>
      pending (world (handle strerror (Completion (AsyncAccept sv) ec n d) s)) = pending (world s) @ [AsyncAccept sv]"
    using assms(1,3)
    by (auto simp: handle_def on_accept_def new_connection_def Let_def do_accept_def push_event_def)
  have dead: "undefined_behaviour (world (handle strerror (Completion (AsyncAccept sv) ec n d) (asio_delete_server sv s)))
      \<longleftrightarrow> ec \<noteq> basic_ec operation_aborted"
    using assms(3)
    by (auto simp: handle_def on_accept_def new_connection_def Let_def do_accept_def set_undefined_def asio_delete_server_def)
  show ?thesis using alive dead handle_events [OF assms(2), of strerror "Completion (AsyncAccept sv) ec n d"] assms(1)
    by (auto simp: Let_def)
qed

theorem accept_and_deleted_server_witness:
  "undefined_behaviour (world (handle (\<lambda>_. []) (Completion (AsyncAccept 0) ec_success 0 [])
     (asio_delete_server 0 ((new_sched hint_default new_app)\<lparr>world := new_app\<lparr>servers := [0 \<mapsto> 80]\<rparr>\<rparr>))))"
proof -
  let ?s = "(new_sched hint_default new_app)\<lparr>world := new_app\<lparr>servers := [0 \<mapsto> 80]\<rparr>\<rparr> :: lua_sched"
  have "servers (world ?s) 0 = Some 80" "length (g_evt_queue (world ?s)) + 2 \<le> MAX_EVT_MSG" "\<not> undefined_behaviour (world ?s)"
    by (simp_all add: new_app_def MAX_EVT_MSG_def)
  from accept_and_deleted_server [OF this, of "\<lambda>_. []" ec_success 0 "[]"] show ?thesis by simp
qed

end
