(* ===== verification/LuaLastOp.thy ===== *)
theory LuaLastOp
  imports LuaAsioSpec
begin

text \<open>
  \<open>asio_get\<close> when one operation is in progress and completes: run through the scheduler step by step.
\<close>

lemma do_run_one_task: "\<not> stopped s \<Longrightarrow> sched_queue s = Task # q \<Longrightarrow>
    run_the_task E (-1) (s\<lparr>sched_queue := q\<rparr>) = (False, s') \<Longrightarrow>
    do_run_one E s = do_run_one E s'"
  by (subst do_run_one.simps) simp

lemma do_run_one_op: "\<not> stopped s \<Longrightarrow> sched_queue s = Op opn # q \<Longrightarrow>
    do_run_one E s = Some (run_op E opn (s\<lparr>sched_queue := q\<rparr>))"
  by (subst do_run_one.simps) simp

lemma upd_top_stack: "stack s = t # ts \<Longrightarrow> stack (upd_top f s) = f t # ts"
  by (simp add: upd_top_def)

lemma stopped_stop: "stopped (stop s)" "\<not> stopped (restart s)"
  by (simp_all add: stop_def stop_all_threads_def restart_def interrupt_task_def)

abbreviation "blank \<equiv> \<lparr>private_op_queue = [], private_outstanding_work = 0\<rparr>"

lemma take_answer:
  fixes s :: lua_sched
  assumes "answers (-1) (world s) = [cp]" "pending (world s) = [for_request cp]" "stack s = [blank]" "sched_queue s = []"
  shows "\<exists>t. run_the_task (lua_env strerror answers) (-1) s = (False, t)
    \<and> stack t = [blank] \<and> sched_queue t = [Op cp, Task] \<and> outstanding_work t = outstanding_work s \<and> stopped t = stopped s
    \<and> world t = (world s)\<lparr>pending := []\<rparr>"
  using assms by (simp add: run_the_task_def lua_env_def Let_def task_cleanup_def top_info_def push_private_def upd_top_stack)

definition not_accept :: "completion \<Rightarrow> bool" where
  "not_accept cp \<longleftrightarrow> (case for_request cp of AsyncAccept sv \<Rightarrow> False | _ \<Rightarrow> True)"

lemma plain_fields [simp]:
  "outstanding_work (push_event ty dest src txt s) = outstanding_work s" "sched_queue (push_event ty dest src txt s) = sched_queue s"
  "stopped (push_event ty dest src txt s) = stopped s" "pending (world (push_event ty dest src txt s)) = pending (world s)"
  "outstanding_work (close_socket c s) = outstanding_work s" "sched_queue (close_socket c s) = sched_queue s"
  "stopped (close_socket c s) = stopped s" "pending (world (close_socket c s)) = pending (world s)"
  "outstanding_work (set_read_buff c b s) = outstanding_work s" "sched_queue (set_read_buff c b s) = sched_queue s"
  "stopped (set_read_buff c b s) = stopped s" "pending (world (set_read_buff c b s)) = pending (world s)"
  by (simp_all add: push_event_def close_socket_def set_read_buff_def)

lemma handle_plain:
  assumes "not_accept cp"
  shows "outstanding_work (handle strerror cp s) = outstanding_work s" "sched_queue (handle strerror cp s) = sched_queue s"
    "stopped (handle strerror cp s) = stopped s" "pending (world (handle strerror cp s)) = pending (world s)"
    "stack (handle strerror cp s) = stack s"
  using assms
  by (cases cp; cases "for_request cp"; simp add: not_accept_def handle_def on_connect_def on_write_def on_read_def
      on_read_some_def on_timer_def Let_def)+

lemma events_of_plain: "not_accept cp \<Longrightarrow> events_of strerror a cp \<noteq> []"
  by (cases "(strerror, a, cp)" rule: events_of.cases) (auto simp: not_accept_def)

lemma run_last_op:
  fixes s :: lua_sched
  assumes "stack s = [blank]" "outstanding_work s = 1" "not_accept cp" "length (evq s) + 2 \<le> MAX_EVT_MSG"
  shows "\<exists>t. run_op (lua_env strerror answers) cp s = (1, False, t)
    \<and> stack t = [blank] \<and> sched_queue t = sched_queue s \<and> outstanding_work t = 0 \<and> stopped t
    \<and> pending (world t) = pending (world s) \<and> evq t = evq s @ events_of strerror (world s) cp"
proof -
  define s1 where "s1 = (if sched_queue s \<noteq> [] \<and> \<not> one_thread s then wake_one_thread_and_unlock s else unlock s)"
  have s1: "stack s1 = stack s" "outstanding_work s1 = outstanding_work s" "world s1 = world s" "sched_queue s1 = sched_queue s"
    by (simp_all add: s1_def)
  define h where "h = handle strerror cp s1"
  have h: "stack h = [blank]" "outstanding_work h = 1" "sched_queue h = sched_queue s" "pending (world h) = pending (world s)"
    "evq h = evq s @ events_of strerror (world s) cp"
    using assms s1 handle_events [of s1 strerror cp] unfolding h_def by (simp_all add: handle_plain)
  have "run_op (lua_env strerror answers) cp s = (1, False, work_cleanup h)"
    unfolding run_op_def Let_def s1_def [symmetric] h_def by (simp add: lua_env_def)
  moreover have "stack (work_cleanup h) = [blank]" "sched_queue (work_cleanup h) = sched_queue s"
    "outstanding_work (work_cleanup h) = 0" "stopped (work_cleanup h)" "world (work_cleanup h) = world h"
    by (simp_all add: work_cleanup_def work_finished_def Let_def h top_info_def upd_top_stack stopped_stop)
  ultimately show ?thesis using h by simp
qed

text \<open>The one operation in progress completes: \<open>asio_get\<close> returns its first event and leaves the
  \<open>io_context\<close> stopped.\<close>

lemma asio_get_last:
  fixes s :: lua_sched
  assumes inv: "lua_inv s" and empty: "evq s = []" and q: "sched_queue s = [Task]"
    and p: "pending (world s) = [for_request cp]" and a: "answers (-1) (world s) = [cp]" and n: "not_accept cp"
  shows "\<exists>x s'. asio_get (lua_env strerror answers) clock later (-1) s = Some (Some x, s')
     \<and> x # evq s' = events_of strerror (world s) cp \<and> pending (world s') = [] \<and> outstanding_work s' = 0 \<and> stopped s'"
proof -
  define t where "t = (let (st, s) = is_stopped s in if st then restart s else s)"
  have w: "outstanding_work s = 1"
    using inv p q unfolding lua_inv_def sched_ok_def ledger_def in_hand_def by auto
  have t: "stack t = []" "evq t = []" "outstanding_work t = 1" "\<not> stopped t" "world t = world s" "sched_queue t = [Task]"
    using inv w empty q by (auto simp: lua_inv_def t_def is_stopped_def Let_def stopped_stop)
  let ?E = "lua_env strerror answers"
  let ?u = "(enter t)\<lparr>sched_queue := []\<rparr>"
  have u: "stack ?u = [blank]" "world ?u = world s" "outstanding_work ?u = 1" "stopped ?u = False"
    by (simp_all add: enter_def t)
  obtain v where v: "run_the_task ?E (-1) ?u = (False, v)" "stack v = [blank]" "sched_queue v = [Op cp, Task]"
     "outstanding_work v = 1" "\<not> stopped v" "world v = (world s)\<lparr>pending := []\<rparr>"
    using take_answer [of answers ?u cp strerror] u a p by auto
  let ?v = "v\<lparr>sched_queue := [Task]\<rparr>"
  have "length (evq ?v) + 2 \<le> MAX_EVT_MSG" by (rule max_evt) (simp add: v empty)
  then obtain w where w: "run_op ?E cp ?v = (1, False, w)" "stack w = [blank]" "outstanding_work w = 0" "stopped w"
     "pending (world w) = []" "evq w = evq ?v @ events_of strerror (world ?v) cp"
    using run_last_op [of ?v cp strerror answers] v n by auto
  have ev: "evq w = events_of strerror (world s) cp"
    using n empty unfolding w by (cases "(strerror, world s, cp)" rule: events_of.cases) (simp_all add: v not_accept_def)
  have "do_run_one ?E (enter t) = do_run_one ?E v" by (rule do_run_one_task [OF _ _ v(1)]) (simp_all add: enter_def t)
  also have "\<dots> = Some (1, False, w)" using do_run_one_op [OF v(5,3)] w(1) by simp
  finally have "run_one ?E t = Some (1, False, leave w)" by (simp add: run_one_def t leave_result_def)
  moreover have "evq (leave w) = events_of strerror (world s) cp" "pending (world (leave w)) = []" "outstanding_work (leave w) = 0" "stopped (leave w)"
    by (simp_all add: leave_def Let_def ev w)
  moreover obtain x es where "events_of strerror (world s) cp = x # es"
    using events_of_plain [OF n, of strerror "world s"] by (cases "events_of strerror (world s) cp") auto
  ultimately show ?thesis
    using empty unfolding asio_get_def by (simp add: case_prod_beta t_def Let_def)
qed
text \<open>A program that sleeps once gets the event of its timer, and nothing is in progress afterwards.\<close>

theorem asio_get_correct_witness:
  "\<exists>s'. asio_get (lua_env (\<lambda>_. []) (\<lambda>_ _. [Completion (AsyncWait 100 7) ec_success 0 []])) (\<lambda>_. 0) 0 (- 1)
      (asio_sleep 7 100 (new_sched hint_default new_app)) = Some (Some (evt 7 None []), s')
    \<and> completions_in (sched_queue s') = [] \<and> pending (world s') = [] \<and> g_evt_queue (world s') = []"
proof -
  let ?s = "asio_sleep 7 100 (new_sched hint_default new_app)"
  let ?cp = "Completion (AsyncWait 100 7) ec_success 0 []"
  let ?a = "\<lambda>_ _. [?cp]"
  have r: "lua_reach (\<lambda>_. []) ?s" by (rule lua_reach.sleep [OF lua_reach.init])
  have q: "evq ?s = []" "sched_queue ?s = [Task]" "pending (world ?s) = [AsyncWait 100 7]"
    unfolding asio_sleep_def by (rule after_start)+
  obtain x s' where g: "asio_get (lua_env (\<lambda>_. []) ?a) (\<lambda>_. 0) 0 (- 1) ?s = Some (Some x, s')"
    using asio_get_last [OF lua_reach_inv [OF r] q(1,2), of ?cp ?a "\<lambda>_. []" "\<lambda>_. 0" 0] q(3)
    by (auto simp: not_accept_def)
  obtain ds t cp where p: "polled ?a ds ?s t" "completions_in (sched_queue t) = cp # completions_in (sched_queue s')"
    and e: "case events_of (\<lambda>_. []) (world ?s) cp of [] \<Rightarrow> Some x = None \<and> world s' = world (handle (\<lambda>_. []) cp t)
      | y # rest \<Rightarrow> Some x = Some y \<and> world s' = (world (handle (\<lambda>_. []) cp t))\<lparr>g_evt_queue := rest\<rparr>"
    using asio_get_correct [OF r g] unfolding q(1) list.case by blast
  have ds: "ds = cp # completions_in (sched_queue s')" "set ds \<subseteq> {?cp}"
    "mset [AsyncWait 100 7] = mset (pending (world t)) + mset (map for_request ds)"
    using p q unfolding polled_def by auto
  then have cp: "cp = ?cp" by auto
  have "size (mset [AsyncWait 100 7]) = size (mset (pending (world t)) + mset (map for_request ds))"
    by (simp only: ds(3))
  then have none: "pending (world t) = []" "completions_in (sched_queue s') = []" using ds(1) by simp_all
  have "pending (world (handle (\<lambda>_. []) cp t)) = []"
    using none(1) handle_plain(4) [of cp "\<lambda>_. []" t] by (simp add: cp not_accept_def)
  then show ?thesis using g e none(2) by (auto simp: cp)
qed

end
