(* ===== verification/EventLoop.thy ===== *)
theory EventLoop
  imports LuaLastOp LightThread
begin

text \<open>
  The Lua half of the program, \<^verbatim>\<open>src/asio.lua\<close>: the connection objects, the blocking calls of a light
  thread, the dispatch of events and the loop \<open>run\<close>. A blocking call starts an operation of the C half and
  yields; where the coroutine then stands inside the call is an \<open>api_state\<close>, and \<open>api_resume\<close> is the code
  from there to the next yield or to the end of the call.

  The rest of a light thread and the accept handlers are user code: the parameter \<open>finish\<close> runs a thread
  from the result of a call to its next call or its end, and \<open>call_handler\<close> calls an accept handler (the
  flag says that it raised an error).
\<close>

section \<open>Calls of a light thread\<close>

datatype con = OpenCon nat | ClosedCon

datatype api_state = InConnect nat | InRead | InReadSome | InReadSomeErr string | InWrite | InSleep

text \<open>What a call gives to the thread: a connection; data; \<open>nil\<close> and an error; data and an error; \<open>true\<close>;
  nothing. \<open>AssertFailed\<close> is a raised error.\<close>

datatype api_result = Connected con | Data string | Failed string | DataFailed string string | Done | Nothing
  | AssertFailed

fun api_resume :: "api_state \<Rightarrow> nat option \<Rightarrow> string \<Rightarrow> api_state + api_result" where
  "api_resume (InConnect c) ok data = Inr (if ok = None then Failed data else Connected (OpenCon c))"
| "api_resume InRead ok data = Inr (if ok \<noteq> None then Data data else Failed data)"
| "api_resume InReadSome ok data = (if ok \<noteq> None then Inr (Data data) else Inl (InReadSomeErr data))"
| "api_resume (InReadSomeErr data) ok err = Inr (DataFailed data err)"
| "api_resume InWrite ok err_msg = Inr (if ok \<noteq> None then Done else Failed err_msg)"
| "api_resume InSleep ok data = Inr Nothing"

type_synonym started = "(api_state + api_result) \<times> lua_sched"

definition already_closed :: api_result where "already_closed = Failed ''Already closed.''"

fun con_read :: "con \<Rightarrow> nat \<Rightarrow> int \<Rightarrow> lua_sched \<Rightarrow> started" where
  "con_read (OpenCon c) n tid s = (Inl InRead, asio_conn_read c n tid s)"
| "con_read ClosedCon n tid s = (Inr already_closed, s)"

fun con_read_some :: "con \<Rightarrow> int \<Rightarrow> lua_sched \<Rightarrow> started" where
  "con_read_some (OpenCon c) tid s = (Inl InReadSome, asio_conn_read_some c tid s)"
| "con_read_some ClosedCon tid s = (Inr already_closed, s)"

fun con_write :: "con \<Rightarrow> string \<Rightarrow> int \<Rightarrow> lua_sched \<Rightarrow> started" where
  "con_write (OpenCon c) data tid s =
     (if data = [] then (Inr AssertFailed, s)
      else (Inl InWrite, asio_conn_write c data (length data) tid s))"
| "con_write ClosedCon data tid s = (Inr already_closed, s)"

fun con_close :: "con \<Rightarrow> lua_sched \<Rightarrow> con \<times> lua_sched" where
  "con_close (OpenCon c) s = (ClosedCon, asio_conn_close c s)"
| "con_close ClosedCon s = (ClosedCon, s)"

text \<open>\<open>connect\<close>, with a host name and port, and with the bytes of an address; \<open>None\<close> is the exception of
  \<open>asio_new_connect\<close>.\<close>

definition lua_connect ::
  "pton4 \<Rightarrow> pton6 \<Rightarrow> (string \<Rightarrow> string \<Rightarrow> endpoint list option) \<Rightarrow> string \<Rightarrow> 16 word \<Rightarrow> bool \<Rightarrow> int
    \<Rightarrow> lua_sched \<Rightarrow> started option" where
  "lua_connect pton4 pton6 resolve host port resolve_v6 tid s =
     (case asio_new_connect pton4 pton6 resolve host port tid resolve_v6 s of
        None \<Rightarrow> None | Some (c, s) \<Rightarrow> Some (Inl (InConnect c), s))"

definition lua_connect_sockaddr :: "endpoint \<Rightarrow> int \<Rightarrow> lua_sched \<Rightarrow> started" where
  "lua_connect_sockaddr p tid s =
     (let (c, s) = asio_new_connect_sockaddr p tid s in (Inl (InConnect c), s))"

definition lua_sleep :: "int \<Rightarrow> int \<Rightarrow> lua_sched \<Rightarrow> started" where
  "lua_sleep msec tid s = (Inl InSleep, asio_sleep tid msec s)"

section \<open>Dispatch and loop\<close>

record ('th, 'h, 'u) program =
  clib :: lua_sched
  lua_threads :: "'th threads"
  waiting :: "'th \<Rightarrow> api_state option"
  handler_tbl :: "int \<Rightarrow> 'h option"
  user :: 'u

definition lua_server ::
  "pton4 \<Rightarrow> pton6 \<Rightarrow> (endpoint \<Rightarrow> bool) \<Rightarrow> string \<Rightarrow> int \<Rightarrow> 'h \<Rightarrow> ('th, 'h, 'u) program
    \<Rightarrow> nat option \<times> ('th, 'h, 'u) program" where
  "lua_server pton4 pton6 listens ip port accept_handler st =
     (let st = st\<lparr>handler_tbl := (handler_tbl st)(port \<mapsto> accept_handler)\<rparr>;
          (sv, c) = asio_new_server pton4 pton6 listens ip port (clib st)
      in (sv, st\<lparr>clib := c\<rparr>))"

definition destory_server :: "nat \<Rightarrow> ('th, 'h, 'u) program \<Rightarrow> ('th, 'h, 'u) program" where
  "destory_server sv st = st\<lparr>clib := asio_delete_server sv (clib st)\<rparr>"

text \<open>The flag: an error leaves the function. Resuming a dead coroutine only prints.\<close>

definition evt_disp ::
  "('th \<Rightarrow> api_result \<Rightarrow> ('th, 'h, 'u) program \<Rightarrow> ('th, 'h, 'u) program)
    \<Rightarrow> ('h \<Rightarrow> con \<Rightarrow> ('th, 'h, 'u) program \<Rightarrow> bool \<times> ('th, 'h, 'u) program)
    \<Rightarrow> event_message \<Rightarrow> ('th, 'h, 'u) program \<Rightarrow> bool \<times> ('th, 'h, 'u) program" where
  "evt_disp finish call_handler ev st =
     (if ev_type ev = EVT_ACCEPT then
        (case (handler_tbl st (dest_id ev), source ev) of
           (Some handler, Some c) \<Rightarrow> call_handler handler (OpenCon c) st
         | _ \<Rightarrow> (True, st))
      else if ev_type ev = EVT_CONTINUE then
        (case lua_get (th_tbl (lua_threads st)) (nat (dest_id ev)) of
           None \<Rightarrow> (True, st)
         | Some th \<Rightarrow>
             (case waiting st th of
                None \<Rightarrow> (False, st)
              | Some w \<Rightarrow>
                  (case api_resume w (source ev) (ev_data ev) of
                     Inl w' \<Rightarrow> (False, st\<lparr>waiting := (waiting st)(th := Some w')\<rparr>)
                   | Inr r \<Rightarrow> (False, finish th r (st\<lparr>waiting := (waiting st)(th := None)\<rparr>)))))
      else (False, st))"

text \<open>\<open>run_once\<close>, and \<open>run\<close>: \<open>None\<close> is not returning, the flag an error that leaves the loop.\<close>

definition run_once ::
  "('th \<Rightarrow> api_result \<Rightarrow> ('th, 'h, 'u) program \<Rightarrow> ('th, 'h, 'u) program)
    \<Rightarrow> ('h \<Rightarrow> con \<Rightarrow> ('th, 'h, 'u) program \<Rightarrow> bool \<times> ('th, 'h, 'u) program)
    \<Rightarrow> (completion, app) sched_env \<Rightarrow> (app \<Rightarrow> int) \<Rightarrow> int \<Rightarrow> int \<Rightarrow> ('th, 'h, 'u) program
    \<Rightarrow> (bool \<times> ('th, 'h, 'u) program) option" where
  "run_once finish call_handler E clock later wait_sec st =
     (case asio_get E clock later wait_sec (clib st) of
        None \<Rightarrow> None
      | Some (None, c) \<Rightarrow> Some (False, st\<lparr>clib := c\<rparr>)
      | Some (Some ev, c) \<Rightarrow> Some (evt_disp finish call_handler ev (st\<lparr>clib := c\<rparr>)))"

partial_function (option) lua_run ::
  "('th \<Rightarrow> api_result \<Rightarrow> ('th, 'h, 'u) program \<Rightarrow> ('th, 'h, 'u) program)
    \<Rightarrow> ('h \<Rightarrow> con \<Rightarrow> ('th, 'h, 'u) program \<Rightarrow> bool \<times> ('th, 'h, 'u) program)
    \<Rightarrow> (completion, app) sched_env \<Rightarrow> (app \<Rightarrow> int) \<Rightarrow> int \<Rightarrow> ('th, 'h, 'u) program
    \<Rightarrow> (bool \<times> ('th, 'h, 'u) program) option" where
  "lua_run finish call_handler E clock later st =
     (case run_once finish call_handler E clock later (- 1) st of
        None \<Rightarrow> None
      | Some (raised, st) \<Rightarrow>
          if raised then Some (True, st)
          else let (st_flag, c) = asio_stopped (clib st); st = st\<lparr>clib := c\<rparr>
               in if st_flag then Some (False, st) else lua_run finish call_handler E clock later st)"

declare lua_run.simps [code]

end
