(* ===== verification/EventLoopSpec.thy ===== *)
theory EventLoopSpec
  imports EventLoop
begin

text \<open>
  Properties of the event loop: a blocking call starts one operation and gets exactly the answer to it;
  when \<open>run\<close> returns; which endpoint a connection goes to; what a deleted server does.
\<close>

section \<open>From the call to its answer\<close>

fun request_fits :: "api_state \<Rightarrow> int \<Rightarrow> request \<Rightarrow> bool" where
  "request_fits (InConnect c) tid (AsyncConnect c' ep dest) \<longleftrightarrow> c' = c \<and> dest = tid"
| "request_fits InRead tid (AsyncRead c n dest) \<longleftrightarrow> dest = tid"
| "request_fits InReadSome tid (AsyncReadSome c dest) \<longleftrightarrow> dest = tid"
| "request_fits InWrite tid (AsyncWrite c txt dest) \<longleftrightarrow> dest = tid"
| "request_fits InSleep tid (AsyncWait msec dest) \<longleftrightarrow> dest = tid"
| "request_fits _ _ _ \<longleftrightarrow> False"

definition starts_one :: "api_state \<Rightarrow> int \<Rightarrow> lua_sched \<Rightarrow> lua_sched \<Rightarrow> bool" where
  "starts_one w tid s s' \<longleftrightarrow>
     (\<exists>rq. pending (world s') = pending (world s) @ [rq] \<and> request_fits w tid rq)
     \<and> evq s' = evq s \<and> outstanding_work s' = outstanding_work s + 1 \<and> stopped s' = stopped s"

lemma start_async_outstanding [simp]: "outstanding_work (start_async rq s) = outstanding_work s + 1"
  by (simp add: start_async_def work_started_def init_task_def Let_def)

lemma new_connection_fields [simp]:
  "outstanding_work (snd (new_connection op s)) = outstanding_work s"
  "pending (world (snd (new_connection op s))) = pending (world s)" "stopped (snd (new_connection op s)) = stopped s"
  by (simp_all add: new_connection_def Let_def)

text \<open>C2: Every blocking call of a light thread on a live connection that gets as far as yielding has
  started exactly one operation, of its own kind and with the thread's id as destination; it counts as one
  unit of work, pushes no event, and never clears the stopped flag of the \<open>io_context\<close>.\<close>

theorem calls_start_one_operation:
  assumes "conn_refs (world s) c > 0"
  shows "(con_read (OpenCon c) n tid s = (Inl w, s') \<longrightarrow> starts_one w tid s s')
    \<and> (con_read_some (OpenCon c) tid s = (Inl w, s') \<longrightarrow> starts_one w tid s s')
    \<and> (con_write (OpenCon c) txt tid s = (Inl w, s') \<longrightarrow> starts_one w tid s s')
    \<and> (lua_connect pton4 pton6 resolve host port v6 tid s = Some (Inl w, s') \<longrightarrow> starts_one w tid s s')
    \<and> (lua_connect_sockaddr p tid s = (Inl w, s') \<longrightarrow> starts_one w tid s s')
    \<and> (lua_sleep msec tid s = (Inl w, s') \<longrightarrow> starts_one w tid s s')"
proof (intro conjI impI)
  note calls = asio_conn_read_def asio_conn_read_some_def asio_conn_write_def through_def conn_read_def
    conn_read_some_def conn_write_def starts_one_def
  show "con_read (OpenCon c) n tid s = (Inl w, s') \<Longrightarrow> starts_one w tid s s'"
    using assms by (auto simp: calls)
  show "con_read_some (OpenCon c) tid s = (Inl w, s') \<Longrightarrow> starts_one w tid s s'"
    using assms by (auto simp: calls)
  show "con_write (OpenCon c) txt tid s = (Inl w, s') \<Longrightarrow> starts_one w tid s s'"
    using assms by (auto simp: calls split: if_splits)
  show "lua_sleep msec tid s = (Inl w, s') \<Longrightarrow> starts_one w tid s s'"
    by (auto simp: lua_sleep_def asio_sleep_def starts_one_def)
  show "lua_connect_sockaddr p tid s = (Inl w, s') \<Longrightarrow> starts_one w tid s s'"
    by (auto simp: lua_connect_sockaddr_def asio_new_connect_sockaddr_def do_connect_def case_prod_beta starts_one_def)
  assume l: "lua_connect pton4 pton6 resolve host port v6 tid s = Some (Inl w, s')"
  obtain c' where c': "asio_new_connect pton4 pton6 resolve host port tid v6 s = Some (c', s')" "w = InConnect c'"
    using l unfolding lua_connect_def
    by (cases "asio_new_connect pton4 pton6 resolve host port tid v6 s") auto
  let ?oep = "case address_from_string pton4 pton6 host of Some addr \<Rightarrow> Some (endpoint_of_address addr port)
    | None \<Rightarrow> map_option (choose_endpoint v6 endpoint_default) (resolve host (decimal (unat port)))"
  obtain ep where "?oep = Some ep" using c'(1) unfolding asio_new_connect_def by (cases ?oep) simp_all
  then have "s' = do_connect c' ep tid (snd (new_connection False s))"
    using c'(1) unfolding asio_new_connect_def by (auto simp: case_prod_beta)
  then show "starts_one w tid s s'" by (simp add: starts_one_def do_connect_def c'(2))
qed

theorem calls_start_one_operation_witness:
  "starts_one InRead 3 ((new_sched hint_default new_app)\<lparr>world := new_app\<lparr>conn_refs := (\<lambda>_. 1)\<rparr>\<rparr>)
     (asio_conn_read 0 5 3 ((new_sched hint_default new_app)\<lparr>world := new_app\<lparr>conn_refs := (\<lambda>_. 1)\<rparr>\<rparr>))"
  (is "starts_one _ _ ?s _")
proof -
  have "conn_refs (world ?s) 0 > 0" by simp
  from calls_start_one_operation [OF this, of 5 3 InRead "asio_conn_read 0 5 3 ?s"]
  show ?thesis by simp
qed

text \<open>The events given to a call one after the other: \<open>None\<close> if events are left when the call is over.\<close>

fun feed :: "api_state \<Rightarrow> event_message list \<Rightarrow> (api_state + api_result) option" where
  "feed w [] = Some (Inl w)"
| "feed w (e # es) = (case api_resume w (source e) (ev_data e) of
     Inl w' \<Rightarrow> feed w' es | Inr r \<Rightarrow> (if es = [] then Some (Inr r) else None))"

text \<open>The answer a call should give.\<close>

fun answer :: "(int \<Rightarrow> string) \<Rightarrow> completion \<Rightarrow> api_result" where
  "answer strerror (Completion rq ec n d) =
     (case rq of
        AsyncConnect c ep dest \<Rightarrow> if failed ec then Failed (ec_message strerror ec) else Connected (OpenCon c)
      | AsyncWrite c txt dest \<Rightarrow> if failed ec then Failed (ec_message strerror ec) else Done
      | AsyncRead c sz dest \<Rightarrow> if failed ec then Failed (ec_message strerror ec) else Data d
      | AsyncReadSome c dest \<Rightarrow> if failed ec then DataFailed d (ec_message strerror ec) else Data d
      | AsyncWait msec dest \<Rightarrow> Nothing
      | AsyncAccept sv \<Rightarrow> AssertFailed)"

text \<open>What the operating system says is sensible: a read that succeeded has filled its buffer; bytes
  received by \<open>read_some\<close> fit the buffer and are as many as reported.\<close>

fun sensible :: "app \<Rightarrow> completion \<Rightarrow> bool" where
  "sensible a (Completion rq ec n d) \<longleftrightarrow>
     (case rq of
        AsyncRead c sz dest \<Rightarrow> failed ec \<or> length (read_buff a c) = sz \<and> length d = sz
      | AsyncReadSome c dest \<Rightarrow> length (read_buff a c) = MAX_BUFF_SIZE \<and> n \<le> MAX_BUFF_SIZE \<and> length d = n
      | _ \<Rightarrow> True)"

lemma resize_overwrite: "length d = n \<Longrightarrow> n \<le> length b \<Longrightarrow> resize n (overwrite d b) = d"
  by (simp add: resize_def overwrite_def)

lemma overwrite_all: "length d = length b \<Longrightarrow> overwrite d b = d"
  by (simp add: overwrite_def)

lemma events_resume_caller:
  assumes "request_fits w tid (for_request cp)" "sensible a cp"
  shows "feed w (events_of strerror a cp) = Some (Inr (answer strerror cp))
    \<and> (\<forall>e \<in> set (events_of strerror a cp). ev_type e = EVT_CONTINUE \<and> dest_id e = tid)
    \<and> (length (events_of strerror a cp) = 2 \<longleftrightarrow> w = InReadSome \<and> failed (comp_ec cp))"
proof (cases cp)
  case (Completion rq ec n d)
  show ?thesis
    using assms unfolding Completion
    by (cases "(w, tid, rq)" rule: request_fits.cases) (auto simp: evt_def resize_overwrite overwrite_all)
qed

text \<open>The sockets after a handler: a failed read, \<open>read_some\<close> or write closes its connection.\<close>

fun sockets_after :: "completion \<Rightarrow> (nat \<Rightarrow> bool) \<Rightarrow> nat \<Rightarrow> bool" where
  "sockets_after (Completion (AsyncRead c sz dest) ec n d) socks = (if failed ec then socks(c := False) else socks)"
| "sockets_after (Completion (AsyncReadSome c dest) ec n d) socks = (if failed ec then socks(c := False) else socks)"
| "sockets_after (Completion (AsyncWrite c txt dest) ec n d) socks = (if failed ec then socks(c := False) else socks)"
| "sockets_after _ socks = socks"

lemma handle_sockets:
  assumes "request_fits w tid (for_request cp)"
  shows "socket_open (world (handle strerror cp s)) = sockets_after cp (socket_open (world s))"
proof (cases cp)
  case (Completion rq ec n d)
  show ?thesis
    using assms unfolding Completion
    by (cases "(w, tid, rq)" rule: request_fits.cases)
      (auto simp: handle_def on_connect_def on_read_def on_read_some_def on_write_def on_timer_def push_event_def
        set_read_buff_def close_socket_def Let_def)
qed

text \<open>C1: The handler of a completed operation resumes the call that waits for it. Whatever waits in the event
  queue, it appends, in order, the events the caller needs and nothing else: all of them are for the
  thread that started the operation, and resuming it with them one after the other ends the call at the last
  one, with the error text if the operation failed and with the bytes received if it succeeded; only a failed
  \<open>read_some\<close> pushes two events, the data before the error and then the error. A failed read or write
  closes the socket of its connection, every other handler leaves the sockets alone.\<close>

theorem completion_resumes_caller:
  assumes "request_fits w tid (for_request cp)" "sensible (world s) cp"
    and "length (g_evt_queue (world s)) + 2 \<le> MAX_EVT_MSG"
  shows "\<exists>es. g_evt_queue (world (handle strerror cp s)) = g_evt_queue (world s) @ es
    \<and> feed w es = Some (Inr (answer strerror cp))
    \<and> (\<forall>e \<in> set es. ev_type e = EVT_CONTINUE \<and> dest_id e = tid)
    \<and> (length es = 2 \<longleftrightarrow> w = InReadSome \<and> failed (comp_ec cp))
    \<and> socket_open (world (handle strerror cp s)) = sockets_after cp (socket_open (world s))"
  using handle_events [OF assms(3), of strerror cp] events_resume_caller [OF assms(1,2), of strerror]
    handle_sockets [OF assms(1), of strerror s] by blast

theorem completion_resumes_caller_witness:
  "\<exists>es. g_evt_queue (world (handle (\<lambda>_. ''reset'') (Completion (AsyncReadSome 0 4) (basic_ec operation_aborted) 2 ''ab'')
        (new_sched hint_default (new_app\<lparr>read_buff := (\<lambda>_. replicate MAX_BUFF_SIZE CHR ''x'')\<rparr>)))) = es
    \<and> feed InReadSome es = Some (Inr (DataFailed ''ab'' ''reset'')) \<and> length es = 2"
proof -
  let ?cp = "Completion (AsyncReadSome 0 4) (basic_ec operation_aborted) 2 ''ab''"
  let ?s = "new_sched hint_default (new_app\<lparr>read_buff := (\<lambda>_. replicate MAX_BUFF_SIZE CHR ''x'')\<rparr>) :: lua_sched"
  have "request_fits InReadSome 4 (for_request ?cp)" "sensible (world ?s) ?cp"
    "length (g_evt_queue (world ?s)) + 2 \<le> MAX_EVT_MSG"
    by (simp_all add: MAX_BUFF_SIZE_def MAX_EVT_MSG_def new_sched_def new_app_def)
  from completion_resumes_caller [OF this, of "\<lambda>_. ''reset''"] show ?thesis
    by (simp add: ec_defs ec_message_def new_sched_def new_app_def)
qed

section \<open>When the loop ends\<close>

text \<open>The state of the program when one operation \<open>cp\<close> is in progress, the operating system has its answer,
  and no event waits.\<close>

definition one_left :: "(int \<Rightarrow> app \<Rightarrow> completion list) \<Rightarrow> completion \<Rightarrow> lua_sched \<Rightarrow> bool" where
  "one_left answers cp s \<longleftrightarrow> evq s = [] \<and> sched_queue s = [Task]
     \<and> pending (world s) = [for_request cp] \<and> answers (- 1) (world s) = [cp] \<and> not_accept cp"

lemma is_stopped_fields [simp]:
  "fst (is_stopped s) = stopped s" "world (snd (is_stopped s)) = world s" "stopped (snd (is_stopped s)) = stopped s"
  by (simp_all add: is_stopped_def Let_def)

lemma lua_run_last:
  assumes inv: "lua_inv (clib st)" and one: "one_left answers cp (clib st)"
    and disp: "\<And>x c. x \<in> set (events_of strerror (world (clib st)) cp) \<Longrightarrow> stopped c \<Longrightarrow>
      \<not> fst (evt_disp finish call_handler x (st\<lparr>clib := c\<rparr>))
      \<and> stopped (clib (snd (evt_disp finish call_handler x (st\<lparr>clib := c\<rparr>))))"
  shows "\<exists>x c. x # evq c = events_of strerror (world (clib st)) cp \<and> pending (world c) = [] \<and> stopped c
    \<and> asio_get (lua_env strerror answers) clock later (- 1) (clib st) = Some (Some x, c)
    \<and> lua_run finish call_handler (lua_env strerror answers) clock later st
      = Some (False, (let st' = snd (evt_disp finish call_handler x (st\<lparr>clib := c\<rparr>))
                      in st'\<lparr>clib := snd (asio_stopped (clib st'))\<rparr>))"
proof -
  obtain x c where g: "asio_get (lua_env strerror answers) clock later (- 1) (clib st) = Some (Some x, c)"
    "x # evq c = events_of strerror (world (clib st)) cp" "pending (world c) = []" "stopped c"
    using asio_get_last [OF inv, of cp answers] one unfolding one_left_def by blast
  have "x \<in> set (events_of strerror (world (clib st)) cp)" unfolding g(2) [symmetric] by simp
  note d = disp [OF this g(4)]
  obtain r st' where e: "evt_disp finish call_handler x (st\<lparr>clib := c\<rparr>) = (r, st')" by (rule prod.exhaust)
  have "lua_run finish call_handler (lua_env strerror answers) clock later st
    = Some (False, st'\<lparr>clib := snd (asio_stopped (clib st'))\<rparr>)"
    by (subst lua_run.simps) (use d in \<open>simp add: run_once_def g(1) e asio_stopped_def case_prod_beta\<close>)
  then show ?thesis using g e by (intro exI [of _ x] exI [of _ c]) simp
qed

text \<open>C35: \<open>run\<close> returns while work is in progress. When the one operation in progress completes, \<open>asio_get\<close>
  leaves the \<open>io_context\<close> stopped; the resumed thread may start new operations, which do not clear the flag;
  \<open>run\<close> then finds \<open>asio_stopped\<close> true and returns. So a program whose only light thread makes two blocking
  calls in a row is abandoned after the first.\<close>

theorem run_returns_with_work_in_progress:
  fixes st :: "('th, 'h, 'u) program"
  assumes "lua_inv (clib st)" "one_left answers cp (clib st)"
    and "request_fits w tid (for_request cp)" "sensible (world (clib st)) cp" "w \<noteq> InReadSome"
    and "0 \<le> tid" "lua_get (th_tbl (lua_threads st)) (nat tid) = Some th" "waiting st th = Some w"
    and starts: "\<And>r st. finish th r st = st\<lparr>clib := start_async rq (clib st), waiting := (waiting st)(th := Some w')\<rparr>"
  shows "\<exists>st'. lua_run finish call_handler (lua_env strerror answers) clock later st = Some (False, st')
    \<and> pending (world (clib st')) = [rq] \<and> waiting st' th = Some w'"
proof -
  note fed = events_resume_caller [OF assms(3,4), of strerror]
  define es where "es = events_of strerror (world (clib st)) cp"
  have "length es \<noteq> 2" using fed assms(5) unfolding es_def by blast
  moreover have "length es \<noteq> 0"
    using events_of_plain [of cp strerror "world (clib st)"] assms(2) by (simp add: es_def one_left_def)
  moreover have "length es \<le> 2" unfolding es_def by (rule events_of_length)
  ultimately have "length es = Suc 0" by arith
  then obtain x where x: "es = [x]" by (auto simp: length_Suc_conv)
  have ev: "api_resume w (source x) (ev_data x) = Inr (answer strerror cp)" "ev_type x = EVT_CONTINUE" "dest_id x = tid"
    using fed unfolding es_def [symmetric] x by (simp_all split: sum.splits)
  have disp: "evt_disp finish call_handler x (st\<lparr>clib := c\<rparr>) = (False, finish th (answer strerror cp)
      (st\<lparr>clib := c, waiting := (waiting st)(th := None)\<rparr>))" for c
    using ev assms(6-8) by (simp add: evt_disp_def EVT_CONTINUE_def EVT_ACCEPT_def)
  have prem: "\<not> fst (evt_disp finish call_handler y (st\<lparr>clib := c\<rparr>))
      \<and> stopped (clib (snd (evt_disp finish call_handler y (st\<lparr>clib := c\<rparr>))))"
    if "y \<in> set (events_of strerror (world (clib st)) cp)" "stopped c" for y c
    using that unfolding es_def [symmetric] x by (simp add: disp starts)
  obtain y c where yc: "y # evq c = events_of strerror (world (clib st)) cp" "pending (world c) = []" "stopped c"
    "lua_run finish call_handler (lua_env strerror answers) clock later st
      = Some (False, (let st' = snd (evt_disp finish call_handler y (st\<lparr>clib := c\<rparr>))
                      in st'\<lparr>clib := snd (asio_stopped (clib st'))\<rparr>))"
    using lua_run_last [OF assms(1,2) prem, where clock = clock and later = later] by blast
  have "y = x" using yc(1) x unfolding es_def by simp
  then show ?thesis using yc by (simp add: disp starts asio_stopped_def)
qed

text \<open>A thread that sleeps twice.\<close>

definition sleeper_state :: "(nat, unit, unit) program" where
  "sleeper_state = \<lparr>clib = asio_sleep 1 100 (new_sched hint_default new_app),
     lua_threads = \<lparr>th_tbl = [Some 5], th_free_id = [], th_to_id = [5 \<mapsto> 1]\<rparr>, waiting = [5 \<mapsto> InSleep],
     handler_tbl = Map.empty, user = ()\<rparr>"

theorem run_returns_with_work_in_progress_witness:
  "\<exists>st'. lua_run (\<lambda>th r st. st\<lparr>clib := start_async (AsyncWait 200 1) (clib st),
           waiting := (waiting st)(5 := Some InSleep)\<rparr>) (\<lambda>_ _ st. (False, st))
       (lua_env (\<lambda>_. []) (\<lambda>_ _. [Completion (AsyncWait 100 1) ec_success 0 []])) (\<lambda>_. 0) 0 sleeper_state = Some (False, st')
    \<and> pending (world (clib st')) = [AsyncWait 200 1] \<and> waiting st' 5 = Some InSleep"
proof (rule run_returns_with_work_in_progress [where w = InSleep and tid = 1])
  show "lua_inv (clib sleeper_state)"
    unfolding sleeper_state_def program.simps by (rule lua_reach_inv [OF lua_reach.sleep [OF lua_reach.init]])
  show "one_left (\<lambda>_ _. [Completion (AsyncWait 100 1) ec_success 0 []]) (Completion (AsyncWait 100 1) ec_success 0 []) (clib sleeper_state)"
    by (simp add: one_left_def sleeper_state_def asio_sleep_def after_start not_accept_def del: start_async_fields)
qed (simp_all add: sleeper_state_def lua_get_def)

text \<open>C36: The error of a failed \<open>read_some\<close> can be lost. The completion pushes two events; if nothing else is in
  progress, \<open>run\<close> dispatches the first and returns, with the second still in the queue and the thread
  suspended inside \<open>read_some\<close> for good: neither the data nor the error reach it.\<close>

theorem run_loses_read_some_error:
  fixes st :: "('th, 'h, 'u) program"
  assumes "lua_inv (clib st)" "one_left answers (Completion (AsyncReadSome c tid) ec n d) (clib st)"
    and "sensible (world (clib st)) (Completion (AsyncReadSome c tid) ec n d)" "failed ec"
    and "0 \<le> tid" "lua_get (th_tbl (lua_threads st)) (nat tid) = Some th" "waiting st th = Some InReadSome"
  shows "\<exists>st'. lua_run finish call_handler (lua_env strerror answers) clock later st = Some (False, st')
    \<and> g_evt_queue (world (clib st')) = [evt tid None (ec_message strerror ec)]
    \<and> waiting st' = (waiting st)(th := Some (InReadSomeErr d))"
proof -
  let ?es = "events_of strerror (world (clib st)) (Completion (AsyncReadSome c tid) ec n d)"
  have es: "?es = [evt tid None d, evt tid None (ec_message strerror ec)]"
    using assms(3,4) by (simp add: resize_overwrite)
  have disp: "evt_disp finish call_handler (evt tid None d) (st\<lparr>clib := b\<rparr>)
      = (False, st\<lparr>clib := b, waiting := (waiting st)(th := Some (InReadSomeErr d))\<rparr>)" for b
    using assms(5-7) by (simp add: evt_disp_def evt_def EVT_CONTINUE_def EVT_ACCEPT_def)
  have disp2: "\<not> fst (evt_disp finish call_handler (evt tid None m) (st\<lparr>clib := b\<rparr>))
      \<and> clib (snd (evt_disp finish call_handler (evt tid None m) (st\<lparr>clib := b\<rparr>))) = b" for m b
    using assms(5-7) by (simp add: evt_disp_def evt_def EVT_CONTINUE_def EVT_ACCEPT_def)
  have prem: "\<not> fst (evt_disp finish call_handler x (st\<lparr>clib := b\<rparr>))
      \<and> stopped (clib (snd (evt_disp finish call_handler x (st\<lparr>clib := b\<rparr>))))"
    if "x \<in> set ?es" "stopped b" for x b
    using that disp2 unfolding es by auto
  obtain y b where "y # evq b = ?es" "stopped b"
    "lua_run finish call_handler (lua_env strerror answers) clock later st
      = Some (False, (let st' = snd (evt_disp finish call_handler y (st\<lparr>clib := b\<rparr>))
                      in st'\<lparr>clib := snd (asio_stopped (clib st'))\<rparr>))"
    using lua_run_last [OF assms(1,2) prem, where clock = clock and later = later] by blast
  then show ?thesis unfolding es by (simp add: disp asio_stopped_def)
qed

definition reader_state :: "(nat, unit, unit) program" where
  "reader_state = \<lparr>clib = asio_conn_read_some 0 1 (snd (new_connection True (new_sched hint_default new_app))),
     lua_threads = \<lparr>th_tbl = [Some 5], th_free_id = [], th_to_id = [5 \<mapsto> 1]\<rparr>, waiting = [5 \<mapsto> InReadSome],
     handler_tbl = Map.empty, user = ()\<rparr>"

theorem run_loses_read_some_error_witness:
  "\<exists>st'. lua_run (\<lambda>_ _ st. st) (\<lambda>_ _ st. (False, st))
       (lua_env (\<lambda>_. []) (\<lambda>_ _. [Completion (AsyncReadSome 0 1) (misc_ec eof) 0 []])) (\<lambda>_. 0) 0 reader_state = Some (False, st')
    \<and> g_evt_queue (world (clib st')) = [evt 1 None ''End of file'']
    \<and> waiting st' = (waiting reader_state)(5 := Some (InReadSomeErr []))"
proof -
  let ?c = "clib reader_state"
  have i: "lua_inv ?c"
    unfolding reader_state_def program.simps by (rule calls_inv(2)) (simp add: init_inv)
  have q: "sched_queue ?c = [Task]" "evq ?c = []" "pending (world ?c) = [AsyncReadSome 0 1]"
    "read_buff (world ?c) 0 = resize MAX_BUFF_SIZE []"
    by (simp_all add: reader_state_def asio_conn_read_some_def through_def conn_read_some_def new_connection_def
        start_async_def default_sched init_task_def work_started_def acquire_def Let_def new_app_def set_read_buff_def
        upd_world_def wake_one_thread_and_unlock_def maybe_unlock_and_signal_one_def push_op_def unlock_def
        posix_maybe_unlock_and_signal_one_def assert_locked_def set_signalled_def interrupt_task_def)
  have "\<exists>st'. lua_run (\<lambda>_ _ st. st) (\<lambda>_ _ st. (False, st))
       (lua_env (\<lambda>_. []) (\<lambda>_ _. [Completion (AsyncReadSome 0 1) (misc_ec eof) 0 []])) (\<lambda>_. 0) 0 reader_state = Some (False, st')
    \<and> g_evt_queue (world (clib st')) = [evt 1 None (ec_message (\<lambda>_. []) (misc_ec eof))]
    \<and> waiting st' = (waiting reader_state)(5 := Some (InReadSomeErr []))"
  proof (rule run_loses_read_some_error [OF i])
    show "one_left (\<lambda>_ _. [Completion (AsyncReadSome 0 1) (misc_ec eof) 0 []]) (Completion (AsyncReadSome 0 1) (misc_ec eof) 0 []) ?c"
      using q by (simp add: one_left_def not_accept_def)
    show "sensible (world ?c) (Completion (AsyncReadSome 0 1) (misc_ec eof) 0 [])"
      using q(4) by (simp add: resize_def)
  qed (simp_all add: reader_state_def lua_get_def)
  then show ?thesis by (simp add: ec_message_def misc_ec_def misc_message_def)
qed

end
