(* ===== verification/Buffers.thy ===== *)
theory Buffers
  imports ErrorCode
begin

text \<open>
  Buffers, buffer sequences and the views that composed operations keep of them:
  \<^verbatim>\<open>asio/buffer.hpp\<close> and \<^verbatim>\<open>asio/detail/consuming_buffers.hpp\<close>.

  A buffer is an address and a size. \<open>std::size_t\<close> is a natural number; the sums that could leave 64 bits
  (the size of a whole sequence, the count of consumed bytes) are taken modulo \<open>2 ^ 64\<close>. The class template
  \<open>consuming_buffers\<close> has three implementations: the general one over any sequence, one for a single
  buffer and one for an array of two. The composed operations are templates over it: they get its operations
  as a record \<open>view_ops\<close>, and what they rely on is the locale \<open>consuming_view\<close>, of which each of the
  three implementations is an interpretation.
\<close>

section \<open>Buffers\<close>

definition size_t :: "nat \<Rightarrow> nat" where
  "size_t n = n mod 2 ^ 64"

record mutable_buffer =
  buf_data :: nat
  buf_size :: nat

definition mk_buffer :: "nat \<Rightarrow> nat \<Rightarrow> mutable_buffer" where
  "mk_buffer d n = \<lparr>buf_data = d, buf_size = n\<rparr>"

text \<open>\<open>b + n\<close> and \<open>buffer(b, max)\<close>.\<close>

definition buffer_plus :: "mutable_buffer \<Rightarrow> nat \<Rightarrow> mutable_buffer" where
  "buffer_plus b n =
     (let offset = if n < buf_size b then n else buf_size b
      in mk_buffer (buf_data b + offset) (buf_size b - offset))"

definition buffer_advance :: "mutable_buffer \<Rightarrow> nat \<Rightarrow> mutable_buffer" where
  "buffer_advance b n =
     (let offset = if n < buf_size b then n else buf_size b
      in b\<lparr>buf_data := buf_data b + offset, buf_size := buf_size b - offset\<rparr>)"

definition buffer_limit :: "mutable_buffer \<Rightarrow> nat \<Rightarrow> mutable_buffer" where
  "buffer_limit b max_size = mk_buffer (buf_data b) (if buf_size b < max_size then buf_size b else max_size)"

fun buffer_size_loop :: "nat \<Rightarrow> mutable_buffer list \<Rightarrow> nat" where
  "buffer_size_loop tot [] = tot"
| "buffer_size_loop tot (b # bs) = buffer_size_loop (size_t (tot + buf_size b)) bs"

definition buffer_size :: "mutable_buffer list \<Rightarrow> nat" where
  "buffer_size bs = buffer_size_loop 0 bs"

section \<open>The addresses a sequence of buffers stands for\<close>

definition cells :: "mutable_buffer \<Rightarrow> nat list" where
  "cells b = [buf_data b ..< buf_data b + buf_size b]"

definition all_cells :: "mutable_buffer list \<Rightarrow> nat list" where
  "all_cells bs = concat (map cells bs)"

lemma mk_buffer_simps [simp]: "buf_data (mk_buffer d n) = d" "buf_size (mk_buffer d n) = n"
  by (simp_all add: mk_buffer_def)

lemma length_cells [simp]: "length (cells b) = buf_size b"
  by (simp add: cells_def)

lemma all_cells_simps [simp]: "all_cells [] = []" "all_cells (b # bs) = cells b @ all_cells bs"
  "all_cells (bs @ cs) = all_cells bs @ all_cells cs"
  by (simp_all add: all_cells_def)

lemma size_buffer_plus [simp]: "buf_size (buffer_plus b n) = buf_size b - n"
  by (simp add: buffer_plus_def Let_def)

lemma cells_plus [simp]: "cells (buffer_plus b n) = drop n (cells b)"
  by (auto simp: buffer_plus_def Let_def cells_def)

lemma buffer_advance_plus: "buffer_advance b n = buffer_plus b n"
  by (simp add: buffer_advance_def buffer_plus_def mk_buffer_def Let_def)

lemma size_buffer_limit [simp]: "buf_size (buffer_limit b n) = min (buf_size b) n"
  by (simp add: buffer_limit_def)

lemma cells_limit [simp]: "cells (buffer_limit b n) = take n (cells b)"
  by (auto simp: buffer_limit_def cells_def take_upt min_def)

lemma buffer_size_loop: "buffer_size_loop (size_t n) bs = size_t (n + length (all_cells bs))"
proof (induction bs arbitrary: n)
  case (Cons b bs)
  have "size_t (size_t n + buf_size b) = size_t (n + buf_size b)" by (simp add: size_t_def mod_simps)
  then show ?case by (simp add: Cons.IH add.assoc)
qed simp

lemma buffer_size_eq: "length (all_cells bs) < 2 ^ 64 \<Longrightarrow> buffer_size bs = length (all_cells bs)"
  using buffer_size_loop [of 0 bs] by (simp add: buffer_size_def size_t_def)

section \<open>The general view of a sequence\<close>

definition max_buffers :: "nat \<Rightarrow> nat" where
  "max_buffers n = (if n < 16 then n else 16)"

text \<open>\<open>buffer_sequence_adapter_base::max_buffers\<close> is 64 for sequences of no fixed length.\<close>

definition prepared_buffers_max :: nat where
  "prepared_buffers_max = 64"

record consuming_buffers =
  cb_buffers :: "mutable_buffer list"
  cb_total_size :: nat
  cb_total_consumed :: nat
  cb_next_elem :: nat
  cb_next_offset :: nat

definition new_consuming_buffers :: "mutable_buffer list \<Rightarrow> consuming_buffers" where
  "new_consuming_buffers bs =
     \<lparr>cb_buffers = bs, cb_total_size = buffer_size bs, cb_total_consumed = 0, cb_next_elem = 0, cb_next_offset = 0\<rparr>"

definition cb_empty :: "consuming_buffers \<Rightarrow> bool" where
  "cb_empty c \<longleftrightarrow> cb_total_consumed c \<ge> cb_total_size c"

text \<open>The loop of \<open>prepare\<close>: \<open>room\<close> is how many elements the result still has; an element that turned out
  empty is overwritten by the next one.\<close>

fun prepare_loop :: "nat \<Rightarrow> nat \<Rightarrow> nat \<Rightarrow> mutable_buffer list \<Rightarrow> mutable_buffer list" where
  "prepare_loop max_size room elem_offset [] = []"
| "prepare_loop max_size room elem_offset (b # bs) =
     (if max_size > 0 \<and> room > 0
      then (let e = buffer_limit (buffer_plus b elem_offset) max_size
            in if buf_size e > 0 then e # prepare_loop (max_size - buf_size e) (room - 1) 0 bs
               else prepare_loop (max_size - buf_size e) room 0 bs)
      else [])"

definition cb_prepare :: "nat \<Rightarrow> consuming_buffers \<Rightarrow> mutable_buffer list" where
  "cb_prepare max_size c =
     prepare_loop max_size (max_buffers prepared_buffers_max) (cb_next_offset c) (drop (cb_next_elem c) (cb_buffers c))"

fun consume_loop :: "nat \<Rightarrow> nat \<Rightarrow> nat \<Rightarrow> mutable_buffer list \<Rightarrow> nat \<times> nat" where
  "consume_loop n elem offset [] = (elem, offset)"
| "consume_loop n elem offset (b # bs) =
     (if n > 0
      then (let next_buf = buffer_plus b offset
            in if n < buf_size next_buf then (elem, offset + n)
               else consume_loop (n - buf_size next_buf) (elem + 1) 0 bs)
      else (elem, offset))"

definition cb_consume :: "nat \<Rightarrow> consuming_buffers \<Rightarrow> consuming_buffers" where
  "cb_consume n c =
     (let (elem, offset) = consume_loop n (cb_next_elem c) (cb_next_offset c) (drop (cb_next_elem c) (cb_buffers c))
      in c\<lparr>cb_total_consumed := size_t (cb_total_consumed c + n), cb_next_elem := elem, cb_next_offset := offset\<rparr>)"

section \<open>The view of a single buffer\<close>

record consuming_single_buffer =
  sb_buffer :: mutable_buffer
  sb_consumed :: nat

definition new_consuming_single_buffer :: "mutable_buffer \<Rightarrow> consuming_single_buffer" where
  "new_consuming_single_buffer b = \<lparr>sb_buffer = b, sb_consumed = 0\<rparr>"

definition sb_empty :: "consuming_single_buffer \<Rightarrow> bool" where
  "sb_empty c \<longleftrightarrow> sb_consumed c \<ge> buf_size (sb_buffer c)"

definition sb_prepare :: "nat \<Rightarrow> consuming_single_buffer \<Rightarrow> mutable_buffer list" where
  "sb_prepare max_size c = [buffer_limit (buffer_plus (sb_buffer c) (sb_consumed c)) max_size]"

definition sb_consume :: "nat \<Rightarrow> consuming_single_buffer \<Rightarrow> consuming_single_buffer" where
  "sb_consume n c = c\<lparr>sb_consumed := size_t (sb_consumed c + n)\<rparr>"

section \<open>The view of an array of two buffers\<close>

record consuming_pair =
  pair_buffers :: "mutable_buffer \<times> mutable_buffer"
  pair_consumed :: nat

definition new_consuming_pair :: "mutable_buffer \<times> mutable_buffer \<Rightarrow> consuming_pair" where
  "new_consuming_pair bs = \<lparr>pair_buffers = bs, pair_consumed = 0\<rparr>"

definition pb_empty :: "consuming_pair \<Rightarrow> bool" where
  "pb_empty c \<longleftrightarrow> pair_consumed c \<ge> size_t (buf_size (fst (pair_buffers c)) + buf_size (snd (pair_buffers c)))"

definition pb_prepare :: "nat \<Rightarrow> consuming_pair \<Rightarrow> mutable_buffer list" where
  "pb_prepare max_size c =
     (let (b0, b1) = pair_buffers c;
          buffer0_size = buf_size b0;
          r0 = buffer_limit (buffer_plus b0 (pair_consumed c)) max_size;
          r1 = buffer_limit
                 (buffer_plus b1 (if pair_consumed c < buffer0_size then 0 else pair_consumed c - buffer0_size))
                 (max_size - buf_size r0)
      in [r0, r1])"

definition pb_consume :: "nat \<Rightarrow> consuming_pair \<Rightarrow> consuming_pair" where
  "pb_consume n c = c\<lparr>pair_consumed := size_t (pair_consumed c + n)\<rparr>"

section \<open>What a composed operation relies on\<close>

record 'v view_ops =
  vw_empty :: "'v \<Rightarrow> bool"
  vw_prepare :: "nat \<Rightarrow> 'v \<Rightarrow> mutable_buffer list"
  vw_consume :: "nat \<Rightarrow> 'v \<Rightarrow> 'v"
  vw_total_consumed :: "'v \<Rightarrow> nat"

text \<open>\<open>rest c\<close> is what is left to transfer. \<open>prepare\<close> gives buffers for a prefix of it, never more than
  asked for, and at least one byte if there is one; \<open>consume\<close> takes a prefix off.\<close>

locale consuming_view =
  fixes vops :: "'v view_ops" and vinv :: "'v \<Rightarrow> bool" and rest :: "'v \<Rightarrow> nat list"
  assumes empty_iff: "vinv c \<Longrightarrow> vw_empty vops c \<longleftrightarrow> rest c = []"
    and prepare_prefix: "vinv c \<Longrightarrow>
      \<exists>k \<le> m. all_cells (vw_prepare vops m c) = take k (rest c) \<and> (0 < m \<and> rest c \<noteq> [] \<longrightarrow> 0 < k)"
    and consume_rest: "vinv c \<Longrightarrow> n \<le> length (rest c) \<Longrightarrow> rest (vw_consume vops n c) = drop n (rest c)"
    and consume_total: "vinv c \<Longrightarrow> n \<le> length (rest c) \<Longrightarrow>
      vw_total_consumed vops (vw_consume vops n c) = vw_total_consumed vops c + n"
    and consume_inv: "vinv c \<Longrightarrow> n \<le> length (rest c) \<Longrightarrow> vinv (vw_consume vops n c)"
begin

lemma prepare_le: "vinv c \<Longrightarrow> length (all_cells (vw_prepare vops m c)) \<le> length (rest c)"
  using prepare_prefix [of c m] by auto

lemma prepare_le_max: "vinv c \<Longrightarrow> length (all_cells (vw_prepare vops m c)) \<le> m"
  using prepare_prefix [of c m] by auto

lemma prepare_nonempty:
  "vinv c \<Longrightarrow> 0 < m \<Longrightarrow> rest c \<noteq> [] \<Longrightarrow> all_cells (vw_prepare vops m c) \<noteq> []"
  using prepare_prefix [of c m] by auto

lemma prepare_take:
  assumes "vinv c" and "n \<le> length (all_cells (vw_prepare vops m c))"
  shows "take n (all_cells (vw_prepare vops m c)) = take n (rest c)"
proof -
  obtain k where k: "all_cells (vw_prepare vops m c) = take k (rest c)"
    using prepare_prefix [OF assms(1), of m] by blast
  then have "n \<le> length (rest c)" "n \<le> k" using assms(2) by simp_all
  then show ?thesis by (simp add: k min_def)
qed

lemma consume_zero: "vinv c \<Longrightarrow> rest (vw_consume vops 0 c) = rest c"
  by (simp add: consume_rest)

end

end
