(* ===== verification/BufferViews.thy ===== *)
theory BufferViews
  imports Buffers
begin

text \<open>
  The three implementations of \<^verbatim>\<open>consuming_buffers\<close> keep the contract \<open>consuming_view\<close>: their invariants,
  what each has left to transfer, and the interpretations.
\<close>

section \<open>The general view\<close>

definition cb_ops :: "consuming_buffers view_ops" where
  "cb_ops = \<lparr>vw_empty = cb_empty, vw_prepare = cb_prepare, vw_consume = cb_consume,
     vw_total_consumed = cb_total_consumed\<rparr>"

definition cb_rest :: "consuming_buffers \<Rightarrow> nat list" where
  "cb_rest c = drop (cb_next_offset c) (all_cells (drop (cb_next_elem c) (cb_buffers c)))"

text \<open>The position is between two buffers or inside one.\<close>

fun inside :: "nat \<Rightarrow> mutable_buffer list \<Rightarrow> bool" where
  "inside offset [] \<longleftrightarrow> offset = 0"
| "inside offset (b # bs) \<longleftrightarrow> offset = 0 \<or> offset < buf_size b"

definition cb_inv :: "consuming_buffers \<Rightarrow> bool" where
  "cb_inv c \<longleftrightarrow> cb_total_size c < 2 ^ 64
     \<and> cb_total_consumed c + length (cb_rest c) = cb_total_size c
     \<and> inside (cb_next_offset c) (drop (cb_next_elem c) (cb_buffers c))"

lemma inside_zero [simp]: "inside 0 bs"
  by (cases bs) simp_all

lemma new_cb_inv:
  "length (all_cells bs) < 2 ^ 64 \<Longrightarrow> cb_inv (new_consuming_buffers bs)"
  by (simp add: cb_inv_def new_consuming_buffers_def cb_rest_def buffer_size_eq)

lemma new_cb_rest [simp]: "cb_rest (new_consuming_buffers bs) = all_cells bs"
  by (simp add: cb_rest_def new_consuming_buffers_def)

lemma prepare_loop_prefix:
  "0 < room \<Longrightarrow> inside offset bs \<Longrightarrow>
   \<exists>k \<le> m. all_cells (prepare_loop m room offset bs) = take k (drop offset (all_cells bs))
     \<and> (0 < m \<and> drop offset (all_cells bs) \<noteq> [] \<longrightarrow> 0 < k)"
proof (induction m room offset bs rule: prepare_loop.induct)
  case (1 m room offset)
  show ?case by (rule exI [of _ 0]) simp
next
  case (2 m room offset b bs)
  define e where "e = buffer_limit (buffer_plus b offset) m"
  have cells_e: "cells e = take m (drop offset (cells b))" by (simp add: e_def)
  have size_e: "buf_size e = min (buf_size b - offset) m" by (simp add: e_def)
  have off: "offset = 0 \<or> offset < buf_size b" using "2.prems"(2) by simp
  have drop_b: "drop offset (all_cells (b # bs)) = drop offset (cells b) @ all_cells bs"
    using off by auto
  show ?case
  proof (cases "0 < m")
    case False
    then show ?thesis by (intro exI [of _ 0]) simp
  next
    case m: True
    show ?thesis
    proof (cases "buf_size e > 0")
      case True
      have loop: "prepare_loop m room offset (b # bs) = e # prepare_loop (m - buf_size e) (room - 1) 0 bs"
        using m True "2.prems"(1) by (simp add: Let_def e_def)
      show ?thesis
      proof (cases "m \<le> buf_size b - offset \<or> room = 1")
        case full: True
        have tail: "all_cells (prepare_loop (m - buf_size e) (room - 1) 0 bs) = []"
          using full size_e by (cases bs) auto
        show ?thesis
        proof (intro exI [of _ "buf_size e"] conjI impI)
          show "all_cells (prepare_loop m room offset (b # bs)) = take (buf_size e) (drop offset (all_cells (b # bs)))"
            unfolding loop drop_b all_cells_simps tail cells_e using size_e by (auto simp: min_def)
        qed (use True size_e in auto)
      next
        case more: False
        have e_all: "cells e = drop offset (cells b)" "buf_size e = buf_size b - offset"
          using more cells_e size_e by auto
        have "\<exists>k \<le> m - buf_size e.
            all_cells (prepare_loop (m - buf_size e) (room - 1) 0 bs) = take k (drop 0 (all_cells bs))
            \<and> (0 < m - buf_size e \<and> drop 0 (all_cells bs) \<noteq> [] \<longrightarrow> 0 < k)"
          using "2.IH"(1) [OF _ e_def True] m "2.prems"(1) more by auto
        then obtain k where k: "k \<le> m - buf_size e"
            "all_cells (prepare_loop (m - buf_size e) (room - 1) 0 bs) = take k (all_cells bs)" by auto
        show ?thesis
        proof (intro exI [of _ "buf_size e + k"] conjI impI)
          show "all_cells (prepare_loop m room offset (b # bs))
              = take (buf_size e + k) (drop offset (all_cells (b # bs)))"
            unfolding loop drop_b all_cells_simps k(2) e_all(1) using e_all(2) off by auto
        qed (use True k(1) size_e in auto)
      qed
    next
      case False
      then have size0: "buf_size b \<le> offset" using size_e m by auto
      then have b0: "buf_size b = 0" "offset = 0" using off by auto
      have loop: "prepare_loop m room offset (b # bs) = prepare_loop (m - buf_size e) room 0 bs"
        using m False "2.prems"(1) by (simp add: Let_def e_def)
      have "cells b = []" using b0(1) by (simp add: cells_def)
      have e0: "m - buf_size e = m" using False by simp
      have "\<exists>k \<le> m - buf_size e.
          all_cells (prepare_loop (m - buf_size e) room 0 bs) = take k (drop 0 (all_cells bs))
          \<and> (0 < m - buf_size e \<and> drop 0 (all_cells bs) \<noteq> [] \<longrightarrow> 0 < k)"
        by (rule "2.IH"(2) [OF _ e_def False "2.prems"(1) inside_zero]) (use m "2.prems"(1) in simp)
      then show ?thesis unfolding loop e0 using \<open>cells b = []\<close> b0(2) by simp
    qed
  qed
qed

text \<open>The elements handed to the operating system are never empty and never more than the array holds.\<close>

lemma prepare_loop_elems:
  "\<forall>e \<in> set (prepare_loop m room offset bs). 0 < buf_size e"
  "length (prepare_loop m room offset bs) \<le> room"
  by (induction m room offset bs rule: prepare_loop.induct) (auto simp: Let_def)

lemma consume_loop_rest:
  assumes "inside offset bs" and "n \<le> length (drop offset (all_cells bs))"
    and "consume_loop n elem offset bs = (elem', offset')"
  shows "drop offset' (all_cells (drop (elem' - elem) bs)) = drop n (drop offset (all_cells bs))
     \<and> inside offset' (drop (elem' - elem) bs) \<and> elem \<le> elem'"
  using assms
proof (induction n elem offset bs rule: consume_loop.induct)
  case (2 n elem offset b bs)
  have off: "offset = 0 \<or> offset < buf_size b" using "2.prems"(1) by simp
  define w where "w = buf_size b - offset"
  show ?case
  proof (cases "n = 0")
    case True
    then show ?thesis using "2.prems" by auto
  next
    case n: False
    show ?thesis
    proof (cases "n < w")
      case True
      then have "elem' = elem" "offset' = offset + n"
        using "2.prems"(3) n by (auto simp: w_def Let_def)
      then show ?thesis using True by (auto simp: w_def add.commute)
    next
      case False
      have step: "consume_loop (n - w) (elem + 1) 0 bs = (elem', offset')"
        using "2.prems"(3) n False by (simp add: w_def Let_def)
      have len: "n - w \<le> length (drop 0 (all_cells bs))"
        using "2.prems"(2) off by (auto simp: w_def)
      have IH: "drop offset' (all_cells (drop (elem' - (elem + 1)) bs)) = drop (n - w) (drop 0 (all_cells bs))
          \<and> inside offset' (drop (elem' - (elem + 1)) bs) \<and> elem + 1 \<le> elem'"
        using "2.IH" [of "buffer_plus b offset"] n False step len by (simp add: w_def)
      have "drop n (drop offset (all_cells (b # bs))) = drop (n - w) (all_cells bs)"
        using False off by (auto simp: w_def)
      moreover have "elem' - elem = Suc (elem' - (elem + 1))" using IH by linarith
      then have "drop (elem' - elem) (b # bs) = drop (elem' - (elem + 1)) bs" by simp
      ultimately show ?thesis using IH by simp
    qed
  qed
qed auto

lemma cb_consume_rest:
  assumes inv: "cb_inv c" and n: "n \<le> length (cb_rest c)"
  shows "cb_rest (cb_consume n c) = drop n (cb_rest c)"
    and "cb_total_consumed (cb_consume n c) = cb_total_consumed c + n"
    and "cb_inv (cb_consume n c)"
proof -
  obtain e' o' where l: "consume_loop n (cb_next_elem c) (cb_next_offset c) (drop (cb_next_elem c) (cb_buffers c)) = (e', o')"
    by (meson surj_pair)
  have i: "inside (cb_next_offset c) (drop (cb_next_elem c) (cb_buffers c))" using inv by (simp add: cb_inv_def)
  from consume_loop_rest [OF i _ l] n have r:
      "drop o' (all_cells (drop (e' - cb_next_elem c) (drop (cb_next_elem c) (cb_buffers c)))) = drop n (cb_rest c)"
      "inside o' (drop (e' - cb_next_elem c) (drop (cb_next_elem c) (cb_buffers c)))" "cb_next_elem c \<le> e'"
    unfolding cb_rest_def by blast+
  have c': "cb_consume n c = c\<lparr>cb_total_consumed := size_t (cb_total_consumed c + n), cb_next_elem := e', cb_next_offset := o'\<rparr>"
    by (simp add: cb_consume_def l)
  have st: "size_t (cb_total_consumed c + n) = cb_total_consumed c + n"
    using inv n by (simp add: cb_inv_def size_t_def)
  show rest: "cb_rest (cb_consume n c) = drop n (cb_rest c)" using r(1,3) by (simp add: c' cb_rest_def)
  show tot: "cb_total_consumed (cb_consume n c) = cb_total_consumed c + n" using st by (simp add: c')
  have "inside (cb_next_offset (cb_consume n c)) (drop (cb_next_elem (cb_consume n c)) (cb_buffers (cb_consume n c)))"
    using r(2,3) by (simp add: c')
  then show "cb_inv (cb_consume n c)" using inv n rest tot by (simp add: cb_inv_def c')
qed

interpretation cb: consuming_view cb_ops cb_inv cb_rest
proof unfold_locales
  fix c :: consuming_buffers and m :: nat
  assume inv: "cb_inv c"
  show "vw_empty cb_ops c \<longleftrightarrow> cb_rest c = []"
    using inv by (auto simp: cb_ops_def cb_empty_def cb_inv_def simp flip: length_0_conv)
  have "inside (cb_next_offset c) (drop (cb_next_elem c) (cb_buffers c))" using inv by (simp add: cb_inv_def)
  from prepare_loop_prefix [OF _ this, of "max_buffers prepared_buffers_max" m]
  show "\<exists>k\<le>m. all_cells (vw_prepare cb_ops m c) = take k (cb_rest c) \<and> (0 < m \<and> cb_rest c \<noteq> [] \<longrightarrow> 0 < k)"
    by (simp add: cb_ops_def cb_prepare_def cb_rest_def max_buffers_def prepared_buffers_max_def)
qed (simp_all add: cb_ops_def cb_consume_rest)

section \<open>One buffer\<close>

definition sb_ops :: "consuming_single_buffer view_ops" where
  "sb_ops = \<lparr>vw_empty = sb_empty, vw_prepare = sb_prepare, vw_consume = sb_consume, vw_total_consumed = sb_consumed\<rparr>"

definition sb_rest :: "consuming_single_buffer \<Rightarrow> nat list" where
  "sb_rest c = drop (sb_consumed c) (cells (sb_buffer c))"

definition sb_inv :: "consuming_single_buffer \<Rightarrow> bool" where
  "sb_inv c \<longleftrightarrow> buf_size (sb_buffer c) < 2 ^ 64 \<and> sb_consumed c \<le> buf_size (sb_buffer c)"

lemma new_sb: "buf_size b < 2 ^ 64 \<Longrightarrow> sb_inv (new_consuming_single_buffer b)"
  "sb_rest (new_consuming_single_buffer b) = cells b" "sb_consumed (new_consuming_single_buffer b) = 0"
  by (simp_all add: sb_inv_def sb_rest_def new_consuming_single_buffer_def)

interpretation sb: consuming_view sb_ops sb_inv sb_rest
proof unfold_locales
  fix c :: consuming_single_buffer and m :: nat
  assume inv: "sb_inv c"
  show "\<exists>k\<le>m. all_cells (vw_prepare sb_ops m c) = take k (sb_rest c) \<and> (0 < m \<and> sb_rest c \<noteq> [] \<longrightarrow> 0 < k)"
    by (intro exI [of _ m]) (simp add: sb_ops_def sb_prepare_def sb_rest_def)
qed (auto simp: sb_ops_def sb_empty_def sb_rest_def sb_inv_def sb_consume_def size_t_def add.commute)

section \<open>Two buffers\<close>

definition pb_ops :: "consuming_pair view_ops" where
  "pb_ops = \<lparr>vw_empty = pb_empty, vw_prepare = pb_prepare, vw_consume = pb_consume, vw_total_consumed = pair_consumed\<rparr>"

definition pb_rest :: "consuming_pair \<Rightarrow> nat list" where
  "pb_rest c = drop (pair_consumed c) (all_cells [fst (pair_buffers c), snd (pair_buffers c)])"

definition pb_inv :: "consuming_pair \<Rightarrow> bool" where
  "pb_inv c \<longleftrightarrow> buf_size (fst (pair_buffers c)) + buf_size (snd (pair_buffers c)) < 2 ^ 64
     \<and> pair_consumed c \<le> buf_size (fst (pair_buffers c)) + buf_size (snd (pair_buffers c))"

lemma new_pb:
  "buf_size b0 + buf_size b1 < 2 ^ 64 \<Longrightarrow> pb_inv (new_consuming_pair (b0, b1))"
  "pb_rest (new_consuming_pair (b0, b1)) = cells b0 @ cells b1"
  by (simp_all add: pb_inv_def pb_rest_def new_consuming_pair_def)

lemma pb_prepare_cells: "all_cells (pb_prepare m c) = take m (pb_rest c)"
  by (cases "pair_buffers c") (auto simp: pb_prepare_def pb_rest_def Let_def min_def)

interpretation pb: consuming_view pb_ops pb_inv pb_rest
proof unfold_locales
  fix c :: consuming_pair and m :: nat
  assume inv: "pb_inv c"
  show "\<exists>k\<le>m. all_cells (vw_prepare pb_ops m c) = take k (pb_rest c) \<and> (0 < m \<and> pb_rest c \<noteq> [] \<longrightarrow> 0 < k)"
    by (intro exI [of _ m]) (simp add: pb_ops_def pb_prepare_cells)
  show "vw_empty pb_ops c \<longleftrightarrow> pb_rest c = []"
    using inv by (auto simp: pb_ops_def pb_empty_def pb_rest_def pb_inv_def size_t_def)
  fix n :: nat
  assume n: "n \<le> length (pb_rest c)"
  have "pair_consumed c + n < 2 ^ 64" using n inv by (simp add: pb_inv_def pb_rest_def) linarith
  then have tot: "pair_consumed (pb_consume n c) = pair_consumed c + n"
    by (simp add: pb_consume_def size_t_def)
  then show "vw_total_consumed pb_ops (vw_consume pb_ops n c) = vw_total_consumed pb_ops c + n"
    by (simp add: pb_ops_def)
  have same: "pair_buffers (pb_consume n c) = pair_buffers c" by (simp add: pb_consume_def)
  show "pb_rest (vw_consume pb_ops n c) = drop n (pb_rest c)"
    unfolding pb_rest_def by (simp add: pb_ops_def tot same add.commute drop_append del: drop_append)
  show "pb_inv (vw_consume pb_ops n c)"
    using n inv by (simp add: pb_ops_def pb_inv_def tot same pb_rest_def) linarith
qed

end
