(* ===== verification/ComposedOps.thy ===== *)
theory ComposedOps
  imports BufferViews
begin

text \<open>
  Composed reads and writes: the completion conditions of \<^verbatim>\<open>asio/completion_condition.hpp\<close>, the blocking loops
  \<open>read_buffer_seq\<close> and \<open>write\<close>, and the state machines \<open>read_op\<close> and \<open>write_op\<close> behind \<open>async_read\<close> and
  \<open>async_write\<close> (\<^verbatim>\<open>asio/impl/read.hpp\<close>, \<^verbatim>\<open>asio/impl/write.hpp\<close>), which \<^verbatim>\<open>luaAsio.cpp\<close> uses for every
  \<open>read\<close> and \<open>write\<close>. The stream is the environment: each operation on it is answered by an error code, a
  number of bytes and whether the composed operation has been cancelled in the meantime; a read takes the next
  bytes of the incoming stream into the buffers it was given, in order, a write sends the bytes the buffers hold.
\<close>

section \<open>Completion conditions\<close>

type_synonym condition = "error_code \<Rightarrow> nat \<Rightarrow> nat"

definition default_max_transfer_size :: nat where
  "default_max_transfer_size = 65536"

definition adapt_bool_result :: "bool \<Rightarrow> nat" where
  "adapt_bool_result result = (if result then 0 else default_max_transfer_size)"

definition adapt_size_result :: "nat \<Rightarrow> nat" where
  "adapt_size_result result = result"

definition transfer_all :: condition where
  "transfer_all err n = (if failed err then 0 else default_max_transfer_size)"

definition transfer_at_least :: "nat \<Rightarrow> condition" where
  "transfer_at_least minimum err bytes_transferred =
     (if failed err \<or> bytes_transferred \<ge> minimum then 0 else default_max_transfer_size)"

definition transfer_exactly :: "nat \<Rightarrow> condition" where
  "transfer_exactly n err bytes_transferred =
     (if failed err \<or> bytes_transferred \<ge> n then 0
      else if n - bytes_transferred < default_max_transfer_size then n - bytes_transferred
      else default_max_transfer_size)"

definition check_for_completion :: "condition \<Rightarrow> error_code \<Rightarrow> nat \<Rightarrow> nat" where
  "check_for_completion cond ec total_transferred = adapt_size_result (cond ec total_transferred)"

section \<open>The blocking loops\<close>

partial_function (option) read_loop ::
  "'v view_ops \<Rightarrow> condition \<Rightarrow> (mutable_buffer list \<Rightarrow> 's \<Rightarrow> error_code \<times> nat \<times> 's) \<Rightarrow> 'v \<Rightarrow> error_code \<Rightarrow> 's
   \<Rightarrow> (nat \<times> error_code \<times> 's) option" where
  "read_loop vops cond read_some tmp ec s =
     (if \<not> vw_empty vops tmp
      then (let max_size = adapt_size_result (cond ec (vw_total_consumed vops tmp))
            in if max_size \<noteq> 0
               then (let (ec', n, s') = read_some (vw_prepare vops max_size tmp) s
                     in read_loop vops cond read_some (vw_consume vops n tmp) ec' s')
               else Some (vw_total_consumed vops tmp, ec, s))
      else Some (vw_total_consumed vops tmp, ec, s))"

definition read_buffer_seq ::
  "'v view_ops \<Rightarrow> condition \<Rightarrow> (mutable_buffer list \<Rightarrow> 's \<Rightarrow> error_code \<times> nat \<times> 's) \<Rightarrow> 'v \<Rightarrow> 's
   \<Rightarrow> (nat \<times> error_code \<times> 's) option" where
  "read_buffer_seq vops cond read_some tmp s = read_loop vops cond read_some tmp ec_success s"

partial_function (option) write_loop ::
  "'v view_ops \<Rightarrow> condition \<Rightarrow> (mutable_buffer list \<Rightarrow> 's \<Rightarrow> error_code \<times> nat \<times> 's) \<Rightarrow> 'v \<Rightarrow> error_code \<Rightarrow> 's
   \<Rightarrow> (nat \<times> error_code \<times> 's) option" where
  "write_loop vops cond write_some tmp ec s =
     (if \<not> vw_empty vops tmp
      then (let max_size = adapt_size_result (cond ec (vw_total_consumed vops tmp))
            in if max_size \<noteq> 0
               then (let (ec', n, s') = write_some (vw_prepare vops max_size tmp) s
                     in write_loop vops cond write_some (vw_consume vops n tmp) ec' s')
               else Some (vw_total_consumed vops tmp, ec, s))
      else Some (vw_total_consumed vops tmp, ec, s))"

definition write_buffer_seq ::
  "'v view_ops \<Rightarrow> condition \<Rightarrow> (mutable_buffer list \<Rightarrow> 's \<Rightarrow> error_code \<times> nat \<times> 's) \<Rightarrow> 'v \<Rightarrow> 's
   \<Rightarrow> (nat \<times> error_code \<times> 's) option" where
  "write_buffer_seq vops cond write_some tmp s = write_loop vops cond write_some tmp ec_success s"

text \<open>The overloads that throw: \<open>throw_error\<close> raises the error code if it is one.\<close>

definition read_throwing ::
  "'v view_ops \<Rightarrow> (mutable_buffer list \<Rightarrow> 's \<Rightarrow> error_code \<times> nat \<times> 's) \<Rightarrow> 'v \<Rightarrow> 's \<Rightarrow> ((error_code + nat) \<times> 's) option" where
  "read_throwing vops read_some tmp s =
     map_option (\<lambda>(n, ec, s'). (if failed ec then Inl ec else Inr n, s')) (read_buffer_seq vops transfer_all read_some tmp s)"

definition write_throwing ::
  "'v view_ops \<Rightarrow> (mutable_buffer list \<Rightarrow> 's \<Rightarrow> error_code \<times> nat \<times> 's) \<Rightarrow> 'v \<Rightarrow> 's \<Rightarrow> ((error_code + nat) \<times> 's) option" where
  "write_throwing vops write_some tmp s =
     map_option (\<lambda>(n, ec, s'). (if failed ec then Inl ec else Inr n, s')) (write_buffer_seq vops transfer_all write_some tmp s)"

declare read_loop.simps [code] write_loop.simps [code]

section \<open>The asynchronous operations\<close>

record 'v read_op =
  ro_buffers :: 'v
  ro_start :: int

record 'v write_op =
  wo_buffers :: 'v
  wo_start :: int

text \<open>What a call of the operation does: it starts the next operation on the stream, or calls the handler.\<close>

datatype 'o op_step =
    AsyncSome "mutable_buffer list" 'o
  | CallHandler error_code nat

definition new_read_op :: "'v \<Rightarrow> 'v read_op" where
  "new_read_op bs = \<lparr>ro_buffers = bs, ro_start = 0\<rparr>"

definition new_write_op :: "'v \<Rightarrow> 'v write_op" where
  "new_write_op bs = \<lparr>wo_buffers = bs, wo_start = 0\<rparr>"

definition read_op_call ::
  "'v view_ops \<Rightarrow> condition \<Rightarrow> bool \<Rightarrow> error_code \<Rightarrow> nat \<Rightarrow> int \<Rightarrow> 'v read_op \<Rightarrow> 'v read_op op_step" where
  "read_op_call vops cond cancelled ec bytes_transferred start this0 =
     (let this = this0\<lparr>ro_start := start\<rparr>
      in if start = 1
         then (let max_size = check_for_completion cond ec (vw_total_consumed vops (ro_buffers this))
               in AsyncSome (vw_prepare vops max_size (ro_buffers this)) this)
         else (let this = this\<lparr>ro_buffers := vw_consume vops bytes_transferred (ro_buffers this)\<rparr>
               in if (\<not> failed ec \<and> bytes_transferred = 0) \<or> vw_empty vops (ro_buffers this)
                  then CallHandler ec (vw_total_consumed vops (ro_buffers this))
                  else (let max_size = check_for_completion cond ec (vw_total_consumed vops (ro_buffers this))
                        in if max_size = 0 then CallHandler ec (vw_total_consumed vops (ro_buffers this))
                           else if cancelled
                                then CallHandler (basic_ec operation_aborted) (vw_total_consumed vops (ro_buffers this))
                                else AsyncSome (vw_prepare vops max_size (ro_buffers this)) this)))"

definition write_op_call ::
  "'v view_ops \<Rightarrow> condition \<Rightarrow> bool \<Rightarrow> error_code \<Rightarrow> nat \<Rightarrow> int \<Rightarrow> 'v write_op \<Rightarrow> 'v write_op op_step" where
  "write_op_call vops cond cancelled ec bytes_transferred start this0 =
     (let this = this0\<lparr>wo_start := start\<rparr>
      in if start = 1
         then (let max_size = check_for_completion cond ec (vw_total_consumed vops (wo_buffers this))
               in AsyncSome (vw_prepare vops max_size (wo_buffers this)) this)
         else (let this = this\<lparr>wo_buffers := vw_consume vops bytes_transferred (wo_buffers this)\<rparr>
               in if (\<not> failed ec \<and> bytes_transferred = 0) \<or> vw_empty vops (wo_buffers this)
                  then CallHandler ec (vw_total_consumed vops (wo_buffers this))
                  else (let max_size = check_for_completion cond ec (vw_total_consumed vops (wo_buffers this))
                        in if max_size = 0 then CallHandler ec (vw_total_consumed vops (wo_buffers this))
                           else if cancelled
                                then CallHandler (basic_ec operation_aborted) (vw_total_consumed vops (wo_buffers this))
                                else AsyncSome (vw_prepare vops max_size (wo_buffers this)) this)))"

definition read_is_continuation :: "'v read_op \<Rightarrow> bool \<Rightarrow> bool" where
  "read_is_continuation this handler_is_continuation =
     (if ro_start this = 0 then True else handler_is_continuation)"

definition write_is_continuation :: "'v write_op \<Rightarrow> bool \<Rightarrow> bool" where
  "write_is_continuation this handler_is_continuation =
     (if wo_start this = 0 then True else handler_is_continuation)"

definition start_read_op :: "'v view_ops \<Rightarrow> condition \<Rightarrow> 'v \<Rightarrow> 'v read_op op_step" where
  "start_read_op vops cond bs = read_op_call vops cond False ec_success 0 1 (new_read_op bs)"

definition start_write_op :: "'v view_ops \<Rightarrow> condition \<Rightarrow> 'v \<Rightarrow> 'v write_op op_step" where
  "start_write_op vops cond bs = write_op_call vops cond False ec_success 0 1 (new_write_op bs)"

section \<open>The stream under the operation\<close>

record 'b stream =
  incoming :: "'b list"
  memory :: "nat \<Rightarrow> 'b"
  outgoing :: "'b list"

type_synonym stream_answer = "error_code \<times> nat \<times> bool"

definition deposit :: "nat list \<Rightarrow> 'b list \<Rightarrow> (nat \<Rightarrow> 'b) \<Rightarrow> nat \<Rightarrow> 'b" where
  "deposit as bs m = fold (\<lambda>(a, b) m. m(a := b)) (zip as bs) m"

definition recv_bytes :: "mutable_buffer list \<Rightarrow> nat \<Rightarrow> 'b stream \<Rightarrow> nat \<times> 'b stream" where
  "recv_bytes bufs k w =
     (let n = min k (min (length (all_cells bufs)) (length (incoming w)))
      in (n, w\<lparr>incoming := drop n (incoming w),
               memory := deposit (take n (all_cells bufs)) (take n (incoming w)) (memory w)\<rparr>))"

definition send_bytes :: "mutable_buffer list \<Rightarrow> nat \<Rightarrow> 'b stream \<Rightarrow> nat \<times> 'b stream" where
  "send_bytes bufs k w =
     (let n = min k (length (all_cells bufs))
      in (n, w\<lparr>outgoing := outgoing w @ map (memory w) (take n (all_cells bufs))\<rparr>))"

text \<open>The operation and its answers, until the handler is called or no more answers have come. \<open>xfer\<close> is
  what the stream does with the buffers of one operation.\<close>

fun drive_read :: "(mutable_buffer list \<Rightarrow> nat \<Rightarrow> 'w \<Rightarrow> nat \<times> 'w) \<Rightarrow> 'v view_ops \<Rightarrow> condition \<Rightarrow> stream_answer list
    \<Rightarrow> 'v read_op op_step \<Rightarrow> 'w \<Rightarrow> 'v read_op op_step \<times> 'w" where
  "drive_read xfer vops cond as (CallHandler ec n) w = (CallHandler ec n, w)"
| "drive_read xfer vops cond [] (AsyncSome bufs this) w = (AsyncSome bufs this, w)"
| "drive_read xfer vops cond ((ec, k, cancelled) # as) (AsyncSome bufs this) w =
     (let (n, w') = xfer bufs k w
      in drive_read xfer vops cond as (read_op_call vops cond cancelled ec n 0 this) w')"

fun drive_write :: "(mutable_buffer list \<Rightarrow> nat \<Rightarrow> 'w \<Rightarrow> nat \<times> 'w) \<Rightarrow> 'v view_ops \<Rightarrow> condition \<Rightarrow> stream_answer list
    \<Rightarrow> 'v write_op op_step \<Rightarrow> 'w \<Rightarrow> 'v write_op op_step \<times> 'w" where
  "drive_write xfer vops cond as (CallHandler ec n) w = (CallHandler ec n, w)"
| "drive_write xfer vops cond [] (AsyncSome bufs this) w = (AsyncSome bufs this, w)"
| "drive_write xfer vops cond ((ec, k, cancelled) # as) (AsyncSome bufs this) w =
     (let (n, w') = xfer bufs k w
      in drive_write xfer vops cond as (write_op_call vops cond cancelled ec n 0 this) w')"

text \<open>The two operations are the same machine.\<close>

definition as_write_op :: "'v read_op \<Rightarrow> 'v write_op" where
  "as_write_op r = \<lparr>wo_buffers = ro_buffers r, wo_start = ro_start r\<rparr>"

lemma write_op_call_as_read:
  "write_op_call vops cond cancelled ec n start (as_write_op r)
     = map_op_step as_write_op (read_op_call vops cond cancelled ec n start r)"
  by (simp add: write_op_call_def read_op_call_def as_write_op_def Let_def)

lemma drive_write_as_read:
  "drive_write xfer vops cond as (map_op_step as_write_op st) w
     = map_prod (map_op_step as_write_op) id (drive_read xfer vops cond as st w)"
  by (induction xfer vops cond as st w rule: drive_read.induct)
    (simp_all add: write_op_call_as_read case_prod_beta Let_def)

lemma start_write_as_read:
  "start_write_op vops cond v = map_op_step as_write_op (start_read_op vops cond v)"
proof -
  have "new_write_op v = as_write_op (new_read_op v)" by (simp add: new_write_op_def new_read_op_def as_write_op_def)
  then show ?thesis by (simp add: start_write_op_def start_read_op_def write_op_call_as_read)
qed

end
