(* ===== verification/ComposedSpec.thy ===== *)
theory ComposedSpec
  imports ComposedOps
begin

text \<open>
  What composed reads and writes do to memory and stream, for every view that keeps the contract
  \<open>consuming_view\<close>, and the resulting properties of \<open>async_read\<close> and \<open>async_write\<close>.
\<close>

section \<open>Depositing bytes\<close>

lemma deposit_simps [simp]:
  "deposit [] bs m = m" "deposit as [] m = m"
  by (simp_all add: deposit_def)

lemma deposit_append:
  "length as = length bs \<Longrightarrow> deposit (as @ as') (bs @ bs') m = deposit as' bs' (deposit as bs m)"
  by (simp add: deposit_def)

lemma deposit_outside: "a \<notin> set as \<Longrightarrow> deposit as bs m a = m a"
proof (induction as arbitrary: bs m)
  case (Cons x as)
  then show ?case by (cases bs) (auto simp: deposit_def)
qed simp

lemma deposit_inside:
  "distinct as \<Longrightarrow> length as = length bs \<Longrightarrow> map (deposit as bs m) as = bs"
proof (induction as arbitrary: bs m)
  case (Cons x as)
  then obtain y ys where bs: "bs = y # ys" by (cases bs) auto
  have "deposit (x # as) (y # ys) m = deposit as ys (m(x := y))" by (simp add: deposit_def)
  then show ?case using Cons by (simp add: bs deposit_outside)
qed simp

section \<open>Reads and writes on any view\<close>

text \<open>Why an operation ended: everything is transferred, the condition says so, it was cancelled, or the
  stream reported success for nothing.\<close>

definition ended :: "condition \<Rightarrow> stream_answer list \<Rightarrow> bool \<Rightarrow> error_code \<Rightarrow> nat \<Rightarrow> bool \<Rightarrow> bool" where
  "ended cond as dry ec t complete \<longleftrightarrow>
     complete
     \<or> cond ec t = 0
     \<or> ec = basic_ec operation_aborted \<and> (\<exists>(e, k, c) \<in> set as. c)
     \<or> \<not> failed ec \<and> (\<exists>(e, k, c) \<in> set as. \<not> failed e \<and> (k = 0 \<or> dry))"

lemma ended_Cons: "ended cond as dry ec t complete \<Longrightarrow> ended cond (a # as) dry ec t complete"
  unfolding ended_def list.set by blast

lemmas call_defs = read_op_call_def check_for_completion_def adapt_size_result_def

context consuming_view
begin

lemma read_op_call_next:
  assumes "read_op_call vops cond cancelled ec n 0 this = AsyncSome bufs this'"
  shows "ro_buffers this' = vw_consume vops n (ro_buffers this)"
    and "0 < cond ec (vw_total_consumed vops (ro_buffers this'))"
    and "bufs = vw_prepare vops (cond ec (vw_total_consumed vops (ro_buffers this'))) (ro_buffers this')"
    and "\<not> failed ec \<Longrightarrow> 0 < n" and "\<not> vw_empty vops (ro_buffers this')"
  using assms by (auto simp: call_defs Let_def split: if_splits)

lemma read_op_call_end:
  assumes "read_op_call vops cond cancelled ec n 0 this = CallHandler ec' t"
  shows "t = vw_total_consumed vops (vw_consume vops n (ro_buffers this))"
    and "vw_empty vops (vw_consume vops n (ro_buffers this)) \<or> cond ec' t = 0
      \<or> ec' = basic_ec operation_aborted \<and> cancelled \<or> ec' = ec \<and> \<not> failed ec \<and> n = 0"
  using assms by (auto simp: call_defs Let_def split: if_splits)

text \<open>An operation over its whole life, for a stream whose transfers have the effect \<open>eff\<close>.\<close>

lemma drive_effect:
  assumes xfer: "\<And>v m k w n w1. vinv v \<Longrightarrow> xfer (vw_prepare vops m v) k w = (n, w1) \<Longrightarrow>
      n \<le> length (rest v) \<and> eff v n w w1 \<and> (n = 0 \<longrightarrow> 0 < m \<longrightarrow> rest v \<noteq> [] \<longrightarrow> k = 0 \<or> dry w1)"
    and zero: "\<And>v w. eff v 0 w w"
    and trans: "\<And>v n n' w w1 w2. vinv v \<Longrightarrow> eff v n w w1 \<Longrightarrow> n \<le> length (rest v) \<Longrightarrow>
      eff (vw_consume vops n v) n' w1 w2 \<Longrightarrow> eff v (n + n') w w2"
    and "vinv (ro_buffers this)" and "bufs = vw_prepare vops m (ro_buffers this)"
    and "drive_read xfer vops cond as (AsyncSome bufs this) w = (st, w')"
  shows "\<exists>n \<le> length (rest (ro_buffers this)). eff (ro_buffers this) n w w'
    \<and> (\<forall>ec t. st = CallHandler ec t \<longrightarrow> t = vw_total_consumed vops (ro_buffers this) + n
        \<and> ((rest (ro_buffers this) = [] \<or> 0 < m) \<longrightarrow>
             ended cond as (dry w') ec t (n = length (rest (ro_buffers this)))))"
  using assms(4-6)
proof (induction as arbitrary: this bufs m w)
  case Nil
  then have "st = AsyncSome bufs this" "w' = w" by simp_all
  then show ?case using zero by auto
next
  case (Cons a as)
  obtain ec k cancelled where a: "a = (ec, k, cancelled)" by (cases a) auto
  obtain n w1 where r: "xfer bufs k w = (n, w1)" by (meson surj_pair)
  let ?v = "ro_buffers this" let ?v1 = "vw_consume vops n ?v"
  have run: "drive_read xfer vops cond as (read_op_call vops cond cancelled ec n 0 this) w1 = (st, w')"
    using Cons.prems(3) by (simp add: a r)
  from xfer [OF Cons.prems(1) r [unfolded Cons.prems(2)]]
  have le: "n \<le> length (rest ?v)" and eff: "eff ?v n w w1"
    and nil: "n = 0 \<Longrightarrow> 0 < m \<Longrightarrow> rest ?v \<noteq> [] \<Longrightarrow> k = 0 \<or> dry w1" by blast+
  have inv1: "vinv ?v1" using Cons.prems(1) le by (rule consume_inv)
  have rest1: "rest ?v1 = drop n (rest ?v)" using Cons.prems(1) le by (rule consume_rest)
  have total1: "vw_total_consumed vops ?v1 = vw_total_consumed vops ?v + n"
    using Cons.prems(1) le by (rule consume_total)
  have empty1: "vw_empty vops ?v1 \<longleftrightarrow> n = length (rest ?v)"
    using empty_iff [OF inv1] rest1 le by auto
  show ?case
  proof (cases "read_op_call vops cond cancelled ec n 0 this")
    case (CallHandler ec' t)
    note e = read_op_call_end [OF CallHandler]
    have st: "st = CallHandler ec' t" "w' = w1" using run CallHandler by simp_all
    have E: "ended cond (a # as) (dry w') ec' t (n = length (rest ?v))" if m: "rest ?v = [] \<or> 0 < m"
    proof (cases "n = 0 \<and> \<not> failed ec \<and> ec' = ec \<and> rest ?v \<noteq> []")
      case True
      then have "k = 0 \<or> dry w1" using nil m by blast
      then show ?thesis using True st(2) unfolding ended_def a by auto
    next
      case False
      then show ?thesis using e(2) le unfolding ended_def a empty1 by fastforce
    qed
    have "t2 = vw_total_consumed vops ?v + n
        \<and> ((rest ?v = [] \<or> 0 < m) \<longrightarrow> ended cond (a # as) (dry w') ec2 t2 (n = length (rest ?v)))"
      if "st = CallHandler ec2 t2" for ec2 t2 using that E e(1) total1 st(1) by (metis op_step.inject(2))
    then show ?thesis using eff le st(2) by blast
  next
    case (AsyncSome bufs1 this1)
    note nx = read_op_call_next [OF AsyncSome]
    have "vinv (ro_buffers this1)" using inv1 nx(1) by simp
    from Cons.IH [OF this nx(3) run [unfolded AsyncSome]] obtain n2 where n2:
        "n2 \<le> length (rest ?v1)" "eff ?v1 n2 w1 w'"
        "\<And>ec t. st = CallHandler ec t \<Longrightarrow> t = vw_total_consumed vops ?v1 + n2
           \<and> ended cond as (dry w') ec t (n2 = length (rest ?v1))"
      unfolding nx(1) using nx(2) nx(1) by auto
    have all: "n2 = length (rest ?v1) \<longleftrightarrow> n + n2 = length (rest ?v)"
      using le rest1 by auto
    have "n + n2 \<le> length (rest ?v)" using n2(1) rest1 le by simp
    moreover have "eff ?v (n + n2) w w'" by (rule trans [OF Cons.prems(1) eff le n2(2)])
    moreover have "t = vw_total_consumed vops ?v + (n + n2)
        \<and> ended cond (a # as) (dry w') ec t (n + n2 = length (rest ?v))"
      if "st = CallHandler ec t" for ec t
      using n2(3) [OF that] total1 unfolding all by (auto intro: ended_Cons)
    ultimately show ?thesis by blast
  qed
qed

text \<open>Every successful round but the last transfers something, so the operation ends.\<close>

lemma drive_ends:
  assumes xfer: "\<And>v m k w n w1. vinv v \<Longrightarrow> xfer (vw_prepare vops m v) k w = (n, w1) \<Longrightarrow> n \<le> length (rest v)"
    and stop: "\<And>ec t. failed ec \<Longrightarrow> cond ec t = 0"
    and "vinv (ro_buffers this)" and "bufs = vw_prepare vops m (ro_buffers this)"
    and "length (rest (ro_buffers this)) < length as"
  shows "\<exists>ec t. fst (drive_read xfer vops cond as (AsyncSome bufs this) w) = CallHandler ec t"
  using assms(3-5)
proof (induction as arbitrary: this bufs m w)
  case (Cons a as)
  obtain ec k cancelled where a: "a = (ec, k, cancelled)" by (cases a) auto
  obtain n w1 where r: "xfer bufs k w = (n, w1)" by (meson surj_pair)
  have le: "n \<le> length (rest (ro_buffers this))"
    using xfer [OF Cons.prems(1) r [unfolded Cons.prems(2)]] .
  show ?case
  proof (cases "read_op_call vops cond cancelled ec n 0 this")
    case (AsyncSome bufs1 this1)
    note nx = read_op_call_next [OF AsyncSome]
    have "0 < n" using nx(2,4) stop by (metis less_numeral_extra(3))
    moreover have "rest (ro_buffers this1) = drop n (rest (ro_buffers this))"
      unfolding nx(1) using Cons.prems(1) le by (rule consume_rest)
    ultimately have lt: "length (rest (ro_buffers this1)) < length as"
      using Cons.prems(3) le by auto
    have "vinv (ro_buffers this1)" unfolding nx(1) using Cons.prems(1) le by (rule consume_inv)
    from Cons.IH [OF this nx(3) lt] show ?thesis by (simp add: a r AsyncSome)
  qed (simp add: a r)
qed simp

section \<open>The effects of the two streams\<close>

definition read_effect :: "'v \<Rightarrow> nat \<Rightarrow> 'b stream \<Rightarrow> 'b stream \<Rightarrow> bool" where
  "read_effect v n w w' \<longleftrightarrow> n \<le> length (incoming w) \<and> incoming w' = drop n (incoming w)
     \<and> memory w' = deposit (take n (rest v)) (take n (incoming w)) (memory w)
     \<and> outgoing w' = outgoing w"

definition write_effect :: "'v \<Rightarrow> nat \<Rightarrow> 'b stream \<Rightarrow> 'b stream \<Rightarrow> bool" where
  "write_effect v n w w' \<longleftrightarrow> incoming w' = incoming w \<and> memory w' = memory w
     \<and> outgoing w' = outgoing w @ map (memory w) (take n (rest v))"

lemma recv_prepared:
  assumes inv: "vinv v" and r: "recv_bytes (vw_prepare vops m v) k w = (n, w')"
  shows "n \<le> length (rest v) \<and> read_effect v n w w'
    \<and> (n = 0 \<longrightarrow> 0 < m \<longrightarrow> rest v \<noteq> [] \<longrightarrow> k = 0 \<or> incoming w' = [])"
proof -
  have n: "n = min k (min (length (all_cells (vw_prepare vops m v))) (length (incoming w)))"
    using r by (auto simp: recv_bytes_def Let_def)
  have le: "n \<le> length (all_cells (vw_prepare vops m v))" by (simp add: n)
  have "n \<le> length (rest v)" using le prepare_le [OF inv, of m] by linarith
  moreover have "read_effect v n w w'"
    using r prepare_take [OF inv le] n by (auto simp: read_effect_def recv_bytes_def Let_def)
  moreover have "k = 0 \<or> incoming w' = []" if "n = 0" "0 < m" "rest v \<noteq> []"
    using prepare_nonempty [OF inv that(2,3)] that(1) n r
    by (auto simp: recv_bytes_def Let_def min_def split: if_splits)
  ultimately show ?thesis by blast
qed

lemma send_prepared:
  assumes inv: "vinv v" and r: "send_bytes (vw_prepare vops m v) k w = (n, w')"
  shows "n \<le> length (rest v) \<and> write_effect v n w w'
    \<and> (n = 0 \<longrightarrow> 0 < m \<longrightarrow> rest v \<noteq> [] \<longrightarrow> k = 0 \<or> False)"
proof -
  have n: "n = min k (length (all_cells (vw_prepare vops m v)))"
    using r by (auto simp: send_bytes_def Let_def)
  have le: "n \<le> length (all_cells (vw_prepare vops m v))" by (simp add: n)
  have "n \<le> length (rest v)" using le prepare_le [OF inv, of m] by linarith
  moreover have "write_effect v n w w'"
    using r prepare_take [OF inv le] by (auto simp: write_effect_def send_bytes_def Let_def)
  moreover have "k = 0" if "n = 0" "0 < m" "rest v \<noteq> []"
    using prepare_nonempty [OF inv that(2,3)] that(1) n by (auto simp: min_def split: if_splits)
  ultimately show ?thesis by blast
qed

lemma read_effect_trans:
  assumes v: "vinv v" "read_effect v n w w1" "n \<le> length (rest v)"
    and n2: "read_effect (vw_consume vops n v) n2 w1 w2"
  shows "read_effect v (n + n2) w w2"
proof -
  have n: "n \<le> length (incoming w)" using v(2) by (simp add: read_effect_def)
  have r: "rest (vw_consume vops n v) = drop n (rest v)" using v(1,3) by (rule consume_rest)
  have i: "incoming w1 = drop n (incoming w)" using v(2) by (simp add: read_effect_def)
  have "deposit (take (n + n2) (rest v)) (take (n + n2) (incoming w)) (memory w)
      = deposit (take n2 (drop n (rest v))) (take n2 (drop n (incoming w)))
          (deposit (take n (rest v)) (take n (incoming w)) (memory w))"
    unfolding take_add using n v(3) by (intro deposit_append) simp
  then show ?thesis using v(2) n2 n unfolding read_effect_def r i
    by (auto simp: add.commute)
qed

lemma write_effect_trans:
  assumes v: "vinv v" "write_effect v n w w1" "n \<le> length (rest v)"
    and n2: "write_effect (vw_consume vops n v) n2 w1 w2"
  shows "write_effect v (n + n2) w w2"
proof -
  have r: "rest (vw_consume vops n v) = drop n (rest v)" using v(1,3) by (rule consume_rest)
  show ?thesis using v(2) n2 unfolding write_effect_def r take_add by auto
qed

lemma start_read:
  assumes "vinv v" and "vw_total_consumed vops v = 0"
  obtains this where "start_read_op vops cond v = AsyncSome (vw_prepare vops (cond ec_success 0) v) this"
    "ro_buffers this = v"
  using assms(2) by (simp add: start_read_op_def call_defs new_read_op_def)

lemma read_whole:
  assumes v: "vinv v" "vw_total_consumed vops v = 0" and pos: "0 < cond ec_success 0"
    and run: "drive_read recv_bytes vops cond as (start_read_op vops cond v) w = (st, w')"
  shows "\<exists>n \<le> length (rest v). read_effect v n w w'
    \<and> (\<forall>ec t. st = CallHandler ec t \<longrightarrow> t = n \<and> ended cond as (incoming w' = []) ec t (n = length (rest v)))"
proof -
  obtain this where s: "start_read_op vops cond v = AsyncSome (vw_prepare vops (cond ec_success 0) v) this"
    "ro_buffers this = v" using start_read [OF v] .
  have "\<exists>n \<le> length (rest (ro_buffers this)). read_effect (ro_buffers this) n w w'
    \<and> (\<forall>ec t. st = CallHandler ec t \<longrightarrow> t = vw_total_consumed vops (ro_buffers this) + n
        \<and> ((rest (ro_buffers this) = [] \<or> 0 < cond ec_success 0) \<longrightarrow>
             ended cond as (incoming w' = []) ec t (n = length (rest (ro_buffers this)))))"
  proof (rule drive_effect [where xfer = recv_bytes and eff = read_effect and dry = "\<lambda>w. incoming w = []"])
    show "drive_read recv_bytes vops cond as (AsyncSome (vw_prepare vops (cond ec_success 0) v) this) w = (st, w')"
      using run by (simp add: s(1))
  qed (rule recv_prepared, assumption, assumption, simp add: read_effect_def,
      rule read_effect_trans, assumption+, simp_all add: s(2) v(1))
  then show ?thesis using v(2) pos by (simp add: s(2))
qed

lemma write_whole:
  assumes v: "vinv v" "vw_total_consumed vops v = 0" and pos: "0 < cond ec_success 0"
    and run: "drive_read send_bytes vops cond as (start_read_op vops cond v) w = (st, w')"
  shows "\<exists>n \<le> length (rest v). write_effect v n w w'
    \<and> (\<forall>ec t. st = CallHandler ec t \<longrightarrow> t = n \<and> ended cond as False ec t (n = length (rest v)))"
proof -
  obtain this where s: "start_read_op vops cond v = AsyncSome (vw_prepare vops (cond ec_success 0) v) this"
    "ro_buffers this = v" using start_read [OF v] .
  have "\<exists>n \<le> length (rest (ro_buffers this)). write_effect (ro_buffers this) n w w'
    \<and> (\<forall>ec t. st = CallHandler ec t \<longrightarrow> t = vw_total_consumed vops (ro_buffers this) + n
        \<and> ((rest (ro_buffers this) = [] \<or> 0 < cond ec_success 0) \<longrightarrow>
             ended cond as False ec t (n = length (rest (ro_buffers this)))))"
  proof (rule drive_effect [where xfer = send_bytes and eff = write_effect and dry = "\<lambda>w. False"])
    show "drive_read send_bytes vops cond as (AsyncSome (vw_prepare vops (cond ec_success 0) v) this) w = (st, w')"
      using run by (simp add: s(1))
  qed (rule send_prepared, assumption, assumption, simp add: write_effect_def,
      rule write_effect_trans, assumption+, simp_all add: s(2) v(1))
  then show ?thesis using v(2) pos by (simp add: s(2))
qed

text \<open>An operation whose condition never asks for more than is left up to \<open>bound\<close> stays within it.\<close>

lemma drive_bounded:
  assumes xfer: "\<And>v m k w n w1. vinv v \<Longrightarrow> xfer (vw_prepare vops m v) k w = (n, w1) \<Longrightarrow>
      n \<le> length (all_cells (vw_prepare vops m v))"
    and cond: "\<And>ec t. t \<le> bound \<Longrightarrow> t + cond ec t \<le> bound"
    and "vinv (ro_buffers this)" and "bufs = vw_prepare vops m (ro_buffers this)"
    and "vw_total_consumed vops (ro_buffers this) + m \<le> bound"
    and "fst (drive_read xfer vops cond as (AsyncSome bufs this) w) = CallHandler ec t"
  shows "t \<le> bound"
  using assms(3-6)
proof (induction as arbitrary: this bufs m w)
  case (Cons a as)
  obtain e k cancelled where a: "a = (e, k, cancelled)" by (cases a) auto
  obtain n w1 where r: "xfer bufs k w = (n, w1)" by (meson surj_pair)
  let ?v = "ro_buffers this"
  have "n \<le> length (all_cells (vw_prepare vops m ?v))"
    using xfer [OF Cons.prems(1) r [unfolded Cons.prems(2)]] .
  then have le: "n \<le> m" "n \<le> length (rest ?v)"
    using prepare_le_max [OF Cons.prems(1), of m] prepare_le [OF Cons.prems(1), of m] by linarith+
  have tot: "vw_total_consumed vops (vw_consume vops n ?v) \<le> bound"
    using consume_total [OF Cons.prems(1) le(2)] le(1) Cons.prems(3) by linarith
  have run: "fst (drive_read xfer vops cond as (read_op_call vops cond cancelled e n 0 this) w1) = CallHandler ec t"
    using Cons.prems(4) by (simp add: a r)
  show ?case
  proof (cases "read_op_call vops cond cancelled e n 0 this")
    case (CallHandler ec' t')
    then show ?thesis using run read_op_call_end(1) [OF CallHandler] tot by simp
  next
    case (AsyncSome bufs1 this1)
    note nx = read_op_call_next [OF AsyncSome]
    have "vinv (ro_buffers this1)" unfolding nx(1) using Cons.prems(1) le(2) by (rule consume_inv)
    then show ?thesis
      using nx(3) cond [OF tot] run unfolding AsyncSome nx(1) [symmetric] by (rule Cons.IH)
  qed
qed simp

end

section \<open>The properties\<close>

lemmas run_defs = start_read_op_def read_op_call_def new_read_op_def check_for_completion_def
  adapt_size_result_def transfer_all_def default_max_transfer_size_def cb_ops_def cb_prepare_def
  cb_consume_def cb_empty_def new_consuming_buffers_def sb_ops_def sb_prepare_def sb_consume_def
  sb_empty_def new_consuming_single_buffer_def start_write_op_def write_op_call_def new_write_op_def
  recv_bytes_def send_bytes_def Let_def buffer_size_def size_t_def max_buffers_def
  prepared_buffers_max_def failed_def ec_success_def basic_ec_def cells_def upt_rec

lemma failed_aborted [simp]: "failed (basic_ec operation_aborted)"
  by (simp add: failed_def basic_ec_def)

lemma transfer_all_iff: "transfer_all ec t = 0 \<longleftrightarrow> failed ec"
  by (simp add: transfer_all_def default_max_transfer_size_def)

lemma ended_transfer_all:
  "ended transfer_all as dry ec t complete \<Longrightarrow> \<not> failed ec \<Longrightarrow>
   complete \<or> (\<exists>(e, k, c) \<in> set as. \<not> failed e \<and> (k = 0 \<or> dry))"
  unfolding ended_def transfer_all_iff by auto

text \<open>C16: \<open>async_read\<close> of a sequence of disjoint buffers with \<open>transfer_all\<close> (the default): whatever the
  stream answers and whenever the operation is cancelled, the bytes that arrived lie in the buffers in order
  and without a gap, nothing else of the memory is changed and no byte of the stream is lost; the handler gets
  their number; it gets success only when every buffer is full or the stream reported success for nothing; and
  it is called after at most as many answers as there are bytes, plus one.\<close>

theorem async_read_correct:
  assumes "length (all_cells bs) < 2 ^ 64" and "distinct (all_cells bs)"
    and "drive_read recv_bytes cb_ops transfer_all as
      (start_read_op cb_ops transfer_all (new_consuming_buffers bs)) w = (st, w')"
  shows "\<exists>n \<le> length (all_cells bs). n \<le> length (incoming w)
    \<and> map (memory w') (take n (all_cells bs)) = take n (incoming w)
    \<and> incoming w' = drop n (incoming w)
    \<and> (\<forall>a. a \<notin> set (take n (all_cells bs)) \<longrightarrow> memory w' a = memory w a)
    \<and> (\<forall>ec t. st = CallHandler ec t \<longrightarrow> t = n \<and>
         (\<not> failed ec \<longrightarrow> n = length (all_cells bs)
            \<or> (\<exists>(e, k, c) \<in> set as. \<not> failed e \<and> (k = 0 \<or> incoming w' = []))))
    \<and> (length (all_cells bs) < length as \<longrightarrow> (\<exists>ec t. st = CallHandler ec t))"
proof -
  let ?v = "new_consuming_buffers bs"
  have v: "cb_inv ?v" "vw_total_consumed cb_ops ?v = 0"
    using new_cb_inv [OF assms(1)] by (simp_all add: cb_ops_def new_consuming_buffers_def)
  have pos: "0 < transfer_all ec_success 0" by (simp add: transfer_all_def default_max_transfer_size_def)
  from cb.read_whole [OF v pos assms(3)] obtain n where n: "n \<le> length (all_cells bs)"
      "cb.read_effect ?v n w w'"
      "\<And>ec t. st = CallHandler ec t \<Longrightarrow>
         t = n \<and> ended transfer_all as (incoming w' = []) ec t (n = length (all_cells bs))"
    by auto
  have m: "memory w' = deposit (take n (all_cells bs)) (take n (incoming w)) (memory w)" "n \<le> length (incoming w)"
    "incoming w' = drop n (incoming w)"
    using n(2) by (simp_all add: cb.read_effect_def)
  have "map (memory w') (take n (all_cells bs)) = take n (incoming w)"
    unfolding m(1) using assms(2) n(1) m(2) by (intro deposit_inside) simp_all
  moreover have "\<exists>ec t. st = CallHandler ec t" if "length (all_cells bs) < length as"
  proof -
    obtain this where s: "start_read_op cb_ops transfer_all ?v
        = AsyncSome (vw_prepare cb_ops (transfer_all ec_success 0) ?v) this" "ro_buffers this = ?v"
      using cb.start_read [OF v] .
    have "\<exists>ec t. fst (drive_read recv_bytes cb_ops transfer_all as
        (AsyncSome (vw_prepare cb_ops (transfer_all ec_success 0) ?v) this) w) = CallHandler ec t"
      by (rule cb.drive_ends [OF conjunct1 [OF cb.recv_prepared]])
        (use s(2) v(1) that in \<open>simp_all add: transfer_all_iff\<close>)
    then show ?thesis using assms(3) by (simp add: s(1))
  qed
  moreover have "t = n \<and> (\<not> failed ec \<longrightarrow> n = length (all_cells bs)
      \<or> (\<exists>(e, k, c) \<in> set as. \<not> failed e \<and> (k = 0 \<or> incoming w' = [])))" if "st = CallHandler ec t" for ec t
    using n(3) [OF that] ended_transfer_all by blast
  moreover have "\<forall>a. a \<notin> set (take n (all_cells bs)) \<longrightarrow> memory w' a = memory w a"
    unfolding m(1) by (simp add: deposit_outside)
  ultimately show ?thesis using n(1) m(2,3) by blast
qed

text \<open>Two buffers of three bytes and one of none, filled by reads of two, three and four bytes.\<close>

definition example_buffers :: "mutable_buffer list" where
  "example_buffers = [mk_buffer 10 3, mk_buffer 90 0, mk_buffer 50 3]"

definition example_stream :: "nat stream" where
  "example_stream = \<lparr>incoming = [1, 2, 3, 4, 5, 6, 7], memory = (\<lambda>_. 0), outgoing = []\<rparr>"

lemma example_cells: "all_cells example_buffers = [10, 11, 12, 50, 51, 52]"
  by (simp add: example_buffers_def cells_def upt_rec)

theorem async_read_correct_witness:
  "let r = drive_read recv_bytes cb_ops transfer_all [(ec_success, 2, False), (ec_success, 3, False), (ec_success, 4, False)]
       (start_read_op cb_ops transfer_all (new_consuming_buffers example_buffers)) example_stream
   in fst r = CallHandler ec_success 6 \<and> incoming (snd r) = [7]
      \<and> map (memory (snd r)) [10, 11, 12, 13, 50, 51, 52] = [1, 2, 3, 0, 4, 5, 6]"
proof -
  let ?as = "[(ec_success, 2, False), (ec_success, 3, False), (ec_success, 4, False)]"
  let ?run = "drive_read recv_bytes cb_ops transfer_all ?as
    (start_read_op cb_ops transfer_all (new_consuming_buffers example_buffers)) example_stream"
  obtain st w' where r: "?run = (st, w')" by (meson surj_pair)
  have "fst ?run = CallHandler ec_success 6" and "incoming (snd ?run) = [7]"
    by (simp_all add: run_defs example_buffers_def example_stream_def)
  then have st: "st = CallHandler ec_success 6" "incoming w' = [7]" by (simp_all only: r fst_conv snd_conv)
  have "length (all_cells example_buffers) < 2 ^ 64" "distinct (all_cells example_buffers)"
    by (simp_all add: example_cells)
  from async_read_correct [OF this r] obtain n where n:
    "map (memory w') (take n (all_cells example_buffers)) = take n (incoming example_stream)"
    "\<And>a. a \<notin> set (take n (all_cells example_buffers)) \<Longrightarrow> memory w' a = memory example_stream a"
    "\<And>ec t. st = CallHandler ec t \<Longrightarrow> t = n" by blast
  have "n = 6" using st n(3) by simp
  then have "map (memory w') [10, 11, 12, 50, 51, 52] = [1, 2, 3, 4, 5, 6]" "memory w' 13 = 0"
    using n(1) n(2) [of 13] by (simp_all add: example_cells example_stream_def)
  then show ?thesis unfolding r Let_def using st by simp
qed

text \<open>C23: \<open>async_write\<close> of one buffer with \<open>transfer_all\<close>, as \<open>connection::write\<close> calls it: a prefix of the
  buffer is sent, in order and without a gap or a repetition, whatever the socket accepts at a time; the
  handler gets its length, success only for the whole buffer or after a write that accepted nothing, and it is
  called after at most as many answers as there are bytes, plus one.\<close>

theorem async_write_correct:
  assumes "buf_size b < 2 ^ 64"
    and "drive_write send_bytes sb_ops transfer_all as
      (start_write_op sb_ops transfer_all (new_consuming_single_buffer b)) w = (st, w')"
  shows "\<exists>n \<le> buf_size b. outgoing w' = outgoing w @ map (memory w) (take n (cells b))
    \<and> memory w' = memory w \<and> incoming w' = incoming w
    \<and> (\<forall>ec t. st = CallHandler ec t \<longrightarrow> t = n \<and>
         (\<not> failed ec \<longrightarrow> n = buf_size b \<or> (\<exists>(e, k, c) \<in> set as. \<not> failed e \<and> k = 0)))
    \<and> (buf_size b < length as \<longrightarrow> (\<exists>ec t. st = CallHandler ec t))"
proof -
  let ?v = "new_consuming_single_buffer b"
  have v: "sb_inv ?v" "vw_total_consumed sb_ops ?v = 0"
    using new_sb [of b] assms(1) by (simp_all add: sb_ops_def)
  have pos: "0 < transfer_all ec_success 0" by (simp add: transfer_all_def default_max_transfer_size_def)
  obtain st0 w0 where run: "drive_read send_bytes sb_ops transfer_all as (start_read_op sb_ops transfer_all ?v) w = (st0, w0)"
    by (meson surj_pair)
  have st: "st = map_op_step as_write_op st0" "w' = w0"
    using assms(2) unfolding start_write_as_read drive_write_as_read run by simp_all
  from sb.write_whole [OF v pos run] obtain n where n: "n \<le> buf_size b" "sb.write_effect ?v n w w0"
      "\<And>ec t. st0 = CallHandler ec t \<Longrightarrow> t = n \<and> ended transfer_all as False ec t (n = buf_size b)"
    by (auto simp: new_sb)
  have "\<exists>ec t. st = CallHandler ec t" if "buf_size b < length as"
  proof -
    obtain this where s: "start_read_op sb_ops transfer_all ?v
        = AsyncSome (vw_prepare sb_ops (transfer_all ec_success 0) ?v) this" "ro_buffers this = ?v"
      using sb.start_read [OF v] .
    have "\<exists>ec t. fst (drive_read send_bytes sb_ops transfer_all as
        (AsyncSome (vw_prepare sb_ops (transfer_all ec_success 0) ?v) this) w) = CallHandler ec t"
      by (rule sb.drive_ends [OF conjunct1 [OF sb.send_prepared]])
        (use s(2) v(1) that in \<open>simp_all add: transfer_all_iff new_sb\<close>)
    then show ?thesis using run by (auto simp: s(1) st(1))
  qed
  moreover have "t = n \<and> (\<not> failed ec \<longrightarrow> n = buf_size b \<or> (\<exists>(e, k, c) \<in> set as. \<not> failed e \<and> k = 0))"
    if "st = CallHandler ec t" for ec t
  proof -
    have "st0 = CallHandler ec t" using that st(1) by (cases st0) auto
    from n(3) [OF this] ended_transfer_all [of as False ec t "n = buf_size b"] show ?thesis by blast
  qed
  ultimately show ?thesis using n(1,2) st(2) by (auto simp: sb.write_effect_def new_sb)
qed

theorem async_write_correct_witness:
  "let r = drive_write send_bytes sb_ops transfer_all [(ec_success, 2, False), (basic_ec broken_pipe, 0, False)]
       (start_write_op sb_ops transfer_all (new_consuming_single_buffer (mk_buffer 10 3)))
       \<lparr>incoming = [], memory = (\<lambda>a. a), outgoing = []\<rparr>
   in fst r = CallHandler (basic_ec broken_pipe) 2 \<and> outgoing (snd r) = [10, 11]"
proof -
  let ?w = "\<lparr>incoming = [], memory = (\<lambda>a. a), outgoing = []\<rparr> :: nat stream"
  let ?run = "drive_write send_bytes sb_ops transfer_all [(ec_success, 2, False), (basic_ec broken_pipe, 0, False)]
    (start_write_op sb_ops transfer_all (new_consuming_single_buffer (mk_buffer 10 3))) ?w"
  obtain st w' where r: "?run = (st, w')" by (meson surj_pair)
  have "fst ?run = CallHandler (basic_ec broken_pipe) 2"
    by (simp add: run_defs)
  then have st: "st = CallHandler (basic_ec broken_pipe) 2" by (simp only: r fst_conv)
  have "buf_size (mk_buffer 10 3) < 2 ^ 64" by simp
  from async_write_correct [OF this r] obtain n where n:
    "outgoing w' = outgoing ?w @ map (memory ?w) (take n (cells (mk_buffer 10 3)))"
    "\<And>ec t. st = CallHandler ec t \<Longrightarrow> t = n" by blast
  have "n = 2" using st n(2) by simp
  then have "outgoing w' = [10, 11]" using n(1) by (simp add: cells_def upt_rec)
  then show ?thesis unfolding r Let_def using st by simp
qed

text \<open>\<open>transfer_exactly\<close> over an array of two buffers never transfers more than it was asked for, and reports
  success only for exactly that many bytes (or all there are, or after a success for nothing).\<close>

lemma write_exactly_pair:
  assumes "buf_size b0 + buf_size b1 < 2 ^ 64" and "0 < total_bytes"
    and "drive_read send_bytes pb_ops (transfer_exactly total_bytes) as
      (start_read_op pb_ops (transfer_exactly total_bytes) (new_consuming_pair (b0, b1))) w = (CallHandler ec t, w')"
  shows "t \<le> total_bytes \<and> (\<not> failed ec \<longrightarrow> t = total_bytes \<or> t = buf_size b0 + buf_size b1
    \<or> (\<exists>(e, k, c) \<in> set as. \<not> failed e \<and> k = 0))"
proof -
  let ?v = "new_consuming_pair (b0, b1)" let ?c = "transfer_exactly total_bytes"
  have v: "pb_inv ?v" "vw_total_consumed pb_ops ?v = 0"
    using new_pb(1) [OF assms(1)] by (simp_all add: pb_ops_def new_consuming_pair_def)
  have cond: "t + ?c ec t \<le> total_bytes" if "t \<le> total_bytes" for ec t
    using that by (auto simp: transfer_exactly_def)
  have pos: "0 < ?c ec_success 0" using assms(2) by (simp add: transfer_exactly_def default_max_transfer_size_def)
  obtain this where s: "start_read_op pb_ops ?c ?v = AsyncSome (vw_prepare pb_ops (?c ec_success 0) ?v) this"
      "ro_buffers this = ?v" using pb.start_read [OF v] .
  have "t \<le> total_bytes"
  proof (rule pb.drive_bounded [where xfer = send_bytes and cond = ?c])
    show "fst (drive_read send_bytes pb_ops ?c as (AsyncSome (vw_prepare pb_ops (?c ec_success 0) ?v) this) w)
        = CallHandler ec t" using assms(3) by (simp add: s(1))
    show "vw_total_consumed pb_ops (ro_buffers this) + ?c ec_success 0 \<le> total_bytes"
      using cond [of 0] by (simp add: s(2) v(2))
  qed (use v(1) s(2) cond in \<open>auto simp: send_bytes_def Let_def\<close>)
  moreover from pb.write_whole [OF v pos assms(3)]
  have "ended ?c as False ec t (t = buf_size b0 + buf_size b1)" by (auto simp: new_pb)
  ultimately show ?thesis
    unfolding ended_def by (auto simp: transfer_exactly_def default_max_transfer_size_def split: if_splits)
qed

end
