(* ===== verification/SocketOps.thy ===== *)
theory SocketOps
  imports Buffers IpAddress "HOL-Library.Word" "HOL-Library.Signed_Division"
begin

text \<open>
  The wrappers around the socket system calls, \<^verbatim>\<open>asio/detail/impl/socket_ops.ipp\<close>, as compiled for Linux.

  The kernel is the record \<open>sys_env\<close> over a type of kernel states: a system call yields its result, \<open>errno\<close>
  (read only after a failure) and the new state. The bytes that a transfer moves are part of the kernel state.
  An output parameter of the code is a component of the result; \<open>ec\<close> is passed in because
  \<open>error::clear\<close> keeps the category. The loops that retry are \<open>partial_function\<close>s: \<open>None\<close> is a call
  that never returns. Left out: the address that \<open>accept\<close> stores, \<open>select\<close>, the name lookups, and the branches
  of other systems.
\<close>

unbundle bit_operations_syntax

section \<open>State bits and constants\<close>

type_synonym state_type = "8 word"

definition user_set_non_blocking :: state_type where "user_set_non_blocking = 1"
definition internal_non_blocking :: state_type where "internal_non_blocking = 2"
definition non_blocking :: state_type where "non_blocking = user_set_non_blocking OR internal_non_blocking"
definition enable_connection_aborted :: state_type where "enable_connection_aborted = 4"
definition user_set_linger :: state_type where "user_set_linger = 8"
definition stream_oriented :: state_type where "stream_oriented = 16"
definition datagram_oriented :: state_type where "datagram_oriented = 32"
definition possible_dup :: state_type where "possible_dup = 64"

lemmas state_bits = user_set_non_blocking_def internal_non_blocking_def non_blocking_def
  enable_connection_aborted_def user_set_linger_def stream_oriented_def datagram_oriented_def possible_dup_def

definition has :: "state_type \<Rightarrow> state_type \<Rightarrow> bool" where
  "has state b \<longleftrightarrow> state AND b \<noteq> 0"

definition invalid_socket :: int where "invalid_socket = - 1"
definition socket_error_retval :: int where "socket_error_retval = - 1"
definition custom_socket_option_level :: int where "custom_socket_option_level = - 1525678080"
definition enable_connection_aborted_option :: int where "enable_connection_aborted_option = 1"
definition always_fail_option :: int where "always_fail_option = 2"

text \<open>Constants of the system headers.\<close>

definition SOL_SOCKET :: int where "SOL_SOCKET = 1"
definition SO_ERROR :: int where "SO_ERROR = 4"
definition SO_SNDBUF :: int where "SO_SNDBUF = 7"
definition SO_RCVBUF :: int where "SO_RCVBUF = 8"
definition SO_LINGER :: int where "SO_LINGER = 13"
definition FIONBIO :: int where "FIONBIO = 0x5421"
definition FIONREAD :: int where "FIONREAD = 0x541B"
definition SIOCATMARK :: int where "SIOCATMARK = 0x8905"
definition EPROTO :: int where "EPROTO = 71"
definition ENOTTY :: int where "ENOTTY = 25"
definition AF_UNIX :: int where "AF_UNIX = 1"
definition MSG_NOSIGNAL :: "32 word" where "MSG_NOSIGNAL = 0x4000"
definition POLLIN :: "16 word" where "POLLIN = 1"
definition POLLPRI :: "16 word" where "POLLPRI = 2"
definition POLLOUT :: "16 word" where "POLLOUT = 4"
definition POLLERR :: "16 word" where "POLLERR = 8"
definition POLLHUP :: "16 word" where "POLLHUP = 16"

text \<open>Option values are sequences of C \<open>int\<close>s: one for most options, two for a \<open>struct linger\<close>.\<close>

record sock_addr =
  sa_family :: int
  sa_data :: "nat list"

type_synonym 'w sys_result = "int \<times> int \<times> 'w"

record 'w sys_env =
  sys_socket :: "int \<Rightarrow> int \<Rightarrow> int \<Rightarrow> 'w \<Rightarrow> 'w sys_result"
  sys_accept :: "int \<Rightarrow> 'w \<Rightarrow> 'w sys_result"
  sys_bind :: "int \<Rightarrow> sock_addr \<Rightarrow> 'w \<Rightarrow> 'w sys_result"
  sys_listen :: "int \<Rightarrow> int \<Rightarrow> 'w \<Rightarrow> 'w sys_result"
  sys_connect :: "int \<Rightarrow> sock_addr \<Rightarrow> 'w \<Rightarrow> 'w sys_result"
  sys_shutdown :: "int \<Rightarrow> int \<Rightarrow> 'w \<Rightarrow> 'w sys_result"
  sys_close :: "int \<Rightarrow> 'w \<Rightarrow> 'w sys_result"
  sys_poll :: "int \<Rightarrow> 16 word \<Rightarrow> int \<Rightarrow> 'w \<Rightarrow> 'w sys_result"
  sys_ioctl :: "int \<Rightarrow> int \<Rightarrow> int \<Rightarrow> 'w \<Rightarrow> int \<times> int \<times> int \<times> 'w"
  sys_setsockopt :: "int \<Rightarrow> int \<Rightarrow> int \<Rightarrow> int list \<Rightarrow> nat \<Rightarrow> 'w \<Rightarrow> 'w sys_result"
  sys_getsockopt :: "int \<Rightarrow> int \<Rightarrow> int \<Rightarrow> int list \<Rightarrow> nat \<Rightarrow> 'w \<Rightarrow> int \<times> int \<times> int list \<times> nat \<times> 'w"
  sys_recvmsg :: "int \<Rightarrow> mutable_buffer list \<Rightarrow> 32 word \<Rightarrow> 'w \<Rightarrow> 'w sys_result"
  sys_recv :: "int \<Rightarrow> mutable_buffer \<Rightarrow> 32 word \<Rightarrow> 'w \<Rightarrow> 'w sys_result"
  sys_sendmsg :: "int \<Rightarrow> mutable_buffer list \<Rightarrow> 32 word \<Rightarrow> 'w \<Rightarrow> 'w sys_result"
  sys_send :: "int \<Rightarrow> mutable_buffer \<Rightarrow> 32 word \<Rightarrow> 'w \<Rightarrow> 'w sys_result"
  sys_recvmsg_from :: "int \<Rightarrow> mutable_buffer list \<Rightarrow> 32 word \<Rightarrow> endpoint \<Rightarrow> nat \<Rightarrow> 'w \<Rightarrow> int \<times> int \<times> endpoint \<times> nat \<times> 'w"
  sys_recvfrom :: "int \<Rightarrow> mutable_buffer \<Rightarrow> 32 word \<Rightarrow> endpoint \<Rightarrow> nat option \<Rightarrow> 'w \<Rightarrow> int \<times> int \<times> endpoint \<times> nat \<times> 'w"
  sys_recvmsg_flags :: "int \<Rightarrow> mutable_buffer list \<Rightarrow> 32 word \<Rightarrow> 'w \<Rightarrow> int \<times> int \<times> 32 word \<times> 'w"
  sys_sendmsg_to :: "int \<Rightarrow> mutable_buffer list \<Rightarrow> 32 word \<Rightarrow> endpoint \<Rightarrow> nat \<Rightarrow> 'w \<Rightarrow> 'w sys_result"
  sys_sendto :: "int \<Rightarrow> mutable_buffer \<Rightarrow> 32 word \<Rightarrow> endpoint \<Rightarrow> nat \<Rightarrow> 'w \<Rightarrow> 'w sys_result"
  sys_getsockname :: "int \<Rightarrow> endpoint \<Rightarrow> nat \<Rightarrow> 'w \<Rightarrow> int \<times> int \<times> endpoint \<times> nat \<times> 'w"
  sys_getpeername :: "int \<Rightarrow> endpoint \<Rightarrow> nat \<Rightarrow> 'w \<Rightarrow> int \<times> int \<times> endpoint \<times> nat \<times> 'w"

definition get_last_error :: "bool \<Rightarrow> int \<Rightarrow> error_code \<Rightarrow> error_code" where
  "get_last_error is_error_condition errno ec =
     (if \<not> is_error_condition then clear_ec ec else EC errno SystemCat)"

text \<open>\<open>ec == would_block || ec == try_again\<close>\<close>

definition must_wait :: "error_code \<Rightarrow> bool" where
  "must_wait ec \<longleftrightarrow> ec = basic_ec would_block \<or> ec = basic_ec try_again"

section \<open>Calls that do not retry\<close>

definition accept :: "'w sys_env \<Rightarrow> int \<Rightarrow> error_code \<Rightarrow> 'w \<Rightarrow> int \<times> error_code \<times> 'w" where
  "accept K s ec w =
     (if s = invalid_socket then (invalid_socket, basic_ec bad_descriptor, w)
      else let (new_s, errno, w) = sys_accept K s w;
               ec = get_last_error (new_s = invalid_socket) errno ec
           in if new_s = invalid_socket then (new_s, ec, w) else (new_s, clear_ec ec, w))"

definition bind_socket :: "'w sys_env \<Rightarrow> int \<Rightarrow> sock_addr \<Rightarrow> error_code \<Rightarrow> 'w \<Rightarrow> int \<times> error_code \<times> 'w" where
  "bind_socket K s addr ec w =
     (if s = invalid_socket then (socket_error_retval, basic_ec bad_descriptor, w)
      else let (result, errno, w) = sys_bind K s addr w
           in (result, get_last_error (result \<noteq> 0) errno ec, w))"

definition listen :: "'w sys_env \<Rightarrow> int \<Rightarrow> int \<Rightarrow> error_code \<Rightarrow> 'w \<Rightarrow> int \<times> error_code \<times> 'w" where
  "listen K s backlog ec w =
     (if s = invalid_socket then (socket_error_retval, basic_ec bad_descriptor, w)
      else let (result, errno, w) = sys_listen K s backlog w
           in (result, get_last_error (result \<noteq> 0) errno ec, w))"

definition shutdown_socket :: "'w sys_env \<Rightarrow> int \<Rightarrow> int \<Rightarrow> error_code \<Rightarrow> 'w \<Rightarrow> int \<times> error_code \<times> 'w" where
  "shutdown_socket K s what ec w =
     (if s = invalid_socket then (socket_error_retval, basic_ec bad_descriptor, w)
      else let (result, errno, w) = sys_shutdown K s what w
           in (result, get_last_error (result \<noteq> 0) errno ec, w))"

definition open_socket :: "'w sys_env \<Rightarrow> int \<Rightarrow> int \<Rightarrow> int \<Rightarrow> error_code \<Rightarrow> 'w \<Rightarrow> int \<times> error_code \<times> 'w" where
  "open_socket K af sock_type protocol ec w =
     (let (s, errno, w) = sys_socket K af sock_type protocol w
      in (s, get_last_error (s < 0) errno ec, w))"

text \<open>The result of \<open>connect\<close> on Linux is \<open>EAGAIN\<close> where other systems say \<open>EINPROGRESS\<close>, or when no
  local port is left.\<close>

definition connect :: "'w sys_env \<Rightarrow> int \<Rightarrow> sock_addr \<Rightarrow> error_code \<Rightarrow> 'w \<Rightarrow> int \<times> error_code \<times> 'w" where
  "connect K s addr ec w =
     (if s = invalid_socket then (socket_error_retval, basic_ec bad_descriptor, w)
      else let (result, errno, w) = sys_connect K s addr w;
               ec = get_last_error (result \<noteq> 0) errno ec
           in if result \<noteq> 0 \<and> ec = basic_ec try_again
              then if sa_family addr = AF_UNIX then (result, basic_ec in_progress, w)
                   else (result, basic_ec no_buffer_space, w)
              else (result, ec, w))"

definition setsockopt ::
  "'w sys_env \<Rightarrow> int \<Rightarrow> state_type \<Rightarrow> int \<Rightarrow> int \<Rightarrow> int list \<Rightarrow> nat \<Rightarrow> error_code \<Rightarrow> 'w
    \<Rightarrow> int \<times> state_type \<times> error_code \<times> 'w" where
  "setsockopt K s state level optname optval optlen ec w =
     (if s = invalid_socket then (socket_error_retval, state, basic_ec bad_descriptor, w)
      else if level = custom_socket_option_level \<and> optname = always_fail_option
      then (socket_error_retval, state, basic_ec invalid_argument, w)
      else if level = custom_socket_option_level \<and> optname = enable_connection_aborted_option
      then if optlen \<noteq> 4 then (socket_error_retval, state, basic_ec invalid_argument, w)
           else (0, if hd optval \<noteq> 0 then state OR enable_connection_aborted
                    else state AND NOT enable_connection_aborted, clear_ec ec, w)
      else let state = (if level = SOL_SOCKET \<and> optname = SO_LINGER then state OR user_set_linger else state);
               (result, errno, w) = sys_setsockopt K s level optname optval optlen w
           in (result, state, get_last_error (result \<noteq> 0) errno ec, w))"

definition getsockopt ::
  "'w sys_env \<Rightarrow> int \<Rightarrow> state_type \<Rightarrow> int \<Rightarrow> int \<Rightarrow> int list \<Rightarrow> nat \<Rightarrow> error_code \<Rightarrow> 'w
    \<Rightarrow> int \<times> int list \<times> nat \<times> error_code \<times> 'w" where
  "getsockopt K s state level optname optval optlen ec w =
     (if s = invalid_socket then (socket_error_retval, optval, optlen, basic_ec bad_descriptor, w)
      else if level = custom_socket_option_level \<and> optname = always_fail_option
      then (socket_error_retval, optval, optlen, basic_ec invalid_argument, w)
      else if level = custom_socket_option_level \<and> optname = enable_connection_aborted_option
      then if optlen \<noteq> 4 then (socket_error_retval, optval, optlen, basic_ec invalid_argument, w)
           else (0, optval[0 := if has state enable_connection_aborted then 1 else 0], optlen, clear_ec ec, w)
      else let (result, errno, optval, optlen, w) = sys_getsockopt K s level optname optval optlen w;
               ec = get_last_error (result \<noteq> 0) errno ec
           in if result = 0 \<and> level = SOL_SOCKET \<and> optlen = 4 \<and> (optname = SO_SNDBUF \<or> optname = SO_RCVBUF)
              then (result, optval[0 := hd optval sdiv 2], optlen, ec, w)
              else (result, optval, optlen, ec, w))"

definition ioctl ::
  "'w sys_env \<Rightarrow> int \<Rightarrow> state_type \<Rightarrow> int \<Rightarrow> int \<Rightarrow> error_code \<Rightarrow> 'w
    \<Rightarrow> int \<times> state_type \<times> int \<times> error_code \<times> 'w" where
  "ioctl K s state cmd arg ec w =
     (if s = invalid_socket then (socket_error_retval, state, arg, basic_ec bad_descriptor, w)
      else let (result, errno, arg, w) = sys_ioctl K s cmd arg w;
               ec = get_last_error (result < 0) errno ec
           in if result \<ge> 0 \<and> cmd = FIONBIO
              then if arg \<noteq> 0 then (result, state OR user_set_non_blocking, arg, ec, w)
                   else (result, state AND NOT (user_set_non_blocking OR internal_non_blocking), arg, ec, w)
              else (result, state, arg, ec, w))"

definition sockatmark :: "'w sys_env \<Rightarrow> int \<Rightarrow> error_code \<Rightarrow> 'w \<Rightarrow> bool \<times> error_code \<times> 'w" where
  "sockatmark K s ec w =
     (if s = invalid_socket then (False, basic_ec bad_descriptor, w)
      else let (result, errno, val, w) = sys_ioctl K s SIOCATMARK 0 w;
               ec = get_last_error (result < 0) errno ec;
               ec = (if ec_value ec = ENOTTY then basic_ec not_socket else ec)
           in (if failed ec then False else val \<noteq> 0, ec, w))"

definition available :: "'w sys_env \<Rightarrow> int \<Rightarrow> error_code \<Rightarrow> 'w \<Rightarrow> nat \<times> error_code \<times> 'w" where
  "available K s ec w =
     (if s = invalid_socket then (0, basic_ec bad_descriptor, w)
      else let (result, errno, val, w) = sys_ioctl K s FIONREAD 0 w;
               ec = get_last_error (result < 0) errno ec;
               ec = (if ec_value ec = ENOTTY then basic_ec not_socket else ec)
           in (if failed ec then 0 else nat (val mod 2 ^ 64), ec, w))"

section \<open>Closing and the non-blocking modes\<close>

definition socket_close :: "'w sys_env \<Rightarrow> int \<Rightarrow> state_type \<Rightarrow> bool \<Rightarrow> error_code \<Rightarrow> 'w
    \<Rightarrow> int \<times> state_type \<times> error_code \<times> 'w" where
  "socket_close K s state destruction ec w =
     (if s \<noteq> invalid_socket then
        let (state, w) =
              (if destruction \<and> has state user_set_linger
               then (let (result, state, ignored_ec, w) =
                           setsockopt K s state SOL_SOCKET SO_LINGER [0, 0] 8 ec_success w
                     in (state, w))
               else (state, w));
            (result, errno, w) = sys_close K s w;
            ec = get_last_error (result \<noteq> 0) errno ec
        in if result \<noteq> 0 \<and> must_wait ec
           then let (ignored_result, ignored_errno, arg, w) = sys_ioctl K s FIONBIO 0 w;
                    state = state AND NOT non_blocking;
                    (result, errno, w) = sys_close K s w
                in (result, state, get_last_error (result \<noteq> 0) errno ec, w)
           else (result, state, ec, w)
      else (0, state, ec, w))"

definition set_user_non_blocking ::
  "'w sys_env \<Rightarrow> int \<Rightarrow> state_type \<Rightarrow> bool \<Rightarrow> error_code \<Rightarrow> 'w \<Rightarrow> bool \<times> state_type \<times> error_code \<times> 'w" where
  "set_user_non_blocking K s state val ec w =
     (if s = invalid_socket then (False, state, basic_ec bad_descriptor, w)
      else let (result, errno, arg, w) = sys_ioctl K s FIONBIO (if val then 1 else 0) w;
               ec = get_last_error (result < 0) errno ec
           in if result \<ge> 0
              then if val then (True, state OR user_set_non_blocking, ec, w)
                   else (True, state AND NOT (user_set_non_blocking OR internal_non_blocking), ec, w)
              else (False, state, ec, w))"

definition set_internal_non_blocking ::
  "'w sys_env \<Rightarrow> int \<Rightarrow> state_type \<Rightarrow> bool \<Rightarrow> error_code \<Rightarrow> 'w \<Rightarrow> bool \<times> state_type \<times> error_code \<times> 'w" where
  "set_internal_non_blocking K s state val ec w =
     (if s = invalid_socket then (False, state, basic_ec bad_descriptor, w)
      else if \<not> val \<and> has state user_set_non_blocking then (False, state, basic_ec invalid_argument, w)
      else let (result, errno, arg, w) = sys_ioctl K s FIONBIO (if val then 1 else 0) w;
               ec = get_last_error (result < 0) errno ec
           in if result \<ge> 0
              then if val then (True, state OR internal_non_blocking, ec, w)
                   else (True, state AND NOT internal_non_blocking, ec, w)
              else (False, state, ec, w))"

section \<open>Waiting for readiness\<close>

definition poll_for ::
  "16 word \<Rightarrow> 'w sys_env \<Rightarrow> int \<Rightarrow> state_type \<Rightarrow> int \<Rightarrow> error_code \<Rightarrow> 'w \<Rightarrow> int \<times> error_code \<times> 'w" where
  "poll_for events K s state msec ec w =
     (if s = invalid_socket then (socket_error_retval, basic_ec bad_descriptor, w)
      else let timeout = (if has state user_set_non_blocking then 0 else msec);
               (result, errno, w) = sys_poll K s events timeout w;
               ec = get_last_error (result < 0) errno ec;
               ec = (if result = 0 then if has state user_set_non_blocking then basic_ec would_block else ec else ec)
           in (result, ec, w))"

definition poll_read :: "'w sys_env \<Rightarrow> int \<Rightarrow> state_type \<Rightarrow> int \<Rightarrow> error_code \<Rightarrow> 'w \<Rightarrow> int \<times> error_code \<times> 'w" where
  "poll_read = poll_for POLLIN"

definition poll_write :: "'w sys_env \<Rightarrow> int \<Rightarrow> state_type \<Rightarrow> int \<Rightarrow> error_code \<Rightarrow> 'w \<Rightarrow> int \<times> error_code \<times> 'w" where
  "poll_write = poll_for POLLOUT"

definition poll_error :: "'w sys_env \<Rightarrow> int \<Rightarrow> state_type \<Rightarrow> int \<Rightarrow> error_code \<Rightarrow> 'w \<Rightarrow> int \<times> error_code \<times> 'w" where
  "poll_error = poll_for (POLLPRI OR POLLERR OR POLLHUP)"

definition poll_connect :: "'w sys_env \<Rightarrow> int \<Rightarrow> int \<Rightarrow> error_code \<Rightarrow> 'w \<Rightarrow> int \<times> error_code \<times> 'w" where
  "poll_connect K s msec ec w =
     (if s = invalid_socket then (socket_error_retval, basic_ec bad_descriptor, w)
      else let (result, errno, w) = sys_poll K s POLLOUT msec w
           in (result, get_last_error (result < 0) errno ec, w))"

end
