(* ===== verification/SocketLoops.thy ===== *)
theory SocketLoops
  imports SocketOps
begin

text \<open>
  The socket operations that try again: \<open>sync_\<close> functions wait with
  \<open>poll\<close> until the socket is ready, \<open>non_blocking_\<close> functions retry only when a signal interrupted the call
  and tell the reactor whether the operation is done. From \<^verbatim>\<open>asio/detail/impl/socket_ops.ipp\<close>.

  The four receive functions and the four send functions of the code have the same loop around different system
  calls; the loop is written once for each kind, over the attempt it repeats.
\<close>

section \<open>Single attempts\<close>

definition recv :: "'w sys_env \<Rightarrow> int \<Rightarrow> mutable_buffer list \<Rightarrow> 32 word \<Rightarrow> error_code \<Rightarrow> 'w \<Rightarrow> int \<times> error_code \<times> 'w" where
  "recv K s bufs flags ec w =
     (let (result, errno, w) = sys_recvmsg K s bufs flags w
      in (result, get_last_error (result < 0) errno ec, w))"

definition recv1 :: "'w sys_env \<Rightarrow> int \<Rightarrow> mutable_buffer \<Rightarrow> 32 word \<Rightarrow> error_code \<Rightarrow> 'w \<Rightarrow> int \<times> error_code \<times> 'w" where
  "recv1 K s buf flags ec w =
     (let (result, errno, w) = sys_recv K s buf flags w
      in (result, get_last_error (result < 0) errno ec, w))"

definition send :: "'w sys_env \<Rightarrow> int \<Rightarrow> mutable_buffer list \<Rightarrow> 32 word \<Rightarrow> error_code \<Rightarrow> 'w \<Rightarrow> int \<times> error_code \<times> 'w" where
  "send K s bufs flags ec w =
     (let (result, errno, w) = sys_sendmsg K s bufs (flags OR MSG_NOSIGNAL) w
      in (result, get_last_error (result < 0) errno ec, w))"

definition send1 :: "'w sys_env \<Rightarrow> int \<Rightarrow> mutable_buffer \<Rightarrow> 32 word \<Rightarrow> error_code \<Rightarrow> 'w \<Rightarrow> int \<times> error_code \<times> 'w" where
  "send1 K s buf flags ec w =
     (let (result, errno, w) = sys_send K s buf (flags OR MSG_NOSIGNAL) w
      in (result, get_last_error (result < 0) errno ec, w))"

section \<open>Transfers\<close>

type_synonym 'w attempt = "error_code \<Rightarrow> 'w \<Rightarrow> int \<times> error_code \<times> 'w"

text \<open>The loop of \<open>sync_recv\<close>, \<open>sync_recv1\<close> (\<open>check_eof\<close>: the test for the end of a stream is there and the
  socket is one), \<open>sync_send\<close> and \<open>sync_send1\<close> (never): the number of bytes, the error and the kernel.\<close>

partial_function (option) sync_transfer ::
  "'w attempt \<Rightarrow> 'w attempt \<Rightarrow> bool \<Rightarrow> state_type \<Rightarrow> error_code \<Rightarrow> 'w \<Rightarrow> (nat \<times> error_code \<times> 'w) option" where
  "sync_transfer attempt wait_ready check_eof state ec w =
     (let (bytes, ec, w) = attempt ec w
      in if check_eof \<and> bytes = 0 then Some (0, misc_ec eof, w)
         else if bytes \<ge> 0 then Some (nat bytes, ec, w)
         else if has state user_set_non_blocking \<or> \<not> must_wait ec then Some (0, ec, w)
         else let (ready, ec, w) = wait_ready ec w
              in if ready < 0 then Some (0, ec, w)
                 else sync_transfer attempt wait_ready check_eof state ec w)"

definition sync_recv ::
  "'w sys_env \<Rightarrow> int \<Rightarrow> state_type \<Rightarrow> mutable_buffer list \<Rightarrow> 32 word \<Rightarrow> bool \<Rightarrow> error_code \<Rightarrow> 'w
    \<Rightarrow> (nat \<times> error_code \<times> 'w) option" where
  "sync_recv K s state bufs flags all_empty ec w =
     (if s = invalid_socket then Some (0, basic_ec bad_descriptor, w)
      else if all_empty \<and> has state stream_oriented then Some (0, clear_ec ec, w)
      else sync_transfer (recv K s bufs flags) (poll_read K s 0 (- 1)) (has state stream_oriented) state ec w)"

definition sync_recv1 ::
  "'w sys_env \<Rightarrow> int \<Rightarrow> state_type \<Rightarrow> mutable_buffer \<Rightarrow> 32 word \<Rightarrow> error_code \<Rightarrow> 'w
    \<Rightarrow> (nat \<times> error_code \<times> 'w) option" where
  "sync_recv1 K s state buf flags ec w =
     (if s = invalid_socket then Some (0, basic_ec bad_descriptor, w)
      else if buf_size buf = 0 \<and> has state stream_oriented then Some (0, clear_ec ec, w)
      else sync_transfer (recv1 K s buf flags) (poll_read K s 0 (- 1)) (has state stream_oriented) state ec w)"

definition sync_send ::
  "'w sys_env \<Rightarrow> int \<Rightarrow> state_type \<Rightarrow> mutable_buffer list \<Rightarrow> 32 word \<Rightarrow> bool \<Rightarrow> error_code \<Rightarrow> 'w
    \<Rightarrow> (nat \<times> error_code \<times> 'w) option" where
  "sync_send K s state bufs flags all_empty ec w =
     (if s = invalid_socket then Some (0, basic_ec bad_descriptor, w)
      else if all_empty \<and> has state stream_oriented then Some (0, clear_ec ec, w)
      else sync_transfer (send K s bufs flags) (poll_write K s 0 (- 1)) False state ec w)"

definition sync_send1 ::
  "'w sys_env \<Rightarrow> int \<Rightarrow> state_type \<Rightarrow> mutable_buffer \<Rightarrow> 32 word \<Rightarrow> error_code \<Rightarrow> 'w
    \<Rightarrow> (nat \<times> error_code \<times> 'w) option" where
  "sync_send1 K s state buf flags ec w =
     (if s = invalid_socket then Some (0, basic_ec bad_descriptor, w)
      else if buf_size buf = 0 \<and> has state stream_oriented then Some (0, clear_ec ec, w)
      else sync_transfer (send1 K s buf flags) (poll_write K s 0 (- 1)) False state ec w)"

text \<open>The loop of the \<open>non_blocking_\<close> transfers: whether the operation is finished, the error, the value of
  \<open>bytes_transferred\<close> (\<open>n\<close> before) and the kernel.\<close>

partial_function (option) non_blocking_transfer ::
  "'w attempt \<Rightarrow> bool \<Rightarrow> error_code \<Rightarrow> nat \<Rightarrow> 'w \<Rightarrow> (bool \<times> error_code \<times> nat \<times> 'w) option" where
  "non_blocking_transfer attempt check_eof ec n w =
     (let (bytes, ec, w) = attempt ec w
      in if check_eof \<and> bytes = 0 then Some (True, misc_ec eof, n, w)
         else if bytes \<ge> 0 then Some (True, ec, nat bytes, w)
         else if ec = basic_ec interrupted then non_blocking_transfer attempt check_eof ec n w
         else if must_wait ec then Some (False, ec, n, w)
         else Some (True, ec, 0, w))"

definition non_blocking_recv ::
  "'w sys_env \<Rightarrow> int \<Rightarrow> mutable_buffer list \<Rightarrow> 32 word \<Rightarrow> bool \<Rightarrow> error_code \<Rightarrow> nat \<Rightarrow> 'w
    \<Rightarrow> (bool \<times> error_code \<times> nat \<times> 'w) option" where
  "non_blocking_recv K s bufs flags is_stream = non_blocking_transfer (recv K s bufs flags) is_stream"

definition non_blocking_recv1 ::
  "'w sys_env \<Rightarrow> int \<Rightarrow> mutable_buffer \<Rightarrow> 32 word \<Rightarrow> bool \<Rightarrow> error_code \<Rightarrow> nat \<Rightarrow> 'w
    \<Rightarrow> (bool \<times> error_code \<times> nat \<times> 'w) option" where
  "non_blocking_recv1 K s buf flags is_stream = non_blocking_transfer (recv1 K s buf flags) is_stream"

definition non_blocking_send ::
  "'w sys_env \<Rightarrow> int \<Rightarrow> mutable_buffer list \<Rightarrow> 32 word \<Rightarrow> error_code \<Rightarrow> nat \<Rightarrow> 'w
    \<Rightarrow> (bool \<times> error_code \<times> nat \<times> 'w) option" where
  "non_blocking_send K s bufs flags = non_blocking_transfer (send K s bufs flags) False"

definition non_blocking_send1 ::
  "'w sys_env \<Rightarrow> int \<Rightarrow> mutable_buffer \<Rightarrow> 32 word \<Rightarrow> error_code \<Rightarrow> nat \<Rightarrow> 'w
    \<Rightarrow> (bool \<times> error_code \<times> nat \<times> 'w) option" where
  "non_blocking_send1 K s buf flags = non_blocking_transfer (send1 K s buf flags) False"

section \<open>Accepting and connecting\<close>

definition sync_accept_gives_up :: "state_type \<Rightarrow> error_code \<Rightarrow> bool" where
  "sync_accept_gives_up state ec \<longleftrightarrow>
     (if must_wait ec then has state user_set_non_blocking
      else if ec = basic_ec connection_aborted then has state enable_connection_aborted
      else if ec_value ec = EPROTO then has state enable_connection_aborted
      else True)"

partial_function (option) sync_accept ::
  "'w sys_env \<Rightarrow> int \<Rightarrow> state_type \<Rightarrow> error_code \<Rightarrow> 'w \<Rightarrow> (int \<times> error_code \<times> 'w) option" where
  "sync_accept K s state ec w =
     (let (new_socket, ec, w) = accept K s ec w
      in if new_socket \<noteq> invalid_socket then Some (new_socket, ec, w)
         else if sync_accept_gives_up state ec then Some (invalid_socket, ec, w)
         else let (ready, ec, w) = poll_read K s 0 (- 1) ec w
              in if ready < 0 then Some (invalid_socket, ec, w)
                 else sync_accept K s state ec w)"

definition non_blocking_accept_done :: "state_type \<Rightarrow> error_code \<Rightarrow> bool" where
  "non_blocking_accept_done state ec \<longleftrightarrow>
     (if must_wait ec then False
      else if ec = basic_ec connection_aborted then has state enable_connection_aborted
      else if ec_value ec = EPROTO then has state enable_connection_aborted
      else True)"

partial_function (option) non_blocking_accept ::
  "'w sys_env \<Rightarrow> int \<Rightarrow> state_type \<Rightarrow> error_code \<Rightarrow> 'w \<Rightarrow> (bool \<times> error_code \<times> int \<times> 'w) option" where
  "non_blocking_accept K s state ec w =
     (let (new_socket, ec, w) = accept K s ec w
      in if new_socket \<noteq> invalid_socket then Some (True, ec, new_socket, w)
         else if ec = basic_ec interrupted then non_blocking_accept K s state ec w
         else Some (non_blocking_accept_done state ec, ec, new_socket, w))"

definition sync_connect :: "'w sys_env \<Rightarrow> int \<Rightarrow> sock_addr \<Rightarrow> error_code \<Rightarrow> 'w \<Rightarrow> error_code \<times> 'w" where
  "sync_connect K s addr ec w =
     (let (ignored_result, ec, w) = connect K s addr ec w
      in if ec \<noteq> basic_ec in_progress \<and> ec \<noteq> basic_ec would_block then (ec, w)
         else let (ready, ec, w) = poll_connect K s (- 1) ec w
              in if ready < 0 then (ec, w)
                 else let (result, connect_error, len, ec, w) = getsockopt K s 0 SOL_SOCKET SO_ERROR [0] 4 ec w
                      in if result = socket_error_retval then (ec, w)
                         else (EC (hd connect_error) SystemCat, w))"

definition non_blocking_connect :: "'w sys_env \<Rightarrow> int \<Rightarrow> error_code \<Rightarrow> 'w \<Rightarrow> bool \<times> error_code \<times> 'w" where
  "non_blocking_connect K s ec w =
     (let (ready, errno, w) = sys_poll K s POLLOUT 0 w
      in if ready = 0 then (False, ec, w)
         else let (result, connect_error, len, ec, w) = getsockopt K s 0 SOL_SOCKET SO_ERROR [0] 4 ec w
              in if result = 0
                 then (True, if hd connect_error \<noteq> 0 then EC (hd connect_error) SystemCat else clear_ec ec, w)
                 else (True, ec, w))"

end
