(* ===== verification/Datagram.thy ===== *)
theory Datagram
  imports SocketLoops
begin

text \<open>
  Socket operations with addresses or flags of messages, from \<^verbatim>\<open>asio/detail/impl/socket_ops.ipp\<close>: \<open>recvfrom\<close>,
  \<open>recvmsg\<close>, \<open>sendto\<close>, their blocking and non-blocking loops, and the names of a socket and its peer. Addresses are those of
  \<^verbatim>\<open>asio/ip/detail/endpoint.hpp\<close>.

  The loops are those of theory SocketLoops. What a call writes through its pointers, the address with its length or
  the flags of a message, stands beside the kernel in the state that a loop threads; so every attempt
  starts with what the one before has written.
\<close>

section \<open>Endpoints as buffers of system calls\<close>

definition endpoint_capacity :: nat where "endpoint_capacity = 28"

definition sockaddr_storage_size :: nat where "sockaddr_storage_size = 128"

fun endpoint_size :: "endpoint \<Rightarrow> nat" where
  "endpoint_size (SockaddrIn p a) = 16"
| "endpoint_size (SockaddrIn6 p f b sc) = 28"

text \<open>\<open>endpoint::resize\<close> only checks: the error it throws, if any.\<close>

definition endpoint_resize :: "nat \<Rightarrow> error_code option" where
  "endpoint_resize new_size = (if new_size > sockaddr_storage_size then Some (basic_ec invalid_argument) else None)"

text \<open>The length of an address as \<open>socklen_t\<close>.\<close>

definition to_socklen :: "nat \<Rightarrow> nat" where
  "to_socklen n = n mod 2 ^ 32"

section \<open>Single attempts\<close>

fun recvfrom :: "'w sys_env \<Rightarrow> int \<Rightarrow> mutable_buffer list \<Rightarrow> 32 word \<Rightarrow> ('w \<times> endpoint \<times> nat) attempt" where
  "recvfrom K s bufs flags ec (w, addr, addrlen) =
     (let (result, errno, addr, addrlen, w) = sys_recvmsg_from K s bufs flags addr (to_socklen addrlen) w
      in (result, get_last_error (result < 0) errno ec, (w, addr, addrlen)))"

text \<open>A null pointer to the length is \<open>None\<close>.\<close>

definition call_recvfrom ::
  "'w sys_env \<Rightarrow> int \<Rightarrow> mutable_buffer \<Rightarrow> 32 word \<Rightarrow> endpoint \<Rightarrow> nat option \<Rightarrow> 'w
    \<Rightarrow> int \<times> int \<times> endpoint \<times> nat option \<times> 'w" where
  "call_recvfrom K s buf flags addr addrlen w =
     (let (result, errno, addr, tmp_addrlen, w) = sys_recvfrom K s buf flags addr (map_option to_socklen addrlen) w
      in (result, errno, addr, map_option (\<lambda>_. tmp_addrlen) addrlen, w))"

fun recvfrom1 :: "'w sys_env \<Rightarrow> int \<Rightarrow> mutable_buffer \<Rightarrow> 32 word \<Rightarrow> ('w \<times> endpoint \<times> nat) attempt" where
  "recvfrom1 K s buf flags ec (w, addr, addrlen) =
     (let (result, errno, addr, len, w) = call_recvfrom K s buf flags addr (Some addrlen) w
      in (result, get_last_error (result < 0) errno ec, (w, addr, the len)))"

fun recvmsg :: "'w sys_env \<Rightarrow> int \<Rightarrow> mutable_buffer list \<Rightarrow> 32 word \<Rightarrow> ('w \<times> 32 word) attempt" where
  "recvmsg K s bufs in_flags ec (w, out_flags) =
     (let (result, errno, msg_flags, w) = sys_recvmsg_flags K s bufs in_flags w
      in (result, get_last_error (result < 0) errno ec, (w, if result \<ge> 0 then msg_flags else 0)))"

definition sendto :: "'w sys_env \<Rightarrow> int \<Rightarrow> mutable_buffer list \<Rightarrow> 32 word \<Rightarrow> endpoint \<Rightarrow> nat \<Rightarrow> 'w attempt" where
  "sendto K s bufs flags addr addrlen ec w =
     (let (result, errno, w) = sys_sendmsg_to K s bufs (flags OR MSG_NOSIGNAL) addr (to_socklen addrlen) w
      in (result, get_last_error (result < 0) errno ec, w))"

definition call_sendto ::
  "'w sys_env \<Rightarrow> int \<Rightarrow> mutable_buffer \<Rightarrow> 32 word \<Rightarrow> endpoint \<Rightarrow> nat \<Rightarrow> 'w \<Rightarrow> 'w sys_result" where
  "call_sendto K s buf flags addr addrlen w = sys_sendto K s buf flags addr (to_socklen addrlen) w"

definition sendto1 :: "'w sys_env \<Rightarrow> int \<Rightarrow> mutable_buffer \<Rightarrow> 32 word \<Rightarrow> endpoint \<Rightarrow> nat \<Rightarrow> 'w attempt" where
  "sendto1 K s buf flags addr addrlen ec w =
     (let (result, errno, w) = call_sendto K s buf (flags OR MSG_NOSIGNAL) addr addrlen w
      in (result, get_last_error (result < 0) errno ec, w))"

section \<open>Loops\<close>

text \<open>A call that leaves the values beside the kernel alone.\<close>

definition beside :: "'w attempt \<Rightarrow> ('w \<times> 'x) attempt" where
  "beside call ec wx = (let (result, ec, w) = call ec (fst wx) in (result, ec, (w, snd wx)))"

definition sync_recvfrom ::
  "'w sys_env \<Rightarrow> int \<Rightarrow> state_type \<Rightarrow> mutable_buffer list \<Rightarrow> 32 word \<Rightarrow> error_code \<Rightarrow> 'w \<times> endpoint \<times> nat
    \<Rightarrow> (nat \<times> error_code \<times> 'w \<times> endpoint \<times> nat) option" where
  "sync_recvfrom K s state bufs flags ec w =
     (if s = invalid_socket then Some (0, basic_ec bad_descriptor, w)
      else sync_transfer (recvfrom K s bufs flags) (beside (poll_read K s 0 (- 1))) False state ec w)"

definition sync_recvfrom1 ::
  "'w sys_env \<Rightarrow> int \<Rightarrow> state_type \<Rightarrow> mutable_buffer \<Rightarrow> 32 word \<Rightarrow> error_code \<Rightarrow> 'w \<times> endpoint \<times> nat
    \<Rightarrow> (nat \<times> error_code \<times> 'w \<times> endpoint \<times> nat) option" where
  "sync_recvfrom1 K s state buf flags ec w =
     (if s = invalid_socket then Some (0, basic_ec bad_descriptor, w)
      else sync_transfer (recvfrom1 K s buf flags) (beside (poll_read K s 0 (- 1))) False state ec w)"

definition sync_recvmsg ::
  "'w sys_env \<Rightarrow> int \<Rightarrow> state_type \<Rightarrow> mutable_buffer list \<Rightarrow> 32 word \<Rightarrow> error_code \<Rightarrow> 'w \<times> 32 word
    \<Rightarrow> (nat \<times> error_code \<times> 'w \<times> 32 word) option" where
  "sync_recvmsg K s state bufs in_flags ec w =
     (if s = invalid_socket then Some (0, basic_ec bad_descriptor, w)
      else sync_transfer (recvmsg K s bufs in_flags) (beside (poll_read K s 0 (- 1))) False state ec w)"

definition sync_sendto ::
  "'w sys_env \<Rightarrow> int \<Rightarrow> state_type \<Rightarrow> mutable_buffer list \<Rightarrow> 32 word \<Rightarrow> endpoint \<Rightarrow> nat \<Rightarrow> error_code \<Rightarrow> 'w
    \<Rightarrow> (nat \<times> error_code \<times> 'w) option" where
  "sync_sendto K s state bufs flags addr addrlen ec w =
     (if s = invalid_socket then Some (0, basic_ec bad_descriptor, w)
      else sync_transfer (sendto K s bufs flags addr addrlen) (poll_write K s 0 (- 1)) False state ec w)"

definition sync_sendto1 ::
  "'w sys_env \<Rightarrow> int \<Rightarrow> state_type \<Rightarrow> mutable_buffer \<Rightarrow> 32 word \<Rightarrow> endpoint \<Rightarrow> nat \<Rightarrow> error_code \<Rightarrow> 'w
    \<Rightarrow> (nat \<times> error_code \<times> 'w) option" where
  "sync_sendto1 K s state buf flags addr addrlen ec w =
     (if s = invalid_socket then Some (0, basic_ec bad_descriptor, w)
      else sync_transfer (sendto1 K s buf flags addr addrlen) (poll_write K s 0 (- 1)) False state ec w)"

definition non_blocking_recvfrom ::
  "'w sys_env \<Rightarrow> int \<Rightarrow> mutable_buffer list \<Rightarrow> 32 word \<Rightarrow> error_code \<Rightarrow> nat \<Rightarrow> 'w \<times> endpoint \<times> nat
    \<Rightarrow> (bool \<times> error_code \<times> nat \<times> 'w \<times> endpoint \<times> nat) option" where
  "non_blocking_recvfrom K s bufs flags = non_blocking_transfer (recvfrom K s bufs flags) False"

definition non_blocking_recvfrom1 ::
  "'w sys_env \<Rightarrow> int \<Rightarrow> mutable_buffer \<Rightarrow> 32 word \<Rightarrow> error_code \<Rightarrow> nat \<Rightarrow> 'w \<times> endpoint \<times> nat
    \<Rightarrow> (bool \<times> error_code \<times> nat \<times> 'w \<times> endpoint \<times> nat) option" where
  "non_blocking_recvfrom1 K s buf flags = non_blocking_transfer (recvfrom1 K s buf flags) False"

definition non_blocking_recvmsg ::
  "'w sys_env \<Rightarrow> int \<Rightarrow> mutable_buffer list \<Rightarrow> 32 word \<Rightarrow> error_code \<Rightarrow> nat \<Rightarrow> 'w \<times> 32 word
    \<Rightarrow> (bool \<times> error_code \<times> nat \<times> 'w \<times> 32 word) option" where
  "non_blocking_recvmsg K s bufs in_flags = non_blocking_transfer (recvmsg K s bufs in_flags) False"

definition non_blocking_sendto ::
  "'w sys_env \<Rightarrow> int \<Rightarrow> mutable_buffer list \<Rightarrow> 32 word \<Rightarrow> endpoint \<Rightarrow> nat \<Rightarrow> error_code \<Rightarrow> nat \<Rightarrow> 'w
    \<Rightarrow> (bool \<times> error_code \<times> nat \<times> 'w) option" where
  "non_blocking_sendto K s bufs flags addr addrlen = non_blocking_transfer (sendto K s bufs flags addr addrlen) False"

definition non_blocking_sendto1 ::
  "'w sys_env \<Rightarrow> int \<Rightarrow> mutable_buffer \<Rightarrow> 32 word \<Rightarrow> endpoint \<Rightarrow> nat \<Rightarrow> error_code \<Rightarrow> nat \<Rightarrow> 'w
    \<Rightarrow> (bool \<times> error_code \<times> nat \<times> 'w) option" where
  "non_blocking_sendto1 K s buf flags addr addrlen = non_blocking_transfer (sendto1 K s buf flags addr addrlen) False"

section \<open>Names\<close>

text \<open>The result, the address, its length, the error and the kernel.\<close>

definition getsockname ::
  "'w sys_env \<Rightarrow> int \<Rightarrow> endpoint \<Rightarrow> nat \<Rightarrow> error_code \<Rightarrow> 'w \<Rightarrow> int \<times> endpoint \<times> nat \<times> error_code \<times> 'w" where
  "getsockname K s addr addrlen ec w =
     (if s = invalid_socket then (socket_error_retval, addr, addrlen, basic_ec bad_descriptor, w)
      else let (result, errno, addr, addrlen, w) = sys_getsockname K s addr (to_socklen addrlen) w
           in (result, addr, addrlen, get_last_error (result \<noteq> 0) errno ec, w))"

definition getpeername ::
  "'w sys_env \<Rightarrow> int \<Rightarrow> endpoint \<Rightarrow> nat \<Rightarrow> bool \<Rightarrow> error_code \<Rightarrow> 'w \<Rightarrow> int \<times> endpoint \<times> nat \<times> error_code \<times> 'w" where
  "getpeername K s addr addrlen cached ec w =
     (if s = invalid_socket then (socket_error_retval, addr, addrlen, basic_ec bad_descriptor, w)
      else let (result, errno, addr, addrlen, w) = sys_getpeername K s addr (to_socklen addrlen) w
           in (result, addr, addrlen, get_last_error (result \<noteq> 0) errno ec, w))"

end
