(* ===== verification/TimerTraits.thy ===== *)
theory TimerTraits
  imports TimerQueue "HOL-Library.Signed_Division"
begin

text \<open>
  The clock arithmetic of the timers: \<^verbatim>\<open>asio/detail/chrono_time_traits.hpp\<close> and the conversion of the time
  to wait in \<^verbatim>\<open>asio/detail/timer_queue.hpp\<close>. Times and durations are 64-bit tick counts, written as integers
  with every operation reduced to 64 signed bits (\<open>s64\<close>), so that an overflow in between would show.
\<close>

definition s64 :: "int \<Rightarrow> int" where
  "s64 x = signed_take_bit 63 x"

definition time_max :: int where "time_max = 2 ^ 63 - 1"
definition time_min :: int where "time_min = - (2 ^ 63)"

definition chrono_add :: "int \<Rightarrow> int \<Rightarrow> int" where
  "chrono_add t d =
     (if t \<ge> 0 then (if s64 (time_max - t) < d then time_max else s64 (t + d))
      else (if s64 (- s64 (t - time_min)) > d then time_min else s64 (t + d)))"

definition chrono_subtract :: "int \<Rightarrow> int \<Rightarrow> int" where
  "chrono_subtract t1 t2 =
     (if t1 \<ge> 0 then
        if t2 \<ge> 0 then s64 (t1 - t2)
        else if t2 = time_min then time_max
        else if s64 (time_max - t1) < s64 (0 - t2) then time_max
        else s64 (t1 - t2)
      else
        if t2 < 0 then s64 (t1 - t2)
        else if t1 = time_min then time_min
        else if s64 (time_max - t2) < s64 (0 - t1) then time_min
        else s64 (- s64 (t2 - t1)))"

definition chrono_less_than :: "int \<Rightarrow> int \<Rightarrow> bool" where
  "chrono_less_than t1 t2 \<longleftrightarrow> t1 < t2"

text \<open>\<open>duration_cast<Num, Den>\<close> for a clock of period \<open>pnum / pden\<close>; the test \<open>period_type::den != 1\<close> of the
  third branch is as in the code.\<close>

definition duration_cast :: "int \<Rightarrow> int \<Rightarrow> int \<Rightarrow> int \<Rightarrow> int \<Rightarrow> int" where
  "duration_cast pnum pden c_num c_den ticks =
     (let num1 = pnum sdiv gcd pnum c_num;
          num2 = c_num sdiv gcd pnum c_num;
          den1 = pden sdiv gcd pden c_den;
          den2 = c_den sdiv gcd pden c_den;
          num = num1 * den2;
          den = num2 * den1
      in if num = 1 \<and> den = 1 then ticks
         else if num \<noteq> 1 \<and> den = 1 then s64 (ticks * num)
         else if num = 1 \<and> pden \<noteq> 1 then ticks sdiv den
         else s64 (ticks * num) sdiv den)"

text \<open>\<open>steady_clock\<close> and \<open>system_clock\<close> count nanoseconds.\<close>

definition total_milliseconds :: "int \<Rightarrow> int" where
  "total_milliseconds ticks = duration_cast 1 1000000000 1 1000 ticks"

definition total_microseconds :: "int \<Rightarrow> int" where
  "total_microseconds ticks = duration_cast 1 1000000000 1 1000000 ticks"

definition to_msec :: "int \<Rightarrow> int \<Rightarrow> int" where
  "to_msec ticks max_duration =
     (if ticks \<le> 0 then 0
      else let msec = total_milliseconds ticks
           in if msec = 0 then 1 else if msec > max_duration then max_duration else msec)"

definition to_usec :: "int \<Rightarrow> int \<Rightarrow> int" where
  "to_usec ticks max_duration =
     (if ticks \<le> 0 then 0
      else let usec = total_microseconds ticks
           in if usec = 0 then 1 else if usec > max_duration then max_duration else usec)"

definition wait_duration_msec :: "int \<Rightarrow> int \<Rightarrow> (int, 'tm, 'op) timer_queue \<Rightarrow> int" where
  "wait_duration_msec now max_duration s =
     (if heap s = [] then max_duration
      else to_msec (chrono_subtract (fst (heap s ! 0)) now) max_duration)"

definition wait_duration_usec :: "int \<Rightarrow> int \<Rightarrow> (int, 'tm, 'op) timer_queue \<Rightarrow> int" where
  "wait_duration_usec now max_duration s =
     (if heap s = [] then max_duration
      else to_usec (chrono_subtract (fst (heap s ! 0)) now) max_duration)"

section \<open>Saturation\<close>

definition in_range :: "int \<Rightarrow> bool" where
  "in_range x \<longleftrightarrow> time_min \<le> x \<and> x \<le> time_max"

definition clamp :: "int \<Rightarrow> int" where
  "clamp x = max time_min (min time_max x)"

lemma s64_id: "in_range x \<Longrightarrow> s64 x = x"
  unfolding s64_def in_range_def time_min_def time_max_def
  by (intro signed_take_bit_int_eq_self) linarith+

lemma chrono_add_clamp:
  assumes "in_range t" and "in_range d"
  shows "chrono_add t d = clamp (t + d)"
proof (cases "t \<ge> 0")
  case True
  then have "in_range (time_max - t)" using assms(1) by (simp add: in_range_def time_min_def time_max_def)
  moreover have "in_range (t + d)" if "\<not> time_max - t < d"
    using that True assms(2) by (simp add: in_range_def time_min_def time_max_def)
  ultimately show ?thesis using True assms
    by (auto simp: chrono_add_def s64_id clamp_def in_range_def time_min_def time_max_def)
next
  case False
  then have "in_range (t - time_min)" "in_range (- (t - time_min))"
    using assms(1) by (simp_all add: in_range_def time_min_def time_max_def)
  moreover have "in_range (t + d)" if "\<not> - (t - time_min) > d"
    using that False assms(2) by (simp add: in_range_def time_min_def time_max_def)
  ultimately show ?thesis using False assms
    by (auto simp: chrono_add_def s64_id clamp_def in_range_def time_min_def time_max_def)
qed

lemma chrono_subtract_clamp:
  assumes "in_range t1" and "in_range t2"
  shows "chrono_subtract t1 t2 = clamp (t1 - t2)"
proof -
  note r = in_range_def time_min_def time_max_def
  consider "t1 \<ge> 0" "t2 \<ge> 0" | "t1 \<ge> 0" "t2 < 0" | "t1 < 0" "t2 < 0" | "t1 < 0" "t2 \<ge> 0" by linarith
  then show ?thesis
  proof cases
    case 1
    then have "in_range (t1 - t2)" using assms by (simp add: r)
    then show ?thesis using 1 by (simp add: chrono_subtract_def s64_id clamp_def in_range_def)
  next
    case 2
    have a: "in_range (time_max - t1)" using 2 assms by (simp add: r)
    have b: "in_range (0 - t2)" if "t2 \<noteq> time_min" using that 2 assms by (simp add: r)
    have c: "in_range (t1 - t2)" if "\<not> time_max - t1 < 0 - t2" using that 2 assms by (simp add: r)
    show ?thesis using 2 a b c assms
      by (auto simp: chrono_subtract_def s64_id clamp_def r)
  next
    case 3
    then have "in_range (t1 - t2)" using assms by (simp add: r)
    then show ?thesis using 3 by (simp add: chrono_subtract_def s64_id clamp_def in_range_def)
  next
    case 4
    have a: "in_range (time_max - t2)" using 4 assms by (simp add: r)
    have b: "in_range (0 - t1)" if "t1 \<noteq> time_min" using that 4 assms by (simp add: r)
    have c: "in_range (t2 - t1)" "in_range (- (t2 - t1))" if "\<not> time_max - t2 < 0 - t1"
      using that 4 assms by (simp_all add: r)
    show ?thesis using 4 a b c assms
      by (auto simp: chrono_subtract_def s64_id clamp_def r)
  qed
qed

text \<open>Adding a duration to a time and subtracting two times saturate: for all 64-bit values the result is
  the exact one, cut off at the least and the greatest value, and no intermediate step wraps around; in
  particular an expiry beyond the end of the clock stays in the future.\<close>

theorem chrono_arithmetic_saturates:
  assumes "in_range t1" and "in_range t2"
  shows "chrono_add t1 t2 = clamp (t1 + t2) \<and> chrono_subtract t1 t2 = clamp (t1 - t2)"
  using chrono_add_clamp [OF assms] chrono_subtract_clamp [OF assms] by blast

theorem chrono_arithmetic_saturates_witness:
  "chrono_add (2 ^ 63 - 10) 100 = 2 ^ 63 - 1 \<and> chrono_subtract (2 ^ 63 - 10) 100 = 2 ^ 63 - 110"
proof -
  have "in_range (2 ^ 63 - 10)" "in_range 100" by (simp_all add: in_range_def time_min_def time_max_def)
  from chrono_arithmetic_saturates [OF this] show ?thesis by (simp add: clamp_def time_min_def time_max_def)
qed

section \<open>How long to wait\<close>

lemma total_milliseconds_eq: "total_milliseconds ticks = ticks sdiv 1000000"
  by (simp add: total_milliseconds_def duration_cast_def Let_def signed_divide_int_def)

lemma total_microseconds_eq: "total_microseconds ticks = ticks sdiv 1000"
  by (simp add: total_microseconds_def duration_cast_def Let_def signed_divide_int_def)

lemma sdiv_pos: "0 < (a :: int) \<Longrightarrow> 0 < b \<Longrightarrow> a sdiv b = a div b"
  by (simp add: signed_divide_int_def)

lemma to_usec_bounds:
  assumes "0 < m"
  shows "0 \<le> to_usec ticks m" "to_usec ticks m = 0 \<longleftrightarrow> ticks \<le> 0" "to_usec ticks m \<le> m"
    "ticks \<le> 0 \<or> (to_usec ticks m - 1) * 1000 < ticks"
  using assms pos_imp_zdiv_nonneg_iff [of 1000 ticks]
  by (auto simp: to_usec_def Let_def total_microseconds_eq sdiv_pos)

lemma to_msec_bounds:
  assumes "0 < m"
  shows "0 \<le> to_msec ticks m" "to_msec ticks m = 0 \<longleftrightarrow> ticks \<le> 0" "to_msec ticks m \<le> m"
    "ticks \<le> 0 \<or> (to_msec ticks m - 1) * 1000000 < ticks"
  using assms pos_imp_zdiv_nonneg_iff [of 1000000 ticks]
  by (auto simp: to_msec_def Let_def total_milliseconds_eq sdiv_pos)

end
