(* ===== verification/EpollReactor.thy ===== *)
theory EpollReactor
  imports SchedulerRun TimerTraits
begin

text \<open>
  The reactor of Linux, \<^verbatim>\<open>asio/detail/impl/epoll_reactor.ipp\<close>: what stands between the scheduler and the
  sockets. It is the scheduler's task; a descriptor with events goes back to the scheduler as an operation
  of its own (\<open>Descriptor\<close>), whose completion performs the socket operations that are ready.

  A pointer to a \<open>descriptor_state\<close> is its position in \<open>states\<close>; \<open>object_pool\<close> keeps the ones in use in
  \<open>live_list\<close> and the ones to use again in \<open>free_list\<close>. One timer queue is registered. The operating system
  is the record \<open>os_env\<close>: what performing a socket operation does, \<open>epoll_ctl\<close>, \<open>epoll_wait\<close> and the
  clock. \<open>socket_data\<close> holds the \<open>per_descriptor_data\<close> variables of the sockets that use the reactor, by
  number. \<open>queued_descriptors\<close> and \<open>timer_waits\<close> are not in the code: they count the descriptor operations
  given to the scheduler and not yet run, and the waits started and not yet handed out by the timer queue. As
  in theory Scheduler, the state is that of one thread; the reactor's own mutexes are left out.
\<close>

section \<open>Events\<close>

definition EPOLLIN :: "32 word" where "EPOLLIN = 1"
definition EPOLLPRI :: "32 word" where "EPOLLPRI = 2"
definition EPOLLOUT :: "32 word" where "EPOLLOUT = 4"
definition EPOLLERR :: "32 word" where "EPOLLERR = 8"
definition EPOLLHUP :: "32 word" where "EPOLLHUP = 16"
definition EPOLLET :: "32 word" where "EPOLLET = 0x80000000"

lemmas epoll_defs = EPOLLIN_def EPOLLPRI_def EPOLLOUT_def EPOLLERR_def EPOLLHUP_def EPOLLET_def

text \<open>\<open>op_types\<close>: \<open>connect_op\<close> is another name of \<open>write_op\<close>; \<open>op_types\<close> lists the positions of an array of
  \<open>max_ops\<close> queues in order.\<close>

datatype op_type = ReadOp | WriteOp | ExceptOp

definition connect_op :: op_type where "connect_op = WriteOp"

definition op_types :: "op_type list" where
  "op_types = [ReadOp, WriteOp, ExceptOp]"

text \<open>The event that makes operations of a type ready.\<close>

fun op_flag :: "op_type \<Rightarrow> 32 word" where
  "op_flag ReadOp = EPOLLIN"
| "op_flag WriteOp = EPOLLOUT"
| "op_flag ExceptOp = EPOLLPRI"

section \<open>State\<close>

datatype 'o rop = Descriptor nat | Operation 'o

datatype status = NotDone | Done | DoneAndExhausted

record 'o descriptor_state =
  descriptor :: int
  registered_events :: "32 word"
  op_queue_of :: "op_type \<Rightarrow> 'o list"
  try_speculative :: "op_type \<Rightarrow> bool"
  ds_shutdown :: bool

record ('o, 'w) reactor =
  states :: "'o descriptor_state list"
  live_list :: "nat list"
  free_list :: "nat list"
  reactor_shutdown :: bool
  timer_fd :: int
  timer_q :: "(int, nat, 'o) timer_queue"
  rop_ec :: "'o \<Rightarrow> error_code"
  rop_bytes :: "'o \<Rightarrow> nat"
  rop_key :: "'o \<Rightarrow> nat"
  timerfd_setting :: "int \<times> int \<times> int"
  interrupts_sent :: nat
  socket_data :: "nat \<Rightarrow> nat option"
  os :: 'w
  queued_descriptors :: int
  timer_waits :: int

datatype epoll_ptr = Interrupter | TimerFd | DescriptorPtr nat

datatype ctl = CtlAdd | CtlMod | CtlDel

text \<open>A result of \<open>epoll_ctl\<close> is the \<open>errno\<close> it fails with, 0 if it succeeds.\<close>

record ('o, 'w) os_env =
  os_perform :: "'o \<Rightarrow> 'w \<Rightarrow> status \<times> error_code \<times> nat \<times> 'w"
  os_epoll_ctl :: "ctl \<Rightarrow> int \<Rightarrow> 32 word \<Rightarrow> epoll_ptr \<Rightarrow> 'w \<Rightarrow> int \<times> 'w"
  os_epoll_wait :: "int \<Rightarrow> 'w \<Rightarrow> (epoll_ptr \<times> 32 word) list \<times> 'w"
  os_now :: "'w \<Rightarrow> int"
  os_interrupter :: int

type_synonym ('o, 'w) rsched = "('o rop, ('o, 'w) reactor) sched"

definition with_reactor :: "(('o, 'w) reactor \<Rightarrow> ('o, 'w) reactor) \<Rightarrow> ('o, 'w) rsched \<Rightarrow> ('o, 'w) rsched" where
  "with_reactor f s = s\<lparr>world := f (world s)\<rparr>"

text \<open>Dereferencing and assigning through a descriptor pointer.\<close>

definition blank_state :: "'o descriptor_state" where
  "blank_state = \<lparr>descriptor = - 1, registered_events = 0, op_queue_of = (\<lambda>_. []),
     try_speculative = (\<lambda>_. False), ds_shutdown = False\<rparr>"

definition state_at :: "nat \<Rightarrow> ('o, 'w) reactor \<Rightarrow> 'o descriptor_state" where
  "state_at d r = (if d < length (states r) then states r ! d else blank_state)"

definition set_state :: "nat \<Rightarrow> 'o descriptor_state \<Rightarrow> ('o, 'w) reactor \<Rightarrow> ('o, 'w) reactor" where
  "set_state d x r =
     (if d < length (states r) then r\<lparr>states := (states r)[d := x]\<rparr>
      else r\<lparr>states := states r @ replicate (d - length (states r)) blank_state @ [x]\<rparr>)"

definition upd_state ::
  "nat \<Rightarrow> ('o descriptor_state \<Rightarrow> 'o descriptor_state) \<Rightarrow> ('o, 'w) reactor \<Rightarrow> ('o, 'w) reactor" where
  "upd_state d f r = set_state d (f (state_at d r)) r"

definition set_queue :: "op_type \<Rightarrow> 'o list \<Rightarrow> 'o descriptor_state \<Rightarrow> 'o descriptor_state" where
  "set_queue j q x = x\<lparr>op_queue_of := (op_queue_of x)(j := q)\<rparr>"

definition set_speculative :: "op_type \<Rightarrow> bool \<Rightarrow> 'o descriptor_state \<Rightarrow> 'o descriptor_state" where
  "set_speculative j b x = x\<lparr>try_speculative := (try_speculative x)(j := b)\<rparr>"

definition set_rop_ec :: "'o \<Rightarrow> error_code \<Rightarrow> ('o, 'w) reactor \<Rightarrow> ('o, 'w) reactor" where
  "set_rop_ec opn ec r = r\<lparr>rop_ec := (rop_ec r)(opn := ec)\<rparr>"

definition new_reactor :: "int \<Rightarrow> ('o \<Rightarrow> nat) \<Rightarrow> 'w \<Rightarrow> ('o, 'w) reactor" where
  "new_reactor tfd keys w =
     \<lparr>states = [], live_list = [], free_list = [], reactor_shutdown = False, timer_fd = tfd,
      timer_q = new_timer_queue (\<lambda>_. ec_success), rop_ec = (\<lambda>_. ec_success), rop_bytes = (\<lambda>_. 0), rop_key = keys,
      timerfd_setting = (0, 0, 0), interrupts_sent = 1, socket_data = (\<lambda>_. None), os = w, queued_descriptors = 0, timer_waits = 0\<rparr>"

section \<open>Calls to the operating system\<close>

text \<open>\<open>op->perform()\<close> leaves its results in the operation.\<close>

definition perform :: "('o, 'w) os_env \<Rightarrow> 'o \<Rightarrow> ('o, 'w) reactor \<Rightarrow> status \<times> ('o, 'w) reactor" where
  "perform E opn r =
     (let (st, ec, n, w) = os_perform E opn (os r)
      in (st, r\<lparr>rop_ec := (rop_ec r)(opn := ec), rop_bytes := (rop_bytes r)(opn := n), os := w\<rparr>))"

definition epoll_ctl ::
  "('o, 'w) os_env \<Rightarrow> ctl \<Rightarrow> int \<Rightarrow> 32 word \<Rightarrow> epoll_ptr \<Rightarrow> ('o, 'w) reactor \<Rightarrow> int \<times> ('o, 'w) reactor" where
  "epoll_ctl E c fd ev ptr r = (let (err, w) = os_epoll_ctl E c fd ev ptr (os r) in (err, r\<lparr>os := w\<rparr>))"

section \<open>The pool of descriptor states\<close>

definition allocate_descriptor_state :: "('o, 'w) reactor \<Rightarrow> nat \<times> ('o, 'w) reactor" where
  "allocate_descriptor_state r =
     (case free_list r of
        d # ds \<Rightarrow> (d, r\<lparr>free_list := ds, live_list := d # live_list r\<rparr>)
      | [] \<Rightarrow> (let d = length (states r)
               in (d, r\<lparr>states := states r @ [blank_state], live_list := d # live_list r\<rparr>)))"

definition free_descriptor_state :: "nat \<Rightarrow> ('o, 'w) reactor \<Rightarrow> ('o, 'w) reactor" where
  "free_descriptor_state d r = r\<lparr>live_list := remove1 d (live_list r), free_list := d # free_list r\<rparr>"

section \<open>Registration\<close>

definition registration_events :: "32 word" where
  "registration_events = EPOLLIN OR EPOLLERR OR EPOLLHUP OR EPOLLPRI OR EPOLLET"

definition EPERM :: int where "EPERM = 1"

text \<open>The result is the error number, the new value of \<open>descriptor_data\<close>, and the state.\<close>

definition register_descriptor ::
  "('o, 'w) os_env \<Rightarrow> int \<Rightarrow> ('o, 'w) rsched \<Rightarrow> int \<times> nat option \<times> ('o, 'w) rsched" where
  "register_descriptor E fd s =
     (let (d, r) = allocate_descriptor_state (world s);
          r = upd_state d (\<lambda>x. x\<lparr>descriptor := fd, ds_shutdown := False,
                try_speculative := (\<lambda>_. True),
                registered_events := registration_events\<rparr>) r;
          (err, r) = epoll_ctl E CtlAdd fd registration_events (DescriptorPtr d) r
      in if err \<noteq> 0
         then if err = EPERM
              then (0, Some d, s\<lparr>world := upd_state d (\<lambda>x. x\<lparr>registered_events := 0\<rparr>) r\<rparr>)
              else (err, Some d, s\<lparr>world := r\<rparr>)
         else (0, Some d, s\<lparr>world := r\<rparr>))"

definition register_internal_descriptor ::
  "('o, 'w) os_env \<Rightarrow> op_type \<Rightarrow> int \<Rightarrow> 'o \<Rightarrow> ('o, 'w) rsched \<Rightarrow> int \<times> nat option \<times> ('o, 'w) rsched" where
  "register_internal_descriptor E op_type fd opn s =
     (let (d, r) = allocate_descriptor_state (world s);
          r = upd_state d (\<lambda>x. (set_queue op_type (op_queue_of x op_type @ [opn]) x)
                \<lparr>descriptor := fd, ds_shutdown := False,
                 try_speculative := (\<lambda>_. True),
                 registered_events := registration_events\<rparr>) r;
          (err, r) = epoll_ctl E CtlAdd fd registration_events (DescriptorPtr d) r
      in (err, Some d, s\<lparr>world := r\<rparr>))"

text \<open>\<open>move_descriptor\<close> on the two variables: the new target and source.\<close>

definition move_descriptor :: "nat option \<Rightarrow> nat option \<Rightarrow> nat option \<times> nat option" where
  "move_descriptor target_data source_data = (source_data, None)"

section \<open>Starting an operation\<close>

definition fail_op :: "'o \<Rightarrow> error_code \<Rightarrow> bool \<Rightarrow> ('o, 'w) rsched \<Rightarrow> ('o, 'w) rsched" where
  "fail_op opn ec is_continuation s =
     post_immediate_completion (Operation opn) is_continuation (with_reactor (set_rop_ec opn ec) s)"

definition enqueue_op :: "nat \<Rightarrow> op_type \<Rightarrow> 'o \<Rightarrow> ('o, 'w) rsched \<Rightarrow> ('o, 'w) rsched" where
  "enqueue_op d op_type opn s =
     work_started (with_reactor
       (upd_state d (\<lambda>x. set_queue op_type (op_queue_of x op_type @ [opn]) x)) s)"

text \<open>The part after a speculative attempt that did not complete the operation.\<close>

definition start_waiting ::
  "('o, 'w) os_env \<Rightarrow> op_type \<Rightarrow> int \<Rightarrow> nat \<Rightarrow> 'o \<Rightarrow> bool \<Rightarrow> ('o, 'w) rsched \<Rightarrow> ('o, 'w) rsched" where
  "start_waiting E op_type fd d opn is_continuation s =
     (let ev = registered_events (state_at d (world s))
      in if ev = 0 then fail_op opn (basic_ec operation_not_supported) is_continuation s
         else if op_type = WriteOp \<and> ev AND EPOLLOUT = 0
         then (let (err, r) = epoll_ctl E CtlMod fd (ev OR EPOLLOUT) (DescriptorPtr d) (world s);
                   s = s\<lparr>world := r\<rparr>
               in if err = 0
                  then enqueue_op d op_type opn
                         (with_reactor (upd_state d (\<lambda>x. x\<lparr>registered_events := registered_events x OR (ev OR EPOLLOUT)\<rparr>)) s)
                  else fail_op opn (EC err SystemCat) is_continuation s)
         else enqueue_op d op_type opn s)"

definition start_op ::
  "('o, 'w) os_env \<Rightarrow> op_type \<Rightarrow> int \<Rightarrow> nat option \<Rightarrow> 'o \<Rightarrow> bool \<Rightarrow> bool \<Rightarrow> ('o, 'w) rsched \<Rightarrow> ('o, 'w) rsched" where
  "start_op E op_type fd descriptor_data opn is_continuation allow_speculative s =
     (case descriptor_data of
        None \<Rightarrow> fail_op opn (basic_ec bad_descriptor) is_continuation s
      | Some d \<Rightarrow>
          let x = state_at d (world s)
          in if ds_shutdown x then post_immediate_completion (Operation opn) is_continuation s
             else if op_queue_of x op_type = [] then
               if allow_speculative \<and> (op_type \<noteq> ReadOp \<or> op_queue_of x ExceptOp = []) then
                 if try_speculative x op_type then
                   (let (st, r) = perform E opn (world s);
                        s = s\<lparr>world := r\<rparr>
                    in if st \<noteq> NotDone
                       then post_immediate_completion (Operation opn) is_continuation
                              (if st = DoneAndExhausted \<and> registered_events x \<noteq> 0
                               then with_reactor (upd_state d (set_speculative op_type False)) s else s)
                       else start_waiting E op_type fd d opn is_continuation s)
                 else start_waiting E op_type fd d opn is_continuation s
               else if registered_events x = 0
               then fail_op opn (basic_ec operation_not_supported) is_continuation s
               else
                 (let r = (if op_type = WriteOp
                       then upd_state d (\<lambda>x. x\<lparr>registered_events := registered_events x OR EPOLLOUT\<rparr>) (world s)
                       else world s);
                      (err, r) = epoll_ctl E CtlMod fd (registered_events (state_at d r)) (DescriptorPtr d) r
                  in enqueue_op d op_type opn (s\<lparr>world := r\<rparr>))
             else enqueue_op d op_type opn s)"

section \<open>Cancelling and deregistering\<close>

text \<open>The loop that aborts every operation of a queue, front to back.\<close>

fun abort_queue :: "'o list \<Rightarrow> 'o list \<Rightarrow> ('o, 'w) reactor \<Rightarrow> 'o list \<times> ('o, 'w) reactor" where
  "abort_queue [] ops r = (ops, r)"
| "abort_queue (opn # q) ops r = abort_queue q (ops @ [opn]) (set_rop_ec opn (basic_ec operation_aborted) r)"

definition abort_type :: "nat \<Rightarrow> op_type \<Rightarrow> 'o list \<times> ('o, 'w) reactor \<Rightarrow> 'o list \<times> ('o, 'w) reactor" where
  "abort_type d i acc =
     (let (ops, r) = abort_queue (op_queue_of (state_at d (snd acc)) i) (fst acc) (snd acc)
      in (ops, upd_state d (set_queue i []) r))"

definition abort_all :: "nat \<Rightarrow> ('o, 'w) reactor \<Rightarrow> 'o list \<times> ('o, 'w) reactor" where
  "abort_all d r = fold (abort_type d) op_types ([], r)"

definition reactor_cancel_ops :: "nat option \<Rightarrow> ('o, 'w) rsched \<Rightarrow> ('o, 'w) rsched" where
  "reactor_cancel_ops descriptor_data s =
     (case descriptor_data of
        None \<Rightarrow> s
      | Some d \<Rightarrow>
          let (ops, r) = abort_all d (world s)
          in post_deferred_completions (map Operation ops) (s\<lparr>world := r\<rparr>))"

fun split_by_key :: "('o \<Rightarrow> nat) \<Rightarrow> nat \<Rightarrow> 'o list \<Rightarrow> 'o list \<Rightarrow> 'o list \<Rightarrow> ('o, 'w) reactor
    \<Rightarrow> 'o list \<times> 'o list \<times> ('o, 'w) reactor" where
  "split_by_key key_of key [] ops other_ops r = (ops, other_ops, r)"
| "split_by_key key_of key (opn # q) ops other_ops r =
     (if key_of opn = key
      then split_by_key key_of key q (ops @ [opn]) other_ops (set_rop_ec opn (basic_ec operation_aborted) r)
      else split_by_key key_of key q ops (other_ops @ [opn]) r)"

definition cancel_ops_by_key :: "nat option \<Rightarrow> op_type \<Rightarrow> nat \<Rightarrow> ('o, 'w) rsched \<Rightarrow> ('o, 'w) rsched" where
  "cancel_ops_by_key descriptor_data op_type key s =
     (case descriptor_data of
        None \<Rightarrow> s
      | Some d \<Rightarrow>
          let r = world s;
              (ops, other_ops, r) = split_by_key (rop_key r) key (op_queue_of (state_at d r) op_type) [] [] r;
              r = upd_state d (set_queue op_type other_ops) r
          in post_deferred_completions (map Operation ops) (s\<lparr>world := r\<rparr>))"

definition deregister_descriptor ::
  "('o, 'w) os_env \<Rightarrow> int \<Rightarrow> nat option \<Rightarrow> bool \<Rightarrow> ('o, 'w) rsched \<Rightarrow> nat option \<times> ('o, 'w) rsched" where
  "deregister_descriptor E fd descriptor_data closing s =
     (case descriptor_data of
        None \<Rightarrow> (None, s)
      | Some d \<Rightarrow>
          let x = state_at d (world s)
          in if \<not> ds_shutdown x then
               let r = (if \<not> closing \<and> registered_events x \<noteq> 0
                        then snd (epoll_ctl E CtlDel fd 0 (DescriptorPtr d) (world s)) else world s);
                   (ops, r) = abort_all d r;
                   r = upd_state d (\<lambda>x. x\<lparr>descriptor := - 1, ds_shutdown := True\<rparr>) r
               in (Some d, post_deferred_completions (map Operation ops) (s\<lparr>world := r\<rparr>))
             else (None, s))"

text \<open>Internal operations are destroyed with the local queue they are moved to.\<close>

definition deregister_internal_descriptor ::
  "('o, 'w) os_env \<Rightarrow> int \<Rightarrow> nat option \<Rightarrow> ('o, 'w) rsched \<Rightarrow> nat option \<times> ('o, 'w) rsched" where
  "deregister_internal_descriptor E fd descriptor_data s =
     (case descriptor_data of
        None \<Rightarrow> (None, s)
      | Some d \<Rightarrow>
          if \<not> ds_shutdown (state_at d (world s)) then
            let r = snd (epoll_ctl E CtlDel fd 0 (DescriptorPtr d) (world s));
                r = upd_state d (fold (\<lambda>i. set_queue i []) op_types) r;
                r = upd_state d (\<lambda>x. x\<lparr>descriptor := - 1, ds_shutdown := True\<rparr>) r
            in (Some d, s\<lparr>world := r\<rparr>)
          else (None, s))"

definition cleanup_descriptor_data :: "nat option \<Rightarrow> ('o, 'w) rsched \<Rightarrow> nat option \<times> ('o, 'w) rsched" where
  "cleanup_descriptor_data descriptor_data s =
     (case descriptor_data of
        None \<Rightarrow> (None, s)
      | Some d \<Rightarrow> (None, with_reactor (free_descriptor_state d) s))"

end
