(* ===== verification/SocketPerform.thy ===== *)
theory SocketPerform
  imports Datagram EpollReactor
begin

text \<open>
  The operations of sockets that the reactor performs, made of the loops of theories SocketLoops and Datagram. From
  \<^verbatim>\<open>asio/detail/reactive_socket_{recv,send,recvfrom,sendto,recvmsg,accept,connect}_op.hpp\<close> and
  \<^verbatim>\<open>asio/detail/reactive_wait_op.hpp\<close>.
\<close>

section \<open>The reactor operations\<close>

text \<open>\<open>buffer_sequence_adapter\<close>: what one system call takes of a sequence of buffers.\<close>

definition adapter_max_buffers :: nat where "adapter_max_buffers = 64"

definition adapter_buffers :: "mutable_buffer list \<Rightarrow> mutable_buffer list" where
  "adapter_buffers bufs = take adapter_max_buffers bufs"

definition adapter_total_size :: "mutable_buffer list \<Rightarrow> nat" where
  "adapter_total_size bufs = buffer_size (adapter_buffers bufs)"

definition adapter_all_empty :: "mutable_buffer list \<Rightarrow> bool" where
  "adapter_all_empty bufs \<longleftrightarrow> list_all (\<lambda>b. \<not> buf_size b > 0) (adapter_buffers bufs)"

text \<open>\<open>single\<close> is \<open>is_single_buffer\<close>, known from the type of the buffer sequence. A \<open>sock_op\<close> is an operation
  object, named by \<open>op_id\<close>, with its members.\<close>

datatype op_kind =
    RecvOp bool int state_type "mutable_buffer list" "32 word"
  | SendOp bool int state_type "mutable_buffer list" "32 word"
  | AcceptOp int state_type
  | ConnectOp int
  | WaitOp
  | RecvFromOp bool int "mutable_buffer list" "32 word"
  | SendToOp bool int "mutable_buffer list" "32 word" endpoint
  | RecvMsgOp int "mutable_buffer list" "32 word"

datatype sock_op = SockOp (op_id: nat) (op_kind: op_kind)

definition done_if :: "bool \<Rightarrow> status" where
  "done_if b = (if b then Done else NotDone)"

definition recv_perform ::
  "'w sys_env \<Rightarrow> bool \<Rightarrow> int \<Rightarrow> state_type \<Rightarrow> mutable_buffer list \<Rightarrow> 32 word \<Rightarrow> error_code \<Rightarrow> nat \<Rightarrow> 'w
    \<Rightarrow> (status \<times> error_code \<times> nat \<times> 'w) option" where
  "recv_perform K single s state bufs flags ec n w =
     (let is_stream = has state stream_oriented
      in case (if single then non_blocking_recv1 K s (hd bufs) flags is_stream ec n w
               else non_blocking_recv K s (adapter_buffers bufs) flags is_stream ec n w) of
           None \<Rightarrow> None
         | Some (fin, ec, n, w) \<Rightarrow>
             Some (if fin \<and> is_stream \<and> n = 0 then DoneAndExhausted else done_if fin, ec, n, w))"

definition send_perform ::
  "'w sys_env \<Rightarrow> bool \<Rightarrow> int \<Rightarrow> state_type \<Rightarrow> mutable_buffer list \<Rightarrow> 32 word \<Rightarrow> error_code \<Rightarrow> nat \<Rightarrow> 'w
    \<Rightarrow> (status \<times> error_code \<times> nat \<times> 'w) option" where
  "send_perform K single s state bufs flags ec n w =
     (let is_stream = has state stream_oriented
      in if single
         then case non_blocking_send1 K s (hd bufs) flags ec n w of
                None \<Rightarrow> None
              | Some (fin, ec, n, w) \<Rightarrow>
                  Some (if fin \<and> is_stream \<and> n < buf_size (hd bufs) then DoneAndExhausted else done_if fin, ec, n, w)
         else case non_blocking_send K s (adapter_buffers bufs) flags ec n w of
                None \<Rightarrow> None
              | Some (fin, ec, n, w) \<Rightarrow>
                  Some (if fin \<and> is_stream \<and> n < adapter_total_size bufs then DoneAndExhausted else done_if fin,
                        ec, n, w))"

text \<open>
  A receive that names the sender writes into an endpoint of the caller. The result is the error that \<open>resize\<close>
  throws or how the attempt ended, with the endpoint and the kernel.
\<close>

definition recvfrom_perform ::
  "'w sys_env \<Rightarrow> bool \<Rightarrow> int \<Rightarrow> mutable_buffer list \<Rightarrow> 32 word \<Rightarrow> error_code \<Rightarrow> nat \<Rightarrow> 'w \<Rightarrow> endpoint
    \<Rightarrow> ((error_code + status \<times> error_code \<times> nat) \<times> 'w \<times> endpoint) option" where
  "recvfrom_perform K single s bufs flags ec n w sender_endpoint =
     (case (if single
            then non_blocking_recvfrom1 K s (hd bufs) flags ec n (w, sender_endpoint, endpoint_capacity)
            else non_blocking_recvfrom K s (adapter_buffers bufs) flags ec n (w, sender_endpoint, endpoint_capacity)) of
        None \<Rightarrow> None
      | Some (fin, ec, n, w, sender_endpoint, addr_len) \<Rightarrow>
          Some (case (if fin \<and> \<not> failed ec then endpoint_resize addr_len else None) of
                  Some err \<Rightarrow> Inl err
                | None \<Rightarrow> Inr (done_if fin, ec, n), w, sender_endpoint))"

definition sendto_perform ::
  "'w sys_env \<Rightarrow> bool \<Rightarrow> int \<Rightarrow> mutable_buffer list \<Rightarrow> 32 word \<Rightarrow> endpoint \<Rightarrow> error_code \<Rightarrow> nat \<Rightarrow> 'w
    \<Rightarrow> (status \<times> error_code \<times> nat \<times> 'w) option" where
  "sendto_perform K single s bufs flags destination ec n w =
     (case (if single
            then non_blocking_sendto1 K s (hd bufs) flags destination (endpoint_size destination) ec n w
            else non_blocking_sendto K s (adapter_buffers bufs) flags destination (endpoint_size destination) ec n w) of
        None \<Rightarrow> None
      | Some (fin, ec, n, w) \<Rightarrow> Some (done_if fin, ec, n, w))"

definition recvmsg_perform ::
  "'w sys_env \<Rightarrow> int \<Rightarrow> mutable_buffer list \<Rightarrow> 32 word \<Rightarrow> error_code \<Rightarrow> nat \<Rightarrow> 'w \<Rightarrow> 32 word
    \<Rightarrow> (status \<times> error_code \<times> nat \<times> 'w \<times> 32 word) option" where
  "recvmsg_perform K s bufs in_flags ec n w out_flags =
     (case non_blocking_recvmsg K s (adapter_buffers bufs) in_flags ec n (w, out_flags) of
        None \<Rightarrow> None
      | Some (fin, ec, n, w, out_flags) \<Rightarrow> Some (done_if fin, ec, n, w, out_flags))"

text \<open>
  An accept operation owns the new socket: \<open>new_socket_\<close> of operation \<open>i\<close> is \<open>holder i\<close>. The endpoint and the
  flags that operation \<open>i\<close> writes for its caller are \<open>sender i\<close> and \<open>flags_out i\<close>.
\<close>

record 'w net =
  kernel :: 'w
  holder :: "nat \<Rightarrow> int"
  sender :: "nat \<Rightarrow> endpoint"
  flags_out :: "nat \<Rightarrow> 32 word"

definition set_holder :: "nat \<Rightarrow> int \<Rightarrow> 'w net \<Rightarrow> 'w net" where
  "set_holder i fd n = n\<lparr>holder := (holder n)(i := fd)\<rparr>"

text \<open>\<open>socket_holder::reset\<close> and its destructor close the socket it holds.\<close>

definition holder_reset :: "'w sys_env \<Rightarrow> nat \<Rightarrow> 'w net \<Rightarrow> 'w net" where
  "holder_reset K i n =
     (if holder n i \<noteq> invalid_socket
      then let (result, state, ec, w) = socket_close K (holder n i) 0 True ec_success (kernel n)
           in set_holder i invalid_socket (n\<lparr>kernel := w\<rparr>)
      else n)"

definition holder_reset_to :: "'w sys_env \<Rightarrow> nat \<Rightarrow> int \<Rightarrow> 'w net \<Rightarrow> 'w net" where
  "holder_reset_to K i fd n = set_holder i fd (holder_reset K i n)"

definition accept_perform ::
  "'w sys_env \<Rightarrow> nat \<Rightarrow> int \<Rightarrow> state_type \<Rightarrow> error_code \<Rightarrow> 'w net \<Rightarrow> (status \<times> error_code \<times> 'w net) option" where
  "accept_perform K i s state ec n =
     (case non_blocking_accept K s state ec (kernel n) of
        None \<Rightarrow> None
      | Some (fin, ec, new_socket, w) \<Rightarrow>
          Some (done_if fin, ec, holder_reset_to K i new_socket (n\<lparr>kernel := w\<rparr>)))"

definition connect_perform ::
  "'w sys_env \<Rightarrow> int \<Rightarrow> error_code \<Rightarrow> 'w \<Rightarrow> status \<times> error_code \<times> 'w" where
  "connect_perform K s ec w =
     (let (fin, ec, w) = non_blocking_connect K s ec w in (done_if fin, ec, w))"

text \<open>\<open>op->perform()\<close> of the operations above. An operation starts with success and no bytes. An attempt that is
  not done leaves \<open>bytes_transferred\<close> alone, and what it leaves in \<open>ec_\<close> has the system category, which is all
  that a later attempt reads of it: every attempt is the first one. A call that never returns has no result, nor
  has one whose \<open>resize\<close> throws.\<close>

definition op_perform ::
  "'w sys_env \<Rightarrow> sock_op \<Rightarrow> 'w net \<Rightarrow> (status \<times> error_code \<times> nat \<times> 'w net) option" where
  "op_perform K opn n =
     (case op_kind opn of
        RecvOp single s state bufs flags \<Rightarrow>
          map_option (\<lambda>(st, ec, m, w). (st, ec, m, n\<lparr>kernel := w\<rparr>))
            (recv_perform K single s state bufs flags ec_success 0 (kernel n))
      | SendOp single s state bufs flags \<Rightarrow>
          map_option (\<lambda>(st, ec, m, w). (st, ec, m, n\<lparr>kernel := w\<rparr>))
            (send_perform K single s state bufs flags ec_success 0 (kernel n))
      | AcceptOp s state \<Rightarrow>
          map_option (\<lambda>(st, ec, n). (st, ec, 0, n)) (accept_perform K (op_id opn) s state ec_success n)
      | ConnectOp s \<Rightarrow>
          (let (st, ec, w) = connect_perform K s ec_success (kernel n) in Some (st, ec, 0, n\<lparr>kernel := w\<rparr>))
      | WaitOp \<Rightarrow> Some (Done, ec_success, 0, n)
      | RecvFromOp single s bufs flags \<Rightarrow>
          (case recvfrom_perform K single s bufs flags ec_success 0 (kernel n) (sender n (op_id opn)) of
             Some (Inr (st, ec, m), w, addr) \<Rightarrow> Some (st, ec, m, n\<lparr>kernel := w, sender := (sender n)(op_id opn := addr)\<rparr>)
           | _ \<Rightarrow> None)
      | SendToOp single s bufs flags destination \<Rightarrow>
          map_option (\<lambda>(st, ec, m, w). (st, ec, m, n\<lparr>kernel := w\<rparr>))
            (sendto_perform K single s bufs flags destination ec_success 0 (kernel n))
      | RecvMsgOp s bufs in_flags \<Rightarrow>
          map_option (\<lambda>(st, ec, m, w, fl). (st, ec, m, n\<lparr>kernel := w, flags_out := (flags_out n)(op_id opn := fl)\<rparr>))
            (recvmsg_perform K s bufs in_flags ec_success 0 (kernel n) (flags_out n (op_id opn))))"

end
