(* ===== verification/SocketSpec.thy ===== *)
theory SocketSpec
  imports SocketPerform
begin

text \<open>
  What the retrying socket operations return, as relations to what the kernel answers: the non-blocking
  operations of the reactor, and the blocking operations in both user modes.
\<close>

section \<open>Answers of the kernel\<close>

text \<open>All attempts have this form.\<close>

definition attempt_of :: "('w \<Rightarrow> 'w sys_result) \<Rightarrow> 'w attempt" where
  "attempt_of f ec w = (let (r, errno, w) = f w in (r, get_last_error (r < 0) errno ec, w))"

lemma attempts:
  "recv K s bufs flags = attempt_of (sys_recvmsg K s bufs flags)"
  "recv1 K s buf flags = attempt_of (sys_recv K s buf flags)"
  "send K s bufs flags = attempt_of (sys_sendmsg K s bufs (flags OR MSG_NOSIGNAL))"
  "send1 K s buf flags = attempt_of (sys_send K s buf (flags OR MSG_NOSIGNAL))"
  by (simp_all add: recv_def recv1_def send_def send1_def attempt_of_def fun_eq_iff)

definition signalled :: "int \<Rightarrow> int \<Rightarrow> bool" where
  "signalled r errno \<longleftrightarrow> r < 0 \<and> errno = basic_value interrupted"

definition blocked :: "int \<Rightarrow> int \<Rightarrow> bool" where
  "blocked r errno \<longleftrightarrow> r < 0 \<and> errno = basic_value would_block"

text \<open>The first answer of a call that is not a signal, and the kernel after it.\<close>

inductive answered :: "('w \<Rightarrow> 'w sys_result) \<Rightarrow> 'w \<Rightarrow> int \<Rightarrow> int \<Rightarrow> 'w \<Rightarrow> bool" for f where
  first: "f w = (r, errno, w') \<Longrightarrow> \<not> signalled r errno \<Longrightarrow> answered f w r errno w'"
| again: "f w = (r, errno, w') \<Longrightarrow> signalled r errno \<Longrightarrow> answered f w' r2 errno2 w2 \<Longrightarrow> answered f w r2 errno2 w2"

inductive_cases answeredE: "answered f w r errno w'"

lemma answered_det: "answered f w r errno w' \<Longrightarrow> answered f w r2 errno2 w2 \<Longrightarrow> r2 = r \<and> errno2 = errno \<and> w2 = w'"
proof (induction rule: answered.induct)
  case (first w r errno w')
  from first(3) show ?case by (cases rule: answeredE) (use first(1, 2) in auto)
next
  case (again w r errno w' r2' errno2' w2')
  from again(5) show ?case by (cases rule: answeredE) (use again(1, 2, 4) in auto)
qed

lemma last_error_simps [simp]:
  "get_last_error True errno ec = EC errno SystemCat"
  "get_last_error False errno ec = clear_ec ec"
  by (simp_all add: get_last_error_def)

lemma interrupted_iff [simp]: "EC errno SystemCat = basic_ec interrupted \<longleftrightarrow> errno = 4"
  by (simp add: basic_ec_def)

lemma must_wait_iff [simp]: "must_wait (EC errno SystemCat) \<longleftrightarrow> errno = 11"
  by (simp add: basic_ec_def must_wait_def)

section \<open>Non-blocking transfers\<close>

definition transfer_result :: "bool \<Rightarrow> nat \<Rightarrow> int \<Rightarrow> int \<Rightarrow> bool \<times> error_code \<times> nat" where
  "transfer_result check_eof n r errno =
     (if check_eof \<and> r = 0 then (True, misc_ec eof, n)
      else if r \<ge> 0 then (True, ec_success, nat r)
      else if blocked r errno then (False, basic_ec would_block, n)
      else (True, EC errno SystemCat, 0))"

lemma cleared: "ec_category ec = SystemCat \<Longrightarrow> clear_ec ec = ec_success"
  by (simp add: clear_ec_def ec_success_def)

lemma transfer_of_answer:
  assumes "answered f w r errno w'" and "ec_category ec = SystemCat"
  shows "non_blocking_transfer (attempt_of f) check_eof ec n w =
    Some (case transfer_result check_eof n r errno of (fin, ec, m) \<Rightarrow> (fin, ec, m, w'))"
  using assms
proof (induction arbitrary: ec rule: answered.induct)
  case (first w r errno w')
  then show ?case
    by (subst non_blocking_transfer.simps)
       (auto simp: attempt_of_def transfer_result_def cleared blocked_def signalled_def basic_ec_def)
next
  case (again w r errno w' r2 errno2 w2)
  have "ec_category (EC errno SystemCat) = SystemCat" by simp
  note ih = again(4) [OF this]
  have "attempt_of f ec w = (r, EC errno SystemCat, w')" "r < 0" "errno = 4"
    using again(1, 2) by (simp_all add: signalled_def attempt_of_def)
  then show ?case by (subst non_blocking_transfer.simps) (simp add: ih [unfolded \<open>errno = 4\<close>])
qed

lemma answer_of_transfer:
  assumes "non_blocking_transfer (attempt_of f) check_eof ec n w = Some res"
  shows "\<exists>r errno w'. answered f w r errno w'"
proof -
  let ?P = "\<lambda>attempt ce ec n w res. attempt = attempt_of f \<longrightarrow> (\<exists>r errno w'. answered f w r errno w')"
  have "?P (attempt_of f) check_eof ec n w res"
  proof (rule non_blocking_transfer.raw_induct [OF _ assms, of ?P], intro impI)
    fix g :: "'a attempt \<Rightarrow> bool \<Rightarrow> error_code \<Rightarrow> nat \<Rightarrow> 'a \<Rightarrow> (bool \<times> error_code \<times> nat \<times> 'a) option"
      and attempt ce ec n w res
    assume ih: "\<And>attempt ce ec n w res. g attempt ce ec n w = Some res \<Longrightarrow> ?P attempt ce ec n w res"
      and body: "(let (bytes, ec, w) = attempt ec w
         in if ce \<and> bytes = 0 then Some (True, misc_ec eof, n, w)
            else if bytes \<ge> 0 then Some (True, ec, nat bytes, w)
            else if ec = basic_ec interrupted then g attempt ce ec n w
            else if must_wait ec then Some (False, ec, n, w)
            else Some (True, ec, 0, w)) = Some res"
      and attempt: "attempt = attempt_of f"
    obtain r errno w' where f: "f w = (r, errno, w')" by (rule prod_cases3)
    show "\<exists>r errno w'. answered f w r errno w'"
    proof (cases "signalled r errno")
      case True
      then have "r < 0" "errno = 4" by (simp_all add: signalled_def)
      with body have "g attempt ce (EC 4 SystemCat) n w' = Some res"
        by (simp add: attempt attempt_of_def f)
      from ih [OF this] obtain r2 errno2 w2 where "answered f w' r2 errno2 w2" using attempt by blast
      then show ?thesis using again [of f, OF f True] by blast
    qed (use first [of f, OF f] in blast)
  qed
  then show ?thesis by blast
qed

lemma transfer_iff:
  assumes "ec_category ec = SystemCat"
  shows "non_blocking_transfer (attempt_of f) check_eof ec n w = Some (fin, ec', m, w') \<longleftrightarrow>
    (\<exists>r errno. answered f w r errno w' \<and> transfer_result check_eof n r errno = (fin, ec', m))"
proof
  assume l: "non_blocking_transfer (attempt_of f) check_eof ec n w = Some (fin, ec', m, w')"
  from answer_of_transfer [OF this] obtain r errno v where a: "answered f w r errno v" by blast
  from transfer_of_answer [OF this assms] l a
  show "\<exists>r errno. answered f w r errno w' \<and> transfer_result check_eof n r errno = (fin, ec', m)"
    by (auto split: prod.splits)
next
  assume "\<exists>r errno. answered f w r errno w' \<and> transfer_result check_eof n r errno = (fin, ec', m)"
  then show "non_blocking_transfer (attempt_of f) check_eof ec n w = Some (fin, ec', m, w')"
    using transfer_of_answer [OF _ assms] by fastforce
qed


section \<open>What performing a receive or a send comes to\<close>

text \<open>The system call that an operation makes.\<close>

definition recv_call :: "'w sys_env \<Rightarrow> bool \<Rightarrow> int \<Rightarrow> mutable_buffer list \<Rightarrow> 32 word \<Rightarrow> 'w \<Rightarrow> 'w sys_result" where
  "recv_call K single s bufs flags =
     (if single then sys_recv K s (hd bufs) flags else sys_recvmsg K s (adapter_buffers bufs) flags)"

definition send_call :: "'w sys_env \<Rightarrow> bool \<Rightarrow> int \<Rightarrow> mutable_buffer list \<Rightarrow> 32 word \<Rightarrow> 'w \<Rightarrow> 'w sys_result" where
  "send_call K single s bufs flags =
     (if single then sys_send K s (hd bufs) (flags OR MSG_NOSIGNAL)
      else sys_sendmsg K s (adapter_buffers bufs) (flags OR MSG_NOSIGNAL))"

text \<open>Calls with an address or with flags of the message, on the state that their loops thread.\<close>

fun recvfrom_call ::
  "'w sys_env \<Rightarrow> bool \<Rightarrow> int \<Rightarrow> mutable_buffer list \<Rightarrow> 32 word \<Rightarrow> 'w \<times> endpoint \<times> nat \<Rightarrow> ('w \<times> endpoint \<times> nat) sys_result" where
  "recvfrom_call K single s bufs flags (w, addr, len) =
     (let (r, errno, addr, len, w) =
            (if single then sys_recvfrom K s (hd bufs) flags addr (Some (to_socklen len)) w
             else sys_recvmsg_from K s (adapter_buffers bufs) flags addr (to_socklen len) w)
      in (r, errno, (w, addr, len)))"

definition sendto_call ::
  "'w sys_env \<Rightarrow> bool \<Rightarrow> int \<Rightarrow> mutable_buffer list \<Rightarrow> 32 word \<Rightarrow> endpoint \<Rightarrow> 'w \<Rightarrow> 'w sys_result" where
  "sendto_call K single s bufs flags addr =
     (if single then sys_sendto K s (hd bufs) (flags OR MSG_NOSIGNAL) addr (endpoint_size addr)
      else sys_sendmsg_to K s (adapter_buffers bufs) (flags OR MSG_NOSIGNAL) addr (endpoint_size addr))"

fun recvmsg_call ::
  "'w sys_env \<Rightarrow> int \<Rightarrow> mutable_buffer list \<Rightarrow> 32 word \<Rightarrow> 'w \<times> 32 word \<Rightarrow> ('w \<times> 32 word) sys_result" where
  "recvmsg_call K s bufs in_flags (w, fl) =
     (let (r, errno, msg_flags, w) = sys_recvmsg_flags K s (adapter_buffers bufs) in_flags w
      in (r, errno, (w, if r \<ge> 0 then msg_flags else 0)))"

lemma to_socklen_size [simp]: "to_socklen (endpoint_size addr) = endpoint_size addr"
  by (cases addr) (simp_all add: to_socklen_def)

lemma datagram_attempts:
  "(if single then recvfrom1 K s (hd bufs) flags else recvfrom K s (adapter_buffers bufs) flags) =
     attempt_of (recvfrom_call K single s bufs flags)"
  "(if single then sendto1 K s (hd bufs) flags addr (endpoint_size addr)
    else sendto K s (adapter_buffers bufs) flags addr (endpoint_size addr)) = attempt_of (sendto_call K single s bufs flags addr)"
  "recvmsg K s (adapter_buffers bufs) flags = attempt_of (recvmsg_call K s bufs flags)"
  by (auto simp: fun_eq_iff attempt_of_def call_recvfrom_def sendto1_def sendto_def call_sendto_def sendto_call_def
      Let_def split: prod.splits if_splits)

definition wanted :: "bool \<Rightarrow> mutable_buffer list \<Rightarrow> nat" where
  "wanted single bufs = (if single then buf_size (hd bufs) else adapter_total_size bufs)"

text \<open>The outcome of an operation by the kernel's answer: \<open>exhausted\<close> is the status of a completed operation
  after which the reactor does not try the next one at once.\<close>

definition recv_result :: "bool \<Rightarrow> int \<Rightarrow> int \<Rightarrow> status \<times> error_code \<times> nat" where
  "recv_result is_stream r errno =
     (if r > 0 then (Done, ec_success, nat r)
      else if r = 0 then (if is_stream then (DoneAndExhausted, misc_ec eof, 0) else (Done, ec_success, 0))
      else if errno = basic_value would_block then (NotDone, basic_ec would_block, 0)
      else (if is_stream then DoneAndExhausted else Done, EC errno SystemCat, 0))"

definition send_result :: "bool \<Rightarrow> nat \<Rightarrow> int \<Rightarrow> int \<Rightarrow> status \<times> error_code \<times> nat" where
  "send_result is_stream n r errno =
     (if r \<ge> 0 then (if is_stream \<and> nat r < n then DoneAndExhausted else Done, ec_success, nat r)
      else if errno = basic_value would_block then (NotDone, basic_ec would_block, 0)
      else (if is_stream \<and> 0 < n then DoneAndExhausted else Done, EC errno SystemCat, 0))"

lemma recv_perform_transfer:
  "recv_perform K single s state bufs flags ec n w =
     map_option (\<lambda>(fin, ec, n, w).
         (if fin \<and> has state stream_oriented \<and> n = 0 then DoneAndExhausted else done_if fin, ec, n, w))
       (non_blocking_transfer (attempt_of (recv_call K single s bufs flags)) (has state stream_oriented) ec n w)"
  by (auto simp: recv_perform_def recv_call_def non_blocking_recv1_def non_blocking_recv_def attempts Let_def
      split: option.splits)

lemma send_perform_transfer:
  "send_perform K single s state bufs flags ec n w =
     map_option (\<lambda>(fin, ec, n, w).
         (if fin \<and> has state stream_oriented \<and> n < wanted single bufs then DoneAndExhausted else done_if fin, ec, n, w))
       (non_blocking_transfer (attempt_of (send_call K single s bufs flags)) False ec n w)"
  by (auto simp: send_perform_def send_call_def wanted_def non_blocking_send1_def non_blocking_send_def attempts Let_def
      split: option.splits)

lemma answered_not_signalled: "answered f w r errno w' \<Longrightarrow> \<not> signalled r errno"
  by (induction rule: answered.induct)

lemma recv_status:
  "(case transfer_result is_stream 0 r errno of
      (fin, ec, n) \<Rightarrow> (if fin \<and> is_stream \<and> n = 0 then DoneAndExhausted else done_if fin, ec, n)) = recv_result is_stream r errno"
  by (auto simp: transfer_result_def recv_result_def done_if_def blocked_def basic_ec_def)

lemma send_status:
  "(case transfer_result False 0 r errno of
      (fin, ec, n) \<Rightarrow> (if fin \<and> is_stream \<and> n < m then DoneAndExhausted else done_if fin, ec, n)) = send_result is_stream m r errno"
  by (auto simp: transfer_result_def send_result_def done_if_def blocked_def basic_ec_def)

lemma success_category [simp]: "ec_category ec_success = SystemCat"
  by (simp add: ec_success_def)

lemma recv_perform_answered:
  assumes "answered (recv_call K single s bufs flags) w r errno w'"
  shows "recv_perform K single s state bufs flags ec_success 0 w =
    Some (case recv_result (has state stream_oriented) r errno of (st, ec, n) \<Rightarrow> (st, ec, n, w'))"
  unfolding recv_perform_transfer recv_status [symmetric]
  using transfer_of_answer [OF assms success_category] by (simp split: prod.splits)

lemma send_perform_answered:
  assumes "answered (send_call K single s bufs flags) w r errno w'"
  shows "send_perform K single s state bufs flags ec_success 0 w =
    Some (case send_result (has state stream_oriented) (wanted single bufs) r errno of (st, ec, n) \<Rightarrow> (st, ec, n, w'))"
  unfolding send_perform_transfer send_status [symmetric]
  using transfer_of_answer [OF assms success_category] by (simp split: prod.splits)

lemma sendto_perform_transfer:
  "sendto_perform K single s bufs flags addr ec n w =
     map_option (\<lambda>(fin, ec, n, w). (done_if fin, ec, n, w))
       (non_blocking_transfer (attempt_of (sendto_call K single s bufs flags addr)) False ec n w)"
  unfolding datagram_attempts(2) [symmetric]
  by (auto simp: sendto_perform_def non_blocking_sendto1_def non_blocking_sendto_def split: option.splits)

lemma recvmsg_perform_transfer:
  "recvmsg_perform K s bufs flags ec n w fl =
     map_option (\<lambda>(fin, ec, n, w). (done_if fin, ec, n, w))
       (non_blocking_transfer (attempt_of (recvmsg_call K s bufs flags)) False ec n (w, fl))"
  unfolding datagram_attempts(3) [symmetric]
  by (auto simp: recvmsg_perform_def non_blocking_recvmsg_def split: option.splits)

lemma recvfrom_perform_transfer:
  "recvfrom_perform K single s bufs flags ec n w addr =
     map_option (\<lambda>(fin, ec, n, w, addr, len).
         (case (if fin \<and> \<not> failed ec then endpoint_resize len else None) of
            Some err \<Rightarrow> Inl err | None \<Rightarrow> Inr (done_if fin, ec, n), w, addr))
       (non_blocking_transfer (attempt_of (recvfrom_call K single s bufs flags)) False ec n (w, addr, endpoint_capacity))"
  unfolding datagram_attempts(1) [symmetric]
  by (auto simp: recvfrom_perform_def non_blocking_recvfrom1_def non_blocking_recvfrom_def split: option.splits)

lemma transfer_map_iff:
  "map_option (\<lambda>(fin, ec, n, w). h fin ec n w) (non_blocking_transfer (attempt_of f) check_eof ec_success 0 w) = Some y \<longleftrightarrow>
     (\<exists>r errno w'. answered f w r errno w' \<and> (case transfer_result check_eof 0 r errno of (fin, ec, n) \<Rightarrow> h fin ec n w') = y)"
    (is "?L \<longleftrightarrow> ?R")
proof
  assume ?L
  then obtain fin ec n w' where "non_blocking_transfer (attempt_of f) check_eof ec_success 0 w = Some (fin, ec, n, w')" "h fin ec n w' = y"
    by (auto split: prod.splits)
  then show ?R unfolding transfer_iff [OF success_category] by fastforce
next
  assume ?R
  then show ?L using transfer_of_answer [OF _ success_category, of f w _ _ _ check_eof 0] by (fastforce split: prod.splits)
qed

lemma message_status: "(case transfer_result False 0 r errno of (fin, ec, n) \<Rightarrow> (done_if fin, ec, n)) = recv_result False r errno"
  using recv_status [of False r errno] by simp

lemma sent_status: "recv_result False r errno = send_result False m r errno"
  by (auto simp: recv_result_def send_result_def)

lemma waiting_fails: "transfer_result False 0 r errno = (False, ec, n) \<Longrightarrow> failed ec"
  by (auto simp: transfer_result_def basic_ec_def failed_def split: if_splits)

lemma named_status:
  "(case transfer_result False 0 r errno of (fin, ec, n) \<Rightarrow>
      (case (if fin \<and> \<not> failed ec then endpoint_resize len else None) of Some err \<Rightarrow> Inl err | None \<Rightarrow> Inr (done_if fin, ec, n), w, addr))
     = (Inr (st, ec, n), w', addr') \<longleftrightarrow>
   recv_result False r errno = (st, ec, n) \<and> (failed ec \<or> len \<le> 128) \<and> w = w' \<and> addr = addr'"
proof -
  obtain fin ec' n' where t: "transfer_result False 0 r errno = (fin, ec', n')" by (rule prod_cases3)
  then have "recv_result False r errno = (done_if fin, ec', n')" "\<not> fin \<longrightarrow> failed ec'"
    using message_status [of r errno] waiting_fails [of r errno ec' n'] by auto
  then show ?thesis unfolding t by (auto simp: endpoint_resize_def sockaddr_storage_size_def)
qed

text \<open>C20: Performing a receive or a send is one answer of the kernel, taken once no signal interrupts the call, and
  it returns exactly if there is one. A receive is done with the bytes of a positive answer; on a stream no
  bytes are its end (\<open>eof\<close>), on other sockets an empty datagram; \<open>EWOULDBLOCK\<close> keeps the operation waiting, and
  any other error completes it without bytes. After an end, an error or a short send on a stream the reactor
  does not try again at once. The same holds of datagrams: a receive that names the sender leaves the
  address of that answer in the caller's endpoint, unless the kernel says that the address is longer than any can be, and one
  with flags those of the message.\<close>

theorem performing_is_one_answer:
  "(recv_perform K single s state bufs flags ec_success 0 w = Some (st, ec, n, w') \<longleftrightarrow>
     (\<exists>r errno. answered (recv_call K single s bufs flags) w r errno w'
        \<and> recv_result (has state stream_oriented) r errno = (st, ec, n)))
   \<and> (send_perform K single s state bufs flags ec_success 0 w = Some (st, ec, n, w') \<longleftrightarrow>
     (\<exists>r errno. answered (send_call K single s bufs flags) w r errno w'
        \<and> send_result (has state stream_oriented) (wanted single bufs) r errno = (st, ec, n)))
   \<and> (recvfrom_perform K single s bufs flags ec_success 0 w addr = Some (Inr (st, ec, n), w', addr') \<longleftrightarrow>
     (\<exists>r errno len. answered (recvfrom_call K single s bufs flags) (w, addr, 28) r errno (w', addr', len)
        \<and> recv_result False r errno = (st, ec, n) \<and> (failed ec \<or> len \<le> 128)))
   \<and> (recvmsg_perform K s bufs flags ec_success 0 w fl = Some (st, ec, n, w', fl') \<longleftrightarrow>
     (\<exists>r errno. answered (recvmsg_call K s bufs flags) (w, fl) r errno (w', fl') \<and> recv_result False r errno = (st, ec, n)))
   \<and> (sendto_perform K single s bufs flags addr ec_success 0 w = Some (st, ec, n, w') \<longleftrightarrow>
     (\<exists>r errno. answered (sendto_call K single s bufs flags addr) w r errno w' \<and> recv_result False r errno = (st, ec, n)))"
proof (intro conjI)
  show "recv_perform K single s state bufs flags ec_success 0 w = Some (st, ec, n, w') \<longleftrightarrow>
     (\<exists>r errno. answered (recv_call K single s bufs flags) w r errno w' \<and> recv_result (has state stream_oriented) r errno = (st, ec, n))"
    unfolding recv_perform_transfer transfer_map_iff recv_status [symmetric] by (fastforce split: prod.splits)
  show "send_perform K single s state bufs flags ec_success 0 w = Some (st, ec, n, w') \<longleftrightarrow>
     (\<exists>r errno. answered (send_call K single s bufs flags) w r errno w'
        \<and> send_result (has state stream_oriented) (wanted single bufs) r errno = (st, ec, n))"
    unfolding send_perform_transfer transfer_map_iff send_status [symmetric] by (fastforce split: prod.splits)
  show "recvfrom_perform K single s bufs flags ec_success 0 w addr = Some (Inr (st, ec, n), w', addr') \<longleftrightarrow>
     (\<exists>r errno len. answered (recvfrom_call K single s bufs flags) (w, addr, 28) r errno (w', addr', len)
        \<and> recv_result False r errno = (st, ec, n) \<and> (failed ec \<or> len \<le> 128))"
    unfolding recvfrom_perform_transfer transfer_map_iff split_paired_Ex prod.case named_status endpoint_capacity_def by blast
  show "recvmsg_perform K s bufs flags ec_success 0 w fl = Some (st, ec, n, w', fl') \<longleftrightarrow>
     (\<exists>r errno. answered (recvmsg_call K s bufs flags) (w, fl) r errno (w', fl') \<and> recv_result False r errno = (st, ec, n))"
    unfolding recvmsg_perform_transfer transfer_map_iff message_status [symmetric] by (fastforce split: prod.splits)
  show "sendto_perform K single s bufs flags addr ec_success 0 w = Some (st, ec, n, w') \<longleftrightarrow>
     (\<exists>r errno. answered (sendto_call K single s bufs flags addr) w r errno w' \<and> recv_result False r errno = (st, ec, n))"
    unfolding sendto_perform_transfer transfer_map_iff message_status [symmetric] by (fastforce split: prod.splits)
qed

section \<open>Blocking transfers\<close>

text \<open>How a blocking call waits: it polls after every answer \<open>EWOULDBLOCK\<close>, and tries again if the poll
  succeeded.\<close>

inductive waited :: "('w \<Rightarrow> 'w sys_result) \<Rightarrow> ('w \<Rightarrow> 'w sys_result) \<Rightarrow> 'w \<Rightarrow> 'w \<Rightarrow> bool" for f p where
  now: "waited f p w w"
| poll_again: "f w = (r, errno, w1) \<Longrightarrow> blocked r errno \<Longrightarrow> p w1 = (ready, errno2, w2) \<Longrightarrow> ready \<ge> 0
    \<Longrightarrow> waited f p w2 w' \<Longrightarrow> waited f p w w'"

text \<open>The result of a blocking call in the state \<open>w\<close>: an answer other than \<open>EWOULDBLOCK\<close>, or a failed poll.\<close>

inductive transferred :: "bool \<Rightarrow> ('w \<Rightarrow> 'w sys_result) \<Rightarrow> ('w \<Rightarrow> 'w sys_result) \<Rightarrow> 'w \<Rightarrow> nat \<Rightarrow> error_code \<Rightarrow> 'w \<Rightarrow> bool"
  for check_eof f p where
  answer: "f w = (r, errno, w') \<Longrightarrow> \<not> blocked r errno \<Longrightarrow>
     transferred check_eof f p w (if r \<ge> 0 then nat r else 0)
       (if r < 0 then EC errno SystemCat else if check_eof \<and> r = 0 then misc_ec eof else ec_success) w'"
| poll_failed: "f w = (r, errno, w1) \<Longrightarrow> blocked r errno \<Longrightarrow> p w1 = (ready, errno2, w2) \<Longrightarrow> ready < 0 \<Longrightarrow>
     transferred check_eof f p w 0 (EC errno2 SystemCat) w2"

lemma sync_transfer_waited:
  assumes "waited f p w v" and "transferred check_eof f p v n ec' w'" and "ec_category ec = SystemCat"
    and user: "\<not> has state user_set_non_blocking"
  shows "sync_transfer (attempt_of f) (attempt_of p) check_eof state ec w = Some (n, ec', w')"
  using assms(1-3)
proof (induction arbitrary: ec rule: waited.induct)
  case (now w)
  from now(1) show ?case
  proof cases
    case (answer r errno)
    then have "attempt_of f ec w = (r, get_last_error (r < 0) errno ec, w')" by (simp add: attempt_of_def)
    with answer now(2) show ?thesis
      by (subst sync_transfer.simps) (auto simp: cleared blocked_def)
  next
    case (poll_failed r errno w1 ready errno2)
    then have "attempt_of f ec w = (r, EC errno SystemCat, w1)" "r < 0" "errno = 11"
        "\<And>ec. attempt_of p ec w1 = (ready, EC errno2 SystemCat, w')"
      by (simp_all add: attempt_of_def blocked_def)
    with poll_failed user show ?thesis by (subst sync_transfer.simps) simp
  qed
next
  case (poll_again w r errno w1 ready errno2 w2 v)
  then have a: "attempt_of f ec w = (r, EC errno SystemCat, w1)" "r < 0" "errno = 11"
      "attempt_of p (EC errno SystemCat) w1 = (ready, clear_ec (EC errno SystemCat), w2)"
    by (simp_all add: attempt_of_def blocked_def)
  have "ec_category (clear_ec (EC errno SystemCat)) = SystemCat" by (simp add: clear_ec_def)
  note ih = poll_again(6) [OF poll_again(7) this, unfolded \<open>errno = 11\<close>]
  show ?case using a poll_again(4) user by (subst sync_transfer.simps) (simp add: ih)
qed

end
