(* ===== verification/EpollRun.thy ===== *)
theory EpollRun
  imports EpollReactor
begin

text \<open>
  The reactor at run time: timers and the timeout, \<open>run\<close> (the scheduler's task), \<open>perform_io\<close> and the
  completion of a descriptor operation, shutdown; and the reactor as the environment of the scheduler, with
  handlers that make any sequence of calls to it.
\<close>

section \<open>Timeout and interruption\<close>

definition interrupt :: "('o, 'w) os_env \<Rightarrow> ('o, 'w) reactor \<Rightarrow> ('o, 'w) reactor" where
  "interrupt E r =
     (snd (epoll_ctl E CtlMod (os_interrupter E) (EPOLLIN OR EPOLLERR OR EPOLLET) Interrupter r))\<lparr>interrupts_sent := interrupts_sent r + 1\<rparr>"

definition get_timeout_msec :: "('o, 'w) os_env \<Rightarrow> int \<Rightarrow> ('o, 'w) reactor \<Rightarrow> int" where
  "get_timeout_msec E msec r =
     (let max_msec = 5 * 60 * 1000
      in wait_duration_msec (os_now E (os r)) (if msec < 0 \<or> max_msec < msec then max_msec else msec) (timer_q r))"

definition TFD_TIMER_ABSTIME :: int where "TFD_TIMER_ABSTIME = 1"

text \<open>The flags for \<open>timerfd_settime\<close> and the seconds and nanoseconds of the new timeout.\<close>

definition get_timeout_timerfd :: "('o, 'w) os_env \<Rightarrow> ('o, 'w) reactor \<Rightarrow> int \<times> int \<times> int" where
  "get_timeout_timerfd E r =
     (let usec = wait_duration_usec (os_now E (os r)) (5 * 60 * 1000 * 1000) (timer_q r)
      in (if usec \<noteq> 0 then 0 else TFD_TIMER_ABSTIME,
          usec sdiv 1000000,
          if usec \<noteq> 0 then (usec smod 1000000) * 1000 else 1))"

definition update_timeout :: "('o, 'w) os_env \<Rightarrow> ('o, 'w) reactor \<Rightarrow> ('o, 'w) reactor" where
  "update_timeout E r =
     (if timer_fd r \<noteq> - 1 then r\<lparr>timerfd_setting := get_timeout_timerfd E r\<rparr> else interrupt E r)"

section \<open>Timers\<close>

text \<open>Finite clocks have no infinite time.\<close>

definition schedule_timer ::
  "('o, 'w) os_env \<Rightarrow> int \<Rightarrow> nat \<Rightarrow> 'o \<Rightarrow> ('o, 'w) rsched \<Rightarrow> ('o, 'w) rsched" where
  "schedule_timer E time timer opn s =
     (if reactor_shutdown (world s) then post_immediate_completion (Operation opn) False s
      else let (earliest, q) = enqueue_timer (\<lambda>_. False) time timer opn (timer_q (world s));
               s = with_reactor (\<lambda>r. r\<lparr>timer_q := q, timer_waits := timer_waits r + 1\<rparr>) s;
               s = work_started s
           in if earliest then with_reactor (update_timeout E) s else s)"

text \<open>Operations handed out by the timer queue.\<close>

definition taken :: "'o list \<Rightarrow> (int, nat, 'o) timer_queue \<Rightarrow> ('o, 'w) reactor \<Rightarrow> ('o, 'w) reactor" where
  "taken ops q r = r\<lparr>timer_q := q, timer_waits := timer_waits r - int (length ops)\<rparr>"

definition reactor_cancel_timer :: "nat \<Rightarrow> nat \<Rightarrow> ('o, 'w) rsched \<Rightarrow> nat \<times> ('o, 'w) rsched" where
  "reactor_cancel_timer timer max_cancelled s =
     (let (n, ops, q) = cancel_timer timer [] max_cancelled (timer_q (world s))
      in (n, post_deferred_completions (map Operation ops) (with_reactor (taken ops q) s)))"

definition reactor_cancel_timer_by_key :: "nat \<Rightarrow> nat \<Rightarrow> ('o, 'w) rsched \<Rightarrow> ('o, 'w) rsched" where
  "reactor_cancel_timer_by_key timer key s =
     (let (ops, q) = cancel_timer_by_key (rop_key (world s)) timer [] key (timer_q (world s))
      in post_deferred_completions (map Operation ops) (with_reactor (taken ops q) s))"

text \<open>\<open>cancel_timer\<close> is called without a limit: the greatest \<open>size_t\<close>.\<close>

definition reactor_move_timer :: "nat \<Rightarrow> nat \<Rightarrow> ('o, 'w) rsched \<Rightarrow> ('o, 'w) rsched" where
  "reactor_move_timer target source s =
     (let (n, ops, q) = cancel_timer target [] (2 ^ 64 - 1) (timer_q (world s));
          s = with_reactor (taken ops (TimerQueue.move_timer target source q)) s
      in post_deferred_completions (map Operation ops) s)"

section \<open>The task\<close>

text \<open>The time-out is computed in \<open>long\<close> and stored in an \<open>int\<close>, which keeps its low 32 bits.\<close>

definition int_of_long :: "int \<Rightarrow> int" where
  "int_of_long n = sint (word_of_int n :: 32 word)"

definition run_timeout :: "('o, 'w) os_env \<Rightarrow> int \<Rightarrow> ('o, 'w) reactor \<Rightarrow> int" where
  "run_timeout E usec r =
     (if usec = 0 then 0
      else let timeout = int_of_long (if usec < 0 then - 1 else (usec - 1) div 1000 + 1)
           in if timer_fd r = - 1 then get_timeout_msec E timeout r else timeout)"

definition set_ready_events :: "nat \<Rightarrow> 32 word \<Rightarrow> ('o, 'w) rsched \<Rightarrow> ('o, 'w) rsched" where
  "set_ready_events d ev s = s\<lparr>task_result := (task_result s)(Descriptor d := unat ev)\<rparr>"

definition add_ready_events :: "nat \<Rightarrow> 32 word \<Rightarrow> ('o, 'w) rsched \<Rightarrow> ('o, 'w) rsched" where
  "add_ready_events d ev s =
     s\<lparr>task_result := (task_result s)(Descriptor d := unat (word_of_nat (task_result s (Descriptor d)) OR ev))\<rparr>"

text \<open>\<open>ops\<close> is the private queue of the calling thread. A descriptor is enqueued (\<open>next_\<close> set, or last) only in
  that queue: the scheduler keeps the task behind the descriptor operations of its last run.\<close>

fun dispatch_event :: "epoll_ptr \<times> 32 word \<Rightarrow> bool \<times> ('o, 'w) rsched \<Rightarrow> bool \<times> ('o, 'w) rsched" where
  "dispatch_event (Interrupter, ev) (check_timers, s) =
     (if timer_fd (world s) = - 1 then True else check_timers, s)"
| "dispatch_event (TimerFd, ev) (check_timers, s) = (True, s)"
| "dispatch_event (DescriptorPtr d, ev) (check_timers, s) =
     (check_timers,
      if Op (Descriptor d) \<notin> set (private_op_queue (top_info s))
      then with_reactor (\<lambda>r. r\<lparr>queued_descriptors := queued_descriptors r + 1\<rparr>)
             (push_private 0 [Op (Descriptor d)] (set_ready_events d ev s))
      else add_ready_events d ev s)"

text \<open>The loop of \<open>get_ready_timers\<close> ends on every queue that keeps its invariant (theory TimerSpec).\<close>

definition check_timer_queue :: "('o, 'w) os_env \<Rightarrow> ('o, 'w) rsched \<Rightarrow> ('o, 'w) rsched" where
  "check_timer_queue E s =
     (case get_ready_timers (os_now E (os (world s))) [] (timer_q (world s)) of
        None \<Rightarrow> s
      | Some (ops, q) \<Rightarrow>
          let s = push_private 0 (map (\<lambda>opn. Op (Operation opn)) ops) (with_reactor (taken ops q) s)
          in if timer_fd (world s) \<noteq> - 1
             then with_reactor (\<lambda>r. r\<lparr>timerfd_setting := get_timeout_timerfd E r\<rparr>) s else s)"

definition reactor_run :: "('o, 'w) os_env \<Rightarrow> int \<Rightarrow> ('o, 'w) rsched \<Rightarrow> ('o, 'w) rsched" where
  "reactor_run E usec s =
     (let (events, w) = os_epoll_wait E (run_timeout E usec (world s)) (os (world s));
          s = with_reactor (\<lambda>r. r\<lparr>os := w\<rparr>) s;
          (check_timers, s) = fold dispatch_event (take 128 events) (timer_fd (world s) = - 1, s)
      in if check_timers then check_timer_queue E s else s)"

section \<open>Performing the operations of a descriptor\<close>

text \<open>The loop over one queue: the completed operations, the rest, whether the last one exhausted the
  descriptor.\<close>

fun perform_queue :: "('o, 'w) os_env \<Rightarrow> 'o list \<Rightarrow> ('o, 'w) reactor \<Rightarrow> 'o list \<times> 'o list \<times> bool \<times> ('o, 'w) reactor" where
  "perform_queue E [] r = ([], [], False, r)"
| "perform_queue E (opn # q) r =
     (let (st, r1) = perform E opn r
      in if st = NotDone then ([], opn # q, False, r1)
         else if st = DoneAndExhausted then ([opn], q, True, r1)
         else let (completed, rest, exhausted, r2) = perform_queue E q r1
              in (opn # completed, rest, exhausted, r2))"

definition perform_type ::
  "('o, 'w) os_env \<Rightarrow> nat \<Rightarrow> 32 word \<Rightarrow> op_type \<Rightarrow> 'o list \<times> ('o, 'w) reactor \<Rightarrow> 'o list \<times> ('o, 'w) reactor" where
  "perform_type E d events j acc =
     (let (ops, r) = acc
      in if events AND (op_flag j OR EPOLLERR OR EPOLLHUP) \<noteq> 0 then
           let r = upd_state d (set_speculative j True) r;
               (completed, rest, exhausted, r) = perform_queue E (op_queue_of (state_at d r) j) r;
               r = upd_state d (set_queue j rest) r;
               r = (if exhausted then upd_state d (set_speculative j False) r else r)
           in (ops @ completed, r)
         else (ops, r))"

definition perform_types :: "('o, 'w) os_env \<Rightarrow> nat \<Rightarrow> 32 word \<Rightarrow> ('o, 'w) reactor \<Rightarrow> 'o list \<times> ('o, 'w) reactor" where
  "perform_types E d events r = fold (perform_type E d events) (rev op_types) ([], r)"

text \<open>\<open>perform_io_cleanup_on_block_exit\<close>: \<open>first_op\<close> has been taken off \<open>ops\<close>.\<close>

definition perform_io_cleanup :: "'o option \<Rightarrow> 'o list \<Rightarrow> ('o, 'w) rsched \<Rightarrow> ('o, 'w) rsched" where
  "perform_io_cleanup first_op ops s =
     (if first_op \<noteq> None
      then (if ops \<noteq> [] then post_deferred_completions (map Operation ops) s else s)
      else compensating_work_started s)"

definition perform_io ::
  "('o, 'w) os_env \<Rightarrow> nat \<Rightarrow> 32 word \<Rightarrow> ('o, 'w) rsched \<Rightarrow> 'o option \<times> ('o, 'w) rsched" where
  "perform_io E d events s =
     (let (ops, r) = perform_types E d events (world s);
          s = s\<lparr>world := r\<rparr>;
          first_op = (case ops of [] \<Rightarrow> None | opn # _ \<Rightarrow> Some opn)
      in (first_op, perform_io_cleanup first_op (tl ops) s))"

text \<open>\<open>complete\<close> of the two kinds of operation; \<open>handler\<close> runs the user's handler. The descriptor operation
  has left the scheduler's queue.\<close>

definition reactor_complete ::
  "('o, 'w) os_env \<Rightarrow> ('o \<Rightarrow> ('o, 'w) rsched \<Rightarrow> bool \<times> ('o, 'w) rsched) \<Rightarrow> 'o rop \<Rightarrow> nat \<Rightarrow> ('o, 'w) rsched
    \<Rightarrow> bool \<times> ('o, 'w) rsched" where
  "reactor_complete E handler opn bytes_transferred s =
     (case opn of
        Operation x \<Rightarrow> handler x s
      | Descriptor d \<Rightarrow>
          let s = with_reactor (\<lambda>r. r\<lparr>queued_descriptors := queued_descriptors r - 1\<rparr>) s;
              (first_op, s) = perform_io E d (word_of_nat bytes_transferred) s
          in case first_op of Some x \<Rightarrow> handler x s | None \<Rightarrow> (False, s))"

section \<open>Shutdown\<close>

text \<open>The operations left, for \<open>abandon_operations\<close> to destroy. Each turn frees the first live state.\<close>

fun shutdown_loop :: "nat list \<Rightarrow> 'o list \<Rightarrow> ('o, 'w) reactor \<Rightarrow> 'o list \<times> ('o, 'w) reactor" where
  "shutdown_loop [] ops r = (ops, r)"
| "shutdown_loop (d # ds) ops r =
     (let ops = ops @ concat (map (op_queue_of (state_at d r)) op_types);
          r = upd_state d (fold (\<lambda>i. set_queue i []) op_types) r;
          r = upd_state d (\<lambda>x. x\<lparr>ds_shutdown := True\<rparr>) r
      in shutdown_loop ds ops (free_descriptor_state d r))"

definition reactor_shutdown_all :: "('o, 'w) reactor \<Rightarrow> ('o list \<times> ('o, 'w) reactor) option" where
  "reactor_shutdown_all r0 =
     (let r = r0\<lparr>reactor_shutdown := True\<rparr>;
          (ops, r) = shutdown_loop (live_list r) [] r
      in map_option (\<lambda>(ops, q). (ops, r\<lparr>timer_q := q\<rparr>)) (get_all_timers ops (timer_q r)))"

section \<open>Handlers and the scheduler's environment\<close>

text \<open>What a handler may call; sockets are numbered, and each has its \<open>per_descriptor_data\<close> pointer.\<close>

datatype 'o call =
    Register nat int
  | StartOp nat int op_type 'o bool bool
  | CancelOps nat
  | CancelOpsByKey nat op_type nat
  | Deregister nat int bool
  | Cleanup nat
  | Move nat nat
  | ScheduleTimer int nat 'o
  | CancelTimer nat nat
  | CancelTimerByKey nat nat
  | MoveTimer nat nat
  | Post 'o bool
  | Dispatch 'o
  | Interrupt
  | Stop

definition set_socket :: "nat \<Rightarrow> nat option \<Rightarrow> ('o, 'w) rsched \<Rightarrow> ('o, 'w) rsched" where
  "set_socket k dd = with_reactor (\<lambda>r. r\<lparr>socket_data := (socket_data r)(k := dd)\<rparr>)"

fun run_call :: "('o, 'w) os_env \<Rightarrow> 'o call \<Rightarrow> ('o, 'w) rsched \<Rightarrow> ('o, 'w) rsched" where
  "run_call E (Register k fd) s = (let (err, dd, s) = register_descriptor E fd s in set_socket k dd s)"
| "run_call E (StartOp k fd op_type opn cont spec) s = start_op E op_type fd (socket_data (world s) k) opn cont spec s"
| "run_call E (CancelOps k) s = reactor_cancel_ops (socket_data (world s) k) s"
| "run_call E (CancelOpsByKey k op_type key) s = cancel_ops_by_key (socket_data (world s) k) op_type key s"
| "run_call E (Deregister k fd closing) s =
     (let (dd, s) = deregister_descriptor E fd (socket_data (world s) k) closing s in set_socket k dd s)"
| "run_call E (Cleanup k) s = (let (dd, s) = cleanup_descriptor_data (socket_data (world s) k) s in set_socket k dd s)"
| "run_call E (Move k l) s =
     (let (a, b) = move_descriptor (socket_data (world s) k) (socket_data (world s) l)
      in set_socket l b (set_socket k a s))"
| "run_call E (ScheduleTimer time timer opn) s = schedule_timer E time timer opn s"
| "run_call E (CancelTimer timer n) s = snd (reactor_cancel_timer timer n s)"
| "run_call E (CancelTimerByKey timer key) s = reactor_cancel_timer_by_key timer key s"
| "run_call E (MoveTimer target source) s = reactor_move_timer target source s"
| "run_call E (Post opn cont) s = post_immediate_completion (Operation opn) cont s"
| "run_call E (Dispatch opn) s = do_dispatch (Operation opn) s"
| "run_call E Interrupt s = with_reactor (interrupt E) s"
| "run_call E Stop s = stop s"

text \<open>\<open>script\<close> says which calls a handler makes and whether it throws after them.\<close>

definition run_handler ::
  "('o, 'w) os_env \<Rightarrow> ('o \<Rightarrow> ('o, 'w) rsched \<Rightarrow> 'o call list \<times> bool) \<Rightarrow> 'o \<Rightarrow> ('o, 'w) rsched
    \<Rightarrow> bool \<times> ('o, 'w) rsched" where
  "run_handler E script opn s = (let (calls, threw) = script opn s in (threw, fold (run_call E) calls s))"

definition reactor_env ::
  "('o, 'w) os_env \<Rightarrow> ('o \<Rightarrow> ('o, 'w) rsched \<Rightarrow> 'o call list \<times> bool) \<Rightarrow> ('o rop, ('o, 'w) reactor) sched_env" where
  "reactor_env E script =
     \<lparr>env_complete = reactor_complete E (run_handler E script),
      env_run_task = (\<lambda>usec s. (False, reactor_run E usec s)),
      env_sleep = (\<lambda>_. None), env_sleep_usec = (\<lambda>_ s. s)\<rparr>"

end
