(* ===== verification/SocketService.thy ===== *)
theory SocketService
  imports SocketPerform EpollRun
begin

text \<open>
  The socket service over the reactor, \<^verbatim>\<open>asio/detail/impl/reactive_socket_service_base.ipp\<close> and its two headers:
  what a socket object keeps (\<open>base_implementation\<close>), opening, closing and moving it, its modes, its blocking
  operations, and how its asynchronous operations are started and cancelled.

  The world of the reactor is a \<open>net\<close>: the kernel and the sockets that accept operations hold. \<open>E\<close> is the
  reactor's environment and \<open>K\<close> the kernel's system calls; \<open>socket_env\<close> is the environment in which the
  reactor performs the socket operations of theory SocketLoops. A function that changes a socket returns the new
  one. The protocol of a socket and tracking of handlers are left out.
\<close>

type_synonym 'w net_sched = "(sock_op, 'w net) rsched"
type_synonym 'w net_env = "(sock_op, 'w net) os_env"

text \<open>\<open>perform\<close> of an operation. A call that never returns has no result: \<open>NotDone\<close> stands for it here, and
  the theorems leave that case out.\<close>

definition socket_env :: "'w sys_env \<Rightarrow> 'w net_env \<Rightarrow> 'w net_env" where
  "socket_env K E = E\<lparr>os_perform := (\<lambda>opn n.
     case op_perform K opn n of Some r \<Rightarrow> r | None \<Rightarrow> (NotDone, ec_success, 0, n))\<rparr>"

definition kernel_of :: "'w net_sched \<Rightarrow> 'w" where
  "kernel_of s = kernel (os (world s))"

definition set_net :: "'w net \<Rightarrow> 'w net_sched \<Rightarrow> 'w net_sched" where
  "set_net n = with_reactor (\<lambda>r. r\<lparr>os := n\<rparr>)"

definition set_kernel :: "'w \<Rightarrow> 'w net_sched \<Rightarrow> 'w net_sched" where
  "set_kernel w s = set_net ((os (world s))\<lparr>kernel := w\<rparr>) s"

definition set_op_ec :: "sock_op \<Rightarrow> error_code \<Rightarrow> 'w net_sched \<Rightarrow> 'w net_sched" where
  "set_op_ec opn ec = with_reactor (set_rop_ec opn ec)"

section \<open>Socket objects\<close>

record base_implementation =
  socket :: int
  impl_state :: state_type
  reactor_data :: "nat option"

definition construct :: base_implementation where
  "construct = \<lparr>socket = invalid_socket, impl_state = 0, reactor_data = None\<rparr>"

definition is_open :: "base_implementation \<Rightarrow> bool" where
  "is_open impl \<longleftrightarrow> socket impl \<noteq> invalid_socket"

text \<open>The new and the moved-from object.\<close>

definition base_move_construct :: "base_implementation \<Rightarrow> base_implementation \<times> base_implementation" where
  "base_move_construct other_impl =
     (let (data, other_data) = move_descriptor None (reactor_data other_impl)
      in (\<lparr>socket = socket other_impl, impl_state = impl_state other_impl, reactor_data = data\<rparr>,
          other_impl\<lparr>socket := invalid_socket, impl_state := 0, reactor_data := other_data\<rparr>))"

definition destroy ::
  "'w sys_env \<Rightarrow> 'w net_env \<Rightarrow> base_implementation \<Rightarrow> 'w net_sched \<Rightarrow> base_implementation \<times> 'w net_sched" where
  "destroy K E impl s =
     (if socket impl \<noteq> invalid_socket then
        let (data, s) = deregister_descriptor E (socket impl) (reactor_data impl)
                          (\<not> has (impl_state impl) possible_dup) s;
            (result, state, ignored_ec, w) = socket_close K (socket impl) (impl_state impl) True ec_success (kernel_of s);
            s = set_kernel w s;
            (data, s) = cleanup_descriptor_data data s
        in (impl\<lparr>impl_state := state, reactor_data := data\<rparr>, s)
      else (impl, s))"

definition base_move_assign ::
  "'w sys_env \<Rightarrow> 'w net_env \<Rightarrow> base_implementation \<Rightarrow> base_implementation \<Rightarrow> 'w net_sched
    \<Rightarrow> base_implementation \<times> base_implementation \<times> 'w net_sched" where
  "base_move_assign K E impl other_impl s =
     (let (impl, s) = destroy K E impl s;
          (data, other_data) = move_descriptor (reactor_data impl) (reactor_data other_impl)
      in (impl\<lparr>socket := socket other_impl, impl_state := impl_state other_impl, reactor_data := data\<rparr>,
          other_impl\<lparr>socket := invalid_socket, impl_state := 0, reactor_data := other_data\<rparr>, s))"

definition close ::
  "'w sys_env \<Rightarrow> 'w net_env \<Rightarrow> base_implementation \<Rightarrow> error_code \<Rightarrow> 'w net_sched
    \<Rightarrow> base_implementation \<times> error_code \<times> 'w net_sched" where
  "close K E impl ec s =
     (if is_open impl then
        let (data, s) = deregister_descriptor E (socket impl) (reactor_data impl)
                          (\<not> has (impl_state impl) possible_dup) s;
            (result, state, ec, w) = socket_close K (socket impl) (impl_state impl) False ec (kernel_of s);
            s = set_kernel w s;
            (data, s) = cleanup_descriptor_data data s
        in (construct, ec, s)
      else (construct, ec_success, s))"

text \<open>The descriptor is not closed: the caller gets it.\<close>

definition release ::
  "'w net_env \<Rightarrow> base_implementation \<Rightarrow> 'w net_sched \<Rightarrow> int \<times> base_implementation \<times> error_code \<times> 'w net_sched" where
  "release E impl s =
     (if \<not> is_open impl then (invalid_socket, impl, basic_ec bad_descriptor, s)
      else let (data, s) = deregister_descriptor E (socket impl) (reactor_data impl) False s;
               (data, s) = cleanup_descriptor_data data s
           in (socket impl, construct, ec_success, s))"

definition cancel :: "base_implementation \<Rightarrow> 'w net_sched \<Rightarrow> error_code \<times> 'w net_sched" where
  "cancel impl s =
     (if \<not> is_open impl then (basic_ec bad_descriptor, s)
      else (ec_success, reactor_cancel_ops (reactor_data impl) s))"

definition SOCK_STREAM :: int where "SOCK_STREAM = 1"
definition SOCK_DGRAM :: int where "SOCK_DGRAM = 2"

definition type_state :: "int \<Rightarrow> state_type" where
  "type_state sock_type =
     (if sock_type = SOCK_STREAM then stream_oriented
      else if sock_type = SOCK_DGRAM then datagram_oriented else 0)"

text \<open>\<open>sock\<close> is a \<open>socket_holder\<close>: it closes the new socket when the registration fails.\<close>

definition do_open ::
  "'w sys_env \<Rightarrow> 'w net_env \<Rightarrow> base_implementation \<Rightarrow> int \<Rightarrow> int \<Rightarrow> int \<Rightarrow> error_code \<Rightarrow> 'w net_sched
    \<Rightarrow> base_implementation \<times> error_code \<times> 'w net_sched" where
  "do_open K E impl af sock_type protocol ec s =
     (if is_open impl then (impl, misc_ec already_open, s)
      else let (sock, ec, w) = open_socket K af sock_type protocol ec (kernel_of s);
               s = set_kernel w s
           in if sock = invalid_socket then (impl, ec, s)
              else let (err, data, s) = register_descriptor E sock s;
                       impl = impl\<lparr>reactor_data := data\<rparr>
                   in if err \<noteq> 0
                      then let (result, state, ignored_ec, w) = socket_close K sock 0 True ec_success (kernel_of s)
                           in (impl, EC err SystemCat, set_kernel w s)
                      else (impl\<lparr>socket := sock, impl_state := type_state sock_type\<rparr>, ec_success, s))"

definition do_assign ::
  "'w net_env \<Rightarrow> base_implementation \<Rightarrow> int \<Rightarrow> int \<Rightarrow> 'w net_sched
    \<Rightarrow> base_implementation \<times> error_code \<times> 'w net_sched" where
  "do_assign E impl sock_type native_socket s =
     (if is_open impl then (impl, misc_ec already_open, s)
      else let (err, data, s) = register_descriptor E native_socket s;
               impl = impl\<lparr>reactor_data := data\<rparr>
           in if err \<noteq> 0 then (impl, EC err SystemCat, s)
              else (impl\<lparr>socket := native_socket, impl_state := type_state sock_type OR possible_dup\<rparr>, ec_success, s))"

section \<open>Modes and blocking operations\<close>

text \<open>\<open>io_control\<close>, \<open>non_blocking(mode)\<close> and \<open>native_non_blocking(mode)\<close>.\<close>

definition io_control ::
  "'w sys_env \<Rightarrow> base_implementation \<Rightarrow> int \<Rightarrow> int \<Rightarrow> error_code \<Rightarrow> 'w
    \<Rightarrow> base_implementation \<times> int \<times> error_code \<times> 'w" where
  "io_control K impl cmd arg ec w =
     (let (result, state, arg, ec, w) = ioctl K (socket impl) (impl_state impl) cmd arg ec w
      in (impl\<lparr>impl_state := state\<rparr>, arg, ec, w))"

definition set_non_blocking ::
  "'w sys_env \<Rightarrow> base_implementation \<Rightarrow> bool \<Rightarrow> error_code \<Rightarrow> 'w \<Rightarrow> base_implementation \<times> error_code \<times> 'w" where
  "set_non_blocking K impl mode ec w =
     (let (ok, state, ec, w) = set_user_non_blocking K (socket impl) (impl_state impl) mode ec w
      in (impl\<lparr>impl_state := state\<rparr>, ec, w))"

definition set_native_non_blocking ::
  "'w sys_env \<Rightarrow> base_implementation \<Rightarrow> bool \<Rightarrow> error_code \<Rightarrow> 'w \<Rightarrow> base_implementation \<times> error_code \<times> 'w" where
  "set_native_non_blocking K impl mode ec w =
     (let (ok, state, ec, w) = set_internal_non_blocking K (socket impl) (impl_state impl) mode ec w
      in (impl\<lparr>impl_state := state\<rparr>, ec, w))"

definition receive ::
  "'w sys_env \<Rightarrow> base_implementation \<Rightarrow> bool \<Rightarrow> mutable_buffer list \<Rightarrow> 32 word \<Rightarrow> error_code \<Rightarrow> 'w
    \<Rightarrow> (nat \<times> error_code \<times> 'w) option" where
  "receive K impl single bufs flags ec w =
     (if single then sync_recv1 K (socket impl) (impl_state impl) (hd bufs) flags ec w
      else sync_recv K (socket impl) (impl_state impl) (adapter_buffers bufs) flags
             (adapter_total_size bufs = 0) ec w)"

definition send_blocking ::
  "'w sys_env \<Rightarrow> base_implementation \<Rightarrow> bool \<Rightarrow> mutable_buffer list \<Rightarrow> 32 word \<Rightarrow> error_code \<Rightarrow> 'w
    \<Rightarrow> (nat \<times> error_code \<times> 'w) option" where
  "send_blocking K impl single bufs flags ec w =
     (if single then sync_send1 K (socket impl) (impl_state impl) (hd bufs) flags ec w
      else sync_send K (socket impl) (impl_state impl) (adapter_buffers bufs) flags
             (adapter_total_size bufs = 0) ec w)"

section \<open>Starting operations\<close>

definition service_start_op ::
  "'w sys_env \<Rightarrow> 'w net_env \<Rightarrow> base_implementation \<Rightarrow> op_type \<Rightarrow> sock_op \<Rightarrow> bool \<Rightarrow> bool \<Rightarrow> bool \<Rightarrow> 'w net_sched
    \<Rightarrow> base_implementation \<times> 'w net_sched" where
  "service_start_op K E impl op_type opn is_continuation is_non_blocking noop s =
     (if noop then (impl, post_immediate_completion (Operation opn) is_continuation s)
      else if has (impl_state impl) non_blocking
      then (impl, start_op E op_type (socket impl) (reactor_data impl) opn is_continuation is_non_blocking s)
      else let (ok, state, ec, w) = set_internal_non_blocking K (socket impl) (impl_state impl) True
                                      (rop_ec (world s) opn) (kernel_of s);
               impl = impl\<lparr>impl_state := state\<rparr>;
               s = set_op_ec opn ec (set_kernel w s)
           in if ok
              then (impl, start_op E op_type (socket impl) (reactor_data impl) opn is_continuation is_non_blocking s)
              else (impl, post_immediate_completion (Operation opn) is_continuation s))"

definition start_accept_op ::
  "'w sys_env \<Rightarrow> 'w net_env \<Rightarrow> base_implementation \<Rightarrow> sock_op \<Rightarrow> bool \<Rightarrow> bool \<Rightarrow> 'w net_sched
    \<Rightarrow> base_implementation \<times> 'w net_sched" where
  "start_accept_op K E impl opn is_continuation peer_is_open s =
     (if \<not> peer_is_open then service_start_op K E impl ReadOp opn is_continuation True False s
      else (impl, post_immediate_completion (Operation opn) is_continuation
                    (set_op_ec opn (misc_ec already_open) s)))"

definition connect_started ::
  "'w sys_env \<Rightarrow> 'w net_env \<Rightarrow> base_implementation \<Rightarrow> sock_op \<Rightarrow> bool \<Rightarrow> sock_addr \<Rightarrow> 'w net_sched \<Rightarrow> 'w net_sched" where
  "connect_started K E impl opn is_continuation addr s =
     (let (result, ec, w) = connect K (socket impl) addr (rop_ec (world s) opn) (kernel_of s);
          s = set_op_ec opn ec (set_kernel w s)
      in if result \<noteq> 0 \<and> (ec = basic_ec in_progress \<or> ec = basic_ec would_block)
         then start_op E connect_op (socket impl) (reactor_data impl) opn is_continuation False
                (set_op_ec opn ec_success s)
         else post_immediate_completion (Operation opn) is_continuation s)"

definition start_connect_op ::
  "'w sys_env \<Rightarrow> 'w net_env \<Rightarrow> base_implementation \<Rightarrow> sock_op \<Rightarrow> bool \<Rightarrow> sock_addr \<Rightarrow> 'w net_sched
    \<Rightarrow> base_implementation \<times> 'w net_sched" where
  "start_connect_op K E impl opn is_continuation addr s =
     (if has (impl_state impl) non_blocking
      then (impl, connect_started K E impl opn is_continuation addr s)
      else let (ok, state, ec, w) = set_internal_non_blocking K (socket impl) (impl_state impl) True
                                      (rop_ec (world s) opn) (kernel_of s);
               impl = impl\<lparr>impl_state := state\<rparr>;
               s = set_op_ec opn ec (set_kernel w s)
           in if ok then (impl, connect_started K E impl opn is_continuation addr s)
              else (impl, post_immediate_completion (Operation opn) is_continuation s))"

text \<open>The asynchronous operations of a socket. \<open>i\<close> names the new operation object. The last component is the
  type of operation that the handler's cancellation slot will look for.\<close>

definition message_out_of_band :: "32 word" where "message_out_of_band = 1"

definition async_receive ::
  "'w sys_env \<Rightarrow> 'w net_env \<Rightarrow> base_implementation \<Rightarrow> bool \<Rightarrow> mutable_buffer list \<Rightarrow> 32 word \<Rightarrow> nat \<Rightarrow> bool \<Rightarrow> 'w net_sched
    \<Rightarrow> base_implementation \<times> 'w net_sched \<times> op_type" where
  "async_receive K E impl single bufs flags i is_continuation s =
     (let opn = SockOp i (RecvOp single (socket impl) (impl_state impl) bufs flags);
          oob = flags AND message_out_of_band \<noteq> 0;
          (impl, s) = service_start_op K E impl (if oob then ExceptOp else ReadOp) opn is_continuation (\<not> oob)
                        (has (impl_state impl) stream_oriented \<and> adapter_all_empty bufs) s
      in (impl, s, ReadOp))"

definition async_send ::
  "'w sys_env \<Rightarrow> 'w net_env \<Rightarrow> base_implementation \<Rightarrow> bool \<Rightarrow> mutable_buffer list \<Rightarrow> 32 word \<Rightarrow> nat \<Rightarrow> bool \<Rightarrow> 'w net_sched
    \<Rightarrow> base_implementation \<times> 'w net_sched \<times> op_type" where
  "async_send K E impl single bufs flags i is_continuation s =
     (let opn = SockOp i (SendOp single (socket impl) (impl_state impl) bufs flags);
          (impl, s) = service_start_op K E impl WriteOp opn is_continuation True
                        (has (impl_state impl) stream_oriented \<and> adapter_all_empty bufs) s
      in (impl, s, WriteOp))"

definition async_connect ::
  "'w sys_env \<Rightarrow> 'w net_env \<Rightarrow> base_implementation \<Rightarrow> sock_addr \<Rightarrow> nat \<Rightarrow> bool \<Rightarrow> 'w net_sched
    \<Rightarrow> base_implementation \<times> 'w net_sched \<times> op_type" where
  "async_connect K E impl addr i is_continuation s =
     (let (impl, s) = start_connect_op K E impl (SockOp i (ConnectOp (socket impl))) is_continuation addr s
      in (impl, s, connect_op))"

definition async_accept ::
  "'w sys_env \<Rightarrow> 'w net_env \<Rightarrow> base_implementation \<Rightarrow> bool \<Rightarrow> nat \<Rightarrow> bool \<Rightarrow> 'w net_sched
    \<Rightarrow> base_implementation \<times> 'w net_sched \<times> op_type" where
  "async_accept K E impl peer_is_open i is_continuation s =
     (let (impl, s) = start_accept_op K E impl (SockOp i (AcceptOp (socket impl) (impl_state impl)))
                        is_continuation peer_is_open s
      in (impl, s, ReadOp))"

text \<open>\<open>reactor_op_cancellation::operator()\<close>: \<open>key\<close> is the address of the cancellation object, \<open>data\<close> what
  the socket's \<open>reactor_data_\<close> is by then; the bits \<open>terminal\<close>, \<open>partial\<close> and \<open>total\<close> are 1, 2 and 4.\<close>

definition op_cancellation ::
  "nat option \<Rightarrow> op_type \<Rightarrow> nat \<Rightarrow> 32 word \<Rightarrow> 'w net_sched \<Rightarrow> 'w net_sched" where
  "op_cancellation data op_type key cancellation_type s =
     (if cancellation_type AND (1 OR 2 OR 4) \<noteq> 0 then cancel_ops_by_key data op_type key s else s)"

section \<open>Completing an accept\<close>

text \<open>With an owner, \<open>do_complete\<close> gives the new socket to the peer; then the operation is destroyed, and what
  its holder still has is closed. The result is the peer, the error the handler gets and the state. The accept was
  started without a peer endpoint (\<open>peer_endpoint_\<close> is 0), as the one of luaAsio is; with one, its length is set
  first, which throws for an address that does not fit.\<close>

definition accept_do_assign ::
  "'w net_env \<Rightarrow> nat \<Rightarrow> int \<Rightarrow> base_implementation \<Rightarrow> error_code \<Rightarrow> 'w net_sched
    \<Rightarrow> base_implementation \<times> error_code \<times> 'w net_sched" where
  "accept_do_assign E i sock_type peer ec s =
     (let fd = holder (os (world s)) i
      in if fd \<noteq> invalid_socket
         then let (peer, ec, s) = do_assign E peer sock_type fd s
              in (peer, ec, if \<not> failed ec then set_net (set_holder i invalid_socket (os (world s))) s else s)
         else (peer, ec, s))"

definition accept_do_complete ::
  "'w sys_env \<Rightarrow> 'w net_env \<Rightarrow> nat \<Rightarrow> int \<Rightarrow> bool \<Rightarrow> base_implementation \<Rightarrow> error_code \<Rightarrow> 'w net_sched
    \<Rightarrow> base_implementation \<times> error_code \<times> 'w net_sched" where
  "accept_do_complete K E i sock_type owner peer ec s =
     (let (peer, ec, s) = (if owner then accept_do_assign E i sock_type peer ec s else (peer, ec, s))
      in (peer, ec, set_net (holder_reset K i (os (world s))) s))"

end
