(* ===== verification/SyncSpec.thy ===== *)
theory SyncSpec
  imports SocketSpec SocketService
begin

text \<open>
  The blocking operations of a socket: \<open>receive\<close> and \<open>send\<close> in the two modes a user can choose.
\<close>

lemma waited_of_sync_transfer:
  assumes "sync_transfer (attempt_of f) (attempt_of p) check_eof state ec w = Some res"
    and user: "\<not> has state user_set_non_blocking" and ec: "ec_category ec = SystemCat"
  shows "\<exists>v n ec' w'. waited f p w v \<and> transferred check_eof f p v n ec' w'"
proof -
  let ?P = "\<lambda>a b ce st ec w res. a = attempt_of f \<and> b = attempt_of p \<and> ce = check_eof \<and> st = state
    \<and> ec_category ec = SystemCat \<longrightarrow> (\<exists>v n ec' w'. waited f p w v \<and> transferred check_eof f p v n ec' w')"
  have "?P (attempt_of f) (attempt_of p) check_eof state ec w res"
  proof (rule sync_transfer.raw_induct [OF _ assms(1), of ?P], intro impI, elim conjE)
    fix g :: "'a attempt \<Rightarrow> 'a attempt \<Rightarrow> bool \<Rightarrow> state_type \<Rightarrow> error_code \<Rightarrow> 'a \<Rightarrow> (nat \<times> error_code \<times> 'a) option"
      and a b ce st ec w res
    assume ih: "\<And>a b ce st ec w res. g a b ce st ec w = Some res \<Longrightarrow> ?P a b ce st ec w res"
      and body: "(let (bytes, ec, w) = a ec w
         in if ce \<and> bytes = 0 then Some (0, misc_ec eof, w)
            else if bytes \<ge> 0 then Some (nat bytes, ec, w)
            else if has st user_set_non_blocking \<or> \<not> must_wait ec then Some (0, ec, w)
            else let (ready, ec, w) = b ec w
                 in if ready < 0 then Some (0, ec, w) else g a b ce st ec w) = Some res"
      and eqs: "a = attempt_of f" "b = attempt_of p" "ce = check_eof" "st = state" "ec_category ec = SystemCat"
    obtain r errno w1 where f: "f w = (r, errno, w1)" by (rule prod_cases3)
    show "\<exists>v n ec' w'. waited f p w v \<and> transferred check_eof f p v n ec' w'"
    proof (cases "blocked r errno")
      case False
      show ?thesis by (intro exI conjI, rule waited.now, rule transferred.answer [where f = f and p = p, OF f False])
    next
      case True
      obtain ready errno2 w2 where p: "p w1 = (ready, errno2, w2)" by (rule prod_cases3)
      show ?thesis
      proof (cases "ready < 0")
        case rdy: True
        show ?thesis by (intro exI conjI, rule waited.now, rule transferred.poll_failed [where f = f and p = p, OF f True p rdy])
      next
        case rdy: False
        have "r < 0" "errno = 11" using True by (simp_all add: blocked_def)
        then have "a ec w = (r, EC 11 SystemCat, w1)" "b (EC 11 SystemCat) w1 = (ready, clear_ec (EC 11 SystemCat), w2)"
          using rdy f p by (simp_all add: eqs attempt_of_def)
        with body rdy \<open>r < 0\<close> user have "g a b ce st (clear_ec (EC 11 SystemCat)) w2 = Some res" by (simp add: eqs(4))
        from ih [OF this] eqs obtain v n ec' w' where "waited f p w2 v" "transferred check_eof f p v n ec' w'"
          by (auto simp: clear_ec_def)
        then show ?thesis using waited.poll_again [where f = f and p = p, OF f True p] rdy by (metis not_less)
      qed
    qed
  qed
  then show ?thesis using ec by blast
qed

lemma sync_transfer_iff:
  assumes user: "\<not> has state user_set_non_blocking" and ec: "ec_category ec = SystemCat"
  shows "sync_transfer (attempt_of f) (attempt_of p) check_eof state ec w = Some (n, ec', w') \<longleftrightarrow>
    (\<exists>v. waited f p w v \<and> transferred check_eof f p v n ec' w')"
proof
  assume l: "sync_transfer (attempt_of f) (attempt_of p) check_eof state ec w = Some (n, ec', w')"
  from waited_of_sync_transfer [OF this user ec] obtain v n2 ec2 w2 where
    v: "waited f p w v" "transferred check_eof f p v n2 ec2 w2" by blast
  from sync_transfer_waited [OF this ec user] l show "\<exists>v. waited f p w v \<and> transferred check_eof f p v n ec' w'"
    using v by auto
next
  assume "\<exists>v. waited f p w v \<and> transferred check_eof f p v n ec' w'"
  then obtain v where v: "waited f p w v" "transferred check_eof f p v n ec' w'" by blast
  show "sync_transfer (attempt_of f) (attempt_of p) check_eof state ec w = Some (n, ec', w')"
    by (rule sync_transfer_waited [OF v ec user])
qed

text \<open>The answer as it is, for a socket the user made non-blocking.\<close>

definition one_shot :: "bool \<Rightarrow> 'w sys_result \<Rightarrow> nat \<times> error_code \<times> 'w" where
  "one_shot check_eof a = (case a of (r, errno, w) \<Rightarrow>
     (if r \<ge> 0 then nat r else 0,
      if r < 0 then EC errno SystemCat else if check_eof \<and> r = 0 then misc_ec eof else ec_success, w))"

lemma sync_transfer_one_shot:
  assumes "has state user_set_non_blocking" and "ec_category ec = SystemCat"
  shows "sync_transfer (attempt_of f) poll_it check_eof state ec w = Some (one_shot check_eof (f w))"
proof -
  obtain r errno w1 where f: "f w = (r, errno, w1)" by (rule prod_cases3)
  then have "attempt_of f ec w = (r, get_last_error (r < 0) errno ec, w1)" by (simp add: attempt_of_def)
  then show ?thesis using assms by (subst sync_transfer.simps) (auto simp: one_shot_def f cleared)
qed

lemma has_zero [simp]: "\<not> has 0 b"
  by (simp add: has_def)

lemma poll_attempt:
  assumes "s \<noteq> invalid_socket"
  shows "poll_read K s 0 (- 1) = attempt_of (sys_poll K s POLLIN (- 1))"
    "poll_write K s 0 (- 1) = attempt_of (sys_poll K s POLLOUT (- 1))"
  using assms by (auto simp: poll_read_def poll_write_def poll_for_def attempt_of_def fun_eq_iff Let_def split: prod.splits)

lemma receive_transfer:
  "receive K impl single bufs flags ec_success w =
     (if \<not> is_open impl then Some (0, basic_ec bad_descriptor, w)
      else if has (impl_state impl) stream_oriented \<and> wanted single bufs = 0 then Some (0, ec_success, w)
      else sync_transfer (attempt_of (recv_call K single (socket impl) bufs flags))
             (attempt_of (sys_poll K (socket impl) POLLIN (- 1))) (has (impl_state impl) stream_oriented)
             (impl_state impl) ec_success w)"
  by (simp add: receive_def sync_recv1_def sync_recv_def recv_call_def wanted_def is_open_def poll_attempt attempts cleared)

lemma send_transfer:
  "send_blocking K impl single bufs flags ec_success w =
     (if \<not> is_open impl then Some (0, basic_ec bad_descriptor, w)
      else if has (impl_state impl) stream_oriented \<and> wanted single bufs = 0 then Some (0, ec_success, w)
      else sync_transfer (attempt_of (send_call K single (socket impl) bufs flags))
             (attempt_of (sys_poll K (socket impl) POLLOUT (- 1))) False (impl_state impl) ec_success w)"
  by (simp add: send_blocking_def sync_send1_def sync_send_def send_call_def wanted_def is_open_def poll_attempt attempts cleared)

text \<open>C21: A blocking receive or send, in every mode. A socket that is not open is an error, no bytes of a stream are
  no call at all. If the user made the socket non-blocking there is one call and its answer is the result,
  \<open>would_block\<close> included: the call never waits. Otherwise it waits in \<open>poll\<close> after every \<open>EWOULDBLOCK\<close>, also
  when asynchronous operations have made the descriptor non-blocking, and returns the first other answer or the
  error of a failed \<open>poll\<close>; it never returns exactly if it waits forever. A signal ends it with
  \<open>interrupted\<close>.\<close>

theorem blocking_transfers_follow_the_user_mode:
  "(if \<not> is_open impl
    then receive K impl single bufs flags ec_success w = Some (0, basic_ec bad_descriptor, w)
      \<and> send_blocking K impl single bufs flags ec_success w = Some (0, basic_ec bad_descriptor, w)
    else if has (impl_state impl) stream_oriented \<and> wanted single bufs = 0
    then receive K impl single bufs flags ec_success w = Some (0, ec_success, w)
      \<and> send_blocking K impl single bufs flags ec_success w = Some (0, ec_success, w)
    else if has (impl_state impl) user_set_non_blocking
    then receive K impl single bufs flags ec_success w =
           Some (one_shot (has (impl_state impl) stream_oriented) (recv_call K single (socket impl) bufs flags w))
      \<and> send_blocking K impl single bufs flags ec_success w =
           Some (one_shot False (send_call K single (socket impl) bufs flags w))
    else (receive K impl single bufs flags ec_success w = Some (n, ec, w') \<longleftrightarrow>
            (\<exists>v. waited (recv_call K single (socket impl) bufs flags) (sys_poll K (socket impl) POLLIN (- 1)) w v
               \<and> transferred (has (impl_state impl) stream_oriented) (recv_call K single (socket impl) bufs flags)
                   (sys_poll K (socket impl) POLLIN (- 1)) v n ec w'))
      \<and> (send_blocking K impl single bufs flags ec_success w = Some (n, ec, w') \<longleftrightarrow>
            (\<exists>v. waited (send_call K single (socket impl) bufs flags) (sys_poll K (socket impl) POLLOUT (- 1)) w v
               \<and> transferred False (send_call K single (socket impl) bufs flags)
                   (sys_poll K (socket impl) POLLOUT (- 1)) v n ec w')))"
  by (simp add: receive_transfer send_transfer sync_transfer_iff sync_transfer_one_shot)

end
