(* ===== verification/SocketModes.thy ===== *)
theory SocketModes
  imports SyncSpec
begin

text \<open>
  The non-blocking modes of a socket: its state bits and the flag of the descriptor in the kernel agree, and the
  reactor is given operations of non-blocking descriptors only.
\<close>

section \<open>State bits\<close>

lemma has_bit: "has state (push_bit n 1) \<longleftrightarrow> bit state n"
  by (simp add: has_def bit_iff_and_push_bit_not_eq_0)

lemma state_bits_exp:
  "user_set_non_blocking = push_bit 0 1" "internal_non_blocking = push_bit 1 1"
  "enable_connection_aborted = push_bit 2 1" "user_set_linger = push_bit 3 1"
  "stream_oriented = push_bit 4 1" "datagram_oriented = push_bit 5 1" "possible_dup = push_bit 6 1"
  by (simp_all add: state_bits push_bit_eq_mult)

lemma has_user: "has state user_set_non_blocking \<longleftrightarrow> bit state 0"
  unfolding state_bits_exp by (rule has_bit)

lemma has_internal: "has state internal_non_blocking \<longleftrightarrow> bit state 1"
  unfolding state_bits_exp by (rule has_bit)

lemma has_either: "has state non_blocking \<longleftrightarrow> has state user_set_non_blocking \<or> has state internal_non_blocking"
  by (simp add: has_def non_blocking_def bit.conj_disj_distrib or_eq_0_iff)

lemmas has_modes = has_either has_user has_internal

lemma bits_of_modes:
  "bit user_set_non_blocking n \<longleftrightarrow> n = 0" "bit internal_non_blocking n \<longleftrightarrow> n = 1"
  by (auto simp: state_bits_exp bit_simps)

lemma mode_bits [simp]:
  "has (state OR user_set_non_blocking) non_blocking" "has (state OR internal_non_blocking) non_blocking"
  "\<not> has (state AND NOT (user_set_non_blocking OR internal_non_blocking)) non_blocking"
  "\<not> has (state AND NOT user_set_non_blocking AND NOT internal_non_blocking) non_blocking"
  "has (state AND NOT internal_non_blocking) non_blocking \<longleftrightarrow> has state user_set_non_blocking"
  by (simp_all add: has_modes bit_simps bits_of_modes)

lemma other_bits [simp]:
  "(state OR user_set_non_blocking) AND NOT non_blocking = state AND NOT non_blocking"
  "(state OR internal_non_blocking) AND NOT non_blocking = state AND NOT non_blocking"
  "(state AND NOT (user_set_non_blocking OR internal_non_blocking)) AND NOT non_blocking = state AND NOT non_blocking"
  "(state AND NOT user_set_non_blocking AND NOT internal_non_blocking) AND NOT non_blocking = state AND NOT non_blocking"
  "(state AND NOT internal_non_blocking) AND NOT non_blocking = state AND NOT non_blocking"
  by (auto intro!: bit_word_eqI simp: bit_simps bits_of_modes non_blocking_def)

section \<open>The kernel's flag\<close>

text \<open>Documented behaviour of \<open>ioctl\<close>: \<open>FIONBIO\<close> sets or clears the flag of the descriptor, unless it fails, and
  leaves its argument alone; no other command changes a flag. \<open>nb\<close> reads the flags.\<close>

definition keeps_modes :: "'w sys_env \<Rightarrow> ('w \<Rightarrow> int \<Rightarrow> bool) \<Rightarrow> bool" where
  "keeps_modes K nb \<longleftrightarrow> (\<forall>s cmd v w r errno v' w'. sys_ioctl K s cmd v w = (r, errno, v', w') \<longrightarrow>
     nb w' = (if cmd = FIONBIO \<and> r \<ge> 0 then (nb w)(s := v \<noteq> 0) else nb w) \<and> (cmd = FIONBIO \<longrightarrow> v' = v))"

lemma keeps_modesD:
  assumes "keeps_modes K nb" and "sys_ioctl K s cmd v w = (r, errno, v', w')"
  shows "nb w' = (if cmd = FIONBIO \<and> r \<ge> 0 then (nb w)(s := v \<noteq> 0) else nb w)" "cmd = FIONBIO \<Longrightarrow> v' = v"
  using assms unfolding keeps_modes_def by blast+

definition modes_agree :: "('w \<Rightarrow> int \<Rightarrow> bool) \<Rightarrow> base_implementation \<Rightarrow> 'w \<Rightarrow> bool" where
  "modes_agree nb impl w \<longleftrightarrow> (has (impl_state impl) non_blocking \<longleftrightarrow> nb w (socket impl))"

datatype mode_op = UserMode bool | NativeMode bool | Control int int

fun run_mode :: "'w sys_env \<Rightarrow> mode_op \<Rightarrow> base_implementation \<times> 'w \<Rightarrow> base_implementation \<times> 'w" where
  "run_mode K (UserMode b) (impl, w) = (let (impl, ec, w) = set_non_blocking K impl b ec_success w in (impl, w))"
| "run_mode K (NativeMode b) (impl, w) = (let (impl, ec, w) = set_native_non_blocking K impl b ec_success w in (impl, w))"
| "run_mode K (Control cmd arg) (impl, w) = (let (impl, arg, ec, w) = io_control K impl cmd arg ec_success w in (impl, w))"

text \<open>What a change of mode keeps: the socket, the other bits of its state and the other descriptors.\<close>

definition mode_kept ::
  "('w \<Rightarrow> int \<Rightarrow> bool) \<Rightarrow> base_implementation \<times> 'w \<Rightarrow> base_implementation \<times> 'w \<Rightarrow> bool" where
  "mode_kept nb before after \<longleftrightarrow> (case before of (impl, w) \<Rightarrow> case after of (impl', w') \<Rightarrow>
     socket impl' = socket impl \<and> reactor_data impl' = reactor_data impl
     \<and> impl_state impl' AND NOT non_blocking = impl_state impl AND NOT non_blocking
     \<and> (\<forall>fd. fd \<noteq> socket impl \<longrightarrow> nb w' fd = nb w fd)
     \<and> (modes_agree nb impl w \<longrightarrow> modes_agree nb impl' w'))"

lemma set_internal_effect:
  assumes k: "keeps_modes K nb" and r: "set_internal_non_blocking K s state v ec w = (ok, state', ec', w')"
  shows "state' AND NOT non_blocking = state AND NOT non_blocking \<and> (\<forall>fd. fd \<noteq> s \<longrightarrow> nb w' fd = nb w fd)
    \<and> ((has state non_blocking \<longleftrightarrow> nb w s) \<longrightarrow> (has state' non_blocking \<longleftrightarrow> nb w' s))
    \<and> (if ok then nb w' s = v else state' = state \<and> nb w' = nb w)"
proof -
  let ?v = "if v then 1 else 0 :: int"
  obtain result errno a w1 where i: "sys_ioctl K s FIONBIO ?v w = (result, errno, a, w1)"
    by (rule prod_cases4)
  have n: "nb w1 = (if result \<ge> 0 then (nb w)(s := v) else nb w)" using keeps_modesD(1) [OF k i] by simp
  consider "s = invalid_socket" | "s \<noteq> invalid_socket" "\<not> v" "has state user_set_non_blocking"
    | "s \<noteq> invalid_socket" "v \<or> \<not> has state user_set_non_blocking" by blast
  then show ?thesis
  proof cases
    case 3
    then have "set_internal_non_blocking K s state v ec w =
        (result \<ge> 0, if result \<ge> 0 then if v then state OR internal_non_blocking
          else state AND NOT internal_non_blocking else state, get_last_error (result < 0) errno ec, w1)"
      unfolding set_internal_non_blocking_def i Let_def prod.case by auto
    with r n 3 show ?thesis by (cases v) auto
  qed (use r in \<open>simp_all add: set_internal_non_blocking_def\<close>)
qed

lemma set_user_effect:
  assumes k: "keeps_modes K nb" and r: "set_user_non_blocking K s state v ec w = (ok, state', ec', w')"
  shows "state' AND NOT non_blocking = state AND NOT non_blocking \<and> (\<forall>fd. fd \<noteq> s \<longrightarrow> nb w' fd = nb w fd)
    \<and> ((has state non_blocking \<longleftrightarrow> nb w s) \<longrightarrow> (has state' non_blocking \<longleftrightarrow> nb w' s))"
proof -
  let ?v = "if v then 1 else 0 :: int"
  obtain result errno a w1 where i: "sys_ioctl K s FIONBIO ?v w = (result, errno, a, w1)"
    by (rule prod_cases4)
  have n: "nb w1 = (if result \<ge> 0 then (nb w)(s := v) else nb w)" using keeps_modesD(1) [OF k i] by simp
  show ?thesis
  proof (cases "s = invalid_socket")
    case False
    then have "set_user_non_blocking K s state v ec w =
        (result \<ge> 0, if result \<ge> 0 then if v then state OR user_set_non_blocking
          else state AND NOT (user_set_non_blocking OR internal_non_blocking) else state,
         get_last_error (result < 0) errno ec, w1)"
      unfolding set_user_non_blocking_def i Let_def prod.case by auto
    with r n show ?thesis by (cases v) auto
  qed (use r in \<open>simp add: set_user_non_blocking_def\<close>)
qed

lemma ioctl_effect:
  assumes k: "keeps_modes K nb" and r: "ioctl K s state cmd v ec w = (result, state', v', ec', w')"
  shows "state' AND NOT non_blocking = state AND NOT non_blocking \<and> (\<forall>fd. fd \<noteq> s \<longrightarrow> nb w' fd = nb w fd)
    \<and> ((has state non_blocking \<longleftrightarrow> nb w s) \<longrightarrow> (has state' non_blocking \<longleftrightarrow> nb w' s))"
proof -
  obtain res errno a w1 where i: "sys_ioctl K s cmd v w = (res, errno, a, w1)" by (rule prod_cases4)
  note n = keeps_modesD [OF k i]
  show ?thesis
  proof (cases "s = invalid_socket")
    case False
    with r n show ?thesis unfolding ioctl_def i Let_def prod.case by (auto split: if_splits)
  qed (use r in \<open>simp add: ioctl_def\<close>)
qed

lemma run_mode_kept:
  assumes k: "keeps_modes K nb"
  shows "mode_kept nb c (run_mode K opn c)"
proof (cases c)
  case (Pair impl w)
  show ?thesis
  proof (cases opn)
    case (UserMode v)
    obtain ok state' ec' w' where r: "set_user_non_blocking K (socket impl) (impl_state impl) v ec_success w = (ok, state', ec', w')"
      by (rule prod_cases4)
    from set_user_effect [OF k r] show ?thesis
      by (simp add: Pair UserMode set_non_blocking_def r mode_kept_def modes_agree_def)
  next
    case (NativeMode v)
    obtain ok state' ec' w' where r: "set_internal_non_blocking K (socket impl) (impl_state impl) v ec_success w = (ok, state', ec', w')"
      by (rule prod_cases4)
    from set_internal_effect [OF k r] show ?thesis
      by (simp add: Pair NativeMode set_native_non_blocking_def r mode_kept_def modes_agree_def)
  next
    case (Control cmd v)
    obtain res state' v' ec' w' where r: "ioctl K (socket impl) (impl_state impl) cmd v ec_success w = (res, state', v', ec', w')"
      by (rule prod_cases5)
    from ioctl_effect [OF k r] show ?thesis
      by (simp add: Pair Control io_control_def r mode_kept_def modes_agree_def)
  qed
qed

lemma mode_kept_refl: "mode_kept nb c c"
  by (simp add: mode_kept_def split: prod.split)

lemma mode_kept_trans: "mode_kept nb a b \<Longrightarrow> mode_kept nb b c \<Longrightarrow> mode_kept nb a c"
  by (auto simp: mode_kept_def split: prod.splits)

text \<open>However the modes of a socket are changed, by the user mode, the native mode or the \<open>FIONBIO\<close> control
  command, whether the calls succeed or fail and in any order: if its state bits and the kernel's flag of its
  descriptor agreed before, they agree after; the socket, the other bits of its state and the flags of other
  descriptors stay as they were.\<close>

theorem modes_follow_the_kernel:
  assumes "keeps_modes K nb"
  shows "mode_kept nb c (fold (run_mode K) ops c)"
proof (induction ops arbitrary: c)
  case (Cons opn ops)
  show ?case using mode_kept_trans [OF run_mode_kept [OF assms] Cons.IH] by simp
qed (simp add: mode_kept_refl)

text \<open>A kernel that has nothing but the flags: every other call fails.\<close>

definition no_call :: "'w \<Rightarrow> 'w sys_result" where
  "no_call w = (- 1, basic_value operation_not_supported, w)"

text \<open>A kernel in which no call of a socket works.\<close>

definition no_kernel :: "'w sys_env" where
  "no_kernel =
     \<lparr>sys_socket = (\<lambda>_ _ _. no_call), sys_accept = (\<lambda>_. no_call), sys_bind = (\<lambda>_ _. no_call),
      sys_listen = (\<lambda>_ _. no_call), sys_connect = (\<lambda>_ _. no_call), sys_shutdown = (\<lambda>_ _. no_call),
      sys_close = (\<lambda>_. no_call), sys_poll = (\<lambda>_ _ _. no_call), sys_ioctl = (\<lambda>_ _ v w. (- 1, 25, v, w)),
      sys_setsockopt = (\<lambda>_ _ _ _ _. no_call), sys_getsockopt = (\<lambda>_ _ _ v n w. (- 1, 92, v, n, w)),
      sys_recvmsg = (\<lambda>_ _ _. no_call), sys_recv = (\<lambda>_ _ _. no_call), sys_sendmsg = (\<lambda>_ _ _. no_call),
      sys_send = (\<lambda>_ _ _. no_call), sys_recvmsg_from = (\<lambda>_ _ _ a n w. (- 1, 95, a, n, w)),
      sys_recvfrom = (\<lambda>_ _ _ a n w. (- 1, 95, a, case n of None \<Rightarrow> 0 | Some n \<Rightarrow> n, w)),
      sys_recvmsg_flags = (\<lambda>_ _ _ w. (- 1, 95, 0, w)), sys_sendmsg_to = (\<lambda>_ _ _ _ _. no_call),
      sys_sendto = (\<lambda>_ _ _ _ _. no_call), sys_getsockname = (\<lambda>_ a n w. (- 1, 95, a, n, w)),
      sys_getpeername = (\<lambda>_ a n w. (- 1, 95, a, n, w))\<rparr>"

lemma no_kernel_simps [simp]:
  "sys_close no_kernel fd = no_call" "sys_poll no_kernel fd ev t = no_call"
  "sys_ioctl no_kernel fd cmd v w = (- 1, 25, v, w)" "sys_setsockopt no_kernel fd l m o' n = no_call"
  by (simp_all add: no_kernel_def)

definition flag_kernel :: "(int \<Rightarrow> bool) sys_env" where
  "flag_kernel = no_kernel\<lparr>
     sys_ioctl := (\<lambda>fd cmd v w. if cmd = FIONBIO \<and> 0 \<le> fd then (0, 0, v, w(fd := v \<noteq> 0)) else (- 1, 25, v, w))\<rparr>"

lemma flag_kernel_keeps_modes: "keeps_modes flag_kernel (\<lambda>w. w)"
  by (auto simp: keeps_modes_def flag_kernel_def)

definition fresh_stream :: base_implementation where
  "fresh_stream = \<lparr>socket = 5, impl_state = stream_oriented, reactor_data = Some 0\<rparr>"

theorem modes_follow_the_kernel_witness:
  "keeps_modes flag_kernel (\<lambda>w. w) \<and> modes_agree (\<lambda>w. w) fresh_stream (\<lambda>_. False)
   \<and> mode_kept (\<lambda>w. w) (fresh_stream, \<lambda>_. False)
       (fold (run_mode flag_kernel) [UserMode True, NativeMode False, Control FIONBIO 0, NativeMode True] (fresh_stream, \<lambda>_. False))"
proof (intro conjI)
  show "keeps_modes flag_kernel (\<lambda>w. w)" by (rule flag_kernel_keeps_modes)
  show "modes_agree (\<lambda>w. w) fresh_stream (\<lambda>_. False)"
    by (simp add: modes_agree_def fresh_stream_def has_def state_bits)
  show "mode_kept (\<lambda>w. w) (fresh_stream, \<lambda>_. False)
       (fold (run_mode flag_kernel) [UserMode True, NativeMode False, Control FIONBIO 0, NativeMode True] (fresh_stream, \<lambda>_. False))"
    by (rule modes_follow_the_kernel [OF flag_kernel_keeps_modes])
qed

end
