(* ===== verification/EpollInv.thy ===== *)
theory EpollInv
  imports EpollRun SchedulerClient
begin

text \<open>
  The books of reactor and scheduler together: every operation of the reactor keeps them, so the reactor with
  any handlers is a client of the scheduler (an interpretation of \<open>scheduler_client\<close>).
\<close>

section \<open>Counting the waiting operations\<close>

definition state_ops :: "'o descriptor_state \<Rightarrow> int" where
  "state_ops x = sum_list (map (\<lambda>i. int (length (op_queue_of x i))) op_types)"

definition waiting_ops :: "('o, 'w) reactor \<Rightarrow> int" where
  "waiting_ops r = sum_list (map state_ops (states r))"

definition waits_in_hand :: "('o, 'w) reactor \<Rightarrow> int" where
  "waits_in_hand r = waiting_ops r + timer_waits r - queued_descriptors r"

lemma blank_ops [simp]: "state_ops blank_state = 0"
  by (simp add: state_ops_def blank_state_def)

lemma state_ops_expand:
  "state_ops x = int (length (op_queue_of x ReadOp)) + int (length (op_queue_of x WriteOp)) + int (length (op_queue_of x ExceptOp))"
  by (simp add: state_ops_def op_types_def)

lemma sum_list_update_int:
  "d < length xs \<Longrightarrow> sum_list (xs[d := x]) = sum_list xs - xs ! d + (x :: int)"
  by (induction xs arbitrary: d) (auto split: nat.split)

lemma waiting_set_state [simp]:
  "waiting_ops (set_state d x r) = waiting_ops r - state_ops (state_at d r) + state_ops x"
  by (auto simp: waiting_ops_def set_state_def state_at_def map_update sum_list_update_int sum_list_replicate)

lemma set_state_simps [simp]:
  "timer_waits (set_state d x r) = timer_waits r" "queued_descriptors (set_state d x r) = queued_descriptors r"
  "timer_q (set_state d x r) = timer_q r" "os (set_state d x r) = os r" "rop_ec (set_state d x r) = rop_ec r"
  "rop_bytes (set_state d x r) = rop_bytes r" "rop_key (set_state d x r) = rop_key r"
  "timer_fd (set_state d x r) = timer_fd r" "live_list (set_state d x r) = live_list r"
  "free_list (set_state d x r) = free_list r" "socket_data (set_state d x r) = socket_data r"
  by (simp_all add: set_state_def)

lemma upd_state_simps [simp]:
  "timer_waits (upd_state d f r) = timer_waits r" "queued_descriptors (upd_state d f r) = queued_descriptors r"
  "timer_q (upd_state d f r) = timer_q r" "os (upd_state d f r) = os r" "rop_ec (upd_state d f r) = rop_ec r"
  "rop_bytes (upd_state d f r) = rop_bytes r" "rop_key (upd_state d f r) = rop_key r"
  "timer_fd (upd_state d f r) = timer_fd r" "live_list (upd_state d f r) = live_list r"
  "free_list (upd_state d f r) = free_list r" "socket_data (upd_state d f r) = socket_data r"
  by (simp_all add: upd_state_def)

lemma state_at_set [simp]: "state_at e (set_state d x r) = (if e = d then x else state_at e r)"
  by (auto simp: state_at_def set_state_def nth_append not_less less_Suc_eq le_less)

lemma state_at_upd [simp]: "state_at e (upd_state d f r) = (if e = d then f (state_at d r) else state_at e r)"
  by (simp add: upd_state_def)

lemma waiting_upd_state [simp]:
  "waiting_ops (upd_state d f r) = waiting_ops r - state_ops (state_at d r) + state_ops (f (state_at d r))"
  by (simp add: upd_state_def)

text \<open>Updates of a state that leave its queues alone.\<close>

lemma state_ops_fields [simp]:
  "state_ops (x\<lparr>descriptor := a\<rparr>) = state_ops x" "state_ops (x\<lparr>registered_events := b\<rparr>) = state_ops x"
  "state_ops (x\<lparr>try_speculative := c\<rparr>) = state_ops x" "state_ops (x\<lparr>ds_shutdown := e\<rparr>) = state_ops x"
  "state_ops (set_speculative j v x) = state_ops x"
  by (simp_all add: state_ops_def set_speculative_def)

lemma state_ops_set_queue:
  "state_ops (set_queue j q x) = state_ops x - int (length (op_queue_of x j)) + int (length q)"
  by (cases j) (simp_all add: state_ops_expand set_queue_def)

lemma descriptor_queue_fields [simp]:
  "op_queue_of (set_speculative j v x) = op_queue_of x"
  "op_queue_of (set_queue j q x) = (op_queue_of x)(j := q)"
  by (simp_all add: set_speculative_def set_queue_def)

lemma waits_fields [simp]:
  "waits_in_hand (r\<lparr>os := w\<rparr>) = waits_in_hand r" "waits_in_hand (r\<lparr>rop_ec := e\<rparr>) = waits_in_hand r"
  "waits_in_hand (r\<lparr>rop_bytes := b\<rparr>) = waits_in_hand r" "waits_in_hand (r\<lparr>timerfd_setting := t\<rparr>) = waits_in_hand r"
  "waits_in_hand (r\<lparr>interrupts_sent := n\<rparr>) = waits_in_hand r" "waits_in_hand (r\<lparr>socket_data := f\<rparr>) = waits_in_hand r"
  "waits_in_hand (r\<lparr>live_list := l\<rparr>) = waits_in_hand r" "waits_in_hand (r\<lparr>free_list := l\<rparr>) = waits_in_hand r"
  "waits_in_hand (r\<lparr>timer_q := q\<rparr>) = waits_in_hand r" "waits_in_hand (r\<lparr>reactor_shutdown := c\<rparr>) = waits_in_hand r"
  "waits_in_hand (r\<lparr>timer_waits := x\<rparr>) = waits_in_hand r - timer_waits r + x"
  "waits_in_hand (r\<lparr>queued_descriptors := y\<rparr>) = waits_in_hand r + queued_descriptors r - y"
  by (simp_all add: waits_in_hand_def waiting_ops_def)

lemma waits_upd_state [simp]:
  "waits_in_hand (upd_state d f r) = waits_in_hand r - state_ops (state_at d r) + state_ops (f (state_at d r))"
  by (simp add: waits_in_hand_def)

lemma state_at_fields [simp]:
  "state_at d (r\<lparr>os := w\<rparr>) = state_at d r" "state_at d (r\<lparr>rop_ec := e\<rparr>) = state_at d r"
  "state_at d (r\<lparr>rop_bytes := b\<rparr>) = state_at d r" "state_at d (r\<lparr>queued_descriptors := y\<rparr>) = state_at d r"
  "state_at d (set_rop_ec opn ec r) = state_at d r"
  by (simp_all add: state_at_def set_rop_ec_def)

lemma waits_ec [simp]: "waits_in_hand (set_rop_ec opn ec r) = waits_in_hand r"
  by (simp add: set_rop_ec_def)

lemma epoll_ctl_simps [simp]:
  "epoll_ctl E c fd ev ptr r = (err, r') \<Longrightarrow> waits_in_hand r' = waits_in_hand r"
  "epoll_ctl E c fd ev ptr r = (err, r') \<Longrightarrow> state_at d r' = state_at d r"
  "waits_in_hand (snd (epoll_ctl E c fd ev ptr r)) = waits_in_hand r"
  "state_at d (snd (epoll_ctl E c fd ev ptr r)) = state_at d r"
  by (auto simp: epoll_ctl_def case_prod_beta)

lemma perform_simps:
  assumes "perform E opn r = (st, r')"
  shows "waits_in_hand r' = waits_in_hand r" "state_at d r' = state_at d r"
  using assms by (auto simp: perform_def case_prod_beta state_at_def waits_in_hand_def waiting_ops_def)

lemma interrupt_waits [simp]: "waits_in_hand (interrupt E r) = waits_in_hand r"
  by (simp add: interrupt_def)

lemma update_timeout_waits [simp]: "waits_in_hand (update_timeout E r) = waits_in_hand r"
  by (simp add: update_timeout_def)

section \<open>Changing the reactor under the scheduler\<close>

lemma world_ok:
  assumes "sched_ok waits_in_hand k j l s" and "waits_in_hand r = waits_in_hand (world s) + n"
  shows "sched_ok waits_in_hand (k - n) j l (s\<lparr>world := r\<rparr>)"
  using assms by (simp add: sched_ok_def ledger_def hold_def)

lemma world_ok_same:
  "sched_ok waits_in_hand k j l s \<Longrightarrow> waits_in_hand r = waits_in_hand (world s) \<Longrightarrow> sched_ok waits_in_hand k j l (s\<lparr>world := r\<rparr>)"
  using world_ok [of k j l s r 0] by simp

lemma with_reactor_ok:
  "sched_ok waits_in_hand k j l s \<Longrightarrow> waits_in_hand (f (world s)) = waits_in_hand (world s) \<Longrightarrow>
   sched_ok waits_in_hand k j l (with_reactor f s)"
  unfolding with_reactor_def by (rule world_ok_same)

lemma with_reactor_simps [simp]:
  "world (with_reactor f s) = f (world s)" "stack (with_reactor f s) = stack s"
  by (simp_all add: with_reactor_def)

section \<open>Operations that keep the books\<close>

lemma stack_posts [simp]:
  "length (stack (post_immediate_completion opn c s)) = length (stack s)"
  "length (stack (post_deferred_completions ops s)) = length (stack s)"
  "length (stack (do_dispatch opn s)) = length (stack s)"
  "length (stack (compensating_work_started s)) = length (stack s)"
  "length (stack (work_started s)) = length (stack s)"
  "length (stack (push_private n es s)) = length (stack s)"
  by (simp_all add: post_immediate_completion_def post_deferred_completions_def do_dispatch_def
      compensating_work_started_def work_started_def push_private_def)

definition kept :: "('o, 'w) rsched \<Rightarrow> ('o, 'w) rsched \<Rightarrow> bool" where
  "kept s s' \<longleftrightarrow> length (stack s') = length (stack s)
     \<and> (\<forall>k j. sched_ok waits_in_hand k j False s \<longrightarrow> sched_ok waits_in_hand k j False s')"

lemma keptI:
  "length (stack s') = length (stack s) \<Longrightarrow>
   (\<And>k j. sched_ok waits_in_hand k j False s \<Longrightarrow> sched_ok waits_in_hand k j False s') \<Longrightarrow> kept s s'"
  by (simp add: kept_def)

lemma kept_refl [simp]: "kept s s"
  by (simp add: kept_def)

lemma kept_trans: "kept s s1 \<Longrightarrow> kept s1 s2 \<Longrightarrow> kept s s2"
  by (simp add: kept_def)

lemma kept_world: "waits_in_hand r = waits_in_hand (world s) \<Longrightarrow> kept s (s\<lparr>world := r\<rparr>)"
  by (rule keptI) (simp_all add: world_ok_same)

lemma kept_reactor: "waits_in_hand (f (world s)) = waits_in_hand (world s) \<Longrightarrow> kept s (with_reactor f s)"
  unfolding with_reactor_def by (rule kept_world)

lemma kept_post: "kept s (post_immediate_completion opn c s)"
  by (rule keptI) (simp_all add: post_immediate_completion_ok)

lemma kept_dispatch: "kept s (do_dispatch opn s)"
  by (rule keptI) (simp_all add: do_dispatch_ok)

lemma kept_stop: "kept s (stop s)"
  by (rule keptI) (simp_all add: stop_ok)

text \<open>Taking operations out of the reactor and posting them.\<close>

lemma kept_post_taken:
  assumes "waits_in_hand r = waits_in_hand (world s) - int (length ops)"
  shows "kept s (post_deferred_completions (map Operation ops) (s\<lparr>world := r\<rparr>))"
proof (rule keptI)
  fix k j assume "sched_ok waits_in_hand k j False s"
  from world_ok [OF this, of r "- int (length ops)"] assms
  have "sched_ok waits_in_hand (k + int (length ops)) j False (s\<lparr>world := r\<rparr>)" by simp
  from post_deferred_completions_ok [OF this, of "map Operation ops"]
  show "sched_ok waits_in_hand k j False (post_deferred_completions (map Operation ops) (s\<lparr>world := r\<rparr>))" by simp
qed simp

text \<open>Putting one operation in, with its unit of work.\<close>

lemma kept_work:
  assumes "waits_in_hand r = waits_in_hand (world s) + 1"
  shows "kept s (work_started (s\<lparr>world := r\<rparr>))"
proof (rule keptI)
  fix k j assume "sched_ok waits_in_hand k j False s"
  from work_started_ok [OF world_ok [OF this, of r 1]] assms
  show "sched_ok waits_in_hand k j False (work_started (s\<lparr>world := r\<rparr>))" by simp
qed simp

subsection \<open>Starting\<close>

lemma kept_fail: "kept s (fail_op opn ec c s)"
  unfolding fail_op_def by (rule kept_trans [OF kept_reactor kept_post]) simp

lemma kept_enqueue: "kept s (enqueue_op d i opn s)"
  unfolding enqueue_op_def with_reactor_def by (rule kept_work) (simp add: state_ops_set_queue)

lemma kept_start_waiting: "kept s (start_waiting E i fd d opn c s)"
proof -
  obtain err r where ctl: "epoll_ctl E CtlMod fd (registered_events (state_at d (world s)) OR EPOLLOUT)
      (DescriptorPtr d) (world s) = (err, r)" by (meson surj_pair)
  have r: "kept s (s\<lparr>world := r\<rparr>)" by (rule kept_world) (rule epoll_ctl_simps(1) [OF ctl])
  have "kept s (enqueue_op d i opn (with_reactor f (s\<lparr>world := r\<rparr>)))"
    if "\<And>r. waits_in_hand (f r) = waits_in_hand r" for f
    by (rule kept_trans [OF r kept_trans [OF kept_reactor kept_enqueue]]) (simp add: that)
  moreover have "kept s (fail_op opn ec c (s\<lparr>world := r\<rparr>))" for ec by (rule kept_trans [OF r kept_fail])
  ultimately show ?thesis unfolding start_waiting_def Let_def ctl prod.case
    by (simp only: kept_fail kept_enqueue waits_upd_state state_ops_fields split: if_split) simp
qed

lemma kept_start_op: "kept s (start_op E i fd dd opn c spec s)"
proof (cases dd)
  case (Some d)
  obtain st r where p: "perform E opn (world s) = (st, r)" by (meson surj_pair)
  have r: "kept s (s\<lparr>world := r\<rparr>)" by (rule kept_world) (rule perform_simps(1) [OF p])
  have spec: "kept s (post_immediate_completion (Operation opn) c
      (with_reactor (upd_state d (set_speculative i False)) (s\<lparr>world := r\<rparr>)))"
    by (rule kept_trans [OF r kept_trans [OF kept_reactor kept_post]]) simp
  have plain: "kept s (post_immediate_completion (Operation opn) c (s\<lparr>world := r\<rparr>))"
    by (rule kept_trans [OF r kept_post])
  have wait: "kept s (start_waiting E i fd d opn c (s\<lparr>world := r\<rparr>))"
    by (rule kept_trans [OF r kept_start_waiting])
  define r0 where "r0 = (if i = WriteOp
    then upd_state d (\<lambda>x. x\<lparr>registered_events := registered_events x OR EPOLLOUT\<rparr>) (world s) else world s)"
  obtain err r1 where ctl: "epoll_ctl E CtlMod fd (registered_events (state_at d r0)) (DescriptorPtr d) r0 = (err, r1)"
    by (meson surj_pair)
  have "waits_in_hand r1 = waits_in_hand (world s)" using epoll_ctl_simps(1) [OF ctl] by (simp add: r0_def)
  then have other: "kept s (enqueue_op d i opn (s\<lparr>world := r1\<rparr>))" by (rule kept_trans [OF kept_world kept_enqueue])
  show ?thesis unfolding start_op_def Some option.case Let_def p r0_def [symmetric] ctl prod.case
    by (simp only: spec plain wait other kept_fail kept_enqueue kept_post kept_start_waiting split: if_split) simp
qed (simp add: start_op_def kept_fail)

subsection \<open>Registering, cancelling\<close>

lemma allocate_waits:
  "allocate_descriptor_state r = (d, r') \<Longrightarrow> waits_in_hand r' = waits_in_hand r"
  by (auto simp: allocate_descriptor_state_def Let_def waits_in_hand_def waiting_ops_def split: list.splits)

lemma kept_register:
  assumes "register_descriptor E fd s = (err, dd, s')"
  shows "kept s s'"
proof -
  obtain d r where a: "allocate_descriptor_state (world s) = (d, r)" by (meson surj_pair)
  define r1 where "r1 = upd_state d (\<lambda>x. x\<lparr>descriptor := fd, ds_shutdown := False,
      try_speculative := (\<lambda>_. True), registered_events := registration_events\<rparr>) r"
  obtain e r2 where c: "epoll_ctl E CtlAdd fd registration_events (DescriptorPtr d) r1 = (e, r2)" by (meson surj_pair)
  have "waits_in_hand r2 = waits_in_hand (world s)"
    using allocate_waits [OF a] epoll_ctl_simps(1) [OF c] by (simp add: r1_def)
  then show ?thesis using assms
    by (auto simp: register_descriptor_def a r1_def [symmetric] c Let_def intro!: kept_world split: if_splits)
qed

lemma abort_queue_eq:
  "abort_queue q ops r = (ops @ q, r\<lparr>rop_ec := (\<lambda>x. if x \<in> set q then basic_ec operation_aborted else rop_ec r x)\<rparr>)"
  by (induction q arbitrary: ops r) (auto simp: set_rop_ec_def fun_eq_iff)

lemma abort_type_waits:
  assumes "abort_type d i (ops, r) = (ops', r')"
  shows "waits_in_hand r' = waits_in_hand r - (int (length ops') - int (length ops))"
  using assms by (auto simp: abort_type_def abort_queue_eq Let_def state_ops_set_queue)

lemma abort_all_waits:
  assumes "abort_all d r = (ops, r')"
  shows "waits_in_hand r' = waits_in_hand r - int (length ops)"
proof -
  have "waits_in_hand r' = waits_in_hand r0 - (int (length ops) - int (length ops0))"
    if "fold (abort_type d) is (ops0, r0) = (ops, r')" for "is" ops0 r0
    using that
  proof (induction "is" arbitrary: ops0 r0)
    case (Cons i "is")
    obtain o1 r1 where s: "abort_type d i (ops0, r0) = (o1, r1)" by (meson surj_pair)
    show ?case using Cons.IH [of o1 r1] Cons.prems abort_type_waits [OF s] by (simp add: s)
  qed simp
  from this [of op_types "[]" r] assms show ?thesis by (simp add: abort_all_def)
qed

lemma kept_cancel_ops: "kept s (reactor_cancel_ops dd s)"
proof (cases dd)
  case (Some d)
  obtain ops r where a: "abort_all d (world s) = (ops, r)" by (meson surj_pair)
  show ?thesis using kept_post_taken [OF abort_all_waits [OF a]] by (simp add: reactor_cancel_ops_def Some a)
qed (simp add: reactor_cancel_ops_def)

lemma split_by_key_eq:
  "split_by_key key_of key q ops other_ops r =
     (ops @ filter (\<lambda>x. key_of x = key) q, other_ops @ filter (\<lambda>x. key_of x \<noteq> key) q,
      r\<lparr>rop_ec := (\<lambda>x. if x \<in> set q \<and> key_of x = key then basic_ec operation_aborted else rop_ec r x)\<rparr>)"
  by (induction q arbitrary: ops other_ops r) (auto simp: set_rop_ec_def fun_eq_iff)

lemma kept_cancel_by_key: "kept s (cancel_ops_by_key dd i key s)"
proof (cases dd)
  case (Some d)
  let ?q = "op_queue_of (state_at d (world s)) i" let ?key = "rop_key (world s)"
  have len: "length (filter (\<lambda>x. ?key x = key) ?q) + length (filter (\<lambda>x. ?key x \<noteq> key) ?q) = length ?q"
    by (rule sum_length_filter_compl)
  show ?thesis
    unfolding cancel_ops_by_key_def Some option.case Let_def split_by_key_eq prod.case append_Nil
    by (rule kept_post_taken) (use len in \<open>simp add: state_ops_set_queue\<close>)
qed (simp add: cancel_ops_by_key_def)

lemma kept_deregister:
  assumes "deregister_descriptor E fd dd closing s = (dd', s')"
  shows "kept s s'"
proof (cases dd)
  case (Some d)
  define r0 where "r0 = (if \<not> closing \<and> registered_events (state_at d (world s)) \<noteq> 0
    then snd (epoll_ctl E CtlDel fd 0 (DescriptorPtr d) (world s)) else world s)"
  have r0: "waits_in_hand r0 = waits_in_hand (world s)" by (simp add: r0_def)
  obtain ops r where a: "abort_all d r0 = (ops, r)" by (meson surj_pair)
  have "kept s (post_deferred_completions (map Operation ops)
      (s\<lparr>world := upd_state d (\<lambda>x. x\<lparr>descriptor := - 1, ds_shutdown := True\<rparr>) r\<rparr>))"
    by (rule kept_post_taken) (simp add: abort_all_waits [OF a] r0)
  then show ?thesis using assms
    by (auto simp: deregister_descriptor_def Some r0_def [symmetric] a Let_def split: if_splits)
qed (use assms in \<open>simp add: deregister_descriptor_def\<close>)

lemma kept_cleanup: "cleanup_descriptor_data dd s = (dd', s') \<Longrightarrow> kept s s'"
  by (auto simp: cleanup_descriptor_data_def free_descriptor_state_def intro!: kept_reactor split: option.splits)

lemma kept_set_socket: "kept s (set_socket k dd s)"
  unfolding set_socket_def by (rule kept_reactor) simp

subsection \<open>Timers\<close>

lemma kept_schedule_timer: "kept s (schedule_timer E time timer opn s)"
proof -
  obtain e q where q: "enqueue_timer (\<lambda>_. False) time timer opn (timer_q (world s)) = (e, q)" by (meson surj_pair)
  have w: "kept s (work_started (with_reactor (\<lambda>r. r\<lparr>timer_q := q, timer_waits := timer_waits r + 1\<rparr>) s))"
    unfolding with_reactor_def by (rule kept_work) simp
  show ?thesis unfolding schedule_timer_def Let_def q prod.case
    using w kept_trans [OF w kept_reactor [of "update_timeout E"]] by (simp add: kept_post)
qed

lemma taken_waits [simp]: "waits_in_hand (taken ops q r) = waits_in_hand r - int (length ops)"
  by (simp add: taken_def)

lemma kept_cancel_timer: "kept s (snd (reactor_cancel_timer timer n s))"
proof -
  obtain m ops q where c: "cancel_timer timer [] n (timer_q (world s)) = (m, ops, q)" by (metis prod_cases3)
  have "kept s (post_deferred_completions (map Operation ops) (with_reactor (taken ops q) s))"
    unfolding with_reactor_def by (rule kept_post_taken) simp
  then show ?thesis by (simp add: reactor_cancel_timer_def c)
qed

lemma kept_cancel_timer_by_key: "kept s (reactor_cancel_timer_by_key timer key s)"
proof -
  obtain ops q where c: "cancel_timer_by_key (rop_key (world s)) timer [] key (timer_q (world s)) = (ops, q)"
    by (meson surj_pair)
  have "kept s (post_deferred_completions (map Operation ops) (with_reactor (taken ops q) s))"
    unfolding with_reactor_def by (rule kept_post_taken) simp
  then show ?thesis by (simp add: reactor_cancel_timer_by_key_def c)
qed

lemma kept_move_timer: "kept s (reactor_move_timer target src s)"
proof -
  obtain m ops q where c: "cancel_timer target [] (2 ^ 64 - 1) (timer_q (world s)) = (m, ops, q)" by (metis prod_cases3)
  have "kept s (post_deferred_completions (map Operation ops)
      (with_reactor (taken ops (TimerQueue.move_timer target src q)) s))"
    unfolding with_reactor_def by (rule kept_post_taken) simp
  then show ?thesis unfolding reactor_move_timer_def c Let_def by simp
qed

subsection \<open>Handlers\<close>

lemma kept_run_call: "kept s (run_call E c s)"
proof (cases c)
  case (Register k fd)
  obtain err dd s1 where r: "register_descriptor E fd s = (err, dd, s1)" by (metis prod_cases3)
  show ?thesis using kept_trans [OF kept_register [OF r] kept_set_socket] by (simp add: Register r)
next
  case (Deregister k fd closing)
  obtain dd s1 where r: "deregister_descriptor E fd (socket_data (world s) k) closing s = (dd, s1)" by (meson surj_pair)
  show ?thesis using kept_trans [OF kept_deregister [OF r] kept_set_socket] by (simp add: Deregister r)
next
  case (Cleanup k)
  obtain dd s1 where r: "cleanup_descriptor_data (socket_data (world s) k) s = (dd, s1)" by (meson surj_pair)
  show ?thesis using kept_trans [OF kept_cleanup [OF r] kept_set_socket] by (simp add: Cleanup r)
next
  case (Move k l)
  then show ?thesis using kept_trans [OF kept_set_socket kept_set_socket] by (simp add: move_descriptor_def)
qed (simp_all add: kept_start_op kept_cancel_ops kept_cancel_by_key kept_schedule_timer kept_cancel_timer
    kept_cancel_timer_by_key kept_move_timer kept_post kept_dispatch kept_stop kept_reactor)

lemma kept_run_calls: "kept s (fold (run_call E) calls s)"
  by (induction calls arbitrary: s) (auto intro: kept_trans kept_run_call)

lemma kept_run_handler: "run_handler E script opn s = (threw, s') \<Longrightarrow> kept s s'"
  by (auto simp: run_handler_def kept_run_calls split: prod.splits)

section \<open>Performing\<close>

lemma perform_queue_facts:
  assumes "perform_queue E q r = (completed, rest, exhausted, r')"
  shows "q = completed @ rest" "waits_in_hand r' = waits_in_hand r" "state_at e r' = state_at e r"
    "exhausted \<Longrightarrow> completed \<noteq> []"
proof -
  have "q = completed @ rest \<and> waits_in_hand r' = waits_in_hand r \<and> state_at e r' = state_at e r
      \<and> (exhausted \<longrightarrow> completed \<noteq> [])"
    using assms
  proof (induction q arbitrary: r completed rest exhausted r')
    case (Cons opn q)
    obtain st r1 where p: "perform E opn r = (st, r1)" by (meson surj_pair)
    obtain cs rs ex r2 where q: "perform_queue E q r1 = (cs, rs, ex, r2)" by (metis prod_cases4)
    have res: "(completed, rest, exhausted, r') = (if st = NotDone then ([], opn # q, False, r1)
        else if st = DoneAndExhausted then ([opn], q, True, r1) else (opn # cs, rs, ex, r2))"
      using Cons.prems by (simp add: p q split: if_splits)
    show ?case using res Cons.IH [OF q] perform_simps [OF p] by (cases st) auto
  qed simp
  then show "q = completed @ rest" "waits_in_hand r' = waits_in_hand r" "state_at e r' = state_at e r"
    "exhausted \<Longrightarrow> completed \<noteq> []" by blast+
qed

lemma perform_type_waits:
  assumes "perform_type E d events j (ops, r) = (ops', r')"
  shows "waits_in_hand r' = waits_in_hand r - (int (length ops') - int (length ops))"
proof (cases "events AND (op_flag j OR EPOLLERR OR EPOLLHUP) = 0")
  case False
  let ?r1 = "upd_state d (set_speculative j True) r"
  obtain cs rest ex r2 where q: "perform_queue E (op_queue_of (state_at d r) j) ?r1 = (cs, rest, ex, r2)"
    by (metis prod_cases4)
  note f = perform_queue_facts [OF q]
  have len: "length (op_queue_of (state_at d r) j) = length cs + length rest" using f(1) by simp
  have r': "ops' = ops @ cs" "r' = (if ex then upd_state d (set_speculative j False) (upd_state d (set_queue j rest) r2)
      else upd_state d (set_queue j rest) r2)"
    using assms False by (simp_all add: perform_type_def q Let_def)
  show ?thesis using f(2,3) len by (simp add: r' state_ops_set_queue)
qed (use assms in \<open>simp add: perform_type_def\<close>)

lemma perform_types_waits:
  assumes "perform_types E d events r = (ops, r')"
  shows "waits_in_hand r' = waits_in_hand r - int (length ops)"
proof -
  have "waits_in_hand r' = waits_in_hand r0 - (int (length ops) - int (length ops0))"
    if "fold (perform_type E d events) js (ops0, r0) = (ops, r')" for js ops0 r0
    using that
  proof (induction js arbitrary: ops0 r0)
    case (Cons j js)
    obtain o1 r1 where s: "perform_type E d events j (ops0, r0) = (o1, r1)" by (meson surj_pair)
    show ?case using Cons.IH [of o1 r1] Cons.prems perform_type_waits [OF s] by (simp add: s)
  qed simp
  from this [of "rev op_types" "[]" r] assms show ?thesis by (simp add: perform_types_def)
qed

text \<open>With the descriptor operation off the books (\<open>k\<close> counts it no more), the operation that is returned
  takes its place.\<close>

lemma perform_io_ok:
  assumes ok: "sched_ok waits_in_hand k j False s" and st: "stack s \<noteq> []"
    and p: "perform_io E d events s = (first_op, s')"
  shows "sched_ok waits_in_hand (k + 1) j False s' \<and> length (stack s') = length (stack s)"
proof -
  obtain ops r where t: "perform_types E d events (world s) = (ops, r)" by (meson surj_pair)
  have "sched_ok waits_in_hand (k - (- int (length ops))) j False (s\<lparr>world := r\<rparr>)"
    using world_ok [OF ok, of r "- int (length ops)"] perform_types_waits [OF t] by simp
  then have w: "sched_ok waits_in_hand (k + int (length ops)) j False (s\<lparr>world := r\<rparr>)" by simp
  show ?thesis
  proof (cases ops)
    case Nil
    then show ?thesis using p compensating_ok [of waits_in_hand k j False "s\<lparr>world := r\<rparr>"] w st
      by (auto simp: perform_io_def t perform_io_cleanup_def can_dispatch_def)
  next
    case (Cons x rest)
    have "sched_ok waits_in_hand (k + int (length ops) - int (length (map Operation rest))) j False
        (post_deferred_completions (map Operation rest) (s\<lparr>world := r\<rparr>))"
      by (rule post_deferred_completions_ok [OF w])
    then have "sched_ok waits_in_hand (k + 1) j False (post_deferred_completions (map Operation rest) (s\<lparr>world := r\<rparr>))"
      by (simp add: Cons)
    moreover have "s' = post_deferred_completions (map Operation rest) (s\<lparr>world := r\<rparr>)"
      using p by (auto simp: perform_io_def t Cons perform_io_cleanup_def post_deferred_completions_def)
    ultimately show ?thesis by simp
  qed
qed

lemma reactor_complete_ok:
  assumes handler: "\<And>opn s threw s'. handler opn s = (threw, s') \<Longrightarrow> kept s s'"
    and ok: "sched_ok waits_in_hand (k + 1) j False s" and st: "stack s \<noteq> []"
    and c: "reactor_complete E handler opn n s = (threw, s')"
  shows "sched_ok waits_in_hand (k + 1) j False s' \<and> length (stack s') = length (stack s)"
proof (cases opn)
  case (Operation x)
  then show ?thesis using handler [of x s threw s'] c ok by (simp add: reactor_complete_def kept_def)
next
  case (Descriptor d)
  define s1 where "s1 = with_reactor (\<lambda>r. r\<lparr>queued_descriptors := queued_descriptors r - 1\<rparr>) s"
  obtain first s2 where p: "perform_io E d (word_of_nat n) s1 = (first, s2)" by (meson surj_pair)
  have "sched_ok waits_in_hand k j False s1"
    using world_ok [OF ok, of "(world s)\<lparr>queued_descriptors := queued_descriptors (world s) - 1\<rparr>" 1]
    by (simp add: s1_def with_reactor_def)
  from perform_io_ok [OF this _ p] st
  have s2: "sched_ok waits_in_hand (k + 1) j False s2" "length (stack s2) = length (stack s)"
    by (simp_all add: s1_def)
  have "(case first of Some x \<Rightarrow> handler x s2 | None \<Rightarrow> (False, s2)) = (threw, s')"
    using c p by (simp add: reactor_complete_def Descriptor s1_def)
  then show ?thesis using s2 handler [of _ s2 threw s'] by (cases first) (auto simp: kept_def)
qed

section \<open>The task\<close>

lemma push_private_map_ok:
  assumes "sched_ok waits_in_hand k j l s" "stack s \<noteq> []"
  shows "sched_ok waits_in_hand (k - int (length ops)) j l (push_private 0 (map Op ops) s)"
  using push_private_ok [OF assms(1), of 0 ops] assms(2) by (simp add: can_dispatch_def)

lemma dispatch_event_ok:
  assumes ok: "sched_ok waits_in_hand k j False s" and st: "stack s \<noteq> []"
    and d: "dispatch_event pe (b, s) = (b', s')"
  shows "sched_ok waits_in_hand k j False s' \<and> length (stack s') = length (stack s)"
proof (cases pe)
  case (Pair p ev)
  show ?thesis
  proof (cases p)
    case (DescriptorPtr e)
    have set: "sched_ok waits_in_hand k j False (set_ready_events e ev s)"
      "sched_ok waits_in_hand k j False (add_ready_events e ev s)"
      using ok by (simp_all add: sched_ok_def ledger_def hold_def set_ready_events_def add_ready_events_def)
    have stk: "stack (set_ready_events e ev s) \<noteq> []" using st by (simp add: set_ready_events_def)
    have pp: "sched_ok waits_in_hand (k - 1) j False (push_private 0 [Op (Descriptor e)] (set_ready_events e ev s))"
      using push_private_map_ok [OF set(1) stk, of "[Descriptor e]"] by simp
    define u where "u = push_private 0 [Op (Descriptor e)] (set_ready_events e ev s)"
    have "sched_ok waits_in_hand (k - 1 - - 1) j False (u\<lparr>world := (world u)\<lparr>queued_descriptors := queued_descriptors (world u) + 1\<rparr>\<rparr>)"
      using pp unfolding u_def [symmetric] by (rule world_ok) simp
    then have "sched_ok waits_in_hand k j False (with_reactor (\<lambda>r. r\<lparr>queued_descriptors := queued_descriptors r + 1\<rparr>) u)"
      by (simp add: with_reactor_def)
    then show ?thesis using d set(2) unfolding Pair DescriptorPtr u_def
      by (auto simp: add_ready_events_def set_ready_events_def split: if_splits)
  qed (use d ok in \<open>simp_all add: Pair\<close>)
qed

lemma dispatch_events_ok:
  "sched_ok waits_in_hand k j False s \<Longrightarrow> stack s \<noteq> [] \<Longrightarrow> fold dispatch_event es (b, s) = (b', s') \<Longrightarrow>
   sched_ok waits_in_hand k j False s' \<and> length (stack s') = length (stack s)"
proof (induction es arbitrary: b s)
  case (Cons pe es)
  obtain b1 s1 where d: "dispatch_event pe (b, s) = (b1, s1)" by (meson surj_pair)
  note one = dispatch_event_ok [OF Cons.prems(1,2) d]
  have "stack s1 \<noteq> []" using one Cons.prems(2) by (metis length_0_conv)
  then show ?case using Cons.IH [of s1 b1] Cons.prems(3) one by (simp add: d)
qed simp

lemma check_timer_queue_ok:
  assumes ok: "sched_ok waits_in_hand k j False s" and st: "stack s \<noteq> []"
  shows "sched_ok waits_in_hand k j False (check_timer_queue E s)
    \<and> length (stack (check_timer_queue E s)) = length (stack s)"
proof (cases "get_ready_timers (os_now E (os (world s))) [] (timer_q (world s))")
  case (Some r)
  obtain ops q where r: "r = (ops, q)" by (cases r) auto
  define u where "u = push_private 0 (map Op (map Operation ops)) (with_reactor (taken ops q) s)"
  have "sched_ok waits_in_hand (k - - int (length ops)) j False (with_reactor (taken ops q) s)"
    unfolding with_reactor_def by (rule world_ok [OF ok]) simp
  then have a: "sched_ok waits_in_hand (k + int (length ops)) j False (with_reactor (taken ops q) s)" by simp
  have "sched_ok waits_in_hand (k + int (length ops) - int (length (map Operation ops))) j False u"
    unfolding u_def by (rule push_private_map_ok [OF a]) (use st in simp)
  then have u: "sched_ok waits_in_hand k j False u" by simp
  have len: "length (stack u) = length (stack s)" by (simp add: u_def)
  have "sched_ok waits_in_hand k j False (with_reactor (\<lambda>r. r\<lparr>timerfd_setting := get_timeout_timerfd E r\<rparr>) u)"
    by (rule with_reactor_ok [OF u]) simp
  moreover have "map (\<lambda>opn. Op (Operation opn)) ops = map Op (map Operation ops)" by simp
  ultimately show ?thesis using u len
    unfolding check_timer_queue_def Some r option.case prod.case Let_def u_def [symmetric]
    by (simp only: u_def [symmetric] with_reactor_simps split: if_split) simp
qed (simp add: check_timer_queue_def ok)

lemma reactor_run_ok:
  assumes ok: "sched_ok waits_in_hand k j False s" and st: "stack s \<noteq> []"
  shows "sched_ok waits_in_hand k j False (reactor_run E usec s) \<and> length (stack (reactor_run E usec s)) = length (stack s)"
proof -
  obtain events w where e: "os_epoll_wait E (run_timeout E usec (world s)) (os (world s)) = (events, w)"
    by (meson surj_pair)
  define s1 where "s1 = with_reactor (\<lambda>r. r\<lparr>os := w\<rparr>) s"
  have s1: "sched_ok waits_in_hand k j False s1" "stack s1 \<noteq> []" "stack s1 = stack s"
    using with_reactor_ok [OF ok, of "\<lambda>r. r\<lparr>os := w\<rparr>"] st by (simp_all add: s1_def)
  obtain b s2 where f: "fold dispatch_event (take 128 events) (timer_fd (world s1) = - 1, s1) = (b, s2)"
    by (meson surj_pair)
  note d = dispatch_events_ok [OF s1(1,2) f]
  have "stack s2 \<noteq> []" using d s1(2) by (metis length_0_conv)
  then show ?thesis using check_timer_queue_ok [of k j s2 E] d s1(3)
    unfolding reactor_run_def e prod.case Let_def s1_def [symmetric] f by simp
qed

text \<open>The reactor with any handlers keeps the scheduler's contract.\<close>

interpretation reactor: scheduler_client "reactor_env E script" waits_in_hand
proof unfold_locales
  fix k j and s :: "('a, 'b) rsched" and opn r threw s'
  assume "sched_ok waits_in_hand (k + 1) j False s" "stack s \<noteq> []"
    "env_complete (reactor_env E script) opn r s = (threw, s')"
  then show "sched_ok waits_in_hand (k + 1) j False s' \<and> length (stack s') = length (stack s)"
    using reactor_complete_ok [where handler = "run_handler E script", OF kept_run_handler]
    by (simp add: reactor_env_def)
next
  fix k and s :: "('a, 'b) rsched" and usec threw s'
  assume "sched_ok waits_in_hand k 1 False s" "stack s \<noteq> []"
    "env_run_task (reactor_env E script) usec s = (threw, s')"
  then show "sched_ok waits_in_hand k 1 False s' \<and> length (stack s') = length (stack s)"
    using reactor_run_ok [of k 1 s E usec] by (auto simp: reactor_env_def)
qed (simp_all add: reactor_env_def)

end
