(* ===== verification/EpollSpec.thy ===== *)
theory EpollSpec
  imports EpollInv
begin

text \<open>
  Properties of the reactor: what starting an operation comes to, the order in which ready operations are
  performed, what deregistering a socket does to its operations, and how long the reactor waits.
\<close>

section \<open>Starting an operation\<close>

text \<open>The operations waiting on every descriptor, by type.\<close>

definition queues :: "('o, 'w) reactor \<Rightarrow> nat \<Rightarrow> op_type \<Rightarrow> 'o list" where
  "queues r d i = op_queue_of (state_at d r) i"

text \<open>The two outcomes: completion through the scheduler's queue, or waiting in the reactor.\<close>

definition posted :: "'o \<Rightarrow> bool \<Rightarrow> ('o, 'w) rsched \<Rightarrow> ('o, 'w) rsched \<Rightarrow> bool" where
  "posted opn c s s' \<longleftrightarrow> (\<exists>r. s' = post_immediate_completion (Operation opn) c (s\<lparr>world := r\<rparr>)
     \<and> queues r = queues (world s))"

definition waits :: "nat \<Rightarrow> op_type \<Rightarrow> 'o \<Rightarrow> ('o, 'w) rsched \<Rightarrow> ('o, 'w) rsched \<Rightarrow> bool" where
  "waits d i opn s s' \<longleftrightarrow> (\<exists>r. s' = work_started (s\<lparr>world := r\<rparr>)
     \<and> queues r = (queues (world s))(d := (queues (world s) d)(i := queues (world s) d i @ [opn])))"

lemma queues_upd [simp]:
  "queues (upd_state d f r) = (queues r)(d := op_queue_of (f (state_at d r)))"
  by (auto simp: queues_def fun_eq_iff)

lemma queues_same [simp]:
  "(\<And>x. op_queue_of (f x) = op_queue_of x) \<Longrightarrow> queues (upd_state d f r) = queues r"
  by (auto simp: queues_def fun_eq_iff)

lemma queues_refl [simp]: "(queues r)(d := op_queue_of (state_at d r)) = queues r"
  by (auto simp: queues_def fun_eq_iff)

lemma queues_fields [simp]:
  "queues (set_rop_ec opn ec r) = queues r" "queues (r\<lparr>os := w\<rparr>) = queues r"
  by (auto simp: queues_def fun_eq_iff)

lemma queues_ctl: "epoll_ctl E c fd ev ptr r = (err, r') \<Longrightarrow> queues r' = queues r"
  by (auto simp: queues_def fun_eq_iff)

lemma queues_perform: "perform E opn r = (st, r') \<Longrightarrow> queues r' = queues r"
  by (auto simp: queues_def fun_eq_iff perform_simps)

lemma sched_world_same: "s\<lparr>world := world s\<rparr> = s"
  by simp

lemma posted_fail: "queues r = queues (world s) \<Longrightarrow> posted opn c s (fail_op opn ec c (s\<lparr>world := r\<rparr>))"
  unfolding posted_def by (intro exI [of _ "set_rop_ec opn ec r"]) (simp add: fail_op_def with_reactor_def)

lemma posted_post:
  "queues r = queues (world s) \<Longrightarrow> posted opn c s (post_immediate_completion (Operation opn) c (s\<lparr>world := r\<rparr>))"
  unfolding posted_def by blast

lemma waits_enqueue:
  assumes "queues r = queues (world s)"
  shows "waits d i opn s (enqueue_op d i opn (s\<lparr>world := r\<rparr>))"
proof -
  let ?r = "upd_state d (\<lambda>x. set_queue i (op_queue_of x i @ [opn]) x) r"
  have "queues ?r = (queues (world s))(d := (queues (world s) d)(i := queues (world s) d i @ [opn]))"
    unfolding assms [symmetric] by (simp add: queues_def fun_eq_iff)
  then show ?thesis unfolding waits_def enqueue_op_def with_reactor_def by (intro exI [of _ ?r]) simp
qed

lemmas posted_fail_same = posted_fail [OF refl, unfolded sched_world_same]
lemmas waits_enqueue_same = waits_enqueue [OF refl, unfolded sched_world_same]
lemmas posted_post_same = posted_post [OF refl, unfolded sched_world_same]

lemma start_waiting_outcome:
  assumes "queues r = queues (world s)"
  shows "posted opn c s (start_waiting E i fd d opn c (s\<lparr>world := r\<rparr>))
    \<or> waits d i opn s (start_waiting E i fd d opn c (s\<lparr>world := r\<rparr>)) \<and> registered_events (state_at d r) \<noteq> 0"
proof -
  let ?ev = "registered_events (state_at d r)"
  obtain err r1 where ctl: "epoll_ctl E CtlMod fd (?ev OR EPOLLOUT) (DescriptorPtr d) r = (err, r1)"
    by (meson surj_pair)
  have q1: "queues r1 = queues (world s)" using queues_ctl [OF ctl] assms by simp
  consider "?ev = 0" | "?ev \<noteq> 0" "i = WriteOp \<and> ?ev AND EPOLLOUT = 0" "err = 0"
    | "?ev \<noteq> 0" "i = WriteOp \<and> ?ev AND EPOLLOUT = 0" "err \<noteq> 0"
    | "?ev \<noteq> 0" "\<not> (i = WriteOp \<and> ?ev AND EPOLLOUT = 0)" by blast
  then show ?thesis
  proof cases
    case 1
    then show ?thesis using posted_fail [OF assms] by (simp add: start_waiting_def)
  next
    case 2
    let ?r2 = "upd_state d (\<lambda>x. x\<lparr>registered_events := registered_events x OR (?ev OR EPOLLOUT)\<rparr>) r1"
    have "queues ?r2 = queues (world s)" unfolding q1 [symmetric] by simp
    from waits_enqueue [OF this, of d i opn] show ?thesis
      using 2 by (simp add: start_waiting_def ctl with_reactor_def)
  next
    case 3
    then show ?thesis using posted_fail [OF q1] by (simp add: start_waiting_def ctl)
  next
    case 4
    then show ?thesis using waits_enqueue [OF assms, of d i opn] by (auto simp: start_waiting_def Let_def)
  qed
qed

text \<open>An operation that is tried at once, and one that is not.\<close>

lemma start_op_tried:
  assumes x: "\<not> ds_shutdown (state_at d (world s))" "op_queue_of (state_at d (world s)) i = []"
    and attempt: "spec \<and> (i \<noteq> ReadOp \<or> op_queue_of (state_at d (world s)) ExceptOp = [])"
  shows "posted opn c s (start_op E i fd (Some d) opn c spec s)
    \<or> waits d i opn s (start_op E i fd (Some d) opn c spec s) \<and> registered_events (state_at d (world s)) \<noteq> 0"
proof (cases "try_speculative (state_at d (world s)) i")
  case False
  then have eq: "start_op E i fd (Some d) opn c spec s = start_waiting E i fd d opn c s"
    using x attempt unfolding start_op_def option.case Let_def by (simp only: if_True if_False simp_thms)
  show ?thesis using start_waiting_outcome [OF refl, of opn c s E i fd d] by (simp add: eq)
next
  case spec: True
  obtain st r where p: "perform E opn (world s) = (st, r)" by (meson surj_pair)
  have q: "queues r = queues (world s)" by (rule queues_perform [OF p])
  have ev: "registered_events (state_at d r) = registered_events (state_at d (world s))" using perform_simps(2) [OF p] by simp
  show ?thesis
  proof (cases "st = NotDone")
    case True
    then have eq: "start_op E i fd (Some d) opn c spec s = start_waiting E i fd d opn c (s\<lparr>world := r\<rparr>)"
      using x attempt spec unfolding start_op_def option.case Let_def by (simp only: if_True if_False simp_thms p prod.case)
    show ?thesis using start_waiting_outcome [OF q, of opn c E i fd d] ev by (simp add: eq)
  next
    case False
    let ?r = "if st = DoneAndExhausted \<and> registered_events (state_at d (world s)) \<noteq> 0
      then upd_state d (set_speculative i False) r else r"
    have "start_op E i fd (Some d) opn c spec s = post_immediate_completion (Operation opn) c (s\<lparr>world := ?r\<rparr>)"
      using x attempt spec False unfolding start_op_def option.case Let_def
      by (simp only: if_True if_False simp_thms p prod.case) (simp add: with_reactor_def)
    moreover have "queues ?r = queues (world s)" unfolding q [symmetric] by simp
    ultimately show ?thesis using posted_post by metis
  qed
qed

lemma start_op_untried:
  assumes x: "\<not> ds_shutdown (state_at d (world s))" "op_queue_of (state_at d (world s)) i = []"
    and attempt: "\<not> (spec \<and> (i \<noteq> ReadOp \<or> op_queue_of (state_at d (world s)) ExceptOp = []))"
  shows "if registered_events (state_at d (world s)) = 0 then posted opn c s (start_op E i fd (Some d) opn c spec s)
    else waits d i opn s (start_op E i fd (Some d) opn c spec s)"
proof (cases "registered_events (state_at d (world s)) = 0")
  case True
  then have "start_op E i fd (Some d) opn c spec s = fail_op opn (basic_ec operation_not_supported) c s"
    using x attempt unfolding start_op_def option.case Let_def by (simp only: if_True if_False simp_thms)
  then show ?thesis using True by (simp add: posted_fail_same)
next
  case False
  define r0 where "r0 = (if i = WriteOp
    then upd_state d (\<lambda>x. x\<lparr>registered_events := registered_events x OR EPOLLOUT\<rparr>) (world s) else world s)"
  obtain err r1 where ctl: "epoll_ctl E CtlMod fd (registered_events (state_at d r0)) (DescriptorPtr d) r0 = (err, r1)"
    by (meson surj_pair)
  have "queues r1 = queues (world s)" using queues_ctl [OF ctl] by (simp add: r0_def)
  from waits_enqueue [OF this, of d i opn] have "waits d i opn s (start_op E i fd (Some d) opn c spec s)"
    using x attempt False unfolding start_op_def option.case Let_def
    by (simp only: if_True if_False simp_thms r0_def [symmetric] ctl prod.case)
  then show ?thesis using False by simp
qed

text \<open>C14: Starting an operation on a descriptor has exactly two outcomes: it is given to the scheduler once and
  no queue changes, or it joins the end of the queue of its type and counts as work, everything else staying
  where it is. It waits behind operations of its type that are there already (none overtakes another); without
  a descriptor it fails with \<open>bad_descriptor\<close>; on a descriptor that is shut down it completes without being
  tried; on one that epoll refused it never waits unless others do; and a read is not tried while an exceptional
  operation is waiting.\<close>

theorem start_op_outcome:
  "(case dd of
      None \<Rightarrow> start_op E i fd dd opn c spec s = fail_op opn (basic_ec bad_descriptor) c s
    | Some d \<Rightarrow>
        (posted opn c s (start_op E i fd dd opn c spec s) \<or> waits d i opn s (start_op E i fd dd opn c spec s))
        \<and> (ds_shutdown (state_at d (world s)) \<longrightarrow>
             start_op E i fd dd opn c spec s = post_immediate_completion (Operation opn) c s)
        \<and> (\<not> ds_shutdown (state_at d (world s)) \<and> queues (world s) d i \<noteq> [] \<longrightarrow>
             waits d i opn s (start_op E i fd dd opn c spec s))
        \<and> (queues (world s) d i = [] \<and> registered_events (state_at d (world s)) = 0 \<longrightarrow>
             posted opn c s (start_op E i fd dd opn c spec s))
        \<and> (\<not> ds_shutdown (state_at d (world s)) \<and> i = ReadOp \<and> queues (world s) d ExceptOp \<noteq> []
             \<and> registered_events (state_at d (world s)) \<noteq> 0 \<longrightarrow>
             waits d i opn s (start_op E i fd dd opn c spec s)))"
proof (cases dd)
  case (Some d)
  let ?x = "state_at d (world s)" let ?s' = "start_op E i fd dd opn c spec s"
  let ?attempt = "spec \<and> (i \<noteq> ReadOp \<or> op_queue_of ?x ExceptOp = [])"
  consider (shut) "ds_shutdown ?x" | (behind) "\<not> ds_shutdown ?x" "op_queue_of ?x i \<noteq> []"
    | (tried) "\<not> ds_shutdown ?x" "op_queue_of ?x i = []" ?attempt
    | (untried) "\<not> ds_shutdown ?x" "op_queue_of ?x i = []" "\<not> ?attempt" by blast
  then show ?thesis
  proof cases
    case shut
    then have "?s' = post_immediate_completion (Operation opn) c s" by (simp add: start_op_def Some)
    then show ?thesis using shut by (simp add: Some posted_post_same)
  next
    case behind
    then have "?s' = enqueue_op d i opn s" by (simp add: start_op_def Some Let_def)
    then show ?thesis using behind waits_enqueue_same [of d i opn s] by (auto simp: Some queues_def)
  next
    case untried
    then show ?thesis using start_op_untried [OF untried, of opn c E fd] by (auto simp: Some queues_def split: if_splits)
  next
    case tried
    have "\<not> (i = ReadOp \<and> queues (world s) d ExceptOp \<noteq> [])" using tried(3) by (auto simp: queues_def)
    then show ?thesis using tried(1,2) start_op_tried [OF tried, of opn c E fd] by (auto simp: Some queues_def)
  qed
qed (simp add: start_op_def)

text \<open>An operating system whose sockets are never ready.\<close>

definition idle_os :: "(nat, unit) os_env" where
  "idle_os = \<lparr>os_perform = (\<lambda>_ w. (NotDone, ec_success, 0, w)), os_epoll_ctl = (\<lambda>_ _ _ _ w. (0, w)),
     os_epoll_wait = (\<lambda>_ w. ([], w)), os_now = (\<lambda>_. 0), os_interrupter = 3\<rparr>"

definition one_descriptor :: "(op_type \<Rightarrow> nat list) \<Rightarrow> (nat, unit) reactor" where
  "one_descriptor qs = (new_reactor 4 (\<lambda>_. 0) ())\<lparr>
     states := [\<lparr>descriptor = 5, registered_events = registration_events, op_queue_of = qs,
       try_speculative = (\<lambda>_. True), ds_shutdown = False\<rparr>], live_list := [0]\<rparr>"

lemma state_at_one: "state_at 0 (one_descriptor qs) = \<lparr>descriptor = 5, registered_events = registration_events,
    op_queue_of = qs, try_speculative = (\<lambda>_. True), ds_shutdown = False\<rparr>"
  by (simp add: state_at_def one_descriptor_def)

lemma world_new_sched [simp]: "world (new_sched h w) = w"
  by (simp add: new_sched_def)

theorem start_op_outcome_witness:
  "waits 0 WriteOp 8 (new_sched hint_default (one_descriptor ((\<lambda>_. [])(WriteOp := [7]))))
     (start_op idle_os WriteOp 5 (Some 0) 8 False True
        (new_sched hint_default (one_descriptor ((\<lambda>_. [])(WriteOp := [7])))))"
proof -
  let ?s = "new_sched hint_default (one_descriptor ((\<lambda>_. [])(WriteOp := [7])))"
  have "\<not> ds_shutdown (state_at 0 (world ?s))" "queues (world ?s) 0 WriteOp \<noteq> []"
    by (simp_all add: state_at_one queues_def)
  then show ?thesis
    using start_op_outcome [where dd = "Some 0" and E = idle_os and i = WriteOp and fd = 5 and opn = 8
        and c = False and spec = True and s = ?s] by simp
qed

section \<open>Performing ready operations\<close>

definition ready :: "32 word \<Rightarrow> op_type \<Rightarrow> bool" where
  "ready events i \<longleftrightarrow> events AND (op_flag i OR EPOLLERR OR EPOLLHUP) \<noteq> 0"

text \<open>A trace of calls of \<open>op->perform()\<close>: each starts in the world the one before it left.\<close>

datatype 'o op_attempt = Tried (att_op: 'o) (att_status: status) (att_ec: error_code) (att_bytes: nat)

fun attempted :: "('o, 'w) os_env \<Rightarrow> 'w \<Rightarrow> 'o op_attempt list \<Rightarrow> 'w \<Rightarrow> bool" where
  "attempted E w [] w' \<longleftrightarrow> w' = w"
| "attempted E w (a # t) w' \<longleftrightarrow>
     (\<exists>w1. os_perform E (att_op a) w = (att_status a, att_ec a, att_bytes a, w1) \<and> attempted E w1 t w')"

lemma attempted_append: "attempted E w t w1 \<Longrightarrow> attempted E w1 u w2 \<Longrightarrow> attempted E w (t @ u) w2"
  by (induction t arbitrary: w) auto

definition completed_of :: "'o op_attempt list \<Rightarrow> 'o list" where
  "completed_of t = map att_op (filter (\<lambda>a. att_status a \<noteq> NotDone) t)"

lemma completed_of_simps [simp]:
  "completed_of [] = []" "completed_of (t @ u) = completed_of t @ completed_of u"
  "completed_of (a # t) = (if att_status a \<noteq> NotDone then att_op a # completed_of t else completed_of t)"
  by (simp_all add: completed_of_def)

text \<open>The trace of one loop over a queue \<open>q\<close>: the front of the queue in order; the loop goes on after \<open>Done\<close>, and
  only then, until the queue ends.\<close>

definition trace_of_loop :: "'o list \<Rightarrow> 'o op_attempt list \<Rightarrow> bool" where
  "trace_of_loop q t \<longleftrightarrow> map att_op t = take (length t) q
     \<and> (\<forall>a \<in> set (butlast t). att_status a = Done)
     \<and> (t = [] \<or> att_status (last t) = Done \<longrightarrow> length t = length q)"

lemma trace_of_loop_simps [simp]:
  "trace_of_loop q [] \<longleftrightarrow> q = []" "\<not> trace_of_loop [] (a # t)"
  "trace_of_loop (x # q) [a] \<longleftrightarrow> att_op a = x \<and> (att_status a = Done \<longrightarrow> q = [])"
  "trace_of_loop (x # q) (a # b # t) \<longleftrightarrow> att_op a = x \<and> att_status a = Done \<and> trace_of_loop q (b # t)"
  by (auto simp: trace_of_loop_def)

text \<open>What was left in the operations, and that nothing else of the reactor changed but descriptor states.\<close>

definition left_results :: "'o op_attempt list \<Rightarrow> ('o, 'w) reactor \<Rightarrow> ('o, 'w) reactor \<Rightarrow> bool" where
  "left_results t r r' \<longleftrightarrow> rop_ec r' = fold (\<lambda>a f. f(att_op a := att_ec a)) t (rop_ec r)
     \<and> rop_bytes r' = fold (\<lambda>a f. f(att_op a := att_bytes a)) t (rop_bytes r)
     \<and> r' = r\<lparr>states := states r', rop_ec := rop_ec r', rop_bytes := rop_bytes r', os := os r'\<rparr>"

lemma only_results_trans:
  fixes r r1 r2 :: "('o, 'w) reactor"
  assumes "r1 = r\<lparr>states := states r1, rop_ec := rop_ec r1, rop_bytes := rop_bytes r1, os := os r1\<rparr>"
    and "r2 = r1\<lparr>states := states r2, rop_ec := rop_ec r2, rop_bytes := rop_bytes r2, os := os r2\<rparr>"
  shows "r2 = r\<lparr>states := states r2, rop_ec := rop_ec r2, rop_bytes := rop_bytes r2, os := os r2\<rparr>"
  using assms by (cases r; cases r1; cases r2) simp

lemma left_results_append:
  assumes "left_results t r r1" "left_results u r1 r2"
  shows "left_results (t @ u) r r2"
  unfolding left_results_def
proof (intro conjI)
  show "r2 = r\<lparr>states := states r2, rop_ec := rop_ec r2, rop_bytes := rop_bytes r2, os := os r2\<rparr>"
    using assms unfolding left_results_def by (intro only_results_trans [of r1 r r2]) blast+
qed (use assms in \<open>simp_all add: left_results_def\<close>)

lemma left_results_states:
  "left_results [] r (upd_state d f r)"
  by (simp add: left_results_def upd_state_def set_state_def)

lemma left_results_upd: "left_results t r r1 \<Longrightarrow> left_results t r (upd_state d f r1)"
  using left_results_append [OF _ left_results_states, of t r r1 d f] by simp

lemma perform_attempt:
  assumes "perform E opn r = (st, r1)"
  obtains ec n where "os_perform E opn (os r) = (st, ec, n, os r1)" "left_results [Tried opn st ec n] r r1"
    "states r1 = states r"
  using assms that
  by (cases "os_perform E opn (os r)") (auto simp: perform_def left_results_def)

lemma perform_queue_trace:
  assumes "perform_queue E q r = (cs, rest, exhausted, r')"
  shows "\<exists>t. attempted E (os r) t (os r') \<and> trace_of_loop q t \<and> cs = completed_of t \<and> q = cs @ rest
    \<and> (exhausted \<longleftrightarrow> t \<noteq> [] \<and> att_status (last t) = DoneAndExhausted) \<and> left_results t r r' \<and> states r' = states r"
  using assms
proof (induction q arbitrary: r cs rest exhausted r')
  case Nil
  then show ?case by (intro exI [of _ "[]"]) (auto simp: left_results_def)
next
  case (Cons opn q)
  obtain st r1 where p: "perform E opn r = (st, r1)" by (meson surj_pair)
  obtain ec n where a: "os_perform E opn (os r) = (st, ec, n, os r1)" "left_results [Tried opn st ec n] r r1"
    "states r1 = states r"
    by (rule perform_attempt [OF p])
  obtain cs1 rs1 ex1 r2 where q: "perform_queue E q r1 = (cs1, rs1, ex1, r2)" by (metis prod_cases4)
  have res: "(cs, rest, exhausted, r') = (if st = NotDone then ([], opn # q, False, r1)
      else if st = DoneAndExhausted then ([opn], q, True, r1) else (opn # cs1, rs1, ex1, r2))"
    using Cons.prems by (simp add: p q split: if_splits)
  show ?case
  proof (cases "st = Done")
    case False
    then have "st = NotDone \<or> st = DoneAndExhausted" by (cases st) auto
    then show ?thesis using res a by (intro exI [of _ "[Tried opn st ec n]"]) auto
  next
    case True
    obtain t where t: "attempted E (os r1) t (os r2)" "trace_of_loop q t" "cs1 = completed_of t" "q = cs1 @ rs1"
      "ex1 \<longleftrightarrow> t \<noteq> [] \<and> att_status (last t) = DoneAndExhausted" "left_results t r1 r2" "states r2 = states r1"
      using Cons.IH [OF q] by blast
    have "trace_of_loop (opn # q) (Tried opn st ec n # t)" using t(2) True by (cases t) auto
    moreover have "left_results (Tried opn st ec n # t) r r2" using left_results_append [OF a(2) t(6)] by simp
    ultimately show ?thesis using res a t True by (intro exI [of _ "Tried opn st ec n # t"]) auto
  qed
qed

text \<open>The part of \<open>perform_io\<close> for one type: \<open>t\<close> is its trace, \<open>x\<close> and \<open>x'\<close> the descriptor before and after.\<close>

definition performed :: "32 word \<Rightarrow> op_type \<Rightarrow> 'o op_attempt list \<Rightarrow> 'o descriptor_state \<Rightarrow> 'o descriptor_state \<Rightarrow> bool" where
  "performed events i t x x' \<longleftrightarrow>
     (if ready events i then
        trace_of_loop (op_queue_of x i) t \<and> completed_of t @ op_queue_of x' i = op_queue_of x i
        \<and> (try_speculative x' i \<longleftrightarrow> t = [] \<or> att_status (last t) \<noteq> DoneAndExhausted)
      else t = [] \<and> op_queue_of x' i = op_queue_of x i \<and> try_speculative x' i = try_speculative x i)"

definition same_but :: "op_type \<Rightarrow> 'o descriptor_state \<Rightarrow> 'o descriptor_state \<Rightarrow> bool" where
  "same_but i x x' \<longleftrightarrow> descriptor x' = descriptor x \<and> registered_events x' = registered_events x
     \<and> ds_shutdown x' = ds_shutdown x
     \<and> (\<forall>j. j \<noteq> i \<longrightarrow> op_queue_of x' j = op_queue_of x j \<and> try_speculative x' j = try_speculative x j)"

definition same_type :: "op_type \<Rightarrow> 'o descriptor_state \<Rightarrow> 'o descriptor_state \<Rightarrow> bool" where
  "same_type i x y \<longleftrightarrow> op_queue_of x i = op_queue_of y i \<and> try_speculative x i = try_speculative y i"

lemma performed_same:
  "same_type i x y \<Longrightarrow> same_type i x' y' \<Longrightarrow> performed events i t x x' \<Longrightarrow> performed events i t y y'"
  unfolding performed_def same_type_def by metis

lemma perform_type_effect:
  assumes "perform_type E d events i (ops, r) = (ops', r')"
  obtains t where "ops' = ops @ completed_of t" "attempted E (os r) t (os r')"
    "performed events i t (state_at d r) (state_at d r')" "left_results t r r'"
    "same_but i (state_at d r) (state_at d r')" "\<And>e. e \<noteq> d \<Longrightarrow> state_at e r' = state_at e r"
proof (cases "ready events i")
  case False
  then have "events AND (op_flag i OR EPOLLERR OR EPOLLHUP) = 0" by (simp add: ready_def)
  then have "ops' = ops" "r' = r" using assms by (simp_all add: perform_type_def)
  then show ?thesis using that [of "[]"] False by (simp add: performed_def same_but_def left_results_def)
next
  case True
  then have ev: "events AND (op_flag i OR EPOLLERR OR EPOLLHUP) \<noteq> 0" by (simp add: ready_def)
  let ?r1 = "upd_state d (set_speculative i True) r"
  obtain cs rest ex r2 where q: "perform_queue E (op_queue_of (state_at d r) i) ?r1 = (cs, rest, ex, r2)"
    by (metis prod_cases4)
  have at: "state_at e r2 = state_at e ?r1" for e by (rule perform_queue_facts(3) [OF q])
  have os1: "os (upd_state d f u) = os u" for f and u :: "('a, 'b) reactor"
    by (simp add: upd_state_def set_state_def)
  obtain t where t: "attempted E (os r) t (os r2)" "trace_of_loop (op_queue_of (state_at d r) i) t" "cs = completed_of t"
    "op_queue_of (state_at d r) i = cs @ rest" "ex \<longleftrightarrow> t \<noteq> [] \<and> att_status (last t) = DoneAndExhausted"
    "left_results t ?r1 r2"
    using perform_queue_trace [OF q] unfolding os1 by blast
  have r': "ops' = ops @ cs" "r' = (if ex then upd_state d (set_speculative i False) (upd_state d (set_queue i rest) r2)
      else upd_state d (set_queue i rest) r2)"
    using assms ev by (simp_all add: perform_type_def q Let_def)
  have d': "state_at d r' = (if ex then set_speculative i False (set_queue i rest (set_speculative i True (state_at d r)))
      else set_queue i rest (set_speculative i True (state_at d r)))"
    by (simp add: r' at)
  have "left_results t r r2" using left_results_append [OF left_results_states t(6)] by simp
  then have lr: "left_results t r r'" by (simp add: r' left_results_upd)
  have os': "os r' = os r2" by (simp add: r' os1)
  show ?thesis
  proof (rule that [of t])
    show "performed events i t (state_at d r) (state_at d r')"
      using True t(2-5) by (auto simp: performed_def d' set_queue_def set_speculative_def)
    show "same_but i (state_at d r) (state_at d r')"
      by (auto simp: same_but_def d' set_queue_def set_speculative_def)
    show "state_at e r' = state_at e r" if "e \<noteq> d" for e using that by (simp add: r' at)
  qed (use r'(1) t lr os' in simp_all)
qed

lemma post_no_completions: "post_deferred_completions [] s = s"
  by (simp add: post_deferred_completions_def)

lemma perform_io_result:
  assumes "perform_types E d events (world s) = (ops, r)"
  shows "perform_io E d events s = (case ops of [] \<Rightarrow> None | x # _ \<Rightarrow> Some x,
    if ops = [] then compensating_work_started (s\<lparr>world := r\<rparr>)
    else post_deferred_completions (map Operation (tl ops)) (s\<lparr>world := r\<rparr>))"
proof (cases ops)
  case Nil
  then show ?thesis by (simp add: perform_io_def assms perform_io_cleanup_def)
next
  case (Cons x xs)
  have "perform_io_cleanup (Some x) xs t = post_deferred_completions (map Operation xs) t" for t :: "('a, 'b) rsched"
    by (cases xs) (simp_all add: perform_io_cleanup_def post_no_completions)
  then show ?thesis by (simp add: perform_io_def assms Cons)
qed

text \<open>C13: When a descriptor is ready, its operations are performed: exceptional ones first, then writes, then
  reads, each \<open>perform\<close> in the world the one before it left, for the types the events name and for no other. The
  loop over a queue tries the operations in order, goes on after one that is done, and stops behind one that
  is not done, which stays at the front of its queue with those behind it, or that exhausted the descriptor. The
  operations that completed leave their queues, no others do, none is lost or performed twice, and each operation
  holds the error and the byte count of its last attempt. A ready type is tried speculatively from then on unless
  its last attempt exhausted the descriptor. Nothing else of the reactor changes. The first completed operation is
  handed back to be completed at once and the others are posted in the same order; if none completed, the unit
  of work the scheduler is about to take off is put back.\<close>

theorem perform_io_order:
  assumes "perform_io E d events s = (first_op, s')"
  shows "\<exists>ex wr rd r. let t = ex @ wr @ rd; ops = completed_of t; x = state_at d (world s); x' = state_at d r in
      attempted E (os (world s)) t (os r)
    \<and> performed events ExceptOp ex x x' \<and> performed events WriteOp wr x x' \<and> performed events ReadOp rd x x'
    \<and> registered_events x' = registered_events x \<and> descriptor x' = descriptor x \<and> ds_shutdown x' = ds_shutdown x
    \<and> left_results t (world s) r
    \<and> (\<forall>e. e \<noteq> d \<longrightarrow> state_at e r = state_at e (world s))
    \<and> first_op = (case ops of [] \<Rightarrow> None | x # _ \<Rightarrow> Some x)
    \<and> s' = (if ops = [] then compensating_work_started (s\<lparr>world := r\<rparr>)
            else post_deferred_completions (map Operation (tl ops)) (s\<lparr>world := r\<rparr>))"
proof -
  obtain o1 r1 where p1: "perform_type E d events ExceptOp ([], world s) = (o1, r1)" by (meson surj_pair)
  obtain o2 r2 where p2: "perform_type E d events WriteOp (o1, r1) = (o2, r2)" by (meson surj_pair)
  obtain o3 r where p3: "perform_type E d events ReadOp (o2, r2) = (o3, r)" by (meson surj_pair)
  have all: "perform_types E d events (world s) = (o3, r)"
    by (simp add: perform_types_def op_types_def p1 p2 p3)
  obtain ex where e: "o1 = [] @ completed_of ex" "attempted E (os (world s)) ex (os r1)"
    "performed events ExceptOp ex (state_at d (world s)) (state_at d r1)" "left_results ex (world s) r1"
    "same_but ExceptOp (state_at d (world s)) (state_at d r1)" "\<And>e. e \<noteq> d \<Longrightarrow> state_at e r1 = state_at e (world s)"
    using perform_type_effect [OF p1] by metis
  obtain wr where w: "o2 = o1 @ completed_of wr" "attempted E (os r1) wr (os r2)"
    "performed events WriteOp wr (state_at d r1) (state_at d r2)" "left_results wr r1 r2"
    "same_but WriteOp (state_at d r1) (state_at d r2)" "\<And>e. e \<noteq> d \<Longrightarrow> state_at e r2 = state_at e r1"
    using perform_type_effect [OF p2] by metis
  obtain rd where d: "o3 = o2 @ completed_of rd" "attempted E (os r2) rd (os r)"
    "performed events ReadOp rd (state_at d r2) (state_at d r)" "left_results rd r2 r"
    "same_but ReadOp (state_at d r2) (state_at d r)" "\<And>e. e \<noteq> d \<Longrightarrow> state_at e r = state_at e r2"
    using perform_type_effect [OF p3] by metis
  let ?t = "ex @ wr @ rd"
  have ops: "o3 = completed_of ?t" by (simp add: e(1) w(1) d(1))
  have tr: "attempted E (os (world s)) ?t (os r)"
    by (rule attempted_append [OF e(2) attempted_append [OF w(2) d(2)]])
  have lr: "left_results ?t (world s) r"
    by (rule left_results_append [OF e(4) left_results_append [OF w(4) d(4)]])
  have qs: "performed events ExceptOp ex (state_at d (world s)) (state_at d r)"
    "performed events WriteOp wr (state_at d (world s)) (state_at d r)"
    "performed events ReadOp rd (state_at d (world s)) (state_at d r)"
    by (rule performed_same [OF _ _ e(3)] performed_same [OF _ _ w(3)] performed_same [OF _ _ d(3)];
        use e(5) w(5) d(5) in \<open>simp add: same_but_def same_type_def\<close>)+
  have same: "registered_events (state_at d r) = registered_events (state_at d (world s))"
    "descriptor (state_at d r) = descriptor (state_at d (world s))"
    "ds_shutdown (state_at d r) = ds_shutdown (state_at d (world s))"
    using e(5) w(5) d(5) by (simp_all add: same_but_def)
  have others: "state_at f r = state_at f (world s)" if "f \<noteq> d" for f using that e(6) w(6) d(6) by simp
  have res: "first_op = (case completed_of ?t of [] \<Rightarrow> None | x # _ \<Rightarrow> Some x)"
    "s' = (if completed_of ?t = [] then compensating_work_started (s\<lparr>world := r\<rparr>)
            else post_deferred_completions (map Operation (tl (completed_of ?t))) (s\<lparr>world := r\<rparr>))"
    using perform_io_result [OF all] assms unfolding ops by simp_all
  show ?thesis unfolding Let_def
    by (intro exI [of _ ex] exI [of _ wr] exI [of _ rd] exI [of _ r] conjI allI impI tr qs same lr others res)
qed

text \<open>Two reads, of which the second has no data yet, and an exceptional operation.\<close>

definition busy_os :: "(nat, unit) os_env" where
  "busy_os = idle_os\<lparr>os_perform := (\<lambda>opn w. (if opn = 2 then NotDone else Done, ec_success, opn, w))\<rparr>"

lemma busy_attempts:
  "attempted busy_os w t w' \<Longrightarrow> a \<in> set t \<Longrightarrow>
    att_status a = (if att_op a = 2 then NotDone else Done) \<and> att_bytes a = att_op a"
  by (induction t arbitrary: w) (auto simp: busy_os_def)

lemma trace_cases:
  assumes "trace_of_loop (x # q) t"
  obtains a where "t = [a]" "att_op a = x" "att_status a = Done \<longrightarrow> q = []"
    | a b u where "t = a # b # u" "att_op a = x" "att_status a = Done" "trace_of_loop q (b # u)"
  using assms by (cases t rule: remdups_adj.cases) auto

theorem perform_io_order_witness:
  "let s = new_sched hint_default (one_descriptor ((\<lambda>_. [])(ReadOp := [1, 2, 4], ExceptOp := [3])));
       (first_op, s') = perform_io busy_os 0 (EPOLLPRI OR EPOLLIN) s
   in first_op = Some 3 \<and> queues (world s') 0 ReadOp = [2, 4] \<and> queues (world s') 0 ExceptOp = []
     \<and> rop_bytes (world s') 1 = 1"
proof -
  let ?r = "one_descriptor ((\<lambda>_. [])(ReadOp := [1, 2, 4], ExceptOp := [3]))"
  let ?s = "new_sched hint_default ?r" let ?ev = "EPOLLPRI OR EPOLLIN"
  have rdy: "ready ?ev ReadOp" "ready ?ev ExceptOp" "\<not> ready ?ev WriteOp" by (simp_all add: ready_def epoll_defs)
  obtain f s' where p: "perform_io busy_os 0 ?ev ?s = (f, s')" by (meson surj_pair)
  obtain ex wr rd r where o: "attempted busy_os () (ex @ wr @ rd) (os r)"
      "performed ?ev ExceptOp ex (state_at 0 ?r) (state_at 0 r)" "performed ?ev WriteOp wr (state_at 0 ?r) (state_at 0 r)"
      "performed ?ev ReadOp rd (state_at 0 ?r) (state_at 0 r)" "left_results (ex @ wr @ rd) ?r r"
      "f = (case completed_of (ex @ wr @ rd) of [] \<Rightarrow> None | x # _ \<Rightarrow> Some x)"
      "s' = (if completed_of (ex @ wr @ rd) = [] then compensating_work_started (?s\<lparr>world := r\<rparr>)
            else post_deferred_completions (map Operation (tl (completed_of (ex @ wr @ rd)))) (?s\<lparr>world := r\<rparr>))"
    using perform_io_order [OF p] unfolding Let_def by auto
  have w: "world s' = r" by (simp add: o(7) post_deferred_completions_def push_private_def compensating_work_started_def)
  have st: "att_status a = (if att_op a = 2 then NotDone else Done) \<and> att_bytes a = att_op a" if "a \<in> set (ex @ wr @ rd)" for a
    using busy_attempts [OF o(1) that] .
  have wr: "wr = []" using o(3) rdy by (simp add: performed_def)
  have "trace_of_loop [3] ex" "trace_of_loop [1, 2, 4] rd"
    and q: "completed_of ex @ queues r 0 ExceptOp = [3]" "completed_of rd @ queues r 0 ReadOp = [1, 2, 4]"
    using o(2,4) rdy by (simp_all add: performed_def state_at_one queues_def)
  then obtain a b c where t: "ex = [a]" "att_op a = 3" "rd = [b, c]" "att_op b = 1" "att_op c = 2"
    using st by (auto simp: neq_Nil_conv elim!: trace_cases)
  have "completed_of ex = [3]" "completed_of rd = [1]" using t st by simp_all
  moreover from this have "f = Some 3" using o(6) by simp
  moreover have "rop_bytes r 1 = 1" using o(5) st t wr by (simp add: left_results_def)
  ultimately show ?thesis using q w p by simp
qed

end
