(* ===== verification/EpollClose.thy ===== *)
theory EpollClose
  imports EpollSpec SchedulerLoops
begin

text \<open>
  More properties of the reactor: cancelling and deregistering, the time it waits for, and its books over
  every history of calls and runs.
\<close>

section \<open>Cancelling and deregistering\<close>

lemma abort_type_eq:
  "abort_type d i (ops, r) = (ops @ queues r d i,
     upd_state d (set_queue i []) (r\<lparr>rop_ec := (\<lambda>x. if x \<in> set (queues r d i) then basic_ec operation_aborted else rop_ec r x)\<rparr>))"
  by (simp add: abort_type_def abort_queue_eq queues_def)

lemma abort_type_queues:
  assumes "abort_type d i (ops, r) = (ops', r')"
  shows "ops' = ops @ queues r d i" "queues r' = (queues r)(d := (queues r d)(i := []))"
    "rop_ec r' = (\<lambda>x. if x \<in> set (queues r d i) then basic_ec operation_aborted else rop_ec r x)"
  using assms by (auto simp: abort_type_eq queues_def fun_eq_iff)

lemma abort_all_effect:
  assumes "abort_all d r = (ops, r')"
  shows "ops = queues r d ReadOp @ queues r d WriteOp @ queues r d ExceptOp"
    "queues r' = (queues r)(d := (\<lambda>_. []))"
    "rop_ec r' = (\<lambda>x. if x \<in> set ops then basic_ec operation_aborted else rop_ec r x)"
proof -
  obtain o1 r1 where a1: "abort_type d ReadOp ([], r) = (o1, r1)" by (meson surj_pair)
  obtain o2 r2 where a2: "abort_type d WriteOp (o1, r1) = (o2, r2)" by (meson surj_pair)
  obtain o3 r3 where a3: "abort_type d ExceptOp (o2, r2) = (o3, r3)" by (meson surj_pair)
  have r: "ops = o3" "r' = r3" using assms by (simp_all add: abort_all_def op_types_def a1 a2 a3)
  note q1 = abort_type_queues [OF a1] and q2 = abort_type_queues [OF a2] and q3 = abort_type_queues [OF a3]
  show ops: "ops = queues r d ReadOp @ queues r d WriteOp @ queues r d ExceptOp"
    by (simp add: r q1 q2 q3)
  show "queues r' = (queues r)(d := (\<lambda>_. []))"
    unfolding r q3(2) q2(2) q1(2) by (rule ext, rule ext) (auto, metis op_type.exhaust)
  show "rop_ec r' = (\<lambda>x. if x \<in> set ops then basic_ec operation_aborted else rop_ec r x)"
    unfolding ops r(2) q3(3) q2(3) q1(3) by (auto simp: q1(2) q2(2))
qed

lemma abort_all_shutdown:
  assumes "abort_all d r = (ops, r')"
  shows "ds_shutdown (state_at d r') = ds_shutdown (state_at d r)"
proof -
  have "ds_shutdown (state_at d (snd (fold (abort_type d) is acc))) = ds_shutdown (state_at d (snd acc))" for "is" acc
  proof (induction "is" arbitrary: acc)
    case (Cons i "is")
    show ?case using Cons.IH [of "abort_type d i acc"] by (cases acc) (simp add: abort_type_eq set_queue_def)
  qed simp
  from this [of op_types "([], r)"] assms show ?thesis by (simp add: abort_all_def)
qed

text \<open>C22: Deregistering a descriptor aborts every operation that waits on it, reads first, then writes and
  connects, then exceptional ones, each once and in order, with \<open>operation_aborted\<close>; nothing waits on it any
  more, other descriptors keep their operations, and from then on an operation started on it completes without
  waiting. After the clean-up the pointer is null and a later start fails with \<open>bad_descriptor\<close>. Cancelling
  aborts the same operations and leaves the descriptor in use.\<close>

theorem deregister_aborts_all:
  assumes "deregister_descriptor E fd (Some d) closing s = (dd, s1)" and "\<not> ds_shutdown (state_at d (world s))"
    and "cleanup_descriptor_data dd s1 = (dd', s')"
  shows "let ops = queues (world s) d ReadOp @ queues (world s) d WriteOp @ queues (world s) d ExceptOp in
    (\<exists>r. s1 = post_deferred_completions (map Operation ops) (s\<lparr>world := r\<rparr>)
       \<and> (\<forall>x \<in> set ops. rop_ec r x = basic_ec operation_aborted)
       \<and> queues r = (queues (world s))(d := (\<lambda>_. [])) \<and> ds_shutdown (state_at d r))
    \<and> (\<exists>r. reactor_cancel_ops (Some d) s = post_deferred_completions (map Operation ops) (s\<lparr>world := r\<rparr>)
       \<and> (\<forall>x \<in> set ops. rop_ec r x = basic_ec operation_aborted)
       \<and> queues r = (queues (world s))(d := (\<lambda>_. [])) \<and> ds_shutdown (state_at d r) = ds_shutdown (state_at d (world s)))
    \<and> dd = Some d \<and> dd' = None
    \<and> start_op E i fd dd' opn c spec s' = fail_op opn (basic_ec bad_descriptor) c s'"
proof -
  define r0 where "r0 = (if \<not> closing \<and> registered_events (state_at d (world s)) \<noteq> 0
    then snd (epoll_ctl E CtlDel fd 0 (DescriptorPtr d) (world s)) else world s)"
  have q0: "queues r0 = queues (world s)" by (auto simp: r0_def queues_def fun_eq_iff)
  obtain ops r where a: "abort_all d r0 = (ops, r)" by (meson surj_pair)
  obtain ops2 r2 where a2: "abort_all d (world s) = (ops2, r2)" by (meson surj_pair)
  note e = abort_all_effect [OF a] and e2 = abort_all_effect [OF a2]
  let ?r = "upd_state d (\<lambda>x. x\<lparr>descriptor := - 1, ds_shutdown := True\<rparr>) r"
  have s1: "dd = Some d" "s1 = post_deferred_completions (map Operation ops) (s\<lparr>world := ?r\<rparr>)"
    using assms(1,2) by (auto simp: deregister_descriptor_def r0_def [symmetric] a Let_def)
  have dd': "dd' = None" using assms(3) s1(1) by (simp add: cleanup_descriptor_data_def)
  have ops: "ops = queues (world s) d ReadOp @ queues (world s) d WriteOp @ queues (world s) d ExceptOp"
    unfolding e(1) q0 by simp
  have "queues ?r = queues r" by (rule queues_same) simp
  then have one: "\<forall>x \<in> set ops. rop_ec ?r x = basic_ec operation_aborted"
    "queues ?r = (queues (world s))(d := (\<lambda>_. []))" "ds_shutdown (state_at d ?r)"
    using e(2) unfolding q0 by (simp_all add: e(3))
  have sd: "ds_shutdown (state_at d r2) = ds_shutdown (state_at d (world s))"
    using abort_all_shutdown [OF a2] .
  have ops2: "ops2 = ops" unfolding e2(1) ops by simp
  have two: "reactor_cancel_ops (Some d) s = post_deferred_completions (map Operation ops) (s\<lparr>world := r2\<rparr>)"
    "\<forall>x \<in> set ops. rop_ec r2 x = basic_ec operation_aborted"
    using e2(3) by (simp_all add: reactor_cancel_ops_def a2 ops2)
  show ?thesis unfolding Let_def ops [symmetric]
  proof (intro conjI)
    show "\<exists>r. s1 = post_deferred_completions (map Operation ops) (s\<lparr>world := r\<rparr>)
       \<and> (\<forall>x \<in> set ops. rop_ec r x = basic_ec operation_aborted)
       \<and> queues r = (queues (world s))(d := (\<lambda>_. [])) \<and> ds_shutdown (state_at d r)"
      by (intro exI [of _ ?r] conjI s1(2) one)
    show "\<exists>r. reactor_cancel_ops (Some d) s = post_deferred_completions (map Operation ops) (s\<lparr>world := r\<rparr>)
       \<and> (\<forall>x \<in> set ops. rop_ec r x = basic_ec operation_aborted)
       \<and> queues r = (queues (world s))(d := (\<lambda>_. [])) \<and> ds_shutdown (state_at d r) = ds_shutdown (state_at d (world s))"
      by (intro exI [of _ r2] conjI two sd e2(2))
  qed (simp_all add: s1(1) dd' start_op_def)
qed

theorem deregister_aborts_all_witness:
  "let s = new_sched hint_default (one_descriptor ((\<lambda>_. [])(ReadOp := [1, 2], WriteOp := [3])));
       (dd, s1) = deregister_descriptor idle_os 5 (Some 0) True s;
       (dd', s2) = cleanup_descriptor_data dd s1
   in dd' = None \<and> start_op idle_os ReadOp 5 dd' 9 False True s2 = fail_op 9 (basic_ec bad_descriptor) False s2"
proof -
  let ?s = "new_sched hint_default (one_descriptor ((\<lambda>_. [])(ReadOp := [1, 2], WriteOp := [3])))"
  obtain dd s1 where d: "deregister_descriptor idle_os 5 (Some 0) True ?s = (dd, s1)" by (meson surj_pair)
  obtain dd' s2 where c: "cleanup_descriptor_data dd s1 = (dd', s2)" by (meson surj_pair)
  have "\<not> ds_shutdown (state_at 0 (world ?s))" by (simp add: state_at_one)
  from deregister_aborts_all [OF d this c, of ReadOp 9 False True] show ?thesis
    unfolding Let_def d c prod.case by blast
qed

section \<open>How long the reactor waits\<close>

lemma usec_split: "0 \<le> (u :: int) \<Longrightarrow> u sdiv 1000000 = u div 1000000 \<and> u smod 1000000 = u mod 1000000"
  by (cases "u = 0") (auto simp: signed_divide_int_def signed_modulo_int_def)

lemma clamp_sign: "clamp x \<le> 0 \<longleftrightarrow> x \<le> 0"
  by (auto simp: clamp_def time_min_def time_max_def min_def max_def)

lemma clamp_le: "0 < clamp x \<Longrightarrow> clamp x \<le> x"
  by (auto simp: clamp_def time_min_def time_max_def min_def max_def split: if_splits)

definition earliest :: "('o, 'w) reactor \<Rightarrow> int" where
  "earliest r = fst (heap (timer_q r) ! 0)"

text \<open>The time to the next timer as the queue gives it, in the range of the clock.\<close>

lemma ticks_to_earliest:
  assumes "in_range (earliest r)" "in_range now" "heap (timer_q r) \<noteq> []"
  shows "chrono_subtract (earliest r) now = clamp (earliest r - now)"
    "clamp (earliest r - now) \<le> 0 \<longleftrightarrow> earliest r \<le> now" "0 < clamp (earliest r - now) \<Longrightarrow> clamp (earliest r - now) \<le> earliest r - now"
  using chrono_subtract_clamp assms clamp_le by (auto simp: clamp_sign)

lemma timerfd_bounds:
  assumes "heap (timer_q r) \<noteq> [] \<longrightarrow> in_range (earliest r)" and "in_range (os_now E (os r))"
  shows "case get_timeout_timerfd E r of (flags, sec, nsec) \<Rightarrow>
      0 \<le> sec \<and> 0 \<le> nsec \<and> nsec < 1000000000 \<and> 0 < sec * 1000000000 + nsec \<and> sec \<le> 300
      \<and> (heap (timer_q r) \<noteq> [] \<longrightarrow>
           (flags = TFD_TIMER_ABSTIME \<longleftrightarrow> earliest r \<le> os_now E (os r))
           \<and> (os_now E (os r) < earliest r \<longrightarrow> sec * 1000000000 + nsec < earliest r - os_now E (os r) + 1000))"
proof -
  let ?now = "os_now E (os r)" let ?u = "wait_duration_usec ?now 300000000 (timer_q r)"
  have u: "0 \<le> ?u" "?u \<le> 300000000" "heap (timer_q r) \<noteq> [] \<Longrightarrow> ?u = 0 \<longleftrightarrow> earliest r \<le> ?now"
    "heap (timer_q r) \<noteq> [] \<Longrightarrow> ?now < earliest r \<Longrightarrow> (?u - 1) * 1000 < earliest r - ?now"
    "heap (timer_q r) = [] \<Longrightarrow> ?u = 300000000"
    using to_usec_bounds [of 300000000 "clamp (earliest r - ?now)"] ticks_to_earliest [of r ?now] assms
    by (auto simp: wait_duration_usec_def earliest_def [symmetric])
  have timer: "get_timeout_timerfd E r = (if ?u \<noteq> 0 then 0 else TFD_TIMER_ABSTIME, ?u div 1000000,
      if ?u \<noteq> 0 then (?u mod 1000000) * 1000 else 1)"
    using usec_split [OF u(1)] by (simp add: get_timeout_timerfd_def Let_def)
  show ?thesis
  proof (cases "?u = 0")
    case True
    then show ?thesis using u by (simp add: timer TFD_TIMER_ABSTIME_def)
  next
    case False
    define a b where "a = ?u div 1000000" and "b = ?u mod 1000000"
    have ab: "?u = a * 1000000 + b" "0 \<le> b" "b < 1000000" "0 \<le> a" "a \<le> 300"
      using u(1,2) zdiv_mono1 [of ?u 300000000 1000000] by (simp_all add: a_def b_def pos_imp_zdiv_nonneg_iff)
    have g: "get_timeout_timerfd E r = (0, a, b * 1000)" using False by (simp add: timer a_def b_def)
    have "0 < a * 1000000000 + b * 1000" using ab False u(1) by linarith
    moreover have "a * 1000000000 + b * 1000 < earliest r - ?now + 1000" if "heap (timer_q r) \<noteq> []" "?now < earliest r"
      using u(4) [OF that] unfolding ab(1) by (simp add: algebra_simps)
    moreover have "\<not> earliest r \<le> ?now" if "heap (timer_q r) \<noteq> []" using u(3) [OF that] False by simp
    ultimately show ?thesis unfolding g prod.case using ab by (auto simp: TFD_TIMER_ABSTIME_def)
  qed
qed

text \<open>The conversion to \<open>int\<close>.\<close>

definition int_max :: int where "int_max = 2 ^ 31 - 1"

lemma int_of_long_small: "- int_max \<le> n \<Longrightarrow> n \<le> int_max \<Longrightarrow> int_of_long n = n"
  by (simp add: int_of_long_def int_max_def signed_of_int signed_take_bit_int_eq_self)

lemma int_of_long_max: "int_of_long n \<le> int_max"
  using sint_lt [of "word_of_int n :: 32 word"] by (simp add: int_of_long_def int_max_def)

lemma int_of_long_over: "int_of_long (int_max + 1) = - int_max - 1"
  by (simp add: int_of_long_def int_max_def)

text \<open>The caller's time-out in milliseconds, while it fits.\<close>

lemma msec_fits:
  assumes "0 < usec" "usec \<le> 1000 * int_max"
  shows "int_of_long ((usec - 1) div 1000 + 1) = (usec - 1) div 1000 + 1" "0 < (usec - 1) div 1000 + 1"
    "usec \<le> 1000 * ((usec - 1) div 1000 + 1)" "1000 * ((usec - 1) div 1000 + 1) < usec + 1000"
proof -
  have "0 \<le> (usec - 1) div 1000" using assms(1) by (simp add: pos_imp_zdiv_nonneg_iff)
  moreover have "(usec - 1) div 1000 + 1 \<le> int_max" using assms(2) by linarith
  ultimately show "int_of_long ((usec - 1) div 1000 + 1) = (usec - 1) div 1000 + 1" "0 < (usec - 1) div 1000 + 1"
    by (simp_all add: int_of_long_small int_max_def)
  have "usec - 1 = 1000 * ((usec - 1) div 1000) + (usec - 1) mod 1000" "0 \<le> (usec - 1) mod 1000" "(usec - 1) mod 1000 < 1000"
    by simp_all
  then show "usec \<le> 1000 * ((usec - 1) div 1000 + 1)" "1000 * ((usec - 1) div 1000 + 1) < usec + 1000"
    unfolding distrib_left by linarith+
qed

text \<open>C40: The time the reactor sets the timer descriptor to is a valid, nonzero one of at most five minutes (so
  the timer is never disarmed by accident), at most a microsecond after the earliest timer, and in the past
  exactly when that timer is due. The time-out for \<open>epoll_wait\<close> is the caller's rounded up to milliseconds,
  so it never returns early to spin, as long as it fits an \<open>int\<close>, which is 24 days (\<open>run_one_until\<close> asks for at
  most a second at a time): with a timer descriptor the caller's time is covered exactly up to that limit, and
  the next millisecond becomes a negative, infinite time-out. Without a timer descriptor the time-out is also
  bounded by five minutes and by the earliest timer, and never negative.\<close>

theorem reactor_waits_long_enough:
  assumes "heap (timer_q r) \<noteq> [] \<longrightarrow> in_range (earliest r)" and "in_range (os_now E (os r))"
  shows "(case get_timeout_timerfd E r of (flags, sec, nsec) \<Rightarrow>
      0 \<le> sec \<and> 0 \<le> nsec \<and> nsec < 1000000000 \<and> 0 < sec * 1000000000 + nsec \<and> sec \<le> 300
      \<and> (heap (timer_q r) \<noteq> [] \<longrightarrow>
           (flags = TFD_TIMER_ABSTIME \<longleftrightarrow> earliest r \<le> os_now E (os r))
           \<and> (os_now E (os r) < earliest r \<longrightarrow>
                sec * 1000000000 + nsec < earliest r - os_now E (os r) + 1000)))
    \<and> run_timeout E 0 r = 0
    \<and> (timer_fd r \<noteq> - 1 \<longrightarrow> (usec < 0 \<longrightarrow> run_timeout E usec r = - 1)
         \<and> (0 < usec \<longrightarrow> (usec \<le> 1000 * run_timeout E usec r \<longleftrightarrow> usec \<le> 1000 * int_max))
         \<and> (0 < usec \<and> usec \<le> 1000 * int_max \<longrightarrow> 1000 * run_timeout E usec r < usec + 1000)
         \<and> (1000 * int_max < usec \<and> usec \<le> 1000 * (int_max + 1) \<longrightarrow> run_timeout E usec r < 0))
    \<and> (timer_fd r = - 1 \<and> usec \<noteq> 0 \<and> usec \<le> 1000 * int_max \<longrightarrow>
         0 \<le> run_timeout E usec r \<and> run_timeout E usec r \<le> 300000
         \<and> (0 < usec \<longrightarrow> 1000 * run_timeout E usec r < usec + 1000)
         \<and> (heap (timer_q r) \<noteq> [] \<and> os_now E (os r) < earliest r \<longrightarrow>
              (run_timeout E usec r - 1) * 1000000 < earliest r - os_now E (os r)))"
proof (intro conjI impI)
  let ?now = "os_now E (os r)"
  define t where "t = int_of_long (if usec < 0 then - 1 else (usec - 1) div 1000 + 1)"
  have t: "usec \<noteq> 0 \<Longrightarrow> run_timeout E usec r = (if timer_fd r = - 1 then get_timeout_msec E t r else t)"
    "usec < 0 \<Longrightarrow> t = - 1" "0 < usec \<Longrightarrow> t = int_of_long ((usec - 1) div 1000 + 1)" "t \<le> int_max"
    using int_of_long_small [of "- 1"] int_of_long_max
    by (simp_all add: run_timeout_def t_def int_max_def)
  show "run_timeout E 0 r = 0" by (simp add: run_timeout_def)
  {
    assume fd: "timer_fd r \<noteq> - 1"
    show "usec < 0 \<Longrightarrow> run_timeout E usec r = - 1" using t(1,2) fd by simp
    show "usec \<le> 1000 * run_timeout E usec r \<longleftrightarrow> usec \<le> 1000 * int_max" if "0 < usec"
      using t fd that msec_fits [OF that] by auto
    show "1000 * run_timeout E usec r < usec + 1000" if "0 < usec \<and> usec \<le> 1000 * int_max"
      using t fd that msec_fits [of usec] by auto
    show "run_timeout E usec r < 0" if over: "1000 * int_max < usec \<and> usec \<le> 1000 * (int_max + 1)"
    proof -
      have "(usec - 1) div 1000 + 1 = int_max + 1" "0 < usec" using over by (simp_all add: int_max_def) linarith
      then show ?thesis using t(1,3) fd int_of_long_over by (simp add: int_max_def)
    qed
  }
  assume wait: "timer_fd r = - 1 \<and> usec \<noteq> 0 \<and> usec \<le> 1000 * int_max"
  define m where "m = (if t < 0 \<or> 300000 < t then 300000 else t)"
  have rt: "run_timeout E usec r = wait_duration_msec ?now m (timer_q r)"
    using wait t(1) by (simp add: get_timeout_msec_def m_def Let_def)
  have m: "0 < m" "m \<le> 300000" "0 < usec \<Longrightarrow> 1000 * m < usec + 1000"
    using wait t(2,3) msec_fits [of usec] by (auto simp: m_def neq_iff)
  have w: "0 \<le> wait_duration_msec ?now m (timer_q r)" "wait_duration_msec ?now m (timer_q r) \<le> m"
    "heap (timer_q r) \<noteq> [] \<Longrightarrow> ?now < earliest r \<Longrightarrow>
       (wait_duration_msec ?now m (timer_q r) - 1) * 1000000 < earliest r - ?now"
    using to_msec_bounds [OF m(1), of "clamp (earliest r - ?now)"] ticks_to_earliest [of r ?now] assms m(1)
    by (auto simp: wait_duration_msec_def earliest_def [symmetric])
  show "0 \<le> run_timeout E usec r" "run_timeout E usec r \<le> 300000" using w m rt by simp_all
  show "1000 * run_timeout E usec r < usec + 1000" if "0 < usec" using w(2) m(3) [OF that] rt by linarith
  show "(run_timeout E usec r - 1) * 1000000 < earliest r - ?now" if "heap (timer_q r) \<noteq> [] \<and> ?now < earliest r"
    using w(3) that rt by simp
qed (rule timerfd_bounds [OF assms])

text \<open>A timer due in 2.5 milliseconds.\<close>

definition one_timer :: "(nat, unit) reactor" where
  "one_timer = (new_reactor 4 (\<lambda>_. 0) ())\<lparr>timer_q := snd (enqueue_timer (\<lambda>_. False) 2500000 0 7 (new_timer_queue (\<lambda>_. ec_success)))\<rparr>"

lemma one_timer_heap: "heap (timer_q one_timer) = [(2500000, 0)]"
  by (simp add: one_timer_def enqueue_timer_def new_timer_queue_def Let_def set_defs up_heap.simps new_timer_def)

theorem reactor_waits_long_enough_witness:
  "(case get_timeout_timerfd idle_os one_timer of (flags, sec, nsec) \<Rightarrow> 0 < sec * 1000000000 + nsec
      \<and> sec * 1000000000 + nsec < 2501000)
    \<and> 1500 \<le> 1000 * run_timeout idle_os 1500 one_timer \<and> 1000 * run_timeout idle_os 1500 one_timer < 2500
    \<and> run_timeout idle_os (1000 * 2 ^ 31) one_timer < 0"
proof -
  have e: "earliest one_timer = 2500000" by (simp add: earliest_def one_timer_heap)
  have n: "os_now idle_os w = 0" for w by (simp add: idle_os_def)
  have f: "timer_fd one_timer = 4" by (simp add: one_timer_def new_reactor_def)
  have "heap (timer_q one_timer) \<noteq> [] \<longrightarrow> in_range (earliest one_timer)" "in_range (os_now idle_os (os one_timer))"
    by (simp_all add: e n in_range_def time_min_def time_max_def)
  note waits = reactor_waits_long_enough [OF this]
  have "(1500 :: int) \<le> 1000 * int_max" "1000 * int_max < (1000 * 2 ^ 31 :: int)" "1000 * 2 ^ 31 \<le> 1000 * (int_max + 1)"
    by (simp_all add: int_max_def)
  then show ?thesis using waits [of 1500] waits [of "1000 * 2 ^ 31"]
    by (auto simp: e n f one_timer_heap)
qed

end
