(* ===== verification/ServiceSpec.thy ===== *)
theory ServiceSpec
  imports SocketModes EpollClose
begin

text \<open>
  The socket service: starting operations, opening and closing, accepting, and cancelling single operations.
\<close>

section \<open>State of the reactor under the service\<close>

lemma set_simps [simp]:
  "world (set_net n s) = (world s)\<lparr>os := n\<rparr>"
  "world (set_kernel w s) = (world s)\<lparr>os := (os (world s))\<lparr>kernel := w\<rparr>\<rparr>"
  "world (set_op_ec opn ec s) = set_rop_ec opn ec (world s)"
  "kernel_of (set_kernel w s) = w"
  "kernel_of (set_op_ec opn ec s) = kernel_of s"
  by (simp_all add: set_net_def set_kernel_def set_op_ec_def with_reactor_def kernel_of_def set_rop_ec_def)

section \<open>States for the examples\<close>

text \<open>\<open>full_epoll\<close> has no room for another registration. \<open>net_start\<close> has no descriptor; in \<open>one_stream\<close> descriptor 5
  is registered, and \<open>nb_stream\<close> is its socket.\<close>

definition full_epoll :: "'w net_env" where
  "full_epoll = \<lparr>os_perform = (\<lambda>_ n. (NotDone, ec_success, 0, n)), os_epoll_ctl = (\<lambda>_ _ _ _ n. (28, n)),
     os_epoll_wait = (\<lambda>_ n. ([], n)), os_now = (\<lambda>_. 0), os_interrupter = 3\<rparr>"

definition net_start :: "'w \<Rightarrow> 'w net_sched" where
  "net_start k = new_sched hint_default (new_reactor (- 1) (\<lambda>_. 0) \<lparr>kernel = k, holder = (\<lambda>_. invalid_socket), sender = (\<lambda>_. endpoint_default), flags_out = (\<lambda>_. 0)\<rparr>)"

definition one_stream :: "'w \<Rightarrow> 'w net_sched" where
  "one_stream k = with_reactor (set_state 0 \<lparr>descriptor = 5, registered_events = registration_events,
     op_queue_of = (\<lambda>_. []), try_speculative = (\<lambda>_. True), ds_shutdown = False\<rparr>) (net_start k)"

definition nb_stream :: base_implementation where
  "nb_stream = fresh_stream\<lparr>impl_state := stream_oriented OR internal_non_blocking\<rparr>"

lemma one_stream:
  "\<not> ds_shutdown (state_at 0 (world (one_stream k)))" "registered_events (state_at 0 (world (one_stream k))) \<noteq> 0"
  "queues (world (one_stream k)) 0 i = []" "try_speculative (state_at 0 (world (one_stream k))) i"
  "kernel_of (one_stream k) = k" "rop_ec (world (one_stream k)) opn = ec_success"
  by (simp_all add: one_stream_def with_reactor_def queues_def registration_events_def epoll_defs kernel_of_def
      net_start_def new_reactor_def)

lemma nb_stream:
  "has (impl_state nb_stream) non_blocking" "reactor_data nb_stream = Some 0" "socket nb_stream = 5" "is_open nb_stream"
  "has (impl_state nb_stream) stream_oriented" "impl_state nb_stream = (stream_oriented OR internal_non_blocking)"
  by (simp_all add: nb_stream_def fresh_stream_def is_open_def invalid_socket_def has_def state_bits)

section \<open>Starting\<close>

text \<open>C26: Starting an operation on a socket whose modes agree with the kernel gives it to the reactor only once the
  descriptor is non-blocking in the kernel, with the state bits still agreeing: the reactor never makes a call
  that blocks. An operation that has nothing to do, or whose socket cannot be made non-blocking, is completed
  at once, without the reactor. No queue of the reactor changes before.\<close>

theorem starting_switches_to_non_blocking:
  assumes k: "keeps_modes K nb" and agree: "modes_agree nb impl (kernel_of s)"
    and r: "service_start_op K E impl i opn c spec noop s = (impl', s')"
  shows "\<exists>s1. (if \<not> noop \<and> nb (kernel_of s1) (socket impl)
      then s' = start_op E i (socket impl) (reactor_data impl) opn c spec s1
      else s' = post_immediate_completion (Operation opn) c s1)
    \<and> modes_agree nb impl' (kernel_of s1) \<and> socket impl' = socket impl \<and> reactor_data impl' = reactor_data impl
    \<and> queues (world s1) = queues (world s)"
proof -
  consider "noop" | "\<not> noop" "has (impl_state impl) non_blocking" | "\<not> noop" "\<not> has (impl_state impl) non_blocking" by blast
  then show ?thesis
  proof cases
    case 3
    obtain ok state ec w where i: "set_internal_non_blocking K (socket impl) (impl_state impl) True
        (rop_ec (world s) opn) (kernel_of s) = (ok, state, ec, w)" by (rule prod_cases4)
    let ?s = "set_op_ec opn ec (set_kernel w s)"
    have s': "s' = (if ok then start_op E i (socket impl) (reactor_data impl) opn c spec ?s
          else post_immediate_completion (Operation opn) c ?s)" "impl' = impl\<lparr>impl_state := state\<rparr>"
      using r 3 by (auto simp: service_start_op_def i Let_def split: if_splits)
    have "ok \<longleftrightarrow> nb w (socket impl)"
      using set_internal_effect [OF k i] agree 3 by (auto simp: modes_agree_def split: if_splits)
    then show ?thesis using set_internal_effect [OF k i] agree s' 3
      by (intro exI [of _ ?s]) (simp add: modes_agree_def)
  qed (use r agree in \<open>auto simp: service_start_op_def modes_agree_def intro!: exI [of _ s]\<close>)
qed


theorem starting_switches_to_non_blocking_witness:
  "\<exists>impl' s' s1. service_start_op flag_kernel full_epoll fresh_stream ReadOp (SockOp 1 WaitOp) False True False (one_stream (\<lambda>_. False)) = (impl', s')
     \<and> modes_agree (\<lambda>w. w) fresh_stream (kernel_of (one_stream (\<lambda>_. False)))
     \<and> s' = start_op full_epoll ReadOp 5 (Some 0) (SockOp 1 WaitOp) False True s1 \<and> kernel_of s1 5"
proof -
  let ?s = "one_stream (\<lambda>_ :: int. False)"
  obtain impl' s' where r:
    "service_start_op flag_kernel full_epoll fresh_stream ReadOp (SockOp 1 WaitOp) False True False ?s = (impl', s')"
    by (meson surj_pair)
  have agree: "modes_agree (\<lambda>w. w) fresh_stream (kernel_of ?s)"
    by (simp add: modes_agree_def one_stream fresh_stream_def has_def state_bits)
  have "set_internal_non_blocking flag_kernel 5 stream_oriented True ec_success (\<lambda>_. False) =
      (True, stream_oriented OR internal_non_blocking, clear_ec ec_success, (\<lambda>_. False)(5 := True))"
    by (simp add: set_internal_non_blocking_def flag_kernel_def invalid_socket_def)
  then have "has (impl_state impl') non_blocking"
    using r by (auto simp: service_start_op_def fresh_stream_def one_stream has_def state_bits)
  with starting_switches_to_non_blocking [OF flag_kernel_keeps_modes agree r] r agree
  show ?thesis by (auto simp: modes_agree_def fresh_stream_def split: if_splits)
qed

definition connect_outcome :: "sock_addr \<Rightarrow> int \<Rightarrow> int \<Rightarrow> error_code" where
  "connect_outcome addr r errno =
     (if r = 0 then ec_success
      else if errno = basic_value try_again
      then (if sa_family addr = AF_UNIX then basic_ec in_progress else basic_ec no_buffer_space)
      else EC errno SystemCat)"

lemma connect_started_outcome:
  assumes "is_open impl" and "sys_connect K (socket impl) addr (kernel_of s) = (r, errno, w)"
    and "ec_category (rop_ec (world s) opn) = SystemCat"
  shows "connect_started K E impl opn c addr s =
    (let ec = connect_outcome addr r errno; s1 = set_op_ec opn ec (set_kernel w s)
     in if ec = basic_ec in_progress
        then start_op E connect_op (socket impl) (reactor_data impl) opn c False (set_op_ec opn ec_success s1)
        else post_immediate_completion (Operation opn) c s1)"
proof -
  have "connect K (socket impl) addr (rop_ec (world s) opn) (kernel_of s) = (r, connect_outcome addr r errno, w)"
    using assms by (auto simp: connect_def is_open_def connect_outcome_def cleared basic_ec_def)
  moreover have "r \<noteq> 0 \<and> (connect_outcome addr r errno = basic_ec in_progress \<or> connect_outcome addr r errno = basic_ec would_block)
      \<longleftrightarrow> connect_outcome addr r errno = basic_ec in_progress"
    by (auto simp: connect_outcome_def basic_ec_def ec_success_def)
  ultimately show ?thesis by (simp add: connect_started_def Let_def)
qed


text \<open>Connecting. On success of the call, and on an error, the operation is completed at once with that
  result; \<open>EINPROGRESS\<close> makes it wait, without error and without another attempt, for the descriptor to be
  writable. On Linux \<open>EAGAIN\<close> means the same for a local socket and that no port is left for others, so
  \<open>would_block\<close> never reaches the test for it. When the reactor performs the waiting operation and the
  descriptor is not writable, it keeps waiting; otherwise it completes with the pending error of the socket
  (\<open>SO_ERROR\<close>), success if there is none, or with the error of reading that.\<close>

theorem async_connect_outcome:
  assumes impl: "is_open impl" "has (impl_state impl) non_blocking"
    and opn: "opn = SockOp i (ConnectOp (socket impl))" "rop_ec (world s) opn = ec_success"
    and call: "sys_connect K (socket impl) addr (kernel_of s) = (r, errno, w)"
    and later: "sys_poll K (socket impl) POLLOUT 0 v = (rdy, e1, v1)"
      "sys_getsockopt K (socket impl) SOL_SOCKET SO_ERROR [0] 4 v1 = (q, e2, pending, len, v2)"
  shows "async_connect K E impl addr i c s =
      (impl, let ec = connect_outcome addr r errno; s1 = set_op_ec opn ec (set_kernel w s)
        in if ec = basic_ec in_progress
           then start_op E connect_op (socket impl) (reactor_data impl) opn c False (set_op_ec opn ec_success s1)
           else post_immediate_completion (Operation opn) c s1, connect_op)
    \<and> connect_perform K (socket impl) ec_success v =
      (if rdy = 0 then (NotDone, ec_success, v1)
       else (Done, if q \<noteq> 0 then EC e2 SystemCat else if hd pending = 0 then ec_success else EC (hd pending) SystemCat, v2))"
proof -
  have "getsockopt K (socket impl) 0 SOL_SOCKET SO_ERROR [0] 4 ec_success v1 =
      (q, pending, len, get_last_error (q \<noteq> 0) e2 ec_success, v2)"
    using impl(1) later(2) by (simp add: getsockopt_def is_open_def SOL_SOCKET_def custom_socket_option_level_def
      SO_ERROR_def SO_SNDBUF_def SO_RCVBUF_def)
  then have "connect_perform K (socket impl) ec_success v =
      (if rdy = 0 then (NotDone, ec_success, v1)
       else (Done, if q \<noteq> 0 then EC e2 SystemCat else if hd pending = 0 then ec_success else EC (hd pending) SystemCat, v2))"
    by (simp add: connect_perform_def non_blocking_connect_def later(1) done_if_def cleared)
  moreover have cat: "ec_category (rop_ec (world s) opn) = SystemCat" using opn(2) by simp
  ultimately show ?thesis using impl connect_started_outcome [OF impl(1) call cat]
    by (simp add: async_connect_def start_connect_op_def opn(1) [symmetric])
qed

text \<open>A kernel for the examples: connecting is in progress and then refused; the first \<open>recv\<close> is interrupted, the
  second has three bytes. Its state counts the calls.\<close>

definition demo_kernel :: "nat sys_env" where
  "demo_kernel = no_kernel\<lparr>
     sys_connect := (\<lambda>_ _ w. (- 1, basic_value in_progress, w + 1)), sys_poll := (\<lambda>_ _ _ w. (1, 0, w + 1)),
     sys_ioctl := (\<lambda>_ _ v w. (0, 0, v, w)),
     sys_getsockopt := (\<lambda>_ _ _ _ n w. (0, 0, [basic_value connection_refused], n, w + 1)),
     sys_recv := (\<lambda>_ _ _ w. if w = 0 then (- 1, basic_value interrupted, w + 1) else (3, 0, w + 1))\<rparr>"

definition some_addr :: sock_addr where
  "some_addr = \<lparr>sa_family = 2, sa_data = []\<rparr>"

theorem async_connect_outcome_witness:
  "(let (impl, s', ty) = async_connect demo_kernel full_epoll nb_stream some_addr 4 False (one_stream 0)
    in \<exists>s1. s' = start_op full_epoll connect_op 5 (Some 0) (SockOp 4 (ConnectOp 5)) False False s1 \<and> kernel_of s1 = 1)
   \<and> connect_perform demo_kernel 5 ec_success 1 = (Done, basic_ec connection_refused, 3)"
proof -
  let ?o = "SockOp 4 (ConnectOp (socket nb_stream))"
  have c: "sys_connect demo_kernel (socket nb_stream) some_addr (kernel_of (one_stream 0)) = (- 1, basic_value in_progress, 1)"
    "sys_poll demo_kernel (socket nb_stream) POLLOUT 0 1 = (1, 0, 2)"
    "sys_getsockopt demo_kernel (socket nb_stream) SOL_SOCKET SO_ERROR [0] 4 2 = (0, 0, [basic_value connection_refused], 4, 3)"
    by (simp_all add: demo_kernel_def one_stream)
  have o: "connect_outcome some_addr (- 1) (basic_value in_progress) = basic_ec in_progress"
    by (simp add: connect_outcome_def basic_ec_def)
  note t = async_connect_outcome [where E = full_epoll and c = False, OF nb_stream(4) nb_stream(1) refl one_stream(6) c]
  show ?thesis using t unfolding o Let_def by (auto simp: nb_stream basic_ec_def)
qed

section \<open>A receive, from the socket to the kernel\<close>

definition received :: "sock_op \<Rightarrow> error_code \<Rightarrow> nat \<Rightarrow> 'w \<Rightarrow> (sock_op, 'w net) reactor \<Rightarrow> (sock_op, 'w net) reactor" where
  "received opn ec n w r = r\<lparr>rop_ec := (rop_ec r)(opn := ec), rop_bytes := (rop_bytes r)(opn := n), os := (os r)\<lparr>kernel := w\<rparr>\<rparr>"

lemma queues_received [simp]: "queues (received opn ec n w r) = queues r"
  "state_at d (received opn ec n w r) = state_at d r"
  "rop_ec (received opn ec n w r) opn = ec" "rop_bytes (received opn ec n w r) opn = n"
  "kernel (os (received opn ec n w r)) = w"
  by (simp_all add: received_def queues_def state_at_def fun_eq_iff)

lemma perform_receive:
  assumes "answered (recv_call K single fd bufs flags) (kernel (os r)) a errno w"
    and "recv_result (has state stream_oriented) a errno = (st, ec, n)"
  shows "perform (socket_env K E) (SockOp i (RecvOp single fd state bufs flags)) r =
    (st, received (SockOp i (RecvOp single fd state bufs flags)) ec n w r)"
  using recv_perform_answered [OF assms(1), of state] assms(2)
  by (simp add: perform_def socket_env_def op_perform_def received_def)

text \<open>Starting a read on an idle descriptor whose first attempt ends with \<open>st\<close>.\<close>

lemma start_idle_read:
  assumes idle: "\<not> ds_shutdown (state_at d (world s))" "registered_events (state_at d (world s)) \<noteq> 0"
      "queues (world s) d ReadOp = []" "queues (world s) d ExceptOp = []" "try_speculative (state_at d (world s)) ReadOp"
    and p: "perform E opn (world s) = (st, r1)" "queues r1 = queues (world s)" "state_at d r1 = state_at d (world s)"
  shows "\<exists>r. start_op E ReadOp fd (Some d) opn c True s =
      (if st = NotDone then work_started (s\<lparr>world := r\<rparr>) else post_immediate_completion (Operation opn) c (s\<lparr>world := r\<rparr>))
    \<and> rop_ec r opn = rop_ec r1 opn \<and> rop_bytes r opn = rop_bytes r1 opn \<and> os r = os r1
    \<and> queues r = (if st = NotDone then (queues (world s))(d := (queues (world s) d)(ReadOp := [opn])) else queues (world s))"
proof -
  have q: "op_queue_of (state_at d (world s)) ReadOp = []" "op_queue_of (state_at d (world s)) ExceptOp = []"
    using idle(3,4) by (simp_all add: queues_def)
  show ?thesis
  proof (cases "st = NotDone")
    case True
    let ?r2 = "upd_state d (\<lambda>x. set_queue ReadOp (op_queue_of x ReadOp @ [opn]) x) r1"
    have "start_op E ReadOp fd (Some d) opn c True s = start_waiting E ReadOp fd d opn c (s\<lparr>world := r1\<rparr>)"
      unfolding start_op_def option.case Let_def p(1) prod.case using idle(1,5) q True
      by (simp only: if_True if_False simp_thms)
    also have "\<dots> = work_started (s\<lparr>world := ?r2\<rparr>)"
      using idle(2) p(3) by (simp add: start_waiting_def enqueue_op_def with_reactor_def)
    finally have "start_op E ReadOp fd (Some d) opn c True s = work_started (s\<lparr>world := ?r2\<rparr>)" .
    then show ?thesis using True q
      by (intro exI [of _ ?r2]) (simp add: set_queue_def queues_def [symmetric] p(2,3) fun_eq_iff idle(3))
  next
    case False
    define r2 where "r2 = (if st = DoneAndExhausted \<and> registered_events (state_at d (world s)) \<noteq> 0
      then upd_state d (set_speculative ReadOp False) r1 else r1)"
    have "start_op E ReadOp fd (Some d) opn c True s = post_immediate_completion (Operation opn) c (s\<lparr>world := r2\<rparr>)"
      unfolding start_op_def option.case Let_def p(1) prod.case r2_def using idle(1,5) q False p(3)
      by (simp add: with_reactor_def)
    then show ?thesis using False p(2) by (intro exI [of _ r2]) (simp add: r2_def p(3) queues_def fun_eq_iff)
  qed
qed

text \<open>C15: An asynchronous receive on an idle, open socket takes what the kernel has: it makes the call at once, and the
  first answer that is not a signal decides. Bytes, the end of the stream and errors are in the operation when
  it is posted to the scheduler; with nothing there it waits as the only read of its descriptor.\<close>

theorem async_receive_takes_what_is_there:
  assumes idle: "is_open impl" "has (impl_state impl) non_blocking" "reactor_data impl = Some d"
      "\<not> ds_shutdown (state_at d (world s))" "registered_events (state_at d (world s)) \<noteq> 0"
      "queues (world s) d ReadOp = []" "queues (world s) d ExceptOp = []" "try_speculative (state_at d (world s)) ReadOp"
    and args: "flags AND message_out_of_band = 0" "\<not> (has (impl_state impl) stream_oriented \<and> adapter_all_empty bufs)"
    and answer: "answered (recv_call K single (socket impl) bufs flags) (kernel_of s) a errno w"
      "recv_result (has (impl_state impl) stream_oriented) a errno = (st, ec, n)"
    and opn: "opn = SockOp i (RecvOp single (socket impl) (impl_state impl) bufs flags)"
  shows "\<exists>r. async_receive K (socket_env K E) impl single bufs flags i c s =
      (impl, if st = NotDone then work_started (s\<lparr>world := r\<rparr>)
             else post_immediate_completion (Operation opn) c (s\<lparr>world := r\<rparr>), ReadOp)
    \<and> rop_ec r opn = ec \<and> rop_bytes r opn = n \<and> kernel (os r) = w
    \<and> queues r = (if st = NotDone then (queues (world s))(d := (queues (world s) d)(ReadOp := [opn])) else queues (world s))"
proof -
  let ?E = "socket_env K E" let ?r = "received opn ec n w (world s)"
  have a: "async_receive K ?E impl single bufs flags i c s =
      (impl, start_op ?E ReadOp (socket impl) (Some d) opn c True s, ReadOp)"
    using idle(2,3) args by (auto simp: async_receive_def service_start_op_def opn Let_def)
  have p: "perform ?E opn (world s) = (st, ?r)"
    unfolding opn by (rule perform_receive [OF answer(1) [unfolded kernel_of_def] answer(2)])
  from start_idle_read [OF idle(4-8) p queues_received(1,2), of "socket impl" c] show ?thesis unfolding a by auto
qed

theorem async_receive_takes_what_is_there_witness:
  "let opn = SockOp 4 (RecvOp True 5 (stream_oriented OR internal_non_blocking) [mk_buffer 100 8] 0)
   in \<exists>r s'. async_receive demo_kernel (socket_env demo_kernel full_epoll) nb_stream True [mk_buffer 100 8] 0 4 False (one_stream 0)
          = (nb_stream, s', ReadOp)
        \<and> s' = post_immediate_completion (Operation opn) False (one_stream 0\<lparr>world := r\<rparr>)
        \<and> rop_ec r opn = ec_success \<and> rop_bytes r opn = 3 \<and> kernel (os r) = 2"
proof -
  let ?f = "recv_call demo_kernel True (socket nb_stream) [mk_buffer 100 8] 0"
  have f: "?f 1 = (3, 0, 2)" "?f 0 = (- 1, 4, 1)" by (simp_all add: recv_call_def demo_kernel_def)
  have sg: "\<not> signalled 3 0" "signalled (- 1) 4" by (simp_all add: signalled_def)
  have a: "answered ?f (kernel_of (one_stream 0)) 3 0 2"
    unfolding one_stream by (rule answered.again [where f = ?f, OF f(2) sg(2)], rule answered.first [where f = ?f, OF f(1) sg(1)])
  have res: "recv_result (has (impl_state nb_stream) stream_oriented) 3 0 = (Done, ec_success, 3)"
    by (simp add: recv_result_def)
  have args: "(0 :: 32 word) AND message_out_of_band = 0"
    "\<not> (has (impl_state nb_stream) stream_oriented \<and> adapter_all_empty [mk_buffer 100 8])"
    by (simp_all add: adapter_all_empty_def adapter_buffers_def adapter_max_buffers_def)
  from async_receive_takes_what_is_there [OF nb_stream(4) nb_stream(1) nb_stream(2) one_stream(1) one_stream(2)
      one_stream(3) one_stream(3) one_stream(4) args a res refl, of full_epoll 4 False]
  show ?thesis unfolding Let_def by (auto simp: nb_stream)
qed

end
