(* ===== verification/SocketClose.thy ===== *)
theory SocketClose
  imports ServiceSpec
begin

text \<open>
  Opening and closing sockets, who owns an accepted socket, and cancellation of single operations.
\<close>

section \<open>The pool of descriptor states\<close>

lemma world_posts [simp]:
  "world (post_immediate_completion opn c s) = world s" "world (post_deferred_completions ops s) = world s"
  "world (work_started s) = world s"
  by (simp_all add: post_immediate_completion_def post_deferred_completions_def work_started_def push_private_def
      push_op_def acquire_def)

lemma lists_ctl: "epoll_ctl E c fd ev ptr r = (err, r') \<Longrightarrow> live_list r' = live_list r \<and> free_list r' = free_list r"
  by (auto simp: epoll_ctl_def split: prod.splits)

lemma lists_abort_all:
  assumes "abort_all d r = (ops, r')"
  shows "live_list r' = live_list r \<and> free_list r' = free_list r \<and> os r' = os r"
proof -
  have "live_list (snd (fold (abort_type d) is a)) = live_list (snd a)
      \<and> free_list (snd (fold (abort_type d) is a)) = free_list (snd a) \<and> os (snd (fold (abort_type d) is a)) = os (snd a)" for "is" a
  proof (induction "is" arbitrary: a)
    case (Cons i "is")
    show ?case using Cons.IH [of "abort_type d i a"] by (cases a) (simp add: abort_type_eq)
  qed simp
  from this [of op_types "([], r)"] assms show ?thesis by (simp add: abort_all_def)
qed

lemma allocate_live:
  "allocate_descriptor_state r = (d, r') \<Longrightarrow> live_list r' = d # live_list r \<and> os r' = os r"
  by (auto simp: allocate_descriptor_state_def Let_def split: list.splits)

lemma register_live:
  assumes "register_descriptor E fd s = (err, data, s')"
  shows "\<exists>d. data = Some d \<and> d = fst (allocate_descriptor_state (world s)) \<and> live_list (world s') = d # live_list (world s)
    \<and> \<not> ds_shutdown (state_at d (world s'))"
proof -
  obtain d r where a: "allocate_descriptor_state (world s) = (d, r)" by (meson surj_pair)
  define r1 where "r1 = upd_state d (\<lambda>x. x\<lparr>descriptor := fd, ds_shutdown := False,
      try_speculative := (\<lambda>_. True), registered_events := registration_events\<rparr>) r"
  obtain e r2 where c: "epoll_ctl E CtlAdd fd registration_events (DescriptorPtr d) r1 = (e, r2)" by (meson surj_pair)
  have "live_list r2 = d # live_list (world s)" "\<not> ds_shutdown (state_at d r2)"
    using lists_ctl [OF c] allocate_live [OF a] epoll_ctl_simps(2) [OF c] by (simp_all add: r1_def)
  then show ?thesis using assms
    by (auto simp: register_descriptor_def a r1_def [symmetric] c Let_def split: if_splits)
qed

lemma deregister_live:
  assumes "deregister_descriptor E fd (Some d) closing s = (dd, s')" and "\<not> ds_shutdown (state_at d (world s))"
  shows "dd = Some d \<and> live_list (world s') = live_list (world s)"
proof -
  define r0 where "r0 = (if \<not> closing \<and> registered_events (state_at d (world s)) \<noteq> 0
    then snd (epoll_ctl E CtlDel fd 0 (DescriptorPtr d) (world s)) else world s)"
  have "live_list r0 = live_list (world s)" by (simp add: r0_def epoll_ctl_def split: prod.split)
  moreover obtain ops r where a: "abort_all d r0 = (ops, r)" by (meson surj_pair)
  ultimately show ?thesis using assms lists_abort_all [OF a]
    by (auto simp: deregister_descriptor_def r0_def [symmetric] a Let_def)
qed

lemma cleanup_live:
  "cleanup_descriptor_data (Some d) s = (dd, s') \<Longrightarrow> live_list (world s') = remove1 d (live_list (world s))"
  by (auto simp: cleanup_descriptor_data_def with_reactor_def free_descriptor_state_def)

lemma close_live:
  assumes "is_open impl" and "reactor_data impl = Some d" and "\<not> ds_shutdown (state_at d (world s))"
  shows "\<exists>ec' s'. close K E impl ec s = (construct, ec', s') \<and> live_list (world s') = remove1 d (live_list (world s))"
proof -
  obtain dd s1 where de: "deregister_descriptor E (socket impl) (Some d) (\<not> has (impl_state impl) possible_dup) s = (dd, s1)"
    by (meson surj_pair)
  note l = deregister_live [OF de assms(3)]
  obtain res st ec' w where sc: "socket_close K (socket impl) (impl_state impl) False ec (kernel_of s1) = (res, st, ec', w)"
    by (rule prod_cases4)
  obtain d2 s2 where cl: "cleanup_descriptor_data (Some d) (set_kernel w s1) = (d2, s2)" by (meson surj_pair)
  show ?thesis using assms(1,2) l cleanup_live [OF cl] by (simp add: close_def de sc cl)
qed

text \<open>Opening a socket and closing it again. A failed open leaves the socket closed. After closing, the
  object is as new, and the reactor's pool has the same descriptor states in use as before, unless the
  registration with epoll failed: then the state allocated for it stays in use, no socket owns it, and nothing
  but the reactor's own shutdown ever frees it.\<close>

theorem open_and_close:
  assumes "\<not> is_open impl" and op: "do_open K E impl af sock_type protocol ec s = (impl1, ec1, s1)"
    and cl: "close K E impl1 ec2 s1 = (impl2, ec3, s2)"
  shows "impl2 = construct \<and> (is_open impl1 \<longrightarrow> ec1 = ec_success)
    \<and> live_list (world s2) =
        (if is_open impl1 \<or> fst (open_socket K af sock_type protocol ec (kernel_of s)) = invalid_socket
         then live_list (world s) else fst (allocate_descriptor_state (world s)) # live_list (world s))"
proof -
  obtain fd e w where so: "open_socket K af sock_type protocol ec (kernel_of s) = (fd, e, w)" by (rule prod_cases3)
  obtain err data s3 where re: "register_descriptor E fd (set_kernel w s) = (err, data, s3)" by (rule prod_cases3)
  have alloc: "fst (allocate_descriptor_state (world (set_kernel w s))) = fst (allocate_descriptor_state (world s))"
    by (simp add: allocate_descriptor_state_def Let_def split: list.split)
  from register_live [OF re] obtain d where d: "data = Some d" "d = fst (allocate_descriptor_state (world s))"
      "live_list (world s3) = d # live_list (world s)" "\<not> ds_shutdown (state_at d (world s3))"
    unfolding alloc by auto
  consider "fd = invalid_socket" | "fd \<noteq> invalid_socket" "err \<noteq> 0" | "fd \<noteq> invalid_socket" "err = 0" by blast
  then show ?thesis
  proof cases
    case 1
    then have "impl1 = impl" "s1 = set_kernel w s" using op assms(1) by (simp_all add: do_open_def so)
    then show ?thesis using cl assms(1) 1 by (auto simp: close_def so)
  next
    case 2
    obtain res st e2 w2 where sc: "socket_close K fd 0 True ec_success (kernel_of s3) = (res, st, e2, w2)"
      by (rule prod_cases4)
    have "impl1 = impl\<lparr>reactor_data := data\<rparr>" "s1 = set_kernel w2 s3"
      using op assms(1) 2 by (simp_all add: do_open_def so re sc)
    then show ?thesis using cl assms(1) 2 d by (auto simp: close_def so is_open_def)
  next
    case 3
    then have i: "impl1 = impl\<lparr>reactor_data := Some d, socket := fd, impl_state := type_state sock_type\<rparr>" "ec1 = ec_success" "s1 = s3"
      using op assms(1) d(1) by (simp_all add: do_open_def so re)
    then have "is_open impl1" "reactor_data impl1 = Some d" using 3 by (simp_all add: is_open_def)
    from close_live [OF this, of s1 K E ec2] cl i d(4) show ?thesis using d(3) \<open>is_open impl1\<close> by auto
  qed
qed


text \<open>A kernel that opens descriptor 5 and closes anything; its state counts the calls of \<open>close\<close>.\<close>

definition one_socket :: "nat sys_env" where
  "one_socket = no_kernel\<lparr>
     sys_socket := (\<lambda>_ _ _ w. (5, 0, w)), sys_close := (\<lambda>_ w. (0, 0, w + 1)), sys_ioctl := (\<lambda>_ _ v w. (0, 0, v, w))\<rparr>"

lemma full_refuses: "\<exists>data s'. register_descriptor full_epoll fd s = (28, data, s')"
  by (auto simp: register_descriptor_def epoll_ctl_def full_epoll_def EPERM_def Let_def split: prod.splits)

theorem open_and_close_witness:
  "\<exists>impl1 ec1 s1 impl2 ec3 s2. do_open one_socket full_epoll construct 2 SOCK_STREAM 6 ec_success (net_start 0) = (impl1, ec1, s1)
     \<and> close one_socket full_epoll impl1 ec_success s1 = (impl2, ec3, s2)
     \<and> \<not> is_open impl1 \<and> live_list (world (net_start (0 :: nat))) = [] \<and> live_list (world s2) = [0]"
proof -
  obtain impl1 ec1 s1 where o: "do_open one_socket full_epoll construct 2 SOCK_STREAM 6 ec_success (net_start 0) = (impl1, ec1, s1)"
    by (rule prod_cases3)
  obtain impl2 ec3 s2 where c: "close one_socket full_epoll impl1 ec_success s1 = (impl2, ec3, s2)" by (rule prod_cases3)
  have n: "\<not> is_open construct" by (simp add: is_open_def construct_def)
  have so: "open_socket one_socket 2 SOCK_STREAM 6 ec_success w = (5, clear_ec ec_success, w)" for w
    by (simp add: open_socket_def one_socket_def)
  obtain data s3 where re: "register_descriptor full_epoll 5 (set_kernel (kernel_of (net_start (0 :: nat))) (net_start 0)) = (28, data, s3)"
    using full_refuses by blast
  have i: "\<not> is_open impl1" using o n by (auto simp: do_open_def so re Let_def is_open_def invalid_socket_def split: prod.splits)
  have f: "fst (open_socket one_socket 2 SOCK_STREAM 6 ec_success (kernel_of (net_start (0 :: nat)))) \<noteq> invalid_socket"
    "fst (allocate_descriptor_state (world (net_start (0 :: nat)))) = 0" "live_list (world (net_start (0 :: nat))) = []"
    by (simp_all add: so invalid_socket_def net_start_def new_reactor_def allocate_descriptor_state_def)
  from open_and_close [OF n o c] i f have "live_list (world s2) = [0]" by simp
  with o c i f(3) show ?thesis by blast
qed

section \<open>Accepted sockets\<close>

text \<open>The outcome of accepting by the kernel's answer, and what a blocking accept makes of it.\<close>

definition hidden_error :: "state_type \<Rightarrow> int \<Rightarrow> bool" where
  "hidden_error state errno \<longleftrightarrow>
     (errno = basic_value connection_aborted \<or> errno = EPROTO) \<and> \<not> has state enable_connection_aborted"

definition accept_result :: "state_type \<Rightarrow> int \<Rightarrow> int \<Rightarrow> status \<times> error_code \<times> int" where
  "accept_result state r errno =
     (if r \<ge> 0 then (Done, ec_success, r)
      else if errno = basic_value would_block \<or> hidden_error state errno then (NotDone, EC errno SystemCat, invalid_socket)
      else (Done, EC errno SystemCat, invalid_socket))"

lemma accept_answer:
  assumes "s \<noteq> invalid_socket" and "sys_accept K s w = (r, errno, w')" and "r \<ge> - 1"
  shows "accept K s ec w = (r, if r < 0 then EC errno SystemCat else clear_ec ec, w')"
  using assms by (auto simp: accept_def invalid_socket_def clear_ec_def)

lemma non_blocking_accept_answered:
  assumes s: "s \<noteq> invalid_socket" and ge: "\<And>w. fst (sys_accept K s w) \<ge> - 1"
    and a: "answered (sys_accept K s) w r errno w'" and ec: "ec_category ec = SystemCat"
  shows "non_blocking_accept K s state ec w =
    Some (case accept_result state r errno of (st, ec, fd) \<Rightarrow> (st = Done, ec, fd, w'))"
  using a ec
proof (induction arbitrary: ec rule: answered.induct)
  case (first w r errno w')
  have "r \<ge> - 1" using ge [of w] first(1) by simp
  note acc = accept_answer [OF s first(1) this, of ec]
  show ?case
  proof (cases "r \<ge> 0")
    case True
    with acc first(3) show ?thesis
      by (subst non_blocking_accept.simps) (auto simp: accept_result_def invalid_socket_def cleared)
  next
    case False
    with \<open>r \<ge> - 1\<close> have "r = - 1" by simp
    moreover have "errno \<noteq> 4" using first(2) False by (simp add: signalled_def)
    moreover have "EC errno SystemCat = basic_ec connection_aborted \<longleftrightarrow> errno = 103" by (simp add: basic_ec_def)
    ultimately show ?thesis using acc
      by (subst non_blocking_accept.simps)
         (auto simp: accept_result_def invalid_socket_def non_blocking_accept_done_def hidden_error_def EPROTO_def)
  qed
next
  case (again w r errno w' r2 errno2 w2)
  then have r: "r = - 1" "errno = 4" using ge [of w] by (auto simp: signalled_def)
  have "accept K s ec w = (- 1, EC 4 SystemCat, w')" using accept_answer [OF s again(1)] r by simp
  moreover have "ec_category (EC 4 SystemCat) = SystemCat" by simp
  note again(4) [OF this]
  ultimately show ?case by (subst non_blocking_accept.simps) (simp add: invalid_socket_def)
qed

text \<open>Performing an accept on an open acceptor is one answer of \<open>accept\<close>, taken once no signal interrupts the call.
  A new socket completes the operation, which then holds it and no other. Without a connection the operation
  waits on; so it does when a connection was aborted or failed in the protocol before it was accepted, unless
  the user asked for these errors. Any other error completes it. On a descriptor that is not open it completes
  with \<open>bad_descriptor\<close>.\<close>

theorem performing_an_accept:
  assumes ge: "\<And>w. fst (sys_accept K s w) \<ge> - 1" and free: "holder n i = invalid_socket"
    and a: "answered (sys_accept K s) (kernel n) r errno w"
  shows "op_perform K (SockOp i (AcceptOp s state)) n =
    Some (if s = invalid_socket then (Done, basic_ec bad_descriptor, 0, n)
          else case accept_result state r errno of (st, ec, fd) \<Rightarrow> (st, ec, 0, set_holder i fd (n\<lparr>kernel := w\<rparr>)))"
proof (cases "s = invalid_socket")
  case True
  then have "accept K s ec_success (kernel n) = (invalid_socket, basic_ec bad_descriptor, kernel n)" by (simp add: accept_def)
  then have "non_blocking_accept K s state ec_success (kernel n) = Some (True, basic_ec bad_descriptor, invalid_socket, kernel n)"
    by (subst non_blocking_accept.simps)
       (simp add: non_blocking_accept_done_def must_wait_def basic_ec_def EPROTO_def)
  then show ?thesis using True free
    by (simp add: op_perform_def accept_perform_def done_if_def holder_reset_to_def holder_reset_def set_holder_def fun_upd_idem)
next
  case False
  from non_blocking_accept_answered [OF False ge a success_category, of state] False free show ?thesis
    by (auto simp: op_perform_def accept_perform_def done_if_def holder_reset_to_def holder_reset_def accept_result_def)
qed

definition accepting_kernel :: "nat sys_env" where
  "accepting_kernel = one_socket\<lparr>sys_accept := (\<lambda>_ w. if w = 0 then (- 1, basic_value interrupted, 1)
     else if w = 1 then (- 1, basic_value connection_aborted, 2) else (6, 0, w + 1))\<rparr>"

theorem performing_an_accept_witness:
  "op_perform accepting_kernel (SockOp 7 (AcceptOp 5 stream_oriented)) \<lparr>kernel = 0, holder = (\<lambda>_. invalid_socket), sender = (\<lambda>_. endpoint_default), flags_out = (\<lambda>_. 0)\<rparr> =
     Some (NotDone, basic_ec connection_aborted, 0, \<lparr>kernel = 2, holder = (\<lambda>_. invalid_socket), sender = (\<lambda>_. endpoint_default), flags_out = (\<lambda>_. 0)\<rparr>)"
proof -
  let ?f = "sys_accept accepting_kernel 5" let ?n = "\<lparr>kernel = 0, holder = (\<lambda>_. invalid_socket), sender = (\<lambda>_. endpoint_default), flags_out = (\<lambda>_. 0)\<rparr>"
  have f: "?f 0 = (- 1, 4, 1)" "?f 1 = (- 1, 103, 2)" by (simp_all add: accepting_kernel_def)
  have sg: "signalled (- 1) 4" "\<not> signalled (- 1) 103" by (simp_all add: signalled_def)
  have a: "answered ?f (kernel ?n) (- 1) 103 2"
    unfolding net.simps
    by (rule answered.again [where f = ?f, OF f(1) sg(1)], rule answered.first [where f = ?f, OF f(2) sg(2)])
  have ge: "fst (?f w) \<ge> - 1" for w by (simp add: accepting_kernel_def)
  have "holder ?n 7 = invalid_socket" by simp
  from performing_an_accept [OF ge this a, of stream_oriented] show ?thesis
    by (simp add: accept_result_def hidden_error_def has_def state_bits invalid_socket_def set_holder_def basic_ec_def fun_upd_idem)
qed

lemma register_holder:
  assumes re: "register_descriptor E fd s = (err, data, s')"
    and keeps: "\<And>c a ev ptr n err n'. os_epoll_ctl E c a ev ptr n = (err, n') \<Longrightarrow> holder n' = holder n"
  shows "holder (os (world s')) = holder (os (world s))"
proof -
  obtain d r where a: "allocate_descriptor_state (world s) = (d, r)" by (meson surj_pair)
  define r1 where "r1 = upd_state d (\<lambda>x. x\<lparr>descriptor := fd, ds_shutdown := False,
      try_speculative := (\<lambda>_. True), registered_events := registration_events\<rparr>) r"
  obtain e r2 where c: "epoll_ctl E CtlAdd fd registration_events (DescriptorPtr d) r1 = (e, r2)" by (meson surj_pair)
  have "holder (os r2) = holder (os r1)" using c keeps by (auto simp: epoll_ctl_def split: prod.splits)
  then have "holder (os r2) = holder (os (world s))" using allocate_live [OF a] by (simp add: r1_def)
  then show ?thesis using re
    by (auto simp: register_descriptor_def a r1_def [symmetric] c Let_def split: if_splits)
qed

lemma do_assign_cases:
  "do_assign E peer sock_type fd s =
    (if is_open peer then (peer, misc_ec already_open, s)
     else case register_descriptor E fd s of (err, data, s1) \<Rightarrow>
       if err \<noteq> 0 then (peer\<lparr>reactor_data := data\<rparr>, EC err SystemCat, s1)
       else (\<lparr>socket = fd, impl_state = type_state sock_type OR possible_dup, reactor_data = data\<rparr>, ec_success, s1))"
  by (simp add: do_assign_def Let_def split: prod.splits)

lemma holder_reset_effect:
  "holder (holder_reset K i n) i = invalid_socket"
  "holder n i = fd \<Longrightarrow> fd \<noteq> invalid_socket \<Longrightarrow>
     kernel (holder_reset K i n) = snd (snd (snd (socket_close K fd 0 True ec_success (kernel n))))"
  "holder n i = invalid_socket \<Longrightarrow> holder_reset K i n = n"
  by (auto simp: holder_reset_def set_holder_def Let_def split: prod.splits)

text \<open>C27: When an accept completes, its operation no longer holds a socket. If it was handed one, then either the peer is
  open on it, with the stream state and registered, and nothing was closed; or the operation closed it: because the
  peer was open already, because its registration failed, or because the operation is destroyed without
  being completed. The peer never keeps a socket that was closed.\<close>

theorem accepted_socket_is_owned_or_closed:
  assumes fd: "holder (os (world s)) i = fd" "fd \<noteq> invalid_socket"
    and r: "accept_do_complete K E i sock_type owner peer ec s = (peer', ec', s')"
    and re: "register_descriptor E fd s = (err, data, s1)"
    and keeps: "\<And>c a ev ptr n err n'. os_epoll_ctl E c a ev ptr n = (err, n') \<Longrightarrow> holder n' = holder n"
  shows "holder (os (world s')) i = invalid_socket
    \<and> (if owner \<and> \<not> is_open peer \<and> err = 0
       then socket peer' = fd \<and> impl_state peer' = (type_state sock_type OR possible_dup) \<and> reactor_data peer' = data
         \<and> ec' = ec_success \<and> kernel_of s' = kernel_of s1
       else socket peer' = socket peer \<and> (owner \<longrightarrow> failed ec')
         \<and> kernel_of s' = snd (snd (snd (socket_close K fd 0 True ec_success
              (if owner \<and> \<not> is_open peer then kernel_of s1 else kernel_of s)))))"
proof -
  have h1: "holder (os (world s1)) i = fd" using register_holder [OF re keeps] fd(1) by simp
  consider (gone) "\<not> owner" | (busy) "owner" "is_open peer" | (refused) "owner" "\<not> is_open peer" "err \<noteq> 0"
    | (fine) "owner" "\<not> is_open peer" "err = 0" by blast
  then show ?thesis
  proof cases
    case gone
    then show ?thesis using r fd by (auto simp: accept_do_complete_def holder_reset_effect kernel_of_def)
  next
    case busy
    then show ?thesis using r fd
      by (auto simp: accept_do_complete_def accept_do_assign_def do_assign_cases holder_reset_effect kernel_of_def)
  next
    case refused
    then have "failed (EC err SystemCat)" by (simp add: failed_def)
    then show ?thesis using r fd refused h1
      by (auto simp: accept_do_complete_def accept_do_assign_def do_assign_cases re holder_reset_effect kernel_of_def)
  next
    case fine
    then show ?thesis using r fd h1
      by (auto simp: accept_do_complete_def accept_do_assign_def do_assign_cases re holder_reset_effect kernel_of_def
          set_holder_def)
  qed
qed

text \<open>Operation 7 holds descriptor 5 for a peer that is open already.\<close>

definition accepted_net :: "nat net_sched" where
  "accepted_net = set_net \<lparr>kernel = 0, holder = (\<lambda>_. invalid_socket)(7 := 5), sender = (\<lambda>_. endpoint_default), flags_out = (\<lambda>_. 0)\<rparr> (net_start 0)"

theorem accepted_socket_is_owned_or_closed_witness:
  "\<exists>ec' s'. accept_do_complete one_socket full_epoll 7 SOCK_STREAM True fresh_stream ec_success accepted_net = (fresh_stream, ec', s')
     \<and> failed ec' \<and> holder (os (world s')) 7 = invalid_socket \<and> kernel_of s' = 1"
proof -
  have h: "holder (os (world accepted_net)) 7 = 5" "(5 :: int) \<noteq> invalid_socket" "kernel_of accepted_net = 0"
    by (simp_all add: accepted_net_def invalid_socket_def kernel_of_def)
  have o: "is_open fresh_stream" by (simp add: is_open_def fresh_stream_def invalid_socket_def)
  obtain peer' ec' s' where r:
    "accept_do_complete one_socket full_epoll 7 SOCK_STREAM True fresh_stream ec_success accepted_net = (peer', ec', s')"
    by (rule prod_cases3)
  obtain err data s1 where re: "register_descriptor full_epoll 5 accepted_net = (err, data, s1)" by (rule prod_cases3)
  have keeps: "os_epoll_ctl full_epoll c a ev ptr n = (e, n') \<Longrightarrow> holder n' = holder n" for c a ev ptr n e and n' :: "nat net"
    by (simp add: full_epoll_def)
  have "socket_close one_socket 5 0 True ec_success 0 = (0, 0, ec_success, 1)"
    by (simp add: socket_close_def one_socket_def invalid_socket_def has_def get_last_error_def cleared)
  moreover have "peer' = fresh_stream" using r h o by (simp add: accept_do_complete_def accept_do_assign_def do_assign_cases)
  ultimately show ?thesis using accepted_socket_is_owned_or_closed [OF h(1,2) r re keeps] o r h(3) by auto
qed

section \<open>Cancelling one operation\<close>

lemma cancel_by_key_queues:
  "queues (world (cancel_ops_by_key (Some d) i key s)) =
     (queues (world s))(d := (queues (world s) d)(i := filter (\<lambda>x. rop_key (world s) x \<noteq> key) (queues (world s) d i)))"
  by (auto simp: cancel_ops_by_key_def split_by_key_eq Let_def queues_def fun_eq_iff)

text \<open>The cancellation slot of an out-of-band receive does nothing. The operation waits for an exceptional
  condition, but the slot was told that it is a read: whatever is emitted on it, the operation stays where it
  is; what the slot removes are the reads with its key.\<close>

theorem out_of_band_receive_ignores_its_slot:
  assumes r: "async_receive K E impl single bufs flags i c s = (impl', s', slot_type)"
    and opn: "opn = SockOp i (RecvOp single (socket impl) (impl_state impl) bufs flags)"
    and impl: "has (impl_state impl) non_blocking" "reactor_data impl = Some d"
    and d: "\<not> ds_shutdown (state_at d (world s))" "registered_events (state_at d (world s)) \<noteq> 0"
    and noop: "\<not> (has (impl_state impl) stream_oriented \<and> adapter_all_empty bufs)"
    and oob: "flags AND message_out_of_band \<noteq> 0"
  shows "queues (world s') d ExceptOp = queues (world s) d ExceptOp @ [opn]
    \<and> queues (world (op_cancellation (Some d) slot_type key ct s')) d ExceptOp = queues (world s') d ExceptOp
    \<and> (ct AND (1 OR 2 OR 4) \<noteq> 0 \<longrightarrow> queues (world (op_cancellation (Some d) slot_type key ct s')) d ReadOp =
         filter (\<lambda>x. rop_key (world s') x \<noteq> key) (queues (world s') d ReadOp))"
proof -
  have a: "s' = start_op E ExceptOp (socket impl) (Some d) opn c False s" "slot_type = ReadOp"
    using r impl noop oob by (auto simp: async_receive_def service_start_op_def opn Let_def)
  have "\<exists>r. s' = enqueue_op d ExceptOp opn (s\<lparr>world := r\<rparr>) \<and> queues r = queues (world s)"
  proof (cases "op_queue_of (state_at d (world s)) ExceptOp = []")
    case True
    obtain err r1 where e: "epoll_ctl E CtlMod (socket impl) (registered_events (state_at d (world s))) (DescriptorPtr d) (world s) = (err, r1)"
      by (meson surj_pair)
    have "s' = enqueue_op d ExceptOp opn (s\<lparr>world := r1\<rparr>)"
      using True d by (simp add: a(1) start_op_def e)
    then show ?thesis using queues_ctl [OF e] by blast
  next
    case False
    then have "s' = enqueue_op d ExceptOp opn (s\<lparr>world := world s\<rparr>)" using d by (simp add: a(1) start_op_def Let_def)
    then show ?thesis by blast
  qed
  then obtain r where s': "s' = enqueue_op d ExceptOp opn (s\<lparr>world := r\<rparr>)" "queues r = queues (world s)" by blast
  have "queues (world s') d ExceptOp = queues (world s) d ExceptOp @ [opn]"
    unfolding s'(2) [symmetric] by (simp add: s'(1) enqueue_op_def with_reactor_def queues_def set_queue_def)
  then show ?thesis by (simp add: op_cancellation_def a(2) cancel_by_key_queues)
qed

text \<open>An out-of-band receive on an idle socket, cancelled through its slot with key 0.\<close>

theorem out_of_band_receive_ignores_its_slot_witness:
  "let (impl', s', slot_type) = async_receive one_socket full_epoll nb_stream True [mk_buffer 100 1] 1 9 False (one_stream 0);
       q = queues (world (op_cancellation (Some 0) slot_type 0 1 s')) 0 ExceptOp
   in q = [SockOp 9 (RecvOp True 5 (stream_oriented OR internal_non_blocking) [mk_buffer 100 1] 1)]"
proof -
  obtain impl' s' ty where r:
    "async_receive one_socket full_epoll nb_stream True [mk_buffer 100 1] 1 9 False (one_stream 0) = (impl', s', ty)"
    by (rule prod_cases3)
  from out_of_band_receive_ignores_its_slot [OF r refl nb_stream(1,2) one_stream(1,2) _ _, of 0 1]
  show ?thesis unfolding r Let_def prod.case by (simp add: nb_stream one_stream(3) adapter_all_empty_def adapter_buffers_def adapter_max_buffers_def
      message_out_of_band_def)
qed

end
