(* ===== verification/Strand.thy ===== *)
theory Strand
  imports Prelude
begin

text \<open>
  Strands: handlers given to a strand never run at the same time and run in the order in which they were given,
  whatever threads run them. Two classes provide them, \<^verbatim>\<open>detail/impl/strand_executor_service.{hpp,ipp}\<close> (over any
  executor) and \<^verbatim>\<open>detail/impl/strand_service.{hpp,ipp}\<close> (over an \<open>io_context\<close>); both are here, since they share
  one protocol.

  The functions that run under the strand's mutex are functions on its state. What happens between them is a
  step relation over any number of threads: each thread has a stack of frames for the strand code it is in, the
  innermost first, and each step is one critical section or one action of a thread outside them. The underlying
  executor is the multiset \<open>pool\<close> of strands given to it and not yet taken by a thread. Handlers are values;
  what a handler does is to enter strands, to return or to throw. Queues are lists (theory OpQueue). Left out:
  which mutex of the pool of mutexes a strand uses, and the sharing of implementations between strands that
  follows from hashing in \<open>strand_service::construct\<close>.
\<close>

section \<open>The state of a strand and its critical sections\<close>

record 'h strand_impl =
  strand_locked :: bool
  strand_shutdown :: bool
  waiting_queue :: "'h list"
  strand_ready :: "'h list"

definition new_strand :: "'h strand_impl" where
  "new_strand = \<lparr>strand_locked = False, strand_shutdown = False, waiting_queue = [], strand_ready = []\<rparr>"

text \<open>What the critical section decides for a new handler: destroy it, keep it waiting, acquire the lock (and so the
  duty to schedule the strand), or run it at once.\<close>

datatype entered = Destroyed | Kept | Acquired | Immediate

definition strand_enqueue :: "'h \<Rightarrow> 'h strand_impl \<Rightarrow> entered \<times> 'h strand_impl" where
  "strand_enqueue h x =
     (if strand_shutdown x then (Destroyed, x)
      else if strand_locked x then (Kept, x\<lparr>waiting_queue := waiting_queue x @ [h]\<rparr>)
      else (Acquired, x\<lparr>strand_locked := True\<rparr>))"

definition strand_do_post :: "'h \<Rightarrow> 'h strand_impl \<Rightarrow> entered \<times> 'h strand_impl" where
  "strand_do_post h x =
     (if strand_locked x then (Kept, x\<lparr>waiting_queue := waiting_queue x @ [h]\<rparr>)
      else (Acquired, x\<lparr>strand_locked := True\<rparr>))"

definition strand_do_dispatch :: "bool \<Rightarrow> 'h \<Rightarrow> 'h strand_impl \<Rightarrow> entered \<times> 'h strand_impl" where
  "strand_do_dispatch can_dispatch h x =
     (if can_dispatch \<and> \<not> strand_locked x then (Immediate, x\<lparr>strand_locked := True\<rparr>)
      else if strand_locked x then (Kept, x\<lparr>waiting_queue := waiting_queue x @ [h]\<rparr>)
      else (Acquired, x\<lparr>strand_locked := True\<rparr>))"

text \<open>The calls that give a handler to a strand: those of an executor strand (\<open>Execute\<close> with whether its executor
  never blocks the caller) and those of an \<open>io_context\<close> strand (\<open>StrandDispatch\<close> with the answer of \<open>can_dispatch\<close>).\<close>

datatype strand_call = Execute bool | Dispatch | Post | Defer | StrandDispatch bool | StrandPost

fun enter_strand :: "strand_call \<Rightarrow> 'h \<Rightarrow> 'h strand_impl \<Rightarrow> entered \<times> 'h strand_impl" where
  "enter_strand (StrandDispatch can_dispatch) h x = strand_do_dispatch can_dispatch h x"
| "enter_strand StrandPost h x = strand_do_post h x"
| "enter_strand c h x = strand_enqueue h x"

text \<open>Whether the executor may run the strand in the calling thread when the call has acquired it.\<close>

fun may_run_inline :: "strand_call \<Rightarrow> bool" where
  "may_run_inline (Execute never) = (\<not> never)"
| "may_run_inline Dispatch = True"
| "may_run_inline c = False"

definition push_waiting_to_ready :: "'h strand_impl \<Rightarrow> bool \<times> 'h strand_impl" where
  "push_waiting_to_ready x =
     (let ready = strand_ready x @ waiting_queue x; more_handlers = (ready \<noteq> [])
      in (more_handlers, x\<lparr>strand_ready := ready, waiting_queue := [], strand_locked := more_handlers\<rparr>))"

definition shutdown_strand :: "'h strand_impl \<Rightarrow> 'h list \<times> 'h strand_impl" where
  "shutdown_strand x =
     (waiting_queue x @ strand_ready x, x\<lparr>strand_shutdown := True, waiting_queue := [], strand_ready := []\<rparr>)"

section \<open>Threads\<close>

text \<open>\<open>Owner i h b\<close>: has acquired strand \<open>i\<close> for \<open>h\<close>, which is not in a queue yet. \<open>Submit i b\<close>: has to give the strand
  to the executor. \<open>InStrand i\<close>: in the loop of \<open>run_ready_handlers\<close>, with the strand on the thread's
  \<open>call_stack\<close>. \<open>Dispatching i\<close>: the same context around a handler that \<open>do_dispatch\<close> runs at once.
  \<open>Exiting i\<close>: in the destructor that ends either. \<open>Running i h\<close>: in a handler.\<close>

datatype 'h frame =
    Owner nat 'h bool
  | Submit nat bool
  | InStrand nat
  | Dispatching nat
  | Exiting nat
  | Running nat 'h

record 'h strand_sys =
  strands :: "nat \<Rightarrow> 'h strand_impl"
  pool :: "nat multiset"
  threads :: "'h frame list list"

definition set_strand :: "nat \<Rightarrow> 'h strand_impl \<Rightarrow> 'h strand_sys \<Rightarrow> 'h strand_sys" where
  "set_strand i x s = s\<lparr>strands := (strands s)(i := x)\<rparr>"

definition set_thread :: "nat \<Rightarrow> 'h frame list \<Rightarrow> 'h strand_sys \<Rightarrow> 'h strand_sys" where
  "set_thread t fs s = s\<lparr>threads := (threads s)[t := fs]\<rparr>"

definition start_sys :: "nat \<Rightarrow> 'h strand_sys" where
  "start_sys n = \<lparr>strands = (\<lambda>_. new_strand), pool = {#}, threads = replicate n []\<rparr>"

text \<open>Only code outside strands and handlers call a strand or run the executor.\<close>

fun may_call :: "'h frame list \<Rightarrow> bool" where
  "may_call [] = True"
| "may_call (Running i h # fs) = True"
| "may_call fs = False"

definition running_in_this_thread :: "nat \<Rightarrow> 'h frame list \<Rightarrow> bool" where
  "running_in_this_thread i fs \<longleftrightarrow> InStrand i \<in> set fs \<or> Dispatching i \<in> set fs"

text \<open>The calls that run the handler as a plain function call if the strand is running in this thread.\<close>

fun runs_directly :: "strand_call \<Rightarrow> nat \<Rightarrow> 'h frame list \<Rightarrow> bool" where
  "runs_directly (Execute never) i fs = (\<not> never \<and> running_in_this_thread i fs)"
| "runs_directly Dispatch i fs = running_in_this_thread i fs"
| "runs_directly (StrandDispatch can_dispatch) i fs = running_in_this_thread i fs"
| "runs_directly c i fs = False"

text \<open>An exception out of a handler ends the loop or the dispatch around it: the destructor is next.\<close>

fun unwind :: "'h frame list \<Rightarrow> 'h frame list" where
  "unwind (InStrand i # fs) = Exiting i # fs"
| "unwind (Dispatching i # fs) = Exiting i # fs"
| "unwind fs = fs"

section \<open>Steps\<close>

text \<open>\<open>Submitted\<close>: the strand has taken a handler. \<open>Started\<close>: the loop has started one. \<open>Direct\<close>: a handler is run at
  once, by its caller. \<open>Discarded\<close>: handlers are destroyed without being run.\<close>

datatype 'h label = Tau | Submitted nat 'h | Started nat 'h | Direct nat 'h | Discarded nat "'h list"

inductive strand_step :: "'h strand_sys \<Rightarrow> 'h label \<Rightarrow> 'h strand_sys \<Rightarrow> bool" where
  destroyed: "t < length (threads s) \<Longrightarrow> threads s ! t = fs \<Longrightarrow> may_call fs
    \<Longrightarrow> enter_strand c h (strands s i) = (Destroyed, x) \<Longrightarrow> \<not> runs_directly c i fs
    \<Longrightarrow> strand_step s (Discarded i [h]) (set_strand i x s)"
| kept: "t < length (threads s) \<Longrightarrow> threads s ! t = fs \<Longrightarrow> may_call fs
    \<Longrightarrow> enter_strand c h (strands s i) = (Kept, x) \<Longrightarrow> \<not> runs_directly c i fs
    \<Longrightarrow> strand_step s (Submitted i h) (set_strand i x s)"
| acquired: "t < length (threads s) \<Longrightarrow> threads s ! t = fs \<Longrightarrow> may_call fs
    \<Longrightarrow> enter_strand c h (strands s i) = (Acquired, x) \<Longrightarrow> \<not> runs_directly c i fs
    \<Longrightarrow> strand_step s (Submitted i h) (set_thread t (Owner i h (may_run_inline c) # fs) (set_strand i x s))"
| immediate: "t < length (threads s) \<Longrightarrow> threads s ! t = fs \<Longrightarrow> may_call fs
    \<Longrightarrow> enter_strand c h (strands s i) = (Immediate, x) \<Longrightarrow> \<not> runs_directly c i fs
    \<Longrightarrow> strand_step s (Direct i h) (set_thread t (Running i h # Dispatching i # fs) (set_strand i x s))"
| direct: "t < length (threads s) \<Longrightarrow> threads s ! t = fs \<Longrightarrow> may_call fs \<Longrightarrow> runs_directly c i fs
    \<Longrightarrow> strand_step s (Direct i h) (set_thread t (Running i h # fs) s)"
| push_ready: "t < length (threads s) \<Longrightarrow> threads s ! t = Owner i h b # fs
    \<Longrightarrow> strand_step s Tau (set_thread t (Submit i b # fs)
          (set_strand i ((strands s i)\<lparr>strand_ready := strand_ready (strands s i) @ [h]\<rparr>) s))"
| submit: "t < length (threads s) \<Longrightarrow> threads s ! t = Submit i b # fs
    \<Longrightarrow> strand_step s Tau (set_thread t fs (s\<lparr>pool := add_mset i (pool s)\<rparr>))"
| inline: "t < length (threads s) \<Longrightarrow> threads s ! t = Submit i True # fs
    \<Longrightarrow> strand_step s Tau (set_thread t (InStrand i # fs) s)"
| take: "t < length (threads s) \<Longrightarrow> threads s ! t = fs \<Longrightarrow> may_call fs \<Longrightarrow> i \<in># pool s
    \<Longrightarrow> strand_step s Tau (set_thread t (InStrand i # fs) (s\<lparr>pool := pool s - {#i#}\<rparr>))"
| start: "t < length (threads s) \<Longrightarrow> threads s ! t = InStrand i # fs \<Longrightarrow> strand_ready (strands s i) = h # q
    \<Longrightarrow> strand_step s (Started i h) (set_thread t (Running i h # InStrand i # fs)
          (set_strand i ((strands s i)\<lparr>strand_ready := q\<rparr>) s))"
| drained: "t < length (threads s) \<Longrightarrow> threads s ! t = InStrand i # fs \<Longrightarrow> strand_ready (strands s i) = []
    \<Longrightarrow> strand_step s Tau (set_thread t (Exiting i # fs) s)"
| returned: "t < length (threads s) \<Longrightarrow> threads s ! t = Running i h # fs \<Longrightarrow> strand_step s Tau (set_thread t fs s)"
| dispatched: "t < length (threads s) \<Longrightarrow> threads s ! t = Dispatching i # fs
    \<Longrightarrow> strand_step s Tau (set_thread t (Exiting i # fs) s)"
| thrown: "t < length (threads s) \<Longrightarrow> threads s ! t = Running i h # fs \<Longrightarrow> strand_step s Tau (set_thread t (unwind fs) s)"
| exit: "t < length (threads s) \<Longrightarrow> threads s ! t = Exiting i # fs \<Longrightarrow> push_waiting_to_ready (strands s i) = (again, x)
    \<Longrightarrow> strand_step s Tau (set_thread t (if again then Submit i False # fs else fs) (set_strand i x s))"
| shutdown: "shutdown_strand (strands s i) = (ops, x) \<Longrightarrow> strand_step s (Discarded i ops) (set_strand i x s)"

inductive strand_run :: "'h strand_sys \<Rightarrow> 'h label list \<Rightarrow> 'h strand_sys \<Rightarrow> bool" where
  none: "strand_run s [] s"
| more: "strand_run s tr s1 \<Longrightarrow> strand_step s1 l s2 \<Longrightarrow> strand_run s (tr @ [l]) s2"

end
