(* ===== verification/StrandInv.thy ===== *)
theory StrandInv
  imports Strand "HOL-Library.Sublist"
begin

text \<open>
  The invariant of strands: the lock of a strand is one token, which is in the executor's pool or in one frame of
  one thread; without it the strand's queues are empty.
\<close>

section \<open>Tokens\<close>

text \<open>The frames that stand for the lock of strand \<open>i\<close>.\<close>

fun token :: "nat \<Rightarrow> 'h frame \<Rightarrow> nat" where
  "token i (Owner j h b) = (if j = i then 1 else 0)"
| "token i (Submit j b) = (if j = i then 1 else 0)"
| "token i (InStrand j) = (if j = i then 1 else 0)"
| "token i (Dispatching j) = (if j = i then 1 else 0)"
| "token i (Exiting j) = (if j = i then 1 else 0)"
| "token i (Running j h) = 0"

definition stack_tokens :: "nat \<Rightarrow> 'h frame list \<Rightarrow> nat" where
  "stack_tokens i fs = sum_list (map (token i) fs)"

definition thread_tokens :: "nat \<Rightarrow> 'h strand_sys \<Rightarrow> nat" where
  "thread_tokens i s = sum_list (map (stack_tokens i) (threads s))"

definition tokens :: "nat \<Rightarrow> 'h strand_sys \<Rightarrow> nat" where
  "tokens i s = thread_tokens i s + count (pool s) i"

text \<open>The handlers on their way into the ready queue.\<close>

fun carried :: "nat \<Rightarrow> 'h frame \<Rightarrow> 'h list" where
  "carried i (Owner j h b) = (if j = i then [h] else [])"
| "carried i f = []"

definition stack_carries :: "nat \<Rightarrow> 'h frame list \<Rightarrow> 'h list" where
  "stack_carries i fs = concat (map (carried i) fs)"

definition on_the_way :: "nat \<Rightarrow> 'h strand_sys \<Rightarrow> 'h list" where
  "on_the_way i s = concat (map (stack_carries i) (threads s))"

text \<open>What a strand has taken and not yet started, in the order in which it will.\<close>

definition pending :: "nat \<Rightarrow> 'h strand_sys \<Rightarrow> 'h list" where
  "pending i s = strand_ready (strands s i) @ on_the_way i s @ waiting_queue (strands s i)"

text \<open>Every handler of a strand runs above a context of it.\<close>

fun well_nested :: "'h frame list \<Rightarrow> bool" where
  "well_nested [] = True"
| "well_nested (Running i h # fs) = (running_in_this_thread i fs \<and> well_nested fs)"
| "well_nested (f # fs) = well_nested fs"

definition strand_inv :: "nat \<Rightarrow> 'h strand_sys \<Rightarrow> bool" where
  "strand_inv i s \<longleftrightarrow>
     tokens i s = (if strand_locked (strands s i) then 1 else 0)
     \<and> (\<not> strand_locked (strands s i) \<longrightarrow> strand_ready (strands s i) = [] \<and> waiting_queue (strands s i) = [])
     \<and> (on_the_way i s \<noteq> [] \<longrightarrow> strand_ready (strands s i) = [])"

lemma stack_tokens_simps [simp]:
  "stack_tokens i [] = 0" "stack_tokens i (f # fs) = token i f + stack_tokens i fs"
  by (simp_all add: stack_tokens_def)

lemma stack_carries_simps [simp]:
  "stack_carries i [] = []" "stack_carries i (f # fs) = carried i f @ stack_carries i fs"
  by (simp_all add: stack_carries_def)

lemma sys_simps [simp]:
  "strands (set_thread t fs s) = strands s" "pool (set_thread t fs s) = pool s"
  "threads (set_thread t fs s) = (threads s)[t := fs]"
  "strands (set_strand i x s) = (strands s)(i := x)" "pool (set_strand i x s) = pool s"
  "threads (set_strand i x s) = threads s"
  by (simp_all add: set_thread_def set_strand_def)

lemma thread_tokens_update:
  assumes "t < length (threads s)"
  shows "thread_tokens i (set_thread t fs s) + stack_tokens i (threads s ! t) = thread_tokens i s + stack_tokens i fs"
proof -
  have "stack_tokens i (threads s ! t) \<le> thread_tokens i s"
    using assms member_le_sum_list [of "stack_tokens i (threads s ! t)" "map (stack_tokens i) (threads s)"]
    by (simp add: thread_tokens_def)
  then show ?thesis using assms
    by (simp add: thread_tokens_def map_update sum_list_update)
qed

lemma thread_tokens_other [simp]:
  "thread_tokens i (set_strand j x s) = thread_tokens i s" "thread_tokens i (s\<lparr>pool := p\<rparr>) = thread_tokens i s"
  by (simp_all add: thread_tokens_def)

text \<open>A thread without a token of the strand carries nothing for it.\<close>

lemma carries_token: "stack_tokens i fs = 0 \<Longrightarrow> stack_carries i fs = []"
proof (induction fs)
  case (Cons f fs)
  then show ?case by (cases f) (auto split: if_splits)
qed simp

lemma on_the_way_other [simp]:
  "on_the_way i (set_strand j x s) = on_the_way i s" "on_the_way i (s\<lparr>pool := p\<rparr>) = on_the_way i s"
  by (simp_all add: on_the_way_def)

lemma on_the_way_same:
  assumes "t < length (threads s)" and "stack_carries i fs = stack_carries i (threads s ! t)"
  shows "on_the_way i (set_thread t fs s) = on_the_way i s"
proof -
  have "map (stack_carries i) ((threads s)[t := fs]) = map (stack_carries i) (threads s)"
    using assms by (simp add: map_update) (metis length_map list_update_id nth_map)
  then show ?thesis by (simp add: on_the_way_def)
qed

lemma concat_none: "(\<And>x. x \<in> set xs \<Longrightarrow> g x = []) \<Longrightarrow> concat (map g xs) = []"
  by simp

lemma on_the_way_single:
  assumes t: "t < length (threads s)" and one: "thread_tokens i s = stack_tokens i (threads s ! t)"
  shows "on_the_way i s = stack_carries i (threads s ! t)"
proof -
  let ?xs = "threads s"
  have split: "?xs = take t ?xs @ ?xs ! t # drop (Suc t) ?xs" using t by (rule id_take_nth_drop)
  have "thread_tokens i s = sum_list (map (stack_tokens i) (take t ?xs)) + stack_tokens i (?xs ! t)
      + sum_list (map (stack_tokens i) (drop (Suc t) ?xs))"
    unfolding thread_tokens_def by (subst split) (simp del: id_take_nth_drop)
  with one have "sum_list (map (stack_tokens i) (take t ?xs)) = 0" "sum_list (map (stack_tokens i) (drop (Suc t) ?xs)) = 0"
    by linarith+
  then have "concat (map (stack_carries i) (take t ?xs)) = []" "concat (map (stack_carries i) (drop (Suc t) ?xs)) = []"
    by (auto intro!: concat_none carries_token)
  then have "concat (map (stack_carries i) (take t ?xs @ ?xs ! t # drop (Suc t) ?xs)) = stack_carries i (?xs ! t)"
    by (simp only: map_append concat_append list.map concat.simps append_Nil append_Nil2)
  then show ?thesis using split by (simp add: on_the_way_def)
qed

lemma on_the_way_none: "thread_tokens i s = 0 \<Longrightarrow> on_the_way i s = []"
  by (auto simp: on_the_way_def thread_tokens_def intro!: carries_token)

section \<open>Steps keep the invariant\<close>

text \<open>What a label says about the pending handlers of a strand.\<close>

definition pending_step :: "nat \<Rightarrow> 'h label \<Rightarrow> 'h list \<Rightarrow> 'h list \<Rightarrow> bool" where
  "pending_step i l p p' \<longleftrightarrow>
     (case l of
        Submitted j h \<Rightarrow> p' = (if j = i then p @ [h] else p)
      | Started j h \<Rightarrow> p = (if j = i then h # p' else p')
      | Discarded j hs \<Rightarrow> (if j = i then subseq p' p else p' = p)
      | _ \<Rightarrow> p' = p)"

text \<open>The rules that only exchange frames with the same tokens.\<close>

lemma exchange:
  assumes "t < length (threads s)" and "stack_tokens i fs = stack_tokens i (threads s ! t)"
    and "stack_carries i fs = stack_carries i (threads s ! t)"
  shows "strand_inv i (set_thread t fs s) \<longleftrightarrow> strand_inv i s" "pending i (set_thread t fs s) = pending i s"
proof -
  have "thread_tokens i (set_thread t fs s) = thread_tokens i s"
    using thread_tokens_update [OF assms(1), of i fs] assms(2) by simp
  moreover have "on_the_way i (set_thread t fs s) = on_the_way i s" by (rule on_the_way_same [OF assms(1,3)])
  ultimately show "strand_inv i (set_thread t fs s) \<longleftrightarrow> strand_inv i s" "pending i (set_thread t fs s) = pending i s"
    by (simp_all add: strand_inv_def tokens_def pending_def)
qed

text \<open>A change of another strand's state.\<close>

lemma other_strand:
  "i \<noteq> j \<Longrightarrow> strand_inv i (set_strand j x s) = strand_inv i s" "i \<noteq> j \<Longrightarrow> pending i (set_strand j x s) = pending i s"
  by (simp_all add: strand_inv_def tokens_def pending_def)

lemma enter_cases:
  assumes "enter_strand c h x = (out, x')"
  shows "case out of Destroyed \<Rightarrow> x' = x
    | Kept \<Rightarrow> strand_locked x \<and> x' = x\<lparr>waiting_queue := waiting_queue x @ [h]\<rparr>
    | _ \<Rightarrow> \<not> strand_locked x \<and> x' = x\<lparr>strand_locked := True\<rparr>"
  using assms by (cases c) (auto simp: strand_enqueue_def strand_do_post_def strand_do_dispatch_def split: if_splits)

lemma token_of_frame:
  assumes "strand_inv i s" and t: "t < length (threads s)" and f: "threads s ! t = f # fs" "token i f = 1"
  shows "strand_locked (strands s i)" "thread_tokens i s = 1" "stack_tokens i fs = 0" "count (pool s) i = 0"
    "on_the_way i s = carried i f" "on_the_way i (set_thread t fs' s) = stack_carries i fs'"
proof -
  have le: "stack_tokens i (threads s ! t) \<le> thread_tokens i s"
    using t member_le_sum_list [of "stack_tokens i (threads s ! t)" "map (stack_tokens i) (threads s)"]
    by (simp add: thread_tokens_def)
  have "tokens i s = (if strand_locked (strands s i) then 1 else 0)" using assms(1) by (simp add: strand_inv_def)
  with le f show l: "strand_locked (strands s i)" "thread_tokens i s = 1" "stack_tokens i fs = 0" "count (pool s) i = 0"
    by (auto simp: tokens_def split: if_splits)
  have "on_the_way i s = stack_carries i (threads s ! t)" by (rule on_the_way_single [OF t]) (simp add: l f)
  then show "on_the_way i s = carried i f" using carries_token [OF l(3)] by (simp add: f)
  have "thread_tokens i (set_thread t fs' s) = stack_tokens i (threads (set_thread t fs' s) ! t)"
    using thread_tokens_update [OF t, of i fs'] l f t by simp
  then have "on_the_way i (set_thread t fs' s) = stack_carries i (threads (set_thread t fs' s) ! t)"
    by (rule on_the_way_single [rotated]) (simp add: t)
  then show "on_the_way i (set_thread t fs' s) = stack_carries i fs'" using t by simp
qed

lemma no_tokens: "thread_tokens i s = 0 \<Longrightarrow> t < length (threads s) \<Longrightarrow> stack_tokens i (threads s ! t) = 0"
  by (simp add: thread_tokens_def)

lemma swap_sets: "set_thread t fs (set_strand i x s) = set_strand i x (set_thread t fs s)"
  by (simp add: set_thread_def set_strand_def)

text \<open>A thread that takes the lock of a free strand.\<close>

lemma acquire_token:
  assumes inv: "strand_inv i s" "\<not> strand_locked (strands s i)" and t: "t < length (threads s)"
    and fs: "stack_tokens i fs = 1 + stack_tokens i (threads s ! t)"
  shows "thread_tokens i (set_thread t fs (set_strand i x s)) = 1 \<and> count (pool s) i = 0
    \<and> on_the_way i (set_thread t fs (set_strand i x s)) = stack_carries i fs \<and> on_the_way i s = []
    \<and> strand_ready (strands s i) = [] \<and> waiting_queue (strands s i) = [] \<and> stack_carries i (threads s ! t) = []"
proof -
  have z: "thread_tokens i s = 0" "count (pool s) i = 0" using inv by (auto simp: strand_inv_def tokens_def)
  then have r: "count (pool s) i = 0" "on_the_way i s = []" "strand_ready (strands s i) = []" "waiting_queue (strands s i) = []"
    using inv on_the_way_none [OF z(1)] by (simp_all add: strand_inv_def)
  have s0: "stack_tokens i (threads s ! t) = 0" by (rule no_tokens [OF z(1) t])
  have one: "thread_tokens i (set_thread t fs (set_strand i x s)) = 1"
    using thread_tokens_update [of t "set_strand i x s" i fs] t z s0 fs by simp
  have "on_the_way i (set_thread t fs (set_strand i x s)) = stack_carries i (threads (set_thread t fs (set_strand i x s)) ! t)"
    by (rule on_the_way_single) (use t one fs s0 in simp_all)
  then show ?thesis using t r one carries_token [OF s0] by simp
qed

text \<open>One lemma for each kind of step that moves a token or a handler. A step of another strand changes nothing for
  strand \<open>i\<close> but the frames of one thread.\<close>

abbreviation keeps :: "nat \<Rightarrow> 'h label \<Rightarrow> 'h strand_sys \<Rightarrow> 'h strand_sys \<Rightarrow> bool" where
  "keeps i l s s' \<equiv> strand_inv i s' \<and> pending_step i l (pending i s) (pending i s')"

lemmas keeps_defs = strand_inv_def tokens_def pending_step_def pending_def

lemma exchange_keeps:
  assumes "strand_inv i s" "t < length (threads s)" "stack_tokens i fs = stack_tokens i (threads s ! t)"
    "stack_carries i fs = stack_carries i (threads s ! t)" "pending_step i l (pending i s) (pending i s)"
  shows "keeps i l s (set_thread t fs s)"
  using exchange [OF assms(2-4)] assms(1,5) by simp

lemma other_keeps:
  assumes "strand_inv i s" "i \<noteq> j" "t < length (threads s)" "stack_tokens i fs = stack_tokens i (threads s ! t)"
    "stack_carries i fs = stack_carries i (threads s ! t)" "pending_step i l (pending i s) (pending i s)"
  shows "keeps i l s (set_thread t fs (set_strand j x s))"
  using exchange [of t "set_strand j x s" i fs] assms by (simp add: other_strand)

lemma acquire_keeps:
  assumes inv: "strand_inv i s" and t: "t < length (threads s)"
    and x: "\<not> strand_locked (strands s j)" "x = (strands s j)\<lparr>strand_locked := True\<rparr>"
    and fs: "stack_tokens i fs = (if i = j then 1 else 0) + stack_tokens i (threads s ! t)"
      "stack_carries i fs = (if i = j then hs else []) @ stack_carries i (threads s ! t)"
    and l: "pending_step i l p (p @ (if i = j then hs else []))" "p = pending i s"
  shows "keeps i l s (set_thread t fs (set_strand j x s))"
proof (cases "i = j")
  case True
  have f: "\<not> strand_locked (strands s i)" "stack_tokens i fs = 1 + stack_tokens i (threads s ! t)" using True x fs by simp_all
  note a = acquire_token [OF inv f(1) t f(2), of x]
  then have "pending i s = []" "pending i (set_thread t fs (set_strand j x s)) = hs"
    using True x fs(2) by (simp_all add: pending_def)
  moreover have "strand_inv i (set_thread t fs (set_strand j x s))" using a x True by (simp add: strand_inv_def tokens_def)
  ultimately show ?thesis using l True by simp
qed (use other_keeps [OF inv _ t] fs l in simp)

lemma push_ready_keeps:
  assumes inv: "strand_inv i s" and t: "t < length (threads s)" "threads s ! t = Owner j h b # fs"
  shows "keeps i Tau s (set_thread t (Submit j b # fs)
    (set_strand j ((strands s j)\<lparr>strand_ready := strand_ready (strands s j) @ [h]\<rparr>) s))"
proof (cases "i = j")
  case True
  note tok = token_of_frame [OF inv t(1), of "Owner j h b" fs]
  have "thread_tokens i (set_thread t (Submit j b # fs) s) = 1"
    using thread_tokens_update [OF t(1), of i "Submit j b # fs"] tok t(2) True by simp
  moreover have "on_the_way i (set_thread t (Submit j b # fs) s) = []"
    using tok(6) [of "Submit j b # fs"] carries_token [of i fs] tok(3) t(2) True by simp
  moreover have "strand_ready (strands s i) = []" "on_the_way i s = [h]" "strand_locked (strands s i)" "count (pool s) i = 0"
    using inv tok(1,4,5) t(2) True by (simp_all add: strand_inv_def)
  ultimately show ?thesis unfolding swap_sets using True by (simp add: keeps_defs)
next
  case False
  then show ?thesis by (intro other_keeps [OF inv]) (use t in \<open>simp_all add: pending_step_def\<close>)
qed

text \<open>The token goes to the executor's pool and comes back.\<close>

lemma submit_keeps:
  assumes inv: "strand_inv i s" and t: "t < length (threads s)" "threads s ! t = Submit j b # fs"
  shows "keeps i Tau s (set_thread t fs (s\<lparr>pool := add_mset j (pool s)\<rparr>))"
proof (cases "i = j")
  case True
  let ?s = "s\<lparr>pool := add_mset j (pool s)\<rparr>"
  note tok = token_of_frame [OF inv t(1), of "Submit j b" fs]
  have "thread_tokens i (set_thread t fs ?s) = 0" "on_the_way i (set_thread t fs ?s) = []"
    using thread_tokens_update [of t ?s i fs] tok t True by (simp_all add: on_the_way_none)
  then show ?thesis using inv t tok True by (simp add: keeps_defs)
next
  case False
  let ?s = "s\<lparr>pool := add_mset j (pool s)\<rparr>"
  have "strand_inv i ?s \<longleftrightarrow> strand_inv i s" "pending i ?s = pending i s" using False by (simp_all add: strand_inv_def tokens_def pending_def)
  then show ?thesis using exchange [of t ?s i fs] inv t False by (simp add: pending_step_def)
qed

lemma take_keeps:
  assumes inv: "strand_inv i s" and t: "t < length (threads s)" and j: "j \<in># pool s"
  shows "keeps i Tau s (set_thread t (InStrand j # threads s ! t) (s\<lparr>pool := pool s - {#j#}\<rparr>))"
proof (cases "i = j")
  case True
  let ?s = "s\<lparr>pool := pool s - {#j#}\<rparr>" and ?fs = "InStrand j # threads s ! t"
  obtain n where "count (pool s) i = Suc n" using j True gr0_implies_Suc [of "count (pool s) i"] by auto
  moreover have "tokens i s = (if strand_locked (strands s i) then 1 else 0)" using inv by (simp add: strand_inv_def)
  ultimately have c: "count (pool s) i = 1" "thread_tokens i s = 0" "strand_locked (strands s i)"
    by (auto simp: tokens_def split: if_splits)
  have fs: "stack_tokens i (threads s ! t) = 0" using no_tokens [OF c(2) t] .
  have tt: "thread_tokens i (set_thread t ?fs ?s) = 1"
    using thread_tokens_update [of t ?s i ?fs] t True c fs by simp
  have "on_the_way i (set_thread t ?fs ?s) = stack_carries i (threads (set_thread t ?fs ?s) ! t)"
    by (rule on_the_way_single) (use t tt True fs in simp_all)
  then have "on_the_way i (set_thread t ?fs ?s) = []" using t carries_token [OF fs] by simp
  then show ?thesis using inv c tt True on_the_way_none [OF c(2)] by (simp add: keeps_defs)
next
  case False
  let ?s = "s\<lparr>pool := pool s - {#j#}\<rparr>"
  have "strand_inv i ?s \<longleftrightarrow> strand_inv i s" "pending i ?s = pending i s" using False by (simp_all add: strand_inv_def tokens_def pending_def)
  then show ?thesis using exchange [of t ?s i "InStrand j # threads s ! t"] inv t False by (simp add: pending_step_def)
qed

lemma start_keeps:
  assumes inv: "strand_inv i s" and t: "t < length (threads s)" "threads s ! t = InStrand j # fs"
    and q: "strand_ready (strands s j) = h # q"
  shows "keeps i (Started j h) s (set_thread t (Running j h # InStrand j # fs) (set_strand j ((strands s j)\<lparr>strand_ready := q\<rparr>) s))"
proof (cases "i = j")
  case True
  let ?x = "(strands s j)\<lparr>strand_ready := q\<rparr>"
  note tok = token_of_frame [OF inv t(1), of "InStrand j" fs]
  have "strand_inv i (set_strand j ?x s)" using inv tok(1,5) t(2) True by (simp add: strand_inv_def tokens_def)
  moreover have "pending i s = h # pending i (set_strand j ?x s)" using q True by (simp add: pending_def)
  ultimately show ?thesis
    using exchange [of t "set_strand j ?x s" i "Running j h # InStrand j # fs"] t True by (simp add: pending_step_def)
next
  case False
  then show ?thesis by (intro other_keeps [OF inv]) (use t in \<open>simp_all add: pending_step_def\<close>)
qed

lemma exit_keeps:
  assumes inv: "strand_inv i s" and t: "t < length (threads s)" "threads s ! t = Exiting j # fs"
    and p: "push_waiting_to_ready (strands s j) = (again, x)"
  shows "keeps i Tau s (set_thread t (if again then Submit j False # fs else fs) (set_strand j x s))"
proof (cases "i = j")
  case True
  let ?fs = "if again then Submit j False # fs else fs"
  note tok = token_of_frame [OF inv t(1), of "Exiting j" fs]
  have x: "again \<longleftrightarrow> strand_ready (strands s j) @ waiting_queue (strands s j) \<noteq> []"
    "x = (strands s j)\<lparr>strand_ready := strand_ready (strands s j) @ waiting_queue (strands s j), waiting_queue := [], strand_locked := again\<rparr>"
    using p by (auto simp: push_waiting_to_ready_def Let_def)
  have tt: "thread_tokens i (set_thread t ?fs s) = (if again then 1 else 0)"
    using thread_tokens_update [OF t(1), of i ?fs] tok t(2) True by simp
  have "on_the_way i (set_thread t ?fs s) = []"
    using tok(6) [of ?fs] tok t(2) carries_token [of i fs] True by (simp split: if_splits)
  moreover have "on_the_way i s = []" "strand_locked (strands s i)" "count (pool s) i = 0" using tok(1,4,5) t(2) True by simp_all
  ultimately show ?thesis unfolding swap_sets using tt True by (simp add: x keeps_defs)
next
  case False
  then show ?thesis by (intro other_keeps [OF inv]) (use t in \<open>simp_all add: pending_step_def\<close>)
qed

lemma shutdown_keeps:
  assumes inv: "strand_inv i s" and q: "shutdown_strand (strands s j) = (ops, x)"
  shows "keeps i (Discarded j ops) s (set_strand j x s)"
proof (cases "i = j")
  case True
  have "subseq (on_the_way i s) (strand_ready (strands s i) @ on_the_way i s @ waiting_queue (strands s i))"
    by (rule list_emb_append2 [OF list_emb_prefix]) simp
  then show ?thesis using inv q True by (auto simp: keeps_defs shutdown_strand_def)
qed (use inv in \<open>simp add: other_strand pending_step_def\<close>)

lemma strand_step_inv:
  assumes "strand_step s l s'" and inv: "strand_inv i s"
  shows "keeps i l s s'"
  using assms
proof cases
  case (destroyed t fs c h j x)
  then have "x = strands s j" using enter_cases by fastforce
  then have "s' = s" using destroyed by (simp add: set_strand_def)
  then show ?thesis using inv destroyed by (simp add: pending_step_def)
next
  case (kept t fs c h j x)
  then have x: "strand_locked (strands s j)" "x = (strands s j)\<lparr>waiting_queue := waiting_queue (strands s j) @ [h]\<rparr>"
    using enter_cases [OF kept(6)] by simp_all
  then show ?thesis using inv kept by (cases "i = j") (simp_all add: other_strand keeps_defs)
next
  case (acquired t fs c h j x)
  show ?thesis unfolding acquired(1,2)
    by (rule acquire_keeps [OF inv acquired(3) _ _ _ _ _ refl, where hs = "[h]"])
      (use enter_cases [OF acquired(6)] acquired(4) in \<open>simp_all add: pending_step_def\<close>)
next
  case (immediate t fs c h j x)
  show ?thesis unfolding immediate(1,2)
    by (rule acquire_keeps [OF inv immediate(3) _ _ _ _ _ refl, where hs = "[]"])
      (use enter_cases [OF immediate(6)] immediate(4) in \<open>simp_all add: pending_step_def\<close>)
next
  case (thrown t j h fs)
  have "stack_tokens i (unwind fs) = stack_tokens i fs" "stack_carries i (unwind fs) = stack_carries i fs"
    by (cases fs rule: unwind.cases; simp)+
  then show ?thesis unfolding thrown(1,2) using thrown(3-) by (intro exchange_keeps [OF inv]) (simp_all add: pending_step_def)
next
  case (take t fs j)
  then show ?thesis using take_keeps [OF inv take(3,6)] by simp
next
  case (push_ready t j h b fs)
  then show ?thesis using push_ready_keeps [OF inv push_ready(3,4)] by simp
next
  case (submit t j b fs)
  then show ?thesis using submit_keeps [OF inv submit(3,4)] by simp
next
  case (start t j fs h q)
  then show ?thesis using start_keeps [OF inv start(3-5)] by simp
next
  case (exit t j fs again x)
  then show ?thesis using exit_keeps [OF inv exit(3-5)] by simp
next
  case (shutdown j ops x)
  then show ?thesis using shutdown_keeps [OF inv shutdown(3)] by simp
qed (use inv in \<open>simp_all add: exchange pending_step_def\<close>)

end
