(* ===== verification/StrandSpec.thy ===== *)
theory StrandSpec
  imports StrandInv
begin

text \<open>
  What strands promise, for any number of threads and strands and any interleaving of their steps: handlers of a
  strand exclude each other, start in the order in which the strand took them, and are not forgotten.
\<close>

section \<open>Runs\<close>

text \<open>The handlers that a strand has taken and started along a run.\<close>

fun taken_by :: "nat \<Rightarrow> 'h label list \<Rightarrow> 'h list" where
  "taken_by i [] = []"
| "taken_by i (Submitted j h # tr) = (if j = i then h # taken_by i tr else taken_by i tr)"
| "taken_by i (l # tr) = taken_by i tr"

fun started_by :: "nat \<Rightarrow> 'h label list \<Rightarrow> 'h list" where
  "started_by i [] = []"
| "started_by i (Started j h # tr) = (if j = i then h # started_by i tr else started_by i tr)"
| "started_by i (l # tr) = started_by i tr"

fun discards :: "nat \<Rightarrow> 'h label \<Rightarrow> bool" where
  "discards i (Discarded j hs) = (j = i)"
| "discards i l = False"

lemma taken_by_append: "taken_by i (tr @ tr') = taken_by i tr @ taken_by i tr'"
  by (induction i tr rule: taken_by.induct) simp_all

lemma started_by_append: "started_by i (tr @ tr') = started_by i tr @ started_by i tr'"
  by (induction i tr rule: started_by.induct) simp_all

lemma strand_inv_start: "strand_inv i (start_sys n)"
  by (simp add: strand_inv_def start_sys_def new_strand_def tokens_def thread_tokens_def on_the_way_def sum_list_replicate)

lemma strand_run_inv: "strand_run s tr s' \<Longrightarrow> strand_inv i s \<Longrightarrow> strand_inv i s'"
  by (induction rule: strand_run.induct) (auto dest: strand_step_inv)

lemma reachable_inv: "strand_run (start_sys n) tr s \<Longrightarrow> strand_inv i s"
  by (rule strand_run_inv [OF _ strand_inv_start])

section \<open>Nesting\<close>

lemma well_nested_unwind: "well_nested (Running i h # fs) \<Longrightarrow> well_nested (unwind fs)"
  by (cases fs rule: unwind.cases) simp_all

definition all_nested :: "'h strand_sys \<Rightarrow> bool" where
  "all_nested s \<longleftrightarrow> (\<forall>fs \<in> set (threads s). well_nested fs)"

lemma all_nested_other [simp]: "all_nested (set_strand i x s) = all_nested s" "all_nested (s\<lparr>pool := p\<rparr>) = all_nested s"
  by (simp_all add: all_nested_def)

lemma all_nested_set_thread:
  "t < length (threads s) \<Longrightarrow> all_nested s \<Longrightarrow> (well_nested (threads s ! t) \<Longrightarrow> well_nested fs)
    \<Longrightarrow> all_nested (set_thread t fs s)"
  using set_update_subset_insert [of "threads s" t fs] by (auto simp: all_nested_def)

lemma strand_step_nested: "strand_step s l s' \<Longrightarrow> all_nested s \<Longrightarrow> all_nested s'"
proof (induction rule: strand_step.induct)
  case (thrown t s i h fs)
  then show ?case using well_nested_unwind [of i h fs] by (auto intro: all_nested_set_thread)
next
  case (direct t s fs c i h)
  then show ?case by (cases c) (auto intro!: all_nested_set_thread)
qed (auto simp: running_in_this_thread_def intro!: all_nested_set_thread)

lemma strand_run_nested: "strand_run s tr s' \<Longrightarrow> all_nested s \<Longrightarrow> all_nested s'"
  by (induction rule: strand_run.induct) (auto dest: strand_step_nested)

lemma reachable_nested: "strand_run (start_sys n) tr s \<Longrightarrow> \<forall>fs \<in> set (threads s). well_nested fs"
  using strand_run_nested [of "start_sys n" tr s] by (simp add: all_nested_def start_sys_def)

lemma frame_token: "f \<in> set fs \<Longrightarrow> token i f \<le> stack_tokens i fs"
  by (simp add: stack_tokens_def member_le_sum_list)

lemma running_token: "well_nested fs \<Longrightarrow> Running i h \<in> set fs \<Longrightarrow> 1 \<le> stack_tokens i fs"
proof (induction fs rule: well_nested.induct)
  case (2 j g fs)
  show ?case
  proof (cases "Running i h \<in> set fs")
    case False
    then have "InStrand i \<in> set fs \<or> Dispatching i \<in> set fs" using 2 by (auto simp: running_in_this_thread_def)
    then show ?thesis using frame_token [of "InStrand i" fs i] frame_token [of "Dispatching i" fs i] by auto
  qed (use 2 in auto)
qed auto

lemma two_threads:
  assumes "t < length xs" "u < length xs" "t \<noteq> u"
  shows "f (xs ! t) + f (xs ! u) \<le> sum_list (map f xs :: nat list)"
proof -
  have "sum_list (map f xs) = (\<Sum>k<length xs. f (xs ! k))" by (simp add: sum_list_sum_nth atLeast0LessThan)
  moreover have "f (xs ! t) + f (xs ! u) = (\<Sum>k\<in>{t, u}. f (xs ! k))" using assms by simp
  moreover have "\<dots> \<le> (\<Sum>k<length xs. f (xs ! k))" using assms by (intro sum_mono2) auto
  ultimately show ?thesis by simp
qed

text \<open>C7: Handlers of one strand never run at the same time: in every state that can be reached from an idle system of
  \<open>n\<close> threads, by any interleaving of the critical sections of posts, dispatches, loops and exits (handlers that
  throw and shutdowns included), two threads that are inside handlers of the same strand are the same thread.
\<close>

theorem strand_mutual_exclusion:
  assumes "strand_run (start_sys n) tr s"
    and "t < length (threads s)" "u < length (threads s)"
    and "Running i g \<in> set (threads s ! t)" "Running i h \<in> set (threads s ! u)"
  shows "t = u"
proof (rule ccontr)
  assume "t \<noteq> u"
  then have "stack_tokens i (threads s ! t) + stack_tokens i (threads s ! u) \<le> tokens i s"
    using two_threads [OF assms(2,3)] by (simp add: tokens_def thread_tokens_def add_increasing2)
  moreover have "1 \<le> stack_tokens i (threads s ! t)" "1 \<le> stack_tokens i (threads s ! u)"
    using reachable_nested [OF assms(1)] assms(2-) by (meson nth_mem running_token)+
  moreover have "tokens i s \<le> 1" using reachable_inv [OF assms(1), of i] by (simp add: strand_inv_def)
  ultimately show False by linarith
qed

section \<open>Order\<close>

lemma run_order:
  assumes "strand_run (start_sys n) tr s"
  shows "subseq (started_by i tr @ pending i s) (taken_by i tr)
    \<and> (list_ex (discards i) tr \<or> started_by i tr @ pending i s = taken_by i tr)"
  using assms
proof (induction "start_sys n :: 'a strand_sys" tr s rule: strand_run.induct)
  case none
  then show ?case by (simp add: start_sys_def pending_def new_strand_def on_the_way_def stack_carries_def)
next
  case (more tr s1 l s2)
  have p: "pending_step i l (pending i s1) (pending i s2)"
    using strand_step_inv [OF more(3) reachable_inv [OF more(1)]] by blast
  have ih: "subseq (started_by i tr @ pending i s1) (taken_by i tr)"
    "list_ex (discards i) tr \<or> started_by i tr @ pending i s1 = taken_by i tr" using more(2) by simp_all
  show ?case
  proof (cases l)
    case (Submitted j h)
    then show ?thesis using p ih
      by (auto simp: pending_step_def taken_by_append started_by_append simp flip: append_assoc)
  next
    case (Discarded j hs)
    then have "j \<noteq> i \<Longrightarrow> pending i s2 = pending i s1"
      using p by (simp add: pending_step_def)
    moreover have "taken_by i (tr @ [l]) = taken_by i tr" "started_by i (tr @ [l]) = started_by i tr"
      "list_ex (discards i) (tr @ [l]) \<longleftrightarrow> list_ex (discards i) tr \<or> j = i"
      by (simp_all add: Discarded taken_by_append started_by_append)
    moreover have "subseq (pending i s2) (pending i s1)"
      using p by (cases "j = i"; simp add: Discarded pending_step_def)
    note subseq_order.trans [OF list_emb_append_mono [OF subseq_order.refl this] ih(1)]
    ultimately show ?thesis using ih(2) by (cases "j = i") simp_all
  qed (use p ih in \<open>auto simp: pending_step_def taken_by_append started_by_append\<close>)
qed

text \<open>C8: A strand refines a first-in first-out queue: along every run from an idle system, the handlers that its loops
  have started, followed by those pending, are the handlers it has taken, in the order in which it took them, up to
  those that a shutdown has destroyed; without a shutdown (or a handler refused after one) of the strand they are
  exactly those, so the handlers started are a prefix of those taken.
\<close>

theorem strand_is_fifo:
  assumes "strand_run (start_sys n) tr s"
  shows "subseq (started_by i tr @ pending i s) (taken_by i tr)
    \<and> (if list_ex (discards i) tr then True else taken_by i tr = started_by i tr @ pending i s)"
  using run_order [OF assms, of i] by auto

section \<open>Progress\<close>

lemma pending_locked: "strand_inv i s \<Longrightarrow> pending i s \<noteq> [] \<Longrightarrow> strand_locked (strands s i)"
  using on_the_way_none [of i s] by (auto simp: strand_inv_def pending_def tokens_def split: if_splits)

lemma idle_tokens: "\<forall>fs \<in> set (threads s). fs = [] \<Longrightarrow> thread_tokens i s = 0 \<and> on_the_way i s = []"
  by (auto simp: thread_tokens_def on_the_way_def)

text \<open>A thread takes the strand and starts the first ready handler.\<close>

lemma take_and_start:
  assumes "0 < length (threads s)" "threads s ! 0 = []" "i \<in># pool s" "strand_ready (strands s i) = h # q"
  shows "\<exists>s'. strand_run s [Tau, Started i h] s'"
proof -
  let ?s1 = "set_thread 0 [InStrand i] (s\<lparr>pool := pool s - {#i#}\<rparr>)"
  have "strand_step s Tau ?s1" using assms by (intro strand_step.take) auto
  moreover have "strand_step ?s1 (Started i h) (set_thread 0 [Running i h, InStrand i]
      (set_strand i ((strands ?s1 i)\<lparr>strand_ready := q\<rparr>) ?s1))"
    using assms by (intro strand_step.start) simp_all
  ultimately show ?thesis using strand_run.more [OF strand_run.more [OF strand_run.none]] by fastforce
qed

lemma strand_run_trans: "strand_run s2 tr' s3 \<Longrightarrow> strand_run s1 tr s2 \<Longrightarrow> strand_run s1 (tr @ tr') s3"
  by (induction rule: strand_run.induct) (auto intro: strand_run.more simp flip: append_assoc)

text \<open>With nothing ready, it moves the waiting handlers over and gives the strand back.\<close>

lemma take_and_refill:
  assumes "0 < length (threads s)" "threads s ! 0 = []" "i \<in># pool s"
    and "strand_ready (strands s i) = []" "waiting_queue (strands s i) \<noteq> []"
  shows "\<exists>s'. strand_run s [Tau, Tau, Tau, Tau] s' \<and> 0 < length (threads s') \<and> threads s' ! 0 = []
    \<and> i \<in># pool s' \<and> strand_ready (strands s' i) = waiting_queue (strands s i)"
proof -
  let ?s1 = "set_thread 0 [InStrand i] (s\<lparr>pool := pool s - {#i#}\<rparr>)"
  let ?s2 = "set_thread 0 [Exiting i] ?s1"
  let ?x = "(strands s i)\<lparr>strand_ready := waiting_queue (strands s i), waiting_queue := [], strand_locked := True\<rparr>"
  let ?s3 = "set_thread 0 [Submit i False] (set_strand i ?x ?s2)"
  let ?s4 = "set_thread 0 [] (?s3\<lparr>pool := add_mset i (pool ?s3)\<rparr>)"
  have 1: "strand_step s Tau ?s1" using assms by (intro strand_step.take) auto
  have 2: "strand_step ?s1 Tau ?s2" using assms by (intro strand_step.drained) auto
  have "push_waiting_to_ready (strands ?s2 i) = (True, ?x)" using assms by (simp add: push_waiting_to_ready_def)
  then have 3: "strand_step ?s2 Tau ?s3" using assms strand_step.exit [of 0 ?s2 i "[]" True ?x] by simp
  have 4: "strand_step ?s3 Tau ?s4" using assms by (intro strand_step.submit) auto
  have "strand_run s ((([] @ [Tau]) @ [Tau]) @ [Tau] @ []) ?s3"
    using strand_run.more [OF strand_run.more [OF strand_run.more [OF strand_run.none 1] 2] 3] by simp
  from strand_run.more [OF this 4] show ?thesis using assms by (intro exI [of _ ?s4]) simp
qed

text \<open>C28: No handler is forgotten: whenever an idle system has been run to a state in which every thread is idle again
  and a strand still has handlers pending, the strand is in the executor's pool exactly once, and the threads can
  go on to start the oldest of them.
\<close>

theorem strand_pending_runs:
  assumes "strand_run (start_sys n) tr s" and "0 < length (threads s)" and "\<forall>fs \<in> set (threads s). fs = []"
    and "pending i s = h # q"
  shows "count (pool s) i = 1 \<and> (\<exists>taus s'. strand_run s (taus @ [Started i h]) s')"
proof -
  have inv: "strand_inv i s" by (rule reachable_inv [OF assms(1)])
  note idle = idle_tokens [OF assms(3), of i]
  have c: "count (pool s) i = 1"
    using pending_locked [OF inv] assms(4) inv idle by (simp add: strand_inv_def tokens_def)
  then have i: "i \<in># pool s" using not_in_iff [of i "pool s"] by auto
  have t0: "threads s ! 0 = []" using assms(2,3) by simp
  have q: "strand_ready (strands s i) @ waiting_queue (strands s i) = h # q" using assms(4) idle by (simp add: pending_def)
  have "\<exists>taus s'. strand_run s (taus @ [Started i h]) s'"
  proof (cases "strand_ready (strands s i)")
    case Nil
    then obtain s' where s': "strand_run s [Tau, Tau, Tau, Tau] s'" "0 < length (threads s')" "threads s' ! 0 = []"
      "i \<in># pool s'" "strand_ready (strands s' i) = h # q"
      using take_and_refill [OF assms(2) t0 i] assms(2) q by auto
    then show ?thesis using take_and_start [OF s'(2-5)] strand_run_trans [OF _ s'(1)]
      by (metis append.assoc append_Cons append_Nil)
  next
    case (Cons g r)
    then show ?thesis using take_and_start [OF assms(2) t0 i Cons] q by (metis append_Cons append_Nil list.inject)
  qed
  then show ?thesis using c by blast
qed

section \<open>A run\<close>

text \<open>Two threads post to strand 0, the second while the first is between the two parts of \<open>enqueue\<close>; the first then
  gives the strand to the executor, and the second takes it and starts a handler.\<close>

definition demo_posted :: "nat strand_sys" where
  "demo_posted =
     \<lparr>strands = (\<lambda>_. new_strand)
        (0 := \<lparr>strand_locked = True, strand_shutdown = False, waiting_queue = [8], strand_ready = [7]\<rparr>),
      pool = {#0#}, threads = [[], []]\<rparr>"

definition demo_running :: "nat strand_sys" where
  "demo_running =
     \<lparr>strands = (\<lambda>_. new_strand)
        (0 := \<lparr>strand_locked = True, strand_shutdown = False, waiting_queue = [8], strand_ready = []\<rparr>),
      pool = {#}, threads = [[], [Running 0 7, InStrand 0]]\<rparr>"

lemmas demo_defs = start_sys_def new_strand_def set_thread_def set_strand_def
  strand_do_post_def demo_posted_def demo_running_def

lemma demo_posts: "strand_run (start_sys 2) [Submitted 0 7, Submitted 0 8, Tau, Tau] demo_posted"
proof -
  let ?s0 = "start_sys 2 :: nat strand_sys"
  let ?x1 = "new_strand\<lparr>strand_locked := True\<rparr>"
  let ?s1 = "set_thread 0 [Owner 0 7 False] (set_strand 0 ?x1 ?s0)"
  let ?x2 = "?x1\<lparr>waiting_queue := [8]\<rparr>"
  let ?s2 = "set_strand 0 ?x2 ?s1"
  let ?s3 = "set_thread 0 [Submit 0 False] (set_strand 0 (?x2\<lparr>strand_ready := [7]\<rparr>) ?s2)"
  have 1: "strand_step ?s0 (Submitted 0 7) ?s1"
    using strand_step.acquired [of 0 ?s0 "[]" StrandPost 7 0 ?x1] by (simp add: demo_defs numeral_2_eq_2)
  have 2: "strand_step ?s1 (Submitted 0 8) ?s2"
    using strand_step.kept [of 1 ?s1 "[]" StrandPost 8 0 ?x2] by (simp add: demo_defs numeral_2_eq_2)
  have 3: "strand_step ?s2 Tau ?s3"
    using strand_step.push_ready [of 0 ?s2 0 7 False "[]"] by (simp add: demo_defs numeral_2_eq_2)
  have 4: "strand_step ?s3 Tau demo_posted"
    using strand_step.submit [of 0 ?s3 0 False "[]"] by (simp add: demo_defs numeral_2_eq_2)
  from strand_run.more [OF strand_run.more [OF strand_run.more [OF strand_run.more [OF strand_run.none 1] 2] 3] 4]
  show ?thesis by simp
qed

lemma demo_runs: "strand_run (start_sys 2) [Submitted 0 7, Submitted 0 8, Tau, Tau, Tau, Started 0 7] demo_running"
proof -
  let ?s5 = "set_thread 1 [InStrand 0] (demo_posted\<lparr>pool := {#}\<rparr>)"
  have 5: "strand_step demo_posted Tau ?s5"
    using strand_step.take [of 1 demo_posted "[]" 0] by (simp add: demo_defs)
  have 6: "strand_step ?s5 (Started 0 7) demo_running"
    using strand_step.start [of 1 ?s5 0 "[]" 7 "[]"] by (simp add: demo_defs)
  from strand_run.more [OF strand_run.more [OF demo_posts 5] 6] show ?thesis by simp
qed

lemma strand_mutual_exclusion_witness:
  "Running 0 7 \<in> set (threads demo_running ! 1) \<and> Running 0 7 \<notin> set (threads demo_running ! 0)"
  using strand_mutual_exclusion [OF demo_runs, of 1 1 0 7 7] by (simp add: demo_running_def)

lemma strand_is_fifo_witness:
  "taken_by 0 [Submitted 0 7, Submitted 0 8, Tau, Tau, Tau, Started 0 (7 :: nat)] = 7 # pending 0 demo_running"
  using strand_is_fifo [OF demo_runs, of 0] by simp

lemma strand_pending_runs_witness: "\<exists>taus s'. strand_run demo_posted (taus @ [Started 0 7]) s'"
  using strand_pending_runs [OF demo_posts, of 0 7 "[8]"]
  by (simp add: demo_posted_def pending_def on_the_way_def stack_carries_def)

end
