(* ===== verification/DynBuffer.thy ===== *)
theory DynBuffer
  imports Buffers
begin

text \<open>
  Buffers that grow: \<open>dynamic_string_buffer\<close> and \<open>dynamic_vector_buffer\<close> of \<^verbatim>\<open>asio/buffer.hpp\<close>, and
  \<open>basic_streambuf\<close> of \<^verbatim>\<open>asio/basic_streambuf.hpp\<close>.

  The memory of the string, vector or stream buffer is a list, with the capacity beside it; a buffer into it is
  the range of the list that it stands for. What the container does to its capacity when it grows is left to the
  standard library: a parameter \<open>grown\<close>, from the old capacity and the new size to the new capacity (which is at
  least the size). Where an
  operation may throw \<open>std::length_error\<close>, its result says whether it has. New elements are value-initialised, zero.
  The operations that read until a delimiter are templates over these classes: they get their operations as a
  record \<open>dyn_ops\<close>, and what they rely on is the locale \<open>dynamic_buffer\<close>.
\<close>

section \<open>Sizes\<close>

text \<open>\<open>std::numeric_limits<std::size_t>::max()\<close>, and subtraction of \<open>std::size_t\<close>.\<close>

definition size_max :: nat where
  "size_max = 2 ^ 64 - 1"

definition size_minus :: "nat \<Rightarrow> nat \<Rightarrow> nat" where
  "size_minus a b = (if b \<le> a then a - b else a + 2 ^ 64 - b)"

lemma size_minus_le [simp]: "b \<le> a \<Longrightarrow> size_minus a b = a - b"
  by (simp add: size_minus_def)

section \<open>Strings and vectors as dynamic buffers\<close>

text \<open>\<open>ds_size\<close> is the member \<open>size_\<close>, the size of the input sequence of the first version of the interface; it is
  \<open>size_max\<close> as long as that version is not used. A vector has the same members and, \<open>consume\<close> apart, the same
  member functions.\<close>

record 'b dyn_string =
  ds_string :: "'b list"
  ds_reserved :: nat
  ds_size :: nat
  ds_max :: nat

definition new_dyn_string :: "'b list \<Rightarrow> nat \<Rightarrow> nat \<Rightarrow> 'b dyn_string" where
  "new_dyn_string s capacity maximum_size =
     \<lparr>ds_string = s, ds_reserved = capacity, ds_size = size_max, ds_max = maximum_size\<rparr>"

definition string_resize :: "(nat \<Rightarrow> nat \<Rightarrow> nat) \<Rightarrow> nat \<Rightarrow> ('b :: zero) dyn_string \<Rightarrow> 'b dyn_string" where
  "string_resize grown n b =
     b\<lparr>ds_string := take n (ds_string b) @ replicate (n - length (ds_string b)) 0,
       ds_reserved := (if n \<le> ds_reserved b then ds_reserved b else max n (grown (ds_reserved b) n))\<rparr>"

definition ds_length :: "'b dyn_string \<Rightarrow> nat" where
  "ds_length b = (if ds_size b \<noteq> size_max then ds_size b else min (length (ds_string b)) (ds_max b))"

definition ds_capacity :: "'b dyn_string \<Rightarrow> nat" where
  "ds_capacity b = min (ds_reserved b) (ds_max b)"

text \<open>\<open>data()\<close>, and the ranges of \<open>data(pos, n)\<close> and of \<open>prepare\<close> as positions and lengths in the string.\<close>

definition ds_data :: "'b dyn_string \<Rightarrow> 'b list" where
  "ds_data b = take (ds_size b) (ds_string b)"

definition ds_range :: "nat \<Rightarrow> nat \<Rightarrow> 'b dyn_string \<Rightarrow> nat \<times> nat" where
  "ds_range pos n b =
     (let whole = min (length (ds_string b)) (ds_max b); offset = min pos whole
      in (offset, min (whole - offset) n))"

definition ds_prepare :: "(nat \<Rightarrow> nat \<Rightarrow> nat) \<Rightarrow> nat \<Rightarrow> ('b :: zero) dyn_string \<Rightarrow> ((nat \<times> nat) \<times> 'b dyn_string) option" where
  "ds_prepare grown n b =
     (if ds_length b > ds_max b \<or> ds_max b - ds_length b < n then None
      else (let b1 = (if ds_size b = size_max then b\<lparr>ds_size := length (ds_string b)\<rparr> else b);
                b2 = string_resize grown (ds_size b1 + n) b1
            in Some ((ds_size b2, n), b2)))"

definition ds_commit :: "(nat \<Rightarrow> nat \<Rightarrow> nat) \<Rightarrow> nat \<Rightarrow> ('b :: zero) dyn_string \<Rightarrow> 'b dyn_string" where
  "ds_commit grown n b =
     (let size = size_t (ds_size b + min n (size_minus (length (ds_string b)) (ds_size b)))
      in string_resize grown size (b\<lparr>ds_size := size\<rparr>))"

definition ds_grow :: "(nat \<Rightarrow> nat \<Rightarrow> nat) \<Rightarrow> nat \<Rightarrow> ('b :: zero) dyn_string \<Rightarrow> 'b dyn_string option" where
  "ds_grow grown n b =
     (if ds_length b > ds_max b \<or> ds_max b - ds_length b < n then None
      else Some (string_resize grown (ds_length b + n) b))"

definition ds_shrink :: "(nat \<Rightarrow> nat \<Rightarrow> nat) \<Rightarrow> nat \<Rightarrow> ('b :: zero) dyn_string \<Rightarrow> 'b dyn_string" where
  "ds_shrink grown n b = string_resize grown (if n > ds_length b then 0 else ds_length b - n) b"

definition ds_consume :: "nat \<Rightarrow> 'b dyn_string \<Rightarrow> 'b dyn_string" where
  "ds_consume n b =
     (if ds_size b \<noteq> size_max
      then (let consume_length = min n (ds_size b)
            in b\<lparr>ds_string := drop consume_length (ds_string b), ds_size := ds_size b - consume_length\<rparr>)
      else b\<lparr>ds_string := drop n (ds_string b)\<rparr>)"

definition dv_consume :: "nat \<Rightarrow> 'b dyn_string \<Rightarrow> 'b dyn_string" where
  "dv_consume n b =
     (if ds_size b \<noteq> size_max
      then (let consume_length = min n (ds_size b)
            in b\<lparr>ds_string := drop consume_length (ds_string b), ds_size := ds_size b - consume_length\<rparr>)
      else b\<lparr>ds_string := drop (min (ds_length b) n) (ds_string b)\<rparr>)"

section \<open>Stream buffers\<close>

text \<open>The pointers of \<open>std::streambuf\<close> as offsets into \<open>buffer_\<close>: \<open>gnext\<close>, \<open>gend\<close>, \<open>pnext\<close> and \<open>pend\<close> are \<open>gptr\<close>, \<open>egptr\<close>,
  \<open>pptr\<close> and \<open>epptr\<close>; \<open>eback\<close> and \<open>pbase\<close> play no part.\<close>

record 'b streambuf =
  stb_max :: nat
  stb_buffer :: "'b list"
  stb_reserved :: nat
  gnext :: nat
  gend :: nat
  pnext :: nat
  pend :: nat

definition buffer_delta :: nat where
  "buffer_delta = 128"

definition new_streambuf :: "nat \<Rightarrow> nat \<Rightarrow> ('b :: zero) streambuf" where
  "new_streambuf capacity maximum_size =
     (let pend = min maximum_size buffer_delta
      in \<lparr>stb_max = maximum_size, stb_buffer = replicate (max pend 1) 0, stb_reserved = max capacity (max pend 1),
          gnext = 0, gend = 0, pnext = 0, pend = pend\<rparr>)"

text \<open>\<open>gbump\<close> and \<open>pbump\<close> take an \<open>int\<close>; the pointer moves modulo \<open>2 ^ 64\<close>.\<close>

definition to_int32 :: "nat \<Rightarrow> int" where
  "to_int32 n = (let r = int n mod 2 ^ 32 in if r < 2 ^ 31 then r else r - 2 ^ 32)"

definition bump :: "nat \<Rightarrow> int \<Rightarrow> nat" where
  "bump p n = nat ((int p + n) mod 2 ^ 64)"

definition stb_size :: "'b streambuf \<Rightarrow> nat" where
  "stb_size b = size_minus (pnext b) (gnext b)"

definition stb_data :: "'b streambuf \<Rightarrow> 'b list" where
  "stb_data b = take (stb_size b) (drop (gnext b) (stb_buffer b))"

text \<open>\<open>reserve\<close> returns whether it has returned: it may throw, and then leaves the state as it is at that point.\<close>

definition stb_reserve :: "(nat \<Rightarrow> nat \<Rightarrow> nat) \<Rightarrow> nat \<Rightarrow> ('b :: zero) streambuf \<Rightarrow> bool \<times> 'b streambuf" where
  "stb_reserve grown n b =
     (if n \<le> size_minus (pend b) (pnext b) then (True, b)
      else (let next = (if gnext b > 0 then size_minus (pnext b) (gnext b) else pnext b);
                b1 = (if gnext b > 0
                      then b\<lparr>stb_buffer := take next (drop (gnext b) (stb_buffer b)) @ drop next (stb_buffer b)\<rparr> else b)
            in if n > size_minus (pend b1) next
               then (if n \<le> stb_max b1 \<and> next \<le> stb_max b1 - n
                     then (let end = next + n; m = max end 1
                           in (True, b1\<lparr>stb_buffer := take m (stb_buffer b1) @ replicate (m - length (stb_buffer b1)) 0,
                                stb_reserved := (if m \<le> stb_reserved b1 then stb_reserved b1
                                                 else max m (grown (stb_reserved b1) m)),
                                gnext := 0, gend := next, pnext := next, pend := end\<rparr>))
                     else (False, b1))
               else (True, b1\<lparr>gnext := 0, gend := next, pnext := next\<rparr>)))"

definition stb_prepare ::
  "(nat \<Rightarrow> nat \<Rightarrow> nat) \<Rightarrow> nat \<Rightarrow> ('b :: zero) streambuf \<Rightarrow> (nat \<times> nat) option \<times> 'b streambuf" where
  "stb_prepare grown n b =
     (let (returned, b1) = stb_reserve grown n b in (if returned then Some (pnext b1, n) else None, b1))"

definition stb_commit :: "nat \<Rightarrow> 'b streambuf \<Rightarrow> 'b streambuf" where
  "stb_commit n b =
     (let m = min n (size_minus (pend b) (pnext b)); b1 = b\<lparr>pnext := bump (pnext b) (to_int32 m)\<rparr>
      in b1\<lparr>gend := pnext b1\<rparr>)"

definition stb_consume :: "nat \<Rightarrow> 'b streambuf \<Rightarrow> 'b streambuf" where
  "stb_consume n b =
     (let b1 = (if gend b < pnext b then b\<lparr>gend := pnext b\<rparr> else b);
          m = (if gnext b1 + n > pnext b1 then pnext b1 - gnext b1 else n)
      in b1\<lparr>gnext := bump (gnext b1) (to_int32 m)\<rparr>)"

definition stb_underflow :: "'b streambuf \<Rightarrow> 'b option \<times> 'b streambuf" where
  "stb_underflow b =
     (if gnext b < pnext b then (Some (stb_buffer b ! gnext b), b\<lparr>gend := pnext b\<rparr>) else (None, b))"

definition stb_overflow ::
  "(nat \<Rightarrow> nat \<Rightarrow> nat) \<Rightarrow> ('b :: zero) option \<Rightarrow> 'b streambuf \<Rightarrow> bool \<times> 'b streambuf" where
  "stb_overflow grown c b =
     (case c of None \<Rightarrow> (True, b)
      | Some ch \<Rightarrow>
          (let (returned, b1) =
             (if pnext b = pend b
              then (let buffer_size = size_minus (pnext b) (gnext b)
                    in if buffer_size < stb_max b \<and> stb_max b - buffer_size < buffer_delta
                       then stb_reserve grown (stb_max b - buffer_size) b else stb_reserve grown buffer_delta b)
              else (True, b))
           in if returned
              then (True, b1\<lparr>stb_buffer := (stb_buffer b1)[pnext b1 := ch], pnext := bump (pnext b1) 1\<rparr>)
              else (False, b1)))"

definition read_size_helper :: "nat \<Rightarrow> 'b streambuf \<Rightarrow> nat" where
  "read_size_helper max_size b =
     min (max 512 (size_minus (stb_reserved b) (stb_size b))) (min max_size (size_minus (stb_max b) (stb_size b)))"

section \<open>The interface\<close>

text \<open>What a read into a dynamic buffer does: \<open>dyn_prepare\<close> makes room (\<open>prepare(n)\<close>, or \<open>grow(n)\<close> and
  \<open>data(pos, n)\<close>) and returns the range to read into, or none if it has thrown; \<open>dyn_store\<close> is the read itself, at a position;
  \<open>dyn_commit\<close> gets what was asked for and what came (\<open>commit(m)\<close>, or \<open>shrink(n - m)\<close>).\<close>

record ('d, 'b) dyn_ops =
  dyn_size :: "'d \<Rightarrow> nat"
  dyn_max_size :: "'d \<Rightarrow> nat"
  dyn_capacity :: "'d \<Rightarrow> nat"
  dyn_data :: "'d \<Rightarrow> 'b list"
  dyn_prepare :: "nat \<Rightarrow> 'd \<Rightarrow> (nat \<times> nat) option \<times> 'd"
  dyn_store :: "nat \<Rightarrow> 'b list \<Rightarrow> 'd \<Rightarrow> 'd"
  dyn_commit :: "nat \<Rightarrow> nat \<Rightarrow> 'd \<Rightarrow> 'd"

definition overwrite_at :: "nat \<Rightarrow> 'b list \<Rightarrow> 'b list \<Rightarrow> 'b list" where
  "overwrite_at pos xs ys = take pos ys @ xs @ drop (pos + length xs) ys"

definition string_v1_ops :: "(nat \<Rightarrow> nat \<Rightarrow> nat) \<Rightarrow> (('b :: zero) dyn_string, 'b) dyn_ops" where
  "string_v1_ops grown =
     \<lparr>dyn_size = ds_length, dyn_max_size = ds_max, dyn_capacity = ds_capacity, dyn_data = ds_data,
      dyn_prepare = (\<lambda>n b. case ds_prepare grown n b of None \<Rightarrow> (None, b) | Some (room, b1) \<Rightarrow> (Some room, b1)),
      dyn_store = (\<lambda>pos xs b. b\<lparr>ds_string := overwrite_at pos xs (ds_string b)\<rparr>),
      dyn_commit = (\<lambda>n m. ds_commit grown m)\<rparr>"

definition string_v2_ops :: "(nat \<Rightarrow> nat \<Rightarrow> nat) \<Rightarrow> (('b :: zero) dyn_string, 'b) dyn_ops" where
  "string_v2_ops grown =
     \<lparr>dyn_size = ds_length, dyn_max_size = ds_max, dyn_capacity = ds_capacity,
      dyn_data = (\<lambda>b. let (pos, n) = ds_range 0 (ds_length b) b in take n (drop pos (ds_string b))),
      dyn_prepare = (\<lambda>n b. case ds_grow grown n b of None \<Rightarrow> (None, b)
                      | Some b1 \<Rightarrow> (Some (ds_range (ds_length b) n b1), b1)),
      dyn_store = (\<lambda>pos xs b. b\<lparr>ds_string := overwrite_at pos xs (ds_string b)\<rparr>),
      dyn_commit = (\<lambda>n m. ds_shrink grown (size_minus n m))\<rparr>"

definition streambuf_ops :: "(nat \<Rightarrow> nat \<Rightarrow> nat) \<Rightarrow> (('b :: zero) streambuf, 'b) dyn_ops" where
  "streambuf_ops grown =
     \<lparr>dyn_size = stb_size, dyn_max_size = stb_max, dyn_capacity = stb_reserved, dyn_data = stb_data,
      dyn_prepare = stb_prepare grown, dyn_store = (\<lambda>pos xs b. b\<lparr>stb_buffer := overwrite_at pos xs (stb_buffer b)\<rparr>),
      dyn_commit = (\<lambda>n m. stb_commit m)\<rparr>"

text \<open>What reading relies on: as long as the buffer is well-formed, its data has the size it says, and a read of at
  most what was prepared, up to \<open>2 ^ 16\<close> bytes, appends to the data.\<close>

locale dynamic_buffer =
  fixes ops :: "('d, 'b) dyn_ops" and dinv :: "'d \<Rightarrow> bool"
  assumes size_data: "dinv d \<Longrightarrow> dyn_size ops d = length (dyn_data ops d)"
    and size_le_max: "dinv d \<Longrightarrow> dyn_size ops d \<le> dyn_max_size ops d"
    and size_le_capacity: "dinv d \<Longrightarrow> dyn_size ops d \<le> dyn_capacity ops d"
    and prepare_room: "dinv d \<Longrightarrow> dyn_size ops d + n \<le> dyn_max_size ops d \<Longrightarrow> n \<le> 65536
      \<Longrightarrow> dyn_size ops d + n < size_max \<Longrightarrow> \<exists>pos d1. dyn_prepare ops n d = (Some (pos, n), d1)"
    and prepare_read: "dinv d \<Longrightarrow> dyn_prepare ops n d = (Some (pos, k), d1) \<Longrightarrow> n \<le> 65536
      \<Longrightarrow> dyn_size ops d + n < size_max \<Longrightarrow> length xs \<le> n
      \<Longrightarrow> dinv (dyn_commit ops n (length xs) (dyn_store ops pos xs d1))
        \<and> dyn_data ops (dyn_commit ops n (length xs) (dyn_store ops pos xs d1)) = dyn_data ops d @ xs
        \<and> dyn_max_size ops (dyn_commit ops n (length xs) (dyn_store ops pos xs d1)) = dyn_max_size ops d"

end
