(* ===== verification/DynContract.thy ===== *)
theory DynContract
  imports DynBuffer
begin

text \<open>
  Strings, vectors and stream buffers keep the contract \<open>dynamic_buffer\<close>; a stream buffer is a queue of bytes.
\<close>

section \<open>Strings\<close>

definition ds_inv :: "'b dyn_string \<Rightarrow> bool" where
  "ds_inv b \<longleftrightarrow> (ds_size b = size_max \<or> ds_size b = length (ds_string b)) \<and> length (ds_string b) \<le> ds_max b
     \<and> length (ds_string b) < size_max \<and> length (ds_string b) \<le> ds_reserved b"

definition ds_inv2 :: "'b dyn_string \<Rightarrow> bool" where
  "ds_inv2 b \<longleftrightarrow> ds_inv b \<and> ds_size b = size_max"

lemma ds_inv_length: "ds_inv b \<Longrightarrow> ds_length b = length (ds_string b)"
  by (auto simp: ds_inv_def ds_length_def)

lemma ds_inv_data: "ds_inv b \<Longrightarrow> ds_data b = ds_string b"
  by (auto simp: ds_inv_def ds_data_def)

lemma ds_inv2_range: "ds_inv2 b \<Longrightarrow> take (snd (ds_range 0 (ds_length b) b)) (drop (fst (ds_range 0 (ds_length b) b)) (ds_string b)) = ds_string b"
  by (simp add: ds_inv2_def ds_inv_length ds_range_def ds_inv_def Let_def)

lemma resize_simps [simp]:
  "ds_size (string_resize grown n b) = ds_size b" "ds_max (string_resize grown n b) = ds_max b"
  "length (ds_string (string_resize grown n b)) = n" "n \<le> ds_reserved (string_resize grown n b)"
  by (simp_all add: string_resize_def min_def)

lemma resize_string:
  "ds_string (string_resize grown n b) = take n (ds_string b) @ replicate (n - length (ds_string b)) 0"
  by (simp add: string_resize_def)

lemma length_overwrite_at [simp]: "pos + length xs \<le> length ys \<Longrightarrow> length (overwrite_at pos xs ys) = length ys"
  by (simp add: overwrite_at_def)

lemma take_overwrite_at: "pos \<le> length ys \<Longrightarrow> take (pos + length xs) (overwrite_at pos xs ys) = take pos ys @ xs"
  by (simp add: overwrite_at_def min_def)

lemma ds_prepare_inv:
  assumes "ds_inv b" "ds_prepare grown n b = Some ((pos, k), b1)"
  shows "pos = length (ds_string b) \<and> ds_size b1 = pos \<and> ds_max b1 = ds_max b \<and> pos + n \<le> ds_max b
    \<and> ds_string b1 = ds_string b @ replicate n 0 \<and> pos + n \<le> ds_reserved b1 \<and> k = n"
  using assms by (auto simp: ds_prepare_def ds_inv_length ds_inv_def Let_def resize_string split: if_splits)

interpretation string_v1: dynamic_buffer "string_v1_ops grown" ds_inv for grown
proof (unfold_locales, goal_cases)
  case (4 d n)
  then have "\<not> ds_length d > ds_max d \<and> \<not> ds_max d - ds_length d < n" by (auto simp: string_v1_ops_def)
  then show ?case by (simp add: string_v1_ops_def ds_prepare_def Let_def)
next
  case (5 d n pos k d1 xs)
  let ?d2 = "d1\<lparr>ds_string := overwrite_at pos xs (ds_string d1)\<rparr>"
  have p: "ds_prepare grown n d = Some ((pos, k), d1)"
    using 5(2) by (auto simp: string_v1_ops_def split: option.splits)
  note q = ds_prepare_inv [OF 5(1) p]
  have lt: "pos + n < size_max" using 5 q by (simp add: string_v1_ops_def ds_inv_length)
  have sz: "size_t (pos + length xs) = pos + length xs" using lt 5(5) by (simp add: size_t_def size_max_def)
  have c: "ds_commit grown (length xs) ?d2 = string_resize grown (pos + length xs) (?d2\<lparr>ds_size := pos + length xs\<rparr>)"
    using q 5(5) sz by (simp add: ds_commit_def Let_def)
  have s: "ds_string (ds_commit grown (length xs) ?d2) = ds_string d @ xs"
    unfolding c using q 5(5) take_overwrite_at [of pos "ds_string d1" xs] by (simp add: string_resize_def)
  have i: "ds_inv (ds_commit grown (length xs) ?d2)"
    using q lt 5(5) s unfolding c by (simp add: ds_inv_def)
  have "ds_max (ds_commit grown (length xs) ?d2) = ds_max d" unfolding c using q by simp
  then show ?case using i s ds_inv_data [OF i] ds_inv_data [OF 5(1)] by (simp add: string_v1_ops_def)
qed (auto simp: string_v1_ops_def ds_inv_length ds_inv_data ds_capacity_def, auto simp: ds_inv_def)

lemma ds_grow_inv:
  assumes "ds_inv2 b" "ds_grow grown n b = Some b1"
  shows "ds_size b1 = size_max \<and> ds_max b1 = ds_max b \<and> length (ds_string b) + n \<le> ds_max b
    \<and> ds_string b1 = ds_string b @ replicate n 0 \<and> length (ds_string b) + n \<le> ds_reserved b1"
  using assms by (auto simp: ds_inv2_def ds_grow_def ds_inv_length ds_inv_def resize_string split: if_splits)

interpretation string_v2: dynamic_buffer "string_v2_ops grown" ds_inv2 for grown
proof (unfold_locales, goal_cases)
  case (4 d n)
  then have "\<not> ds_length d > ds_max d \<and> \<not> ds_max d - ds_length d < n" by (auto simp: string_v2_ops_def)
  then obtain d1 where g: "ds_grow grown n d = Some d1" by (simp add: ds_grow_def)
  have "ds_range (ds_length d) n d1 = (length (ds_string d), n)"
    using ds_grow_inv [OF 4(1) g] 4(1) by (simp add: ds_range_def ds_inv2_def ds_inv_length Let_def)
  then show ?case using g by (simp add: string_v2_ops_def)
next
  case (5 d n pos k d1 xs)
  let ?d2 = "d1\<lparr>ds_string := overwrite_at pos xs (ds_string d1)\<rparr>"
  have p: "ds_grow grown n d = Some d1" "ds_range (ds_length d) n d1 = (pos, k)"
    using 5(2) by (auto simp: string_v2_ops_def split: option.splits)
  note q = ds_grow_inv [OF 5(1) p(1)]
  have pos: "pos = length (ds_string d)" using p(2) q 5(1) by (simp add: ds_range_def ds_inv2_def ds_inv_length Let_def)
  have lt: "pos + n < size_max" using 5(1,4) pos by (simp add: string_v2_ops_def ds_inv2_def ds_inv_length)
  have len: "ds_length ?d2 = pos + n" using q pos 5(5) by (simp add: ds_length_def min_def)
  have c: "ds_shrink grown (size_minus n (length xs)) ?d2 = string_resize grown (pos + length xs) ?d2"
    using 5(5) len by (simp add: ds_shrink_def)
  have s: "ds_string (ds_shrink grown (size_minus n (length xs)) ?d2) = ds_string d @ xs"
    unfolding c using q pos 5(5) take_overwrite_at [of pos "ds_string d1" xs] by (simp add: string_resize_def)
  have i: "ds_inv2 (ds_shrink grown (size_minus n (length xs)) ?d2)"
    using q pos lt 5(5) s unfolding c by (simp add: ds_inv2_def ds_inv_def)
  have "ds_max (ds_shrink grown (size_minus n (length xs)) ?d2) = ds_max d" unfolding c using q by simp
  then show ?case using i trans [OF ds_inv2_range [OF i] s] ds_inv2_range [OF 5(1)]
    by (simp add: string_v2_ops_def case_prod_beta)
qed (auto simp: string_v2_ops_def case_prod_beta ds_inv2_range, auto simp: ds_inv2_def ds_inv_length ds_capacity_def, auto simp: ds_inv_def)

section \<open>Stream buffers\<close>

definition stb_inv :: "'b streambuf \<Rightarrow> bool" where
  "stb_inv b \<longleftrightarrow> gnext b \<le> gend b \<and> gend b \<le> pnext b \<and> pnext b \<le> pend b \<and> pend b \<le> length (stb_buffer b)
     \<and> pend b \<le> stb_max b \<and> stb_max b \<le> size_max \<and> length (stb_buffer b) \<le> stb_reserved b"

lemma new_streambuf_inv: "maximum \<le> size_max \<Longrightarrow> stb_inv (new_streambuf c maximum)" "stb_data (new_streambuf c maximum) = []"
  by (auto simp: stb_inv_def new_streambuf_def Let_def stb_data_def stb_size_def)

lemma stb_inv_size:
  assumes "stb_inv b"
  shows "stb_size b = pnext b - gnext b" "length (stb_data b) = stb_size b" "stb_size b \<le> stb_max b"
  using assms by (auto simp: stb_inv_def stb_size_def stb_data_def)

lemma to_int32_small: "n < 2 ^ 31 \<Longrightarrow> to_int32 n = int n"
  by (simp add: to_int32_def)

lemma bump_small: "p + n < 2 ^ 64 \<Longrightarrow> n < 2 ^ 31 \<Longrightarrow> bump p (to_int32 n) = p + n"
  by (simp add: bump_def to_int32_small flip: of_nat_add)

text \<open>\<open>reserve\<close> returns exactly if the maximum allows it; it then keeps the data and has the room.\<close>

lemma stb_reserve_ok:
  assumes inv: "stb_inv b" and r: "stb_reserve grown n b = (returned, b1)"
  shows "returned \<longleftrightarrow> stb_size b + n \<le> stb_max b"
    and "returned \<Longrightarrow> stb_inv b1 \<and> stb_data b1 = stb_data b \<and> n \<le> pend b1 - pnext b1 \<and> stb_max b1 = stb_max b"
proof -
  let ?k = "pnext b - gnext b"
  have i: "gnext b \<le> gend b" "gend b \<le> pnext b" "pnext b \<le> pend b" "pend b \<le> length (stb_buffer b)"
    "pend b \<le> stb_max b" "stb_max b \<le> size_max" "length (stb_buffer b) \<le> stb_reserved b"
    using inv by (simp_all add: stb_inv_def)
  have nx: "(if gnext b > 0 then size_minus (pnext b) (gnext b) else pnext b) = ?k" using i by simp
  define buf where "buf = take ?k (drop (gnext b) (stb_buffer b)) @ drop ?k (stb_buffer b)"
  have buf: "length buf = length (stb_buffer b)" "take ?k buf = take ?k (drop (gnext b) (stb_buffer b))"
    using i by (simp_all add: buf_def)
  have b1: "(if gnext b > 0 then b\<lparr>stb_buffer := take ?k (drop (gnext b) (stb_buffer b)) @ drop ?k (stb_buffer b)\<rparr> else b)
      = b\<lparr>stb_buffer := buf\<rparr>"
    by (simp add: buf_def)
  let ?grow = "b\<lparr>stb_buffer := take (max (?k + n) 1) buf @ replicate (max (?k + n) 1 - length buf) 0,
    stb_reserved := (if max (?k + n) 1 \<le> stb_reserved b then stb_reserved b
      else max (max (?k + n) 1) (grown (stb_reserved b) (max (?k + n) 1))),
    gnext := 0, gend := ?k, pnext := ?k, pend := ?k + n\<rparr>"
  let ?shift = "b\<lparr>stb_buffer := buf, gnext := 0, gend := ?k, pnext := ?k\<rparr>"
  have eq: "stb_reserve grown n b = (if n \<le> pend b - pnext b then (True, b)
      else if n \<le> pend b - ?k then (True, ?shift)
      else if n \<le> stb_max b \<and> ?k \<le> stb_max b - n then (True, ?grow) else (False, b\<lparr>stb_buffer := buf\<rparr>))"
    using i unfolding stb_reserve_def nx b1 Let_def by simp
  show "returned \<longleftrightarrow> stb_size b + n \<le> stb_max b"
    using r i unfolding eq by (auto simp: stb_size_def split: if_splits)
  have size: "stb_size b = ?k" using i by (simp add: stb_size_def)
  have grow: "stb_inv ?grow \<and> stb_data ?grow = stb_data b \<and> n \<le> pend ?grow - pnext ?grow \<and> stb_max ?grow = stb_max b"
    if "\<not> n \<le> pend b - ?k" "n \<le> stb_max b" "?k \<le> stb_max b - n"
    using that i buf size by (simp add: stb_inv_def stb_data_def stb_size_def) linarith
  have shift: "stb_inv ?shift \<and> stb_data ?shift = stb_data b \<and> n \<le> pend ?shift - pnext ?shift \<and> stb_max ?shift = stb_max b"
    if "n \<le> pend b - ?k"
    using that i buf size by (simp add: stb_inv_def stb_data_def stb_size_def)
  assume ret: returned
  define big where "big = ?grow"
  consider (same) "n \<le> pend b - pnext b" "b1 = b" | (moved) "n \<le> pend b - ?k" "b1 = ?shift"
    | (grown) "\<not> n \<le> pend b - ?k" "n \<le> stb_max b" "?k \<le> stb_max b - n" "b1 = big"
    using r ret unfolding eq big_def [symmetric] by (cases "n \<le> pend b - pnext b"; cases "n \<le> pend b - ?k") (auto split: if_splits)
  then show "stb_inv b1 \<and> stb_data b1 = stb_data b \<and> n \<le> pend b1 - pnext b1 \<and> stb_max b1 = stb_max b"
  proof cases
    case same
    then show ?thesis using inv by simp
  next
    case moved
    then show ?thesis using shift [OF moved(1)] by (simp only:)
  next
    case grown
    then show ?thesis using grow unfolding big_def [symmetric] by simp
  qed
qed

lemma stb_store_commit:
  assumes inv: "stb_inv b" and xs: "length xs \<le> pend b - pnext b" "length xs < 2 ^ 31"
  shows "let b2 = stb_commit (length xs) (b\<lparr>stb_buffer := overwrite_at (pnext b) xs (stb_buffer b)\<rparr>)
    in stb_inv b2 \<and> stb_data b2 = stb_data b @ xs \<and> stb_max b2 = stb_max b"
proof -
  have i: "gnext b \<le> gend b" "gend b \<le> pnext b" "pnext b \<le> pend b" "pend b \<le> length (stb_buffer b)"
    "pend b \<le> stb_max b" "stb_max b \<le> size_max"
    using inv by (simp_all add: stb_inv_def)
  have fit: "bump (pnext b) (to_int32 (length xs)) = pnext b + length xs"
    by (rule bump_small) (use i xs in \<open>auto simp: size_max_def\<close>)
  have "take (pnext b - gnext b + length xs) (drop (gnext b) (overwrite_at (pnext b) xs (stb_buffer b)))
      = drop (gnext b) (take (pnext b + length xs) (overwrite_at (pnext b) xs (stb_buffer b)))"
    using i by (simp add: drop_take)
  also have "\<dots> = take (pnext b - gnext b) (drop (gnext b) (stb_buffer b)) @ xs"
    using i by (simp add: take_overwrite_at drop_take)
  finally show ?thesis using inv i xs fit
    by (simp add: stb_commit_def Let_def stb_inv_def stb_data_def stb_size_def)
qed

interpretation streambuf: dynamic_buffer "streambuf_ops grown" stb_inv for grown
proof (unfold_locales, goal_cases)
  case (4 d n)
  obtain r d1 where r: "stb_reserve grown n d = (r, d1)" by (meson surj_pair)
  then show ?case using 4 stb_reserve_ok(1) [OF 4(1) r]
    by (simp add: streambuf_ops_def stb_prepare_def)
next
  case (5 d n pos k d1 xs)
  obtain r d2 where r: "stb_reserve grown n d = (r, d2)" by (meson surj_pair)
  then have d1: "r" "d2 = d1" "pos = pnext d1" using 5(2) by (auto simp: streambuf_ops_def stb_prepare_def split: if_splits)
  note ok = stb_reserve_ok(2) [OF 5(1) r d1(1), unfolded d1(2)]
  have "length xs \<le> pend d1 - pnext d1" "length xs < 2 ^ 31" using ok 5(3,5) by simp_all
  from stb_store_commit [OF conjunct1 [OF ok] this] ok show ?case by (simp add: streambuf_ops_def d1 Let_def)
qed (simp_all add: streambuf_ops_def stb_inv_size, auto simp: stb_inv_def)

text \<open>For concrete buffers.\<close>

lemmas stb_defs = new_streambuf_def stb_prepare_def stb_reserve_def stb_commit_def stb_consume_def stb_overflow_def
  stb_data_def stb_size_def bump_def to_int32_def overwrite_at_def buffer_delta_def Let_def

end
