(* ===== verification/StreambufSpec.thy ===== *)
theory StreambufSpec
  imports DynContract
begin

text \<open>
  A stream buffer as a bounded queue of bytes: what any sequence of its operations does, and what is left of it
  when \<open>prepare\<close> throws.
\<close>

section \<open>The operations and the queue they implement\<close>

text \<open>\<open>Append\<close>: \<open>prepare\<close>, a read of that many bytes into it, \<open>commit\<close>. \<open>Discard\<close>: \<open>consume\<close>. \<open>PutChar\<close> and \<open>Peek\<close>:
  \<open>overflow\<close> and \<open>underflow\<close>, through which the stream operators go. The result says whether it has returned.\<close>

datatype 'b stb_op = Append "'b list" | Discard nat | PutChar 'b | Peek

fun stb_step :: "(nat \<Rightarrow> nat \<Rightarrow> nat) \<Rightarrow> ('b :: zero) stb_op \<Rightarrow> 'b streambuf \<Rightarrow> bool \<times> 'b streambuf" where
  "stb_step grown (Append xs) b =
     (case stb_prepare grown (length xs) b of
        (None, b1) \<Rightarrow> (False, b1)
      | (Some (pos, n), b1) \<Rightarrow> (True, stb_commit (length xs) (b1\<lparr>stb_buffer := overwrite_at pos xs (stb_buffer b1)\<rparr>)))"
| "stb_step grown (Discard n) b = (True, stb_consume n b)"
| "stb_step grown (PutChar c) b = stb_overflow grown (Some c) b"
| "stb_step grown Peek b = (True, snd (stb_underflow b))"

fun stb_run :: "(nat \<Rightarrow> nat \<Rightarrow> nat) \<Rightarrow> ('b :: zero) stb_op list \<Rightarrow> 'b streambuf \<Rightarrow> bool \<times> 'b streambuf" where
  "stb_run grown [] b = (True, b)"
| "stb_run grown (opn # ops) b =
     (let (returned, b1) = stb_step grown opn b in if returned then stb_run grown ops b1 else (False, b1))"

fun queue_step :: "nat \<Rightarrow> 'b stb_op \<Rightarrow> 'b list \<Rightarrow> 'b list option" where
  "queue_step bound (Append xs) q = (if length q + length xs \<le> bound then Some (q @ xs) else None)"
| "queue_step bound (Discard n) q = Some (drop n q)"
| "queue_step bound (PutChar c) q = (if length q < bound then Some (q @ [c]) else None)"
| "queue_step bound Peek q = Some q"

fun queue_run :: "nat \<Rightarrow> 'b stb_op list \<Rightarrow> 'b list \<Rightarrow> 'b list option" where
  "queue_run bound [] q = Some q"
| "queue_run bound (opn # ops) q = (case queue_step bound opn q of None \<Rightarrow> None | Some q1 \<Rightarrow> queue_run bound ops q1)"

text \<open>The sizes that fit the \<open>int\<close> of \<open>pbump\<close> and \<open>gbump\<close>.\<close>

fun fits_int :: "'b stb_op \<Rightarrow> bool" where
  "fits_int (Append xs) = (length xs < 2 ^ 31)"
| "fits_int (Discard n) = (n < 2 ^ 31)"
| "fits_int opn = True"

section \<open>Each operation\<close>

lemma append_correct:
  assumes "stb_inv b" "length xs < 2 ^ 31" "stb_step grown (Append xs) b = (returned, b1)"
  shows "if returned then stb_inv b1 \<and> stb_max b1 = stb_max b \<and> length (stb_data b) + length xs \<le> stb_max b
      \<and> stb_data b1 = stb_data b @ xs
    else stb_max b < length (stb_data b) + length xs"
proof -
  obtain r b2 where r: "stb_reserve grown (length xs) b = (r, b2)" by (meson surj_pair)
  note ok = stb_reserve_ok [OF assms(1) r]
  show ?thesis
  proof (cases r)
    case True
    from stb_store_commit [of b2 xs] ok(2) [OF True] True assms(2,3) r ok(1) show ?thesis
      by (auto simp: stb_prepare_def Let_def stb_inv_size [OF assms(1)])
  next
    case False
    then show ?thesis using assms(3) r ok(1) by (auto simp: stb_prepare_def stb_inv_size [OF assms(1)])
  qed
qed

lemma discard_correct:
  assumes "stb_inv b" "n < 2 ^ 31"
  shows "stb_inv (stb_consume n b) \<and> stb_max (stb_consume n b) = stb_max b \<and> stb_data (stb_consume n b) = drop n (stb_data b)"
proof -
  let ?m = "min n (pnext b - gnext b)"
  have i: "gnext b \<le> gend b" "gend b \<le> pnext b" "pnext b \<le> pend b" "pend b \<le> stb_max b" "stb_max b \<le> size_max"
    using assms(1) by (simp_all add: stb_inv_def)
  have fit: "bump (gnext b) (to_int32 ?m) = gnext b + ?m"
    by (rule bump_small) (use i assms(2) in \<open>auto simp: size_max_def min_def\<close>)
  have c: "stb_consume n b = b\<lparr>gend := pnext b, gnext := gnext b + ?m\<rparr>"
  proof -
    have "(if gnext b + n > pnext b then pnext b - gnext b else n) = ?m" using i by auto
    then show ?thesis using i fit by (cases "gend b < pnext b") (simp_all add: stb_consume_def Let_def)
  qed
  show ?thesis using assms(1) i unfolding c
    by (auto simp: stb_inv_def stb_data_def stb_size_def drop_take min_def add.commute)
qed

lemma put_correct:
  assumes inv: "stb_inv b" and r: "stb_overflow grown (Some c) b = (returned, b1)"
  shows "if returned then stb_inv b1 \<and> stb_max b1 = stb_max b \<and> length (stb_data b) < stb_max b
      \<and> stb_data b1 = stb_data b @ [c]
    else stb_max b \<le> length (stb_data b)"
proof -
  let ?n = "if stb_size b < stb_max b \<and> stb_max b - stb_size b < buffer_delta then stb_max b - stb_size b else buffer_delta"
  obtain r2 b2 where r2: "(if pnext b = pend b then stb_reserve grown ?n b else (True, b)) = (r2, b2)" by (meson surj_pair)
  have eq: "stb_overflow grown (Some c) b = (if r2
      then (True, b2\<lparr>stb_buffer := (stb_buffer b2)[pnext b2 := c], pnext := bump (pnext b2) 1\<rparr>) else (False, b2))"
    using r2 unfolding stb_overflow_def Let_def stb_size_def [symmetric]
    by (cases "stb_size b < stb_max b \<and> stb_max b - stb_size b < buffer_delta") (auto split: if_splits)
  have le: "stb_size b \<le> stb_max b" "length (stb_data b) = stb_size b" using stb_inv_size [OF inv] by simp_all
  have ok: "if r2 then stb_inv b2 \<and> stb_data b2 = stb_data b \<and> pnext b2 < pend b2 \<and> stb_max b2 = stb_max b
      \<and> stb_size b < stb_max b else stb_max b \<le> stb_size b"
  proof (cases "pnext b = pend b")
    case True
    then have rr: "stb_reserve grown ?n b = (r2, b2)" using r2 by simp
    have pos: "0 < ?n" by (simp add: buffer_delta_def)
    have lt: "r2 \<longleftrightarrow> stb_size b < stb_max b"
      using stb_reserve_ok(1) [OF inv rr] le pos by (auto split: if_splits simp: buffer_delta_def)
    show ?thesis
    proof (cases r2)
      case True
      from stb_reserve_ok(2) [OF inv rr True] pos lt True show ?thesis by (auto split: if_splits)
    qed (use lt in simp)
  next
    case False
    then show ?thesis using r2 inv by (auto simp: stb_inv_def stb_size_def split: if_splits)
  qed
  show ?thesis
  proof (cases r2)
    case True
    then have b2: "stb_inv b2" "stb_data b2 = stb_data b" "pnext b2 < pend b2" "stb_max b2 = stb_max b" "stb_size b < stb_max b"
      using ok by simp_all
    have "pend b2 \<le> length (stb_buffer b2)" using b2(1) by (simp add: stb_inv_def)
    then have ow: "overwrite_at (pnext b2) [c] (stb_buffer b2) = (stb_buffer b2)[pnext b2 := c]"
      using b2(3) by (simp add: overwrite_at_def upd_conv_take_nth_drop)
    have "min 1 (size_minus (pend b2) (pnext b2)) = 1" "gend b2 \<le> pnext b2" using b2(1,3) by (simp_all add: stb_inv_def)
    then have "b1\<lparr>gend := pnext b1\<rparr> = stb_commit (length [c]) (b2\<lparr>stb_buffer := overwrite_at (pnext b2) [c] (stb_buffer b2)\<rparr>)"
      using r eq True unfolding ow by (auto simp: stb_commit_def to_int32_def)
    moreover have "length [c] \<le> pend b2 - pnext b2" using b2(3) by simp
    ultimately have fin: "stb_inv (b1\<lparr>gend := pnext b1\<rparr>)" "stb_data (b1\<lparr>gend := pnext b1\<rparr>) = stb_data b2 @ [c]"
      using stb_store_commit [OF b2(1), of "[c]"] by (simp_all add: Let_def)
    have "bump (pnext b2) (to_int32 1) = pnext b2 + 1"
      by (rule bump_small) (use b2(1,3) in \<open>auto simp: stb_inv_def size_max_def\<close>)
    then have "bump (pnext b2) 1 = pnext b2 + 1" by (simp add: to_int32_def)
    then have g: "gend b1 \<le> pnext b1" "gnext b1 \<le> gend b1" using r eq True b2(1) by (auto simp: stb_inv_def)
    show ?thesis using fin b2 g r eq True le by (auto simp: stb_inv_def stb_data_def stb_size_def)
  next
    case False
    then show ?thesis using ok r eq le by auto
  qed
qed

lemma peek_correct:
  assumes "stb_inv b"
  shows "fst (stb_underflow b) = (case stb_data b of [] \<Rightarrow> None | c # _ \<Rightarrow> Some c)
    \<and> stb_inv (snd (stb_underflow b)) \<and> stb_data (snd (stb_underflow b)) = stb_data b
    \<and> stb_max (snd (stb_underflow b)) = stb_max b"
proof (cases "gnext b < pnext b")
  case True
  then have "gnext b < length (stb_buffer b)" "stb_size b \<noteq> 0" using assms by (auto simp: stb_inv_def stb_size_def)
  then obtain n where "stb_data b = stb_buffer b ! gnext b # take n (drop (Suc (gnext b)) (stb_buffer b))"
    unfolding stb_data_def by (metis Cons_nth_drop_Suc old.nat.exhaust take_Suc_Cons)
  then show ?thesis using True assms by (auto simp: stb_underflow_def stb_inv_def stb_data_def stb_size_def)
next
  case False
  then have "stb_data b = []" using assms by (simp add: stb_inv_def stb_data_def stb_size_def)
  then show ?thesis using False assms by (simp add: stb_underflow_def)
qed

section \<open>Sequences of operations\<close>

lemma stb_step_correct:
  assumes "stb_inv b" "fits_int opn" "stb_step grown opn b = (returned, b1)"
  shows "if returned then stb_inv b1 \<and> stb_max b1 = stb_max b \<and> queue_step (stb_max b) opn (stb_data b) = Some (stb_data b1)
    else queue_step (stb_max b) opn (stb_data b) = None"
proof (cases opn)
  case (Append xs)
  then show ?thesis using append_correct [OF assms(1), of xs grown returned b1] assms(2,3) by (auto split: if_splits)
next
  case (Discard n)
  then show ?thesis using discard_correct [OF assms(1), of n] assms(2,3) by auto
next
  case (PutChar c)
  then show ?thesis using put_correct [OF assms(1), of grown c returned b1] assms(3) by (auto split: if_splits)
next
  case Peek
  then show ?thesis using peek_correct [OF assms(1)] assms(3) by auto
qed

lemma stb_run_correct:
  "stb_inv b \<Longrightarrow> list_all fits_int ops \<Longrightarrow> stb_run grown ops b = (returned, b1)
    \<Longrightarrow> if returned then stb_inv b1 \<and> queue_run (stb_max b) ops (stb_data b) = Some (stb_data b1)
      else queue_run (stb_max b) ops (stb_data b) = None"
proof (induction ops arbitrary: b)
  case (Cons opn ops)
  obtain r b2 where s: "stb_step grown opn b = (r, b2)" by (meson surj_pair)
  have "fits_int opn" "list_all fits_int ops" using Cons.prems(2) by simp_all
  then show ?case using stb_step_correct [OF Cons.prems(1) _ s] Cons.IH [of b2] Cons.prems(3) s
    by (cases r) auto
qed simp

lemma new_streambuf_max: "stb_max (new_streambuf c maximum) = maximum"
  by (simp add: new_streambuf_def Let_def)

text \<open>C18: A stream buffer is a bounded queue of bytes: whatever sequence of reads into it, \<open>consume\<close>, \<open>overflow\<close> and
  \<open>underflow\<close> it goes through, the pointers stay in order and inside the memory, and its data are those of a list
  to which the bytes are appended and from whose front they are dropped; an operation throws exactly if that list
  would become longer than the maximum size. The sizes must fit an \<open>int\<close>.\<close>

theorem streambuf_is_a_byte_queue:
  assumes "maximum \<le> size_max" and "list_all fits_int ops"
    and "stb_run grown ops (new_streambuf c maximum) = (returned, b)"
  shows "if returned then stb_inv b \<and> queue_run maximum ops [] = Some (stb_data b) else queue_run maximum ops [] = None"
  using stb_run_correct [OF new_streambuf_inv(1) [OF assms(1)] assms(2,3)]
  by (cases returned) (simp_all add: new_streambuf_inv new_streambuf_max)

lemma streambuf_is_a_byte_queue_witness:
  "stb_data (snd (stb_run (\<lambda>_ n. n) [Append [1, 2, 3], Discard 1, Append [4 :: nat], PutChar 5] (new_streambuf 0 5))) = [2, 3, 4, 5]"
proof -
  let ?ops = "[Append [1, 2, 3], Discard 1, Append [4 :: nat], PutChar 5]"
  obtain r b where b: "stb_run (\<lambda>_ n. n) ?ops (new_streambuf 0 5) = (r, b)" by (meson surj_pair)
  have "fst (stb_run (\<lambda>_ n. n) ?ops (new_streambuf 0 5))" by (simp add: stb_defs)
  then have "r" using b by simp
  then show ?thesis using streambuf_is_a_byte_queue [OF _ _ b] b by (simp add: size_max_def)
qed

section \<open>When prepare throws\<close>

lemma moved_window:
  assumes "g + k \<le> length m"
  shows "take k (drop g (take k (drop g m) @ drop k m)) = (let d = take k (drop g m)
      in if g < length d then drop g d @ drop (length d - g) d else d)"
proof (cases "g < k")
  case True
  then have "drop (k - g) (take k (drop g m)) = take g (drop k m)" by (simp add: drop_take)
  then show ?thesis using True assms by (simp add: Let_def)
qed (use assms in \<open>simp add: Let_def\<close>)

text \<open>\<open>prepare\<close> throws if the data and the new bytes would exceed the maximum size, but not without a trace:
  \<open>reserve\<close> has already moved the data to the start of the memory and leaves the pointers where they were. If fewer
  bytes have been consumed than there are, the data that the buffer then shows lack their first bytes and repeat
  their last ones.\<close>

theorem failed_prepare_spoils_data:
  assumes "stb_inv b" and "stb_max b < stb_size b + n"
  shows "fst (stb_prepare grown n b) = None
    \<and> stb_data (snd (stb_prepare grown n b)) = (let d = stb_data b; g = gnext b
        in if g < length d then drop g d @ drop (length d - g) d else d)"
proof -
  let ?g = "gnext b" and ?k = "pnext b - gnext b" and ?m = "stb_buffer b"
  have i: "?g \<le> pnext b" "pnext b \<le> pend b" "pend b \<le> length ?m" "pend b \<le> stb_max b"
    using assms(1) by (auto simp: stb_inv_def)
  obtain r b1 where r: "stb_reserve grown n b = (r, b1)" by (meson surj_pair)
  have no: "\<not> r" using stb_reserve_ok(1) [OF assms(1) r] assms(2) by simp
  have b1: "b1 = b\<lparr>stb_buffer := take ?k (drop ?g ?m) @ drop ?k ?m\<rparr>"
    using r no i assms(2) by (auto simp: stb_reserve_def Let_def split: if_splits)
  have "stb_data b = take ?k (drop ?g ?m)" "stb_data b1 = take ?k (drop ?g (take ?k (drop ?g ?m) @ drop ?k ?m))"
    using i by (simp_all add: b1 stb_data_def stb_size_def)
  moreover have "?g + ?k \<le> length ?m" using i by simp
  ultimately have "stb_data b1 = (let d = stb_data b; g = ?g in if g < length d then drop g d @ drop (length d - g) d else d)"
    by (simp only: moved_window Let_def)
  then show ?thesis using r no by (simp add: stb_prepare_def)
qed

text \<open>A buffer of at most 4 bytes that holds the bytes 2 and 3: after the exception it shows 3 and 3.\<close>

lemma failed_prepare_spoils_data_witness:
  "let b = snd (stb_run (\<lambda>_ n. n) [Append [1, 2, 3], Discard 1] (new_streambuf 0 4))
   in stb_data b = [2, 3 :: nat] \<and> stb_data (snd (stb_prepare (\<lambda>_ n. n) 4 b)) = [3, 3]"
proof -
  let ?b = "snd (stb_run (\<lambda>_ n. n) [Append [1, 2, 3], Discard 1] (new_streambuf 0 4)) :: nat streambuf"
  have d: "stb_data ?b = [2, 3]" "gnext ?b = 1" "stb_inv ?b" "stb_max ?b < stb_size ?b + 4"
    by (simp_all add: stb_defs stb_inv_def size_max_def)
  show ?thesis using failed_prepare_spoils_data [OF d(3,4), of "\<lambda>_ n. n"] d(1,2) by (simp add: Let_def)
qed

end
