(* ===== verification/ReadUntil.thy ===== *)
theory ReadUntil
  imports DynContract
begin

text \<open>
  Reading until a delimiter: \<^verbatim>\<open>asio/impl/read_until.hpp\<close>. The search \<open>partial_search\<close>, the blocking loops \<open>read_until\<close>
  and the state machines behind \<open>async_read_until\<close>, for a character, a string and a match condition, over any
  dynamic buffer (the two versions of the interface differ only in the operations that make room and commit).

  Positions in the data are offsets; iterators into a range of the data are offsets from its start. The stream is a
  list of incoming bytes and of answers, each an error code and the number of bytes it offers; a read takes as many
  of the incoming bytes as the answer, the room and the stream allow.
\<close>

section \<open>Searching\<close>

datatype comparison = Full | Partial | Differs

text \<open>The inner loop, from one position: \<open>moved\<close> says whether \<open>test_iter2\<close> has left the start of the delimiter.\<close>

fun compare_here :: "bool \<Rightarrow> 'b list \<Rightarrow> 'b list \<Rightarrow> comparison" where
  "compare_here moved xs [] = Full"
| "compare_here moved [] (d # ds) = (if moved then Partial else Differs)"
| "compare_here moved (x # xs) (d # ds) = (if x \<noteq> d then Differs else compare_here True xs ds)"

fun partial_search_from :: "nat \<Rightarrow> 'b list \<Rightarrow> 'b list \<Rightarrow> nat \<times> bool" where
  "partial_search_from i [] ds = (i, False)"
| "partial_search_from i (x # xs) ds =
     (case compare_here False (x # xs) ds of
        Full \<Rightarrow> (i, True)
      | Partial \<Rightarrow> (i, False)
      | Differs \<Rightarrow> partial_search_from (Suc i) xs ds)"

definition partial_search :: "'b list \<Rightarrow> 'b list \<Rightarrow> nat \<times> bool" where
  "partial_search xs ds = partial_search_from 0 xs ds"

text \<open>What each overload makes of its search in the range from the search position to the end of the data: the end of
  the match, or where the next search has to start.\<close>

fun find_char :: "'b \<Rightarrow> 'b list \<Rightarrow> nat" where
  "find_char c [] = 0"
| "find_char c (x # xs) = (if x = c then 0 else Suc (find_char c xs))"

definition look_char :: "'b \<Rightarrow> 'b list \<Rightarrow> nat \<times> bool" where
  "look_char delim xs =
     (let iter = find_char delim xs in if iter \<noteq> length xs then (iter + 1, True) else (length xs, False))"

definition look_string :: "'b list \<Rightarrow> 'b list \<Rightarrow> nat \<times> bool" where
  "look_string delim xs =
     (let (iter, match) = partial_search xs delim
      in if iter \<noteq> length xs then (if match then (iter + length delim, True) else (iter, False))
         else (length xs, False))"

definition look_match :: "('b list \<Rightarrow> nat \<times> bool) \<Rightarrow> 'b list \<Rightarrow> nat \<times> bool" where
  "look_match match_condition xs =
     (let (iter, match) = match_condition xs
      in if match then (iter, True) else if iter \<noteq> length xs then (iter, False) else (length xs, False))"

section \<open>The blocking loops\<close>

definition bytes_to_read :: "('d, 'b) dyn_ops \<Rightarrow> 'd \<Rightarrow> nat" where
  "bytes_to_read ops d =
     min (max 512 (size_minus (dyn_capacity ops d) (dyn_size ops d)))
         (min 65536 (size_minus (dyn_max_size ops d) (dyn_size ops d)))"

text \<open>One round up to the read: it returns with an error code and a number, throws, or has to read into a range, with
  the position at which the next search starts and the number of bytes it has asked for.\<close>

datatype 'd round = RoundDone error_code nat | RoundThrew 'd | RoundRead nat nat "nat \<times> nat" 'd

definition until_round :: "('d, 'b) dyn_ops \<Rightarrow> ('b list \<Rightarrow> nat \<times> bool) \<Rightarrow> nat \<Rightarrow> 'd \<Rightarrow> 'd round" where
  "until_round ops look search_position d =
     (let (n, match) = look (drop search_position (dyn_data ops d))
      in if match then RoundDone ec_success (search_position + n)
         else if dyn_size ops d = dyn_max_size ops d then RoundDone (misc_ec not_found) 0
         else (case dyn_prepare ops (bytes_to_read ops d) d of
                 (None, d1) \<Rightarrow> RoundThrew d1
               | (Some room, d1) \<Rightarrow> RoundRead (search_position + n) (bytes_to_read ops d) room d1))"

datatype 'd until = Blocked nat 'd | Threw 'd | Returned error_code nat 'd

fun read_until_loop :: "('d, 'b) dyn_ops \<Rightarrow> ('b list \<Rightarrow> nat \<times> bool) \<Rightarrow> (error_code \<times> nat) list
    \<Rightarrow> nat \<Rightarrow> 'd \<Rightarrow> 'b list \<Rightarrow> 'd until \<times> 'b list" where
  "read_until_loop ops look [] search_position d incoming =
     (case until_round ops look search_position d of
        RoundDone ec n \<Rightarrow> (Returned ec n d, incoming)
      | RoundThrew d1 \<Rightarrow> (Threw d1, incoming)
      | RoundRead search_position1 asked room d1 \<Rightarrow> (Blocked search_position1 d1, incoming))"
| "read_until_loop ops look ((ec, m) # answers) search_position d incoming =
     (case until_round ops look search_position d of
        RoundDone ec n \<Rightarrow> (Returned ec n d, incoming)
      | RoundThrew d1 \<Rightarrow> (Threw d1, incoming)
      | RoundRead search_position1 asked (pos, k) d1 \<Rightarrow>
          (let n = min m (min k (length incoming));
               d2 = dyn_commit ops asked n (dyn_store ops pos (take n incoming) d1)
           in if failed ec then (Returned ec 0 d2, drop n incoming)
              else read_until_loop ops look answers search_position1 d2 (drop n incoming)))"

definition read_until_char ::
  "('d, 'b) dyn_ops \<Rightarrow> 'b \<Rightarrow> (error_code \<times> nat) list \<Rightarrow> 'd \<Rightarrow> 'b list \<Rightarrow> 'd until \<times> 'b list" where
  "read_until_char ops delim answers d incoming = read_until_loop ops (look_char delim) answers 0 d incoming"

definition read_until_string ::
  "('d, 'b) dyn_ops \<Rightarrow> 'b list \<Rightarrow> (error_code \<times> nat) list \<Rightarrow> 'd \<Rightarrow> 'b list \<Rightarrow> 'd until \<times> 'b list" where
  "read_until_string ops delim answers d incoming = read_until_loop ops (look_string delim) answers 0 d incoming"

definition read_until_match ::
  "('d, 'b) dyn_ops \<Rightarrow> ('b list \<Rightarrow> nat \<times> bool) \<Rightarrow> (error_code \<times> nat) list \<Rightarrow> 'd \<Rightarrow> 'b list \<Rightarrow> 'd until \<times> 'b list" where
  "read_until_match ops match_condition answers d incoming =
     read_until_loop ops (look_match match_condition) answers 0 d incoming"

section \<open>The asynchronous operations\<close>

record 'd until_op =
  uo_buffers :: 'd
  uo_position :: nat
  uo_asked :: nat

definition new_until_op :: "'d \<Rightarrow> 'd until_op" where
  "new_until_op d = \<lparr>uo_buffers = d, uo_position = 0, uo_asked = 0\<rparr>"

datatype 'd until_step = UntilRead "nat \<times> nat" "'d until_op" | UntilThrew 'd | UntilHandler error_code nat 'd

text \<open>The search at the head of the loop: the new \<open>search_position_\<close> (\<open>not_found\<close> is the largest \<open>std::size_t\<close>) and
  \<open>bytes_to_read\<close>.\<close>

definition until_search :: "('d, 'b) dyn_ops \<Rightarrow> ('b list \<Rightarrow> nat \<times> bool) \<Rightarrow> nat \<Rightarrow> 'd \<Rightarrow> nat \<times> nat" where
  "until_search ops look search_position d =
     (let (n, match) = look (drop search_position (dyn_data ops d))
      in if match then (search_position + n, 0)
         else if dyn_size ops d = dyn_max_size ops d then (size_max, 0)
         else (search_position + n, bytes_to_read ops d))"

definition until_finish :: "error_code \<Rightarrow> 'd until_op \<Rightarrow> 'd until_step" where
  "until_finish ec this =
     UntilHandler (if uo_position this = size_max then misc_ec not_found else ec)
       (if failed ec \<or> uo_position this = size_max then 0 else uo_position this) (uo_buffers this)"

definition until_more ::
  "('d, 'b) dyn_ops \<Rightarrow> ('b list \<Rightarrow> nat \<times> bool) \<Rightarrow> error_code \<Rightarrow> int \<Rightarrow> 'd until_op \<Rightarrow> 'd until_step" where
  "until_more ops look ec start this =
     (let (search_position, n) = until_search ops look (uo_position this) (uo_buffers this);
          this = this\<lparr>uo_position := search_position, uo_asked := n\<rparr>
      in if start = 0 \<and> n = 0 then until_finish ec this
         else (case dyn_prepare ops n (uo_buffers this) of
                 (None, d1) \<Rightarrow> UntilThrew d1
               | (Some room, d1) \<Rightarrow> UntilRead room (this\<lparr>uo_buffers := d1\<rparr>)))"

definition until_call ::
  "('d, 'b) dyn_ops \<Rightarrow> ('b list \<Rightarrow> nat \<times> bool) \<Rightarrow> bool \<Rightarrow> error_code \<Rightarrow> nat \<Rightarrow> int \<Rightarrow> 'd until_op \<Rightarrow> 'd until_step" where
  "until_call ops look cancelled ec bytes_transferred start this =
     (if start = 1 then until_more ops look ec start this
      else (let this = this\<lparr>uo_buffers := dyn_commit ops (uo_asked this) bytes_transferred (uo_buffers this)\<rparr>
            in if failed ec \<or> bytes_transferred = 0 then until_finish ec this
               else if cancelled then until_finish (basic_ec operation_aborted) this
               else until_more ops look ec start this))"

definition start_until :: "('d, 'b) dyn_ops \<Rightarrow> ('b list \<Rightarrow> nat \<times> bool) \<Rightarrow> 'd \<Rightarrow> 'd until_step" where
  "start_until ops look d = until_call ops look False ec_success 0 1 (new_until_op d)"

text \<open>The operation and the answers of the stream: error code, bytes offered, and whether the operation has been
  cancelled in the meantime.\<close>

fun drive_until :: "('d, 'b) dyn_ops \<Rightarrow> ('b list \<Rightarrow> nat \<times> bool) \<Rightarrow> (error_code \<times> nat \<times> bool) list
    \<Rightarrow> 'd until_step \<Rightarrow> 'b list \<Rightarrow> 'd until_step \<times> 'b list" where
  "drive_until ops look ((ec, m, cancelled) # answers) (UntilRead (pos, k) this) incoming =
     (let n = min m (min k (length incoming));
          this = this\<lparr>uo_buffers := dyn_store ops pos (take n incoming) (uo_buffers this)\<rparr>
      in drive_until ops look answers (until_call ops look cancelled ec n 0 this) (drop n incoming))"
| "drive_until ops look answers st incoming = (st, incoming)"

definition async_read_until_char ::
  "('d, 'b) dyn_ops \<Rightarrow> 'b \<Rightarrow> (error_code \<times> nat \<times> bool) list \<Rightarrow> 'd \<Rightarrow> 'b list \<Rightarrow> 'd until_step \<times> 'b list" where
  "async_read_until_char ops delim answers d incoming =
     drive_until ops (look_char delim) answers (start_until ops (look_char delim) d) incoming"

definition async_read_until_string ::
  "('d, 'b) dyn_ops \<Rightarrow> 'b list \<Rightarrow> (error_code \<times> nat \<times> bool) list \<Rightarrow> 'd \<Rightarrow> 'b list \<Rightarrow> 'd until_step \<times> 'b list" where
  "async_read_until_string ops delim answers d incoming =
     drive_until ops (look_string delim) answers (start_until ops (look_string delim) d) incoming"

definition async_read_until_match ::
  "('d, 'b) dyn_ops \<Rightarrow> ('b list \<Rightarrow> nat \<times> bool) \<Rightarrow> (error_code \<times> nat \<times> bool) list \<Rightarrow> 'd \<Rightarrow> 'b list
   \<Rightarrow> 'd until_step \<times> 'b list" where
  "async_read_until_match ops match_condition answers d incoming =
     drive_until ops (look_match match_condition) answers (start_until ops (look_match match_condition) d) incoming"

end
