(* ===== verification/ReadUntilSpec.thy ===== *)
theory ReadUntilSpec
  imports ReadUntil "HOL-Library.Sublist"
begin

text \<open>
  What reading until a delimiter returns: the end of the first match in all the data, although each round searches
  only the part that can still matter.
\<close>

section \<open>The reference: the first match in a whole sequence\<close>

fun first_end :: "'b list \<Rightarrow> 'b list \<Rightarrow> nat option" where
  "first_end delim [] = (if delim = [] then Some 0 else None)"
| "first_end delim (x # xs) =
     (if prefix delim (x # xs) then Some (length delim) else map_option Suc (first_end delim xs))"

lemma first_end_Some:
  "first_end delim xs = Some n \<Longrightarrow> length delim \<le> n \<and> n \<le> length xs
    \<and> prefix delim (drop (n - length delim) xs) \<and> (\<forall>i < n - length delim. \<not> prefix delim (drop i xs))"
proof (induction delim xs arbitrary: n rule: first_end.induct)
  case (2 delim x xs)
  show ?case
  proof (cases "prefix delim (x # xs)")
    case True
    then show ?thesis using 2 prefix_length_le [OF True] by auto
  next
    case False
    then obtain m where m: "first_end delim xs = Some m" "n = Suc m" using 2(2) by auto
    note ih = "2.IH" [OF False m(1)]
    have "\<not> prefix delim (drop i (x # xs))" if "i < n - length delim" for i
      using that ih False m(2) by (cases i) auto
    moreover have "Suc m - length delim = Suc (m - length delim)" using ih by (simp add: Suc_diff_le)
    ultimately show ?thesis using ih m(2) by auto
  qed
qed (auto split: if_splits)

lemma first_end_None: "first_end delim xs = None \<Longrightarrow> \<not> prefix delim (drop i xs)"
proof (induction delim xs arbitrary: i rule: first_end.induct)
  case (2 delim x xs)
  then show ?case by (cases i) (auto split: if_splits)
qed (auto split: if_splits)

lemma first_end_short: "length xs < length delim \<Longrightarrow> first_end delim xs = None"
proof (induction xs)
  case (Cons x xs)
  then show ?case using prefix_length_le [of delim "x # xs"] by auto
qed simp

section \<open>One search\<close>

lemma shift_option [simp]:
  "map_option ((+) (0 :: nat)) x = x" "map_option Suc (map_option ((+) n) x) = map_option ((+) (Suc n)) x"
  "map_option ((+) m) (map_option ((+) n) x) = map_option ((+) (m + n)) x"
  by (cases x; simp)+

lemma compare_here_prefix:
  "compare_here moved xs ds = Full \<longleftrightarrow> prefix ds xs"
  "compare_here moved xs ds = Partial \<longleftrightarrow> strict_prefix xs ds \<and> (moved \<or> xs \<noteq> [])"
  by (induction moved xs ds rule: compare_here.induct) (auto simp: strict_prefix_def)

lemma partial_search_from_shift:
  "partial_search_from (i + j) xs ds = map_prod ((+) i) id (partial_search_from j xs ds)"
  by (induction j xs ds rule: partial_search_from.induct) (auto split: comparison.split simp flip: add_Suc_right)

text \<open>A search is incremental with respect to a reference if it finds the first match, and if without a match it leaves
  a position from which alone the first match of any continuation can be found.\<close>

definition resumes_at :: "('b list \<Rightarrow> nat option) \<Rightarrow> 'b list \<Rightarrow> nat \<Rightarrow> bool" where
  "resumes_at found xs n \<longleftrightarrow> n \<le> length xs \<and> (\<forall>ys. found (xs @ ys) = map_option ((+) n) (found (drop n xs @ ys)))"

locale incremental_search =
  fixes look :: "'b list \<Rightarrow> nat \<times> bool" and found :: "'b list \<Rightarrow> nat option"
  assumes look_match: "look xs = (n, True) \<Longrightarrow> found xs = Some n \<and> n \<le> length xs"
    and look_again: "look xs = (n, False) \<Longrightarrow> found xs = None \<and> resumes_at found xs n"

lemma partial_search_correct:
  assumes "ds \<noteq> []"
  shows "case partial_search xs ds of
      (i, True) \<Rightarrow> i < length xs \<and> first_end ds xs = Some (i + length ds)
    | (i, False) \<Rightarrow> first_end ds xs = None \<and> resumes_at (first_end ds) xs i"
proof (induction xs)
  case Nil
  then show ?case using assms by (simp add: partial_search_def resumes_at_def)
next
  case (Cons x xs)
  show ?case
  proof (cases "compare_here False (x # xs) ds")
    case Full
    then show ?thesis using compare_here_prefix(1) [of False "x # xs" ds] by (simp add: partial_search_def)
  next
    case Partial
    then have "strict_prefix (x # xs) ds" using compare_here_prefix(2) [of False "x # xs" ds] by simp
    then have "length (x # xs) < length ds" by (rule prefix_length_less)
    then show ?thesis using Partial first_end_short [of "x # xs" ds] by (simp add: partial_search_def resumes_at_def)
  next
    case Differs
    then have no: "\<not> prefix ds (x # xs)" "\<not> strict_prefix (x # xs) ds"
      using compare_here_prefix [of False "x # xs" ds] by simp_all
    then have diff: "\<not> prefix ds (x # xs @ ys)" for ys
      using prefix_append [of ds "x # xs" ys] by (auto simp: strict_prefix_def)
    have eq: "partial_search (x # xs) ds = map_prod Suc id (partial_search xs ds)"
      using partial_search_from_shift [of 1 0 xs ds] Differs
      by (cases "partial_search_from 0 xs ds") (simp add: partial_search_def)
    obtain i m where s: "partial_search xs ds = (i, m)" by (meson surj_pair)
    show ?thesis
      using Cons.IH no(1) diff unfolding eq s by (cases m) (auto simp: resumes_at_def)
  qed
qed

lemma find_char_first: "find_char c xs = (case first_end [c] xs of None \<Rightarrow> length xs | Some n \<Rightarrow> n - 1)"
  by (induction xs) (auto split: option.splits dest: first_end_Some)

lemma first_end_char_again: "first_end [c] xs = None \<Longrightarrow> first_end [c] (xs @ ys) = map_option ((+) (length xs)) (first_end [c] ys)"
  by (induction xs) (auto split: if_splits)

interpretation for_string: incremental_search "look_string (d # ds)" "first_end (d # ds)" for d ds
proof (unfold_locales, goal_cases)
  case (1 xs n)
  obtain i m where s: "partial_search xs (d # ds) = (i, m)" by (meson surj_pair)
  then show ?case using 1 partial_search_correct [of "d # ds" xs] first_end_Some [of "d # ds" xs n]
    by (cases m) (auto simp: look_string_def split: if_splits)
next
  case (2 xs n)
  obtain i m where s: "partial_search xs (d # ds) = (i, m)" by (meson surj_pair)
  then show ?case using 2 partial_search_correct [of "d # ds" xs]
    by (cases m) (auto simp: look_string_def split: if_splits)
qed

interpretation for_char: incremental_search "look_char c" "first_end [c]" for c
proof (unfold_locales, goal_cases)
  case (1 xs n)
  then show ?case using first_end_Some [of "[c]" xs]
    by (auto simp: look_char_def Let_def find_char_first split: if_splits option.splits)
next
  case (2 xs n)
  then show ?case using first_end_Some [of "[c]" xs] first_end_char_again [of c xs]
    by (fastforce simp: look_char_def Let_def find_char_first resumes_at_def split: if_splits option.splits)
qed

section \<open>The loops\<close>

locale reading = dynamic_buffer ops dinv + incremental_search look found
  for ops :: "('d, 'b) dyn_ops" and dinv and look :: "'b list \<Rightarrow> nat \<times> bool" and found
begin

lemma resumes_0: "resumes_at found xs 0"
  by (simp add: resumes_at_def)

lemma resumes_append: "resumes_at found xs p \<Longrightarrow> resumes_at found (xs @ zs) p"
  by (auto simp: resumes_at_def)

lemma look_from:
  assumes "resumes_at found xs p" and "look (drop p xs) = (n, match)"
  shows "if match then found xs = Some (p + n) \<and> p + n \<le> length xs else found xs = None \<and> resumes_at found xs (p + n)"
proof -
  have p: "p \<le> length xs" "found xs = map_option ((+) p) (found (drop p xs))"
    using assms(1) by (auto simp: resumes_at_def dest: spec [of _ "[]"])
  show ?thesis
  proof (cases match)
    case True
    then show ?thesis using assms(2) look_match [of "drop p xs" n] p by auto
  next
    case False
    then have "found (drop p xs) = None" "resumes_at found (drop p xs) n" 
      using assms(2) look_again [of "drop p xs" n] by simp_all
    then show ?thesis using False p assms(1) by (auto simp: resumes_at_def add.commute)
  qed
qed

lemma bytes_to_read_bounds:
  assumes "dinv d" and "dyn_size ops d \<noteq> dyn_max_size ops d"
  shows "0 < bytes_to_read ops d \<and> bytes_to_read ops d \<le> 65536 \<and> dyn_size ops d + bytes_to_read ops d \<le> dyn_max_size ops d"
  using size_le_max [OF assms(1)] assms(2) by (auto simp: bytes_to_read_def min_def max_def)

text \<open>What a search has made of the data, in the two forms that the code has.\<close>

lemma until_round_correct:
  assumes "dinv d" "resumes_at found (dyn_data ops d) p" "length (dyn_data ops d) + 65536 < size_max"
  shows "case until_round ops look p d of
      RoundDone ec n \<Rightarrow> if failed ec then ec = misc_ec not_found \<and> n = 0 \<and> found (dyn_data ops d) = None
          \<and> length (dyn_data ops d) = dyn_max_size ops d
        else ec = ec_success \<and> found (dyn_data ops d) = Some n
    | RoundThrew d1 \<Rightarrow> False
    | RoundRead p1 asked (pos, k) d1 \<Rightarrow> dyn_prepare ops asked d = (Some (pos, k), d1) \<and> k = asked \<and> 0 < k \<and> k \<le> 65536
        \<and> length (dyn_data ops d) + k \<le> dyn_max_size ops d
        \<and> found (dyn_data ops d) = None \<and> resumes_at found (dyn_data ops d) p1"
proof -
  obtain n m where l: "look (drop p (dyn_data ops d)) = (n, m)" by (meson surj_pair)
  note r = look_from [OF assms(2) l]
  show ?thesis
  proof (cases "m \<or> dyn_size ops d = dyn_max_size ops d")
    case True
    then show ?thesis using r l size_data [OF assms(1)]
      by (auto simp: until_round_def failed_def ec_success_def misc_ec_def)
  next
    case False
    then have b: "0 < bytes_to_read ops d" "bytes_to_read ops d \<le> 65536"
      "dyn_size ops d + bytes_to_read ops d \<le> dyn_max_size ops d"
      using bytes_to_read_bounds [OF assms(1)] by auto
    then obtain pos d1 where "dyn_prepare ops (bytes_to_read ops d) d = (Some (pos, bytes_to_read ops d), d1)"
      using prepare_room [OF assms(1) b(3,2)] assms(3) size_data [OF assms(1)] by auto
    then show ?thesis using False r l b size_data [OF assms(1)] by (simp add: until_round_def)
  qed
qed

lemma read_appends:
  assumes "dinv d" "dyn_prepare ops k d = (Some (pos, k), d1)" "k \<le> 65536" "length (dyn_data ops d) + 65536 < size_max"
    and "n = min m (min k (length incoming))" "d2 = dyn_commit ops k n (dyn_store ops pos (take n incoming) d1)"
  shows "dinv d2" "dyn_data ops d2 = dyn_data ops d @ take n incoming" "dyn_max_size ops d2 = dyn_max_size ops d"
proof -
  have n: "length (take n incoming) = n" "length (take n incoming) \<le> k" using assms(5) by simp_all
  have "dyn_size ops d + k < size_max" using assms(3,4) size_data [OF assms(1)] by simp
  from prepare_read [OF assms(1,2,3) this n(2)] show "dinv d2" "dyn_data ops d2 = dyn_data ops d @ take n incoming"
    "dyn_max_size ops d2 = dyn_max_size ops d" unfolding assms(6) n(1) by simp_all
qed

lemma read_until_loop_correct:
  assumes "dinv d" "resumes_at found (dyn_data ops d) p" "length (dyn_data ops d) + length incoming + 65536 < size_max"
    and "read_until_loop ops look answers p d incoming = (r, rest)"
  shows "\<exists>k \<le> length incoming. rest = drop k incoming \<and>
    (case r of
       Returned ec n d' \<Rightarrow> dinv d' \<and> dyn_data ops d' = dyn_data ops d @ take k incoming
         \<and> (if failed ec then n = 0 \<and> (ec \<in> fst ` set answers
              \<or> ec = misc_ec not_found \<and> found (dyn_data ops d') = None \<and> length (dyn_data ops d') = dyn_max_size ops d)
            else found (dyn_data ops d') = Some n)
     | Threw d' \<Rightarrow> False
     | Blocked p' d' \<Rightarrow> found (dyn_data ops d @ take k incoming) = None)"
  using assms
proof (induction answers arbitrary: p d incoming)
  case Nil
  then have "length (dyn_data ops d) + 65536 < size_max" by simp
  note rc = until_round_correct [OF Nil(1,2) this]
  show ?case
    by (rule exI [of _ 0]) (use rc Nil in \<open>auto split: round.splits if_splits prod.splits\<close>)
next
  case (Cons a answers)
  obtain ec m where a: "a = (ec, m)" by (cases a)
  have sz: "length (dyn_data ops d) + 65536 < size_max" using Cons.prems(3) by simp
  note rc = until_round_correct [OF Cons.prems(1,2) sz]
  show ?case
  proof (cases "until_round ops look p d")
    case (RoundDone ec1 n1)
    then show ?thesis using rc Cons.prems by (intro exI [of _ 0]) (auto simp: a split: if_splits)
  next
    case (RoundThrew d1)
    then show ?thesis using rc by simp
  next
    case (RoundRead p1 asked room d1)
    obtain pos k where room: "room = (pos, k)" by (cases room)
    have rd: "dyn_prepare ops k d = (Some (pos, k), d1)" "asked = k" "k \<le> 65536" "resumes_at found (dyn_data ops d) p1"
      using rc by (simp_all add: RoundRead room)
    define n where "n = min m (min k (length incoming))"
    define d2 where "d2 = dyn_commit ops k n (dyn_store ops pos (take n incoming) d1)"
    note ap = read_appends [OF Cons.prems(1) rd(1,3) sz n_def d2_def]
    have nle: "n \<le> length incoming" by (simp add: n_def)
    have run: "(if failed ec then (Returned ec 0 d2, drop n incoming)
        else read_until_loop ops look answers p1 d2 (drop n incoming)) = (r, rest)"
      using Cons.prems(4) by (simp add: a RoundRead room rd(2) n_def [symmetric] d2_def [symmetric])
    show ?thesis
    proof (cases "failed ec")
      case True
      then show ?thesis using run ap nle by (intro exI [of _ n]) (auto simp: a)
    next
      case False
      have "length (dyn_data ops d2) + length (drop n incoming) + 65536 < size_max"
        using Cons.prems(3) ap(2) nle by simp
      moreover have "resumes_at found (dyn_data ops d2) p1" using resumes_append [OF rd(4)] by (simp add: ap(2))
      ultimately obtain j where j: "j \<le> length (drop n incoming)" "rest = drop j (drop n incoming)"
        "case r of
           Returned ec n' d' \<Rightarrow> dinv d' \<and> dyn_data ops d' = dyn_data ops d2 @ take j (drop n incoming)
             \<and> (if failed ec then n' = 0 \<and> (ec \<in> fst ` set answers
                  \<or> ec = misc_ec not_found \<and> found (dyn_data ops d') = None \<and> length (dyn_data ops d') = dyn_max_size ops d2)
                else found (dyn_data ops d') = Some n')
         | Threw d' \<Rightarrow> False
         | Blocked p' d' \<Rightarrow> found (dyn_data ops d2 @ take j (drop n incoming)) = None"
        using Cons.IH [OF ap(1), of p1 "drop n incoming"] run False by auto
      have "take n incoming @ take j (drop n incoming) = take (n + j) incoming" by (rule take_add [symmetric])
      then have t: "dyn_data ops d2 @ take j (drop n incoming) = dyn_data ops d @ take (n + j) incoming" by (simp add: ap(2))
      have "rest = drop (n + j) incoming" using j(2) by (simp add: add.commute)
      moreover have "n + j \<le> length incoming" using j(1) nle by simp
      ultimately show ?thesis using j(3) unfolding t ap(3)
        by (intro exI [of _ "n + j"]) (auto simp: a split: until.splits if_splits)
    qed
  qed
qed

text \<open>With answers that offer bytes, it returns before the buffer could be overfull, unless the stream has run dry.\<close>

lemma read_until_loop_ends:
  assumes "dinv d" "resumes_at found (dyn_data ops d) p" "length (dyn_data ops d) + length incoming + 65536 < size_max"
    and "\<forall>(ec, m) \<in> set answers. failed ec \<or> 0 < m"
    and "dyn_max_size ops d < length (dyn_data ops d) + length answers"
  shows "(\<exists>ec n d'. fst (read_until_loop ops look answers p d incoming) = Returned ec n d')
    \<or> snd (read_until_loop ops look answers p d incoming) = []"
  using assms
proof (induction answers arbitrary: p d incoming)
  case Nil
  then show ?case using size_data [OF Nil(1)] size_le_max [OF Nil(1)] by simp
next
  case (Cons a answers)
  obtain ec m where a: "a = (ec, m)" by (cases a)
  have sz: "length (dyn_data ops d) + 65536 < size_max" using Cons.prems(3) by simp
  note rc = until_round_correct [OF Cons.prems(1,2) sz]
  show ?case
  proof (cases "until_round ops look p d")
    case (RoundRead p1 asked room d1)
    obtain pos k where room: "room = (pos, k)" by (cases room)
    have rd: "dyn_prepare ops k d = (Some (pos, k), d1)" "asked = k" "k \<le> 65536" "resumes_at found (dyn_data ops d) p1" "0 < k"
      using rc by (simp_all add: RoundRead room)
    define n where "n = min m (min k (length incoming))"
    define d2 where "d2 = dyn_commit ops k n (dyn_store ops pos (take n incoming) d1)"
    note ap = read_appends [OF Cons.prems(1) rd(1,3) sz n_def d2_def]
    have run: "read_until_loop ops look (a # answers) p d incoming = (if failed ec then (Returned ec 0 d2, drop n incoming)
        else read_until_loop ops look answers p1 d2 (drop n incoming))"
      by (simp add: a RoundRead room rd(2) n_def [symmetric] d2_def [symmetric])
    show ?thesis
    proof (cases "failed ec \<or> incoming = []")
      case False
      then have n: "0 < n" "n \<le> length incoming" using Cons.prems(4) rd(5) by (auto simp: n_def a)
      have "(\<exists>ec n' d'. fst (read_until_loop ops look answers p1 d2 (drop n incoming)) = Returned ec n' d')
        \<or> snd (read_until_loop ops look answers p1 d2 (drop n incoming)) = []"
      proof (rule Cons.IH)
        show "resumes_at found (dyn_data ops d2) p1" using resumes_append [OF rd(4)] by (simp add: ap(2))
      qed (use Cons.prems ap n in auto)
      then show ?thesis using run False by simp
    next
      case True
      obtain r rest where "read_until_loop ops look (a # answers) p d incoming = (r, rest)" by (meson surj_pair)
      then show ?thesis using True run read_until_loop_correct [OF Cons.prems(1-3)] by (cases "failed ec") auto
    qed
  qed (use rc in \<open>auto simp: a\<close>)
qed

section \<open>The asynchronous operations\<close>

text \<open>What is known while a read is under way: it is either one for more data, or the empty read with which an operation
  that has its result from the start still goes through the stream.\<close>

definition until_phase :: "'b list \<Rightarrow> nat \<Rightarrow> nat \<Rightarrow> nat \<Rightarrow> bool" where
  "until_phase xs bound k p \<longleftrightarrow>
     (if k = 0 then (if p = size_max then found xs = None \<and> length xs = bound else found xs = Some p)
      else found xs = None \<and> resumes_at found xs p \<and> p \<noteq> size_max)"

definition until_reading :: "'d \<Rightarrow> nat \<times> nat \<Rightarrow> 'd until_op \<Rightarrow> bool" where
  "until_reading d room this \<longleftrightarrow> dinv d \<and> (\<exists>pos k. room = (pos, k) \<and> dyn_prepare ops k d = (Some (pos, k), uo_buffers this)
     \<and> uo_asked this = k \<and> k \<le> 65536 \<and> until_phase (dyn_data ops d) (dyn_max_size ops d) k (uo_position this))"

definition until_outcome :: "(error_code \<times> nat \<times> bool) list \<Rightarrow> 'b list \<Rightarrow> nat \<Rightarrow> 'b list \<Rightarrow> error_code \<Rightarrow> nat \<Rightarrow> bool" where
  "until_outcome answers rest bound xs ec n \<longleftrightarrow>
     (if failed ec then n = 0 \<and> (ec \<in> fst ` set answers
          \<or> ec = basic_ec operation_aborted \<and> (\<exists>(e, m, c) \<in> set answers. c)
          \<or> ec = misc_ec not_found \<and> found xs = None \<and> length xs = bound)
      else found xs = Some n \<or> (\<exists>(e, m, c) \<in> set answers. \<not> failed e \<and> (m = 0 \<or> rest = [])))"

lemma until_search_phase:
  assumes "dinv d" "resumes_at found (dyn_data ops d) p" "length (dyn_data ops d) + 65536 < size_max"
    and "until_search ops look p d = (p1, k)"
  shows "until_phase (dyn_data ops d) (dyn_max_size ops d) k p1 \<and> k \<le> 65536 \<and> length (dyn_data ops d) + k \<le> dyn_max_size ops d"
proof -
  obtain n m where l: "look (drop p (dyn_data ops d)) = (n, m)" by (meson surj_pair)
  note r = look_from [OF assms(2) l]
  show ?thesis
  proof (cases "m \<or> dyn_size ops d = dyn_max_size ops d")
    case True
    then show ?thesis using r l assms(3,4) size_data [OF assms(1)] size_le_max [OF assms(1)]
      by (auto simp: until_search_def until_phase_def split: if_splits)
  next
    case False
    then show ?thesis using r l assms(3,4) size_data [OF assms(1)] bytes_to_read_bounds [OF assms(1)]
      by (auto simp: until_search_def until_phase_def resumes_at_def)
  qed
qed

lemma until_more_correct:
  assumes "dinv (uo_buffers this)" "resumes_at found (dyn_data ops (uo_buffers this)) (uo_position this)"
    and "length (dyn_data ops (uo_buffers this)) + 65536 < size_max" and "\<not> failed ec"
  shows "case until_more ops look ec start this of
      UntilRead room this1 \<Rightarrow> until_reading (uo_buffers this) room this1
    | UntilThrew d1 \<Rightarrow> False
    | UntilHandler ec1 n d1 \<Rightarrow> d1 = uo_buffers this
        \<and> until_outcome answers rest (dyn_max_size ops d1) (dyn_data ops d1) ec1 n"
proof -
  obtain p1 k where s: "until_search ops look (uo_position this) (uo_buffers this) = (p1, k)" by (meson surj_pair)
  note ph = until_search_phase [OF assms(1-3) s]
  show ?thesis
  proof (cases "start = 0 \<and> k = 0")
    case True
    then show ?thesis using s ph assms(4)
      by (auto simp: until_more_def until_finish_def until_outcome_def until_phase_def failed_def misc_ec_def)
  next
    case False
    have "dyn_size ops (uo_buffers this) + k \<le> dyn_max_size ops (uo_buffers this)"
      "dyn_size ops (uo_buffers this) + k < size_max"
      using ph assms(3) size_data [OF assms(1)] by simp_all
    then obtain pos d1 where "dyn_prepare ops k (uo_buffers this) = (Some (pos, k), d1)"
      using prepare_room [OF assms(1), of k] ph by blast
    moreover have "\<not> (start = 0 \<and> k = 0)" using False .
    ultimately show ?thesis using s ph assms(1)
      by (simp add: until_more_def until_reading_def del: de_Morgan_conj)
  qed
qed

text \<open>What is proved of a run that starts with the data of \<open>d\<close> and ends in \<open>st\<close>.\<close>

definition until_driven :: "'d \<Rightarrow> (error_code \<times> nat \<times> bool) list \<Rightarrow> 'b list \<Rightarrow> 'd until_step \<Rightarrow> 'b list \<Rightarrow> bool" where
  "until_driven d answers incoming st rest \<longleftrightarrow> (\<exists>j \<le> length incoming. rest = drop j incoming \<and>
    (case st of
       UntilHandler ec n d' \<Rightarrow> dinv d' \<and> dyn_data ops d' = dyn_data ops d @ take j incoming
         \<and> until_outcome answers rest (dyn_max_size ops d) (dyn_data ops d') ec n
     | UntilThrew d' \<Rightarrow> False
     | UntilRead room' this' \<Rightarrow> True))"

text \<open>A read of \<open>n\<close> bytes in front of a run.\<close>

lemma until_driven_read:
  assumes d2: "dyn_data ops d2 = dyn_data ops d @ take n incoming" "dyn_max_size ops d2 = dyn_max_size ops d" and n: "n \<le> length incoming"
    and run: "until_driven d2 answers (drop n incoming) st rest"
  shows "until_driven d (a # answers) incoming st rest"
proof -
  obtain j where j: "j \<le> length (drop n incoming)" "rest = drop j (drop n incoming)"
    "case st of
       UntilHandler ec n' d' \<Rightarrow> dinv d' \<and> dyn_data ops d' = dyn_data ops d2 @ take j (drop n incoming)
         \<and> until_outcome answers rest (dyn_max_size ops d2) (dyn_data ops d') ec n'
     | UntilThrew d' \<Rightarrow> False
     | UntilRead room' this' \<Rightarrow> True" using run unfolding until_driven_def by blast
  have "take n incoming @ take j (drop n incoming) = take (n + j) incoming" by (rule take_add [symmetric])
  then have t: "dyn_data ops d2 @ take j (drop n incoming) = dyn_data ops d @ take (n + j) incoming" by (simp add: d2(1))
  have mono: "until_outcome (a # answers) rest b xs e n'" if "until_outcome answers rest b xs e n'" for b xs e n'
    using that by (auto simp: until_outcome_def split: if_splits)
  have "rest = drop (n + j) incoming" using j(2) by (simp add: add.commute)
  moreover have "n + j \<le> length incoming" using j(1) n by simp
  ultimately show ?thesis using j(3) mono unfolding t d2(2) until_driven_def
    by (intro exI [of _ "n + j"]) (auto split: until_step.splits)
qed

text \<open>A read that failed or gave nothing ends the operation, with what was found before it, if anything.\<close>

lemma until_read_ended:
  assumes ph: "until_phase (dyn_data ops d) bound k p" and n: "n = min m (min k (length incoming))"
    and data: "dyn_data ops d2 = dyn_data ops d @ take n incoming" and ended: "failed ec \<or> n = 0"
  shows "until_outcome ((ec, m, c) # answers) (drop n incoming) bound (dyn_data ops d2)
    (if p = size_max then misc_ec not_found else ec) (if failed ec \<or> p = size_max then 0 else p)"
proof (cases "p = size_max")
  case True
  then have k: "k = 0" "found (dyn_data ops d) = None" "length (dyn_data ops d) = bound"
    using ph by (auto simp: until_phase_def split: if_splits)
  have "n = 0" using k(1) by (simp add: n)
  then show ?thesis using k True data by (simp add: until_outcome_def failed_def misc_ec_def)
next
  case False
  have "m = 0 \<or> drop n incoming = []" if "n = 0" "k \<noteq> 0" using that by (auto simp: n min_def split: if_splits)
  moreover have "n = 0" if "k = 0" using that by (simp add: n)
  ultimately show ?thesis using False ended ph data
    by (cases "k = 0") (auto simp: until_outcome_def until_phase_def)
qed

lemma drive_until_driven:
  assumes "until_reading d room this" "length (dyn_data ops d) + length incoming + 65536 < size_max"
    and "drive_until ops look answers (UntilRead room this) incoming = (st, rest)"
  shows "until_driven d answers incoming st rest"
  using assms
proof (induction answers arbitrary: d room this incoming)
  case Nil
  then show ?case unfolding until_driven_def by (intro exI [of _ 0]) auto
next
  case (Cons a answers)
  obtain ec m cancelled where a: "a = (ec, m, cancelled)" by (cases a)
  obtain pos k where rd: "room = (pos, k)" "dyn_prepare ops k d = (Some (pos, k), uo_buffers this)" "uo_asked this = k"
    "k \<le> 65536" "until_phase (dyn_data ops d) (dyn_max_size ops d) k (uo_position this)" "dinv d"
    using Cons.prems(1) by (auto simp: until_reading_def)
  define n where "n = min m (min k (length incoming))"
  define d2 where "d2 = dyn_commit ops k n (dyn_store ops pos (take n incoming) (uo_buffers this))"
  have sz: "length (dyn_data ops d) + 65536 < size_max" using Cons.prems(2) by simp
  note ap = read_appends [OF rd(6,2,4) sz n_def d2_def]
  have nle: "n \<le> length incoming" by (simp add: n_def)
  define this2 where "this2 = this\<lparr>uo_buffers := d2\<rparr>"
  have this2: "uo_buffers this2 = d2" "uo_position this2 = uo_position this" by (simp_all add: this2_def)
  let ?next = "if failed ec \<or> n = 0 then until_finish ec this2
    else if cancelled then until_finish (basic_ec operation_aborted) this2 else until_more ops look ec 0 this2"
  have "until_call ops look cancelled ec n 0 (this\<lparr>uo_buffers := dyn_store ops pos (take n incoming) (uo_buffers this)\<rparr>) = ?next"
    by (simp add: until_call_def rd(3) d2_def this2_def)
  then have run: "drive_until ops look answers ?next (drop n incoming) = (st, rest)"
    using Cons.prems(3) by (simp only: a rd(1) drive_until.simps Let_def n_def [symmetric])
  have ended: "until_driven d (a # answers) incoming st rest"
    if "?next = UntilHandler ec1 n1 d2" "until_outcome (a # answers) (drop n incoming) (dyn_max_size ops d2) (dyn_data ops d2) ec1 n1"
    for ec1 n1
    using run that ap nle unfolding that(1) until_driven_def by (intro exI [of _ n]) auto
  note out = until_read_ended [OF rd(5) n_def ap(2), folded ap(3), where ec = ec and c = cancelled and answers = answers, folded a]
  consider (stop) "failed ec \<or> n = 0" | (cancel) "\<not> (failed ec \<or> n = 0)" cancelled
    | (more) "\<not> (failed ec \<or> n = 0)" "\<not> cancelled" by blast
  then show ?case
  proof cases
    case stop
    then show ?thesis using out by (intro ended) (auto simp: until_finish_def this2)
  next
    case cancel
    then have "until_outcome (a # answers) (drop n incoming) (dyn_max_size ops d2) (dyn_data ops d2) (basic_ec operation_aborted) 0"
      by (simp add: until_outcome_def a failed_def basic_ec_def)
    moreover have "k \<noteq> 0" using cancel by (auto simp: n_def)
    ultimately show ?thesis using cancel rd(5)
      by (intro ended) (auto simp: until_finish_def this2 until_phase_def failed_def basic_ec_def)
  next
    case more
    then have "k \<noteq> 0" by (auto simp: n_def)
    then have res: "resumes_at found (dyn_data ops d2) (uo_position this)"
      using rd(5) resumes_append by (simp add: until_phase_def ap(2))
    have sz2: "length (dyn_data ops d2) + length (drop n incoming) + 65536 < size_max" using Cons.prems(2) ap(2) nle by simp
    have mr: "case until_more ops look ec 0 this2 of
          UntilRead room this1 \<Rightarrow> until_reading (uo_buffers this2) room this1
        | UntilThrew d1 \<Rightarrow> False
        | UntilHandler ec1 n1 d1 \<Rightarrow> d1 = uo_buffers this2
            \<and> until_outcome (a # answers) (drop n incoming) (dyn_max_size ops d1) (dyn_data ops d1) ec1 n1"
      by (rule until_more_correct) (use ap(1) res sz2 more this2 in auto)
    show ?thesis
    proof (cases "until_more ops look ec 0 this2")
      case (UntilHandler ec1 n1 d1)
      then show ?thesis using mr more this2 by (intro ended) auto
    next
      case (UntilRead room1 this1)
      then have "until_reading d2 room1 this1" using mr this2 by simp
      then have "until_driven d2 answers (drop n incoming) st rest" using Cons.IH [OF _ sz2] run more UntilRead by simp
      then show ?thesis by (rule until_driven_read [OF ap(2,3) nle])
    qed (use mr in simp)
  qed
qed

lemmas drive_until_correct = drive_until_driven [unfolded until_driven_def]

lemma start_until_reading:
  assumes "dinv d" "length (dyn_data ops d) + 65536 < size_max"
  obtains room this where "start_until ops look d = UntilRead room this" "until_reading d room this"
proof -
  have m: "start_until ops look d = until_more ops look ec_success 1 (new_until_op d)"
    by (simp add: start_until_def until_call_def)
  have "case until_more ops look ec_success 1 (new_until_op d) of
      UntilRead room this1 \<Rightarrow> until_reading (uo_buffers (new_until_op d)) room this1
    | UntilThrew d1 \<Rightarrow> False
    | UntilHandler ec1 n1 d1 \<Rightarrow> d1 = uo_buffers (new_until_op d)
        \<and> until_outcome [] [] (dyn_max_size ops d1) (dyn_data ops d1) ec1 n1"
    by (rule until_more_correct) (use assms resumes_0 in \<open>auto simp: new_until_op_def failed_def ec_success_def\<close>)
  moreover have "until_more ops look ec_success 1 (new_until_op d) \<noteq> UntilHandler ec n d1" for ec n d1
    by (auto simp: until_more_def Let_def split: prod.splits option.splits)
  ultimately show thesis using that m by (auto simp: new_until_op_def split: until_step.splits)
qed

lemma async_until_correct:
  assumes "dinv d" "length (dyn_data ops d) + length incoming + 65536 < size_max"
    and "drive_until ops look answers (start_until ops look d) incoming = (st, rest)"
  shows "\<exists>j \<le> length incoming. rest = drop j incoming \<and>
    (case st of
       UntilHandler ec n d' \<Rightarrow> dinv d' \<and> dyn_data ops d' = dyn_data ops d @ take j incoming
         \<and> until_outcome answers rest (dyn_max_size ops d) (dyn_data ops d') ec n
     | UntilThrew d' \<Rightarrow> False
     | UntilRead room' this' \<Rightarrow> True)"
proof -
  have "length (dyn_data ops d) + 65536 < size_max" using assms(2) by simp
  from start_until_reading [OF assms(1) this] obtain room this where
    "start_until ops look d = UntilRead room this" "until_reading d room this" .
  then show ?thesis using drive_until_correct [OF _ assms(2)] assms(3) by simp
qed

text \<open>A read that brings nothing and reports success ends the operation with success, whatever it was looking for.\<close>

lemma async_until_zero_bytes:
  assumes "dinv d" "length (dyn_data ops d) + 65536 < size_max" "dyn_size ops d \<noteq> dyn_max_size ops d"
    and "look (dyn_data ops d) = (n, False)" "\<not> failed ec"
  shows "\<exists>d'. drive_until ops look ((ec, 0, cancelled) # answers) (start_until ops look d) incoming
      = (UntilHandler ec n d', incoming) \<and> dyn_data ops d' = dyn_data ops d \<and> found (dyn_data ops d') = None"
proof -
  from start_until_reading [OF assms(1,2)] obtain room this where s:
    "start_until ops look d = UntilRead room this" "until_reading d room this" .
  obtain pos k where rd: "room = (pos, k)" "dyn_prepare ops k d = (Some (pos, k), uo_buffers this)" "uo_asked this = k" "k \<le> 65536"
    using s(2) by (auto simp: until_reading_def)
  have none: "found (dyn_data ops d) = None" "n \<le> length (dyn_data ops d)"
    using look_again [OF assms(4)] by (auto simp: resumes_at_def)
  have p: "uo_position this = n" using s(1) assms(3,4)
    by (auto simp: start_until_def until_call_def until_more_def until_search_def new_until_op_def Let_def
        split: option.splits prod.splits if_splits)
  define d2 where "d2 = dyn_commit ops k 0 (dyn_store ops pos (take 0 incoming) (uo_buffers this))"
  have "0 = min 0 (min k (length incoming))" by simp
  note ap = read_appends [OF assms(1) rd(2,4) assms(2) this d2_def]
  have "n \<noteq> size_max" using none(2) assms(2) by simp
  then have "drive_until ops look ((ec, 0, cancelled) # answers) (start_until ops look d) incoming = (UntilHandler ec n d2, incoming)"
    using assms(5) p by (simp add: s(1) rd(1,3) until_call_def until_finish_def d2_def)
  then show ?thesis using ap(2) none(1) by (intro exI [of _ d2]) simp
qed

end

interpretation stb_string: reading "streambuf_ops grown" stb_inv "look_string (d # ds)" "first_end (d # ds)" for grown d ds ..

interpretation v2_string: reading "string_v2_ops grown" ds_inv2 "look_string (d # ds)" "first_end (d # ds)" for grown d ds ..

interpretation v1_char: reading "string_v1_ops grown" ds_inv "look_char c" "first_end [c]" for grown c ..

section \<open>The properties\<close>

text \<open>C17: \<open>read_until\<close> of a delimiter string into a stream buffer is the search for the first occurrence in everything
  received: whatever the stream answers, the bytes received are appended to the data in order; if it returns
  without an error, its result is the end of the first occurrence of the delimiter in all the data (that was there
  before or has come), although each round searches only from where the last one left off; if it returns an error
  the result is 0 and the error is one of the stream, or \<open>not_found\<close> with the buffer full and no occurrence in it; as
  long as it waits there is none; \<open>prepare\<close> never throws.\<close>

theorem read_until_finds_the_first:
  assumes "stb_inv b" "delim \<noteq> []" "length (stb_data b) + length incoming + 65536 < size_max"
    and "read_until_string (streambuf_ops grown) delim answers b incoming = (r, rest)"
  shows "\<exists>k \<le> length incoming. rest = drop k incoming \<and>
    (case r of
       Returned ec n b' \<Rightarrow> stb_inv b' \<and> stb_data b' = stb_data b @ take k incoming
         \<and> (if failed ec then n = 0 \<and> (ec \<in> fst ` set answers
              \<or> ec = misc_ec not_found \<and> first_end delim (stb_data b') = None \<and> length (stb_data b') = stb_max b)
            else first_end delim (stb_data b') = Some n)
     | Threw b' \<Rightarrow> False
     | Blocked p b' \<Rightarrow> first_end delim (stb_data b @ take k incoming) = None)"
proof -
  obtain d ds where d: "delim = d # ds" using assms(2) by (cases delim) auto
  have o: "dyn_data (streambuf_ops grown) = stb_data" "dyn_max_size (streambuf_ops grown) = stb_max"
    by (simp_all add: streambuf_ops_def)
  show ?thesis
    using stb_string.read_until_loop_correct [OF assms(1) stb_string.resumes_0, of grown incoming d ds answers r rest] assms(3,4)
    unfolding o d read_until_string_def by simp
qed

lemmas until_defs = until_round_def look_string_def partial_search_def bytes_to_read_def streambuf_ops_def stb_defs

lemma read_until_loop_step:
  "until_round ops look p d = RoundRead p1 asked (pos, k) d1 \<Longrightarrow> n = min m (min k (length incoming)) \<Longrightarrow> \<not> failed ec
    \<Longrightarrow> dyn_commit ops asked n (dyn_store ops pos (take n incoming) d1) = d2
    \<Longrightarrow> read_until_loop ops look ((ec, m) # answers) p d incoming = read_until_loop ops look answers p1 d2 (drop n incoming)"
  by (simp add: Let_def)

text \<open>The delimiter \<open>7 8\<close> comes in two pieces.\<close>

lemma demo_read_until: "\<exists>b. read_until_string (streambuf_ops (\<lambda>_ n. n)) [7, 8] [(ec_success, 3), (ec_success, 9)]
  (new_streambuf 0 20) [5, 7, 7, 8, 9 :: nat] = (Returned ec_success 4 b, [])"
proof -
  let ?ops = "streambuf_ops (\<lambda>_ n. n)" and ?look = "look_string [7, 8 :: nat]"
  let ?b0 = "new_streambuf 0 20 :: nat streambuf"
  let ?b1 = "?b0\<lparr>stb_buffer := [5, 7, 7] @ replicate 17 0, gend := 3, pnext := 3\<rparr>"
  let ?b2 = "?b0\<lparr>stb_buffer := [5, 7, 7, 8, 9] @ replicate 15 0, gend := 5, pnext := 5\<rparr>"
  have 1: "until_round ?ops ?look 0 ?b0 = RoundRead 0 20 (0, 20) ?b0" by (simp add: until_defs)
  have 2: "dyn_commit ?ops 20 3 (dyn_store ?ops 0 [5, 7, 7] ?b0) = ?b1" by (simp add: until_defs)
  have 3: "until_round ?ops ?look 0 ?b1 = RoundRead 2 17 (3, 17) ?b1" by (simp add: until_defs)
  have 4: "dyn_commit ?ops 17 2 (dyn_store ?ops 3 [8, 9] ?b1) = ?b2" by (simp add: until_defs)
  have 5: "until_round ?ops ?look 2 ?b2 = RoundDone ec_success 4" by (simp add: until_defs)
  have ok: "\<not> failed ec_success" by (simp add: failed_def ec_success_def)
  have s1: "read_until_loop ?ops ?look [(ec_success, 3), (ec_success, 9)] 0 ?b0 [5, 7, 7, 8, 9]
      = read_until_loop ?ops ?look [(ec_success, 9)] 0 ?b1 (drop 3 [5, 7, 7, 8, 9])"
    by (rule read_until_loop_step [OF 1 _ ok]) (use 2 in simp_all)
  have s2: "read_until_loop ?ops ?look [(ec_success, 9)] 0 ?b1 [8, 9] = read_until_loop ?ops ?look [] 2 ?b2 (drop 2 [8, 9])"
    by (rule read_until_loop_step [OF 3 _ ok]) (use 4 in simp_all)
  have s3: "read_until_loop ?ops ?look [] 2 ?b2 [] = (Returned ec_success 4 ?b2, [])" using 5 by simp
  show ?thesis using s1 s2 s3 by (simp add: read_until_string_def)
qed

lemma read_until_finds_the_first_witness:
  "\<exists>b. read_until_string (streambuf_ops (\<lambda>_ n. n)) [7, 8] [(ec_success, 3), (ec_success, 9)]
     (new_streambuf 0 20) [5, 7, 7, 8, 9 :: nat] = (Returned ec_success 4 b, []) \<and> stb_data b = [5, 7, 7, 8, 9]
     \<and> first_end [7, 8] (stb_data b) = Some 4"
proof -
  let ?b = "new_streambuf 0 20 :: nat streambuf"
  obtain b where r: "read_until_string (streambuf_ops (\<lambda>_ n. n)) [7, 8] [(ec_success, 3), (ec_success, 9)] ?b [5, 7, 7, 8, 9]
      = (Returned ec_success 4 b, [])" using demo_read_until ..
  have "stb_inv ?b" "[7, 8 :: nat] \<noteq> []" "length (stb_data ?b) + length [5, 7, 7, 8, 9 :: nat] + 65536 < size_max"
    by (simp_all add: new_streambuf_inv size_max_def)
  moreover have "\<not> failed ec_success" by (simp add: failed_def ec_success_def)
  ultimately show ?thesis using read_until_finds_the_first [OF _ _ _ r] r
    by (intro exI [of _ b]) (auto simp: new_streambuf_inv)
qed

text \<open>C19: The same for \<open>async_read_until\<close> of a delimiter string into a \<open>dynamic_string_buffer\<close> (with \<open>grow\<close> and \<open>shrink\<close>),
  whenever it is cancelled: the bytes received are appended in order and the excess room is taken away again; with
  success the handler gets the end of the first occurrence in all the data, unless a read has reported success and
  no bytes; with an error it gets 0, and the error is one of the stream, or \<open>operation_aborted\<close> after a cancellation,
  or \<open>not_found\<close> with the buffer full and no occurrence in it.\<close>

theorem async_read_until_finds_the_first:
  assumes "ds_inv2 b" "delim \<noteq> []" "length (ds_string b) + length incoming + 65536 < size_max"
    and "async_read_until_string (string_v2_ops grown) delim answers b incoming = (UntilHandler ec n b', rest)"
  shows "ds_inv2 b' \<and> (\<exists>k \<le> length incoming. rest = drop k incoming \<and> ds_string b' = ds_string b @ take k incoming)
    \<and> (if failed ec then n = 0 \<and> (ec \<in> fst ` set answers
          \<or> ec = basic_ec operation_aborted \<and> (\<exists>(e, m, c) \<in> set answers. c)
          \<or> ec = misc_ec not_found \<and> first_end delim (ds_string b') = None \<and> length (ds_string b') = ds_max b)
       else first_end delim (ds_string b') = Some n
          \<or> (\<exists>(e, m, c) \<in> set answers. \<not> failed e \<and> (m = 0 \<or> rest = [])))"
proof -
  obtain d ds where d: "delim = d # ds" using assms(2) by (cases delim) auto
  have o: "dyn_max_size (string_v2_ops grown) = ds_max" "dyn_data (string_v2_ops grown) x = ds_string x" if "ds_inv2 x" for x
    using ds_inv2_range [OF that] by (simp_all add: string_v2_ops_def case_prod_beta)
  obtain k where k: "k \<le> length incoming" "rest = drop k incoming" "ds_inv2 b'"
    "dyn_data (string_v2_ops grown) b' = dyn_data (string_v2_ops grown) b @ take k incoming"
    "v2_string.until_outcome d ds answers rest (ds_max b) (dyn_data (string_v2_ops grown) b') ec n"
    using v2_string.async_until_correct [OF assms(1), of grown incoming d ds answers "UntilHandler ec n b'" rest] assms(1,3,4)
    by (auto simp: async_read_until_string_def d o)
  show ?thesis using k(1-4) k(5) [unfolded v2_string.until_outcome_def] by (auto simp: o assms(1) d)
qed

lemmas async_defs = start_until_def until_call_def until_more_def until_search_def until_finish_def new_until_op_def
  look_string_def partial_search_def bytes_to_read_def string_v2_ops_def ds_length_def ds_capacity_def ds_range_def
  ds_grow_def ds_shrink_def string_resize_def overwrite_at_def new_dyn_string_def size_max_def

lemma drive_until_step:
  "n = min m (min k (length incoming)) \<Longrightarrow>
   until_call ops look cancelled ec n 0 (this\<lparr>uo_buffers := dyn_store ops pos (take n incoming) (uo_buffers this)\<rparr>) = st
    \<Longrightarrow> drive_until ops look ((ec, m, cancelled) # answers) (UntilRead (pos, k) this) incoming
      = drive_until ops look answers st (drop n incoming)"
  by (simp add: Let_def)

lemma demo_async_read_until:
  "\<exists>b. async_read_until_string (string_v2_ops (\<lambda>_ n. n)) [7, 8] [(ec_success, 3, False), (ec_success, 9, False)]
    (new_dyn_string [] 0 20) [5, 7, 7, 8, 9 :: nat] = (UntilHandler ec_success 4 b, [])"
proof -
  let ?ops = "string_v2_ops (\<lambda>_ n. n) :: (nat dyn_string, nat) dyn_ops" and ?look = "look_string [7, 8 :: nat]"
  let ?b = "\<lambda>s. \<lparr>ds_string = s, ds_reserved = 20, ds_size = size_max, ds_max = 20\<rparr>"
  let ?o1 = "\<lparr>uo_buffers = ?b (replicate 20 0), uo_position = 0, uo_asked = 20\<rparr>"
  let ?o2 = "\<lparr>uo_buffers = ?b ([5, 7, 7] @ replicate 17 0), uo_position = 2, uo_asked = 17\<rparr>"
  have ok: "\<not> failed ec_success" by (simp add: failed_def ec_success_def)
  have "until_search ?ops ?look 0 (new_dyn_string [] 0 20) = (0, 20)" by (simp add: async_defs)
  moreover have "dyn_prepare ?ops 20 (new_dyn_string [] 0 20) = (Some (0, 20), ?b (replicate 20 0))" by (simp add: async_defs)
  ultimately have 1: "start_until ?ops ?look (new_dyn_string [] 0 20) = UntilRead (0, 20) ?o1"
    by (simp add: start_until_def until_call_def until_more_def new_until_op_def)
  have 2: "until_call ?ops ?look False ec_success 3 0 (?o1\<lparr>uo_buffers := dyn_store ?ops 0 [5, 7, 7] (uo_buffers ?o1)\<rparr>)
      = UntilRead (3, 17) ?o2" using ok by (simp add: async_defs)
  have 3: "until_call ?ops ?look False ec_success 2 0 (?o2\<lparr>uo_buffers := dyn_store ?ops 3 [8, 9] (uo_buffers ?o2)\<rparr>)
      = UntilHandler ec_success 4 (?b [5, 7, 7, 8, 9])" using ok by (simp add: async_defs)
  have s1: "drive_until ?ops ?look [(ec_success, 3, False), (ec_success, 9, False)] (UntilRead (0, 20) ?o1) [5, 7, 7, 8, 9]
      = drive_until ?ops ?look [(ec_success, 9, False)] (UntilRead (3, 17) ?o2) (drop 3 [5, 7, 7, 8, 9])"
    by (rule drive_until_step) (use 2 in simp_all)
  have s2: "drive_until ?ops ?look [(ec_success, 9, False)] (UntilRead (3, 17) ?o2) [8, 9]
      = drive_until ?ops ?look [] (UntilHandler ec_success 4 (?b [5, 7, 7, 8, 9])) (drop 2 [8, 9])"
    by (rule drive_until_step) (use 3 in simp_all)
  show ?thesis using 1 s1 s2 by (simp add: async_read_until_string_def)
qed

lemma async_read_until_finds_the_first_witness:
  "\<exists>b. async_read_until_string (string_v2_ops (\<lambda>_ n. n)) [7, 8] [(ec_success, 3, False), (ec_success, 9, False)]
      (new_dyn_string [] 0 20) [5, 7, 7, 8, 9 :: nat] = (UntilHandler ec_success 4 b, []) \<and> ds_string b = [5, 7, 7, 8, 9]"
proof -
  let ?b = "new_dyn_string [] 0 20 :: nat dyn_string"
  obtain b where r: "async_read_until_string (string_v2_ops (\<lambda>_ n. n)) [7, 8] [(ec_success, 3, False), (ec_success, 9, False)]
      ?b [5, 7, 7, 8, 9] = (UntilHandler ec_success 4 b, [])" using demo_async_read_until ..
  have "ds_inv2 ?b" "[7, 8 :: nat] \<noteq> []" "length (ds_string ?b) + length [5, 7, 7, 8, 9 :: nat] + 65536 < size_max"
    by (simp_all add: new_dyn_string_def ds_inv2_def ds_inv_def size_max_def)
  from async_read_until_finds_the_first [OF this r] r show ?thesis
    by (intro exI [of _ b]) (auto simp: new_dyn_string_def)
qed

text \<open>\<open>async_read_until\<close> reports success for a delimiter that is not there: if a read completes with success and no
  bytes while the delimiter has not come, the handler is called with success and, as the number of bytes up to and
  including the delimiter, the position at which the next search would have started.\<close>

theorem async_read_until_without_delimiter:
  assumes "ds_inv b" "c \<notin> set (ds_string b)" "length (ds_string b) < ds_max b" "length (ds_string b) + 65536 < size_max"
  shows "\<exists>b'. async_read_until_char (string_v1_ops grown) c ((ec_success, 0, False) # answers) b incoming
      = (UntilHandler ec_success (length (ds_string b)) b', incoming) \<and> c \<notin> set (ds_data b')"
proof -
  have o: "dyn_data (string_v1_ops grown) = ds_data" "dyn_size (string_v1_ops grown) = ds_length"
    "dyn_max_size (string_v1_ops grown) = ds_max" by (simp_all add: string_v1_ops_def)
  have f: "find_char c xs = length xs \<longleftrightarrow> c \<notin> set xs" for xs :: "'a list" by (induction xs) auto
  have "look_char c (ds_data b) = (length (ds_string b), False)"
    using assms(2) f by (simp add: look_char_def ds_inv_data [OF assms(1)])
  from v1_char.async_until_zero_bytes [OF assms(1) _ _ this [folded o(1)], of ec_success False answers incoming]
  obtain b' where "drive_until (string_v1_ops grown) (look_char c) ((ec_success, 0, False) # answers)
      (start_until (string_v1_ops grown) (look_char c) b) incoming = (UntilHandler ec_success (length (ds_string b)) b', incoming)"
    "ds_data b' = ds_data b"
    using assms(1,3,4) unfolding o by (auto simp: ds_inv_data ds_inv_length failed_def ec_success_def)
  then show ?thesis using assms(1,2) by (auto simp: async_read_until_char_def ds_inv_data)
qed

text \<open>A string with room for 8 bytes that holds the byte 5: the stream says success and brings nothing.\<close>

lemma async_read_until_without_delimiter_witness:
  "\<exists>b'. async_read_until_char (string_v1_ops (\<lambda>_ n. n)) 7 [(ec_success, 0, False)] (new_dyn_string [5] 1 8) [7 :: nat]
      = (UntilHandler ec_success 1 b', [7]) \<and> 7 \<notin> set (ds_data b')"
proof -
  let ?b = "new_dyn_string [5 :: nat] 1 8"
  have "ds_inv ?b" "7 \<notin> set (ds_string ?b)" "length (ds_string ?b) < ds_max ?b" "length (ds_string ?b) + 65536 < size_max"
    by (simp_all add: new_dyn_string_def ds_inv_def size_max_def)
  from async_read_until_without_delimiter [OF this, of "\<lambda>_ n. n" "[]" "[7]"] show ?thesis by (simp add: new_dyn_string_def)
qed

end
