(* ===== verification/TimerService.thy ===== *)
theory TimerService
  imports EpollRun SocketOps
begin

text \<open>
  The timer objects, \<^verbatim>\<open>asio/detail/deadline_timer_service.hpp\<close>, on the timers of the reactor. An implementation
  holds the expiry time, the flag that saves a call to the reactor when nothing waits, and the number of its
  \<open>per_timer_data\<close>, which stands for its address. A function that changes an implementation returns the new one.

  The blocking \<open>wait\<close> needs only the kernel: \<open>sel\<close> is \<open>select\<close> without descriptors, called with seconds and
  microseconds, and \<open>now\<close> the clock. It may go on for ever, so it is a partial function. Tracking and allocation
  of handlers are left out; \<open>async_wait\<close> takes the operation and, if the handler's cancellation slot is
  connected, the address of the \<open>op_cancellation\<close> put there, which is the key of the operation.
\<close>

record timer_impl =
  expiry :: int
  might_have_pending_waits :: bool
  timer_data :: nat

section \<open>Construction, moving and cancelling\<close>

text \<open>The default time is the epoch of the clock. What \<open>construct\<close> and \<open>move_construct\<close> get has only its
  \<open>timer_data\<close> constructed.\<close>

definition timer_construct :: "timer_impl \<Rightarrow> timer_impl" where
  "timer_construct impl = impl\<lparr>expiry := 0, might_have_pending_waits := False\<rparr>"

definition timer_cancel ::
  "timer_impl \<Rightarrow> ('o, 'w) rsched \<Rightarrow> nat \<times> timer_impl \<times> error_code \<times> ('o, 'w) rsched" where
  "timer_cancel impl s =
     (if \<not> might_have_pending_waits impl then (0, impl, ec_success, s)
      else let (count, s) = reactor_cancel_timer (timer_data impl) (2 ^ 64 - 1) s
           in (count, impl\<lparr>might_have_pending_waits := False\<rparr>, ec_success, s))"

definition timer_cancel_one ::
  "timer_impl \<Rightarrow> ('o, 'w) rsched \<Rightarrow> nat \<times> timer_impl \<times> error_code \<times> ('o, 'w) rsched" where
  "timer_cancel_one impl s =
     (if \<not> might_have_pending_waits impl then (0, impl, ec_success, s)
      else let (count, s) = reactor_cancel_timer (timer_data impl) 1 s;
               impl = (if count = 0 then impl\<lparr>might_have_pending_waits := False\<rparr> else impl)
           in (count, impl, ec_success, s))"

definition timer_destroy :: "timer_impl \<Rightarrow> ('o, 'w) rsched \<Rightarrow> timer_impl \<times> ('o, 'w) rsched" where
  "timer_destroy impl s = (let (count, impl, ec, s) = timer_cancel impl s in (impl, s))"

text \<open>The second part of both moves.\<close>

definition take_over :: "timer_impl \<Rightarrow> timer_impl \<Rightarrow> timer_impl \<times> timer_impl" where
  "take_over impl other_impl =
     (impl\<lparr>expiry := expiry other_impl, might_have_pending_waits := might_have_pending_waits other_impl\<rparr>,
      other_impl\<lparr>expiry := 0, might_have_pending_waits := False\<rparr>)"

definition timer_move_construct ::
  "timer_impl \<Rightarrow> timer_impl \<Rightarrow> ('o, 'w) rsched \<Rightarrow> timer_impl \<times> timer_impl \<times> ('o, 'w) rsched" where
  "timer_move_construct impl other_impl s =
     (let s = reactor_move_timer (timer_data impl) (timer_data other_impl) s;
          (impl, other_impl) = take_over impl other_impl
      in (impl, other_impl, s))"

text \<open>\<open>None\<close> stands for the case that \<open>other_service\<close> is the same service; otherwise it is the state of the other
  one's reactor.\<close>

definition timer_move_assign ::
  "timer_impl \<Rightarrow> ('o, 'w) rsched option \<Rightarrow> timer_impl \<Rightarrow> ('o, 'w) rsched
    \<Rightarrow> timer_impl \<times> timer_impl \<times> ('o, 'w) rsched \<times> ('o, 'w) rsched option" where
  "timer_move_assign impl other_service other_impl s =
     (let s = (if other_service \<noteq> None \<and> might_have_pending_waits impl
               then snd (reactor_cancel_timer (timer_data impl) (2 ^ 64 - 1) s) else s);
          (s, other_service) =
            (case other_service of
               None \<Rightarrow> (reactor_move_timer (timer_data impl) (timer_data other_impl) s, None)
             | Some s2 \<Rightarrow> (s, Some (reactor_move_timer (timer_data impl) (timer_data other_impl) s2)));
          (impl, other_impl) = take_over impl other_impl
      in (impl, other_impl, s, other_service))"

section \<open>The expiry time\<close>

definition expires_from_now :: "('o, 'w) os_env \<Rightarrow> timer_impl \<Rightarrow> ('o, 'w) rsched \<Rightarrow> int" where
  "expires_from_now E impl s = chrono_subtract (expiry impl) (os_now E (os (world s)))"

definition expires_at ::
  "timer_impl \<Rightarrow> int \<Rightarrow> ('o, 'w) rsched \<Rightarrow> nat \<times> timer_impl \<times> error_code \<times> ('o, 'w) rsched" where
  "expires_at impl expiry_time s =
     (let (count, impl, ec, s) = timer_cancel impl s
      in (count, impl\<lparr>expiry := expiry_time\<rparr>, ec_success, s))"

definition expires_after ::
  "('o, 'w) os_env \<Rightarrow> timer_impl \<Rightarrow> int \<Rightarrow> ('o, 'w) rsched \<Rightarrow> nat \<times> timer_impl \<times> error_code \<times> ('o, 'w) rsched" where
  "expires_after E impl expiry_time s = expires_at impl (chrono_add (os_now E (os (world s))) expiry_time) s"

section \<open>Waiting\<close>

definition select_call ::
  "(int \<times> int \<Rightarrow> 'w \<Rightarrow> 'w sys_result) \<Rightarrow> int \<times> int \<Rightarrow> error_code \<Rightarrow> 'w \<Rightarrow> int \<times> error_code \<times> 'w" where
  "select_call sel tv ec w =
     (let (result, errno, w) = sel tv w in (result, get_last_error (result < 0) errno ec, w))"

definition total_seconds :: "int \<Rightarrow> int" where
  "total_seconds ticks = duration_cast 1 1000000000 1 1 ticks"

definition do_wait ::
  "(int \<times> int \<Rightarrow> 'w \<Rightarrow> 'w sys_result) \<Rightarrow> int \<Rightarrow> error_code \<Rightarrow> 'w \<Rightarrow> error_code \<times> 'w" where
  "do_wait sel timeout ec w =
     (let (result, ec, w) = select_call sel (total_seconds timeout, total_microseconds timeout smod 1000000) ec w
      in (ec, w))"

partial_function (option) timer_wait_loop ::
  "(int \<times> int \<Rightarrow> 'w \<Rightarrow> 'w sys_result) \<Rightarrow> ('w \<Rightarrow> int) \<Rightarrow> timer_impl \<Rightarrow> int \<Rightarrow> error_code \<Rightarrow> 'w
    \<Rightarrow> (error_code \<times> 'w) option" where
  "timer_wait_loop sel now impl t ec w =
     (if chrono_less_than t (expiry impl) \<and> \<not> failed ec
      then let (ec, w) = do_wait sel (chrono_subtract (expiry impl) t) ec w
           in timer_wait_loop sel now impl (now w) ec w
      else Some (ec, w))"

declare timer_wait_loop.simps [code]

definition timer_wait ::
  "(int \<times> int \<Rightarrow> 'w \<Rightarrow> 'w sys_result) \<Rightarrow> ('w \<Rightarrow> int) \<Rightarrow> timer_impl \<Rightarrow> 'w \<Rightarrow> (error_code \<times> 'w) option" where
  "timer_wait sel now impl w = timer_wait_loop sel now impl (now w) ec_success w"

definition set_rop_key :: "'o \<Rightarrow> nat \<Rightarrow> ('o, 'w) reactor \<Rightarrow> ('o, 'w) reactor" where
  "set_rop_key opn key r = r\<lparr>rop_key := (rop_key r)(opn := key)\<rparr>"

definition timer_async_wait ::
  "('o, 'w) os_env \<Rightarrow> timer_impl \<Rightarrow> 'o \<Rightarrow> nat option \<Rightarrow> ('o, 'w) rsched \<Rightarrow> timer_impl \<times> ('o, 'w) rsched" where
  "timer_async_wait E impl opn slot s =
     (let s = (case slot of None \<Rightarrow> s | Some key \<Rightarrow> with_reactor (set_rop_key opn key) s);
          impl = impl\<lparr>might_have_pending_waits := True\<rparr>
      in (impl, schedule_timer E (expiry impl) (timer_data impl) opn s))"

text \<open>\<open>op_cancellation\<close> with its timer and its own address.\<close>

definition cancellation_terminal :: "32 word" where "cancellation_terminal = 1"
definition cancellation_partial :: "32 word" where "cancellation_partial = 2"
definition cancellation_total :: "32 word" where "cancellation_total = 4"

definition timer_op_cancellation :: "nat \<Rightarrow> nat \<Rightarrow> 32 word \<Rightarrow> ('o, 'w) rsched \<Rightarrow> ('o, 'w) rsched" where
  "timer_op_cancellation data key cancel_type s =
     (if cancel_type AND (cancellation_terminal OR cancellation_partial OR cancellation_total) \<noteq> 0
      then reactor_cancel_timer_by_key data key s else s)"

end
