(* ===== verification/TimerServiceInv.thy ===== *)
theory TimerServiceInv
  imports TimerService TimerSpec EpollInv
begin

text \<open>
  The timer objects of a program and the reactor together: every history of calls on them, of other calls to
  the reactor and of its runs (\<open>timer_reach\<close>), and the invariant that ties the objects to the timer queue.
\<close>

section \<open>Histories\<close>

text \<open>Timer objects by address.\<close>

type_synonym ('o, 'w) timer_sys = "(nat \<Rightarrow> timer_impl option) \<times> ('o, 'w) rsched"

datatype 'o timer_call =
    NewTimer nat
  | NewTimerFrom nat nat
  | AssignTimer nat nat
  | FreeTimer nat
  | CancelWaits nat
  | CancelOneWait nat
  | SetExpiry nat int
  | SetExpiryAfter nat int
  | AsyncWait nat 'o "nat option"
  | CancelSlot nat nat "32 word"

definition raw_timer :: "nat \<Rightarrow> timer_impl" where
  "raw_timer t = \<lparr>expiry = 0, might_have_pending_waits = False, timer_data = t\<rparr>"

text \<open>What a correct program may call: objects are constructed once and not assigned to themselves; fewer than
  \<open>2 ^ 64\<close> operations fit into memory.\<close>

fun timer_call_ok :: "'o timer_call \<Rightarrow> ('o, 'w) timer_sys \<Rightarrow> bool" where
  "timer_call_ok (NewTimer t) (objs, s) = (objs t = None)"
| "timer_call_ok (NewTimerFrom t u) (objs, s) = (objs t = None \<and> objs u \<noteq> None)"
| "timer_call_ok (AssignTimer t u) (objs, s) = (objs t \<noteq> None \<and> objs u \<noteq> None \<and> t \<noteq> u)"
| "timer_call_ok (FreeTimer t) (objs, s) = (objs t \<noteq> None)"
| "timer_call_ok (CancelWaits t) (objs, s) = (objs t \<noteq> None)"
| "timer_call_ok (CancelOneWait t) (objs, s) = (objs t \<noteq> None)"
| "timer_call_ok (SetExpiry t time) (objs, s) = (objs t \<noteq> None)"
| "timer_call_ok (SetExpiryAfter t d) (objs, s) = (objs t \<noteq> None)"
| "timer_call_ok (AsyncWait t opn slot) (objs, s) =
     (objs t \<noteq> None \<and> length (po (timer_q (world s)) t) + 1 < 2 ^ 64)"
| "timer_call_ok (CancelSlot t key ty) (objs, s) = (objs t \<noteq> None)"

fun run_timer_call :: "('o, 'w) os_env \<Rightarrow> 'o timer_call \<Rightarrow> ('o, 'w) timer_sys \<Rightarrow> ('o, 'w) timer_sys" where
  "run_timer_call E (NewTimer t) (objs, s) = (objs(t \<mapsto> timer_construct (raw_timer t)), s)"
| "run_timer_call E (NewTimerFrom t u) (objs, s) =
     (let (impl, other_impl, s) = timer_move_construct (raw_timer t) (the (objs u)) s
      in (objs(t \<mapsto> impl, u \<mapsto> other_impl), s))"
| "run_timer_call E (AssignTimer t u) (objs, s) =
     (let (impl, other_impl, s, other_service) = timer_move_assign (the (objs t)) None (the (objs u)) s
      in (objs(t \<mapsto> impl, u \<mapsto> other_impl), s))"
| "run_timer_call E (FreeTimer t) (objs, s) =
     (let (impl, s) = timer_destroy (the (objs t)) s in (objs(t := None), s))"
| "run_timer_call E (CancelWaits t) (objs, s) =
     (let (count, impl, ec, s) = timer_cancel (the (objs t)) s in (objs(t \<mapsto> impl), s))"
| "run_timer_call E (CancelOneWait t) (objs, s) =
     (let (count, impl, ec, s) = timer_cancel_one (the (objs t)) s in (objs(t \<mapsto> impl), s))"
| "run_timer_call E (SetExpiry t time) (objs, s) =
     (let (count, impl, ec, s) = expires_at (the (objs t)) time s in (objs(t \<mapsto> impl), s))"
| "run_timer_call E (SetExpiryAfter t d) (objs, s) =
     (let (count, impl, ec, s) = expires_after E (the (objs t)) d s in (objs(t \<mapsto> impl), s))"
| "run_timer_call E (AsyncWait t opn slot) (objs, s) =
     (let (impl, s) = timer_async_wait E (the (objs t)) opn slot s in (objs(t \<mapsto> impl), s))"
| "run_timer_call E (CancelSlot t key ty) (objs, s) =
     (objs, timer_op_cancellation (timer_data (the (objs t))) key ty s)"

fun is_timer_call :: "'o call \<Rightarrow> bool" where
  "is_timer_call (ScheduleTimer time timer opn) = True"
| "is_timer_call (CancelTimer timer n) = True"
| "is_timer_call (CancelTimerByKey timer key) = True"
| "is_timer_call (MoveTimer target source) = True"
| "is_timer_call c = False"

text \<open>The reactor's timer queue is called by the timer service alone, and by the reactor itself in its runs. The
  scheduler moves operations without touching the reactor, and the kernel may change at any time.\<close>

inductive timer_reach :: "('o, 'w) os_env \<Rightarrow> ('o, 'w) timer_sys \<Rightarrow> bool" for E where
  start: "timer_q (world s) = new_timer_queue ec \<Longrightarrow> timer_reach E (\<lambda>_. None, s)"
| timer: "timer_reach E z \<Longrightarrow> timer_call_ok c z \<Longrightarrow> timer_reach E (run_timer_call E c z)"
| other: "timer_reach E (objs, s) \<Longrightarrow> \<not> is_timer_call c \<Longrightarrow> timer_reach E (objs, run_call E c s)"
| task: "timer_reach E (objs, s) \<Longrightarrow> timer_reach E (objs, reactor_run E usec s)"
| perform: "timer_reach E (objs, s) \<Longrightarrow> timer_reach E (objs, snd (perform_io E d events s))"
| elsewhere: "timer_reach E (objs, s) \<Longrightarrow> world s' = (world s)\<lparr>os := w\<rparr> \<Longrightarrow> timer_reach E (objs, s')"

section \<open>What leaves the timer queue alone\<close>

lemma world_posted [simp]:
  "world (post_immediate_completion opn c s) = world s" "world (post_deferred_completions ops s) = world s"
  "world (work_started s) = world s" "world (compensating_work_started s) = world s"
  "world (do_dispatch opn s) = world s" "world (push_private n es s) = world s"
  "world (set_ready_events d ev s) = world s" "world (add_ready_events d ev s) = world s"
  by (simp_all add: post_immediate_completion_def post_deferred_completions_def work_started_def push_private_def
      push_op_def acquire_def compensating_work_started_def do_dispatch_def set_ready_events_def add_ready_events_def)

lemma timer_q_ctl [simp]: "timer_q (snd (epoll_ctl E c fd ev ptr r)) = timer_q r"
  "epoll_ctl E c fd ev ptr r = (err, r') \<Longrightarrow> timer_q r' = timer_q r"
  by (auto simp: epoll_ctl_def case_prod_beta)

lemma timer_q_ec [simp]: "timer_q (set_rop_ec opn ec r) = timer_q r"
  by (simp add: set_rop_ec_def)

lemma timer_q_perform [simp]: "timer_q (snd (perform E opn r)) = timer_q r"
  by (simp add: perform_def case_prod_beta)

lemma timer_q_fail [simp]: "timer_q (world (fail_op opn ec c s)) = timer_q (world s)"
  by (simp add: fail_op_def)

lemma timer_q_enqueue_op [simp]: "timer_q (world (enqueue_op d i opn s)) = timer_q (world s)"
  by (simp add: enqueue_op_def)

lemma timer_q_start_waiting [simp]: "timer_q (world (start_waiting E i fd d opn c s)) = timer_q (world s)"
  by (auto simp: start_waiting_def Let_def split: prod.splits)

lemma timer_q_start_op [simp]: "timer_q (world (start_op E i fd dd opn c spec s)) = timer_q (world s)"
  unfolding start_op_def Let_def case_prod_beta
  by (cases dd) (simp_all split del: if_split cong: if_cong add: if_distrib [of world] if_distrib [of timer_q])

lemma timer_q_interrupt [simp]: "timer_q (interrupt E r) = timer_q r" "timer_q (update_timeout E r) = timer_q r"
  by (simp_all add: interrupt_def update_timeout_def)

lemma timer_q_abort_all: "abort_all d r = (ops, r') \<Longrightarrow> timer_q r' = timer_q r"
proof -
  assume a: "abort_all d r = (ops, r')"
  have "timer_q (snd (fold (abort_type d) is acc)) = timer_q (snd acc)" for "is" acc
    by (induction "is" arbitrary: acc) (auto simp: abort_type_def abort_queue_eq)
  from this [of op_types "([], r)"] a show "timer_q r' = timer_q r" by (simp add: abort_all_def)
qed

lemma timer_q_other_call:
  assumes "\<not> is_timer_call c"
  shows "timer_q (world (run_call E c s)) = timer_q (world s)"
proof (cases c)
  case (Register k fd)
  then show ?thesis
    by (auto simp: register_descriptor_def allocate_descriptor_state_def set_socket_def Let_def
        split: prod.splits list.splits if_splits)
next
  case (CancelOps k)
  then show ?thesis by (auto simp: reactor_cancel_ops_def timer_q_abort_all split: option.splits prod.splits)
next
  case (CancelOpsByKey k i key)
  then show ?thesis by (auto simp: cancel_ops_by_key_def split_by_key_eq Let_def split: option.splits)
next
  case (Deregister k fd closing)
  then show ?thesis
    by (auto simp: deregister_descriptor_def set_socket_def Let_def split: option.splits prod.splits if_splits
        dest!: timer_q_abort_all)
next
  case (Cleanup k)
  then show ?thesis
    by (auto simp: cleanup_descriptor_data_def free_descriptor_state_def set_socket_def split: option.splits prod.splits)
qed (use assms in \<open>auto simp: set_socket_def move_descriptor_def\<close>)

lemma timer_q_perform_queue: "perform_queue E q r = (a, b, c, r') \<Longrightarrow> timer_q r' = timer_q r"
proof (induction q arbitrary: r a b c r')
  case (Cons x q)
  obtain st r1 where p: "perform E x r = (st, r1)" by (meson surj_pair)
  then have "timer_q r1 = timer_q r" by (metis snd_conv timer_q_perform)
  then show ?case using Cons by (auto simp: p split: prod.splits if_splits)
qed simp

lemma timer_q_perform_type: "timer_q (snd (perform_type E d ev i acc)) = timer_q (snd acc)"
  by (cases acc) (auto simp: perform_type_def Let_def split: prod.splits dest!: timer_q_perform_queue)

lemma timer_q_perform_io: "timer_q (world (snd (perform_io E d ev s))) = timer_q (world s)"
proof -
  have "timer_q (snd (fold (perform_type E d ev) is acc)) = timer_q (snd acc)" for "is" acc
    by (induction "is" arbitrary: acc) (simp_all add: timer_q_perform_type)
  from this [of "rev op_types" "([], world s)"] show ?thesis
    by (auto simp: perform_io_def perform_types_def perform_io_cleanup_def Let_def case_prod_beta)
qed

lemma timer_q_dispatch: "timer_q (world (snd (dispatch_event e acc))) = timer_q (world (snd acc))"
  by (cases "(e, acc)" rule: dispatch_event.cases) auto

lemma timer_q_dispatch_all: "timer_q (world (snd (fold dispatch_event es acc))) = timer_q (world (snd acc))"
  by (induction es arbitrary: acc) (simp_all add: timer_q_dispatch)

section \<open>Objects and queue\<close>

text \<open>Every queued wait belongs to a live timer object whose flag is set, and its timer is in the heap with the
  object's expiry time.\<close>

definition timers_ok :: "(nat \<Rightarrow> timer_impl option) \<Rightarrow> (int, nat, 'o) timer_queue \<Rightarrow> bool" where
  "timers_ok objs q \<longleftrightarrow> tq_inv q \<and> (\<forall>t impl. objs t = Some impl \<longrightarrow> timer_data impl = t)
     \<and> (\<forall>t. po q t \<noteq> [] \<longrightarrow> length (po q t) < 2 ^ 64
          \<and> (\<exists>impl. objs t = Some impl \<and> might_have_pending_waits impl \<and> (expiry impl, t) \<in> set (heap q)))"

lemma timers_okD:
  assumes "timers_ok objs q"
  shows "tq_inv q" "objs t = Some impl \<Longrightarrow> timer_data impl = t"
    "objs t = Some impl \<Longrightarrow> \<not> might_have_pending_waits impl \<Longrightarrow> po q t = []"
    "objs t = None \<Longrightarrow> po q t = []" "length (po q t) < 2 ^ 64"
    "objs t = Some impl \<Longrightarrow> po q t \<noteq> [] \<Longrightarrow> might_have_pending_waits impl \<and> (expiry impl, t) \<in> set (heap q)"
proof -
  note a = assms [unfolded timers_ok_def]
  show "tq_inv q" "objs t = Some impl \<Longrightarrow> timer_data impl = t" using a by simp_all
  show "length (po q t) < 2 ^ 64" using a by (cases "po q t = []") simp_all
  show "objs t = None \<Longrightarrow> po q t = []" "objs t = Some impl \<Longrightarrow> \<not> might_have_pending_waits impl \<Longrightarrow> po q t = []"
    "objs t = Some impl \<Longrightarrow> po q t \<noteq> [] \<Longrightarrow> might_have_pending_waits impl \<and> (expiry impl, t) \<in> set (heap q)"
    using a by force+
qed

lemma timers_okI:
  assumes "tq_inv q" "\<And>t impl. objs t = Some impl \<Longrightarrow> timer_data impl = t"
    and "\<And>t. po q t \<noteq> [] \<Longrightarrow> length (po q t) < 2 ^ 64
      \<and> (\<exists>impl. objs t = Some impl \<and> might_have_pending_waits impl \<and> (expiry impl, t) \<in> set (heap q))"
  shows "timers_ok objs q"
  using assms by (simp add: timers_ok_def)

lemma timers_ok_heap:
  assumes ok: "timers_ok objs q" and e: "(time, t) \<in> set (heap q)"
  shows "po q t \<noteq> [] \<and> (\<exists>impl. objs t = Some impl \<and> expiry impl = time)"
proof -
  note inv = timers_okD(1) [OF ok, unfolded tq_inv_def]
  have t: "po q t \<noteq> []" using tq_invX_parts(3) [OF inv e] by simp
  then obtain impl where i: "objs t = Some impl" "(expiry impl, t) \<in> set (heap q)"
    using ok unfolding timers_ok_def by blast
  have "distinct (map snd (heap q))" using idx_ok_distinct tq_invX_parts(2) [OF inv] by blast
  from inj_onD [OF iffD1 [OF distinct_map this, THEN conjunct2] _ e i(2)] show ?thesis using i(1) t by auto
qed

text \<open>An object without waits may change, appear or disappear.\<close>

lemma timers_ok_idle:
  assumes "timers_ok objs q" "po q t = []" "\<And>impl. x = Some impl \<Longrightarrow> timer_data impl = t"
  shows "timers_ok (objs(t := x)) q"
  using assms unfolding timers_ok_def by auto

lemma timers_ok_set_flag:
  assumes "timers_ok objs q" "objs t = Some impl"
  shows "timers_ok (objs(t \<mapsto> impl\<lparr>might_have_pending_waits := True\<rparr>)) q"
  using assms unfolding timers_ok_def by auto

text \<open>Waits of one timer leave.\<close>

lemma timers_ok_leave:
  assumes ok: "timers_ok objs q" and q': "tq_inv q'" "po q' = (po q)(t := xs)" "length xs \<le> length (po q t)"
    "\<And>e. e \<in> set (heap q) \<Longrightarrow> snd e \<noteq> t \<or> xs \<noteq> [] \<Longrightarrow> e \<in> set (heap q')"
  shows "timers_ok objs q'"
proof (rule timers_okI)
  fix u assume u: "po q' u \<noteq> []"
  then have old: "po q u \<noteq> []" using q'(2,3) by (auto split: if_splits)
  from ok old obtain impl where i: "objs u = Some impl" "might_have_pending_waits impl" "(expiry impl, u) \<in> set (heap q)"
    and len: "length (po q u) < 2 ^ 64" by (auto simp: timers_ok_def)
  have "(expiry impl, u) \<in> set (heap q')" using q'(4) [OF i(3)] u q'(2) by (auto split: if_splits)
  moreover have "length (po q' u) < 2 ^ 64" using len q'(2,3) by (cases "u = t") auto
  ultimately show "length (po q' u) < 2 ^ 64
      \<and> (\<exists>impl. objs u = Some impl \<and> might_have_pending_waits impl \<and> (expiry impl, u) \<in> set (heap q'))"
    using i by auto
qed (use ok q' in \<open>auto simp: timers_ok_def\<close>)

text \<open>Cancelling, by number and by key.\<close>

lemma reactor_cancel_effect:
  assumes inv: "tq_inv (timer_q (world s))"
  obtains r where "reactor_cancel_timer t n s = (min n (length (po (timer_q (world s)) t)),
      post_deferred_completions (map Operation (take n (po (timer_q (world s)) t))) (s\<lparr>world := r\<rparr>))"
    "tq_inv (timer_q r)" "po (timer_q r) = (po (timer_q (world s)))(t := drop n (po (timer_q (world s)) t))"
    "\<forall>e \<in> set (heap (timer_q (world s))). snd e \<noteq> t \<or> drop n (po (timer_q (world s)) t) \<noteq> [] \<longrightarrow> e \<in> set (heap (timer_q r))"
    "\<forall>x \<in> set (take n (po (timer_q (world s)) t)). op_ec (timer_q r) x = basic_ec operation_aborted"
proof -
  obtain m ops q where c: "cancel_timer t [] n (timer_q (world s)) = (m, ops, q)" by (metis prod_cases3)
  note e = cancel_timer_correct [OF inv c]
  have tk: "take (min n (length xs)) xs = take n xs" "drop (min n (length xs)) xs = drop n xs" for xs :: "'a list"
    by (auto simp: min_def)
  have h: "set (heap q) = (if drop n (po (timer_q (world s)) t) = [] then {e \<in> set (heap (timer_q (world s))). snd e \<noteq> t}
      else set (heap (timer_q (world s))))"
    using e by (auto simp: tk simp flip: set_mset_mset)
  show ?thesis
  proof (rule that [of "taken ops q (world s)"])
    show "reactor_cancel_timer t n s = (min n (length (po (timer_q (world s)) t)),
      post_deferred_completions (map Operation (take n (po (timer_q (world s)) t))) (s\<lparr>world := taken ops q (world s)\<rparr>))"
      using e by (simp add: reactor_cancel_timer_def c with_reactor_def tk)
  qed (use e h in \<open>auto simp: taken_def tk\<close>)
qed

lemma timers_ok_cancel:
  assumes ok: "timers_ok objs (timer_q (world s))"
  shows "timers_ok objs (timer_q (world (snd (reactor_cancel_timer t n s))))"
    "po (timer_q (world (snd (reactor_cancel_timer t n s)))) =
       (po (timer_q (world s)))(t := drop n (po (timer_q (world s)) t))"
    "fst (reactor_cancel_timer t n s) = min n (length (po (timer_q (world s)) t))"
proof -
  from reactor_cancel_effect [OF timers_okD(1) [OF ok], of t n] obtain r where
    r: "reactor_cancel_timer t n s = (min n (length (po (timer_q (world s)) t)),
      post_deferred_completions (map Operation (take n (po (timer_q (world s)) t))) (s\<lparr>world := r\<rparr>))"
    "tq_inv (timer_q r)" "po (timer_q r) = (po (timer_q (world s)))(t := drop n (po (timer_q (world s)) t))"
    "\<forall>e \<in> set (heap (timer_q (world s))). snd e \<noteq> t \<or> drop n (po (timer_q (world s)) t) \<noteq> [] \<longrightarrow> e \<in> set (heap (timer_q r))"
    by metis
  have "timers_ok objs (timer_q r)" by (rule timers_ok_leave [OF ok r(2,3)]) (use r(4) in auto)
  then show "timers_ok objs (timer_q (world (snd (reactor_cancel_timer t n s))))"
    "po (timer_q (world (snd (reactor_cancel_timer t n s)))) =
       (po (timer_q (world s)))(t := drop n (po (timer_q (world s)) t))"
    "fst (reactor_cancel_timer t n s) = min n (length (po (timer_q (world s)) t))"
    using r(1,3) by simp_all
qed

lemma timers_ok_cancel_all:
  assumes ok: "timers_ok objs (timer_q (world s))"
  shows "po (timer_q (world (snd (reactor_cancel_timer t (2 ^ 64 - 1) s)))) = (po (timer_q (world s)))(t := [])"
    "fst (reactor_cancel_timer t (2 ^ 64 - 1) s) = length (po (timer_q (world s)) t)"
  using timers_ok_cancel(2,3) [OF ok, of t "2 ^ 64 - 1"] timers_okD(5) [OF ok, of t] by simp_all

lemma timers_ok_cancel_by_key:
  assumes ok: "timers_ok objs (timer_q (world s))"
  shows "timers_ok objs (timer_q (world (reactor_cancel_timer_by_key t key s)))"
proof -
  let ?q = "timer_q (world s)"
  obtain ops q where c: "cancel_timer_by_key (rop_key (world s)) t [] key ?q = (ops, q)" by (meson surj_pair)
  note e = cancel_timer_by_key_correct [OF timers_okD(1) [OF ok] c]
  have h: "x \<in> set (heap q)" if "x \<in> set (heap ?q)" "snd x \<noteq> t \<or> filter (\<lambda>x. rop_key (world s) x \<noteq> key) (po ?q t) \<noteq> []" for x
  proof (cases "po ?q t = []")
    case True
    then show ?thesis using c that(1) by (simp add: cancel_timer_by_key_split [OF timers_okD(1) [OF ok]])
  next
    case False
    have "mset (heap q) = (if filter (\<lambda>x. rop_key (world s) x \<noteq> key) (po ?q t) = []
        then filter_mset (\<lambda>e. snd e \<noteq> t) (mset (heap ?q)) else mset (heap ?q))"
      using c False settle_ok(4) [OF timers_okD(1) [OF ok] False]
      by (auto simp: cancel_timer_by_key_split [OF timers_okD(1) [OF ok]])
    then show ?thesis using that by (auto simp flip: set_mset_mset split: if_splits)
  qed
  have "timers_ok objs q" by (rule timers_ok_leave [OF ok]) (use e h in auto)
  then show ?thesis by (simp add: reactor_cancel_timer_by_key_def c taken_def)
qed

text \<open>Moving to an object without waits.\<close>

lemma timers_ok_move:
  assumes ok: "timers_ok objs q" and t: "po q t = []" "t \<noteq> u" "timer_data impl = t"
    and u: "objs u = Some other" "take_over impl other = (impl', other')"
  shows "timers_ok (objs(t \<mapsto> impl', u \<mapsto> other')) (TimerQueue.move_timer t u q)"
proof (rule timers_okI)
  note m = move_timer_correct [OF timers_okD(1) [OF ok] t(1,2)]
  have du: "timer_data other = u" using timers_okD(2) [OF ok u(1)] .
  have i: "expiry impl' = expiry other" "might_have_pending_waits impl' = might_have_pending_waits other"
    "timer_data impl' = t" "timer_data other' = u" using u(2) t(3) du by (auto simp: take_over_def)
  show "tq_inv (TimerQueue.move_timer t u q)" using m by simp
  show "timer_data k = v" if "(objs(t \<mapsto> impl', u \<mapsto> other')) v = Some k" for v k
    using that i timers_okD(2) [OF ok, of v k] by (auto split: if_splits)
  fix v assume v: "po (TimerQueue.move_timer t u q) v \<noteq> []"
  then have vu: "v \<noteq> u" using m t(2) by auto
  show "length (po (TimerQueue.move_timer t u q) v) < 2 ^ 64
      \<and> (\<exists>k. (objs(t \<mapsto> impl', u \<mapsto> other')) v = Some k \<and> might_have_pending_waits k
        \<and> (expiry k, v) \<in> set (heap (TimerQueue.move_timer t u q)))"
  proof (cases "v = t")
    case True
    then have "po q u \<noteq> []" using v m vu by simp
    from timers_okD(6) [OF ok u(1) this] timers_okD(5) [OF ok, of u]
    show ?thesis using True m i vu by (auto intro!: rev_image_eqI)
  next
    case False
    then have old: "po q v \<noteq> []" using v m vu by simp
    then obtain k where k: "objs v = Some k" using timers_okD(4) [OF ok] by (metis not_None_eq)
    from timers_okD(6) [OF ok k old] timers_okD(5) [OF ok, of v] k
    show ?thesis using False m vu by (auto intro!: rev_image_eqI)
  qed
qed

lemma reactor_move_idle:
  assumes "timers_ok objs (timer_q (world s))"
  shows "timer_q (world (reactor_move_timer t u s)) =
    TimerQueue.move_timer t u (timer_q (world (snd (reactor_cancel_timer t (2 ^ 64 - 1) s))))"
  by (simp add: reactor_move_timer_def reactor_cancel_timer_def case_prod_beta taken_def)

lemma timers_ok_reactor_move:
  assumes ok: "timers_ok objs (timer_q (world s))" and t: "t \<noteq> u" "timer_data impl = t"
    and u: "objs u = Some other" "take_over impl other = (impl', other')"
  shows "timers_ok (objs(t \<mapsto> impl', u \<mapsto> other')) (timer_q (world (reactor_move_timer t u s)))"
  unfolding reactor_move_idle [OF ok]
  by (rule timers_ok_move [OF timers_ok_cancel(1) [OF ok] _ t u]) (simp only: timers_ok_cancel_all(1) [OF ok] fun_upd_same)

text \<open>Scheduling.\<close>

lemma enqueue_timer_entry:
  assumes inv: "tq_inv q" and e: "e \<in> set (heap q) \<or> po q t = [] \<and> e = (time, t)"
  shows "e \<in> set (heap (snd (enqueue_timer (\<lambda>_. False) time t x q)))"
proof -
  obtain b q' where r: "enqueue_timer (\<lambda>_. False) time t x q = (b, q')" by (meson surj_pair)
  show ?thesis
  proof (cases "po q t = []")
    case True
    from enqueue_new(4) [OF inv this r] have "set (heap q') = insert (time, t) (set (heap q))"
      by (metis set_mset_add_mset_insert set_mset_mset)
    then show ?thesis using e by (auto simp: r)
  next
    case False
    then show ?thesis using e enqueue_active(2) [OF inv False r] by (simp add: r)
  qed
qed

lemma timers_ok_enqueue:
  assumes ok: "timers_ok objs q" and i: "objs t = Some impl" "might_have_pending_waits impl"
    and room: "length (po q t) + 1 < 2 ^ 64"
  shows "timers_ok objs (snd (enqueue_timer (\<lambda>_. False) (expiry impl) t x q))"
proof (rule timers_okI)
  note inv = timers_okD(1) [OF ok]
  note e = enqueue_timer_ok [OF inv, of "\<lambda>_. False" "expiry impl" t x]
  show "tq_inv (snd (enqueue_timer (\<lambda>_. False) (expiry impl) t x q))" by (rule e(1))
  show "timer_data k = v" if "objs v = Some k" for v k using timers_okD(2) [OF ok that] .
  fix v assume v: "po (snd (enqueue_timer (\<lambda>_. False) (expiry impl) t x q)) v \<noteq> []"
  show "length (po (snd (enqueue_timer (\<lambda>_. False) (expiry impl) t x q)) v) < 2 ^ 64
      \<and> (\<exists>k. objs v = Some k \<and> might_have_pending_waits k
        \<and> (expiry k, v) \<in> set (heap (snd (enqueue_timer (\<lambda>_. False) (expiry impl) t x q))))"
  proof (cases "v = t")
    case True
    have "(expiry impl, t) \<in> set (heap q) \<or> po q t = []" using timers_okD(6) [OF ok i(1)] by auto
    then show ?thesis using True i room e(2) enqueue_timer_entry [OF inv] by auto
  next
    case False
    then have old: "po q v \<noteq> []" using v e(2) by simp
    then obtain k where k: "objs v = Some k" using timers_okD(4) [OF ok] by (metis not_None_eq)
    from timers_okD(6) [OF ok k old] timers_okD(5) [OF ok, of v] k
    show ?thesis using False e(2) enqueue_timer_entry [OF inv] by auto
  qed
qed

lemma timer_q_schedule:
  "timer_q (world (schedule_timer E time t opn s)) =
     (if reactor_shutdown (world s) then timer_q (world s)
      else snd (enqueue_timer (\<lambda>_. False) time t opn (timer_q (world s))))"
  by (simp add: schedule_timer_def case_prod_beta Let_def)

text \<open>Expiry.\<close>

lemma timers_ok_expire:
  assumes ok: "timers_ok objs (timer_q (world s))"
  shows "timers_ok objs (timer_q (world (check_timer_queue E s)))"
proof -
  let ?q = "timer_q (world s)" let ?now = "os_now E (os (world s))"
  note inv = timers_okD(1) [OF ok]
  from get_ready_timers_ok [OF inv, of ?now "[]"] obtain es q' where
    r: "get_ready_timers ?now [] ?q = Some ([] @ concat (map (\<lambda>e. po ?q (snd e)) es), q')"
    "tq_inv q'" "fired ?now (heap ?q) es"
    "mset (heap q') = filter_mset (\<lambda>e. ?now < fst e) (mset (heap ?q))"
    "po q' = (\<lambda>t. if t \<in> snd ` set es then [] else po ?q t)" .
  have es: "set es = {e \<in> set (heap ?q). fst e \<le> ?now}" using r(3) by (auto simp: fired_def simp flip: set_mset_mset)
  have h: "set (heap q') = {e \<in> set (heap ?q). ?now < fst e}" using r(4) by (auto simp flip: set_mset_mset)
  have "timers_ok objs q'"
  proof (rule timers_okI)
    fix v assume v: "po q' v \<noteq> []"
    then have old: "po ?q v \<noteq> []" "v \<notin> snd ` set es" by (auto simp: r(5) split: if_splits)
    then obtain k where k: "objs v = Some k" using timers_okD(4) [OF ok] by (metis not_None_eq)
    note kk = timers_okD(6) [OF ok k old(1)]
    have "\<not> expiry k \<le> ?now" using kk old(2) es by force
    then show "length (po q' v) < 2 ^ 64
        \<and> (\<exists>k. objs v = Some k \<and> might_have_pending_waits k \<and> (expiry k, v) \<in> set (heap q'))"
      using kk k old(2) timers_okD(5) [OF ok, of v] h by (simp add: r(5))
  qed (use r(2) timers_okD(2) [OF ok] in auto)
  then show ?thesis by (simp add: check_timer_queue_def r(1) taken_def Let_def)
qed

lemma timers_ok_run:
  assumes ok: "timers_ok objs (timer_q (world s))"
  shows "timers_ok objs (timer_q (world (reactor_run E usec s)))"
proof -
  obtain events w where w: "os_epoll_wait E (run_timeout E usec (world s)) (os (world s)) = (events, w)" by (meson surj_pair)
  define s1 where "s1 = with_reactor (\<lambda>r. r\<lparr>os := w\<rparr>) s"
  obtain b s2 where f: "fold dispatch_event (take 128 events) (timer_fd (world s1) = - 1, s1) = (b, s2)" by (meson surj_pair)
  from timer_q_dispatch_all [of "take 128 events" "(timer_fd (world s1) = - 1, s1)", unfolded f]
  have "timers_ok objs (timer_q (world s2))" using ok by (simp add: s1_def)
  then show ?thesis using timers_ok_expire [of objs s2 E]
    unfolding reactor_run_def w prod.case Let_def s1_def [symmetric] f by simp
qed

section \<open>Every history keeps them together\<close>

lemma timers_ok_timer_cancel:
  assumes ok: "timers_ok objs (timer_q (world s))" and i: "objs t = Some impl"
    and r: "timer_cancel impl s = (n, impl', ec, s')"
  shows "timers_ok objs (timer_q (world s'))" "po (timer_q (world s')) = (po (timer_q (world s)))(t := [])"
    "n = length (po (timer_q (world s)) t)" "impl' = impl\<lparr>might_have_pending_waits := False\<rparr>" "ec = ec_success"
proof -
  have d: "timer_data impl = t" using timers_okD(2) [OF ok i] .
  have "timers_ok objs (timer_q (world s')) \<and> po (timer_q (world s')) = (po (timer_q (world s)))(t := [])
    \<and> n = length (po (timer_q (world s)) t) \<and> impl' = impl\<lparr>might_have_pending_waits := False\<rparr> \<and> ec = ec_success"
  proof (cases "might_have_pending_waits impl")
    case True
    then show ?thesis
      using r timers_ok_cancel(1) [OF ok, of t "2 ^ 64 - 1"] timers_ok_cancel_all [OF ok, of t]
      by (auto simp: timer_cancel_def d case_prod_beta)
  next
    case False
    then show ?thesis using r ok timers_okD(3) [OF ok i] by (auto simp: timer_cancel_def fun_upd_idem)
  qed
  then show "timers_ok objs (timer_q (world s'))" "po (timer_q (world s')) = (po (timer_q (world s)))(t := [])"
    "n = length (po (timer_q (world s)) t)" "impl' = impl\<lparr>might_have_pending_waits := False\<rparr>" "ec = ec_success"
    by simp_all
qed

lemma timers_ok_expires_at:
  assumes ok: "timers_ok objs (timer_q (world s))" and i: "objs t = Some impl"
    and r: "expires_at impl time s = (n, impl', ec, s')"
  shows "timers_ok (objs(t \<mapsto> impl')) (timer_q (world s'))"
proof -
  obtain m k e s1 where c: "timer_cancel impl s = (m, k, e, s1)" by (metis prod_cases4)
  note h = timers_ok_timer_cancel [OF ok i c]
  have "timer_data impl' = t" "s' = s1" using r c h(4) timers_okD(2) [OF ok i] by (auto simp: expires_at_def)
  then show ?thesis using h(1,2) by (auto intro: timers_ok_idle)
qed

lemma timers_ok_async_wait:
  assumes ok: "timers_ok objs (timer_q (world s))" and i: "objs t = Some impl"
    and room: "length (po (timer_q (world s)) t) + 1 < 2 ^ 64"
    and r: "timer_async_wait E impl opn slot s = (impl', s')"
  shows "timers_ok (objs(t \<mapsto> impl')) (timer_q (world s'))"
proof -
  define s1 where "s1 = (case slot of None \<Rightarrow> s | Some key \<Rightarrow> with_reactor (set_rop_key opn key) s)"
  have s1: "timer_q (world s1) = timer_q (world s)" by (simp add: s1_def set_rop_key_def split: option.split)
  have d: "timer_data impl = t" using timers_okD(2) [OF ok i] .
  have i': "impl' = impl\<lparr>might_have_pending_waits := True\<rparr>" and s': "s' = schedule_timer E (expiry impl) t opn s1"
    using r by (simp_all add: timer_async_wait_def s1_def d)
  have f: "timers_ok (objs(t \<mapsto> impl')) (timer_q (world s))" unfolding i' by (rule timers_ok_set_flag [OF ok i])
  have "timers_ok (objs(t \<mapsto> impl')) (snd (enqueue_timer (\<lambda>_. False) (expiry impl') t opn (timer_q (world s))))"
    by (rule timers_ok_enqueue [OF f _ _ room]) (simp_all add: i')
  then show ?thesis using f by (simp add: s' timer_q_schedule s1 i')
qed

lemma timer_call_keeps:
  assumes ok: "timers_ok objs (timer_q (world s))" and c: "timer_call_ok c (objs, s)"
    and r: "run_timer_call E c (objs, s) = (objs', s')"
  shows "timers_ok objs' (timer_q (world s'))"
proof (cases c)
  case (NewTimer t)
  then show ?thesis using c r timers_ok_idle [OF ok, of t "Some (timer_construct (raw_timer t))"] timers_okD(4) [OF ok, of t]
    by (auto simp: timer_construct_def raw_timer_def)
next
  case (NewTimerFrom t u)
  then obtain k where k: "objs t = None" "objs u = Some k" using c by auto
  then have "t \<noteq> u" "timer_data (raw_timer t) = t" by (auto simp: raw_timer_def)
  from timers_ok_reactor_move [OF ok this k(2) surjective_pairing]
  show ?thesis using r NewTimerFrom k timers_okD(2) [OF ok k(2)]
    by (auto simp: timer_move_construct_def case_prod_beta raw_timer_def)
next
  case (AssignTimer t u)
  then obtain k l where k: "objs t = Some k" "objs u = Some l" "t \<noteq> u" using c by auto
  from timers_ok_reactor_move [OF ok k(3) timers_okD(2) [OF ok k(1)] k(2) surjective_pairing]
  show ?thesis using r AssignTimer k timers_okD(2) [OF ok]
    by (auto simp: timer_move_assign_def case_prod_beta)
next
  case (FreeTimer t)
  then obtain k where k: "objs t = Some k" using c by auto
  obtain n k' e s1 where tc: "timer_cancel k s = (n, k', e, s1)" by (metis prod_cases4)
  note h = timers_ok_timer_cancel [OF ok k tc]
  show ?thesis using r FreeTimer k tc timers_ok_idle [OF h(1), of t None] h(2) by (auto simp: timer_destroy_def)
next
  case (CancelWaits t)
  then obtain k where k: "objs t = Some k" using c by auto
  obtain n k' e s1 where tc: "timer_cancel k s = (n, k', e, s1)" by (metis prod_cases4)
  note h = timers_ok_timer_cancel [OF ok k tc]
  show ?thesis using r CancelWaits k tc timers_ok_idle [OF h(1), of t "Some k'"] h(2,4) timers_okD(2) [OF ok k] by auto
next
  case (CancelOneWait t)
  then obtain k where k: "objs t = Some k" using c by auto
  note d = timers_okD(2) [OF ok k]
  obtain n s1 where tc: "reactor_cancel_timer t 1 s = (n, s1)" by (meson surj_pair)
  note h = timers_ok_cancel [OF ok, of t 1, unfolded tc fst_conv snd_conv]
  have "timers_ok (objs(t \<mapsto> k\<lparr>might_have_pending_waits := False\<rparr>)) (timer_q (world s1))" if "n = 0"
    by (rule timers_ok_idle [OF h(1)]) (use that h(2,3) d in auto)
  moreover have "objs(t \<mapsto> k) = objs" using k by auto
  ultimately show ?thesis using r CancelOneWait k tc h(1) ok by (auto simp: timer_cancel_one_def d split: if_splits)
next
  case (SetExpiry t time)
  then show ?thesis using c r timers_ok_expires_at [OF ok] by (auto split: prod.splits)
next
  case (SetExpiryAfter t dur)
  then show ?thesis using c r timers_ok_expires_at [OF ok] by (auto simp: expires_after_def split: prod.splits)
next
  case (AsyncWait t opn slot)
  then show ?thesis using c r timers_ok_async_wait [OF ok] by (auto split: prod.splits)
next
  case (CancelSlot t key ty)
  then show ?thesis using c r ok timers_ok_cancel_by_key [OF ok] by (auto simp: timer_op_cancellation_def split: if_splits)
qed

lemma timer_reach_ok: "timer_reach E z \<Longrightarrow> timers_ok (fst z) (timer_q (world (snd z)))"
proof (induction rule: timer_reach.induct)
  case (start s ec)
  then show ?case by (simp add: timers_ok_def new_timer_queue_inv new_timer_queue_po)
next
  case (timer z c)
  obtain objs s where z: "z = (objs, s)" by (meson surj_pair)
  then show ?case using timer timer_call_keeps [of objs s c E, OF _ _ surjective_pairing] by simp
qed (simp_all add: timer_q_other_call timers_ok_run timer_q_perform_io)

end
