(* ===== verification/TimerServiceSpec.thy ===== *)
theory TimerServiceSpec
  imports TimerServiceInv EpollClose
begin

text \<open>
  The properties of timer objects: no wait outlives its timer, setting a new expiry time aborts exactly the
  pending waits, timers fire at their expiry times, and the blocking wait.
\<close>

section \<open>A timer that waits\<close>

definition one_wait :: "(nat, unit) timer_sys" where
  "one_wait = fold (run_timer_call idle_os) [NewTimer 3, SetExpiry 3 (- 5), AsyncWait 3 70 None]
     (\<lambda>_. None, new_sched hint_default (new_reactor 4 (\<lambda>_. 0) ()))"

lemma one_wait:
  "timer_reach idle_os (fst one_wait, snd one_wait)" "po (timer_q (world (snd one_wait))) = (\<lambda>_. [])(3 := [70])"
  "fst one_wait = [3 \<mapsto> \<lparr>expiry = - 5, might_have_pending_waits = True, timer_data = 3\<rparr>]"
proof -
  let ?s = "new_sched hint_default (new_reactor 4 (\<lambda>_. 0) ()) :: (nat, unit) rsched"
  let ?k = "\<lambda>b time. \<lparr>expiry = time, might_have_pending_waits = b, timer_data = 3\<rparr>"
  let ?t = "schedule_timer idle_os (- 5) 3 70 ?s"
  have q0: "timer_q (new_reactor 4 (\<lambda>_. 0) ()) = new_timer_queue (\<lambda>_. ec_success)" by (simp add: new_reactor_def)
  then have q: "timer_q (world ?s) = new_timer_queue (\<lambda>_. ec_success)" by simp
  have steps: "run_timer_call idle_os (NewTimer 3) (\<lambda>_. None, ?s) = ([3 \<mapsto> ?k False 0], ?s)"
    "run_timer_call idle_os (SetExpiry 3 (- 5)) ([3 \<mapsto> ?k False 0], ?s) = ([3 \<mapsto> ?k False (- 5)], ?s)"
    "run_timer_call idle_os (AsyncWait 3 70 None) ([3 \<mapsto> ?k False (- 5)], ?s) = ([3 \<mapsto> ?k True (- 5)], ?t)"
    by (simp_all add: timer_construct_def raw_timer_def expires_at_def timer_cancel_def timer_async_wait_def)
  then have w: "one_wait = ([3 \<mapsto> ?k True (- 5)], ?t)" by (simp add: one_wait_def del: run_timer_call.simps)
  have r0: "timer_reach idle_os (\<lambda>_. None, ?s)" by (rule timer_reach.start) (rule q)
  have r1: "timer_reach idle_os ([3 \<mapsto> ?k False 0], ?s)" using timer_reach.timer [OF r0, of "NewTimer 3"] by (simp add: steps del: run_timer_call.simps)
  have r2: "timer_reach idle_os ([3 \<mapsto> ?k False (- 5)], ?s)"
    using timer_reach.timer [OF r1, of "SetExpiry 3 (- 5)"] by (simp add: steps del: run_timer_call.simps)
  show "timer_reach idle_os (fst one_wait, snd one_wait)"
    using timer_reach.timer [OF r2, of "AsyncWait 3 70 None"]
    by (simp add: steps w q0 new_timer_queue_po del: run_timer_call.simps)
  show "po (timer_q (world (snd one_wait))) = (\<lambda>_. [])(3 := [70])"
    using enqueue_timer_ok(2) [OF new_timer_queue_inv]
    by (simp add: w timer_q_schedule q0 new_timer_queue_po) (simp add: new_reactor_def)
  show "fst one_wait = [3 \<mapsto> ?k True (- 5)]" by (simp add: w)
qed

section \<open>Waits and their timers\<close>

text \<open>C10: In every history of calls on timer objects, other calls to the reactor and runs of it, each wait that is
  queued belongs to a timer object that exists and whose flag says that it may have pending waits: destroying
  or moving an object never leaves a wait behind that points to it, and the shortcut of \<open>cancel\<close> never skips
  one. The time a queued timer is in the heap with is its object's expiry time.\<close>

theorem waits_belong_to_live_timers:
  assumes "timer_reach E (objs, s)"
  shows "(\<forall>t. po (timer_q (world s)) t \<noteq> [] \<longrightarrow>
        (\<exists>impl. objs t = Some impl \<and> timer_data impl = t \<and> might_have_pending_waits impl
           \<and> (expiry impl, t) \<in> set (heap (timer_q (world s)))))
    \<and> (\<forall>(time, t) \<in> set (heap (timer_q (world s))). \<exists>impl. objs t = Some impl \<and> expiry impl = time)"
proof -
  let ?q = "timer_q (world s)"
  have ok: "timers_ok objs ?q" using timer_reach_ok [OF assms] by simp
  have "\<exists>impl. objs t = Some impl \<and> timer_data impl = t \<and> might_have_pending_waits impl \<and> (expiry impl, t) \<in> set (heap ?q)"
    if "po ?q t \<noteq> []" for t
    using ok that timers_okD(2) [OF ok] unfolding timers_ok_def by blast
  then show ?thesis using timers_ok_heap [OF ok] by blast
qed

theorem waits_belong_to_live_timers_witness:
  "\<exists>impl. fst one_wait 3 = Some impl \<and> might_have_pending_waits impl"
proof -
  have "po (timer_q (world (snd one_wait))) 3 \<noteq> []" by (simp add: one_wait(2))
  then show ?thesis using waits_belong_to_live_timers [OF one_wait(1)] by blast
qed

text \<open>Setting a timer's expiry time aborts exactly the waits pending on it: all of them go to the scheduler in
  their order with \<open>operation_aborted\<close>, their number is returned, no other timer's waits change and there is no
  error. \<open>cancel\<close> does the same without a new time.\<close>

theorem expires_at_aborts_pending_waits:
  assumes "timer_reach E (objs, s)" and i: "objs t = Some impl"
    and r: "expires_at impl time s = (n, impl', ec, s')"
  shows "let waits = po (timer_q (world s)) t in
    n = length waits \<and> impl' = impl\<lparr>expiry := time, might_have_pending_waits := False\<rparr> \<and> ec = ec_success
    \<and> timer_cancel impl s = (n, impl\<lparr>might_have_pending_waits := False\<rparr>, ec, s')
    \<and> (\<exists>r. s' = post_deferred_completions (map Operation waits) (s\<lparr>world := r\<rparr>)
        \<and> po (timer_q r) = (po (timer_q (world s)))(t := [])
        \<and> (\<forall>x \<in> set waits. op_ec (timer_q r) x = basic_ec operation_aborted))"
proof -
  let ?q = "timer_q (world s)"
  have ok: "timers_ok objs ?q" using timer_reach_ok [OF assms(1)] by simp
  have d: "timer_data impl = t" using timers_okD(2) [OF ok i] .
  obtain m k e s1 where c: "timer_cancel impl s = (m, k, e, s1)" by (metis prod_cases4)
  note h = timers_ok_timer_cancel [OF ok i c]
  have r': "n = m" "impl' = k\<lparr>expiry := time\<rparr>" "ec = ec_success" "s' = s1" using r c by (auto simp: expires_at_def)
  have "\<exists>r. s1 = post_deferred_completions (map Operation (po ?q t)) (s\<lparr>world := r\<rparr>)
        \<and> po (timer_q r) = (po ?q)(t := []) \<and> (\<forall>x \<in> set (po ?q t). op_ec (timer_q r) x = basic_ec operation_aborted)"
  proof (cases "might_have_pending_waits impl")
    case True
    have all: "take (2 ^ 64 - 1) (po ?q t) = po ?q t" "drop (2 ^ 64 - 1) (po ?q t) = []"
      using timers_okD(5) [OF ok, of t] by simp_all
    have s1: "s1 = snd (reactor_cancel_timer t (2 ^ 64 - 1) s)" using c True by (auto simp: timer_cancel_def d case_prod_beta)
    show ?thesis by (rule reactor_cancel_effect [OF timers_okD(1) [OF ok], of t "2 ^ 64 - 1"]) (unfold all s1, auto)
  next
    case False
    then have "po ?q t = []" "s1 = s" using timers_okD(3) [OF ok i] c by (simp_all add: timer_cancel_def)
    then show ?thesis by (intro exI [of _ "world s"]) (simp add: post_deferred_completions_def fun_upd_idem)
  qed
  then show ?thesis unfolding Let_def using c h r' by auto
qed

theorem expires_at_aborts_pending_waits_witness:
  "fst (expires_at (the (fst one_wait 3)) 9 (snd one_wait)) = 1"
proof -
  obtain n impl' ec s' where r: "expires_at (the (fst one_wait 3)) 9 (snd one_wait) = (n, impl', ec, s')"
    by (metis prod_cases4)
  show ?thesis
    using expires_at_aborts_pending_waits [OF one_wait(1) _ r, of 3] r by (simp add: one_wait(2,3) Let_def)
qed

section \<open>Firing\<close>

text \<open>C9: When the reactor looks at its timers, exactly the waits of the timer objects whose expiry time has come go
  to the calling thread's queue, with success: timer by timer in the order of their expiry times, for each timer
  in the order the waits were started. The waits of the other timers stay as they were.\<close>

theorem timers_fire_at_their_expiry:
  assumes "timer_reach E (objs, s)"
  shows "\<exists>ts. distinct ts \<and> sorted (map (\<lambda>t. expiry (the (objs t))) ts)
    \<and> set ts = {t. po (timer_q (world s)) t \<noteq> [] \<and> expiry (the (objs t)) \<le> os_now E (os (world s))}
    \<and> check_timer_queue E s =
        push_private 0 (map (\<lambda>x. Op (Operation x)) (concat (map (po (timer_q (world s))) ts)))
          (s\<lparr>world := world (check_timer_queue E s)\<rparr>)
    \<and> po (timer_q (world (check_timer_queue E s))) = (\<lambda>t. if t \<in> set ts then [] else po (timer_q (world s)) t)
    \<and> (\<forall>t \<in> set ts. \<forall>x \<in> set (po (timer_q (world s)) t).
        op_ec (timer_q (world (check_timer_queue E s))) x = ec_success)"
proof -
  let ?q = "timer_q (world s)" let ?now = "os_now E (os (world s))"
  have ok: "timers_ok objs ?q" using timer_reach_ok [OF assms] by simp
  note inv = timers_okD(1) [OF ok]
  from get_ready_timers_ok [OF inv, of ?now "[]"] obtain es q' where
    r: "get_ready_timers ?now [] ?q = Some ([] @ concat (map (\<lambda>e. po ?q (snd e)) es), q')"
    "fired ?now (heap ?q) es" "po q' = (\<lambda>t. if t \<in> snd ` set es then [] else po ?q t)"
    "op_ec q' = (\<lambda>x. if x \<in> set (concat (map (\<lambda>e. po ?q (snd e)) es)) then ec_success else op_ec ?q x)" .
  define ts where "ts = map snd es"
  have ops: "concat (map (\<lambda>e. po ?q (snd e)) es) = concat (map (po ?q) ts)" by (simp add: ts_def comp_def)
  have es: "set es = {e \<in> set (heap ?q). fst e \<le> ?now}" "sorted (map fst es)"
    using r(2) by (auto simp: fired_def simp flip: set_mset_mset)
  have time: "fst e = expiry (the (objs (snd e)))" "po ?q (snd e) \<noteq> []" if "e \<in> set (heap ?q)" for e
    using timers_ok_heap [OF ok, of "fst e" "snd e"] that by auto
  have "map (\<lambda>t. expiry (the (objs t))) ts = map fst es" using time(1) es(1) by (auto simp: ts_def)
  then have sorted: "sorted (map (\<lambda>t. expiry (the (objs t))) ts)" using es(2) by simp
  have set: "set ts = {t. po ?q t \<noteq> [] \<and> expiry (the (objs t)) \<le> ?now}"
  proof (intro set_eqI iffI)
    fix t assume "t \<in> set ts"
    then obtain e where "e \<in> set (heap ?q)" "fst e \<le> ?now" "t = snd e" using es(1) by (auto simp: ts_def)
    then show "t \<in> {t. po ?q t \<noteq> [] \<and> expiry (the (objs t)) \<le> ?now}" using time by auto
  next
    fix t assume t: "t \<in> {t. po ?q t \<noteq> [] \<and> expiry (the (objs t)) \<le> ?now}"
    then obtain k where k: "objs t = Some k" using timers_okD(4) [OF ok] by (metis (mono_tags) mem_Collect_eq not_None_eq)
    then have "(expiry k, t) \<in> set es" using timers_okD(6) [OF ok k] t es(1) by auto
    then show "t \<in> set ts" by (force simp: ts_def)
  qed
  let ?s = "push_private 0 (map (\<lambda>x. Op (Operation x)) (concat (map (po ?q) ts))) (with_reactor (taken (concat (map (po ?q) ts)) q') s)"
  have c: "check_timer_queue E s = (if timer_fd (world ?s) \<noteq> - 1
      then with_reactor (\<lambda>r. r\<lparr>timerfd_setting := get_timeout_timerfd E r\<rparr>) ?s else ?s)"
    unfolding check_timer_queue_def r(1) ops by simp
  have q: "timer_q (world (check_timer_queue E s)) = q'" by (simp add: c taken_def)
  have p: "check_timer_queue E s = push_private 0 (map (\<lambda>x. Op (Operation x)) (concat (map (po ?q) ts)))
      (s\<lparr>world := world (check_timer_queue E s)\<rparr>)"
    by (simp add: c with_reactor_def push_private_def upd_top_def split: list.split)
  have dist: "distinct ts" using fired_distinct [OF inv r(2)] by (simp add: ts_def)
  have po: "po q' = (\<lambda>t. if t \<in> set ts then [] else po ?q t)" using r(3) by (simp add: ts_def)
  have ec: "\<forall>t \<in> set ts. \<forall>x \<in> set (po ?q t). op_ec q' x = ec_success" using r(4) unfolding ops by auto
  show ?thesis unfolding q by (intro exI [of _ ts] conjI dist sorted set p po ec)
qed

theorem timers_fire_at_their_expiry_witness:
  "po (timer_q (world (check_timer_queue idle_os (snd one_wait)))) 3 = []"
proof -
  from timers_fire_at_their_expiry [OF one_wait(1)] obtain ts where
    ts: "set ts = {t. po (timer_q (world (snd one_wait))) t \<noteq> []
      \<and> expiry (the (fst one_wait t)) \<le> os_now idle_os (os (world (snd one_wait)))}"
    "po (timer_q (world (check_timer_queue idle_os (snd one_wait)))) =
      (\<lambda>t. if t \<in> set ts then [] else po (timer_q (world (snd one_wait))) t)" by blast
  have "3 \<in> set ts" unfolding ts(1) by (simp add: one_wait(2,3) idle_os_def)
  then show ?thesis by (simp add: ts(2))
qed

section \<open>The blocking wait\<close>

lemma total_seconds_eq: "total_seconds ticks = ticks sdiv 1000000000"
  by (simp add: total_seconds_def duration_cast_def Let_def signed_divide_int_def)

lemma timer_wait_loop_returns:
  fixes now :: "'w \<Rightarrow> int"
  assumes sel: "\<And>tv w r errno w'. sel tv w = (r, errno, w') \<Longrightarrow> if r < 0 then errno \<noteq> 0 else now w < now w'"
  shows "\<exists>ec w'. timer_wait_loop sel now impl (now w) ec_success w = Some (ec, w')
    \<and> (failed ec \<or> ec = ec_success \<and> expiry impl \<le> now w')"
proof (induction "nat (expiry impl - now w)" arbitrary: w rule: less_induct)
  case less
  show ?case
  proof (cases "now w < expiry impl")
    case False
    then show ?thesis by (subst timer_wait_loop.simps) (simp add: chrono_less_than_def)
  next
    case True
    obtain ec w1 where d: "do_wait sel (chrono_subtract (expiry impl) (now w)) ec_success w = (ec, w1)" by (meson surj_pair)
    then obtain tv r errno where s: "sel tv w = (r, errno, w1)" "ec = get_last_error (r < 0) errno ec_success"
      by (auto simp: do_wait_def select_call_def split: prod.splits)
    have step: "timer_wait_loop sel now impl (now w) ec_success w = timer_wait_loop sel now impl (now w1) ec w1"
      using True by (subst timer_wait_loop.simps) (simp add: chrono_less_than_def d)
    show ?thesis
    proof (cases "r < 0")
      case True
      then have "failed ec" using sel [OF s(1)] s(2) by (simp add: get_last_error_def failed_def)
      then show ?thesis unfolding step by (subst timer_wait_loop.simps) simp
    next
      case False
      then have "now w < now w1" "ec = ec_success"
        using sel [OF s(1)] s(2) by (simp_all add: get_last_error_def clear_ec_def ec_success_def)
      then show ?thesis unfolding step using less.hyps [of w1] True by simp
    qed
  qed
qed

text \<open>C33: The blocking wait returns as long as the clock moves on with every call of \<open>select\<close>. It succeeds only at
  or after the expiry time, without a system call when that has passed already. It asks the kernel for no more
  than the time that is left, cut to whole microseconds. When \<open>select\<close> fails, for instance because a signal
  interrupts it, it returns that error at once, though the timer has not expired.\<close>

theorem timer_wait_returns:
  fixes now :: "'w \<Rightarrow> int"
  assumes sel: "\<And>tv w r errno w'. sel tv w = (r, errno, w') \<Longrightarrow> if r < 0 then errno \<noteq> 0 else now w < now w'"
    and range: "in_range (now w)" "in_range (expiry impl)"
    and first: "sel (min (expiry impl - now w) time_max div 1000000000, min (expiry impl - now w) time_max div 1000 mod 1000000) w
      = (r, errno, w1)"
  shows "(\<exists>ec w'. timer_wait sel now impl w = Some (ec, w') \<and> (failed ec \<or> ec = ec_success \<and> expiry impl \<le> now w'))
    \<and> (timer_wait sel now impl w =
        (if expiry impl \<le> now w then Some (ec_success, w)
         else if r < 0 then Some (EC errno SystemCat, w1)
         else timer_wait sel now impl w1))"
proof
  show "\<exists>ec w'. timer_wait sel now impl w = Some (ec, w') \<and> (failed ec \<or> ec = ec_success \<and> expiry impl \<le> now w')"
    unfolding timer_wait_def by (rule timer_wait_loop_returns [OF sel]) simp_all
  show "timer_wait sel now impl w =
        (if expiry impl \<le> now w then Some (ec_success, w)
         else if r < 0 then Some (EC errno SystemCat, w1)
         else timer_wait sel now impl w1)"
  proof (cases "expiry impl \<le> now w")
    case True
    then show ?thesis by (simp add: timer_wait_def timer_wait_loop.simps chrono_less_than_def)
  next
    case False
    let ?d = "chrono_subtract (expiry impl) (now w)"
    have d: "?d = min (expiry impl - now w) time_max" "0 < ?d"
      using chrono_subtract_clamp [OF range(2,1)] False by (auto simp: clamp_def time_min_def time_max_def min_def max_def)
    have u: "0 \<le> ?d div 1000" using d(2) by (simp add: pos_imp_zdiv_nonneg_iff)
    have tv: "(total_seconds ?d, total_microseconds ?d smod 1000000) = (?d div 1000000000, ?d div 1000 mod 1000000)"
      using usec_split [OF u] d(2) by (simp add: total_seconds_eq total_microseconds_eq sdiv_pos)
    have "do_wait sel ?d ec_success w = (get_last_error (r < 0) errno ec_success, w1)"
      unfolding do_wait_def tv unfolding d(1) select_call_def first by simp
    then have step: "timer_wait sel now impl w = timer_wait_loop sel now impl (now w1) (get_last_error (r < 0) errno ec_success) w1"
      using False unfolding timer_wait_def by (subst timer_wait_loop.simps) (simp add: chrono_less_than_def)
    show ?thesis
    proof (cases "r < 0")
      case True
      then have "errno \<noteq> 0" using sel [OF first] by simp
      then show ?thesis unfolding step using True False by (subst timer_wait_loop.simps) (simp add: get_last_error_def failed_def)
    next
      case r: False
      then have "get_last_error (r < 0) errno ec_success = ec_success" by (simp add: get_last_error_def clear_ec_def ec_success_def)
      then show ?thesis unfolding step using r False by (simp add: timer_wait_def)
    qed
  qed
qed

text \<open>A kernel whose third call of \<open>select\<close> is interrupted; its world is the clock.\<close>

theorem timer_wait_returns_witness:
  "timer_wait (\<lambda>(sec, usec) w. if w < 2000 then (0, 0, w + 1000) else (- 1, 4, w)) (\<lambda>w :: int. w)
     \<lparr>expiry = 5000, might_have_pending_waits = False, timer_data = 0\<rparr> 2500 = Some (EC 4 SystemCat, 2500)"
proof -
  let ?sel = "\<lambda>(sec, usec) w. if w < 2000 then (0, 0, w + 1000) else (- 1, 4, w) :: int \<times> int \<times> int"
  let ?k = "\<lparr>expiry = 5000, might_have_pending_waits = False, timer_data = 0\<rparr>"
  have sel: "if r < 0 then errno \<noteq> 0 else w < w'" if "?sel tv w = (r, errno, w')" for tv w r errno w'
    using that by (cases tv) (auto split: if_splits)
  show ?thesis
    using timer_wait_returns [where sel = ?sel and now = "\<lambda>w :: int. w" and w = 2500 and impl = ?k and r = "- 1" and errno = 4 and ?w1.0 = 2500, OF sel]
    by (simp add: in_range_def time_min_def time_max_def)
qed

end
