(* ===== verification/Resolver.thy ===== *)
theory Resolver
  imports SocketService IpAddress
begin

text \<open>
  Name resolution: the wrappers of \<open>getaddrinfo\<close> and \<open>getnameinfo\<close> in \<^verbatim>\<open>detail/impl/socket_ops.ipp\<close>, queries and
  results with their iterator (\<^verbatim>\<open>ip/basic_resolver_{query,entry,results,iterator}.hpp\<close>), the blocking functions of
  \<^verbatim>\<open>detail/resolver_service.hpp\<close>, and the asynchronous operations, which a background thread with a scheduler of
  its own performs (\<^verbatim>\<open>detail/impl/resolver_service_base.ipp\<close>, \<^verbatim>\<open>detail/resolve_{query,endpoint}_op.hpp\<close>).

  The system is \<open>name_env\<close>; a call gives its result, \<open>errno\<close> and what it found. A list of \<open>addrinfo\<close> is the chain
  of \<open>ai_next\<close>, empty for the null pointer; \<open>ai_addr\<close> is the socket address of the family \<open>ai_family\<close> it points to.
  The vector of results has an address, since iterators compare it.
\<close>

section \<open>System calls and their errors\<close>

record ai_hints =
  hint_flags :: "32 word"
  hint_family :: int
  hint_socktype :: int
  hint_protocol :: int

record addrinfo =
  ai_family :: int
  ai_addr :: endpoint
  ai_canonname :: "string option"

record 'w name_env =
  sys_getaddrinfo :: "string option \<Rightarrow> string option \<Rightarrow> ai_hints \<Rightarrow> 'w \<Rightarrow> int \<times> int \<times> addrinfo list \<times> 'w"
  sys_getnameinfo :: "endpoint \<Rightarrow> 32 word \<Rightarrow> 'w \<Rightarrow> int \<times> int \<times> string \<times> string \<times> 'w"

definition AF_UNSPEC :: int where "AF_UNSPEC = 0"
definition AF_INET :: int where "AF_INET = 2"
definition AF_INET6 :: int where "AF_INET6 = 10"

text \<open>The error numbers of Linux.\<close>

definition EAI_BADFLAGS :: int where "EAI_BADFLAGS = - 1"
definition EAI_NONAME :: int where "EAI_NONAME = - 2"
definition EAI_AGAIN :: int where "EAI_AGAIN = - 3"
definition EAI_FAIL :: int where "EAI_FAIL = - 4"
definition EAI_NODATA :: int where "EAI_NODATA = - 5"
definition EAI_FAMILY :: int where "EAI_FAMILY = - 6"
definition EAI_SOCKTYPE :: int where "EAI_SOCKTYPE = - 7"
definition EAI_SERVICE :: int where "EAI_SERVICE = - 8"
definition EAI_ADDRFAMILY :: int where "EAI_ADDRFAMILY = - 9"
definition EAI_MEMORY :: int where "EAI_MEMORY = - 10"

lemmas eai_defs = EAI_BADFLAGS_def EAI_NONAME_def EAI_AGAIN_def EAI_FAIL_def EAI_NODATA_def EAI_FAMILY_def
  EAI_SOCKTYPE_def EAI_SERVICE_def EAI_ADDRFAMILY_def EAI_MEMORY_def

definition translate_addrinfo_error :: "int \<Rightarrow> int \<Rightarrow> error_code" where
  "translate_addrinfo_error error errno =
     (if error = 0 then ec_success
      else if error = EAI_AGAIN then netdb_ec host_not_found_try_again
      else if error = EAI_BADFLAGS then basic_ec invalid_argument
      else if error = EAI_FAIL then netdb_ec no_recovery
      else if error = EAI_FAMILY then basic_ec address_family_not_supported
      else if error = EAI_MEMORY then basic_ec no_memory
      else if error = EAI_NONAME \<or> error = EAI_ADDRFAMILY \<or> error = EAI_NODATA then netdb_ec host_not_found
      else if error = EAI_SERVICE then addrinfo_ec service_not_found
      else if error = EAI_SOCKTYPE then addrinfo_ec socket_type_not_supported
      else EC errno SystemCat)"

text \<open>An empty string is passed as a null pointer. \<open>errno\<close> is cleared before, so it is 0 unless the call sets it; a
  call that fails leaves the null pointer it gets as its result.\<close>

definition no_empty :: "string \<Rightarrow> string option" where
  "no_empty s = (if s = [] then None else Some s)"

definition getaddrinfo ::
  "'w name_env \<Rightarrow> string \<Rightarrow> string \<Rightarrow> ai_hints \<Rightarrow> 'w \<Rightarrow> error_code \<times> addrinfo list \<times> 'w" where
  "getaddrinfo N host service hints w =
     (let (error, errno, ai, w) = sys_getaddrinfo N (no_empty host) (no_empty service) hints w
      in (translate_addrinfo_error error errno, if error = 0 then ai else [], w))"

definition background_getaddrinfo ::
  "'w name_env \<Rightarrow> bool \<Rightarrow> string \<Rightarrow> string \<Rightarrow> ai_hints \<Rightarrow> 'w \<Rightarrow> error_code \<times> addrinfo list \<times> 'w" where
  "background_getaddrinfo N expired host service hints w =
     (if expired then (basic_ec operation_aborted, [], w) else getaddrinfo N host service hints w)"

text \<open>The two names are what the call leaves in the buffers.\<close>

definition getnameinfo :: "'w name_env \<Rightarrow> endpoint \<Rightarrow> 32 word \<Rightarrow> 'w \<Rightarrow> error_code \<times> string \<times> string \<times> 'w" where
  "getnameinfo N addr flags w =
     (let (error, errno, host, serv, w) = sys_getnameinfo N addr flags w
      in (translate_addrinfo_error error errno, host, serv, w))"

definition NI_NUMERICSERV :: "32 word" where "NI_NUMERICSERV = 2"
definition NI_DGRAM :: "32 word" where "NI_DGRAM = 16"

definition sync_getnameinfo :: "'w name_env \<Rightarrow> endpoint \<Rightarrow> int \<Rightarrow> 'w \<Rightarrow> error_code \<times> string \<times> string \<times> 'w" where
  "sync_getnameinfo N addr sock_type w =
     (let flags = (if sock_type = SOCK_DGRAM then NI_DGRAM else 0);
          (ec, host, serv, w) = getnameinfo N addr flags w
      in if failed ec then getnameinfo N addr (flags OR NI_NUMERICSERV) w else (ec, host, serv, w))"

text \<open>The caller's buffers start with empty strings.\<close>

definition background_getnameinfo ::
  "'w name_env \<Rightarrow> bool \<Rightarrow> endpoint \<Rightarrow> int \<Rightarrow> 'w \<Rightarrow> error_code \<times> string \<times> string \<times> 'w" where
  "background_getnameinfo N expired addr sock_type w =
     (if expired then (basic_ec operation_aborted, [], [], w)
      else let flags = (if sock_type = SOCK_DGRAM then NI_DGRAM else 0);
               (ec, host, serv, w) = getnameinfo N addr flags w
           in if failed ec then getnameinfo N addr (flags OR NI_NUMERICSERV) w else (ec, host, serv, w))"

section \<open>Queries\<close>

record protocol =
  p_family :: int
  p_type :: int
  p_protocol :: int

record resolver_query =
  q_hints :: ai_hints
  q_host_name :: string
  q_service_name :: string

text \<open>For any protocol of the type and number that a default endpoint has, and for a given protocol.\<close>

definition query_any :: "protocol \<Rightarrow> string \<Rightarrow> string \<Rightarrow> 32 word \<Rightarrow> resolver_query" where
  "query_any default_protocol host service resolve_flags =
     \<lparr>q_hints = \<lparr>hint_flags = resolve_flags, hint_family = AF_UNSPEC,
        hint_socktype = p_type default_protocol, hint_protocol = p_protocol default_protocol\<rparr>,
      q_host_name = host, q_service_name = service\<rparr>"

definition query_for :: "protocol \<Rightarrow> string \<Rightarrow> string \<Rightarrow> 32 word \<Rightarrow> resolver_query" where
  "query_for protocol host service resolve_flags =
     \<lparr>q_hints = \<lparr>hint_flags = resolve_flags, hint_family = p_family protocol,
        hint_socktype = p_type protocol, hint_protocol = p_protocol protocol\<rparr>,
      q_host_name = host, q_service_name = service\<rparr>"

definition tcp_v4 :: protocol where
  "tcp_v4 = \<lparr>p_family = AF_INET, p_type = SOCK_STREAM, p_protocol = 6\<rparr>"

section \<open>Results\<close>

record resolver_entry =
  re_endpoint :: endpoint
  re_host_name :: string
  re_service_name :: string

text \<open>A result is an iterator: a shared vector, or none, and a position.\<close>

record resolver_results =
  rr_values :: "(nat \<times> resolver_entry list) option"
  rr_index :: nat

definition no_results :: resolver_results where
  "no_results = \<lparr>rr_values = None, rr_index = 0\<rparr>"

fun collect_entries :: "string \<Rightarrow> string \<Rightarrow> addrinfo list \<Rightarrow> resolver_entry list" where
  "collect_entries actual_host_name service_name [] = []"
| "collect_entries actual_host_name service_name (ai # rest) =
     (if ai_family ai = AF_INET \<or> ai_family ai = AF_INET6
      then \<lparr>re_endpoint = ai_addr ai, re_host_name = actual_host_name, re_service_name = service_name\<rparr>
             # collect_entries actual_host_name service_name rest
      else collect_entries actual_host_name service_name rest)"

text \<open>\<open>a\<close> is the address of the new vector.\<close>

definition results_of_addrinfo :: "nat \<Rightarrow> addrinfo list \<Rightarrow> string \<Rightarrow> string \<Rightarrow> resolver_results" where
  "results_of_addrinfo a address_info host_name service_name =
     (case address_info of
        [] \<Rightarrow> no_results
      | ai # _ \<Rightarrow>
          let actual_host_name = (case ai_canonname ai of Some name \<Rightarrow> name | None \<Rightarrow> host_name)
          in \<lparr>rr_values = Some (a, collect_entries actual_host_name service_name address_info), rr_index = 0\<rparr>)"

definition results_of_endpoint :: "nat \<Rightarrow> endpoint \<Rightarrow> string \<Rightarrow> string \<Rightarrow> resolver_results" where
  "results_of_endpoint a ep host_name service_name =
     \<lparr>rr_values = Some (a, [\<lparr>re_endpoint = ep, re_host_name = host_name, re_service_name = service_name\<rparr>]), rr_index = 0\<rparr>"

definition results_of_range :: "nat \<Rightarrow> endpoint list \<Rightarrow> string \<Rightarrow> string \<Rightarrow> resolver_results" where
  "results_of_range a eps host_name service_name =
     (if eps \<noteq> [] then
        \<lparr>rr_values = Some (a, map (\<lambda>ep. \<lparr>re_endpoint = ep, re_host_name = host_name, re_service_name = service_name\<rparr>) eps),
         rr_index = 0\<rparr>
      else no_results)"

definition results_size :: "resolver_results \<Rightarrow> nat" where
  "results_size r = (case rr_values r of None \<Rightarrow> 0 | Some (a, vs) \<Rightarrow> length vs)"

definition results_empty :: "resolver_results \<Rightarrow> bool" where
  "results_empty r = (case rr_values r of None \<Rightarrow> True | Some (a, vs) \<Rightarrow> vs = [])"

definition results_begin :: "resolver_results \<Rightarrow> resolver_results" where
  "results_begin r = r\<lparr>rr_index := 0\<rparr>"

definition results_end :: "resolver_results \<Rightarrow> resolver_results" where
  "results_end r = no_results"

definition iter_equal :: "resolver_results \<Rightarrow> resolver_results \<Rightarrow> bool" where
  "iter_equal i j =
     (if rr_values i = None \<and> rr_values j = None then True
      else if map_option fst (rr_values i) \<noteq> map_option fst (rr_values j) then False
      else rr_index i = rr_index j)"

definition iter_increment :: "resolver_results \<Rightarrow> resolver_results" where
  "iter_increment i =
     (if rr_index i + 1 = results_size i then \<lparr>rr_values = None, rr_index = 0\<rparr>
      else i\<lparr>rr_index := rr_index i + 1\<rparr>)"

text \<open>\<open>None\<close>: an access outside the vector, which is undefined.\<close>

definition iter_dereference :: "resolver_results \<Rightarrow> resolver_entry option" where
  "iter_dereference i =
     (case rr_values i of
        Some (a, vs) \<Rightarrow> if rr_index i < length vs then Some (vs ! rr_index i) else None
      | None \<Rightarrow> None)"

text \<open>A loop from \<open>begin\<close> to \<open>end\<close> that looks at every entry.\<close>

partial_function (option) visit_results :: "resolver_results \<Rightarrow> resolver_results \<Rightarrow> resolver_entry list option" where
  "visit_results i e =
     (if iter_equal i e then Some []
      else Option.bind (iter_dereference i)
             (\<lambda>x. Option.bind (visit_results (iter_increment i) e) (\<lambda>xs. Some (x # xs))))"

section \<open>Blocking resolution\<close>

definition service_resolve ::
  "'w name_env \<Rightarrow> nat \<Rightarrow> resolver_query \<Rightarrow> 'w \<Rightarrow> error_code \<times> resolver_results \<times> 'w" where
  "service_resolve N a qry w =
     (let (ec, ai, w) = getaddrinfo N (q_host_name qry) (q_service_name qry) (q_hints qry) w
      in (ec, if failed ec then no_results else results_of_addrinfo a ai (q_host_name qry) (q_service_name qry), w))"

definition service_resolve_endpoint ::
  "'w name_env \<Rightarrow> nat \<Rightarrow> endpoint \<Rightarrow> int \<Rightarrow> 'w \<Rightarrow> error_code \<times> resolver_results \<times> 'w" where
  "service_resolve_endpoint N a ep sock_type w =
     (let (ec, host_name, service_name, w) = sync_getnameinfo N ep sock_type w
      in (ec, if failed ec then no_results else results_of_endpoint a ep host_name service_name, w))"

text \<open>\<open>tcp::resolver::resolve(host, service)\<close>, which throws the error (\<open>Inl\<close>).\<close>

definition resolver_resolve ::
  "'w name_env \<Rightarrow> nat \<Rightarrow> string \<Rightarrow> string \<Rightarrow> 'w \<Rightarrow> (error_code + resolver_results) \<times> 'w" where
  "resolver_resolve N a host service w =
     (let (ec, results, w) = service_resolve N a (query_any tcp_v4 host service 0) w
      in (if failed ec then Inl ec else Inr results, w))"

section \<open>Asynchronous resolution\<close>

text \<open>What \<open>resolve_query_op\<close> and \<open>resolve_endpoint_op\<close> are made with, and what they keep. A cancellation token
  is the number of the control block of a shared pointer; \<open>None\<close> is an empty pointer.\<close>

datatype resolve_what = ResolveQuery resolver_query | ResolveEndpoint endpoint int

record resolve_op =
  ro_cancel_token :: "nat option"
  ro_what :: resolve_what
  ro_ec :: error_code
  ro_addrinfo :: "addrinfo list"
  ro_results :: resolver_results

text \<open>The service: the program's scheduler (\<open>scheduler_\<close>), the private one and whether its thread runs, the
  operations by number, the resolver objects (each a shared pointer) and the next control block. \<open>delivered\<close>
  lists the calls of handlers.\<close>

record 'w resolver_service =
  main_scheduler :: "(nat, unit) sched"
  main_hint :: "32 word"
  work_scheduler :: "(nat, unit) sched option"
  work_thread :: bool
  resolve_ops :: "nat \<Rightarrow> resolve_op"
  resolvers :: "nat option list"
  next_token :: nat
  delivered :: "(nat \<times> error_code \<times> resolver_results) list"
  name_world :: 'w

definition new_resolver_service :: "32 word \<Rightarrow> (nat, unit) sched \<Rightarrow> (nat \<Rightarrow> resolve_op) \<Rightarrow> 'w \<Rightarrow> 'w resolver_service" where
  "new_resolver_service hint s ops w =
     \<lparr>main_scheduler = s, main_hint = hint, work_scheduler = Some (work_started (new_sched hint_default ())), work_thread = False,
      resolve_ops = ops, resolvers = [], next_token = 0, delivered = [], name_world = w\<rparr>"

text \<open>The private scheduler, stopped and its thread joined, is deleted with the operations left in it.\<close>

definition resolver_base_shutdown :: "'w resolver_service \<Rightarrow> 'w resolver_service" where
  "resolver_base_shutdown z =
     (if work_scheduler z \<noteq> None then z\<lparr>work_scheduler := None, work_thread := False\<rparr> else z)"

datatype fork_event = ForkPrepare | ForkParent | ForkChild

definition resolver_notify_fork :: "fork_event \<Rightarrow> 'w resolver_service \<Rightarrow> 'w resolver_service" where
  "resolver_notify_fork fork_ev z =
     (if work_thread z then
        if fork_ev = ForkPrepare
        then z\<lparr>work_scheduler := map_option stop (work_scheduler z), work_thread := False\<rparr> else z
      else if fork_ev \<noteq> ForkPrepare then z\<lparr>work_scheduler := map_option restart (work_scheduler z)\<rparr> else z)"

text \<open>Resolver objects, by position.\<close>

definition resolver_construct :: "'w resolver_service \<Rightarrow> 'w resolver_service" where
  "resolver_construct z = z\<lparr>resolvers := resolvers z @ [Some (next_token z)], next_token := next_token z + 1\<rparr>"

definition resolver_destroy :: "nat \<Rightarrow> 'w resolver_service \<Rightarrow> 'w resolver_service" where
  "resolver_destroy i z = z\<lparr>resolvers := (resolvers z)[i := None]\<rparr>"

definition resolver_move_construct :: "nat \<Rightarrow> 'w resolver_service \<Rightarrow> 'w resolver_service" where
  "resolver_move_construct j z = z\<lparr>resolvers := (resolvers z)[j := None] @ [resolvers z ! j]\<rparr>"

definition resolver_move_assign :: "nat \<Rightarrow> nat \<Rightarrow> 'w resolver_service \<Rightarrow> 'w resolver_service" where
  "resolver_move_assign i j z =
     (let z = resolver_destroy i z in z\<lparr>resolvers := (resolvers z)[i := resolvers z ! j, j := None]\<rparr>)"

definition resolver_cancel :: "nat \<Rightarrow> 'w resolver_service \<Rightarrow> 'w resolver_service" where
  "resolver_cancel i z = z\<lparr>resolvers := (resolvers z)[i := Some (next_token z)], next_token := next_token z + 1\<rparr>"

text \<open>A token has expired when no resolver object holds it.\<close>

definition token_expired :: "nat option \<Rightarrow> 'w resolver_service \<Rightarrow> bool" where
  "token_expired t z \<longleftrightarrow> t = None \<or> t \<notin> set (resolvers z)"

text \<open>The program's thread starts an operation.\<close>

definition start_work_thread :: "'w resolver_service \<Rightarrow> 'w resolver_service" where
  "start_work_thread z = (if \<not> work_thread z then z\<lparr>work_thread := True\<rparr> else z)"

definition upd_resolve_op :: "nat \<Rightarrow> (resolve_op \<Rightarrow> resolve_op) \<Rightarrow> 'w resolver_service \<Rightarrow> 'w resolver_service" where
  "upd_resolve_op x f z = z\<lparr>resolve_ops := (resolve_ops z)(x := f (resolve_ops z x))\<rparr>"

definition start_resolve_op :: "nat \<Rightarrow> 'w resolver_service \<Rightarrow> 'w resolver_service" where
  "start_resolve_op x z =
     (if hint_is_locking hint_locking_scheduler (main_hint z) then
        let z = start_work_thread z;
            z = z\<lparr>main_scheduler := work_started (main_scheduler z)\<rparr>
        in z\<lparr>work_scheduler := map_option (post_immediate_completion x False) (work_scheduler z)\<rparr>
      else
        let z = upd_resolve_op x (\<lambda>r. r\<lparr>ro_ec := basic_ec operation_not_supported\<rparr>) z
        in z\<lparr>main_scheduler := post_immediate_completion x False (main_scheduler z)\<rparr>)"

text \<open>\<open>x\<close> is the address of the new operation.\<close>

definition async_resolve :: "nat \<Rightarrow> resolve_what \<Rightarrow> nat \<Rightarrow> 'w resolver_service \<Rightarrow> 'w resolver_service" where
  "async_resolve i what x z =
     start_resolve_op x (upd_resolve_op x (\<lambda>_. \<lparr>ro_cancel_token = resolvers z ! i, ro_what = what,
       ro_ec = ec_success, ro_addrinfo = [], ro_results = no_results\<rparr>) z)"

text \<open>\<open>do_complete\<close> when the owner is the private scheduler: the background thread, which is in no run function of
  the program's scheduler, performs the operation and hands it back. The new vector of results has the address \<open>x\<close>.\<close>

definition from_other_thread :: "(('o, 'w) sched \<Rightarrow> ('o, 'w) sched) \<Rightarrow> ('o, 'w) sched \<Rightarrow> ('o, 'w) sched" where
  "from_other_thread f s = (f (s\<lparr>stack := []\<rparr>))\<lparr>stack := stack s\<rparr>"

definition perform_resolve :: "'w name_env \<Rightarrow> bool \<Rightarrow> nat \<Rightarrow> resolve_op \<Rightarrow> 'w \<Rightarrow> resolve_op \<times> 'w" where
  "perform_resolve N expired x r w =
     (case ro_what r of
        ResolveQuery qry \<Rightarrow>
          let (ec, ai, w) = background_getaddrinfo N expired (q_host_name qry) (q_service_name qry) (q_hints qry) w
          in (r\<lparr>ro_ec := ec, ro_addrinfo := ai\<rparr>, w)
      | ResolveEndpoint ep sock_type \<Rightarrow>
          let (ec, host_name, service_name, w) = background_getnameinfo N expired ep sock_type w
          in (r\<lparr>ro_ec := ec, ro_results := results_of_endpoint x ep host_name service_name\<rparr>, w))"

definition background_complete :: "'w name_env \<Rightarrow> nat \<Rightarrow> 'w resolver_service \<Rightarrow> 'w resolver_service" where
  "background_complete N x z =
     (let r = resolve_ops z x;
          (r, w) = perform_resolve N (token_expired (ro_cancel_token r) z) x r (name_world z);
          z = upd_resolve_op x (\<lambda>_. r) (z\<lparr>name_world := w\<rparr>)
      in z\<lparr>main_scheduler := from_other_thread (post_deferred_completion x) (main_scheduler z)\<rparr>)"

text \<open>\<open>do_complete\<close> when the owner is the program's scheduler: the handler is called.\<close>

definition handler_results :: "nat \<Rightarrow> resolve_op \<Rightarrow> resolver_results" where
  "handler_results x r =
     (case ro_what r of
        ResolveQuery qry \<Rightarrow>
          if ro_addrinfo r \<noteq> [] then results_of_addrinfo x (ro_addrinfo r) (q_host_name qry) (q_service_name qry)
          else no_results
      | ResolveEndpoint ep sock_type \<Rightarrow> ro_results r)"

definition main_complete :: "nat \<Rightarrow> 'w resolver_service \<Rightarrow> 'w resolver_service" where
  "main_complete x z =
     (let r = resolve_ops z x
      in z\<lparr>delivered := delivered z @ [(x, ro_ec r, handler_results x r)]\<rparr>)"

end
