(* ===== verification/ResolverSpec.thy ===== *)
theory ResolverSpec
  imports Resolver SchedulerInv
begin

text \<open>
  The properties of name resolution: what the results of a query are and how they are visited, and that every
  asynchronous operation is delivered once, with its answer or as aborted.
\<close>

section \<open>Results\<close>

definition inet :: "addrinfo \<Rightarrow> bool" where
  "inet ai \<longleftrightarrow> ai_family ai = AF_INET \<or> ai_family ai = AF_INET6"

lemma collect_entries_eq:
  "collect_entries h sv ais = map (\<lambda>ai. \<lparr>re_endpoint = ai_addr ai, re_host_name = h, re_service_name = sv\<rparr>) (filter inet ais)"
  by (induction ais) (simp_all add: inet_def)

lemma visit_from:
  assumes "i < length vs"
  shows "visit_results \<lparr>rr_values = Some (a, vs), rr_index = i\<rparr> no_results = Some (drop i vs)"
  using assms
proof (induction "length vs - i" arbitrary: i)
  case (Suc k)
  note unfold = visit_results.simps [of "\<lparr>rr_values = Some (a, vs), rr_index = i\<rparr>"]
  have d: "drop i vs = vs ! i # drop (Suc i) vs" using Suc.prems by (simp add: Cons_nth_drop_Suc)
  show ?case
  proof (cases "i + 1 = length vs")
    case True
    have "visit_results \<lparr>rr_values = None, rr_index = 0\<rparr> no_results = Some []"
      by (subst visit_results.simps) (simp add: iter_equal_def no_results_def)
    then show ?thesis using True Suc.prems d
      by (subst unfold) (simp add: iter_equal_def no_results_def iter_dereference_def iter_increment_def results_size_def)
  next
    case False
    then have "visit_results \<lparr>rr_values = Some (a, vs), rr_index = Suc i\<rparr> no_results = Some (drop (Suc i) vs)"
      using Suc.hyps(1) [of "Suc i"] Suc.hyps(2) Suc.prems by simp
    then show ?thesis using False Suc.prems d
      by (subst unfold) (simp add: iter_equal_def no_results_def iter_dereference_def iter_increment_def results_size_def)
  qed
qed simp

lemma visit_all:
  "visit_results (results_begin r) (results_end r) =
     (case rr_values r of None \<Rightarrow> Some [] | Some (a, vs) \<Rightarrow> if vs = [] then None else Some vs)"
proof (cases "rr_values r")
  case None
  then show ?thesis
    by (subst visit_results.simps) (simp add: results_begin_def results_end_def iter_equal_def no_results_def)
next
  case (Some av)
  obtain a vs where av: "av = (a, vs)" by (meson surj_pair)
  have b: "results_begin r = \<lparr>rr_values = Some (a, vs), rr_index = 0\<rparr>"
    using Some by (cases r) (simp add: results_begin_def av)
  show ?thesis
  proof (cases "vs = []")
    case True
    then show ?thesis using Some unfolding b results_end_def
      by (subst visit_results.simps) (simp add: av iter_equal_def no_results_def iter_dereference_def)
  next
    case False
    then show ?thesis using Some visit_from [of 0 vs a] unfolding b results_end_def by (simp add: av)
  qed
qed

text \<open>C34: Resolving a name. A failed call gives the translated error and no results. Otherwise a loop from \<open>begin\<close>
  to \<open>end\<close> visits exactly the IPv4 and IPv6 addresses of the answer, in its order, each with the canonical name if
  there is one. Two answers break the promise that a successful resolution has results: an error that sets no
  \<open>errno\<close> and is not in the table counts as success, without results; and for an answer without any IPv4 or IPv6
  address \<open>empty\<close> holds but \<open>begin\<close> differs from \<open>end\<close>, so the loop reads outside the vector.\<close>

theorem resolving_lists_the_addresses:
  assumes c: "sys_getaddrinfo N (no_empty (q_host_name qry)) (no_empty (q_service_name qry)) (q_hints qry) w = (error, errno, ais, w')"
    and r: "service_resolve N a qry w = (ec, results, w'')"
  shows "ec = translate_addrinfo_error error errno \<and> w'' = w'
    \<and> (if failed ec \<or> error \<noteq> 0 \<or> ais = [] then
         results_empty results \<and> results_size results = 0 \<and> visit_results (results_begin results) (results_end results) = Some []
       else let name = (case ai_canonname (hd ais) of Some n \<Rightarrow> n | None \<Rightarrow> q_host_name qry);
                entries = map (\<lambda>ai. \<lparr>re_endpoint = ai_addr ai, re_host_name = name, re_service_name = q_service_name qry\<rparr>) (filter inet ais)
            in results_size results = length entries \<and> (results_empty results \<longleftrightarrow> entries = [])
               \<and> visit_results (results_begin results) (results_end results) = (if entries = [] then None else Some entries))
    \<and> (\<not> failed ec \<longleftrightarrow> error = 0 \<or> errno = 0 \<and> error \<notin> {EAI_AGAIN, EAI_BADFLAGS, EAI_FAIL, EAI_FAMILY, EAI_MEMORY,
         EAI_NONAME, EAI_ADDRFAMILY, EAI_NODATA, EAI_SERVICE, EAI_SOCKTYPE})"
proof -
  have ec: "ec = translate_addrinfo_error error errno" "w'' = w'"
    and res: "results = (if failed ec then no_results
      else results_of_addrinfo a (if error = 0 then ais else []) (q_host_name qry) (q_service_name qry))"
    using r by (auto simp: service_resolve_def getaddrinfo_def c)
  have "\<not> failed ec \<longleftrightarrow> error = 0 \<or> errno = 0 \<and> error \<notin> {EAI_AGAIN, EAI_BADFLAGS, EAI_FAIL, EAI_FAMILY, EAI_MEMORY,
         EAI_NONAME, EAI_ADDRFAMILY, EAI_NODATA, EAI_SERVICE, EAI_SOCKTYPE}"
    unfolding ec(1) translate_addrinfo_error_def
    by (auto simp: failed_def ec_success_def netdb_ec_def basic_ec_def addrinfo_ec_def)
  moreover have "results_empty results \<and> results_size results = 0
      \<and> visit_results (results_begin results) (results_end results) = Some []"
    if "failed ec \<or> error \<noteq> 0 \<or> ais = []"
    using that res unfolding visit_all by (auto simp: results_of_addrinfo_def no_results_def results_empty_def results_size_def)
  moreover have "results_size results = length entries \<and> (results_empty results \<longleftrightarrow> entries = [])
      \<and> visit_results (results_begin results) (results_end results) = (if entries = [] then None else Some entries)"
    if "\<not> (failed ec \<or> error \<noteq> 0 \<or> ais = [])" "name = (case ai_canonname (hd ais) of Some n \<Rightarrow> n | None \<Rightarrow> q_host_name qry)"
      "entries = map (\<lambda>ai. \<lparr>re_endpoint = ai_addr ai, re_host_name = name, re_service_name = q_service_name qry\<rparr>) (filter inet ais)"
    for name entries
  proof -
    have "rr_values results = Some (a, entries)"
      using that res by (cases ais) (simp_all add: results_of_addrinfo_def collect_entries_eq split del: if_split)
    then show ?thesis unfolding visit_all by (simp add: results_empty_def results_size_def)
  qed
  ultimately show ?thesis using ec by (simp add: Let_def)
qed

text \<open>A system whose only answer is an address of another family.\<close>

definition other_family :: "unit name_env" where
  "other_family = \<lparr>sys_getaddrinfo = (\<lambda>_ _ _ w. (0, 0, [\<lparr>ai_family = 1, ai_addr = endpoint_default, ai_canonname = None\<rparr>], w)),
     sys_getnameinfo = (\<lambda>_ _ w. (0, 0, [], [], w))\<rparr>"

theorem resolving_lists_the_addresses_witness:
  "case service_resolve other_family 0 (query_any tcp_v4 ''host'' ''80'' 0) () of
     (ec, results, w) \<Rightarrow> \<not> failed ec \<and> results_empty results \<and> visit_results (results_begin results) (results_end results) = None"
proof -
  let ?q = "query_any tcp_v4 ''host'' ''80'' 0"
  obtain ec results w where r: "service_resolve other_family 0 ?q () = (ec, results, w)" by (metis prod_cases3)
  have c: "sys_getaddrinfo other_family (no_empty (q_host_name ?q)) (no_empty (q_service_name ?q)) (q_hints ?q) () =
      (0, 0, [\<lparr>ai_family = 1, ai_addr = endpoint_default, ai_canonname = None\<rparr>], ())" by (simp add: other_family_def)
  have ok: "\<not> failed ec" using resolving_lists_the_addresses [OF c r] by blast
  show ?thesis using resolving_lists_the_addresses [OF c r] ok
    unfolding r by (simp add: inet_def AF_INET_def AF_INET6_def Let_def)
qed

section \<open>Asynchronous operations\<close>

text \<open>The entries in the hands of a scheduler, and taking one of them to run it, in any order.\<close>

definition queued :: "('o, 'w) sched \<Rightarrow> 'o entry list" where
  "queued s = sched_queue s @ concat (map private_op_queue (stack s))"

definition work_queued :: "'w resolver_service \<Rightarrow> nat entry list" where
  "work_queued z = (case work_scheduler z of None \<Rightarrow> [] | Some s \<Rightarrow> queued s)"

definition takes :: "('o, 'w) sched \<Rightarrow> 'o \<Rightarrow> ('o, 'w) sched \<Rightarrow> bool" where
  "takes s x s' \<longleftrightarrow> mset (queued s) = add_mset (Op x) (mset (queued s'))"

text \<open>\<open>resolver_reach N S z\<close>: a history of the service in which the operations \<open>S\<close> were started. The background
  thread takes operations from its scheduler while it runs; the schedulers rearrange their queues, and the
  system's world changes, at any time.\<close>

inductive resolver_reach :: "'w name_env \<Rightarrow> nat set \<Rightarrow> 'w resolver_service \<Rightarrow> bool" for N where
  start: "queued s = [] \<Longrightarrow> resolver_reach N {} (new_resolver_service hint s ops w)"
| construct: "resolver_reach N S z \<Longrightarrow> resolver_reach N S (resolver_construct z)"
| destroy: "resolver_reach N S z \<Longrightarrow> resolver_reach N S (resolver_destroy i z)"
| move_construct: "resolver_reach N S z \<Longrightarrow> j < length (resolvers z) \<Longrightarrow> resolver_reach N S (resolver_move_construct j z)"
| move_assign: "resolver_reach N S z \<Longrightarrow> j < length (resolvers z) \<Longrightarrow> i \<noteq> j \<Longrightarrow> resolver_reach N S (resolver_move_assign i j z)"
| cancel: "resolver_reach N S z \<Longrightarrow> resolver_reach N S (resolver_cancel i z)"
| fork: "resolver_reach N S z \<Longrightarrow> resolver_reach N S (resolver_notify_fork e z)"
| resolve: "resolver_reach N S z \<Longrightarrow> work_scheduler z \<noteq> None \<Longrightarrow> i < length (resolvers z) \<Longrightarrow> x \<notin> S
    \<Longrightarrow> resolver_reach N (insert x S) (async_resolve i what x z)"
| background: "resolver_reach N S z \<Longrightarrow> work_thread z \<Longrightarrow> work_scheduler z = Some s \<Longrightarrow> takes s x s'
    \<Longrightarrow> resolver_reach N S (background_complete N x (z\<lparr>work_scheduler := Some s'\<rparr>))"
| deliver: "resolver_reach N S z \<Longrightarrow> takes (main_scheduler z) x s'
    \<Longrightarrow> resolver_reach N S (main_complete x (z\<lparr>main_scheduler := s'\<rparr>))"
| other: "resolver_reach N S z \<Longrightarrow> mset (queued s) = mset (queued (main_scheduler z)) \<Longrightarrow> work_scheduler z = Some u
    \<Longrightarrow> mset (queued u') = mset (queued u)
    \<Longrightarrow> resolver_reach N S (z\<lparr>main_scheduler := s, work_scheduler := Some u', name_world := w\<rparr>)"

text \<open>What a resolution of \<open>what\<close> gives in the world \<open>w\<close>.\<close>

definition resolve_answer :: "'w name_env \<Rightarrow> nat \<Rightarrow> resolve_what \<Rightarrow> 'w \<Rightarrow> error_code \<times> resolver_results" where
  "resolve_answer N x what w =
     (case what of
        ResolveQuery qry \<Rightarrow>
          let (ec, ai, w) = getaddrinfo N (q_host_name qry) (q_service_name qry) (q_hints qry) w
          in (ec, results_of_addrinfo x ai (q_host_name qry) (q_service_name qry))
      | ResolveEndpoint ep sock_type \<Rightarrow>
          let (ec, host_name, service_name, w) = sync_getnameinfo N ep sock_type w
          in (ec, results_of_endpoint x ep host_name service_name))"

definition settled :: "'w name_env \<Rightarrow> 'w resolver_service \<Rightarrow> nat \<Rightarrow> error_code \<Rightarrow> resolver_results \<Rightarrow> bool" where
  "settled N z x ec res \<longleftrightarrow>
     (if hint_is_locking hint_locking_scheduler (main_hint z) then
        ec = basic_ec operation_aborted \<and> token_expired (ro_cancel_token (resolve_ops z x)) z
        \<or> (\<exists>w. (ec, res) = resolve_answer N x (ro_what (resolve_ops z x)) w)
      else ec = basic_ec operation_not_supported \<and> res = no_results)"

lemma results_of_no_addrinfo [simp]: "results_of_addrinfo a [] h sv = no_results"
  by (simp add: results_of_addrinfo_def)

lemma perform_resolve_settles:
  assumes "perform_resolve N expired x r w = (r', w')"
  shows "ro_cancel_token r' = ro_cancel_token r" "ro_what r' = ro_what r"
    "(expired \<and> ro_ec r' = basic_ec operation_aborted) \<or> (ro_ec r', handler_results x r') = resolve_answer N x (ro_what r) w"
  using assms
  by (auto simp: perform_resolve_def background_getaddrinfo_def background_getnameinfo_def resolve_answer_def
      handler_results_def sync_getnameinfo_def Let_def split: resolve_what.splits prod.splits if_splits)

lemma queued_posts [simp]:
  "mset (queued (post_immediate_completion x c s)) = add_mset (Op x) (mset (queued s))"
  "mset (queued (from_other_thread (post_deferred_completion x) s)) = add_mset (Op x) (mset (queued s))"
  "queued (work_started s) = queued s" "queued (stop s) = queued s" "queued (restart s) = queued s"
proof -
  have p: "mset (queued (push_private n [Op x] s)) = add_mset (Op x) (mset (queued s))" if "stack s \<noteq> []" for n
    using that by (cases "stack s") (simp_all add: push_private_def upd_top_def queued_def)
  show "mset (queued (post_immediate_completion x c s)) = add_mset (Op x) (mset (queued s))"
    using p [of 1] by (simp add: post_immediate_completion_def can_dispatch_def) (simp add: queued_def push_op_def work_started_def)
  show "mset (queued (from_other_thread (post_deferred_completion x) s)) = add_mset (Op x) (mset (queued s))"
    by (simp add: from_other_thread_def post_deferred_completion_def can_dispatch_def queued_def push_op_def)
qed (simp_all add: queued_def work_started_def)

text \<open>The invariant: each started operation is in one place, and what waits for its handler is settled.\<close>

definition resolver_inv :: "'w name_env \<Rightarrow> nat set \<Rightarrow> 'w resolver_service \<Rightarrow> bool" where
  "resolver_inv N S z \<longleftrightarrow>
     (\<forall>x. count (mset (work_queued z)) (Op x) + count (mset (queued (main_scheduler z))) (Op x)
        + count (mset (map fst (delivered z))) x = (if x \<in> S then 1 else 0))
     \<and> (\<forall>t. Some t \<in> set (resolvers z) \<longrightarrow> t < next_token z)
     \<and> (\<forall>x t. x \<in> S \<longrightarrow> ro_cancel_token (resolve_ops z x) = Some t \<longrightarrow> t < next_token z)
     \<and> (\<forall>x. Op x \<in> set (queued (main_scheduler z)) \<longrightarrow>
          settled N z x (ro_ec (resolve_ops z x)) (handler_results x (resolve_ops z x)))
     \<and> (\<forall>x ec res. (x, ec, res) \<in> set (delivered z) \<longrightarrow> settled N z x ec res)
     \<and> (\<forall>x. Op x \<in> set (work_queued z) \<longrightarrow> hint_is_locking hint_locking_scheduler (main_hint z))"

lemma resolver_invD:
  assumes "resolver_inv N S z"
  shows "count (mset (work_queued z)) (Op x) + count (mset (queued (main_scheduler z))) (Op x)
        + count (mset (map fst (delivered z))) x = (if x \<in> S then 1 else 0)"
    "Some t \<in> set (resolvers z) \<Longrightarrow> t < next_token z"
    "x \<in> S \<Longrightarrow> ro_cancel_token (resolve_ops z x) = Some t \<Longrightarrow> t < next_token z"
    "Op x \<in> set (queued (main_scheduler z)) \<Longrightarrow>
       settled N z x (ro_ec (resolve_ops z x)) (handler_results x (resolve_ops z x))"
    "(x, ec, res) \<in> set (delivered z) \<Longrightarrow> settled N z x ec res"
    "Op x \<in> set (work_queued z) \<Longrightarrow> hint_is_locking hint_locking_scheduler (main_hint z)"
  using assms unfolding resolver_inv_def by blast+

lemma in_one_place:
  assumes "resolver_inv N S z"
  shows "Op x \<in> set (work_queued z) \<Longrightarrow> x \<in> S" "Op x \<in> set (queued (main_scheduler z)) \<Longrightarrow> x \<in> S"
    "(x, ec, res) \<in> set (delivered z) \<Longrightarrow> x \<in> S"
proof -
  note c = resolver_invD(1) [OF assms, of x]
  have pos: "e \<in> set es \<Longrightarrow> 0 < count (mset es) e" for e :: 'b and es by simp
  show "Op x \<in> set (work_queued z) \<Longrightarrow> x \<in> S" "Op x \<in> set (queued (main_scheduler z)) \<Longrightarrow> x \<in> S"
    using c pos [of "Op x"] by (fastforce split: if_splits)+
  assume "(x, ec, res) \<in> set (delivered z)"
  then have "x \<in> set (map fst (delivered z))" by (metis fst_conv image_eqI set_map)
  then have "0 < count (mset (map fst (delivered z))) x" by (metis count_greater_zero_iff set_mset_mset)
  then show "x \<in> S" using c by (metis add_is_0 less_numeral_extra(3))
qed

text \<open>Tokens that have expired stay so: new ones have new numbers.\<close>

definition later :: "'w resolver_service \<Rightarrow> 'w resolver_service \<Rightarrow> bool" where
  "later z z' \<longleftrightarrow> main_hint z' = main_hint z \<and> next_token z \<le> next_token z'
     \<and> (\<forall>t. Some t \<in> set (resolvers z') \<longrightarrow> t < next_token z' \<and> (t < next_token z \<longrightarrow> Some t \<in> set (resolvers z)))"

lemma settled_later:
  assumes "settled N z x ec res" "later z z'" "\<And>t. ro_cancel_token (resolve_ops z x) = Some t \<Longrightarrow> t < next_token z"
    and "ro_cancel_token (resolve_ops z' x) = ro_cancel_token (resolve_ops z x)" "ro_what (resolve_ops z' x) = ro_what (resolve_ops z x)"
  shows "settled N z' x ec res"
  using assms unfolding settled_def later_def token_expired_def by (auto split: if_splits)

lemma resolver_inv_frame:
  assumes inv: "resolver_inv N S z" and l: "later z z'" and ops: "resolve_ops z' = resolve_ops z"
    and q: "mset (work_queued z') = mset (work_queued z)" "mset (queued (main_scheduler z')) = mset (queued (main_scheduler z))"
    and d: "delivered z' = delivered z"
  shows "resolver_inv N S z'"
proof -
  have s: "settled N z' x ec res" if "x \<in> S" "settled N z x ec res" for x ec res
    by (rule settled_later [OF that(2) l]) (use resolver_invD(3) [OF inv that(1)] ops in auto)
  have sq: "set (queued (main_scheduler z')) = set (queued (main_scheduler z))" using q(2) by (metis set_mset_mset)
  show ?thesis unfolding resolver_inv_def q d ops sq
  proof (intro conjI allI impI)
    fix t assume "Some t \<in> set (resolvers z')"
    then show "t < next_token z'" using l by (auto simp: later_def)
  next
    fix x t assume "x \<in> S" "ro_cancel_token (resolve_ops z x) = Some t"
    then have "t < next_token z" by (rule resolver_invD(3) [OF inv])
    then show "t < next_token z'" using l by (auto simp: later_def)
  next
    fix x assume "Op x \<in> set (queued (main_scheduler z))"
    then show "settled N z' x (ro_ec (resolve_ops z x)) (handler_results x (resolve_ops z x))"
      using s in_one_place(2) [OF inv] resolver_invD(4) [OF inv] by blast
  next
    fix x ec res assume "(x, ec, res) \<in> set (delivered z)"
    then show "settled N z' x ec res" using s in_one_place(3) [OF inv] resolver_invD(5) [OF inv] by blast
  next
    fix x assume "Op x \<in> set (work_queued z')"
    then have "Op x \<in> set (work_queued z)" using q(1) by (metis set_mset_mset)
    then show "hint_is_locking hint_locking_scheduler (main_hint z')"
      using resolver_invD(6) [OF inv] l by (simp add: later_def)
  qed (rule resolver_invD(1) [OF inv])
qed

lemma in_update: "y \<in> set (xs[i := v]) \<Longrightarrow> y = v \<or> y \<in> set xs"
  using set_update_subset_insert by fastforce

lemma objects_later:
  assumes inv: "resolver_inv N S z"
  shows "later z (resolver_construct z)" "later z (resolver_destroy i z)"
    "j < length (resolvers z) \<Longrightarrow> later z (resolver_move_construct j z)"
    "j < length (resolvers z) \<Longrightarrow> later z (resolver_move_assign i j z)"
    "later z (resolver_cancel i z)" "later z (resolver_notify_fork e z)"
proof -
  note b = resolver_invD(2) [OF inv]
  show "later z (resolver_construct z)" using b by (auto simp: later_def resolver_construct_def intro: less_SucI)
  show "later z (resolver_destroy i z)"
    using b by (auto simp: later_def resolver_destroy_def dest!: in_update)
  show "later z (resolver_move_construct j z)" if j: "j < length (resolvers z)"
  proof -
    have "Some t \<in> set (resolvers z)" if "Some t \<in> set (resolvers (resolver_move_construct j z))" for t
    proof -
      from that have "Some t \<in> set ((resolvers z)[j := None]) \<or> Some t = resolvers z ! j"
        by (auto simp: resolver_move_construct_def)
      then show ?thesis using j by (metis in_update nth_mem option.distinct(1))
    qed
    then show ?thesis using b by (auto simp: later_def resolver_move_construct_def)
  qed
  show "later z (resolver_move_assign i j z)" if j: "j < length (resolvers z)"
  proof -
    have "Some t \<in> set (resolvers z)" if "Some t \<in> set (resolvers (resolver_move_assign i j z))" for t
    proof -
      from that have "Some t \<in> set ((resolvers z)[i := None, i := (resolvers z)[i := None] ! j, j := None])"
        by (simp add: resolver_move_assign_def resolver_destroy_def Let_def)
      then consider "Some t = (resolvers z)[i := None] ! j" | "Some t \<in> set (resolvers z)"
        by (metis in_update option.distinct(1))
      then show ?thesis
      proof cases
        case 1
        then have "Some t = resolvers z ! j" using j by (cases "i = j") simp_all
        then show ?thesis using j by simp
      qed
    qed
    then show ?thesis using b by (auto simp: later_def resolver_move_assign_def resolver_destroy_def Let_def)
  qed
  show "later z (resolver_cancel i z)"
    using b by (auto simp: later_def resolver_cancel_def dest!: in_update intro: less_SucI)
  show "later z (resolver_notify_fork e z)" using b by (auto simp: later_def resolver_notify_fork_def)
qed

lemma object_calls_keep:
  assumes "later z z'" and "z' \<in> {resolver_construct z, resolver_destroy i z, resolver_move_construct j z,
      resolver_move_assign i j z, resolver_cancel i z, resolver_notify_fork e z}" and "resolver_inv N S z"
  shows "resolver_inv N S z'"
proof (rule resolver_inv_frame [OF assms(3,1)])
  show "resolve_ops z' = resolve_ops z" "mset (queued (main_scheduler z')) = mset (queued (main_scheduler z))"
    "delivered z' = delivered z"
    using assms(2) by (auto simp: resolver_construct_def resolver_destroy_def resolver_move_construct_def
        resolver_move_assign_def resolver_cancel_def resolver_notify_fork_def Let_def)
  show "mset (work_queued z') = mset (work_queued z)"
    using assms(2) by (cases "work_scheduler z") (auto simp: resolver_construct_def resolver_destroy_def
        resolver_move_construct_def resolver_move_assign_def resolver_cancel_def resolver_notify_fork_def Let_def work_queued_def)
qed

lemma takes_counts:
  assumes "takes s x s'"
  shows "count (mset (queued s)) (Op y) = count (mset (queued s')) (Op y) + (if y = x then 1 else 0)"
    "set (queued s') \<subseteq> set (queued s)" "Op x \<in> set (queued s)"
proof -
  have m: "mset (queued s) = add_mset (Op x) (mset (queued s'))" using assms by (simp add: takes_def)
  then have "set (queued s) = insert (Op x) (set (queued s'))" by (metis set_mset_add_mset_insert set_mset_mset)
  then show "count (mset (queued s)) (Op y) = count (mset (queued s')) (Op y) + (if y = x then 1 else 0)"
    "set (queued s') \<subseteq> set (queued s)" "Op x \<in> set (queued s)" using m by auto
qed

lemma background_keeps:
  assumes inv: "resolver_inv N S z" and u: "work_scheduler z = Some u" and tk: "takes u x u'"
  shows "resolver_inv N S (background_complete N x (z\<lparr>work_scheduler := Some u'\<rparr>))"
proof -
  let ?z = "background_complete N x (z\<lparr>work_scheduler := Some u'\<rparr>)" let ?op = "resolve_ops z x"
  obtain r w where p: "perform_resolve N (token_expired (ro_cancel_token ?op) z) x ?op (name_world z) = (r, w)"
    by (meson surj_pair)
  have te: "token_expired t (z\<lparr>work_scheduler := Some u'\<rparr>) = token_expired t z" for t by (simp add: token_expired_def)
  have z': "resolve_ops ?z = (resolve_ops z)(x := r)" "resolvers ?z = resolvers z" "next_token ?z = next_token z"
    "main_hint ?z = main_hint z" "delivered ?z = delivered z" "work_scheduler ?z = Some u'"
    "mset (queued (main_scheduler ?z)) = add_mset (Op x) (mset (queued (main_scheduler z)))"
    by (simp_all add: background_complete_def te p upd_resolve_op_def)
  note k = perform_resolve_settles [OF p]
  have wq: "work_queued z = queued u" "work_queued ?z = queued u'" using u z'(6) by (simp_all add: work_queued_def)
  have x: "x \<in> S" using in_one_place(1) [OF inv] takes_counts(3) [OF tk] wq by simp
  have out: "Op x \<notin> set (queued (main_scheduler z))" "(x, ec, res) \<notin> set (delivered z)" for ec res
  proof -
    have c: "count (mset (queued (main_scheduler z))) (Op x) + count (mset (map fst (delivered z))) x = 0"
      using resolver_invD(1) [OF inv, of x] takes_counts(1) [OF tk, of x] wq x by simp
    then show "Op x \<notin> set (queued (main_scheduler z))" by (metis add_is_0 count_eq_zero_iff set_mset_mset)
    have "x \<notin> set (map fst (delivered z))" using c by (metis add_is_0 count_eq_zero_iff set_mset_mset)
    then show "(x, ec, res) \<notin> set (delivered z)" by (metis fst_conv image_eqI set_map)
  qed
  have l: "later z ?z" using resolver_invD(2) [OF inv] by (simp add: later_def z')
  have same: "ro_cancel_token (resolve_ops ?z y) = ro_cancel_token (resolve_ops z y)"
    "ro_what (resolve_ops ?z y) = ro_what (resolve_ops z y)" for y using k by (simp_all add: z'(1))
  have s: "settled N ?z y ec res" if "settled N z y ec res" "y \<in> S" for y ec res
    by (rule settled_later [OF that(1) l _ same]) (rule resolver_invD(3) [OF inv that(2)])
  show ?thesis unfolding resolver_inv_def
  proof (intro conjI allI impI)
    fix y
    show "count (mset (work_queued ?z)) (Op y) + count (mset (queued (main_scheduler ?z))) (Op y)
        + count (mset (map fst (delivered ?z))) y = (if y \<in> S then 1 else 0)"
      using resolver_invD(1) [OF inv, of y] takes_counts(1) [OF tk, of y] by (simp add: z' wq split: if_splits)
  next
    fix y assume "Op y \<in> set (queued (main_scheduler ?z))"
    then have y: "y = x \<or> Op y \<in> set (queued (main_scheduler z))"
      using z'(7) by (metis entry.inject insertE set_mset_add_mset_insert set_mset_mset)
    show "settled N ?z y (ro_ec (resolve_ops ?z y)) (handler_results y (resolve_ops ?z y))"
    proof (cases "y = x")
      case True
      have "hint_is_locking hint_locking_scheduler (main_hint z)"
        using resolver_invD(6) [OF inv] takes_counts(3) [OF tk] wq by simp
      then show ?thesis using k by (auto simp: settled_def z'(1,4) True token_expired_def z'(2))
    next
      case False
      then show ?thesis using y s resolver_invD(4) [OF inv] in_one_place(2) [OF inv] by (auto simp: z'(1))
    qed
  next
    fix y assume "Op y \<in> set (work_queued ?z)"
    then show "hint_is_locking hint_locking_scheduler (main_hint ?z)"
      using resolver_invD(6) [OF inv] takes_counts(2) [OF tk] by (auto simp: wq z'(4))
  qed (use resolver_invD(2,3) [OF inv] resolver_invD(5) [OF inv] in_one_place(3) [OF inv] s k in \<open>auto simp: z' split: if_splits\<close>)
qed

lemma absent_somewhere:
  assumes inv: "resolver_inv N S z" and x: "x \<notin> S"
  shows "Op x \<notin> set (work_queued z)" "Op x \<notin> set (queued (main_scheduler z))" "(x, ec, res) \<notin> set (delivered z)"
  using in_one_place [OF inv] x by blast+

lemma resolve_keeps:
  assumes inv: "resolver_inv N S z" and u: "work_scheduler z = Some u" and i: "i < length (resolvers z)" and x: "x \<notin> S"
  shows "resolver_inv N (insert x S) (async_resolve i what x z)"
proof -
  let ?z = "async_resolve i what x z" let ?lock = "hint_is_locking hint_locking_scheduler (main_hint z)"
  let ?r = "\<lparr>ro_cancel_token = resolvers z ! i, ro_what = what, ro_ec = (if ?lock then ec_success else basic_ec operation_not_supported),
       ro_addrinfo = [], ro_results = no_results\<rparr>"
  have z': "resolve_ops ?z = (resolve_ops z)(x := ?r)" "resolvers ?z = resolvers z" "next_token ?z = next_token z"
    "main_hint ?z = main_hint z" "delivered ?z = delivered z"
    "mset (work_queued ?z) = (if ?lock then {#Op x#} else {#}) + mset (work_queued z)"
    "mset (queued (main_scheduler ?z)) = (if ?lock then {#} else {#Op x#}) + mset (queued (main_scheduler z))"
    using u by (simp_all add: async_resolve_def start_resolve_op_def start_work_thread_def upd_resolve_op_def Let_def work_queued_def)
  have q: "set (work_queued ?z) \<subseteq> insert (Op x) (set (work_queued z))" "\<not> ?lock \<Longrightarrow> set (work_queued ?z) = set (work_queued z)"
    "set (queued (main_scheduler ?z)) = (if ?lock then {} else {Op x}) \<union> set (queued (main_scheduler z))"
    using arg_cong [OF z'(6), of set_mset] arg_cong [OF z'(7), of set_mset] by (auto split: if_splits)
  have l: "later z ?z" using resolver_invD(2) [OF inv] by (simp add: later_def z')
  note out = absent_somewhere [OF inv x]
  have s: "settled N ?z y ec res" if "settled N z y ec res" "y \<in> S" for y ec res
    by (rule settled_later [OF that(1) l]) (use resolver_invD(3) [OF inv that(2)] that(2) x in \<open>auto simp: z'\<close>)
  show ?thesis unfolding resolver_inv_def
  proof (intro conjI allI impI)
    fix y
    show "count (mset (work_queued ?z)) (Op y) + count (mset (queued (main_scheduler ?z))) (Op y)
        + count (mset (map fst (delivered ?z))) y = (if y \<in> insert x S then 1 else 0)"
      using resolver_invD(1) [OF inv, of y] x unfolding z'(5-7) by (auto split: if_splits)
  next
    fix y t assume "y \<in> insert x S" "ro_cancel_token (resolve_ops ?z y) = Some t"
    then show "t < next_token ?z"
      using resolver_invD(2,3) [OF inv] i by (cases "y = x") (auto simp: z' dest: nth_mem)
  next
    fix y assume y: "Op y \<in> set (queued (main_scheduler ?z))"
    show "settled N ?z y (ro_ec (resolve_ops ?z y)) (handler_results y (resolve_ops ?z y))"
    proof (cases "y = x")
      case True
      then have "\<not> ?lock" using y q(3) out(2) by (auto split: if_splits)
      then show ?thesis by (simp add: True z' settled_def handler_results_def split: resolve_what.split)
    next
      case False
      then have "Op y \<in> set (queued (main_scheduler z))" using y q(3) by (auto split: if_splits)
      then show ?thesis using s resolver_invD(4) [OF inv] in_one_place(2) [OF inv] False by (simp add: z'(1))
    qed
  next
    fix y ec res assume "(y, ec, res) \<in> set (delivered ?z)"
    then show "settled N ?z y ec res" using s resolver_invD(5) [OF inv] in_one_place(3) [OF inv] by (simp add: z'(5))
  next
    fix y assume y: "Op y \<in> set (work_queued ?z)"
    show "hint_is_locking hint_locking_scheduler (main_hint ?z)"
      using y q(2) resolver_invD(6) [OF inv] by (cases ?lock) (auto simp: z'(4))
  qed (use resolver_invD(2) [OF inv] in \<open>simp add: z'\<close>)
qed

lemma deliver_keeps:
  assumes inv: "resolver_inv N S z" and tk: "takes (main_scheduler z) x s'"
  shows "resolver_inv N S (main_complete x (z\<lparr>main_scheduler := s'\<rparr>))"
proof -
  let ?z = "main_complete x (z\<lparr>main_scheduler := s'\<rparr>)"
  have z': "resolve_ops ?z = resolve_ops z" "resolvers ?z = resolvers z" "next_token ?z = next_token z"
    "main_hint ?z = main_hint z" "work_queued ?z = work_queued z" "main_scheduler ?z = s'"
    "delivered ?z = delivered z @ [(x, ro_ec (resolve_ops z x), handler_results x (resolve_ops z x))]"
    by (simp_all add: main_complete_def work_queued_def Let_def)
  have s: "settled N ?z y ec res = settled N z y ec res" for y ec res by (simp add: settled_def token_expired_def z')
  show ?thesis unfolding resolver_inv_def s
  proof (intro conjI allI impI)
    fix y
    show "count (mset (work_queued ?z)) (Op y) + count (mset (queued (main_scheduler ?z))) (Op y)
        + count (mset (map fst (delivered ?z))) y = (if y \<in> S then 1 else 0)"
      using resolver_invD(1) [OF inv, of y] takes_counts(1) [OF tk, of y] by (simp add: z' split: if_splits)
  qed (use resolver_invD(2-6) [OF inv] takes_counts(2,3) [OF tk] in \<open>auto simp: z'\<close>)
qed

lemma resolver_reach_inv: "resolver_reach N S z \<Longrightarrow> resolver_inv N S z"
proof (induction rule: resolver_reach.induct)
  case (start s hint ops w)
  then show ?case
    by (simp add: resolver_inv_def new_resolver_service_def work_queued_def) (simp add: queued_def new_sched_def)
next
  case (resolve S z i x what)
  then show ?case using resolve_keeps by blast
next
  case (background S z s x s')
  then show ?case using background_keeps by blast
next
  case (deliver S z x s')
  then show ?case using deliver_keeps by blast
next
  case (other S z s u u' w)
  show ?case
    by (rule resolver_inv_frame [OF other.IH])
      (use other resolver_invD(2) [OF other.IH] in \<open>auto simp: later_def work_queued_def\<close>)
next
  case (construct S z)
  show ?case by (rule object_calls_keep [OF objects_later(1) [OF construct.IH] _ construct.IH]) blast
next
  case (destroy S z i)
  show ?case by (rule object_calls_keep [OF objects_later(2) [OF destroy.IH] _ destroy.IH]) blast
next
  case (move_construct S z j)
  show ?case by (rule object_calls_keep [OF objects_later(3) [OF move_construct.IH move_construct.hyps(2)] _ move_construct.IH]) blast
next
  case (move_assign S z j i)
  show ?case by (rule object_calls_keep [OF objects_later(4) [OF move_assign.IH move_assign.hyps(2)] _ move_assign.IH]) blast
next
  case (cancel S z i)
  show ?case by (rule object_calls_keep [OF objects_later(5) [OF cancel.IH] _ cancel.IH]) blast
next
  case (fork S z e)
  show ?case by (rule object_calls_keep [OF objects_later(6) [OF fork.IH] _ fork.IH]) blast
qed

text \<open>C11: Every asynchronous resolution that was started is in exactly one place: with the background thread, on its
  way back, or delivered to its handler, once. It is delivered with the answer of the system to its query, or as
  aborted, and then no resolver object holds the token it was started with: the resolver was cancelled, destroyed or
  assigned to. If the scheduler was made without locking, it is
  refused with \<open>operation_not_supported\<close>.\<close>

theorem resolve_op_completes_once:
  assumes "resolver_reach N S z" and "x \<in> S"
  shows "length (filter (\<lambda>e. e = Op x) (work_queued z @ queued (main_scheduler z)))
      + length (filter (\<lambda>d. fst d = x) (delivered z)) = 1
    \<and> (\<forall>(y, ec, res) \<in> set (delivered z). y = x \<longrightarrow>
        (if hint_is_locking hint_locking_scheduler (main_hint z) then
           ec = basic_ec operation_aborted \<and> token_expired (ro_cancel_token (resolve_ops z x)) z
           \<or> (\<exists>w. (ec, res) = resolve_answer N x (ro_what (resolve_ops z x)) w)
         else ec = basic_ec operation_not_supported \<and> res = no_results))"
proof
  note inv = resolver_reach_inv [OF assms(1)]
  have c: "length (filter (\<lambda>e. e = y) xs) = count (mset xs) y" for y :: 'b and xs by (induction xs) auto
  have d: "length (filter (\<lambda>d. fst d = x) ds) = count (mset (map fst ds)) x" for ds :: "(nat \<times> 'c) list"
    by (induction ds) auto
  show "length (filter (\<lambda>e. e = Op x) (work_queued z @ queued (main_scheduler z)))
      + length (filter (\<lambda>d. fst d = x) (delivered z)) = 1"
    using resolver_invD(1) [OF inv, of x] assms(2) by (simp add: c d)
  have "settled N z x ec res" if "(x, ec, res) \<in> set (delivered z)" for ec res
    using resolver_invD(5) [OF inv that] .
  then show "\<forall>(y, ec, res) \<in> set (delivered z). y = x \<longrightarrow>
        (if hint_is_locking hint_locking_scheduler (main_hint z) then
           ec = basic_ec operation_aborted \<and> token_expired (ro_cancel_token (resolve_ops z x)) z
           \<or> (\<exists>w. (ec, res) = resolve_answer N x (ro_what (resolve_ops z x)) w)
         else ec = basic_ec operation_not_supported \<and> res = no_results)"
    unfolding settled_def by blast
qed

text \<open>A resolution that is cancelled before the background thread gets to it.\<close>

definition blank_resolve_op :: resolve_op where
  "blank_resolve_op = \<lparr>ro_cancel_token = None, ro_what = ResolveEndpoint endpoint_default 0, ro_ec = ec_success,
     ro_addrinfo = [], ro_results = no_results\<rparr>"

definition cancelled_resolution :: "unit resolver_service" where
  "cancelled_resolution =
     (let z = new_resolver_service hint_default (new_sched hint_default ()) (\<lambda>_. blank_resolve_op) ();
          z = resolver_cancel 0 (async_resolve 0 (ResolveQuery (query_any tcp_v4 ''host'' ''80'' 0)) 7 (resolver_construct z));
          z = background_complete other_family 7 (z\<lparr>work_scheduler := Some (new_sched hint_default ())\<rparr>)
      in main_complete 7 (z\<lparr>main_scheduler := new_sched hint_default ()\<rparr>))"

theorem resolve_op_completes_once_witness:
  "delivered cancelled_resolution = [(7, basic_ec operation_aborted, no_results)]
   \<and> token_expired (ro_cancel_token (resolve_ops cancelled_resolution 7)) cancelled_resolution
   \<and> work_queued cancelled_resolution = []"
proof -
  let ?s = "new_sched hint_default () :: (nat, unit) sched"
  let ?q = "ResolveQuery (query_any tcp_v4 ''host'' ''80'' 0)"
  let ?z0 = "new_resolver_service hint_default ?s (\<lambda>_. blank_resolve_op) ()"
  let ?z1 = "resolver_construct ?z0"
  let ?z2 = "async_resolve 0 ?q 7 ?z1"
  let ?z3 = "resolver_cancel 0 ?z2"
  let ?z4 = "background_complete other_family 7 (?z3\<lparr>work_scheduler := Some ?s\<rparr>)"
  let ?z5 = "main_complete 7 (?z4\<lparr>main_scheduler := ?s\<rparr>)"
  have q: "queued ?s = []" by (simp add: queued_def new_sched_def)
  have lock: "hint_is_locking hint_locking_scheduler hint_default" by (simp add: hint_defs)
  have z5: "cancelled_resolution = ?z5" by (simp add: cancelled_resolution_def Let_def)
  have r0: "resolver_reach other_family {} ?z0" by (rule resolver_reach.start) (rule q)
  note r1 = resolver_reach.construct [OF r0]
  have z1: "work_scheduler ?z1 = Some (work_started ?s)" "resolvers ?z1 = [Some 0]" "next_token ?z1 = 1"
    "main_hint ?z1 = hint_default" "main_scheduler ?z1 = ?s" "delivered ?z1 = []"
    by (simp_all add: resolver_construct_def new_resolver_service_def)
  have r2: "resolver_reach other_family {7} ?z2"
    using resolver_reach.resolve [OF r1, of 0 7 ?q] by (simp add: z1)
  note r3 = resolver_reach.cancel [OF r2, of 0]
  have z3: "work_scheduler ?z3 = Some (post_immediate_completion 7 False (work_started ?s))" "work_thread ?z3"
    "resolvers ?z3 = [Some 1]" "main_hint ?z3 = hint_default" "main_scheduler ?z3 = work_started ?s" "delivered ?z3 = []"
    "ro_cancel_token (resolve_ops ?z3 7) = Some 0" "ro_what (resolve_ops ?z3 7) = ?q" "ro_addrinfo (resolve_ops ?z3 7) = []"
    by (simp_all add: resolver_cancel_def async_resolve_def start_resolve_op_def start_work_thread_def upd_resolve_op_def
        Let_def z1 lock)
  have "takes (post_immediate_completion 7 False (work_started ?s)) 7 ?s" by (simp add: takes_def q)
  note r4 = resolver_reach.background [OF r3 z3(2,1) this]
  have z4: "main_scheduler ?z4 = from_other_thread (post_deferred_completion 7) (work_started ?s)" "delivered ?z4 = []"
    "resolve_ops ?z4 7 = (resolve_ops ?z3 7)\<lparr>ro_ec := basic_ec operation_aborted, ro_addrinfo := []\<rparr>"
    "resolvers ?z4 = [Some 1]" "work_scheduler ?z4 = Some ?s" "main_hint ?z4 = hint_default"
    by (simp_all add: background_complete_def perform_resolve_def background_getaddrinfo_def token_expired_def z3
        upd_resolve_op_def Let_def)
  have "takes (main_scheduler ?z4) 7 ?s" by (simp add: takes_def z4(1) q)
  note r5 = resolver_reach.deliver [OF r4 this]
  have z5': "delivered ?z5 = [(7, basic_ec operation_aborted, no_results)]" "work_queued ?z5 = []" "resolve_ops ?z5 = resolve_ops ?z4"
    "main_hint ?z5 = hint_default"
    by (simp_all add: main_complete_def Let_def z4 handler_results_def z3 work_queued_def q)
  have "basic_ec operation_aborted \<noteq> fst (resolve_answer other_family 7 ?q w)" for w
    by (simp add: resolve_answer_def getaddrinfo_def other_family_def translate_addrinfo_error_def basic_ec_def ec_success_def)
  then have "(basic_ec operation_aborted, no_results) \<noteq> resolve_answer other_family 7 ?q w" for w by (metis fst_conv)
  then have "token_expired (ro_cancel_token (resolve_ops ?z5 7)) ?z5"
    using resolve_op_completes_once [OF r5, of 7] by (simp add: z5' z4 z3 lock)
  then show ?thesis unfolding z5 using z5' by blast
qed

end
