(* ===== verification/Signals.thy ===== *)
theory Signals
  imports Resolver
begin

text \<open>
  Signal sets, \<^verbatim>\<open>detail/impl/signal_set_service.ipp\<close>. The global \<open>signal_state\<close> counts the registrations of each
  signal, keeps the list of services and the pipe through which the signal handler reaches the reactors.

  Registrations, sets and services are numbered; a number stands for an address, a list of numbers for a chain
  of \<open>next_in_set_\<close>, \<open>next_in_table_\<close> or \<open>next_\<close> pointers (the back pointers of the doubly linked lists serve
  removal alone). \<open>reg_set\<close> is the set whose queue \<open>queue_\<close> points to. A service has a scheduler and the epoll
  reactor in it; operations that wait for a signal complete there. \<open>signal_env\<close> is the system; the content of the
  pipe, at most \<open>pipe_room\<close> numbers, is \<open>signal_pipe\<close>. The mutex is left out: each function holds it throughout.
\<close>

section \<open>State\<close>

definition max_signal_number :: int where "max_signal_number = 65"

record registration =
  reg_signal :: int
  reg_set :: nat
  undelivered :: nat

record 'o signal_set =
  ss_service :: nat
  ss_signals :: "nat list"
  ss_queue :: "'o list"

record ('o, 'w) signal_service =
  sv_scheduler :: "('o, 'w) rsched"
  sv_hint :: "32 word"
  sv_registrations :: "int \<Rightarrow> nat list"
  sv_reactor_data :: "nat option"

record ('o, 'w, 'k) signal_state =
  read_descriptor :: int
  write_descriptor :: int
  fork_prepared :: bool
  service_list :: "nat list"
  registration_count :: "int \<Rightarrow> nat"
  registrations :: "nat \<Rightarrow> registration"
  next_registration :: nat
  signal_sets :: "nat \<Rightarrow> 'o signal_set"
  signal_services :: "nat \<Rightarrow> ('o, 'w) signal_service"
  sop_signal :: "'o \<Rightarrow> int"
  sop_ec :: "'o \<Rightarrow> error_code"
  sop_key :: "'o \<Rightarrow> nat"
  signal_pipe :: "int list"
  pipe_room :: nat
  sig_kernel :: 'k

text \<open>\<open>sigaction\<close> installs asio's handler (\<open>True\<close>) or the default one; the results are the return value and
  \<open>errno\<close>. \<open>pipe\<close> also gives the two descriptors.\<close>

record 'k signal_env =
  sys_sigaction :: "int \<Rightarrow> bool \<Rightarrow> 'k \<Rightarrow> int \<times> int \<times> 'k"
  sys_pipe :: "'k \<Rightarrow> int \<times> int \<times> int \<times> int \<times> 'k"

definition upd_set :: "nat \<Rightarrow> ('o signal_set \<Rightarrow> 'o signal_set) \<Rightarrow> ('o, 'w, 'k) signal_state \<Rightarrow> ('o, 'w, 'k) signal_state" where
  "upd_set s f z = z\<lparr>signal_sets := (signal_sets z)(s := f (signal_sets z s))\<rparr>"

definition upd_reg :: "nat \<Rightarrow> (registration \<Rightarrow> registration) \<Rightarrow> ('o, 'w, 'k) signal_state \<Rightarrow> ('o, 'w, 'k) signal_state" where
  "upd_reg r f z = z\<lparr>registrations := (registrations z)(r := f (registrations z r))\<rparr>"

definition upd_service ::
  "nat \<Rightarrow> (('o, 'w) signal_service \<Rightarrow> ('o, 'w) signal_service) \<Rightarrow> ('o, 'w, 'k) signal_state \<Rightarrow> ('o, 'w, 'k) signal_state" where
  "upd_service v f z = z\<lparr>signal_services := (signal_services z)(v := f (signal_services z v))\<rparr>"

definition on_scheduler ::
  "nat \<Rightarrow> (('o, 'w) rsched \<Rightarrow> ('o, 'w) rsched) \<Rightarrow> ('o, 'w, 'k) signal_state \<Rightarrow> ('o, 'w, 'k) signal_state" where
  "on_scheduler v f = upd_service v (\<lambda>x. x\<lparr>sv_scheduler := f (sv_scheduler x)\<rparr>)"

section \<open>The pipe and the services\<close>

text \<open>The exceptions: \<open>system_error\<close> with a code, or \<open>logic_error\<close>.\<close>

datatype signal_exception = SystemError error_code | LogicError

definition open_descriptors :: "'k signal_env \<Rightarrow> ('o, 'w, 'k) signal_state \<Rightarrow> signal_exception option \<times> ('o, 'w, 'k) signal_state" where
  "open_descriptors G z =
     (let (result, fd0, fd1, errno, k) = sys_pipe G (sig_kernel z);
          z = z\<lparr>sig_kernel := k\<rparr>
      in if result = 0 then (None, z\<lparr>read_descriptor := fd0, write_descriptor := fd1, signal_pipe := []\<rparr>)
         else (Some (SystemError (EC errno SystemCat)), z))"

definition close_descriptors :: "('o, 'w, 'k) signal_state \<Rightarrow> ('o, 'w, 'k) signal_state" where
  "close_descriptors z = z\<lparr>read_descriptor := - 1, write_descriptor := - 1, signal_pipe := []\<rparr>"

text \<open>\<open>pipe_op\<close> is the new \<open>pipe_read_op\<close>.\<close>

definition watch_pipe ::
  "('o, 'w) os_env \<Rightarrow> 'o \<Rightarrow> nat \<Rightarrow> ('o, 'w, 'k) signal_state \<Rightarrow> ('o, 'w, 'k) signal_state" where
  "watch_pipe E pipe_op v z =
     (let (err, data, s) = register_internal_descriptor E ReadOp (read_descriptor z) pipe_op (sv_scheduler (signal_services z v))
      in upd_service v (\<lambda>x. x\<lparr>sv_scheduler := s, sv_reactor_data := data\<rparr>) z)"

definition unwatch_pipe :: "('o, 'w) os_env \<Rightarrow> nat \<Rightarrow> ('o, 'w, 'k) signal_state \<Rightarrow> ('o, 'w, 'k) signal_state" where
  "unwatch_pipe E v z =
     (let x = signal_services z v;
          (data, s) = deregister_internal_descriptor E (read_descriptor z) (sv_reactor_data x) (sv_scheduler x);
          (data, s) = cleanup_descriptor_data data s
      in upd_service v (\<lambda>x. x\<lparr>sv_scheduler := s, sv_reactor_data := data\<rparr>) z)"

definition add_service ::
  "'k signal_env \<Rightarrow> ('o, 'w) os_env \<Rightarrow> 'o \<Rightarrow> nat \<Rightarrow> ('o, 'w, 'k) signal_state
    \<Rightarrow> signal_exception option \<times> ('o, 'w, 'k) signal_state" where
  "add_service G E pipe_op v z =
     (let (exn, z) = (if service_list z = [] then open_descriptors G z else (None, z))
      in if exn \<noteq> None then (exn, z)
         else if service_list z \<noteq> []
              \<and> (\<not> hint_is_locking hint_locking_scheduler (sv_hint (signal_services z v))
                 \<or> \<not> hint_is_locking hint_locking_scheduler (sv_hint (signal_services z (hd (service_list z)))))
         then (Some LogicError, z)
         else (None, watch_pipe E pipe_op v (z\<lparr>service_list := v # service_list z\<rparr>)))"

definition remove_service :: "('o, 'w) os_env \<Rightarrow> nat \<Rightarrow> ('o, 'w, 'k) signal_state \<Rightarrow> ('o, 'w, 'k) signal_state" where
  "remove_service E v z =
     (if v \<in> set (service_list z) then
        let z = unwatch_pipe E v z;
            z = z\<lparr>service_list := remove1 v (service_list z)\<rparr>
        in if service_list z = [] then close_descriptors z else z
      else z)"

definition new_signal_service ::
  "'k signal_env \<Rightarrow> ('o, 'w) os_env \<Rightarrow> 'o \<Rightarrow> nat \<Rightarrow> 32 word \<Rightarrow> ('o, 'w) rsched \<Rightarrow> ('o, 'w, 'k) signal_state
    \<Rightarrow> signal_exception option \<times> ('o, 'w, 'k) signal_state" where
  "new_signal_service G E pipe_op v hint s z =
     add_service G E pipe_op v (upd_service v (\<lambda>_. \<lparr>sv_scheduler = init_task s, sv_hint = hint,
       sv_registrations = (\<lambda>_. []), sv_reactor_data = None\<rparr>) z)"

text \<open>The operations left, for \<open>abandon_operations\<close> to destroy.\<close>

definition queue_of_reg :: "('o, 'w, 'k) signal_state \<Rightarrow> nat \<Rightarrow> 'o list" where
  "queue_of_reg z r = ss_queue (signal_sets z (reg_set (registrations z r)))"

fun collect_queues :: "nat list \<Rightarrow> 'o list \<Rightarrow> ('o, 'w, 'k) signal_state \<Rightarrow> 'o list \<times> ('o, 'w, 'k) signal_state" where
  "collect_queues [] ops z = (ops, z)"
| "collect_queues (r # rs) ops z =
     collect_queues rs (ops @ queue_of_reg z r) (upd_set (reg_set (registrations z r)) (\<lambda>x. x\<lparr>ss_queue := []\<rparr>) z)"

definition signal_shutdown ::
  "('o, 'w) os_env \<Rightarrow> nat \<Rightarrow> ('o, 'w, 'k) signal_state \<Rightarrow> 'o list \<times> ('o, 'w, 'k) signal_state" where
  "signal_shutdown E v z =
     (let z = remove_service E v z
      in fold (\<lambda>i (ops, z). collect_queues (sv_registrations (signal_services z v) i) ops z) [0..max_signal_number - 1] ([], z))"

definition signal_notify_fork ::
  "'k signal_env \<Rightarrow> ('o, 'w) os_env \<Rightarrow> 'o \<Rightarrow> nat \<Rightarrow> fork_event \<Rightarrow> ('o, 'w, 'k) signal_state
    \<Rightarrow> signal_exception option \<times> ('o, 'w, 'k) signal_state" where
  "signal_notify_fork G E pipe_op v fork_ev z =
     (case fork_ev of
        ForkPrepare \<Rightarrow> (None, unwatch_pipe E v (z\<lparr>fork_prepared := True\<rparr>))
      | ForkParent \<Rightarrow>
          if fork_prepared z then (None, watch_pipe E pipe_op v (z\<lparr>fork_prepared := False\<rparr>)) else (None, z)
      | ForkChild \<Rightarrow>
          if fork_prepared z then
            let (exn, z) = open_descriptors G (close_descriptors z)
            in if exn \<noteq> None then (exn, z) else (None, watch_pipe E pipe_op v (z\<lparr>fork_prepared := False\<rparr>))
          else (None, z))"

section \<open>Sets\<close>

text \<open>The loop that finds the place of a signal in a set: the registrations before it, and those from there on.\<close>

fun find_signal :: "(nat \<Rightarrow> int) \<Rightarrow> int \<Rightarrow> nat list \<Rightarrow> nat list \<times> nat list" where
  "find_signal sig n [] = ([], [])"
| "find_signal sig n (r # rs) =
     (if sig r < n then let (before, rest) = find_signal sig n rs in (r # before, rest) else ([], r # rs))"

definition signal_of :: "('o, 'w, 'k) signal_state \<Rightarrow> nat \<Rightarrow> int" where
  "signal_of z r = reg_signal (registrations z r)"

definition signal_construct :: "nat \<Rightarrow> nat \<Rightarrow> ('o, 'w, 'k) signal_state \<Rightarrow> ('o, 'w, 'k) signal_state" where
  "signal_construct v s = upd_set s (\<lambda>_. \<lparr>ss_service = v, ss_signals = [], ss_queue = []\<rparr>)"

definition insert_registration ::
  "nat \<Rightarrow> int \<Rightarrow> nat list \<Rightarrow> nat list \<Rightarrow> ('o, 'w, 'k) signal_state \<Rightarrow> ('o, 'w, 'k) signal_state" where
  "insert_registration s n before rest z =
     (let r = next_registration z;
          v = ss_service (signal_sets z s);
          z = z\<lparr>next_registration := r + 1\<rparr>;
          z = upd_reg r (\<lambda>_. \<lparr>reg_signal = n, reg_set = s, undelivered = 0\<rparr>) z;
          z = upd_set s (\<lambda>x. x\<lparr>ss_signals := before @ r # rest\<rparr>) z;
          z = upd_service v (\<lambda>x. x\<lparr>sv_registrations := (sv_registrations x)(n := r # sv_registrations x n)\<rparr>) z
      in z\<lparr>registration_count := (registration_count z)(n := registration_count z n + 1)\<rparr>)"

definition signal_add ::
  "'k signal_env \<Rightarrow> nat \<Rightarrow> int \<Rightarrow> ('o, 'w, 'k) signal_state \<Rightarrow> error_code \<times> ('o, 'w, 'k) signal_state" where
  "signal_add G s n z =
     (if n < 0 \<or> max_signal_number \<le> n then (basic_ec invalid_argument, z)
      else let (before, rest) = find_signal (signal_of z) n (ss_signals (signal_sets z s))
           in if rest = [] \<or> signal_of z (hd rest) \<noteq> n then
                if registration_count z n = 0 then
                  let (result, errno, k) = sys_sigaction G n True (sig_kernel z);
                      z = z\<lparr>sig_kernel := k\<rparr>
                  in if result = - 1 then (EC errno SystemCat, z)
                     else (ec_success, insert_registration s n before rest z)
                else (ec_success, insert_registration s n before rest z)
              else (ec_success, z))"

text \<open>Taking a registration out of the table of its service.\<close>

definition drop_registration :: "nat \<Rightarrow> nat \<Rightarrow> ('o, 'w, 'k) signal_state \<Rightarrow> ('o, 'w, 'k) signal_state" where
  "drop_registration s r z =
     (let n = signal_of z r;
          v = ss_service (signal_sets z s);
          z = upd_service v (\<lambda>x. x\<lparr>sv_registrations := (sv_registrations x)(n := remove1 r (sv_registrations x n))\<rparr>) z
      in z\<lparr>registration_count := (registration_count z)(n := registration_count z n - 1)\<rparr>)"

text \<open>The default handler comes back with the last registration; \<open>Some\<close> error if that fails.\<close>

definition restore_default ::
  "'k signal_env \<Rightarrow> int \<Rightarrow> ('o, 'w, 'k) signal_state \<Rightarrow> error_code option \<times> ('o, 'w, 'k) signal_state" where
  "restore_default G n z =
     (if registration_count z n = 1 then
        let (result, errno, k) = sys_sigaction G n False (sig_kernel z);
            z = z\<lparr>sig_kernel := k\<rparr>
        in (if result = - 1 then Some (EC errno SystemCat) else None, z)
      else (None, z))"

definition signal_remove ::
  "'k signal_env \<Rightarrow> nat \<Rightarrow> int \<Rightarrow> ('o, 'w, 'k) signal_state \<Rightarrow> error_code \<times> ('o, 'w, 'k) signal_state" where
  "signal_remove G s n z =
     (if n < 0 \<or> max_signal_number \<le> n then (basic_ec invalid_argument, z)
      else let (before, rest) = find_signal (signal_of z) n (ss_signals (signal_sets z s))
           in if rest \<noteq> [] \<and> signal_of z (hd rest) = n then
                let (err, z) = restore_default G n z
                in case err of
                     Some ec \<Rightarrow> (ec, z)
                   | None \<Rightarrow> (ec_success, drop_registration s (hd rest) (upd_set s (\<lambda>x. x\<lparr>ss_signals := before @ tl rest\<rparr>) z))
              else (ec_success, z))"

text \<open>\<open>rs\<close> is \<open>impl.signals_\<close>.\<close>

fun clear_loop ::
  "'k signal_env \<Rightarrow> nat \<Rightarrow> nat list \<Rightarrow> ('o, 'w, 'k) signal_state \<Rightarrow> error_code \<times> ('o, 'w, 'k) signal_state" where
  "clear_loop G s [] z = (ec_success, z)"
| "clear_loop G s (r # rs) z =
     (let (err, z) = restore_default G (signal_of z r) z
      in case err of
           Some ec \<Rightarrow> (ec, z)
         | None \<Rightarrow> clear_loop G s rs (upd_set s (\<lambda>x. x\<lparr>ss_signals := rs\<rparr>) (drop_registration s r z)))"

definition signal_clear ::
  "'k signal_env \<Rightarrow> nat \<Rightarrow> ('o, 'w, 'k) signal_state \<Rightarrow> error_code \<times> ('o, 'w, 'k) signal_state" where
  "signal_clear G s z = clear_loop G s (ss_signals (signal_sets z s)) z"

section \<open>Operations\<close>

text \<open>The loops that empty a queue.\<close>

fun abort_signal_ops :: "'o list \<Rightarrow> 'o list \<Rightarrow> ('o \<Rightarrow> error_code) \<Rightarrow> 'o list \<times> ('o \<Rightarrow> error_code)" where
  "abort_signal_ops [] ops ec = (ops, ec)"
| "abort_signal_ops (x # q) ops ec = abort_signal_ops q (ops @ [x]) (ec(x := basic_ec operation_aborted))"

definition signal_cancel :: "nat \<Rightarrow> ('o, 'w, 'k) signal_state \<Rightarrow> error_code \<times> ('o, 'w, 'k) signal_state" where
  "signal_cancel s z =
     (let (ops, ec) = abort_signal_ops (ss_queue (signal_sets z s)) [] (sop_ec z);
          z = upd_set s (\<lambda>x. x\<lparr>ss_queue := []\<rparr>) (z\<lparr>sop_ec := ec\<rparr>)
      in (ec_success, on_scheduler (ss_service (signal_sets z s)) (post_deferred_completions (map Operation ops)) z))"

definition signal_destroy :: "'k signal_env \<Rightarrow> nat \<Rightarrow> ('o, 'w, 'k) signal_state \<Rightarrow> ('o, 'w, 'k) signal_state" where
  "signal_destroy G s z = snd (signal_cancel s (snd (signal_clear G s z)))"

fun signal_split_by_key ::
  "('o \<Rightarrow> nat) \<Rightarrow> nat \<Rightarrow> 'o list \<Rightarrow> 'o list \<Rightarrow> 'o list \<Rightarrow> ('o \<Rightarrow> error_code) \<Rightarrow> 'o list \<times> 'o list \<times> ('o \<Rightarrow> error_code)" where
  "signal_split_by_key key_of key [] ops other_ops ec = (ops, other_ops, ec)"
| "signal_split_by_key key_of key (x # q) ops other_ops ec =
     (if key_of x = key
      then signal_split_by_key key_of key q (ops @ [x]) other_ops (ec(x := basic_ec operation_aborted))
      else signal_split_by_key key_of key q ops (other_ops @ [x]) ec)"

definition signal_cancel_by_key :: "nat \<Rightarrow> nat \<Rightarrow> ('o, 'w, 'k) signal_state \<Rightarrow> ('o, 'w, 'k) signal_state" where
  "signal_cancel_by_key s key z =
     (let (ops, other_ops, ec) = signal_split_by_key (sop_key z) key (ss_queue (signal_sets z s)) [] [] (sop_ec z);
          z = upd_set s (\<lambda>x. x\<lparr>ss_queue := other_ops\<rparr>) (z\<lparr>sop_ec := ec\<rparr>)
      in on_scheduler (ss_service (signal_sets z s)) (post_deferred_completions (map Operation ops)) z)"

definition signal_op_cancellation :: "nat \<Rightarrow> nat \<Rightarrow> 32 word \<Rightarrow> ('o, 'w, 'k) signal_state \<Rightarrow> ('o, 'w, 'k) signal_state" where
  "signal_op_cancellation s key cancel_type z =
     (if cancel_type AND (1 OR 2 OR 4) \<noteq> 0 then signal_cancel_by_key s key z else z)"

text \<open>Starting to wait: a signal that was not delivered yet, or the queue.\<close>

fun first_undelivered :: "('o, 'w, 'k) signal_state \<Rightarrow> nat list \<Rightarrow> nat option" where
  "first_undelivered z [] = None"
| "first_undelivered z (r # rs) = (if 0 < undelivered (registrations z r) then Some r else first_undelivered z rs)"

definition start_wait_op :: "nat \<Rightarrow> 'o \<Rightarrow> ('o, 'w, 'k) signal_state \<Rightarrow> ('o, 'w, 'k) signal_state" where
  "start_wait_op s x z =
     (let v = ss_service (signal_sets z s);
          z = on_scheduler v work_started z
      in case first_undelivered z (ss_signals (signal_sets z s)) of
           Some r \<Rightarrow>
             let z = upd_reg r (\<lambda>g. g\<lparr>undelivered := undelivered g - 1\<rparr>) z;
                 z = z\<lparr>sop_signal := (sop_signal z)(x := signal_of z r)\<rparr>
             in on_scheduler v (post_deferred_completion (Operation x)) z
         | None \<Rightarrow> upd_set s (\<lambda>g. g\<lparr>ss_queue := ss_queue g @ [x]\<rparr>) z)"

definition signal_async_wait :: "nat \<Rightarrow> 'o \<Rightarrow> nat option \<Rightarrow> ('o, 'w, 'k) signal_state \<Rightarrow> ('o, 'w, 'k) signal_state" where
  "signal_async_wait s x slot z =
     (let z = z\<lparr>sop_ec := (sop_ec z)(x := ec_success), sop_signal := (sop_signal z)(x := 0),
                sop_key := (sop_key z)(x := case slot of Some key \<Rightarrow> key | None \<Rightarrow> 0)\<rparr>
      in start_wait_op s x z)"

section \<open>Delivery\<close>

fun give_signal :: "int \<Rightarrow> 'o list \<Rightarrow> 'o list \<Rightarrow> ('o \<Rightarrow> int) \<Rightarrow> 'o list \<times> ('o \<Rightarrow> int)" where
  "give_signal n [] ops sg = (ops, sg)"
| "give_signal n (x # q) ops sg = give_signal n q (ops @ [x]) (sg(x := n))"

text \<open>The loop over the registrations of one service.\<close>

fun deliver_loop :: "int \<Rightarrow> nat list \<Rightarrow> 'o list \<Rightarrow> ('o, 'w, 'k) signal_state \<Rightarrow> 'o list \<times> ('o, 'w, 'k) signal_state" where
  "deliver_loop n [] ops z = (ops, z)"
| "deliver_loop n (r # rs) ops z =
     (if queue_of_reg z r = [] then deliver_loop n rs ops (upd_reg r (\<lambda>g. g\<lparr>undelivered := undelivered g + 1\<rparr>) z)
      else let (ops, sg) = give_signal n (queue_of_reg z r) ops (sop_signal z)
           in deliver_loop n rs ops (upd_set (reg_set (registrations z r)) (\<lambda>x. x\<lparr>ss_queue := []\<rparr>) (z\<lparr>sop_signal := sg\<rparr>)))"

definition deliver_to_service :: "int \<Rightarrow> nat \<Rightarrow> ('o, 'w, 'k) signal_state \<Rightarrow> ('o, 'w, 'k) signal_state" where
  "deliver_to_service n v z =
     (let (ops, z) = deliver_loop n (sv_registrations (signal_services z v) n) [] z
      in on_scheduler v (post_deferred_completions (map Operation ops)) z)"

definition deliver_signal :: "int \<Rightarrow> ('o, 'w, 'k) signal_state \<Rightarrow> ('o, 'w, 'k) signal_state" where
  "deliver_signal n z = fold (deliver_to_service n) (service_list z) z"

text \<open>The signal handler writes the number into the pipe, unless it is full or closed; the reactor's operation
  reads all there is, delivers each, and stays.\<close>

definition asio_signal_handler :: "int \<Rightarrow> ('o, 'w, 'k) signal_state \<Rightarrow> ('o, 'w, 'k) signal_state" where
  "asio_signal_handler n z =
     (if write_descriptor z \<noteq> - 1 \<and> length (signal_pipe z) < pipe_room z then z\<lparr>signal_pipe := signal_pipe z @ [n]\<rparr> else z)"

definition pipe_read_perform :: "('o, 'w, 'k) signal_state \<Rightarrow> status \<times> ('o, 'w, 'k) signal_state" where
  "pipe_read_perform z =
     (NotDone, fold (\<lambda>n z. if 0 \<le> n \<and> n < max_signal_number then deliver_signal n z else z) (signal_pipe z) (z\<lparr>signal_pipe := []\<rparr>))"

end
