(* ===== verification/SignalsInv.thy ===== *)
theory SignalsInv
  imports Signals
begin

text \<open>
  Histories of the signal services of a process, and the invariant they keep: each set has its registrations in
  strictly ascending order, the tables of the services hold exactly them, the counts are right, asio's handler is
  installed exactly for the signals somebody registered, and no set has both a waiting operation and an
  undelivered signal.
\<close>

section \<open>The parts of a state\<close>

abbreviation chain :: "('o, 'w, 'k) signal_state \<Rightarrow> nat \<Rightarrow> nat list" where
  "chain z s \<equiv> ss_signals (signal_sets z s)"

abbreviation queued_in :: "('o, 'w, 'k) signal_state \<Rightarrow> nat \<Rightarrow> 'o list" where
  "queued_in z s \<equiv> ss_queue (signal_sets z s)"

abbreviation owner :: "('o, 'w, 'k) signal_state \<Rightarrow> nat \<Rightarrow> nat" where
  "owner z s \<equiv> ss_service (signal_sets z s)"

abbreviation set_of_reg :: "('o, 'w, 'k) signal_state \<Rightarrow> nat \<Rightarrow> nat" where
  "set_of_reg z r \<equiv> reg_set (registrations z r)"

abbreviation table_at :: "('o, 'w, 'k) signal_state \<Rightarrow> nat \<Rightarrow> int \<Rightarrow> nat list" where
  "table_at z v \<equiv> sv_registrations (signal_services z v)"

text \<open>The registrations of signal \<open>n\<close> that are in a set.\<close>

definition live_at :: "('o, 'w, 'k) signal_state \<Rightarrow> int \<Rightarrow> nat set" where
  "live_at z n = {r. r \<in> set (chain z (set_of_reg z r)) \<and> signal_of z r = n}"

definition sets_ok :: "('o, 'w, 'k) signal_state \<Rightarrow> bool" where
  "sets_ok z \<longleftrightarrow> (\<forall>s. sorted_wrt (<) (map (signal_of z) (chain z s))
     \<and> (\<forall>r\<in>set (chain z s). set_of_reg z r = s \<and> r < next_registration z \<and> 0 \<le> signal_of z r \<and> signal_of z r < max_signal_number))"

definition tables_ok :: "('o, 'w, 'k) signal_state \<Rightarrow> bool" where
  "tables_ok z \<longleftrightarrow> (\<forall>v n. distinct (table_at z v n) \<and> set (table_at z v n) = {r \<in> live_at z n. owner z (set_of_reg z r) = v})"

definition counts_ok :: "('o, 'w, 'k) signal_state \<Rightarrow> bool" where
  "counts_ok z \<longleftrightarrow> (\<forall>n. registration_count z n = card (live_at z n))"

definition pending_ok :: "('o, 'w, 'k) signal_state \<Rightarrow> bool" where
  "pending_ok z \<longleftrightarrow> (\<forall>s. queued_in z s \<noteq> [] \<longrightarrow> (\<forall>r\<in>set (chain z s). undelivered (registrations z r) = 0))"

definition handlers_ok :: "('k \<Rightarrow> int \<Rightarrow> bool) \<Rightarrow> ('o, 'w, 'k) signal_state \<Rightarrow> bool" where
  "handlers_ok handled z \<longleftrightarrow> (\<forall>n. handled (sig_kernel z) n \<longleftrightarrow> live_at z n \<noteq> {})"

definition signals_ok :: "('k \<Rightarrow> int \<Rightarrow> bool) \<Rightarrow> ('o, 'w, 'k) signal_state \<Rightarrow> bool" where
  "signals_ok handled z \<longleftrightarrow> sets_ok z \<and> tables_ok z \<and> counts_ok z \<and> pending_ok z \<and> handlers_ok handled z \<and> distinct (service_list z)"

lemmas parts_ok_defs = sets_ok_def tables_ok_def counts_ok_def pending_ok_def handlers_ok_def

text \<open>\<open>sigaction\<close> sets the disposition of its signal, or fails with an \<open>errno\<close> and leaves it; \<open>pipe\<close> changes none.\<close>

definition sigaction_law :: "'k signal_env \<Rightarrow> ('k \<Rightarrow> int \<Rightarrow> bool) \<Rightarrow> bool" where
  "sigaction_law G handled \<longleftrightarrow>
     (\<forall>n b k res errno k'. sys_sigaction G n b k = (res, errno, k') \<longrightarrow>
        (if res = - 1 then errno \<noteq> 0 \<and> handled k' = handled k else handled k' = (handled k)(n := b)))
     \<and> (\<forall>k res a b errno k'. sys_pipe G k = (res, a, b, errno, k') \<longrightarrow> handled k' = handled k)"

section \<open>Histories\<close>

definition no_signals :: "('k \<Rightarrow> int \<Rightarrow> bool) \<Rightarrow> ('o, 'w, 'k) signal_state \<Rightarrow> bool" where
  "no_signals handled z \<longleftrightarrow> service_list z = [] \<and> registration_count z = (\<lambda>_. 0) \<and> (\<forall>s. chain z s = [] \<and> queued_in z s = [])
     \<and> (\<forall>v n. table_at z v n = []) \<and> handled (sig_kernel z) = (\<lambda>_. False)"

text \<open>A new service and a new set take a number that is free. The scheduler of a service may change at any time.\<close>

inductive signal_step ::
  "'k signal_env \<Rightarrow> ('o, 'w) os_env \<Rightarrow> ('o, 'w, 'k) signal_state \<Rightarrow> ('o, 'w, 'k) signal_state \<Rightarrow> bool"
  for G :: "'k signal_env" and E :: "('o, 'w) os_env" where
  NewService: "v \<notin> set (service_list z) \<Longrightarrow> \<forall>n. table_at z v n = []
     \<Longrightarrow> signal_step G E z (snd (new_signal_service G E x v hint q z))"
| Shutdown: "signal_step G E z (snd (signal_shutdown E v z))"
| DeleteService: "signal_step G E z (remove_service E v z)"
| Fork: "signal_step G E z (snd (signal_notify_fork G E x v f z))"
| NewSet: "chain z s = [] \<Longrightarrow> queued_in z s = [] \<Longrightarrow> signal_step G E z (signal_construct v s z)"
| Add: "signal_step G E z (snd (signal_add G s n z))"
| Remove: "signal_step G E z (snd (signal_remove G s n z))"
| Clear: "signal_step G E z (snd (signal_clear G s z))"
| Cancel: "signal_step G E z (snd (signal_cancel s z))"
| CancelKey: "signal_step G E z (signal_op_cancellation s key ct z)"
| DeleteSet: "signal_step G E z (signal_destroy G s z)"
| Wait: "signal_step G E z (signal_async_wait s x slot z)"
| Raise: "signal_step G E z (asio_signal_handler n z)"
| Deliver: "signal_step G E z (snd (pipe_read_perform z))"
| Other: "signal_step G E z (on_scheduler v g z)"

abbreviation signal_history ::
  "'k signal_env \<Rightarrow> ('o, 'w) os_env \<Rightarrow> ('o, 'w, 'k) signal_state \<Rightarrow> ('o, 'w, 'k) signal_state \<Rightarrow> bool" where
  "signal_history G E \<equiv> (signal_step G E)\<^sup>*\<^sup>*"

section \<open>Frames\<close>

text \<open>What the invariant reads of a state, without the queues.\<close>

definition registry ::
  "('o, 'w, 'k) signal_state \<Rightarrow> (nat \<Rightarrow> registration) \<times> nat \<times> (int \<Rightarrow> nat) \<times> (nat \<Rightarrow> nat list \<times> nat) \<times> (nat \<Rightarrow> int \<Rightarrow> nat list)" where
  "registry z = (registrations z, next_registration z, registration_count z, \<lambda>s. (chain z s, owner z s), \<lambda>v. table_at z v)"

lemma registryD:
  assumes "registry z' = registry z"
  shows "registrations z' = registrations z" "next_registration z' = next_registration z"
    "registration_count z' = registration_count z" "chain z' s = chain z s" "owner z' s = owner z s" "table_at z' v = table_at z v"
    "signal_of z' = signal_of z" "live_at z' = live_at z"
  using assms by (auto simp: registry_def live_at_def signal_of_def fun_eq_iff)

lemma frame:
  assumes "signals_ok handled z" "registry z' = registry z" "\<And>s. queued_in z' s \<noteq> [] \<Longrightarrow> queued_in z s \<noteq> []"
    "handled (sig_kernel z') = handled (sig_kernel z)" "distinct (service_list z')"
  shows "signals_ok handled z'"
  using assms(1,4,5) assms(3) unfolding signals_ok_def parts_ok_defs by (simp add: registryD [OF assms(2)]) blast

lemma upd_simps [simp]:
  "registrations (upd_set s f z) = registrations z" "signal_services (upd_set s f z) = signal_services z"
  "signal_sets (upd_set s f z) = (signal_sets z)(s := f (signal_sets z s))"
  "next_registration (upd_set s f z) = next_registration z" "registration_count (upd_set s f z) = registration_count z"
  "sig_kernel (upd_set s f z) = sig_kernel z" "service_list (upd_set s f z) = service_list z"
  "sop_ec (upd_set s f z) = sop_ec z" "sop_signal (upd_set s f z) = sop_signal z" "sop_key (upd_set s f z) = sop_key z"
  "registrations (upd_reg r g z) = (registrations z)(r := g (registrations z r))" "signal_services (upd_reg r g z) = signal_services z"
  "signal_sets (upd_reg r g z) = signal_sets z"
  "next_registration (upd_reg r g z) = next_registration z" "registration_count (upd_reg r g z) = registration_count z"
  "sig_kernel (upd_reg r g z) = sig_kernel z" "service_list (upd_reg r g z) = service_list z"
  "sop_ec (upd_reg r g z) = sop_ec z" "sop_signal (upd_reg r g z) = sop_signal z" "sop_key (upd_reg r g z) = sop_key z"
  "registrations (upd_service v h z) = registrations z" "signal_sets (upd_service v h z) = signal_sets z"
  "signal_services (upd_service v h z) = (signal_services z)(v := h (signal_services z v))"
  "next_registration (upd_service v h z) = next_registration z" "registration_count (upd_service v h z) = registration_count z"
  "sig_kernel (upd_service v h z) = sig_kernel z" "service_list (upd_service v h z) = service_list z"
  "sop_ec (upd_service v h z) = sop_ec z" "sop_signal (upd_service v h z) = sop_signal z" "sop_key (upd_service v h z) = sop_key z"
  by (simp_all add: upd_set_def upd_reg_def upd_service_def)

lemma on_scheduler_simps [simp]:
  "registry (on_scheduler v g z) = registry z" "registrations (on_scheduler v g z) = registrations z"
  "signal_sets (on_scheduler v g z) = signal_sets z" "table_at (on_scheduler v g z) u = table_at z u"
  "sig_kernel (on_scheduler v g z) = sig_kernel z" "service_list (on_scheduler v g z) = service_list z"
  "next_registration (on_scheduler v g z) = next_registration z" "registration_count (on_scheduler v g z) = registration_count z"
  "sop_ec (on_scheduler v g z) = sop_ec z" "sop_signal (on_scheduler v g z) = sop_signal z" "sop_key (on_scheduler v g z) = sop_key z"
  by (auto simp: on_scheduler_def registry_def fun_eq_iff)

text \<open>What the pipe functions leave alone.\<close>

definition quiet ::
  "('k \<Rightarrow> int \<Rightarrow> bool) \<Rightarrow> ('o, 'w, 'k) signal_state \<Rightarrow> ('o, 'w, 'k) signal_state \<Rightarrow> bool" where
  "quiet handled z z' \<longleftrightarrow> registry z' = registry z \<and> signal_sets z' = signal_sets z \<and> handled (sig_kernel z') = handled (sig_kernel z)
     \<and> sop_ec z' = sop_ec z \<and> sop_signal z' = sop_signal z"

lemma quiet_trans: "quiet handled z z' \<Longrightarrow> quiet handled z' z'' \<Longrightarrow> quiet handled z z''"
  by (simp add: quiet_def)

lemma sigaction_lawD:
  assumes "sigaction_law G handled"
  shows "sys_sigaction G n b k = (res, errno, k') \<Longrightarrow> handled k' = (if res = - 1 then handled k else (handled k)(n := b))"
    and "sys_pipe G k = (res, fd0, fd1, errno, k') \<Longrightarrow> handled k' = handled k"
    and "sys_sigaction G n b k = (- 1, errno, k') \<Longrightarrow> errno \<noteq> 0"
proof -
  note law = assms [unfolded sigaction_law_def]
  show "sys_sigaction G n b k = (res, errno, k') \<Longrightarrow> handled k' = (if res = - 1 then handled k else (handled k)(n := b))"
    using law by (auto split: if_splits)
  show "sys_pipe G k = (res, fd0, fd1, errno, k') \<Longrightarrow> handled k' = handled k" using law by blast
  show "sys_sigaction G n b k = (- 1, errno, k') \<Longrightarrow> errno \<noteq> 0" using law by fastforce
qed

lemma open_quiet: "sigaction_law G handled \<Longrightarrow> open_descriptors G z = (exn, z') \<Longrightarrow> quiet handled z z' \<and> service_list z' = service_list z"
  by (auto simp: open_descriptors_def quiet_def registry_def Let_def dest: sigaction_lawD(2) split: prod.splits if_splits)

lemma close_quiet: "quiet handled z (close_descriptors z) \<and> service_list (close_descriptors z) = service_list z"
  by (simp add: close_descriptors_def quiet_def registry_def)

lemma watch_quiet: "quiet handled z (watch_pipe E x v z) \<and> service_list (watch_pipe E x v z) = service_list z"
  by (auto simp: watch_pipe_def quiet_def registry_def fun_eq_iff split: prod.splits)

lemma unwatch_quiet: "quiet handled z (unwatch_pipe E v z) \<and> service_list (unwatch_pipe E v z) = service_list z"
  by (auto simp: unwatch_pipe_def quiet_def registry_def fun_eq_iff Let_def split: prod.splits)

lemma quiet_ok: "signals_ok handled z \<Longrightarrow> quiet handled z z' \<Longrightarrow> distinct (service_list z') \<Longrightarrow> signals_ok handled z'"
  by (erule frame) (simp_all add: quiet_def)

lemma add_service_quiet:
  assumes law: "sigaction_law G handled" and a: "add_service G E x v z = (exn, z')"
  shows "quiet handled z z' \<and> service_list z' = (if exn = None then v # service_list z else service_list z)"
proof -
  obtain e z1 where o: "(if service_list z = [] then open_descriptors G z else (None, z)) = (e, z1)" by (meson surj_pair)
  then have q: "quiet handled z z1" "service_list z1 = service_list z"
    using open_quiet [OF law, of z e z1] by (auto simp: quiet_def split: if_splits)
  let ?z2 = "z1\<lparr>service_list := v # service_list z1\<rparr>"
  have "quiet handled z1 ?z2" by (simp add: quiet_def registry_def)
  with q(1) have "quiet handled z ?z2" by (rule quiet_trans)
  then have "quiet handled z (watch_pipe E x v ?z2)" by (rule quiet_trans) (simp add: watch_quiet)
  then show ?thesis using a q watch_quiet [of handled ?z2 E x v] by (auto simp: add_service_def o split: if_splits)
qed

lemma remove_service_quiet:
  "quiet handled z (remove_service E v z) \<and> service_list (remove_service E v z) = remove1 v (service_list z)"
proof (cases "v \<in> set (service_list z)")
  case True
  define z1 where "z1 = (unwatch_pipe E v z)\<lparr>service_list := remove1 v (service_list (unwatch_pipe E v z))\<rparr>"
  have q: "quiet handled z z1" "service_list z1 = remove1 v (service_list z)"
    using unwatch_quiet [of handled z E v] by (simp_all add: z1_def quiet_def registry_def)
  have "remove_service E v z = (if service_list z1 = [] then close_descriptors z1 else z1)"
    using True by (simp add: remove_service_def Let_def z1_def)
  then show ?thesis using q quiet_trans [OF q(1)] close_quiet [of handled z1] by simp
next
  case False
  then show ?thesis by (simp add: remove_service_def remove1_idem quiet_def)
qed

section \<open>Registering\<close>

lemma find_signal_eq: "find_signal sig n rs = (takeWhile (\<lambda>r. sig r < n) rs, dropWhile (\<lambda>r. sig r < n) rs)"
  by (induction rs) simp_all

text \<open>In a sorted chain the loop finds the registration of the signal, if there is one.\<close>

lemma find_signalD:
  assumes "find_signal sig n rs = (bs, cs)" "sorted_wrt (<) (map sig rs)"
  shows "rs = bs @ cs" "\<forall>r\<in>set bs. sig r < n" "\<forall>r\<in>set cs. n \<le> sig r" "\<forall>r\<in>set (tl cs). n < sig r"
    "cs \<noteq> [] \<and> sig (hd cs) = n \<longleftrightarrow> n \<in> sig ` set rs"
proof -
  show rs: "rs = bs @ cs" and bs: "\<forall>r\<in>set bs. sig r < n"
    using assms(1) by (auto simp: find_signal_eq dest: set_takeWhileD)
  have "sorted_wrt (<) (map sig cs)" using assms(2) by (simp add: rs sorted_wrt_append)
  moreover have "cs \<noteq> [] \<Longrightarrow> n \<le> sig (hd cs)"
    using assms(1) hd_dropWhile [of "\<lambda>r. sig r < n" rs] by (auto simp: find_signal_eq)
  ultimately have tl: "\<forall>r\<in>set (tl cs). n < sig r" by (cases cs) fastforce+
  show "\<forall>r\<in>set (tl cs). n < sig r" by (rule tl)
  show cs: "\<forall>r\<in>set cs. n \<le> sig r" using tl \<open>cs \<noteq> [] \<Longrightarrow> n \<le> sig (hd cs)\<close> by (cases cs) auto
  show "cs \<noteq> [] \<and> sig (hd cs) = n \<longleftrightarrow> n \<in> sig ` set rs"
    using bs tl by (cases cs) (auto simp: rs)
qed

lemma live_finite: "sets_ok z \<Longrightarrow> finite (live_at z n)"
  by (rule finite_subset [of _ "{..<next_registration z}"]) (auto simp: sets_ok_def live_at_def)

lemma live_iff: "sets_ok z \<Longrightarrow> r \<in> set (chain z s) \<Longrightarrow> r \<in> live_at z n \<longleftrightarrow> signal_of z r = n"
  by (simp add: sets_ok_def live_at_def)

lemma insert_registration_sel:
  assumes z': "z' = insert_registration s n bs cs z"
  shows "registrations z' = (registrations z)(next_registration z := \<lparr>reg_signal = n, reg_set = s, undelivered = 0\<rparr>)"
    "next_registration z' = next_registration z + 1"
    "registration_count z' = (registration_count z)(n := registration_count z n + 1)"
    "chain z' t = (if t = s then bs @ next_registration z # cs else chain z t)"
    "queued_in z' t = queued_in z t" "owner z' t = owner z t"
    "table_at z' v k = (if v = owner z s \<and> k = n then next_registration z # table_at z v k else table_at z v k)"
    "sig_kernel z' = sig_kernel z" "service_list z' = service_list z"
    "signal_of z' r = (if r = next_registration z then n else signal_of z r)"
  by (simp_all add: z' insert_registration_def Let_def signal_of_def)

lemma insert_registration_ok:
  assumes ok: "sets_ok z" "tables_ok z" "counts_ok z" "pending_ok z" and d: "distinct (service_list z)"
    and n: "0 \<le> n" "n < max_signal_number"
    and f: "find_signal (signal_of z) n (chain z s) = (bs, cs)" and new: "n \<notin> signal_of z ` set (chain z s)"
    and h: "\<And>k. handled (sig_kernel z) k \<longleftrightarrow> k = n \<or> live_at z k \<noteq> {}"
  shows "signals_ok handled (insert_registration s n bs cs z)"
proof -
  let ?r = "next_registration z"
  define z' where "z' = insert_registration s n bs cs z"
  note sel = insert_registration_sel [OF z'_def]
  have sorted: "sorted_wrt (<) (map (signal_of z) (chain z t))" for t using ok(1) by (simp add: sets_ok_def)
  note fd = find_signalD [OF f sorted]
  have old: "r \<in> set (chain z t) \<Longrightarrow> set_of_reg z r = t \<and> r < ?r \<and> 0 \<le> signal_of z r \<and> signal_of z r < max_signal_number" for r t
    using ok(1) by (simp add: sets_ok_def)
  then have fresh: "?r \<notin> set (chain z t)" for t by blast
  have cs: "\<forall>r\<in>set cs. n < signal_of z r" using fd(3) new fd(1) by (force simp: order_le_less)
  have sig: "?r \<notin> set rs \<Longrightarrow> map (signal_of z') rs = map (signal_of z) rs" for rs by (auto simp: sel)
  have "sorted_wrt (<) (map (signal_of z') (chain z' t))" for t
  proof (cases "t = s")
    case True
    have "?r \<notin> set bs" "?r \<notin> set cs" using fresh [of s] fd(1) by auto
    then have "map (signal_of z') (chain z' t) = map (signal_of z) bs @ n # map (signal_of z) cs"
      using True by (simp add: sel(4) sel(10) [of ?r] sig del: map_eq_conv)
    then show ?thesis using sorted [of s] fd(2) cs unfolding fd(1) by (auto simp: sorted_wrt_append intro: order_less_trans)
  qed (simp add: sel(4) sig fresh sorted del: map_eq_conv)
  moreover have "set_of_reg z' r = t \<and> r < next_registration z' \<and> 0 \<le> signal_of z' r \<and> signal_of z' r < max_signal_number"
    if "r \<in> set (chain z' t)" for r t
    using that old [of r t] old [of r s] n fd(1) by (auto simp: sel split: if_splits)
  ultimately have s': "sets_ok z'" unfolding sets_ok_def by blast
  have live: "live_at z' k = (if k = n then insert ?r (live_at z k) else live_at z k)" for k
    using fd(1) fresh by (auto simp: live_at_def sel)
  have r: "?r \<notin> live_at z k" for k using fresh by (auto simp: live_at_def)
  have "counts_ok z'" using ok(3) r live_finite [OF ok(1)] by (auto simp: counts_ok_def live sel)
  moreover have "tables_ok z'" using ok(2) r by (auto simp: tables_ok_def live sel)
  moreover have "pending_ok z'" using ok(4) fd(1) fresh by (auto simp: pending_ok_def sel)
  moreover have "handlers_ok handled z'" using h by (auto simp: handlers_ok_def live sel)
  ultimately show ?thesis using s' d by (simp add: signals_ok_def sel flip: z'_def)
qed

section \<open>Unregistering\<close>

text \<open>Taking registration \<open>r\<close> out of its table and its set.\<close>

definition unregister :: "nat \<Rightarrow> nat \<Rightarrow> nat list \<Rightarrow> ('o, 'w, 'k) signal_state \<Rightarrow> ('o, 'w, 'k) signal_state" where
  "unregister s r rs z = upd_set s (\<lambda>x. x\<lparr>ss_signals := rs\<rparr>) (drop_registration s r z)"

lemma unregister_other_order: "drop_registration s r (upd_set s (\<lambda>x. x\<lparr>ss_signals := rs\<rparr>) z) = unregister s r rs z"
  by (simp add: unregister_def drop_registration_def Let_def signal_of_def) (simp add: upd_set_def upd_service_def)

lemma unregister_sel:
  assumes z': "z' = unregister s r rs z"
  shows "registrations z' = registrations z" "next_registration z' = next_registration z"
    "registration_count z' = (registration_count z)(signal_of z r := registration_count z (signal_of z r) - 1)"
    "chain z' t = (if t = s then rs else chain z t)" "queued_in z' t = queued_in z t" "owner z' t = owner z t"
    "table_at z' v k = (if v = owner z s \<and> k = signal_of z r then remove1 r (table_at z v k) else table_at z v k)"
    "sig_kernel z' = sig_kernel z" "service_list z' = service_list z" "signal_of z' = signal_of z"
  by (simp_all add: z' unregister_def drop_registration_def Let_def signal_of_def fun_eq_iff)

lemma unregister_ok:
  assumes ok: "sets_ok z" "tables_ok z" "counts_ok z" "pending_ok z" and d: "distinct (service_list z)"
    and ch: "chain z s = bs @ r # cs"
    and h: "\<And>k. handled (sig_kernel z) k \<longleftrightarrow> live_at z k - {r} \<noteq> {}"
  shows "signals_ok handled (unregister s r (bs @ cs) z)"
proof -
  define z' where "z' = unregister s r (bs @ cs) z"
  note sel = unregister_sel [OF z'_def]
  have sorted: "sorted_wrt (<) (map (signal_of z) (chain z t))" for t using ok(1) by (simp add: sets_ok_def)
  have in_s: "r' \<in> set (chain z t) \<Longrightarrow> set_of_reg z r' = t" for r' t using ok(1) by (simp add: sets_ok_def)
  have "r \<notin> set bs" "r \<notin> set cs" using sorted [of s] unfolding ch by (auto simp: sorted_wrt_append)
  then have rest: "set (bs @ cs) = set (chain z s) - {r}" unfolding ch by auto
  have "sorted_wrt (<) (map (signal_of z') (chain z' t))" for t
    using sorted [of t] sorted [of s] unfolding ch by (auto simp: sel sorted_wrt_append)
  moreover have "set (chain z' t) \<subseteq> set (chain z t)" for t using rest by (auto simp: sel)
  ultimately have "sets_ok z'" using ok(1) unfolding sets_ok_def sel(1,2,10) by blast
  have r_s: "set_of_reg z r = s" using in_s [of r s] ch by simp
  have "q \<in> set (chain z' (set_of_reg z q)) \<longleftrightarrow> q \<in> set (chain z (set_of_reg z q)) \<and> q \<noteq> r" for q
    unfolding sel(4) by (cases "set_of_reg z q = s") (use rest r_s in simp_all, blast)
  then have live: "live_at z' k = live_at z k - {r}" for k
    unfolding live_at_def sel(1,10) by blast
  have r: "r \<in> live_at z k \<longleftrightarrow> k = signal_of z r" for k using live_iff [OF ok(1), of r s] ch by auto
  have "counts_ok z'" unfolding counts_ok_def
  proof
    fix k
    have "registration_count z k = card (live_at z k)" using ok(3) by (simp add: counts_ok_def)
    then show "registration_count z' k = card (live_at z' k)"
      using r [of k] by (cases "k = signal_of z r") (auto simp: live sel(3) card_Diff_singleton_if)
  qed
  moreover have "tables_ok z'" unfolding tables_ok_def
  proof (intro allI)
    fix v k
    have "distinct (table_at z v k) \<and> set (table_at z v k) = {q \<in> live_at z k. owner z (set_of_reg z q) = v}"
      using ok(2) by (simp add: tables_ok_def)
    moreover from this r [of k] r_s have "r \<in> set (table_at z v k) \<longleftrightarrow> v = owner z s \<and> k = signal_of z r" by auto
    ultimately show "distinct (table_at z' v k) \<and> set (table_at z' v k) = {q \<in> live_at z' k. owner z' (set_of_reg z' q) = v}"
      unfolding live sel(1,6,7) by (cases "v = owner z s \<and> k = signal_of z r") (simp_all, blast+)
  qed
  moreover have "pending_ok z'" using ok(4) \<open>\<And>t. set (chain z' t) \<subseteq> set (chain z t)\<close>
    unfolding pending_ok_def sel(1,5) by blast
  moreover have "handlers_ok handled z'" using h by (simp add: handlers_ok_def live sel)
  ultimately show ?thesis using \<open>sets_ok z'\<close> d by (simp add: signals_ok_def sel flip: z'_def)
qed

lemma restore_default_ok:
  assumes law: "sigaction_law G handled" and ok: "signals_ok handled z" and r: "r \<in> set (chain z s)"
    and res: "restore_default G (signal_of z r) z = (err, z1)"
  shows "\<exists>k. z1 = z\<lparr>sig_kernel := k\<rparr> \<and> (if err = None then \<forall>n. handled k n \<longleftrightarrow> live_at z n - {r} \<noteq> {} else handled k = handled (sig_kernel z))"
proof -
  let ?n = "signal_of z r"
  have s: "sets_ok z" and c: "registration_count z n = card (live_at z n)" and h: "handled (sig_kernel z) n \<longleftrightarrow> live_at z n \<noteq> {}" for n
    using ok by (auto simp: signals_ok_def counts_ok_def handlers_ok_def)
  have mem: "r \<in> live_at z n \<longleftrightarrow> n = ?n" for n using live_iff [OF s r] by auto
  obtain res errno k where a: "sys_sigaction G ?n False (sig_kernel z) = (res, errno, k)" by (metis prod_cases3)
  note k = sigaction_lawD(1) [OF law a]
  show ?thesis
  proof (cases "registration_count z ?n = 1")
    case True
    then have "live_at z ?n = {r}" using c mem by (metis card_1_singletonE singletonD)
    then have "res \<noteq> - 1 \<Longrightarrow> handled k n \<longleftrightarrow> live_at z n - {r} \<noteq> {}" for n using k h mem by (cases "n = ?n") auto
    then show ?thesis using res True k by (intro exI [of _ k]) (auto simp: restore_default_def a split: if_splits)
  next
    case False
    have "live_at z ?n \<noteq> {r}" using False c by auto
    then have "live_at z n - {r} \<noteq> {} \<longleftrightarrow> live_at z n \<noteq> {}" for n using mem by (cases "n = ?n") auto
    then show ?thesis using res False h by (intro exI [of _ "sig_kernel z"]) (simp add: restore_default_def)
  qed
qed

section \<open>The operations of a set\<close>

lemma signals_okD:
  assumes "signals_ok handled z"
  shows "sets_ok z" "tables_ok z" "counts_ok z" "pending_ok z" "handlers_ok handled z" "distinct (service_list z)"
    "sorted_wrt (<) (map (signal_of z) (chain z s))"
    "r \<in> set (chain z s) \<Longrightarrow> set_of_reg z r = s" "r \<in> set (chain z s) \<Longrightarrow> 0 \<le> signal_of z r \<and> signal_of z r < max_signal_number"
  using assms by (auto simp: signals_ok_def sets_ok_def)

lemma kernel_ok: "signals_ok handled z \<Longrightarrow> handled k = handled (sig_kernel z) \<Longrightarrow> signals_ok handled (z\<lparr>sig_kernel := k\<rparr>)"
  by (rule frame) (auto simp: registry_def signals_ok_def)

lemma signal_of_kernel [simp]: "signal_of (z\<lparr>sig_kernel := k\<rparr>) = signal_of z"
  by (simp add: signal_of_def fun_eq_iff)

lemma kernel_parts: "sets_ok (z\<lparr>sig_kernel := k\<rparr>) = sets_ok z" "tables_ok (z\<lparr>sig_kernel := k\<rparr>) = tables_ok z"
    "counts_ok (z\<lparr>sig_kernel := k\<rparr>) = counts_ok z" "pending_ok (z\<lparr>sig_kernel := k\<rparr>) = pending_ok z"
    "live_at (z\<lparr>sig_kernel := k\<rparr>) = live_at z"
  by (simp_all add: parts_ok_defs live_at_def fun_eq_iff)

lemma signal_add_ok:
  assumes law: "sigaction_law G handled" and ok: "signals_ok handled z"
  shows "signals_ok handled (snd (signal_add G s n z))"
proof (cases "n < 0 \<or> max_signal_number \<le> n")
  case False
  obtain bs cs where f: "find_signal (signal_of z) n (chain z s) = (bs, cs)" by (meson surj_pair)
  note fd = find_signalD [OF f signals_okD(7) [OF ok]]
  note parts = signals_okD(1-4) [OF ok] signals_okD(6) [OF ok]
  have h: "handled (sig_kernel z) k \<longleftrightarrow> live_at z k \<noteq> {}" for k using ok by (simp add: signals_ok_def handlers_ok_def)
  have c: "registration_count z n = 0 \<longleftrightarrow> live_at z n = {}"
    using parts(3) live_finite [OF parts(1)] by (simp add: counts_ok_def)
  show ?thesis
  proof (cases "cs = [] \<or> signal_of z (hd cs) \<noteq> n")
    case True
    then have new: "n \<notin> signal_of z ` set (chain z s)" using fd(5) by blast
    obtain res errno k where a: "sys_sigaction G n True (sig_kernel z) = (res, errno, k)" by (metis prod_cases3)
    note k = sigaction_lawD(1) [OF law a]
    have later: "signals_ok handled (insert_registration s n bs cs z)" if "registration_count z n \<noteq> 0"
      by (rule insert_registration_ok [OF parts _ _ f new]) (use False h c that in auto)
    have first: "signals_ok handled (insert_registration s n bs cs (z\<lparr>sig_kernel := k\<rparr>))" if "res \<noteq> - 1"
      by (rule insert_registration_ok) (use False h k that parts f new in \<open>auto simp: kernel_parts\<close>)
    show ?thesis using False f True first later kernel_ok [OF ok, of k] k
      by (auto simp: signal_add_def a Let_def)
  qed (use False f ok in \<open>simp add: signal_add_def\<close>)
qed (use ok in \<open>simp add: signal_add_def\<close>)

lemma restore_default_cases:
  assumes law: "sigaction_law G handled" and ok: "signals_ok handled z" and ch: "chain z s = bs @ r # cs"
    and res: "restore_default G (signal_of z r) z = (err, z1)"
  shows "\<exists>k. z1 = z\<lparr>sig_kernel := k\<rparr>" "err \<noteq> None \<Longrightarrow> signals_ok handled z1"
    "err = None \<Longrightarrow> signals_ok handled (unregister s r (bs @ cs) z1)"
proof -
  obtain k where k: "z1 = z\<lparr>sig_kernel := k\<rparr>"
    "if err = None then \<forall>n. handled k n \<longleftrightarrow> live_at z n - {r} \<noteq> {} else handled k = handled (sig_kernel z)"
    using restore_default_ok [OF law ok _ res, of s] ch by auto
  show "\<exists>k. z1 = z\<lparr>sig_kernel := k\<rparr>" using k by blast
  show "err \<noteq> None \<Longrightarrow> signals_ok handled z1" using k kernel_ok [OF ok] by simp
  show "err = None \<Longrightarrow> signals_ok handled (unregister s r (bs @ cs) z1)"
    using k signals_okD(1-4,6) [OF ok] ch by (intro unregister_ok) (simp_all add: kernel_parts)
qed

lemma signal_remove_ok:
  assumes law: "sigaction_law G handled" and ok: "signals_ok handled z"
  shows "signals_ok handled (snd (signal_remove G s n z))"
proof -
  obtain bs cs where f: "find_signal (signal_of z) n (chain z s) = (bs, cs)" by (meson surj_pair)
  note fd = find_signalD [OF f signals_okD(7) [OF ok]]
  obtain err z1 where r: "restore_default G n z = (err, z1)" by (meson surj_pair)
  show ?thesis
  proof (cases "(n < 0 \<or> max_signal_number \<le> n) \<or> \<not> (cs \<noteq> [] \<and> signal_of z (hd cs) = n)")
    case False
    then have ch: "chain z s = bs @ hd cs # tl cs" and n: "n = signal_of z (hd cs)" using fd(1) by auto
    note cases = restore_default_cases [OF law ok ch r [unfolded n]]
    show ?thesis using False f r cases(2,3) n
      by (cases err) (auto simp: signal_remove_def unregister_other_order)
  qed (use f ok in \<open>auto simp: signal_remove_def\<close>)
qed

lemma clear_loop_ok:
  assumes law: "sigaction_law G handled"
  shows "signals_ok handled z \<Longrightarrow> chain z s = rs \<Longrightarrow> signals_ok handled (snd (clear_loop G s rs z))"
proof (induction rs arbitrary: z)
  case (Cons r rs)
  obtain err z1 where r: "restore_default G (signal_of z r) z = (err, z1)" by (meson surj_pair)
  note cases = restore_default_cases [OF law Cons.prems(1) _ r, of s "[]" rs]
  have e: "upd_set s (\<lambda>x. x\<lparr>ss_signals := rs\<rparr>) (drop_registration s r z1) = unregister s r rs z1"
    by (simp add: unregister_def)
  show ?case
  proof (cases err)
    case None
    have "signals_ok handled (unregister s r rs z1)" using cases(3) None Cons.prems(2) by simp
    moreover have "chain (unregister s r rs z1) s = rs" by (simp add: unregister_sel(4) [OF refl])
    ultimately have "signals_ok handled (snd (clear_loop G s rs (unregister s r rs z1)))" by (rule Cons.IH)
    then show ?thesis using None r by (simp add: e)
  qed (use cases(2) Cons.prems r in simp)
qed simp

lemma signal_clear_ok: "sigaction_law G handled \<Longrightarrow> signals_ok handled z \<Longrightarrow> signals_ok handled (snd (signal_clear G s z))"
  by (simp add: signal_clear_def clear_loop_ok)

section \<open>Operations that wait\<close>

lemma undelivered_ok:
  assumes ok: "signals_ok handled z" and k: "queue_of_reg z r = [] \<or> k \<le> undelivered (registrations z r)"
  shows "signals_ok handled (upd_reg r (\<lambda>g. g\<lparr>undelivered := k\<rparr>) z)" (is "signals_ok handled ?z")
proof -
  have sig: "signal_of ?z = signal_of z" by (simp add: signal_of_def fun_eq_iff)
  have set: "set_of_reg ?z q = set_of_reg z q" for q by simp
  have live: "live_at ?z = live_at z" by (simp add: live_at_def sig set fun_eq_iff del: upd_simps(11))
  have "pending_ok ?z" unfolding pending_ok_def
  proof (intro allI impI ballI)
    fix s q assume s: "queued_in ?z s \<noteq> []" and q: "q \<in> set (chain ?z s)"
    then have "undelivered (registrations z q) = 0" using ok by (simp add: signals_ok_def pending_ok_def)
    moreover have "set_of_reg z q = s" using q signals_okD(8) [OF ok] by simp
    ultimately show "undelivered (registrations ?z q) = 0" using k s by (auto simp: queue_of_reg_def)
  qed
  then show ?thesis using ok unfolding signals_ok_def sets_ok_def tables_ok_def counts_ok_def handlers_ok_def live sig set by simp
qed

lemma empty_queue_ok:
  "signals_ok handled z \<Longrightarrow> signals_ok handled (upd_set s (\<lambda>x. x\<lparr>ss_queue := []\<rparr>) (z\<lparr>sop_ec := f, sop_signal := g\<rparr>))"
  by (rule frame) (auto simp: registry_def signals_ok_def fun_eq_iff split: if_splits)

lemma give_signal_eq: "give_signal n q ops sg = (ops @ q, \<lambda>x. if x \<in> set q then n else sg x)"
  by (induction q arbitrary: ops sg) (auto simp: fun_eq_iff)

lemma deliver_loop_ok: "signals_ok handled z \<Longrightarrow> signals_ok handled (snd (deliver_loop n rs ops z))"
proof (induction n rs ops z rule: deliver_loop.induct)
  case (2 n r rs ops z)
  obtain ops' sg where g: "give_signal n (queue_of_reg z r) ops (sop_signal z) = (ops', sg)" by (meson surj_pair)
  show ?case
  proof (cases "queue_of_reg z r = []")
    case True
    have "signals_ok handled (upd_reg r (\<lambda>g. g\<lparr>undelivered := undelivered (registrations z r) + 1\<rparr>) z)"
      using 2(3) True by (intro undelivered_ok) auto
    then have "signals_ok handled (upd_reg r (\<lambda>g. g\<lparr>undelivered := undelivered g + 1\<rparr>) z)" by (simp add: upd_reg_def)
    then show ?thesis using 2(1) True by simp
  next
    case False
    have "signals_ok handled (upd_set (set_of_reg z r) (\<lambda>x. x\<lparr>ss_queue := []\<rparr>) (z\<lparr>sop_signal := sg\<rparr>))"
      using empty_queue_ok [OF 2(3), where f = "sop_ec z" and g = sg] by simp
    then show ?thesis using 2(2) [OF False g [symmetric]] False g by simp
  qed
qed simp

lemma on_scheduler_ok: "signals_ok handled z \<Longrightarrow> signals_ok handled (on_scheduler v g z)"
  by (rule frame) (auto simp: signals_ok_def)

lemma deliver_to_service_ok: "signals_ok handled z \<Longrightarrow> signals_ok handled (deliver_to_service n v z)"
  using deliver_loop_ok [of handled z n "table_at z v n" "[]"]
  by (auto simp: deliver_to_service_def intro: on_scheduler_ok split: prod.splits)

lemma fold_keeps: "P z \<Longrightarrow> (\<And>v z. P z \<Longrightarrow> P (f v z)) \<Longrightarrow> P (fold f vs z)"
  by (induction vs arbitrary: z) auto

lemma deliver_signal_ok: "signals_ok handled z \<Longrightarrow> signals_ok handled (deliver_signal n z)"
  unfolding deliver_signal_def by (erule fold_keeps) (rule deliver_to_service_ok)

lemma first_undelivered_cases:
  "case first_undelivered z rs of Some r \<Rightarrow> r \<in> set rs \<and> 0 < undelivered (registrations z r)
     | None \<Rightarrow> \<forall>r\<in>set rs. undelivered (registrations z r) = 0"
  by (induction rs) (auto split: option.splits)

lemma start_wait_op_eq:
  assumes "z1 = on_scheduler (owner z s) work_started z"
  shows "start_wait_op s x z =
    (case first_undelivered z1 (chain z1 s) of
       Some r \<Rightarrow> on_scheduler (owner z s) (post_deferred_completion (Operation x))
                   ((upd_reg r (\<lambda>g. g\<lparr>undelivered := undelivered g - 1\<rparr>) z1)\<lparr>sop_signal := (sop_signal z)(x := signal_of z r)\<rparr>)
     | None \<Rightarrow> upd_set s (\<lambda>g. g\<lparr>ss_queue := ss_queue g @ [x]\<rparr>) z1)"
  by (auto simp: start_wait_op_def Let_def signal_of_def assms split: option.splits)

lemma start_wait_op_ok:
  assumes ok: "signals_ok handled z"
  shows "signals_ok handled (start_wait_op s x z)"
proof -
  define z1 where "z1 = on_scheduler (owner z s) work_started z"
  have ok1: "signals_ok handled z1" using ok by (simp add: z1_def on_scheduler_ok)
  note f = first_undelivered_cases [of "chain z1 s" z1]
  show ?thesis
  proof (cases "first_undelivered z1 (chain z1 s)")
    case None
    have "signals_ok handled (upd_set s (\<lambda>g. g\<lparr>ss_queue := ss_queue g @ [x]\<rparr>) z1)" (is "signals_ok handled ?z")
    proof -
      have "registry ?z = registry z1" by (auto simp: registry_def fun_eq_iff)
      note r = registryD [OF this]
      have "pending_ok ?z" using f None signals_okD(4) [OF ok1] unfolding pending_ok_def r by auto
      then show ?thesis using ok1 unfolding signals_ok_def sets_ok_def tables_ok_def counts_ok_def handlers_ok_def r by simp
    qed
    then show ?thesis using None by (simp add: start_wait_op_eq [OF z1_def])
  next
    case (Some r)
    have "signals_ok handled (upd_reg r (\<lambda>g. g\<lparr>undelivered := undelivered (registrations z1 r) - 1\<rparr>) z1)"
      by (rule undelivered_ok [OF ok1]) simp
    then have "signals_ok handled (upd_reg r (\<lambda>g. g\<lparr>undelivered := undelivered g - 1\<rparr>) z1)" (is "signals_ok handled ?z")
      by (simp add: upd_reg_def)
    then have "signals_ok handled (?z\<lparr>sop_signal := h\<rparr>)" for h
      by (rule frame) (simp_all add: registry_def signal_of_def signals_okD(6) [OF ok1] fun_eq_iff)
    then show ?thesis using Some by (simp add: start_wait_op_eq [OF z1_def] on_scheduler_ok)
  qed
qed

section \<open>Every step keeps the invariant\<close>

lemma abort_signal_ops_eq:
  "abort_signal_ops q ops ec = (ops @ q, \<lambda>x. if x \<in> set q then basic_ec operation_aborted else ec x)"
  by (induction q arbitrary: ops ec) (auto simp: fun_eq_iff)

lemma signal_split_by_key_eq:
  "signal_split_by_key key_of key q ops others ec =
     (ops @ filter (\<lambda>x. key_of x = key) q, others @ filter (\<lambda>x. key_of x \<noteq> key) q,
      \<lambda>x. if x \<in> set q \<and> key_of x = key then basic_ec operation_aborted else ec x)"
  by (induction q arbitrary: ops others ec) (auto simp: fun_eq_iff)

lemma signal_cancel_ok: "signals_ok handled z \<Longrightarrow> signals_ok handled (snd (signal_cancel s z))"
  using empty_queue_ok [where g = "sop_signal z" and z = z]
  by (auto simp: signal_cancel_def abort_signal_ops_eq Let_def intro: on_scheduler_ok)

lemma signal_op_cancellation_ok: "signals_ok handled z \<Longrightarrow> signals_ok handled (signal_op_cancellation s key ct z)"
proof -
  assume ok: "signals_ok handled z"
  have "signals_ok handled (upd_set s (\<lambda>x. x\<lparr>ss_queue := filter (\<lambda>y. sop_key z y \<noteq> key) (queued_in z s)\<rparr>) (z\<lparr>sop_ec := e\<rparr>))" for e
    using ok by (rule frame) (use ok in \<open>auto simp: registry_def signals_ok_def fun_eq_iff split: if_splits\<close>)
  then show ?thesis using ok
    by (simp add: signal_op_cancellation_def signal_cancel_by_key_def signal_split_by_key_eq Let_def on_scheduler_ok)
qed

lemma collect_queues_ok: "signals_ok handled z \<Longrightarrow> signals_ok handled (snd (collect_queues rs ops z))"
proof (induction rs ops z rule: collect_queues.induct)
  case (2 r rs ops z)
  then show ?case using empty_queue_ok [OF 2(2), where f = "sop_ec z" and g = "sop_signal z"] by simp
qed simp

lemma remove_service_ok:
  assumes "signals_ok handled z"
  shows "signals_ok handled (remove_service E v z)"
  using remove_service_quiet [of handled z E v] quiet_ok [OF assms] signals_okD(6) [OF assms] by (metis distinct_remove1)

lemma signal_shutdown_ok:
  assumes "signals_ok handled z"
  shows "signals_ok handled (snd (signal_shutdown E v z))"
proof -
  have "signals_ok handled (snd ([], remove_service E v z))" using assms by (simp add: remove_service_ok)
  then show ?thesis unfolding signal_shutdown_def Let_def
    by (rule fold_keeps) (use collect_queues_ok in \<open>auto split: prod.splits\<close>)
qed

lemma signal_notify_fork_ok:
  assumes law: "sigaction_law G handled" and ok: "signals_ok handled z"
  shows "signals_ok handled (snd (signal_notify_fork G E x v f z))"
proof -
  obtain exn z1 where o: "open_descriptors G (close_descriptors z) = (exn, z1)" by (meson surj_pair)
  have d: "distinct (service_list z)" using ok by (rule signals_okD(6))
  have q1: "quiet handled z z1" "service_list z1 = service_list z"
    using quiet_trans open_quiet [OF law o] close_quiet [of handled z] by auto
  have flag: "quiet handled y (y\<lparr>fork_prepared := b\<rparr>)" for y b by (simp add: quiet_def registry_def)
  have w: "quiet handled z (watch_pipe E x v (y\<lparr>fork_prepared := b\<rparr>))" if "quiet handled z y" for y b
    using quiet_trans [OF quiet_trans [OF that flag [of y b]]] watch_quiet [of handled _ E x v] by blast
  have u: "quiet handled z (unwatch_pipe E v (z\<lparr>fork_prepared := True\<rparr>))"
    using quiet_trans [OF flag [of z True]] unwatch_quiet [of handled _ E v] by blast
  have "quiet handled z z" by (simp add: quiet_def)
  then show ?thesis using ok quiet_ok [OF ok q1(1)] quiet_ok [OF ok u] quiet_ok [OF ok w] quiet_ok [OF ok w [OF q1(1)]] q1 d
    by (auto simp: signal_notify_fork_def o watch_quiet [where handled = handled] unwatch_quiet [where handled = handled] split: fork_event.splits)
qed

lemma new_signal_service_ok:
  assumes law: "sigaction_law G handled" and ok: "signals_ok handled z"
    and new: "v \<notin> set (service_list z)" "\<forall>n. table_at z v n = []"
  shows "signals_ok handled (snd (new_signal_service G E x v hint q z))"
proof -
  let ?z = "upd_service v (\<lambda>_. \<lparr>sv_scheduler = init_task q, sv_hint = hint, sv_registrations = (\<lambda>_. []), sv_reactor_data = None\<rparr>) z"
  have "quiet handled z ?z" using new(2) by (auto simp: quiet_def registry_def fun_eq_iff)
  moreover obtain exn z' where a: "add_service G E x v ?z = (exn, z')" by (meson surj_pair)
  ultimately show ?thesis
    using add_service_quiet [OF law a] quiet_ok [OF ok quiet_trans] new(1) signals_okD(6) [OF ok]
    by (auto simp: new_signal_service_def a split: if_splits)
qed

lemma construct_ok:
  assumes ok: "signals_ok handled z" and new: "chain z s = []" "queued_in z s = []"
  shows "signals_ok handled (signal_construct v s z)"
proof -
  let ?z = "signal_construct v s z"
  have [simp]: "signal_of ?z = signal_of z" "chain ?z t = chain z t" "queued_in ?z t = queued_in z t" for t
    using new by (simp_all add: signal_construct_def signal_of_def fun_eq_iff)
  have [simp]: "registrations ?z = registrations z" "next_registration ?z = next_registration z"
    "registration_count ?z = registration_count z" "service_list ?z = service_list z" "sig_kernel ?z = sig_kernel z"
    "table_at ?z u = table_at z u" for u by (simp_all add: signal_construct_def)
  have [simp]: "live_at ?z = live_at z" by (simp add: live_at_def fun_eq_iff)
  have o: "r \<in> live_at z n \<Longrightarrow> owner ?z (set_of_reg z r) = owner z (set_of_reg z r)" for r n
    using new by (auto simp: signal_construct_def live_at_def)
  have "{r \<in> live_at z n. owner ?z (set_of_reg z r) = u} = {r \<in> live_at z n. owner z (set_of_reg z r) = u}" for n u
    using o by auto
  then have "tables_ok ?z" using signals_okD(2) [OF ok] by (simp add: tables_ok_def)
  then show ?thesis using ok unfolding signals_ok_def sets_ok_def counts_ok_def pending_ok_def handlers_ok_def by simp
qed

lemma async_wait_ok:
  assumes ok: "signals_ok handled z"
  shows "signals_ok handled (signal_async_wait s x slot z)"
proof -
  have "signals_ok handled (z\<lparr>sop_ec := a, sop_signal := b, sop_key := c\<rparr>)" for a b c
    by (rule frame [OF ok]) (simp_all add: registry_def signals_okD(6) [OF ok] fun_eq_iff)
  then show ?thesis by (simp add: signal_async_wait_def Let_def start_wait_op_ok)
qed

lemma raise_ok:
  assumes ok: "signals_ok handled z"
  shows "signals_ok handled (asio_signal_handler n z)"
  by (rule frame [OF ok]) (simp_all add: asio_signal_handler_def registry_def signals_okD(6) [OF ok] split: if_splits)

lemma pipe_read_ok:
  assumes ok: "signals_ok handled z"
  shows "signals_ok handled (snd (pipe_read_perform z))"
proof -
  have "signals_ok handled (z\<lparr>signal_pipe := []\<rparr>)"
    by (rule frame [OF ok]) (simp_all add: registry_def signals_okD(6) [OF ok])
  then show ?thesis unfolding pipe_read_perform_def
    by simp (rule fold_keeps, use deliver_signal_ok in auto)
qed

lemma signal_step_ok:
  assumes law: "sigaction_law G handled"
  shows "signal_step G E z z' \<Longrightarrow> signals_ok handled z \<Longrightarrow> signals_ok handled z'"
proof (induction rule: signal_step.induct)
  case (DeleteService z v)
  then show ?case by (rule remove_service_ok)
next
  case (DeleteSet z s)
  then show ?case by (simp add: signal_destroy_def signal_cancel_ok signal_clear_ok [OF law])
qed (simp_all add: new_signal_service_ok [OF law] signal_shutdown_ok signal_notify_fork_ok [OF law] construct_ok signal_add_ok [OF law]
  signal_remove_ok [OF law] signal_clear_ok [OF law] signal_cancel_ok signal_op_cancellation_ok async_wait_ok raise_ok pipe_read_ok on_scheduler_ok)

lemma no_signals_ok: "no_signals handled z \<Longrightarrow> signals_ok handled z"
  by (simp add: no_signals_def signals_ok_def parts_ok_defs live_at_def)

lemma signal_history_ok:
  assumes "sigaction_law G handled" "signal_history G E z z'" "signals_ok handled z"
  shows "signals_ok handled z'"
  using assms(2,3) by (induction rule: rtranclp_induct) (auto intro: signal_step_ok [OF assms(1)])

end
