(* ===== verification/SignalsSpec.thy ===== *)
theory SignalsSpec
  imports SignalsInv EpollSpec
begin

text \<open>
  What a signal set promises. Its abstract state is a finite map from the signals it is registered for to the number
  of times each arrived without a waiting operation, and the queue of waiting operations. The operations of a set
  and the delivery of a signal refine operations on these two.
\<close>

section \<open>The invariant\<close>

text \<open>Along every history of the signal services of a process: each set has its registrations in strictly ascending
  order of their signals; the table of a service has exactly the registrations of its sets, each once;
  \<open>registration_count_\<close> is the number of registrations of a signal, and asio's handler is installed exactly if it is
  not 0, also after failed calls of \<open>sigaction\<close>; a set with a waiting operation has no undelivered signal; and
  each service is listed once.\<close>

theorem signal_sets_stay_consistent:
  assumes law: "sigaction_law G handled" and start: "no_signals handled z0" and h: "signal_history G E z0 z"
  shows "sets_ok z \<and> tables_ok z \<and> counts_ok z \<and> pending_ok z \<and> distinct (service_list z)
    \<and> (\<forall>n. handled (sig_kernel z) n \<longleftrightarrow> registration_count z n \<noteq> 0)"
proof -
  have ok: "signals_ok handled z" using signal_history_ok [OF law h] no_signals_ok [OF start] .
  then have "registration_count z n \<noteq> 0 \<longleftrightarrow> live_at z n \<noteq> {}" for n
    using live_finite [of z n] by (simp add: signals_ok_def counts_ok_def)
  then show ?thesis using ok by (simp add: signals_ok_def handlers_ok_def)
qed

text \<open>A service with two sets, both registered for signal 2, and one operation waiting.\<close>

definition sig_os :: "(int \<Rightarrow> bool) signal_env" where
  "sig_os = \<lparr>sys_sigaction = (\<lambda>n b k. (0, 0, k(n := b))), sys_pipe = (\<lambda>k. (0, 3, 4, 0, k))\<rparr>"

definition sig_start :: "(nat, unit, int \<Rightarrow> bool) signal_state" where
  "sig_start = \<lparr>read_descriptor = - 1, write_descriptor = - 1, fork_prepared = False, service_list = [], registration_count = (\<lambda>_. 0),
     registrations = (\<lambda>_. \<lparr>reg_signal = 0, reg_set = 0, undelivered = 0\<rparr>), next_registration = 0,
     signal_sets = (\<lambda>_. \<lparr>ss_service = 0, ss_signals = [], ss_queue = []\<rparr>),
     signal_services = (\<lambda>_. \<lparr>sv_scheduler = new_sched hint_default (new_reactor 4 (\<lambda>_. 0) ()), sv_hint = hint_default,
        sv_registrations = (\<lambda>_. []), sv_reactor_data = None\<rparr>),
     sop_signal = (\<lambda>_. 0), sop_ec = (\<lambda>_. ec_success), sop_key = (\<lambda>_. 0), signal_pipe = [], pipe_room = 16384,
     sig_kernel = (\<lambda>_. False)\<rparr>"

definition one_service :: "(nat, unit, int \<Rightarrow> bool) signal_state" where
  "one_service = signal_construct 0 7 (signal_construct 0 3 (snd (new_signal_service sig_os idle_os 9 0 hint_default
     (new_sched hint_default (new_reactor 4 (\<lambda>_. 0) ())) sig_start)))"

definition two_sets :: "(nat, unit, int \<Rightarrow> bool) signal_state" where
  "two_sets = signal_async_wait 3 8 None (snd (signal_add sig_os 7 2 (snd (signal_add sig_os 3 2 one_service))))"

lemma sig_os_law: "sigaction_law sig_os (\<lambda>k. k)"
  by (simp add: sigaction_law_def sig_os_def)

lemma sig_start_none: "no_signals (\<lambda>k. k) sig_start"
  by (simp add: no_signals_def sig_start_def)

lemma one_service_history: "signal_history sig_os idle_os sig_start one_service"
proof -
  let ?q = "new_sched hint_default (new_reactor 4 (\<lambda>_. 0) ())"
  let ?z = "snd (new_signal_service sig_os idle_os 9 0 hint_default ?q sig_start)"
  have 1: "signal_step sig_os idle_os sig_start ?z" by (rule NewService) (simp_all add: sig_start_def)
  have "quiet (\<lambda>k. k) (upd_service 0 (\<lambda>_. \<lparr>sv_scheduler = init_task ?q, sv_hint = hint_default,
      sv_registrations = (\<lambda>_. []), sv_reactor_data = None\<rparr>) sig_start) ?z"
    unfolding new_signal_service_def by (rule conjunct1 [OF add_service_quiet [OF sig_os_law surjective_pairing]])
  then have "signal_sets ?z = signal_sets sig_start" by (simp add: quiet_def)
  then have sets: "chain ?z t = []" "queued_in ?z t = []" for t by (simp_all only:) (simp_all add: sig_start_def)
  have 2: "signal_step sig_os idle_os ?z (signal_construct 0 3 ?z)" by (rule NewSet) (simp_all only: sets)
  have 3: "signal_step sig_os idle_os (signal_construct 0 3 ?z) one_service" unfolding one_service_def
    by (rule NewSet) (simp_all add: signal_construct_def sets)
  show ?thesis using 1 2 3 by (meson converse_rtranclp_into_rtranclp rtranclp.rtrancl_refl)
qed

lemma two_sets_history: "signal_history sig_os idle_os sig_start two_sets"
proof -
  let ?a = "snd (signal_add sig_os 3 2 one_service)"
  let ?b = "snd (signal_add sig_os 7 2 ?a)"
  have "signal_step sig_os idle_os one_service ?a" "signal_step sig_os idle_os ?a ?b" "signal_step sig_os idle_os ?b two_sets"
    unfolding two_sets_def by (rule Add Wait)+
  then show ?thesis using one_service_history by (meson rtranclp.rtrancl_into_rtrancl)
qed

theorem signal_sets_stay_consistent_witness:
  "sets_ok two_sets \<and> (\<forall>n. sig_kernel two_sets n \<longleftrightarrow> registration_count two_sets n \<noteq> 0)"
  using signal_sets_stay_consistent [OF sig_os_law sig_start_none two_sets_history] by blast

section \<open>The abstract set\<close>

type_synonym 'o abstract_set = "(int \<rightharpoonup> nat) \<times> 'o list"

definition counts_of :: "(nat \<Rightarrow> int) \<Rightarrow> (nat \<Rightarrow> nat) \<Rightarrow> nat list \<Rightarrow> int \<rightharpoonup> nat" where
  "counts_of sig u rs = map_of (map (\<lambda>r. (sig r, u r)) rs)"

definition set_view :: "('o, 'w, 'k) signal_state \<Rightarrow> nat \<Rightarrow> 'o abstract_set" where
  "set_view z s = (counts_of (signal_of z) (\<lambda>r. undelivered (registrations z r)) (chain z s), queued_in z s)"

datatype 'o set_request = AddSignal int | RemoveSignal int | ClearSignals | CancelWaits | CancelKey nat "32 word" | WaitSignal 'o "nat option"

text \<open>The signal a wait takes: the lowest that arrived.\<close>

definition arrived :: "(int \<rightharpoonup> nat) \<Rightarrow> int option" where
  "arrived p = find (\<lambda>n. case p n of Some c \<Rightarrow> 0 < c | None \<Rightarrow> False) [0..max_signal_number - 1]"

text \<open>\<open>has_key\<close> tells which operations a cancellation is for.\<close>

fun view_request :: "('o \<Rightarrow> nat) \<Rightarrow> 'o set_request \<Rightarrow> 'o abstract_set \<Rightarrow> 'o abstract_set" where
  "view_request key_of (AddSignal n) (p, q) = (if p n = None then p(n \<mapsto> 0) else p, q)"
| "view_request key_of (RemoveSignal n) (p, q) = (p(n := None), q)"
| "view_request key_of ClearSignals (p, q) = (Map.empty, q)"
| "view_request key_of CancelWaits (p, q) = (p, [])"
| "view_request key_of (CancelKey key ct) (p, q) = (p, if ct AND 7 = 0 then q else filter (\<lambda>x. key_of x \<noteq> key) q)"
| "view_request key_of (WaitSignal x slot) (p, q) =
     (case arrived p of Some n \<Rightarrow> (p(n \<mapsto> the (p n) - 1), q) | None \<Rightarrow> (p, q @ [x]))"

text \<open>The operations a request completes, with their results.\<close>

fun view_completes :: "('o \<Rightarrow> nat) \<Rightarrow> 'o set_request \<Rightarrow> 'o abstract_set \<Rightarrow> ('o \<times> error_code \<times> int option) list" where
  "view_completes key_of CancelWaits (p, q) = map (\<lambda>x. (x, basic_ec operation_aborted, None)) q"
| "view_completes key_of (CancelKey key ct) (p, q) =
     (if ct AND 7 = 0 then [] else map (\<lambda>x. (x, basic_ec operation_aborted, None)) (filter (\<lambda>x. key_of x = key) q))"
| "view_completes key_of (WaitSignal x slot) (p, q) = (case arrived p of Some n \<Rightarrow> [(x, ec_success, Some n)] | None \<Rightarrow> [])"
| "view_completes key_of _ _ = []"

fun view_deliver :: "int \<Rightarrow> 'o abstract_set \<Rightarrow> 'o abstract_set" where
  "view_deliver n (p, q) = (case p n of None \<Rightarrow> (p, q) | Some c \<Rightarrow> if q = [] then (p(n \<mapsto> c + 1), []) else (p, []))"

text \<open>The request on the state.\<close>

fun do_request :: "'k signal_env \<Rightarrow> nat \<Rightarrow> 'o set_request \<Rightarrow> ('o, 'w, 'k) signal_state \<Rightarrow> error_code \<times> ('o, 'w, 'k) signal_state" where
  "do_request G s (AddSignal n) z = signal_add G s n z"
| "do_request G s (RemoveSignal n) z = signal_remove G s n z"
| "do_request G s ClearSignals z = signal_clear G s z"
| "do_request G s CancelWaits z = signal_cancel s z"
| "do_request G s (CancelKey key ct) z = (ec_success, signal_op_cancellation s key ct z)"
| "do_request G s (WaitSignal x slot) z = (ec_success, signal_async_wait s x slot z)"

section \<open>Maps and chains\<close>

lemma counts_insert:
  "n \<notin> sig ` set bs \<Longrightarrow> sig r = n \<Longrightarrow> counts_of sig u (bs @ r # cs) = (counts_of sig u (bs @ cs))(n \<mapsto> u r)"
  unfolding counts_of_def by (induction bs) auto

lemma counts_delete:
  assumes "distinct (map sig (bs @ r # cs))"
  shows "counts_of sig u (bs @ cs) = (counts_of sig u (bs @ r # cs))(sig r := None)"
proof -
  have n: "sig r \<notin> sig ` set bs" "sig r \<notin> sig ` set (bs @ cs)" using assms by auto
  have "counts_of sig u (bs @ cs) (sig r) = None" using n(2) by (auto simp: counts_of_def map_of_eq_None_iff)
  then show ?thesis using counts_insert [OF n(1) refl] by (auto simp: fun_eq_iff)
qed

lemma counts_cong: "(\<And>r. r \<in> set rs \<Longrightarrow> sig r = sig' r \<and> u r = u' r) \<Longrightarrow> counts_of sig u rs = counts_of sig' u' rs"
  unfolding counts_of_def by (induction rs) auto

lemma counts_some: "counts_of sig u rs n = Some c \<Longrightarrow> \<exists>r\<in>set rs. sig r = n \<and> u r = c"
  unfolding counts_of_def by (induction rs) (auto split: if_splits)

lemma counts_none: "counts_of sig u rs n = None \<longleftrightarrow> n \<notin> sig ` set rs"
  unfolding counts_of_def by (simp add: map_of_eq_None_iff image_image)

lemma counts_at:
  assumes "distinct (map sig rs)" "r \<in> set rs"
  shows "counts_of sig u rs (sig r) = Some (u r)"
proof -
  obtain bs cs where rs: "rs = bs @ r # cs" using assms(2) by (meson split_list)
  then have "sig r \<notin> sig ` set bs" using assms(1) by auto
  then show ?thesis using counts_insert [OF _ refl] by (simp add: rs)
qed

lemma counts_change:
  assumes "distinct (map sig rs)" "r \<in> set rs"
  shows "counts_of sig (u(r := c)) rs = (counts_of sig u rs)(sig r \<mapsto> c)"
proof -
  obtain bs cs where rs: "rs = bs @ r # cs" using assms(2) by (meson split_list)
  then have n: "sig r \<notin> sig ` set bs" and r: "r \<notin> set (bs @ cs)" using assms(1) by auto
  have "counts_of sig (u(r := c)) (bs @ cs) = counts_of sig u (bs @ cs)" using r by (intro counts_cong) auto
  then show ?thesis unfolding rs counts_insert [OF n refl] by simp
qed

lemma chain_distinct: "signals_ok handled z \<Longrightarrow> distinct (map (signal_of z) (chain z s))"
  using signals_okD(7) strict_sorted_iff by blast

lemma find_least: "find P [i..j] = Some n \<longleftrightarrow> P n \<and> i \<le> n \<and> n \<le> j \<and> (\<forall>m. i \<le> m \<and> m < n \<longrightarrow> \<not> P m)"
  "find P [i..j] = None \<longleftrightarrow> (\<forall>m. i \<le> m \<and> m \<le> j \<longrightarrow> \<not> P m)"
proof -
  show "find P [i..j] = None \<longleftrightarrow> (\<forall>m. i \<le> m \<and> m \<le> j \<longrightarrow> \<not> P m)" by (auto simp: find_None_iff)
  show "find P [i..j] = Some n \<longleftrightarrow> P n \<and> i \<le> n \<and> n \<le> j \<and> (\<forall>m. i \<le> m \<and> m < n \<longrightarrow> \<not> P m)"
  proof (induction "nat (j + 1 - i)" arbitrary: i)
    case 0
    then show ?case by simp
  next
    case (Suc k)
    then have e: "[i..j] = i # [i + 1..j]" by (intro upto_rec1) simp
    show ?case
    proof (cases "P i")
      case True
      then show ?thesis using Suc.hyps(2) unfolding e by (auto simp: order_le_less)
    next
      case False
      have "(\<forall>m. i \<le> m \<and> m < n \<longrightarrow> \<not> P m) \<longleftrightarrow> (\<forall>m. i + 1 \<le> m \<and> m < n \<longrightarrow> \<not> P m)"
        using False by (metis add1_zle_eq order_le_less)
      then show ?thesis using False Suc.hyps(1) [of "i + 1"] Suc.hyps(2) unfolding e
        by (auto simp: order_le_less)
    qed
  qed
qed

text \<open>The loop that looks for an undelivered signal finds the lowest.\<close>

lemma first_undelivered_arrived:
  assumes ok: "signals_ok handled z"
  shows "arrived (fst (set_view z s)) = map_option (signal_of z) (first_undelivered z (chain z s))"
proof -
  let ?u = "\<lambda>r. undelivered (registrations z r)"
  let ?P = "\<lambda>n. case fst (set_view z s) n of Some c \<Rightarrow> 0 < c | None \<Rightarrow> False"
  have P: "?P n \<longleftrightarrow> (\<exists>r\<in>set (chain z s). signal_of z r = n \<and> 0 < ?u r)" for n
    using counts_at [OF chain_distinct [OF ok, of s], of _ ?u] counts_some [of "signal_of z" ?u "chain z s" n]
    by (auto simp: set_view_def split: option.splits) 
  have first: "first_undelivered z rs = Some r \<Longrightarrow> \<exists>bs cs. rs = bs @ r # cs \<and> (\<forall>q\<in>set bs. ?u q = 0) \<and> 0 < ?u r" for rs r
  proof (induction rs)
    case (Cons a rs)
    show ?case
    proof (cases "0 < ?u a")
      case True
      then show ?thesis using Cons.prems by (intro exI [of _ "[]"] exI [of _ rs]) auto
    next
      case False
      then obtain bs cs where "rs = bs @ r # cs" "\<forall>q\<in>set bs. ?u q = 0" "0 < ?u r" using Cons by auto
      then show ?thesis using False by (intro exI [of _ "a # bs"] exI [of _ cs]) auto
    qed
  qed simp
  show ?thesis
  proof (cases "first_undelivered z (chain z s)")
    case None
    then show ?thesis using first_undelivered_cases [of "chain z s" z] by (auto simp: arrived_def find_least(2) P)
  next
    case (Some r)
    then obtain bs cs where c: "chain z s = bs @ r # cs" "\<forall>q\<in>set bs. ?u q = 0" "0 < ?u r" using first by blast
    have range: "0 \<le> signal_of z r \<and> signal_of z r < max_signal_number" using signals_okD(9) [OF ok, of r s] c(1) by simp
    have "\<not> ?P m" if m: "m < signal_of z r" for m
    proof
      assume "?P m"
      then obtain q where q: "q \<in> set (chain z s)" "signal_of z q = m" "0 < ?u q" using P by blast
      have "q \<in> set cs \<Longrightarrow> signal_of z r < signal_of z q" using signals_okD(7) [OF ok, of s] by (auto simp: c(1) sorted_wrt_append)
      then show False using q m c by auto
    qed
    moreover have "?P (signal_of z r)" using P c by auto
    ultimately have "find ?P [0..max_signal_number - 1] = Some (signal_of z r)" using range by (subst find_least(1)) auto
    then show ?thesis using Some by (simp add: arrived_def)
  qed
qed

section \<open>Requests\<close>

abbreviation sched_of :: "('o, 'w, 'k) signal_state \<Rightarrow> nat \<Rightarrow> ('o, 'w) rsched" where
  "sched_of z v \<equiv> sv_scheduler (signal_services z v)"

lemma on_scheduler_signal_of [simp]: "signal_of (on_scheduler v g z) = signal_of z"
  by (simp add: signal_of_def fun_eq_iff)

lemma on_scheduler_view [simp]: "set_view (on_scheduler v g z) t = set_view z t"
  by (simp add: set_view_def)

lemma on_scheduler_sched: "sched_of (on_scheduler v g z) u = (if u = v then g (sched_of z u) else sched_of z u)"
  by (simp add: on_scheduler_def)

lemma view_cong:
  assumes "signal_sets z' t = signal_sets z t" "\<And>r. r \<in> set (chain z t) \<Longrightarrow> registrations z' r = registrations z r"
  shows "set_view z' t = set_view z t"
  using assms by (auto simp: set_view_def signal_of_def intro: counts_cong)

lemma kernel_view [simp]: "set_view (z\<lparr>sig_kernel := k\<rparr>) t = set_view z t"
  by (rule view_cong) simp_all

lemma insert_view:
  assumes ok: "signals_ok handled z" and f: "find_signal (signal_of z) n (chain z s) = (bs, cs)"
    and new: "n \<notin> signal_of z ` set (chain z s)"
  shows "set_view (insert_registration s n bs cs (z\<lparr>sig_kernel := k\<rparr>)) t =
    (if t = s then (case set_view z s of (p, q) \<Rightarrow> (p(n \<mapsto> 0), q)) else set_view z t)"
proof -
  define z' where "z' = insert_registration s n bs cs (z\<lparr>sig_kernel := k\<rparr>)"
  let ?r = "next_registration z"
  note sel = insert_registration_sel [OF z'_def, simplified]
  have ch: "chain z s = bs @ cs" using find_signalD(1) [OF f signals_okD(7) [OF ok]] .
  have fresh: "?r \<notin> set (chain z u)" for u using signals_okD(1) [OF ok] by (auto simp: sets_ok_def)
  have same: "counts_of (signal_of z') (\<lambda>r. undelivered (registrations z' r)) rs = counts_of (signal_of z) (\<lambda>r. undelivered (registrations z r)) rs"
    if "?r \<notin> set rs" for rs using that by (intro counts_cong) (auto simp: sel)
  show ?thesis
  proof (cases "t = s")
    case True
    have r: "?r \<notin> set (bs @ cs)" using fresh [of s] ch by simp
    then have n: "n \<notin> signal_of z' ` set bs" using new ch by (auto simp: sel)
    have "counts_of (signal_of z') (\<lambda>r. undelivered (registrations z' r)) (bs @ ?r # cs)
        = (counts_of (signal_of z) (\<lambda>r. undelivered (registrations z r)) (bs @ cs))(n \<mapsto> 0)"
      unfolding counts_insert [OF n sel(10) [of ?r, simplified]] same [OF r] by (simp add: sel)
    then show ?thesis using True by (simp add: set_view_def sel(4,5) ch flip: z'_def)
  next
    case False
    then show ?thesis using same [OF fresh] by (simp add: set_view_def sel(4,5) flip: z'_def)
  qed
qed

lemma unregister_view:
  assumes ok: "signals_ok handled z" and ch: "chain z s = bs @ r # cs"
  shows "set_view (unregister s r (bs @ cs) (z\<lparr>sig_kernel := k\<rparr>)) t =
    (if t = s then (case set_view z s of (p, q) \<Rightarrow> (p(signal_of z r := None), q)) else set_view z t)"
proof -
  note sel = unregister_sel [OF refl, of s r "bs @ cs" "z\<lparr>sig_kernel := k\<rparr>", simplified]
  show ?thesis using counts_delete [OF chain_distinct [OF ok, of s, unfolded ch]] by (simp add: set_view_def sel ch)
qed

lemma add_view:
  assumes law: "sigaction_law G handled" and ok: "signals_ok handled z" and a: "signal_add G s n z = (ec, z')"
  shows "set_view z' t = (if t = s \<and> \<not> failed ec then view_request f (AddSignal n) (set_view z s) else set_view z t)"
proof -
  obtain bs cs where f: "find_signal (signal_of z) n (chain z s) = (bs, cs)" by (meson surj_pair)
  note new = find_signalD(5) [OF f signals_okD(7) [OF ok]]
  obtain res errno k where k: "sys_sigaction G n True (sig_kernel z) = (res, errno, k)" by (metis prod_cases3)
  have none: "fst (set_view z s) n = None \<longleftrightarrow> cs = [] \<or> signal_of z (hd cs) \<noteq> n"
    using new by (auto simp: set_view_def counts_none)
  have view: "set_view (insert_registration s n bs cs (z\<lparr>sig_kernel := k\<rparr>)) t =
    (if t = s then (case set_view z s of (p, q) \<Rightarrow> (p(n \<mapsto> 0), q)) else set_view z t)"
    if "cs = [] \<or> signal_of z (hd cs) \<noteq> n" for k t using insert_view [OF ok f] new that by blast
  have errno: "res = - 1 \<Longrightarrow> failed (EC errno SystemCat)" using sigaction_lawD(3) [OF law] k by (auto simp: failed_def)
  have bad: "failed (basic_ec invalid_argument)" "\<not> failed ec_success" by (simp_all add: failed_def basic_ec_def ec_success_def)
  show ?thesis using a none view [of k] view [of "sig_kernel z"] errno bad k f
    by (cases "set_view z s") (auto simp: signal_add_def Let_def split: if_splits)
qed

lemma restore_default_kernel: "restore_default G n z = (err, z') \<Longrightarrow> \<exists>k. z' = z\<lparr>sig_kernel := k\<rparr>"
  by (auto simp: restore_default_def intro: exI [of _ "sig_kernel z"] split: if_splits prod.splits)

lemma restore_default_failed:
  "sigaction_law G handled \<Longrightarrow> restore_default G n z = (Some ec, z') \<Longrightarrow> failed ec"
  by (auto simp: restore_default_def failed_def dest: sigaction_lawD(3) split: if_splits prod.splits)

lemma remove_view:
  assumes law: "sigaction_law G handled" and ok: "signals_ok handled z" and a: "signal_remove G s n z = (ec, z')"
  shows "set_view z' t = (if t = s \<and> \<not> failed ec then view_request f (RemoveSignal n) (set_view z s) else set_view z t)"
proof -
  obtain bs cs where f: "find_signal (signal_of z) n (chain z s) = (bs, cs)" by (meson surj_pair)
  note fd = find_signalD [OF f signals_okD(7) [OF ok]]
  obtain err z1 where r: "restore_default G n z = (err, z1)" by (meson surj_pair)
  then obtain k where z1: "z1 = z\<lparr>sig_kernel := k\<rparr>" using restore_default_kernel by blast
  have bad: "failed (basic_ec invalid_argument)" "\<not> failed ec_success" by (simp_all add: failed_def basic_ec_def ec_success_def)
  obtain p q where v: "set_view z s = (p, q)" by (meson surj_pair)
  show ?thesis
  proof (cases "cs \<noteq> [] \<and> signal_of z (hd cs) = n")
    case True
    then have ch: "chain z s = bs @ hd cs # tl cs" using fd(1) by simp
    show ?thesis using a f r True restore_default_failed [OF law] bad unregister_view [OF ok ch, of k t] v
      by (auto simp: signal_remove_def unregister_other_order z1 split: if_splits option.splits)
  next
    case False
    then have "p n = None" using fd(5) v by (auto simp: set_view_def counts_none)
    then have "p(n := None) = p" by (simp add: fun_upd_idem)
    then show ?thesis using a f False bad v by (auto simp: signal_remove_def split: if_splits)
  qed
qed

lemma clear_loop_view:
  assumes law: "sigaction_law G handled"
  shows "signals_ok handled z \<Longrightarrow> chain z s = rs \<Longrightarrow> clear_loop G s rs z = (ec, z') \<Longrightarrow>
    (\<forall>t. t \<noteq> s \<longrightarrow> set_view z' t = set_view z t) \<and> queued_in z' s = queued_in z s
    \<and> (if failed ec then fst (set_view z' s) \<subseteq>\<^sub>m fst (set_view z s) else fst (set_view z' s) = Map.empty)"
proof (induction rs arbitrary: z)
  case Nil
  then show ?case by (simp add: failed_def ec_success_def set_view_def counts_of_def)
next
  case (Cons r rs)
  obtain err z1 where r: "restore_default G (signal_of z r) z = (err, z1)" by (meson surj_pair)
  then obtain k where z1: "z1 = z\<lparr>sig_kernel := k\<rparr>" using restore_default_kernel by blast
  have ch: "chain z s = [] @ r # rs" using Cons.prems(2) by simp
  show ?case
  proof (cases err)
    case (Some e)
    then show ?thesis using Cons.prems(3) r restore_default_failed [OF law] by (auto simp: z1 map_le_def)
  next
    case None
    let ?z = "unregister s r ([] @ rs) z1"
    have ok: "signals_ok handled ?z" using restore_default_cases(3) [OF law Cons.prems(1) ch r] None by simp
    have c: "chain ?z s = rs" by (simp add: unregister_sel(4) [OF refl])
    have e: "clear_loop G s rs ?z = (ec, z')" using Cons.prems(3) r None by (simp add: unregister_def)
    note view = unregister_view [OF Cons.prems(1) ch, of k, folded z1]
    obtain p q where v: "set_view z s = (p, q)" by (meson surj_pair)
    have "p(signal_of z r := None) \<subseteq>\<^sub>m p" by (auto simp: map_le_def)
    moreover have "fst (set_view ?z s) = p(signal_of z r := None)" using view [of s] v by simp
    moreover have "queued_in ?z s = queued_in z s" by (simp add: unregister_sel(5) [OF refl] z1)
    ultimately show ?thesis using Cons.IH [OF ok c e] view v by (auto intro: map_le_trans split: if_splits)
  qed
qed

lemma empty_queue_view:
  "set_view (upd_set s (\<lambda>x. x\<lparr>ss_queue := q'\<rparr>) (z\<lparr>sop_ec := f, sop_signal := g\<rparr>)) t
    = (if t = s then (fst (set_view z s), q') else set_view z t)"
  by (auto simp: set_view_def signal_of_def intro: counts_cong)

lemma cancel_view:
  assumes "signal_cancel s z = (ec, z')"
  shows "set_view z' t = (if t = s then view_request f CancelWaits (set_view z s) else set_view z t)" "ec = ec_success"
    "sop_ec z' = (\<lambda>x. if x \<in> set (queued_in z s) then basic_ec operation_aborted else sop_ec z x)"
    "sched_of z' v = (if v = owner z s then post_deferred_completions (map Operation (queued_in z s)) (sched_of z v) else sched_of z v)"
  using assms empty_queue_view [where z = z and g = "sop_signal z" and s = s and t = t and q' = "[]"]
  by (cases "set_view z s"; auto simp: signal_cancel_def abort_signal_ops_eq Let_def on_scheduler_sched)+

lemma cancel_key_view:
  assumes "z' = signal_op_cancellation s key ct z"
  shows "set_view z' t = (if t = s then view_request (sop_key z) (CancelKey key ct) (set_view z s) else set_view z t)"
    "ct AND 7 \<noteq> 0 \<Longrightarrow> sop_ec z' = (\<lambda>x. if x \<in> set (queued_in z s) \<and> sop_key z x = key then basic_ec operation_aborted else sop_ec z x)"
    "sched_of z' v = (if v = owner z s \<and> ct AND 7 \<noteq> 0
       then post_deferred_completions (map Operation (filter (\<lambda>x. sop_key z x = key) (queued_in z s))) (sched_of z v) else sched_of z v)"
  using assms empty_queue_view [where z = z and g = "sop_signal z" and s = s and t = t
    and q' = "filter (\<lambda>x. sop_key z x \<noteq> key) (queued_in z s)"]
  by (cases "set_view z s"; auto simp: signal_op_cancellation_def signal_cancel_by_key_def signal_split_by_key_eq Let_def
    on_scheduler_sched set_view_def)+

lemma post_one: "post_deferred_completion x q = post_deferred_completions [x] q"
  by (simp add: post_deferred_completion_def post_deferred_completions_def)

lemma fresh_op_ok:
  assumes "signals_ok handled z"
  shows "signals_ok handled (z\<lparr>sop_ec := a, sop_signal := b, sop_key := c\<rparr>)"
  by (rule frame [OF assms]) (simp_all add: registry_def signals_okD(6) [OF assms] fun_eq_iff)

lemma undelivered_view:
  assumes ok: "signals_ok handled z" and r: "r \<in> set (chain z s)"
  shows "set_view (upd_reg r (\<lambda>g. g\<lparr>undelivered := c\<rparr>) z) t =
    (if t = s then (case set_view z s of (p, q) \<Rightarrow> (p(signal_of z r \<mapsto> c), q)) else set_view z t)"
proof -
  let ?z = "upd_reg r (\<lambda>g. g\<lparr>undelivered := c\<rparr>) z"
  have sig: "signal_of ?z = signal_of z" by (simp add: signal_of_def fun_eq_iff)
  have u: "(\<lambda>q. undelivered (registrations ?z q)) = (\<lambda>q. undelivered (registrations z q))(r := c)" by (simp add: fun_eq_iff)
  show ?thesis
  proof (cases "t = s")
    case True
    then show ?thesis unfolding set_view_def sig u by (simp add: counts_change [OF chain_distinct [OF ok] r])
  next
    case False
    then have "r \<notin> set (chain z t)" using signals_okD(8) [OF ok] r by blast
    then have "set_view ?z t = set_view z t" by (intro view_cong) auto
    then show ?thesis using False by simp
  qed
qed

text \<open>\<open>start_wait_op\<close> after its first step, \<open>work_started\<close>.\<close>

lemma wait_some:
  assumes ok: "signals_ok handled y" and f: "first_undelivered y (chain y s) = Some r"
    and z': "z' = on_scheduler v (post_deferred_completion (Operation x))
      ((upd_reg r (\<lambda>g. g\<lparr>undelivered := undelivered g - 1\<rparr>) y)\<lparr>sop_signal := sg\<rparr>)"
  shows "set_view z' t = (if t = s then view_request key_of (WaitSignal x slot) (set_view y s) else set_view y t)"
    "arrived (fst (set_view y s)) = Some (signal_of y r)" "sop_ec z' = sop_ec y" "sop_signal z' = sg"
    "sched_of z' u = (if u = v then post_deferred_completions [Operation x] (sched_of y u) else sched_of y u)"
proof -
  let ?c = "undelivered (registrations y r) - 1"
  define y1 where "y1 = upd_reg r (\<lambda>g. g\<lparr>undelivered := ?c\<rparr>) y"
  have y1: "upd_reg r (\<lambda>g. g\<lparr>undelivered := undelivered g - 1\<rparr>) y = y1" by (simp add: y1_def upd_reg_def)
  obtain p q where pq: "set_view y s = (p, q)" by (meson surj_pair)
  have r: "r \<in> set (chain y s)" using first_undelivered_cases [of "chain y s" y] f by simp
  have "p (signal_of y r) = Some (undelivered (registrations y r))"
    using counts_at [OF chain_distinct [OF ok] r] pq by (auto simp: set_view_def)
  moreover show arr: "arrived (fst (set_view y s)) = Some (signal_of y r)" using first_undelivered_arrived [OF ok, of s] f by simp
  moreover have "set_view y1 t = (if t = s then (p(signal_of y r \<mapsto> ?c), q) else set_view y t)"
    using undelivered_view [OF ok r, of ?c t] pq by (simp add: y1_def)
  moreover have "set_view z' t = set_view y1 t" unfolding z' y1 on_scheduler_view by (rule view_cong) simp_all
  ultimately show "set_view z' t = (if t = s then view_request key_of (WaitSignal x slot) (set_view y s) else set_view y t)"
    by (simp add: pq)
  show "sop_ec z' = sop_ec y" "sop_signal z' = sg"
    "sched_of z' u = (if u = v then post_deferred_completions [Operation x] (sched_of y u) else sched_of y u)"
    unfolding z' y1 by (simp_all add: y1_def on_scheduler_sched post_one)
qed

lemma wait_none:
  assumes ok: "signals_ok handled y" and f: "first_undelivered y (chain y s) = None"
    and z': "z' = upd_set s (\<lambda>g. g\<lparr>ss_queue := ss_queue g @ [x]\<rparr>) y"
  shows "set_view z' t = (if t = s then view_request key_of (WaitSignal x slot) (set_view y s) else set_view y t)"
    "arrived (fst (set_view y s)) = None" "sop_ec z' = sop_ec y" "sop_signal z' = sop_signal y" "signal_services z' = signal_services y"
proof -
  show arr: "arrived (fst (set_view y s)) = None" using first_undelivered_arrived [OF ok, of s] f by simp
  have "set_view z' t = (if t = s then (fst (set_view y s), snd (set_view y s) @ [x]) else set_view y t)"
    by (auto simp: z' set_view_def signal_of_def intro: counts_cong)
  then show "set_view z' t = (if t = s then view_request key_of (WaitSignal x slot) (set_view y s) else set_view y t)"
    using arr by (cases "set_view y s") simp
qed (simp_all add: z')

lemma async_wait_view:
  assumes ok: "signals_ok handled z" and z': "z' = signal_async_wait s x slot z"
  shows "set_view z' t = (if t = s then view_request f (WaitSignal x slot) (set_view z s) else set_view z t)"
    "sop_ec z' = (sop_ec z)(x := ec_success)"
    "sop_signal z' = (sop_signal z)(x := case arrived (fst (set_view z s)) of Some n \<Rightarrow> n | None \<Rightarrow> 0)"
    "sched_of z' v = (if v = owner z s then post_deferred_completions (map (Operation \<circ> fst) (view_completes f (WaitSignal x slot) (set_view z s)))
       (work_started (sched_of z v)) else sched_of z v)"
proof -
  define z1 where "z1 = z\<lparr>sop_ec := (sop_ec z)(x := ec_success), sop_signal := (sop_signal z)(x := 0),
    sop_key := (sop_key z)(x := case slot of Some key \<Rightarrow> key | None \<Rightarrow> 0)\<rparr>"
  define y where "y = on_scheduler (owner z s) work_started z1"
  have ok2: "signals_ok handled y" using fresh_op_ok [OF ok] by (simp add: z1_def y_def on_scheduler_ok)
  have view: "set_view y u = set_view z u" for u by (auto simp: y_def z1_def intro: view_cong)
  have sel: "sop_ec y = (sop_ec z)(x := ec_success)" "sop_signal y = (sop_signal z)(x := 0)" "signal_of z1 = signal_of y"
    "sched_of y v = (if v = owner z s then work_started (sched_of z v) else sched_of z v)" "owner z1 s = owner z s"
    "sop_signal z1 = sop_signal y" for v
    by (simp_all add: y_def z1_def on_scheduler_sched)
  have z1: "z' = start_wait_op s x z1" by (simp add: z' signal_async_wait_def z1_def)
  note w = start_wait_op_eq [of y z1 s x, unfolded sel(3,5,6), OF y_def, folded z1]
  have "set_view z' t = (if t = s then view_request f (WaitSignal x slot) (set_view z s) else set_view z t)
    \<and> sop_ec z' = (sop_ec z)(x := ec_success)
    \<and> sop_signal z' = (sop_signal z)(x := case arrived (fst (set_view z s)) of Some n \<Rightarrow> n | None \<Rightarrow> 0)
    \<and> sched_of z' v = (if v = owner z s then post_deferred_completions (map (Operation \<circ> fst) (view_completes f (WaitSignal x slot) (set_view z s)))
       (work_started (sched_of z v)) else sched_of z v)"
  proof (cases "first_undelivered y (chain y s)")
    case None
    note eq = w [unfolded None option.case]
    note wait_none(1) [OF ok2 None eq, where key_of = f and slot = slot and t = t] wait_none(2-) [OF ok2 None eq]
    then show ?thesis using sel view by (cases "set_view z s") (simp add: post_deferred_completions_def)
  next
    case (Some r)
    note eq = w [unfolded Some option.case]
    note wait_some(1) [OF ok2 Some eq, where key_of = f and slot = slot and t = t] wait_some(2-) [OF ok2 Some eq]
    then show ?thesis using sel view by (cases "set_view z s") simp
  qed
  then show "set_view z' t = (if t = s then view_request f (WaitSignal x slot) (set_view z s) else set_view z t)"
    "sop_ec z' = (sop_ec z)(x := ec_success)"
    "sop_signal z' = (sop_signal z)(x := case arrived (fst (set_view z s)) of Some n \<Rightarrow> n | None \<Rightarrow> 0)"
    "sched_of z' v = (if v = owner z s then post_deferred_completions (map (Operation \<circ> fst) (view_completes f (WaitSignal x slot) (set_view z s)))
       (work_started (sched_of z v)) else sched_of z v)" by simp_all
qed

lemma registering_sched:
  "signal_add G s n z = (ec, z') \<Longrightarrow> sched_of z' v = sched_of z v"
  "signal_remove G s n z = (ec, z') \<Longrightarrow> sched_of z' v = sched_of z v"
  "clear_loop G s rs z = (ec, z') \<Longrightarrow> sched_of z' v = sched_of z v"
proof -
  have ins: "sched_of (insert_registration s n bs cs z) v = sched_of z v" for bs cs z
    by (simp add: insert_registration_def Let_def)
  have un: "sched_of (unregister s r rs z) v = sched_of z v" for r rs z
    by (simp add: unregister_def drop_registration_def Let_def)
  show "signal_add G s n z = (ec, z') \<Longrightarrow> sched_of z' v = sched_of z v"
    by (auto simp: signal_add_def Let_def ins split: if_splits prod.splits)
  show "signal_remove G s n z = (ec, z') \<Longrightarrow> sched_of z' v = sched_of z v"
    by (auto simp: signal_remove_def un unregister_other_order dest!: restore_default_kernel split: if_splits prod.splits option.splits)
  show "clear_loop G s rs z = (ec, z') \<Longrightarrow> sched_of z' v = sched_of z v"
  proof (induction rs arbitrary: z)
    case (Cons r rs)
    obtain err z1 where r: "restore_default G (signal_of z r) z = (err, z1)" by (meson surj_pair)
    then have "signal_services z1 = signal_services z" using restore_default_kernel by fastforce
    then show ?case using Cons.prems Cons.IH un [of r rs z1] r by (cases err) (simp_all add: unregister_def)
  qed simp
qed

text \<open>C30: The operations of a signal set refine operations on a finite map and a queue. In every history a request
  changes the abstract state of its own set alone and as specified: adding registers a signal with nothing
  undelivered, removing forgets what was undelivered, waiting takes the lowest signal that arrived or queues
  the operation, cancelling empties the queue or drops the operations with the key. The completed operations, with
  their results, go to the scheduler of the set's service at once and in order, those that wait count as its work. A
  failed request changes nothing, except that a failed \<open>clear\<close> may have unregistered some signals.\<close>

theorem signal_set_requests_refine:
  assumes law: "sigaction_law G handled" and start: "no_signals handled z0" and h: "signal_history G E z0 z"
    and r: "do_request G s req z = (ec, z')"
  shows "(if failed ec then fst (set_view z' s) \<subseteq>\<^sub>m fst (set_view z s) \<and> snd (set_view z' s) = snd (set_view z s)
            \<and> (req = ClearSignals \<or> set_view z' s = set_view z s)
          else set_view z' s = view_request (sop_key z) req (set_view z s))
    \<and> (\<forall>t. t \<noteq> s \<longrightarrow> set_view z' t = set_view z t)
    \<and> (\<forall>(x, e, sig) \<in> set (view_completes (sop_key z) req (set_view z s)). sop_ec z' x = e \<and> (case sig of Some n \<Rightarrow> sop_signal z' x = n | None \<Rightarrow> True))
    \<and> (\<forall>v. sched_of z' v =
         (if v = owner z s
          then post_deferred_completions (map (Operation \<circ> fst) (view_completes (sop_key z) req (set_view z s)))
                 ((case req of WaitSignal _ _ \<Rightarrow> work_started | _ \<Rightarrow> (\<lambda>q. q)) (sched_of z v))
          else sched_of z v))"
proof -
  have ok: "signals_ok handled z" using signal_history_ok [OF law h] no_signals_ok [OF start] .
  obtain p q where v: "set_view z s = (p, q)" by (meson surj_pair)
  have q: "queued_in z s = q" using v by (simp add: set_view_def)
  have good: "\<not> failed ec_success" by (simp add: failed_def ec_success_def)
  show ?thesis
  proof (cases req)
    case (AddSignal n)
    then have a: "signal_add G s n z = (ec, z')" using r by simp
    note view = add_view [OF law ok a, where f = "sop_key z"]
    show ?thesis using view registering_sched(1) [OF a] AddSignal v by (auto simp: post_deferred_completions_def)
  next
    case (RemoveSignal n)
    then have a: "signal_remove G s n z = (ec, z')" using r by simp
    note view = remove_view [OF law ok a, where f = "sop_key z"]
    show ?thesis using view registering_sched(2) [OF a] RemoveSignal v by (auto simp: post_deferred_completions_def)
  next
    case ClearSignals
    then have a: "clear_loop G s (chain z s) z = (ec, z')" using r by (simp add: signal_clear_def)
    note view = clear_loop_view [OF law ok refl a]
    have "snd (set_view z' s) = snd (set_view z s)" using view by (simp add: set_view_def)
    then show ?thesis using view registering_sched(3) [OF a] ClearSignals v
      by (cases "set_view z' s") (auto simp: post_deferred_completions_def)
  next
    case CancelWaits
    then have a: "signal_cancel s z = (ec, z')" using r by simp
    note view = cancel_view(1) [OF a, where f = "sop_key z"] cancel_view(2-4) [OF a]
    show ?thesis using view CancelWaits v q good by (auto simp: comp_def)
  next
    case (CancelKey key ct)
    then have a: "z' = signal_op_cancellation s key ct z" "ec = ec_success" using r by simp_all
    note view = cancel_key_view [OF a(1)]
    show ?thesis using view CancelKey v q good a(2) by (auto simp: comp_def post_deferred_completions_def)
  next
    case (WaitSignal x slot)
    then have a: "z' = signal_async_wait s x slot z" "ec = ec_success" using r by simp_all
    note view = async_wait_view(1,4) [OF ok a(1), where f = "sop_key z"] async_wait_view(2,3) [OF ok a(1)]
    show ?thesis using view WaitSignal v good a(2) by (auto split: option.splits)
  qed
qed

text \<open>The sets of \<open>two_sets\<close>.\<close>

lemma sig_os_add: "0 \<le> n \<Longrightarrow> n < max_signal_number \<Longrightarrow> fst (signal_add sig_os s n z) = ec_success"
  by (auto simp: signal_add_def sig_os_def Let_def split: prod.splits)

lemma add_owner: "owner (snd (signal_add G s n z)) t = owner z t" "service_list (snd (signal_add G s n z)) = service_list z"
  by (auto simp: signal_add_def Let_def insert_registration_def split: prod.splits)

lemma wait_owner: "owner (signal_async_wait s x slot z) t = owner z t" "service_list (signal_async_wait s x slot z) = service_list z"
  by (auto simp: signal_async_wait_def Let_def start_wait_op_def on_scheduler_def split: option.splits)

lemma one_service_sets: "owner one_service 3 = 0" "owner one_service 7 = 0" "set_view one_service 3 = (Map.empty, [])"
  "set_view one_service 7 = (Map.empty, [])" "service_list one_service = [0]"
proof -
  show "owner one_service 3 = 0" "owner one_service 7 = 0" "set_view one_service 3 = (Map.empty, [])" "set_view one_service 7 = (Map.empty, [])"
    by (simp_all add: one_service_def signal_construct_def set_view_def counts_of_def)
  show "service_list one_service = [0]"
    by (simp add: one_service_def signal_construct_def new_signal_service_def add_service_def open_descriptors_def sig_os_def Let_def
      sig_start_def watch_quiet)
qed

lemma two_sets_views: "owner two_sets 3 = 0" "owner two_sets 7 = 0" "service_list two_sets = [0]"
  "set_view two_sets 3 = ([2 \<mapsto> 0], [8])" "set_view two_sets 7 = ([2 \<mapsto> 0], [])"
proof -
  show "owner two_sets 3 = 0" "owner two_sets 7 = 0" "service_list two_sets = [0]"
    by (simp_all only: two_sets_def wait_owner add_owner one_service_sets)
  let ?a = "snd (signal_add sig_os 3 2 one_service)"
  let ?b = "snd (signal_add sig_os 7 2 ?a)"
  have ok: "signals_ok (\<lambda>k. k) z" if "signal_history sig_os idle_os one_service z" for z
    using signal_history_ok [OF sig_os_law, of idle_os sig_start z] one_service_history that no_signals_ok [OF sig_start_none]
    by (meson rtranclp_trans)
  have good: "fst (signal_add sig_os s 2 z) = ec_success" "\<not> failed ec_success"
    for s and z :: "(nat, unit, int \<Rightarrow> bool) signal_state" by (simp_all add: sig_os_add max_signal_number_def failed_def ec_success_def)
  have step: "signal_history sig_os idle_os one_service ?a" "signal_history sig_os idle_os one_service ?b"
    by (blast intro: Add rtranclp.rtrancl_into_rtrancl rtranclp.rtrancl_refl)+
  have a: "set_view ?a 3 = ([2 \<mapsto> 0], [])" "set_view ?a 7 = (Map.empty, [])"
    using add_view [OF sig_os_law ok [OF rtranclp.rtrancl_refl] surjective_pairing, where s = 3 and n = 2 and f = "\<lambda>_. 0"] good by (simp_all add: one_service_sets)
  have b: "set_view ?b 3 = ([2 \<mapsto> 0], [])" "set_view ?b 7 = ([2 \<mapsto> 0], [])"
    using add_view [OF sig_os_law ok [OF step(1)] surjective_pairing, where s = 7 and n = 2 and f = "\<lambda>_. 0"] good by (simp_all add: a)
  have none: "arrived [2 \<mapsto> 0] = None" by (simp add: arrived_def find_None_iff)
  show "set_view two_sets 3 = ([2 \<mapsto> 0], [8])" "set_view two_sets 7 = ([2 \<mapsto> 0], [])"
    using async_wait_view(1) [OF ok [OF step(2)] two_sets_def, where f = "\<lambda>_. 0"] b none by simp_all
qed

theorem signal_set_requests_refine_witness:
  "set_view (snd (do_request sig_os 3 CancelWaits two_sets)) 3 = ([2 \<mapsto> 0], [])
    \<and> sop_ec (snd (do_request sig_os 3 CancelWaits two_sets)) 8 = basic_ec operation_aborted"
proof -
  have "\<not> failed (fst (do_request sig_os 3 CancelWaits two_sets))"
    by (simp add: signal_cancel_def Let_def failed_def ec_success_def split: prod.splits)
  then show ?thesis
    using signal_set_requests_refine [OF sig_os_law sig_start_none two_sets_history surjective_pairing, of 3 CancelWaits]
    by (simp add: two_sets_views)
qed

section \<open>Delivery\<close>

text \<open>The loop over the registrations of one service, as long as no two of them are of the same set.\<close>

lemma deliver_loop_eq:
  "distinct (map (set_of_reg z) rs) \<Longrightarrow> deliver_loop n rs ops z = (ops', z') \<Longrightarrow>
     ops' = ops @ concat (map (queue_of_reg z) rs)
     \<and> registrations z' = (\<lambda>r. if r \<in> set rs \<and> queue_of_reg z r = []
          then (registrations z r)\<lparr>undelivered := undelivered (registrations z r) + 1\<rparr> else registrations z r)
     \<and> signal_sets z' = (\<lambda>s. if s \<in> set_of_reg z ` set rs then (signal_sets z s)\<lparr>ss_queue := []\<rparr> else signal_sets z s)
     \<and> sop_signal z' = (\<lambda>x. if \<exists>r\<in>set rs. x \<in> set (queue_of_reg z r) then n else sop_signal z x)
     \<and> signal_services z' = signal_services z \<and> service_list z' = service_list z"
proof (induction n rs ops z rule: deliver_loop.induct)
  case (2 n r rs ops z)
  let ?s = "set_of_reg z r"
  have d: "distinct (map (set_of_reg z) rs)" "\<And>q. q \<in> set rs \<Longrightarrow> set_of_reg z q \<noteq> ?s"
    using 2(3) by (simp_all add: image_iff) metis
  have r: "r \<notin> set rs" using d(2) by blast
  show ?case
  proof (cases "queue_of_reg z r = []")
    case True
    define y where "y = upd_reg r (\<lambda>g. g\<lparr>undelivered := undelivered g + 1\<rparr>) z"
    have sel: "registrations y = (registrations z)(r := (registrations z r)\<lparr>undelivered := undelivered (registrations z r) + 1\<rparr>)"
      "signal_sets y = signal_sets z" "sop_signal y = sop_signal z" "signal_services y = signal_services z" "service_list y = service_list z"
      by (simp_all add: y_def)
    have set: "(\<lambda>q. set_of_reg y q) = (\<lambda>q. set_of_reg z q)" by (auto simp: sel(1))
    then have q: "queue_of_reg y = queue_of_reg z" by (simp add: queue_of_reg_def fun_eq_iff sel(2))
    have "deliver_loop n rs ops y = (ops', z')" using 2(4) True by (simp add: y_def)
    note IH = 2(1) [OF True, folded y_def, unfolded q set, OF d(1) this]
    have e: "(signal_sets z ?s)\<lparr>ss_queue := []\<rparr> = signal_sets z ?s" using True by (simp add: queue_of_reg_def)
    show ?thesis using IH True r e by (auto simp: sel fun_eq_iff)
  next
    case False
    let ?z = "upd_set ?s (\<lambda>x. x\<lparr>ss_queue := []\<rparr>) (z\<lparr>sop_signal := \<lambda>x. if x \<in> set (queue_of_reg z r) then n else sop_signal z x\<rparr>)"
    have g: "(ops @ queue_of_reg z r, sop_signal ?z) = give_signal n (queue_of_reg z r) ops (sop_signal z)"
      by (simp add: give_signal_eq)
    have q: "queue_of_reg ?z q = (if set_of_reg z q = ?s then [] else queue_of_reg z q)" for q by (simp add: queue_of_reg_def)
    have same: "map (queue_of_reg ?z) rs = map (queue_of_reg z) rs" using d(2) by (simp add: q)
    have "deliver_loop n rs (ops @ queue_of_reg z r) ?z = (ops', z')" using 2(4) False by (simp add: give_signal_eq)
    then have "ops' = (ops @ queue_of_reg z r) @ concat (map (queue_of_reg ?z) rs)
     \<and> registrations z' = (\<lambda>r. if r \<in> set rs \<and> queue_of_reg ?z r = []
          then (registrations ?z r)\<lparr>undelivered := undelivered (registrations ?z r) + 1\<rparr> else registrations ?z r)
     \<and> signal_sets z' = (\<lambda>s. if s \<in> set_of_reg ?z ` set rs then (signal_sets ?z s)\<lparr>ss_queue := []\<rparr> else signal_sets ?z s)
     \<and> sop_signal z' = (\<lambda>x. if \<exists>r\<in>set rs. x \<in> set (queue_of_reg ?z r) then n else sop_signal ?z x)
     \<and> signal_services z' = signal_services ?z \<and> service_list z' = service_list ?z"
      using 2(2) [OF False g] d(1) by simp
    then show ?thesis unfolding same using d(2) False by (auto simp: q fun_eq_iff)
  qed
qed simp

text \<open>In the table of a service every registration of a signal is of another set.\<close>

lemma table_sets:
  assumes ok: "signals_ok handled z"
  shows "distinct (map (set_of_reg z) (table_at z v n))"
    "set (map (set_of_reg z) (table_at z v n)) = {s. owner z s = v \<and> fst (set_view z s) n \<noteq> None}"
    "r \<in> set (table_at z v n) \<Longrightarrow> r \<in> set (chain z (set_of_reg z r)) \<and> signal_of z r = n \<and> owner z (set_of_reg z r) = v"
    "r \<in> set (chain z s) \<Longrightarrow> owner z s = v \<Longrightarrow> signal_of z r = n \<Longrightarrow> r \<in> set (table_at z v n)"
proof -
  have t: "distinct (table_at z v n)" "set (table_at z v n) = {r \<in> live_at z n. owner z (set_of_reg z r) = v}"
    using signals_okD(2) [OF ok] by (simp_all add: tables_ok_def)
  have mem: "r \<in> set (table_at z v n) \<longleftrightarrow> r \<in> set (chain z (set_of_reg z r)) \<and> signal_of z r = n \<and> owner z (set_of_reg z r) = v" for r
    using t(2) by (auto simp: live_at_def)
  have into: "r \<in> set (chain z s) \<Longrightarrow> owner z s = v \<Longrightarrow> signal_of z r = n \<Longrightarrow> r \<in> set (table_at z v n)" for r s
    using mem signals_okD(8) [OF ok] by blast
  have "inj_on (set_of_reg z) (set (table_at z v n))"
  proof (rule inj_onI)
    fix a b assume ab: "a \<in> set (table_at z v n)" "b \<in> set (table_at z v n)" "set_of_reg z a = set_of_reg z b"
    have "inj_on (signal_of z) (set (chain z (set_of_reg z a)))" using chain_distinct [OF ok] by (simp add: distinct_map)
    then show "a = b" using ab mem by (auto dest: inj_onD)
  qed
  then show "distinct (map (set_of_reg z) (table_at z v n))" using t(1) by (simp add: distinct_map)
  show "set (map (set_of_reg z) (table_at z v n)) = {s. owner z s = v \<and> fst (set_view z s) n \<noteq> None}"
  proof (intro set_eqI iffI)
    fix s assume "s \<in> set (map (set_of_reg z) (table_at z v n))"
    then obtain r where "r \<in> set (table_at z v n)" "s = set_of_reg z r" by auto
    then show "s \<in> {s. owner z s = v \<and> fst (set_view z s) n \<noteq> None}" using mem [of r] by (auto simp: set_view_def counts_none)
  next
    fix s assume s: "s \<in> {s. owner z s = v \<and> fst (set_view z s) n \<noteq> None}"
    then obtain r where r: "r \<in> set (chain z s)" "signal_of z r = n" unfolding set_view_def fst_conv counts_none by blast
    then have "r \<in> set (table_at z v n)" using into s by blast
    then show "s \<in> set (map (set_of_reg z) (table_at z v n))" using signals_okD(8) [OF ok r(1)] by force
  qed
  show "r \<in> set (table_at z v n) \<Longrightarrow> r \<in> set (chain z (set_of_reg z r)) \<and> signal_of z r = n \<and> owner z (set_of_reg z r) = v"
    using mem by blast
  show "r \<in> set (chain z s) \<Longrightarrow> owner z s = v \<Longrightarrow> signal_of z r = n \<Longrightarrow> r \<in> set (table_at z v n)" by (rule into)
qed

text \<open>A set after the loop: its registration of the signal, if it has one, was counted up or its queue was emptied.\<close>

lemma deliver_loop_view:
  assumes ok: "signals_ok handled z" and l: "deliver_loop n (table_at z v n) [] z = (ops, z1)"
  shows "set_view z1 t = (if owner z t = v then view_deliver n (set_view z t) else set_view z t)"
proof -
  let ?rs = "table_at z v n"
  note ts = table_sets [OF ok] and e = deliver_loop_eq [OF table_sets(1) [OF ok] l]
  have img: "t \<in> set_of_reg z ` set ?rs \<longleftrightarrow> owner z t = v \<and> fst (set_view z t) n \<noteq> None" using ts(2) [of v n] by auto
  have sig: "signal_of z1 = signal_of z" by (simp add: signal_of_def fun_eq_iff e)
  obtain p q where pq: "set_view z t = (p, q)" by (meson surj_pair)
  have q: "queued_in z t = q" using pq by (simp add: set_view_def)
  let ?u = "\<lambda>r. undelivered (registrations z r)" and ?u1 = "\<lambda>r. undelivered (registrations z1 r)"
  have p: "p = counts_of (signal_of z) ?u (chain z t)" using pq by (simp add: set_view_def)
  show ?thesis
  proof (cases "owner z t = v \<and> p n \<noteq> None")
    case True
    then obtain r where r: "r \<in> set (chain z t)" "signal_of z r = n" unfolding p counts_none by blast
    have rt: "r \<in> set ?rs" using ts(4) r True by blast
    have pn: "p n = Some (?u r)" using counts_at [OF chain_distinct [OF ok] r(1)] r(2) by (simp add: p)
    have only: "a = r" if "a \<in> set (chain z t)" "a \<in> set ?rs" for a
      using inj_onD [of "signal_of z" "set (chain z t)" a r] chain_distinct [OF ok, of t] that r ts(3) [of a v n]
      by (simp add: distinct_map)
    have qr: "queue_of_reg z r = q" using signals_okD(8) [OF ok r(1)] q by (simp add: queue_of_reg_def)
    have "?u1 a = (if q = [] then ?u(r := ?u r + 1) else ?u) a" if "a \<in> set (chain z t)" for a
      using only [OF that] rt qr e by (cases "a = r") auto
    then have "counts_of (signal_of z) ?u1 (chain z t) = counts_of (signal_of z) (if q = [] then ?u(r := ?u r + 1) else ?u) (chain z t)"
      by (intro counts_cong) simp
    then have "counts_of (signal_of z) ?u1 (chain z t) = (if q = [] then p(n \<mapsto> ?u r + 1) else p)"
      using counts_change [OF chain_distinct [OF ok] r(1), of ?u] r(2) by (simp add: p)
    then show ?thesis using True pq pn img e by (simp add: set_view_def sig)
  next
    case False
    then have "a \<notin> set ?rs" if "a \<in> set (chain z t)" for a
      using that ts(3) [of a v n] signals_okD(8) [OF ok that] pq unfolding p counts_none by auto
    then have "counts_of (signal_of z) ?u1 (chain z t) = p" unfolding p using e by (intro counts_cong) simp
    then show ?thesis using False pq img q e by (auto simp: set_view_def sig split: option.splits)
  qed
qed

lemma deliver_to_service_view:
  assumes ok: "signals_ok handled z" and z': "z' = deliver_to_service n v z"
  shows "set_view z' t = (if owner z t = v then view_deliver n (set_view z t) else set_view z t)"
    "owner z' t = owner z t" "service_list z' = service_list z" "table_at z' u = table_at z u" "set_of_reg z' r = set_of_reg z r"
    "sop_signal z' = (\<lambda>x. if \<exists>s. owner z s = v \<and> fst (set_view z s) n \<noteq> None \<and> x \<in> set (queued_in z s) then n else sop_signal z x)"
    "sched_of z' u = (if u = v then post_deferred_completions (map Operation (concat (map (queue_of_reg z) (table_at z v n)))) (sched_of z v)
       else sched_of z u)"
    "queued_in z' s = (if owner z s = v \<and> fst (set_view z s) n \<noteq> None then [] else queued_in z s)"
proof -
  let ?rs = "table_at z v n"
  obtain ops z1 where l: "deliver_loop n ?rs [] z = (ops, z1)" by (meson surj_pair)
  note e = deliver_loop_eq [OF table_sets(1) [OF ok] l]
  have img: "s \<in> set_of_reg z ` set ?rs \<longleftrightarrow> owner z s = v \<and> fst (set_view z s) n \<noteq> None" for s
    using table_sets(2) [OF ok, of v n] by auto
  have zz: "z' = on_scheduler v (post_deferred_completions (map Operation ops)) z1" by (simp add: z' deliver_to_service_def l)
  show "set_view z' t = (if owner z t = v then view_deliver n (set_view z t) else set_view z t)"
    using deliver_loop_view [OF ok l] by (simp add: zz)
  show "owner z' t = owner z t" "service_list z' = service_list z" "table_at z' u = table_at z u" "set_of_reg z' r = set_of_reg z r"
    by (simp_all add: zz e)
  show "queued_in z' s = (if owner z s = v \<and> fst (set_view z s) n \<noteq> None then [] else queued_in z s)"
    by (simp add: zz e img del: not_None_eq)
  show "sched_of z' u = (if u = v then post_deferred_completions (map Operation (concat (map (queue_of_reg z) (table_at z v n)))) (sched_of z v)
       else sched_of z u)" by (simp add: zz on_scheduler_sched e)
  have "(\<exists>r\<in>set ?rs. x \<in> set (queue_of_reg z r)) \<longleftrightarrow> (\<exists>s. s \<in> set_of_reg z ` set ?rs \<and> x \<in> set (queued_in z s))" for x
    by (auto simp: queue_of_reg_def)
  then show "sop_signal z' = (\<lambda>x. if \<exists>s. owner z s = v \<and> fst (set_view z s) n \<noteq> None \<and> x \<in> set (queued_in z s) then n else sop_signal z x)"
    unfolding img by (simp add: zz e)
qed

lemma deliver_services:
  assumes "signals_ok handled z" "distinct vs" "z' = fold (deliver_to_service n) vs z"
  shows "set_view z' t = (if owner z t \<in> set vs then view_deliver n (set_view z t) else set_view z t)"
    "sop_signal z' = (\<lambda>x. if \<exists>s. owner z s \<in> set vs \<and> fst (set_view z s) n \<noteq> None \<and> x \<in> set (queued_in z s) then n else sop_signal z x)"
    "sched_of z' u = (if u \<in> set vs then post_deferred_completions (map Operation (concat (map (queue_of_reg z) (table_at z u n)))) (sched_of z u)
       else sched_of z u)"
proof -
  have "(\<forall>t. set_view z' t = (if owner z t \<in> set vs then view_deliver n (set_view z t) else set_view z t))
    \<and> sop_signal z' = (\<lambda>x. if \<exists>s. owner z s \<in> set vs \<and> fst (set_view z s) n \<noteq> None \<and> x \<in> set (queued_in z s) then n else sop_signal z x)
    \<and> (\<forall>u. sched_of z' u = (if u \<in> set vs
         then post_deferred_completions (map Operation (concat (map (queue_of_reg z) (table_at z u n)))) (sched_of z u) else sched_of z u))"
    using assms
  proof (induction vs arbitrary: z)
    case (Cons v vs)
    define y where "y = deliver_to_service n v z"
    note step = deliver_to_service_view [OF Cons.prems(1) y_def]
    have v: "v \<notin> set vs" and d: "distinct vs" using Cons.prems(2) by auto
    have ok: "signals_ok handled y" unfolding y_def by (rule deliver_to_service_ok [OF Cons.prems(1)])
    have "z' = fold (deliver_to_service n) vs y" using Cons.prems(3) by (simp add: y_def)
    note IH = Cons.IH [OF ok d this]
    have "queue_of_reg y r = queue_of_reg z r" if "r \<in> set (table_at z u n)" "u \<noteq> v" for r u
      using table_sets(3) [OF Cons.prems(1) that(1)] that(2) step(8) [of "set_of_reg z r"] by (simp add: queue_of_reg_def step(5))
    then have q: "map (queue_of_reg y) (table_at z u n) = map (queue_of_reg z) (table_at z u n)" if "u \<noteq> v" for u
      using that by simp
    have none: "owner z s \<noteq> v \<Longrightarrow> queued_in y s = queued_in z s \<and> fst (set_view y s) = fst (set_view z s)" for s
      by (simp add: step(1,8))
    have "(\<exists>s. owner z s \<in> set vs \<and> fst (set_view y s) n \<noteq> None \<and> x \<in> set (queued_in y s))
        \<longleftrightarrow> (\<exists>s. owner z s \<in> set vs \<and> fst (set_view z s) n \<noteq> None \<and> x \<in> set (queued_in z s))" for x
      using none v by metis
    then have "sop_signal z' = (\<lambda>x. if \<exists>s. owner z s \<in> set (v # vs) \<and> fst (set_view z s) n \<noteq> None \<and> x \<in> set (queued_in z s) then n else sop_signal z x)"
      using IH step(2,6) by (auto simp: fun_eq_iff)
    moreover have "set_view z' t = (if owner z t \<in> set (v # vs) then view_deliver n (set_view z t) else set_view z t)" for t
      using IH step(1,2) v by auto
    moreover have "sched_of z' u = (if u \<in> set (v # vs)
         then post_deferred_completions (map Operation (concat (map (queue_of_reg z) (table_at z u n)))) (sched_of z u) else sched_of z u)" for u
    proof (cases "u = v")
      case True
      then show ?thesis using IH step(7) [of v] v by simp
    next
      case False
      have "sched_of z' u = (if u \<in> set vs
         then post_deferred_completions (map Operation (concat (map (queue_of_reg y) (table_at y u n)))) (sched_of y u) else sched_of y u)"
        using IH by blast
      then show ?thesis unfolding step(4) q [OF False] using step(7) [of u] False by simp
    qed
    ultimately show ?case by blast
  qed simp
  then show "set_view z' t = (if owner z t \<in> set vs then view_deliver n (set_view z t) else set_view z t)"
    "sop_signal z' = (\<lambda>x. if \<exists>s. owner z s \<in> set vs \<and> fst (set_view z s) n \<noteq> None \<and> x \<in> set (queued_in z s) then n else sop_signal z x)"
    "sched_of z' u = (if u \<in> set vs then post_deferred_completions (map Operation (concat (map (queue_of_reg z) (table_at z u n)))) (sched_of z u)
       else sched_of z u)" by blast+
qed

text \<open>C31: Delivering a signal. In every history each set of a listed service that is registered for the signal either
  gives it to all its waiting operations, when there are any, or counts it as undelivered; no other set changes. The
  operations get the number of the signal and go to the scheduler of their service together, set by set and each
  once.\<close>

theorem signal_delivery_refines:
  assumes law: "sigaction_law G handled" and start: "no_signals handled z0" and h: "signal_history G E z0 z"
    and z': "z' = deliver_signal n z"
  shows "(\<forall>s. set_view z' s = (if owner z s \<in> set (service_list z) then view_deliver n (set_view z s) else set_view z s))
    \<and> sop_signal z' = (\<lambda>x. if \<exists>s. owner z s \<in> set (service_list z) \<and> fst (set_view z s) n \<noteq> None \<and> x \<in> set (queued_in z s)
                           then n else sop_signal z x)
    \<and> (\<forall>v. \<exists>ss. distinct ss \<and> set ss = {s. owner z s = v \<and> fst (set_view z s) n \<noteq> None}
         \<and> sched_of z' v = (if v \<in> set (service_list z)
              then post_deferred_completions (map Operation (concat (map (queued_in z) ss))) (sched_of z v) else sched_of z v))"
proof -
  have ok: "signals_ok handled z" using signal_history_ok [OF law h] no_signals_ok [OF start] .
  note all = deliver_services [OF ok signals_okD(6) [OF ok] z' [unfolded deliver_signal_def]]
  have "map (queue_of_reg z) rs = map (queued_in z) (map (set_of_reg z) rs)" for rs by (simp add: queue_of_reg_def)
  then have "\<exists>ss. distinct ss \<and> set ss = {s. owner z s = v \<and> fst (set_view z s) n \<noteq> None}
         \<and> sched_of z' v = (if v \<in> set (service_list z)
              then post_deferred_completions (map Operation (concat (map (queued_in z) ss))) (sched_of z v) else sched_of z v)" for v
    using table_sets(1,2) [OF ok, of v n] all(3) [of v] by (intro exI [of _ "map (set_of_reg z) (table_at z v n)"]) (simp only: simp_thms)
  then show ?thesis using all(1,2) by blast
qed

theorem signal_delivery_refines_witness:
  "set_view (deliver_signal 2 two_sets) 3 = ([2 \<mapsto> 0], []) \<and> set_view (deliver_signal 2 two_sets) 7 = ([2 \<mapsto> 1], [])"
  using signal_delivery_refines [OF sig_os_law sig_start_none two_sets_history refl, of 2] by (simp add: two_sets_views)

section \<open>Fork\<close>

text \<open>\<open>fork_prepared_\<close> belongs to the process: once one service has been notified of the end of a fork, notifying another
  does nothing, although \<open>fork_prepare\<close> took the pipe out of the reactors of all.\<close>

lemma watch_fork_prepared [simp]: "fork_prepared (watch_pipe E x v z) = fork_prepared z"
  by (simp add: watch_pipe_def upd_service_def split: prod.splits)

lemma fork_rewatches_one_service:
  "f \<noteq> ForkPrepare \<Longrightarrow> signal_notify_fork G E x v f z = (None, z') \<Longrightarrow> signal_notify_fork G E y u f z' = (None, z')"
  by (cases f) (auto simp: signal_notify_fork_def split: if_splits prod.splits)

end
