(* ===== verification/ServiceRegistry.thy ===== *)
theory ServiceRegistry
  imports Resolver
begin

text \<open>
  The services of an execution context, \<^verbatim>\<open>detail/impl/service_registry.{hpp,ipp}\<close> and \<^verbatim>\<open>impl/execution_context.ipp\<close>.
  Schedulers, reactors and the services of sockets, timers, resolvers and signals live in such a registry; each
  gets the ones it needs from it in its constructor, keeps references to them, and is destroyed with all others.

  Services are numbered; \<open>service_chain\<close> is the list from \<open>first_service_\<close> along \<open>next_\<close>. \<open>svc_refs\<close> are the services
  a service refers to: those its constructor got. A type of service is a number, what a type does is in
  \<open>service_types\<close>: its key, the types its constructor uses, in order, whether the constructor throws, and what other
  threads do to the registry while the mutex is released for it.
\<close>

section \<open>Keys\<close>

record service_key =
  key_type_info :: "nat option"
  key_id :: "nat option"

definition init_key_from_id :: "nat \<Rightarrow> service_key" where
  "init_key_from_id i = \<lparr>key_type_info = None, key_id = Some i\<rparr>"

definition init_key_from_type :: "nat \<Rightarrow> service_key" where
  "init_key_from_type t = \<lparr>key_type_info = Some t, key_id = None\<rparr>"

definition keys_match :: "service_key \<Rightarrow> service_key \<Rightarrow> bool" where
  "keys_match key1 key2 \<longleftrightarrow>
     (key_id key1 \<noteq> None \<and> key_id key2 \<noteq> None \<and> key_id key1 = key_id key2)
     \<or> (key_type_info key1 \<noteq> None \<and> key_type_info key2 \<noteq> None \<and> key_type_info key1 = key_type_info key2)"

section \<open>The registry\<close>

record service_obj =
  svc_key :: service_key
  svc_owner :: nat
  svc_refs :: "nat list"

record registry_state =
  reg_owner :: nat
  service_chain :: "nat list"
  service_objs :: "nat \<Rightarrow> service_obj"
  next_service :: nat

record service_types =
  type_key :: "nat \<Rightarrow> service_key"
  ctor_uses :: "nat \<Rightarrow> nat list"
  ctor_throws :: "nat \<Rightarrow> bool"
  meanwhile :: "nat \<Rightarrow> registry_state \<Rightarrow> registry_state"

definition new_registry :: "nat \<Rightarrow> registry_state" where
  "new_registry owner = \<lparr>reg_owner = owner, service_chain = [],
     service_objs = (\<lambda>_. \<lparr>svc_key = init_key_from_id 0, svc_owner = owner, svc_refs = []\<rparr>), next_service = 0\<rparr>"

text \<open>The loop that looks for a key.\<close>

definition find_service :: "service_key \<Rightarrow> registry_state \<Rightarrow> nat option" where
  "find_service key z = find (\<lambda>s. keys_match (svc_key (service_objs z s)) key) (service_chain z)"

definition do_has_service :: "service_key \<Rightarrow> registry_state \<Rightarrow> bool" where
  "do_has_service key z \<longleftrightarrow> find_service key z \<noteq> None"

text \<open>Putting a new service in front of the list.\<close>

definition push_service :: "service_key \<Rightarrow> nat list \<Rightarrow> registry_state \<Rightarrow> nat \<times> registry_state" where
  "push_service key refs z =
     (let s = next_service z
      in (s, z\<lparr>service_chain := s # service_chain z, next_service := s + 1,
               service_objs := (service_objs z)(s := \<lparr>svc_key = key, svc_owner = reg_owner z, svc_refs = refs\<rparr>)\<rparr>))"

text \<open>
  After the constructor of type \<open>t\<close>, which got the services \<open>refs\<close>, or \<open>None\<close> if it could not get them: when another
  service with the key turned up meanwhile, the new one is destroyed and that one taken.
\<close>

definition register_service :: "service_types \<Rightarrow> nat \<Rightarrow> nat list option \<Rightarrow> registry_state \<Rightarrow> nat option \<times> registry_state" where
  "register_service K t refs z =
     (case refs of
        None \<Rightarrow> (None, z)
      | Some refs \<Rightarrow>
          if ctor_throws K t then (None, z)
          else let z = meanwhile K t z
               in case find_service (type_key K t) z of
                    Some s \<Rightarrow> (Some s, z)
                  | None \<Rightarrow> (let (s, z) = push_service (type_key K t) refs z in (Some s, z)))"

text \<open>
  Calls of \<open>do_use_service\<close> for a list of types, one after the other, as a constructor makes them. The result is the
  services found or created, or \<open>None\<close> after an exception.
\<close>

partial_function (option) use_services ::
  "service_types \<Rightarrow> nat list \<Rightarrow> registry_state \<Rightarrow> (nat list option \<times> registry_state) option" where
  "use_services K types z =
     (case types of
        [] \<Rightarrow> Some (Some [], z)
      | t # ts \<Rightarrow>
          (case find_service (type_key K t) z of
             Some s \<Rightarrow> Option.bind (use_services K ts z) (\<lambda>(r, z). Some (map_option (Cons s) r, z))
           | None \<Rightarrow>
               Option.bind (use_services K (ctor_uses K t) z) (\<lambda>(refs, z).
                 case register_service K t refs z of
                   (None, z) \<Rightarrow> Some (None, z)
                 | (Some s, z) \<Rightarrow> Option.bind (use_services K ts z) (\<lambda>(r, z). Some (map_option (Cons s) r, z)))))"

definition do_use_service :: "service_types \<Rightarrow> nat \<Rightarrow> registry_state \<Rightarrow> (nat option \<times> registry_state) option" where
  "do_use_service K t z = Option.bind (use_services K [t] z) (\<lambda>(r, z). Some (map_option hd r, z))"

datatype registry_exception = InvalidServiceOwner | ServiceAlreadyExists

text \<open>\<open>add_service\<close> takes a service made before, here by its owner, its key and its references.\<close>

definition do_add_service ::
  "service_key \<Rightarrow> nat \<Rightarrow> nat list \<Rightarrow> registry_state \<Rightarrow> registry_exception option \<times> registry_state" where
  "do_add_service key owner refs z =
     (if reg_owner z \<noteq> owner then (Some InvalidServiceOwner, z)
      else if find_service key z \<noteq> None then (Some ServiceAlreadyExists, z)
      else (None, snd (push_service key refs z)))"

section \<open>Calls to all services\<close>

text \<open>The virtual functions \<open>shutdown\<close>, the destructor and \<open>notify_fork\<close> act on the rest of the program.\<close>

definition shutdown_services :: "(nat \<Rightarrow> 'w \<Rightarrow> 'w) \<Rightarrow> registry_state \<Rightarrow> 'w \<Rightarrow> 'w" where
  "shutdown_services shut_it z = fold shut_it (service_chain z)"

fun destroy_loop :: "(nat \<Rightarrow> 'w \<Rightarrow> 'w) \<Rightarrow> nat list \<Rightarrow> registry_state \<Rightarrow> 'w \<Rightarrow> registry_state \<times> 'w" where
  "destroy_loop delete_it [] z w = (z, w)"
| "destroy_loop delete_it (s # rest) z w = destroy_loop delete_it rest (z\<lparr>service_chain := rest\<rparr>) (delete_it s w)"

definition destroy_services :: "(nat \<Rightarrow> 'w \<Rightarrow> 'w) \<Rightarrow> registry_state \<Rightarrow> 'w \<Rightarrow> registry_state \<times> 'w" where
  "destroy_services delete_it z = destroy_loop delete_it (service_chain z) z"

definition notify_fork_services :: "(fork_event \<Rightarrow> nat \<Rightarrow> 'w \<Rightarrow> 'w) \<Rightarrow> fork_event \<Rightarrow> registry_state \<Rightarrow> 'w \<Rightarrow> 'w" where
  "notify_fork_services notify fork_ev z =
     fold (notify fork_ev) (if fork_ev = ForkPrepare then service_chain z else rev (service_chain z))"

text \<open>The destructor of the context.\<close>

definition delete_context :: "(nat \<Rightarrow> 'w \<Rightarrow> 'w) \<Rightarrow> (nat \<Rightarrow> 'w \<Rightarrow> 'w) \<Rightarrow> registry_state \<Rightarrow> 'w \<Rightarrow> registry_state \<times> 'w" where
  "delete_context shut_it delete_it z w = destroy_services delete_it z (shutdown_services shut_it z w)"

end
