(* ===== verification/RegistrySpec.thy ===== *)
theory RegistrySpec
  imports ServiceRegistry
begin

text \<open>
  The order of services: a service refers only to services further back in the list, so it is shut down and
  destroyed before those it needs, and \<open>use_service\<close> returns if no type needs itself.
\<close>

section \<open>Order\<close>

text \<open>Along the list each service refers to later ones only.\<close>

fun refs_later :: "registry_state \<Rightarrow> nat list \<Rightarrow> bool" where
  "refs_later z [] = True"
| "refs_later z (s # rest) = (set (svc_refs (service_objs z s)) \<subseteq> set rest \<and> refs_later z rest)"

definition registry_ok :: "registry_state \<Rightarrow> bool" where
  "registry_ok z \<longleftrightarrow> distinct (service_chain z) \<and> (\<forall>s\<in>set (service_chain z). s < next_service z)
     \<and> pairwise (\<lambda>s u. \<not> keys_match (svc_key (service_objs z s)) (svc_key (service_objs z u))) (set (service_chain z))
     \<and> refs_later z (service_chain z)"

text \<open>Services are only added, and stay as they are.\<close>

definition extends :: "registry_state \<Rightarrow> registry_state \<Rightarrow> bool" where
  "extends z z' \<longleftrightarrow> (\<exists>xs. service_chain z' = xs @ service_chain z) \<and> next_service z \<le> next_service z' \<and> reg_owner z' = reg_owner z
     \<and> (\<forall>s < next_service z. service_objs z' s = service_objs z s)"

text \<open>Other threads use the registry, too.\<close>

definition meanwhile_law :: "service_types \<Rightarrow> bool" where
  "meanwhile_law K \<longleftrightarrow> (\<forall>t z. registry_ok z \<longrightarrow> registry_ok (meanwhile K t z) \<and> extends z (meanwhile K t z))"

lemma extends_refl [simp]: "extends z z"
  by (simp add: extends_def)

lemma extends_trans: "extends z z' \<Longrightarrow> extends z' z'' \<Longrightarrow> extends z z''"
  unfolding extends_def by (metis append_assoc le_trans order_less_le_trans)

lemma extends_chain: "extends z z' \<Longrightarrow> set (service_chain z) \<subseteq> set (service_chain z')"
  by (auto simp: extends_def)

lemma keys_match_sym: "keys_match a b \<longleftrightarrow> keys_match b a"
  by (auto simp: keys_match_def)

lemma refs_later_cong: "(\<And>s. s \<in> set xs \<Longrightarrow> service_objs z' s = service_objs z s) \<Longrightarrow> refs_later z' xs = refs_later z xs"
  by (induction xs) auto

lemma refs_later_split: "refs_later z (xs @ s # ys) \<Longrightarrow> set (svc_refs (service_objs z s)) \<subseteq> set ys"
  by (induction xs) auto

lemma find_service_some: "find_service key z = Some s \<Longrightarrow> s \<in> set (service_chain z) \<and> keys_match (svc_key (service_objs z s)) key"
  unfolding find_service_def by (auto simp: find_Some_iff)

lemma find_service_none: "find_service key z = None \<longleftrightarrow> (\<forall>s\<in>set (service_chain z). \<not> keys_match (svc_key (service_objs z s)) key)"
  unfolding find_service_def by (auto simp: find_None_iff)

lemma push_service_ok:
  assumes ok: "registry_ok z" and new: "find_service key z = None" and refs: "set refs \<subseteq> set (service_chain z)"
    and p: "push_service key refs z = (s, z')"
  shows "registry_ok z'" "extends z z'" "s \<in> set (service_chain z')" "svc_key (service_objs z' s) = key"
proof -
  have z': "service_chain z' = s # service_chain z" "next_service z' = s + 1" "s = next_service z" "reg_owner z' = reg_owner z"
    "service_objs z' = (service_objs z)(s := \<lparr>svc_key = key, svc_owner = reg_owner z, svc_refs = refs\<rparr>)"
    using p by (auto simp: push_service_def Let_def)
  have less: "u < s" if "u \<in> set (service_chain z)" for u using ok that by (simp add: registry_ok_def z')
  then have same: "service_objs z' u = service_objs z u" if "u \<in> set (service_chain z)" for u
    using that by (auto simp: z'(5))
  have "\<forall>u\<in>set (service_chain z'). u < next_service z'" using less by (auto simp: z' intro: less_SucI)
  moreover have "distinct (service_chain z')" using ok less by (auto simp: registry_ok_def z'(1))
  moreover have "pairwise (\<lambda>s u. \<not> keys_match (svc_key (service_objs z' s)) (svc_key (service_objs z' u))) (set (service_chain z'))"
  proof -
    have "\<not> keys_match (svc_key (service_objs z u)) key \<and> \<not> keys_match key (svc_key (service_objs z u))"
      if "u \<in> set (service_chain z)" for u
      using new that keys_match_sym by (auto simp: find_service_none)
    moreover have "pairwise (\<lambda>s u. \<not> keys_match (svc_key (service_objs z s)) (svc_key (service_objs z u))) (set (service_chain z))"
      using ok by (simp add: registry_ok_def)
    moreover have "svc_key (service_objs z' s) = key" by (simp add: z'(5))
    ultimately show ?thesis using same by (simp add: z'(1) pairwise_insert pairwise_def)
  qed
  moreover have "refs_later z' (service_chain z')"
  proof -
    have "refs_later z' (service_chain z) = refs_later z (service_chain z)" by (rule refs_later_cong) (rule same)
    then show ?thesis using ok refs by (simp add: registry_ok_def z'(1) z'(5))
  qed
  ultimately show "registry_ok z'" unfolding registry_ok_def by blast
  show "extends z z'" "s \<in> set (service_chain z')" "svc_key (service_objs z' s) = key" by (simp_all add: extends_def z')
qed

section \<open>What \<open>use_service\<close> does\<close>

definition used_ok :: "service_types \<Rightarrow> nat list \<Rightarrow> registry_state \<Rightarrow> nat list option \<times> registry_state \<Rightarrow> bool" where
  "used_ok K ts z res \<longleftrightarrow> (case res of (r, z') \<Rightarrow> registry_ok z' \<and> extends z z'
     \<and> (case r of None \<Rightarrow> True
        | Some ss \<Rightarrow> list_all2 (\<lambda>t s. s \<in> set (service_chain z') \<and> keys_match (svc_key (service_objs z' s)) (type_key K t)) ts ss))"

text \<open>The keys of the types are those of \<open>init_key\<close>: one of the two parts is set.\<close>

definition keys_set :: "service_types \<Rightarrow> bool" where
  "keys_set K \<longleftrightarrow> (\<forall>t. keys_match (type_key K t) (type_key K t))"

lemma keys_stay:
  assumes "registry_ok z" "extends z z'" "s \<in> set (service_chain z)"
  shows "s \<in> set (service_chain z')" "service_objs z' s = service_objs z s"
  using assms by (auto simp: extends_def registry_ok_def)

lemma register_service_ok:
  assumes law: "meanwhile_law K" "keys_set K" and nested: "used_ok K (ctor_uses K t) z (refs, z1)"
    and r: "register_service K t refs z1 = (s, z')"
  shows "registry_ok z' \<and> extends z z'
    \<and> (\<forall>u. s = Some u \<longrightarrow> u \<in> set (service_chain z') \<and> keys_match (svc_key (service_objs z' u)) (type_key K t))"
proof -
  have ok1: "registry_ok z1" "extends z z1" using nested by (simp_all add: used_ok_def)
  show ?thesis
  proof (cases "refs = None \<or> ctor_throws K t")
    case True
    then show ?thesis using r ok1 by (auto simp: register_service_def split: option.splits)
  next
    case False
    then obtain rs where rs: "refs = Some rs" by auto
    have sub: "set rs \<subseteq> set (service_chain z1)" using nested rs by (auto simp: used_ok_def list_all2_conv_all_nth in_set_conv_nth)
    define z2 where "z2 = meanwhile K t z1"
    have ok2: "registry_ok z2" "extends z1 z2" using law(1) ok1(1) by (simp_all add: meanwhile_law_def z2_def)
    have e2: "extends z z2" using extends_trans [OF ok1(2) ok2(2)] .
    show ?thesis
    proof (cases "find_service (type_key K t) z2")
      case (Some u)
      then show ?thesis using r rs False ok2 e2 find_service_some [OF Some] by (auto simp: register_service_def z2_def [symmetric])
    next
      case None
      obtain u z3 where p: "push_service (type_key K t) rs z2 = (u, z3)" by (meson surj_pair)
      have "set rs \<subseteq> set (service_chain z2)" using sub extends_chain [OF ok2(2)] by blast
      note push = push_service_ok [OF ok2(1) None this p]
      have "s = Some u" "z' = z3" using r rs False None p by (auto simp: register_service_def z2_def [symmetric])
      then show ?thesis using push extends_trans [OF e2 push(2)] law(2) by (simp add: keys_set_def)
    qed
  qed
qed

text \<open>One service, then the rest.\<close>

lemma used_ok_Cons:
  assumes one: "registry_ok z1" "extends z z1" "s \<in> set (service_chain z1)" "keys_match (svc_key (service_objs z1 s)) (type_key K t)"
    and rest: "used_ok K ts z1 (r, z')"
  shows "used_ok K (t # ts) z (map_option (Cons s) r, z')"
proof -
  have z': "registry_ok z'" "extends z1 z'" using rest by (simp_all add: used_ok_def)
  have "s \<in> set (service_chain z')" "keys_match (svc_key (service_objs z' s)) (type_key K t)"
    using keys_stay [OF one(1) z'(2) one(3)] one(4) by simp_all
  then show ?thesis using rest z' extends_trans [OF one(2) z'(2)] by (cases r) (simp_all add: used_ok_def)
qed

lemma use_services_ok:
  assumes law: "meanwhile_law K" "keys_set K" and u: "use_services K ts z = Some res" and ok: "registry_ok z"
  shows "used_ok K ts z res"
proof -
  let ?P = "\<lambda>K' ts z res. K' = K \<longrightarrow> registry_ok z \<longrightarrow> used_ok K ts z res"
  have "?P K ts z res"
  proof (rule use_services.raw_induct [OF _ u, of ?P], intro impI)
    fix rec :: "service_types \<Rightarrow> nat list \<Rightarrow> registry_state \<Rightarrow> (nat list option \<times> registry_state) option" and K' types z res
    assume IH: "\<And>K' ts z res. rec K' ts z = Some res \<Longrightarrow> ?P K' ts z res"
      and body: "(case types of
        [] \<Rightarrow> Some (Some [], z)
      | t # ts \<Rightarrow>
          (case find_service (type_key K' t) z of
             Some s \<Rightarrow> Option.bind (rec K' ts z) (\<lambda>(r, z). Some (map_option (Cons s) r, z))
           | None \<Rightarrow>
               Option.bind (rec K' (ctor_uses K' t) z) (\<lambda>(refs, z).
                 case register_service K' t refs z of
                   (None, z) \<Rightarrow> Some (None, z)
                 | (Some s, z) \<Rightarrow> Option.bind (rec K' ts z) (\<lambda>(r, z). Some (map_option (Cons s) r, z))))) = Some res"
      and K: "K' = K" and z: "registry_ok z"
    show "used_ok K types z res"
    proof (cases types)
      case Nil
      then show ?thesis using body z by (auto simp: used_ok_def)
    next
      case (Cons t ts)
      show ?thesis
      proof (cases "find_service (type_key K t) z")
        case (Some s)
        then obtain r z' where r: "rec K ts z = Some (r, z')" "res = (map_option (Cons s) r, z')"
          using body Cons K by (auto simp: bind_eq_Some_conv)
        have "used_ok K ts z (r, z')" using IH [OF r(1)] z by simp
        then show ?thesis using used_ok_Cons [OF z extends_refl] find_service_some [OF Some] Cons r(2) by simp
      next
        case None
        then obtain refs z1 where n: "rec K (ctor_uses K t) z = Some (refs, z1)" using body Cons K by (auto simp: bind_eq_Some_conv)
        obtain s z2 where s: "register_service K t refs z1 = (s, z2)" by (meson surj_pair)
        have nested: "used_ok K (ctor_uses K t) z (refs, z1)" using IH [OF n] z by simp
        note reg = register_service_ok [OF law nested s]
        show ?thesis
        proof (cases s)
          case None
          then have "res = (None, z2)" using body Cons K \<open>find_service (type_key K t) z = None\<close> n s by simp
          then show ?thesis using reg by (simp add: used_ok_def)
        next
          case (Some u)
          then obtain r z' where r: "rec K ts z2 = Some (r, z')" "res = (map_option (Cons u) r, z')"
            using body Cons K \<open>find_service (type_key K t) z = None\<close> n s by (auto simp: bind_eq_Some_conv)
          have "used_ok K ts z2 (r, z')" using IH [OF r(1)] reg by simp
          then show ?thesis using used_ok_Cons [of z2 z u] reg Some Cons r(2) by simp
        qed
      qed
    qed
  qed
  then show ?thesis using ok by simp
qed

section \<open>\<open>use_service\<close> returns\<close>

lemma use_services_Nil: "use_services K [] z = Some (Some [], z)"
  by (subst use_services.simps) simp

lemma use_services_Cons:
  "use_services K (t # ts) z = (case find_service (type_key K t) z of
     Some s \<Rightarrow> Option.bind (use_services K ts z) (\<lambda>(r, z). Some (map_option (Cons s) r, z))
   | None \<Rightarrow>
       Option.bind (use_services K (ctor_uses K t) z) (\<lambda>(refs, z).
         case register_service K t refs z of
           (None, z) \<Rightarrow> Some (None, z)
         | (Some s, z) \<Rightarrow> Option.bind (use_services K ts z) (\<lambda>(r, z). Some (map_option (Cons s) r, z))))"
  by (subst use_services.simps) simp

lemma register_service_none: "register_service K t refs z = (None, z') \<Longrightarrow> refs = None \<or> ctor_throws K t"
  by (auto simp: register_service_def Let_def split: option.splits if_splits prod.splits)

text \<open>When no type needs itself, directly or through others, constructing ends; it fails only if a constructor throws.\<close>

lemma use_services_return:
  assumes wf: "wf {(u, t). u \<in> set (ctor_uses K t)}"
  shows "\<exists>r z'. use_services K ts z = Some (r, z') \<and> ((\<forall>t. \<not> ctor_throws K t) \<longrightarrow> r \<noteq> None)"
proof -
  have list: "\<exists>r z'. use_services K ts z = Some (r, z') \<and> ((\<forall>t. \<not> ctor_throws K t) \<longrightarrow> r \<noteq> None)"
    if "\<And>t z. t \<in> set ts \<Longrightarrow> \<exists>r z'. use_services K (ctor_uses K t) z = Some (r, z') \<and> ((\<forall>t. \<not> ctor_throws K t) \<longrightarrow> r \<noteq> None)" for ts z
    using that
  proof (induction ts arbitrary: z)
    case (Cons t ts)
    have rest: "\<exists>r z'. use_services K ts z = Some (r, z') \<and> ((\<forall>t. \<not> ctor_throws K t) \<longrightarrow> r \<noteq> None)" for z
      by (rule Cons.IH) (use Cons.prems in simp)
    show ?case
    proof (cases "find_service (type_key K t) z")
      case None
      obtain refs z1 where n: "use_services K (ctor_uses K t) z = Some (refs, z1)" "(\<forall>t. \<not> ctor_throws K t) \<longrightarrow> refs \<noteq> None"
        using Cons.prems [of t z] by auto
      obtain s z2 where s: "register_service K t refs z1 = (s, z2)" by (meson surj_pair)
      have "(\<forall>t. \<not> ctor_throws K t) \<longrightarrow> s \<noteq> None" using n(2) s register_service_none [of K t refs z1 z2] by auto
      then show ?thesis using rest [of z2] by (cases s) (auto simp: use_services_Cons None n(1) s)
    qed (use rest [of z] in \<open>auto simp: use_services_Cons\<close>)
  qed (simp add: use_services_Nil)
  have "\<forall>z. \<exists>r z'. use_services K (ctor_uses K t) z = Some (r, z') \<and> ((\<forall>t. \<not> ctor_throws K t) \<longrightarrow> r \<noteq> None)" for t
    using wf
  proof (induction t rule: wf_induct_rule)
    case (less t)
    have "\<exists>r z'. use_services K (ctor_uses K u) z = Some (r, z') \<and> ((\<forall>t. \<not> ctor_throws K t) \<longrightarrow> r \<noteq> None)"
      if "u \<in> set (ctor_uses K t)" for u z using less.IH [of u] that by simp
    then show ?case using list by blast
  qed
  then show ?thesis using list by blast
qed

section \<open>Properties\<close>

inductive registry_run :: "service_types \<Rightarrow> nat \<Rightarrow> registry_state \<Rightarrow> bool" for K :: service_types and owner :: nat where
  Start: "registry_run K owner (new_registry owner)"
| UseService: "registry_run K owner z \<Longrightarrow> do_use_service K t z = Some (r, z') \<Longrightarrow> registry_run K owner z'"
| AddService: "registry_run K owner z \<Longrightarrow> set refs \<subseteq> set (service_chain z) \<Longrightarrow> registry_run K owner (snd (do_add_service key o' refs z))"

lemma do_use_service_ok:
  assumes law: "meanwhile_law K" "keys_set K" and u: "do_use_service K t z = Some (r, z')" and ok: "registry_ok z"
  shows "registry_ok z'" "extends z z'" "r = Some s \<Longrightarrow> s \<in> set (service_chain z') \<and> keys_match (svc_key (service_objs z' s)) (type_key K t)"
proof -
  obtain rs where rs: "use_services K [t] z = Some (rs, z')" "r = map_option hd rs"
    using u by (auto simp: do_use_service_def bind_eq_Some_conv)
  have used: "used_ok K [t] z (rs, z')" by (rule use_services_ok [OF law rs(1) ok])
  then show "registry_ok z'" "extends z z'" by (simp_all add: used_ok_def)
  show "r = Some s \<Longrightarrow> s \<in> set (service_chain z') \<and> keys_match (svc_key (service_objs z' s)) (type_key K t)"
    using used rs(2) by (auto simp: used_ok_def list_all2_Cons1)
qed

lemma registry_run_ok:
  assumes law: "meanwhile_law K" "keys_set K"
  shows "registry_run K owner z \<Longrightarrow> registry_ok z"
proof (induction rule: registry_run.induct)
  case Start
  show ?case by (simp add: registry_ok_def new_registry_def)
next
  case (UseService z t r z')
  then show ?case using do_use_service_ok(1) [OF law] by blast
next
  case (AddService z refs key o')
  then show ?case using push_service_ok(1) [OF AddService.IH _ AddService.hyps(2) surjective_pairing]
    by (simp add: do_add_service_def)
qed

lemma log_fold: "fold (\<lambda>s w. w @ [f s]) xs w = w @ map f xs"
  by (induction xs arbitrary: w) simp_all

lemma destroy_loop_log: "destroy_loop (\<lambda>s w. w @ [f s]) xs z w = (if xs = [] then z else z\<lparr>service_chain := []\<rparr>, w @ map f xs)"
  by (induction xs arbitrary: z w) auto

text \<open>C29: The services of a context end before what they need. Whatever services were used and added, by whatever threads,
  no two have matching keys, and a service refers only to services behind it in the list. The destructor of the
  context shuts down all services, each once, and then deletes each once, both in the order of the list, so every
  service is gone before the first of those it refers to; \<open>notify_fork\<close> prepares them in that order, too, and tells
  them of the end of the fork in the opposite one.\<close>

theorem services_end_before_what_they_need:
  assumes law: "meanwhile_law K" "keys_set K" and run: "registry_run K owner z"
  shows "let order = service_chain z in
    distinct order
    \<and> pairwise (\<lambda>s u. \<not> keys_match (svc_key (service_objs z s)) (svc_key (service_objs z u))) (set order)
    \<and> (\<forall>xs s ys. order = xs @ s # ys \<longrightarrow> set (svc_refs (service_objs z s)) \<subseteq> set ys)
    \<and> delete_context (\<lambda>s w. w @ [Inl s]) (\<lambda>s w. w @ [Inr s]) z [] = (z\<lparr>service_chain := []\<rparr>, map Inl order @ map Inr order)
    \<and> notify_fork_services (\<lambda>f s w. w @ [(f, s)]) f z [] = map (Pair f) (if f = ForkPrepare then order else rev order)"
proof -
  have ok: "registry_ok z" by (rule registry_run_ok [OF law run])
  have "delete_context (\<lambda>s w. w @ [Inl s]) (\<lambda>s w. w @ [Inr s]) z [] = (z\<lparr>service_chain := []\<rparr>, map Inl (service_chain z) @ map Inr (service_chain z))"
    by (simp add: delete_context_def shutdown_services_def destroy_services_def destroy_loop_log log_fold)
  moreover have "notify_fork_services (\<lambda>f s w. w @ [(f, s)]) f z [] = map (Pair f) (if f = ForkPrepare then service_chain z else rev (service_chain z))"
    by (simp only: notify_fork_services_def log_fold append_Nil)
  moreover have "set (svc_refs (service_objs z s)) \<subseteq> set ys" if "service_chain z = xs @ s # ys" for xs s ys
    using ok refs_later_split [of z xs s ys] that by (simp add: registry_ok_def)
  ultimately show ?thesis using ok unfolding Let_def registry_ok_def by blast
qed

text \<open>C32: \<open>use_service\<close> returns, if no type of service needs itself, directly or through others: with the service of the
  key that is there, changing nothing, or else with a new one or one that another thread registered meanwhile, or
  with an exception, and that only if a constructor throws. What was registered stays.\<close>

theorem use_service_returns:
  assumes law: "meanwhile_law K" "keys_set K" and wf: "wf {(u, t). u \<in> set (ctor_uses K t)}" and run: "registry_run K owner z"
  shows "\<exists>r z'. do_use_service K t z = Some (r, z') \<and> extends z z'
    \<and> (case r of
         Some s \<Rightarrow> s \<in> set (service_chain z') \<and> keys_match (svc_key (service_objs z' s)) (type_key K t)
       | None \<Rightarrow> \<exists>u. ctor_throws K u)
    \<and> (\<forall>s. find_service (type_key K t) z = Some s \<longrightarrow> r = Some s \<and> z' = z)"
proof -
  have ok: "registry_ok z" by (rule registry_run_ok [OF law run])
  obtain rs z' where u: "use_services K [t] z = Some (rs, z')" "(\<forall>t. \<not> ctor_throws K t) \<longrightarrow> rs \<noteq> None"
    using use_services_return [OF wf] by blast
  let ?r = "map_option hd rs"
  have d: "do_use_service K t z = Some (?r, z')" by (simp add: do_use_service_def u(1))
  note done_ok = do_use_service_ok [OF law d ok]
  have "\<forall>s. find_service (type_key K t) z = Some s \<longrightarrow> ?r = Some s \<and> z' = z"
    using u(1) by (auto simp: use_services_Cons use_services_Nil)
  then show ?thesis using d done_ok(2,3) u(2) by (intro exI [of _ ?r] exI [of _ z']) (auto split: option.splits)
qed

text \<open>A scheduler (type 7), a reactor (8) that needs it, and a service of sockets (9) that needs both.\<close>

definition some_types :: service_types where
  "some_types = \<lparr>type_key = init_key_from_type, ctor_uses = (\<lambda>t. if t = 9 then [7, 8] else if t = 8 then [7] else []),
     ctor_throws = (\<lambda>_. False), meanwhile = (\<lambda>_ z. z)\<rparr>"

lemma some_types_laws: "meanwhile_law some_types" "keys_set some_types"
  by (simp_all add: meanwhile_law_def keys_set_def some_types_def keys_match_def init_key_from_type_def)

lemma some_types_wf: "wf {(u, t). u \<in> set (ctor_uses some_types t)}"
  by (rule wf_subset [OF wf_less]) (auto simp: some_types_def split: if_splits)

text \<open>The same with a second thread: while this one is in the constructor of its reactor, the other uses the reactor,
  too, and registers one first. The one made here is destroyed and the other's taken.\<close>

definition second_thread :: "nat \<Rightarrow> registry_state \<Rightarrow> registry_state" where
  "second_thread t z = (if t = 8 then (case do_use_service some_types 8 z of None \<Rightarrow> z | Some (r, z') \<Rightarrow> z') else z)"

definition racing_types :: service_types where
  "racing_types = some_types\<lparr>meanwhile := second_thread\<rparr>"

lemma racing_types_laws: "meanwhile_law racing_types" "keys_set racing_types"
proof -
  have "registry_ok (second_thread t z) \<and> extends z (second_thread t z)" if "registry_ok z" for t z
    using do_use_service_ok(1,2) [OF some_types_laws _ that]
    by (auto simp: second_thread_def extends_refl that split: option.splits)
  then show "meanwhile_law racing_types" "keys_set racing_types"
    using some_types_laws(2) by (simp_all add: meanwhile_law_def racing_types_def keys_set_def)
qed

lemma racing_types_wf: "wf {(u, t). u \<in> set (ctor_uses racing_types t)}"
  using some_types_wf by (simp add: racing_types_def)

theorem use_service_returns_witness:
  "\<exists>s z'. do_use_service racing_types 9 (new_registry 3) = Some (Some s, z') \<and> s \<in> set (service_chain z')"
  using use_service_returns [OF racing_types_laws racing_types_wf Start, of 9 3]
  by (auto simp: racing_types_def some_types_def split: option.splits)

text \<open>Service 1 is the reactor of the other thread, service 2 the sockets of this one.\<close>

lemma racing_services:
  "second_thread 8 (snd (push_service (type_key some_types 7) [] (new_registry 3))) \<noteq>
     snd (push_service (type_key some_types 7) [] (new_registry 3))"
  "\<exists>z. do_use_service racing_types 9 (new_registry 3) = Some (Some 2, z) \<and> service_chain z = [2, 1, 0]"
  by (simp_all add: do_use_service_def use_services_Cons use_services_Nil racing_types_def second_thread_def some_types_def
    find_service_def new_registry_def register_service_def push_service_def keys_match_def init_key_from_type_def)

theorem services_end_before_what_they_need_witness:
  "\<exists>z. do_use_service racing_types 9 (new_registry 3) = Some (Some 2, z)
    \<and> snd (delete_context (\<lambda>s w. w @ [Inl s]) (\<lambda>s w. w @ [Inr s]) z []) = [Inl 2, Inl 1, Inl 0, Inr 2, Inr 1, Inr (0 :: nat)]"
proof -
  obtain z where z: "do_use_service racing_types 9 (new_registry 3) = Some (Some 2, z)" "service_chain z = [2, 1, 0]"
    using racing_services(2) by blast
  have "registry_run racing_types 3 z" by (rule UseService [OF Start z(1)])
  then show ?thesis using services_end_before_what_they_need [OF racing_types_laws] z by (auto simp: Let_def)
qed

end
