(* ===== verification/DatagramService.thy ===== *)
theory DatagramService
  imports SocketService
begin

text \<open>
  More of the socket service, \<^verbatim>\<open>asio/detail/reactive_socket_service.hpp\<close> and
  \<^verbatim>\<open>asio/detail/reactive_socket_service_base.hpp\<close>: datagrams with the address of the peer, receiving with the flags of
  a message, waiting without transfer (also as a transfer of \<open>null_buffers\<close>), the blocking accept and the names of a socket.

  An operation \<open>i\<close> that writes an endpoint or flags for its caller writes them to \<open>sender i\<close> and \<open>flags_out i\<close> of the
  state. As in theory SocketService, the last component of an asynchronous operation is the
  type that its cancellation slot will look for; \<open>None\<close> if it does not use the slot.
\<close>

section \<open>Waiting\<close>

text \<open>\<open>OtherWait\<close> is a value of \<open>wait_type\<close> without a name.\<close>

datatype wait_type = WaitRead | WaitWrite | WaitError | OtherWait

definition wait_blocking ::
  "'w sys_env \<Rightarrow> base_implementation \<Rightarrow> wait_type \<Rightarrow> error_code \<Rightarrow> 'w \<Rightarrow> error_code \<times> 'w" where
  "wait_blocking K impl w ec k =
     (case w of
        WaitRead \<Rightarrow> snd (poll_read K (socket impl) (impl_state impl) (- 1) ec k)
      | WaitWrite \<Rightarrow> snd (poll_write K (socket impl) (impl_state impl) (- 1) ec k)
      | WaitError \<Rightarrow> snd (poll_error K (socket impl) (impl_state impl) (- 1) ec k)
      | OtherWait \<Rightarrow> (basic_ec invalid_argument, k))"

definition async_wait ::
  "'w sys_env \<Rightarrow> 'w net_env \<Rightarrow> base_implementation \<Rightarrow> wait_type \<Rightarrow> nat \<Rightarrow> bool \<Rightarrow> 'w net_sched
    \<Rightarrow> base_implementation \<times> 'w net_sched \<times> op_type option" where
  "async_wait K E impl w i is_continuation s =
     (let opn = SockOp i WaitOp;
          start = (\<lambda>op_type. let (impl, s) = service_start_op K E impl op_type opn is_continuation False False s
                             in (impl, s, Some op_type))
      in case w of
           WaitRead \<Rightarrow> start ReadOp
         | WaitWrite \<Rightarrow> start WriteOp
         | WaitError \<Rightarrow> start ExceptOp
         | OtherWait \<Rightarrow> (impl, post_immediate_completion (Operation opn) is_continuation
                                 (set_op_ec opn (basic_ec invalid_argument) s), None))"

text \<open>Transfers of \<open>null_buffers\<close>: \<open>send\<close>, \<open>send_to\<close>, \<open>receive\<close>.\<close>

definition send_null :: "'w sys_env \<Rightarrow> base_implementation \<Rightarrow> error_code \<Rightarrow> 'w \<Rightarrow> nat \<times> error_code \<times> 'w" where
  "send_null K impl ec w =
     (let (ready, ec, w) = poll_write K (socket impl) (impl_state impl) (- 1) ec w in (0, ec, w))"

definition receive_null :: "'w sys_env \<Rightarrow> base_implementation \<Rightarrow> error_code \<Rightarrow> 'w \<Rightarrow> nat \<times> error_code \<times> 'w" where
  "receive_null K impl ec w =
     (let (ready, ec, w) = poll_read K (socket impl) (impl_state impl) (- 1) ec w in (0, ec, w))"

definition async_send_null ::
  "'w sys_env \<Rightarrow> 'w net_env \<Rightarrow> base_implementation \<Rightarrow> nat \<Rightarrow> bool \<Rightarrow> 'w net_sched
    \<Rightarrow> base_implementation \<times> 'w net_sched \<times> op_type" where
  "async_send_null K E impl i is_continuation s =
     (let (impl, s) = service_start_op K E impl WriteOp (SockOp i WaitOp) is_continuation False False s
      in (impl, s, WriteOp))"

definition receive_type :: "32 word \<Rightarrow> op_type" where
  "receive_type flags = (if flags AND message_out_of_band \<noteq> 0 then ExceptOp else ReadOp)"

definition async_receive_null ::
  "'w sys_env \<Rightarrow> 'w net_env \<Rightarrow> base_implementation \<Rightarrow> 32 word \<Rightarrow> nat \<Rightarrow> bool \<Rightarrow> 'w net_sched
    \<Rightarrow> base_implementation \<times> 'w net_sched \<times> op_type" where
  "async_receive_null K E impl flags i is_continuation s =
     (let (impl, s) = service_start_op K E impl (receive_type flags) (SockOp i WaitOp) is_continuation False False s
      in (impl, s, ReadOp))"

section \<open>Receiving with flags\<close>

text \<open>Never as a single buffer. The last component of a blocking call is what it has written to \<open>out_flags\<close>.\<close>

definition receive_with_flags ::
  "'w sys_env \<Rightarrow> base_implementation \<Rightarrow> mutable_buffer list \<Rightarrow> 32 word \<Rightarrow> 32 word \<Rightarrow> error_code \<Rightarrow> 'w
    \<Rightarrow> (nat \<times> error_code \<times> 'w \<times> 32 word) option" where
  "receive_with_flags K impl bufs in_flags out_flags ec w =
     sync_recvmsg K (socket impl) (impl_state impl) (adapter_buffers bufs) in_flags ec (w, out_flags)"

definition receive_with_flags_null ::
  "'w sys_env \<Rightarrow> base_implementation \<Rightarrow> error_code \<Rightarrow> 'w \<Rightarrow> nat \<times> error_code \<times> 'w \<times> 32 word" where
  "receive_with_flags_null K impl ec w =
     (let (ready, ec, w) = poll_read K (socket impl) (impl_state impl) (- 1) ec w in (0, ec, w, 0))"

definition async_receive_with_flags ::
  "'w sys_env \<Rightarrow> 'w net_env \<Rightarrow> base_implementation \<Rightarrow> mutable_buffer list \<Rightarrow> 32 word \<Rightarrow> nat \<Rightarrow> bool \<Rightarrow> 'w net_sched
    \<Rightarrow> base_implementation \<times> 'w net_sched \<times> op_type" where
  "async_receive_with_flags K E impl bufs in_flags i is_continuation s =
     (let (impl, s) = service_start_op K E impl (receive_type in_flags) (SockOp i (RecvMsgOp (socket impl) bufs in_flags))
                        is_continuation (in_flags AND message_out_of_band = 0) False s
      in (impl, s, ReadOp))"

definition set_flags_out :: "nat \<Rightarrow> 32 word \<Rightarrow> 'w net_sched \<Rightarrow> 'w net_sched" where
  "set_flags_out i fl s = set_net ((os (world s))\<lparr>flags_out := (flags_out (os (world s)))(i := fl)\<rparr>) s"

definition async_receive_with_flags_null ::
  "'w sys_env \<Rightarrow> 'w net_env \<Rightarrow> base_implementation \<Rightarrow> 32 word \<Rightarrow> nat \<Rightarrow> bool \<Rightarrow> 'w net_sched
    \<Rightarrow> base_implementation \<times> 'w net_sched \<times> op_type" where
  "async_receive_with_flags_null K E impl in_flags i is_continuation s =
     (let (impl, s) = service_start_op K E impl (receive_type in_flags) (SockOp i WaitOp) is_continuation False False
                        (set_flags_out i 0 s)
      in (impl, s, ReadOp))"

section \<open>Datagrams\<close>

definition send_to ::
  "'w sys_env \<Rightarrow> base_implementation \<Rightarrow> bool \<Rightarrow> mutable_buffer list \<Rightarrow> endpoint \<Rightarrow> 32 word \<Rightarrow> error_code \<Rightarrow> 'w
    \<Rightarrow> (nat \<times> error_code \<times> 'w) option" where
  "send_to K impl single bufs destination flags ec w =
     (if single
      then sync_sendto1 K (socket impl) (impl_state impl) (hd bufs) flags destination (endpoint_size destination) ec w
      else sync_sendto K (socket impl) (impl_state impl) (adapter_buffers bufs) flags destination
             (endpoint_size destination) ec w)"

definition async_send_to ::
  "'w sys_env \<Rightarrow> 'w net_env \<Rightarrow> base_implementation \<Rightarrow> bool \<Rightarrow> mutable_buffer list \<Rightarrow> endpoint \<Rightarrow> 32 word \<Rightarrow> nat \<Rightarrow> bool
    \<Rightarrow> 'w net_sched \<Rightarrow> base_implementation \<times> 'w net_sched \<times> op_type" where
  "async_send_to K E impl single bufs destination flags i is_continuation s =
     (let (impl, s) = service_start_op K E impl WriteOp (SockOp i (SendToOp single (socket impl) bufs flags destination))
                        is_continuation True False s
      in (impl, s, WriteOp))"

text \<open>The error that \<open>resize\<close> throws or the bytes and the error code; the kernel; the endpoint of the sender.\<close>

definition receive_from ::
  "'w sys_env \<Rightarrow> base_implementation \<Rightarrow> bool \<Rightarrow> mutable_buffer list \<Rightarrow> endpoint \<Rightarrow> 32 word \<Rightarrow> error_code \<Rightarrow> 'w
    \<Rightarrow> ((error_code + nat \<times> error_code) \<times> 'w \<times> endpoint) option" where
  "receive_from K impl single bufs sender_endpoint flags ec w =
     (case (if single
            then sync_recvfrom1 K (socket impl) (impl_state impl) (hd bufs) flags ec (w, sender_endpoint, endpoint_capacity)
            else sync_recvfrom K (socket impl) (impl_state impl) (adapter_buffers bufs) flags ec
                   (w, sender_endpoint, endpoint_capacity)) of
        None \<Rightarrow> None
      | Some (n, ec, w, sender_endpoint, addr_len) \<Rightarrow>
          Some (case (if \<not> failed ec then endpoint_resize addr_len else None) of
                  Some err \<Rightarrow> Inl err
                | None \<Rightarrow> Inr (n, ec), w, sender_endpoint))"

definition receive_from_null ::
  "'w sys_env \<Rightarrow> base_implementation \<Rightarrow> error_code \<Rightarrow> 'w \<Rightarrow> nat \<times> error_code \<times> 'w \<times> endpoint" where
  "receive_from_null K impl ec w =
     (let (ready, ec, w) = poll_read K (socket impl) (impl_state impl) (- 1) ec w in (0, ec, w, endpoint_default))"

definition async_receive_from ::
  "'w sys_env \<Rightarrow> 'w net_env \<Rightarrow> base_implementation \<Rightarrow> bool \<Rightarrow> mutable_buffer list \<Rightarrow> 32 word \<Rightarrow> nat \<Rightarrow> bool \<Rightarrow> 'w net_sched
    \<Rightarrow> base_implementation \<times> 'w net_sched \<times> op_type" where
  "async_receive_from K E impl single bufs flags i is_continuation s =
     (let (impl, s) = service_start_op K E impl (receive_type flags) (SockOp i (RecvFromOp single (socket impl) bufs flags))
                        is_continuation True False s
      in (impl, s, ReadOp))"

definition set_sender :: "nat \<Rightarrow> endpoint \<Rightarrow> 'w net_sched \<Rightarrow> 'w net_sched" where
  "set_sender i addr s = set_net ((os (world s))\<lparr>sender := (sender (os (world s)))(i := addr)\<rparr>) s"

definition async_receive_from_null ::
  "'w sys_env \<Rightarrow> 'w net_env \<Rightarrow> base_implementation \<Rightarrow> 32 word \<Rightarrow> nat \<Rightarrow> bool \<Rightarrow> 'w net_sched
    \<Rightarrow> base_implementation \<times> 'w net_sched \<times> op_type" where
  "async_receive_from_null K E impl flags i is_continuation s =
     (let (impl, s) = service_start_op K E impl (receive_type flags) (SockOp i WaitOp) is_continuation False False
                        (set_sender i endpoint_default s)
      in (impl, s, ReadOp))"

section \<open>Names and the blocking accept\<close>

text \<open>The endpoint, or the error that \<open>resize\<close> throws; the error code; the kernel.\<close>

definition named_endpoint ::
  "int \<times> endpoint \<times> nat \<times> error_code \<times> 'w \<Rightarrow> (error_code + endpoint) \<times> error_code \<times> 'w" where
  "named_endpoint answer =
     (case answer of (result, addr, addr_len, ec, w) \<Rightarrow>
        (if result \<noteq> 0 then Inr endpoint_default
         else case endpoint_resize addr_len of Some err \<Rightarrow> Inl err | None \<Rightarrow> Inr addr, ec, w))"

definition local_endpoint ::
  "'w sys_env \<Rightarrow> base_implementation \<Rightarrow> error_code \<Rightarrow> 'w \<Rightarrow> (error_code + endpoint) \<times> error_code \<times> 'w" where
  "local_endpoint K impl ec w = named_endpoint (getsockname K (socket impl) endpoint_default endpoint_capacity ec w)"

definition remote_endpoint ::
  "'w sys_env \<Rightarrow> base_implementation \<Rightarrow> error_code \<Rightarrow> 'w \<Rightarrow> (error_code + endpoint) \<times> error_code \<times> 'w" where
  "remote_endpoint K impl ec w = named_endpoint (getpeername K (socket impl) endpoint_default endpoint_capacity False ec w)"

text \<open>
  Without an endpoint for the address of the peer. \<open>new_socket\<close> is a \<open>socket_holder\<close>: if the peer cannot be
  given the descriptor, its destructor closes it.
\<close>

definition accept_blocking ::
  "'w sys_env \<Rightarrow> 'w net_env \<Rightarrow> base_implementation \<Rightarrow> int \<Rightarrow> base_implementation \<Rightarrow> error_code \<Rightarrow> 'w net_sched
    \<Rightarrow> (base_implementation \<times> error_code \<times> 'w net_sched) option" where
  "accept_blocking K E impl sock_type peer ec s =
     (if is_open peer then Some (peer, misc_ec already_open, s)
      else case sync_accept K (socket impl) (impl_state impl) ec (kernel_of s) of
             None \<Rightarrow> None
           | Some (new_socket, ec, w) \<Rightarrow>
               let s = set_kernel w s
               in if new_socket \<noteq> invalid_socket
                  then let (peer, ec, s) = do_assign E peer sock_type new_socket s
                       in if failed ec
                          then let (result, state, ignored_ec, w) = socket_close K new_socket 0 True ec_success (kernel_of s)
                               in Some (peer, ec, set_kernel w s)
                          else Some (peer, ec, s)
                  else Some (peer, ec, s))"

end
