(* ===== verification/DatagramSpec.thy ===== *)
theory DatagramSpec
  imports ServiceSpec DatagramService
begin

text \<open>
  Datagrams through the socket service: an asynchronous receive down to the kernel and back, the blocking calls in both modes of
  the user, and waiting without a transfer.
\<close>

section \<open>An asynchronous receive with the sender\<close>

definition received_from :: "nat \<Rightarrow> endpoint \<Rightarrow> (sock_op, 'w net) reactor \<Rightarrow> (sock_op, 'w net) reactor" where
  "received_from i addr r = r\<lparr>os := (os r)\<lparr>sender := (sender (os r))(i := addr)\<rparr>\<rparr>"

lemma received_from_simps [simp]: "queues (received_from i addr r) = queues r"
  "state_at d (received_from i addr r) = state_at d r"
  "rop_ec (received_from i addr r) = rop_ec r" "rop_bytes (received_from i addr r) = rop_bytes r"
  "kernel (os (received_from i addr r)) = kernel (os r)" "sender (os (received_from i addr r)) i = addr"
  by (simp_all add: received_from_def queues_def state_at_def fun_eq_iff)

lemma perform_receive_from:
  assumes "answered (recvfrom_call K single fd bufs flags) (kernel (os r), sender (os r) i, 28) a errno (w, addr, len)"
    and "recv_result False a errno = (st, ec, n)" "failed ec \<or> len \<le> 128"
    and opn: "opn = SockOp i (RecvFromOp single fd bufs flags)"
  shows "perform (socket_env K E) opn r = (st, received_from i addr (received opn ec n w r))"
proof -
  have "recvfrom_perform K single fd bufs flags ec_success 0 (kernel (os r)) (sender (os r) i) = Some (Inr (st, ec, n), w, addr)"
    using assms(1-3) unfolding recvfrom_perform_transfer transfer_map_iff split_paired_Ex prod.case named_status endpoint_capacity_def
    by blast
  then show ?thesis by (simp add: perform_def socket_env_def op_perform_def opn received_def received_from_def)
qed

text \<open>An asynchronous receive on an idle, open socket takes the datagram that the kernel has, if there is one: the
  first answer that is not a signal decides, and its address is in the caller's endpoint when the operation is posted
  to the scheduler. With nothing there it waits as the only read of its descriptor.\<close>

theorem async_receive_from_takes_what_is_there:
  assumes idle: "has (impl_state impl) non_blocking" "reactor_data impl = Some d"
      "\<not> ds_shutdown (state_at d (world s))" "registered_events (state_at d (world s)) \<noteq> 0"
      "queues (world s) d ReadOp = []" "queues (world s) d ExceptOp = []" "try_speculative (state_at d (world s)) ReadOp"
    and flags: "flags AND message_out_of_band = 0"
    and answer: "answered (recvfrom_call K single (socket impl) bufs flags) (kernel_of s, sender (os (world s)) i, 28) a errno (w, addr, len)"
      "recv_result False a errno = (st, ec, n)" "failed ec \<or> len \<le> 128"
    and opn: "opn = SockOp i (RecvFromOp single (socket impl) bufs flags)"
  shows "\<exists>r. async_receive_from K (socket_env K E) impl single bufs flags i c s =
      (impl, if st = NotDone then work_started (s\<lparr>world := r\<rparr>)
             else post_immediate_completion (Operation opn) c (s\<lparr>world := r\<rparr>), ReadOp)
    \<and> rop_ec r opn = ec \<and> rop_bytes r opn = n \<and> kernel (os r) = w \<and> sender (os r) i = addr
    \<and> queues r = (if st = NotDone then (queues (world s))(d := (queues (world s) d)(ReadOp := [opn])) else queues (world s))"
proof -
  let ?E = "socket_env K E" let ?r = "received_from i addr (received opn ec n w (world s))"
  have a: "async_receive_from K ?E impl single bufs flags i c s =
      (impl, start_op ?E ReadOp (socket impl) (Some d) opn c True s, ReadOp)"
    using idle(1,2) flags by (simp add: async_receive_from_def service_start_op_def receive_type_def opn)
  have p: "perform ?E opn (world s) = (st, ?r)"
    by (rule perform_receive_from [OF answer(1) [unfolded kernel_of_def] answer(2,3) opn])
  have "queues ?r = queues (world s)" "state_at d ?r = state_at d (world s)" by simp_all
  from start_idle_read [OF idle(3-7) p this, of "socket impl" c] show ?thesis unfolding a by auto
qed

section \<open>Blocking calls\<close>

lemma beside_attempt: "beside (attempt_of p) = attempt_of (\<lambda>(w, x). let (r, errno, w) = p w in (r, errno, (w, x)))"
  by (auto simp: beside_def attempt_of_def fun_eq_iff Let_def split: prod.splits)

text \<open>The result of \<open>receive_from\<close> by what its loop returns.\<close>

definition from_result :: "nat \<times> error_code \<times> 'w \<times> endpoint \<times> nat \<Rightarrow> (error_code + nat \<times> error_code) \<times> 'w \<times> endpoint" where
  "from_result = (\<lambda>(n, ec, w, addr, len). (if \<not> failed ec \<and> len > 128 then Inl (basic_ec invalid_argument) else Inr (n, ec), w, addr))"

definition poll_beside :: "'w sys_env \<Rightarrow> int \<Rightarrow> 'w \<times> 'x \<Rightarrow> ('w \<times> 'x) sys_result" where
  "poll_beside K fd = (\<lambda>(w, x). let (r, errno, w) = sys_poll K fd POLLIN (- 1) w in (r, errno, (w, x)))"

lemma bad_descriptor_failed [simp]: "failed (basic_ec bad_descriptor)"
  by (simp add: failed_def basic_ec_def)

lemma receive_from_transfer:
  "receive_from K impl single bufs addr flags ec_success w =
     (if \<not> is_open impl then Some (Inr (0, basic_ec bad_descriptor), w, addr)
      else map_option from_result (sync_transfer (attempt_of (recvfrom_call K single (socket impl) bufs flags))
             (attempt_of (poll_beside K (socket impl))) False (impl_state impl) ec_success (w, addr, 28)))"
  unfolding datagram_attempts(1) [symmetric] poll_beside_def beside_attempt [symmetric]
  by (auto simp: receive_from_def sync_recvfrom1_def sync_recvfrom_def is_open_def poll_attempt from_result_def
      endpoint_resize_def sockaddr_storage_size_def endpoint_capacity_def split: option.splits)

lemma send_to_transfer:
  "send_to K impl single bufs addr flags ec_success w =
     (if \<not> is_open impl then Some (0, basic_ec bad_descriptor, w)
      else sync_transfer (attempt_of (sendto_call K single (socket impl) bufs flags addr))
             (attempt_of (sys_poll K (socket impl) POLLOUT (- 1))) False (impl_state impl) ec_success w)"
  unfolding datagram_attempts(2) [symmetric]
  by (simp add: send_to_def sync_sendto1_def sync_sendto_def is_open_def poll_attempt)

lemma from_result_iff:
  "map_option from_result x = Some (Inr (n, ec), w, addr) \<longleftrightarrow> (\<exists>len. x = Some (n, ec, w, addr, len) \<and> (failed ec \<or> len \<le> 128))"
  by (cases x) (auto simp: from_result_def split: prod.splits if_splits)

text \<open>A blocking \<open>receive_from\<close> or \<open>send_to\<close>. If the user made the socket non-blocking there is one call and its answer
  is the result; otherwise it waits in \<open>poll\<close> after every \<open>EWOULDBLOCK\<close> and returns the first other answer or
  the error of a failed \<open>poll\<close>. The endpoint is that of the last answer.\<close>

theorem blocking_datagrams_follow_the_user_mode:
  "(if \<not> is_open impl
    then receive_from K impl single bufs addr flags ec_success w = Some (Inr (0, basic_ec bad_descriptor), w, addr)
      \<and> send_to K impl single bufs addr flags ec_success w = Some (0, basic_ec bad_descriptor, w)
    else if has (impl_state impl) user_set_non_blocking
    then receive_from K impl single bufs addr flags ec_success w =
           Some (from_result (one_shot False (recvfrom_call K single (socket impl) bufs flags (w, addr, 28))))
      \<and> send_to K impl single bufs addr flags ec_success w =
           Some (one_shot False (sendto_call K single (socket impl) bufs flags addr w))
    else (receive_from K impl single bufs addr flags ec_success w = Some (Inr (n, ec), w', addr') \<longleftrightarrow>
            (\<exists>v len. waited (recvfrom_call K single (socket impl) bufs flags) (poll_beside K (socket impl)) (w, addr, 28) v
               \<and> transferred False (recvfrom_call K single (socket impl) bufs flags) (poll_beside K (socket impl)) v n ec (w', addr', len)
               \<and> (failed ec \<or> len \<le> 128)))
      \<and> (send_to K impl single bufs addr flags ec_success w = Some (n, ec, w') \<longleftrightarrow>
            (\<exists>v. waited (sendto_call K single (socket impl) bufs flags addr) (sys_poll K (socket impl) POLLOUT (- 1)) w v
               \<and> transferred False (sendto_call K single (socket impl) bufs flags addr)
                   (sys_poll K (socket impl) POLLOUT (- 1)) v n ec w')))"
proof -
  let ?f = "recvfrom_call K single (socket impl) bufs flags" let ?p = "poll_beside K (socket impl)"
  have "map_option from_result (sync_transfer (attempt_of ?f) (attempt_of ?p) False (impl_state impl) ec_success (w, addr, 28))
      = Some (Inr (n, ec), w', addr') \<longleftrightarrow>
    (\<exists>v len. waited ?f ?p (w, addr, 28) v \<and> transferred False ?f ?p v n ec (w', addr', len) \<and> (failed ec \<or> len \<le> 128))"
    if "\<not> has (impl_state impl) user_set_non_blocking"
  proof -
    show ?thesis unfolding from_result_iff sync_transfer_iff [OF that success_category] by blast
  qed
  then show ?thesis
    by (simp add: receive_from_transfer send_to_transfer sync_transfer_iff sync_transfer_one_shot)
qed

end
