(* ===== verification/Channel.thy ===== *)
theory Channel
  imports Prelude
begin

text \<open>
  Channels, \<^verbatim>\<open>asio/experimental/detail/channel_service.hpp\<close> and \<^verbatim>\<open>asio/experimental/detail/impl/channel_service.hpp\<close>.

  A channel is a record of its members; every member function of the service runs under the channel's mutex and is one
  function here, so a history of calls is also any interleaving of threads. The queue of waiting operations holds
  \<open>channel_send\<close> and \<open>channel_receive\<close> objects, which the code tells apart by the states of the two ends only and
  then casts; \<open>None\<close> is the result of a call that has undefined behaviour, because the front of the queue is
  an object of the other class, or missing. Handlers are posted in the order of the list of completions that a call returns. A
  message is a value of type \<open>'m\<close>, and the traits give the messages of a receive that is closed or cancelled.

  Left out: the list of all channels of a service, and the templates that pack messages and handlers.
\<close>

section \<open>Data\<close>

datatype channel_end = EndBuffer | EndWaiter | EndBlock | EndClosed

datatype channel_error = ChannelClosed | ChannelCancelled

text \<open>An operation has a name and a cancellation key; a send has its payload.\<close>

datatype 'm channel_op =
    ChannelSend (cop_id: nat) (cop_key: nat) 'm
  | ChannelReceive (cop_id: nat) (cop_key: nat)

datatype 'm channel_completion = SendDone nat "channel_error option" | ReceiveDone nat 'm

record 'm channel_traits =
  receive_closed :: 'm
  receive_cancelled :: 'm

record 'm channel =
  receive_end :: channel_end
  send_end :: channel_end
  max_buffer_size :: nat
  ch_buffer :: "'m list"
  ch_waiters :: "'m channel_op list"

definition open_end :: "nat \<Rightarrow> channel_end" where
  "open_end max_size = (if max_size \<noteq> 0 then EndBuffer else EndBlock)"

definition new_channel :: "nat \<Rightarrow> 'm channel" where
  "new_channel max_size =
     \<lparr>receive_end = EndBlock, send_end = open_end max_size, max_buffer_size = max_size, ch_buffer = [], ch_waiters = []\<rparr>"

definition channel_is_open :: "'m channel \<Rightarrow> bool" where
  "channel_is_open c \<longleftrightarrow> send_end c \<noteq> EndClosed"

definition channel_ready :: "'m channel \<Rightarrow> bool" where
  "channel_ready c \<longleftrightarrow> receive_end c \<noteq> EndBlock"

definition buffer_push :: "'m \<Rightarrow> 'm channel \<Rightarrow> 'm channel" where
  "buffer_push m c = c\<lparr>ch_buffer := ch_buffer c @ [m]\<rparr>"

definition buffer_pop :: "'m channel \<Rightarrow> 'm channel" where
  "buffer_pop c = c\<lparr>ch_buffer := tl (ch_buffer c)\<rparr>"

fun buffer_push_n :: "nat \<Rightarrow> 'm \<Rightarrow> 'm channel \<Rightarrow> nat \<times> 'm channel" where
  "buffer_push_n 0 m c = (0, c)"
| "buffer_push_n (Suc n) m c =
     (if length (ch_buffer c) < max_buffer_size c
      then let (i, c) = buffer_push_n n m (buffer_push m c) in (Suc i, c)
      else (0, c))"

section \<open>Completing waiting operations\<close>

fun complete_receive :: "'m \<Rightarrow> 'm channel_op \<Rightarrow> 'm channel_completion option" where
  "complete_receive m (ChannelReceive i k) = Some (ReceiveDone i m)"
| "complete_receive m (ChannelSend i k p) = None"

fun cancel_send :: "'m channel_op \<Rightarrow> 'm channel_completion option" where
  "cancel_send (ChannelSend i k p) = Some (SendDone i (Some ChannelCancelled))"
| "cancel_send (ChannelReceive i k) = None"

fun complete_each :: "('m channel_op \<Rightarrow> 'm channel_completion option) \<Rightarrow> 'm channel_op list \<Rightarrow> 'm channel_completion list option" where
  "complete_each f [] = Some []"
| "complete_each f (x # xs) =
     (case f x of None \<Rightarrow> None
      | Some e \<Rightarrow> (case complete_each f xs of None \<Rightarrow> None | Some es \<Rightarrow> Some (e # es)))"

section \<open>Closing and cancelling\<close>

definition channel_close :: "'m channel_traits \<Rightarrow> 'm channel \<Rightarrow> ('m channel_completion list \<times> 'm channel) option" where
  "channel_close T c =
     (if receive_end c = EndBlock
      then case complete_each (complete_receive (receive_closed T)) (ch_waiters c) of
             None \<Rightarrow> None
           | Some es \<Rightarrow> Some (es, c\<lparr>ch_waiters := [], send_end := EndClosed, receive_end := EndClosed\<rparr>)
      else Some ([], c\<lparr>send_end := EndClosed, receive_end := EndClosed\<rparr>))"

definition cancel_op :: "'m channel_traits \<Rightarrow> 'm channel \<Rightarrow> 'm channel_op \<Rightarrow> 'm channel_completion option" where
  "cancel_op T c x = (if send_end c = EndBlock then cancel_send x else complete_receive (receive_cancelled T) x)"

definition unwait :: "'m channel \<Rightarrow> 'm channel" where
  "unwait c = c\<lparr>receive_end := (if receive_end c = EndWaiter then EndBlock else receive_end c),
     send_end := (if send_end c = EndWaiter then EndBlock else send_end c)\<rparr>"

definition channel_cancel :: "'m channel_traits \<Rightarrow> 'm channel \<Rightarrow> ('m channel_completion list \<times> 'm channel) option" where
  "channel_cancel T c =
     (case complete_each (cancel_op T c) (ch_waiters c) of
        None \<Rightarrow> None
      | Some es \<Rightarrow> Some (es, unwait (c\<lparr>ch_waiters := []\<rparr>)))"

definition channel_cancel_by_key ::
  "'m channel_traits \<Rightarrow> nat \<Rightarrow> 'm channel \<Rightarrow> ('m channel_completion list \<times> 'm channel) option" where
  "channel_cancel_by_key T key c =
     (case complete_each (cancel_op T c) (filter (\<lambda>x. cop_key x = key) (ch_waiters c)) of
        None \<Rightarrow> None
      | Some es \<Rightarrow>
          let c = c\<lparr>ch_waiters := filter (\<lambda>x. cop_key x \<noteq> key) (ch_waiters c)\<rparr>
          in Some (es, if ch_waiters c = [] then unwait c else c))"

definition channel_reset :: "'m channel_traits \<Rightarrow> 'm channel \<Rightarrow> ('m channel_completion list \<times> 'm channel) option" where
  "channel_reset T c =
     (case channel_cancel T c of
        None \<Rightarrow> None
      | Some (es, c) \<Rightarrow>
          Some (es, c\<lparr>receive_end := EndBlock, send_end := open_end (max_buffer_size c), ch_buffer := []\<rparr>))"

text \<open>\<open>destroy\<close> cancels; what is left is the list of channels.\<close>

definition channel_destroy :: "'m channel_traits \<Rightarrow> 'm channel \<Rightarrow> 'm channel_completion list option" where
  "channel_destroy T c = (case channel_cancel T c of None \<Rightarrow> None | Some (es, c) \<Rightarrow> Some es)"

text \<open>The new and the moved-from channel. The waiting operations stay where they are.\<close>

definition channel_move_construct :: "'m channel \<Rightarrow> 'm channel \<times> 'm channel" where
  "channel_move_construct other =
     (\<lparr>receive_end = receive_end other, send_end = send_end other, max_buffer_size = max_buffer_size other,
       ch_buffer = ch_buffer other, ch_waiters = []\<rparr>,
      other\<lparr>receive_end := EndBlock, send_end := open_end (max_buffer_size other), ch_buffer := []\<rparr>)"

text \<open>The completions are those of the cancelled operations of the target.\<close>

definition channel_move_assign ::
  "'m channel_traits \<Rightarrow> 'm channel \<Rightarrow> 'm channel \<Rightarrow> ('m channel_completion list \<times> 'm channel \<times> 'm channel) option" where
  "channel_move_assign T c other =
     (case channel_cancel T c of
        None \<Rightarrow> None
      | Some (es, c) \<Rightarrow>
          Some (es, c\<lparr>max_buffer_size := max_buffer_size other, receive_end := receive_end other, send_end := send_end other,
                      ch_buffer := ch_buffer other\<rparr>,
                other\<lparr>receive_end := EndBlock, send_end := open_end (max_buffer_size other), ch_buffer := []\<rparr>))"

section \<open>Sending\<close>

text \<open>The first waiting operation gets the message, as a receive.\<close>

definition give :: "'m \<Rightarrow> 'm channel \<Rightarrow> ('m channel_completion \<times> 'm channel) option" where
  "give m c =
     (case ch_waiters c of
        [] \<Rightarrow> None
      | x # xs \<Rightarrow>
          (case complete_receive m x of
             None \<Rightarrow> None
           | Some e \<Rightarrow>
               Some (e, c\<lparr>ch_waiters := xs, send_end := (if xs = [] then open_end (max_buffer_size c) else send_end c)\<rparr>)))"

definition put :: "'m \<Rightarrow> 'm channel \<Rightarrow> 'm channel" where
  "put m c =
     (let c = (buffer_push m c)\<lparr>receive_end := EndBuffer\<rparr>
      in if length (ch_buffer c) = max_buffer_size c then c\<lparr>send_end := EndBlock\<rparr> else c)"

definition try_send :: "'m \<Rightarrow> 'm channel \<Rightarrow> (bool \<times> 'm channel_completion list \<times> 'm channel) option" where
  "try_send m c =
     (case send_end c of
        EndBlock \<Rightarrow> Some (False, [], c)
      | EndBuffer \<Rightarrow> Some (True, [], put m c)
      | EndWaiter \<Rightarrow> (case give m c of None \<Rightarrow> None | Some (e, c) \<Rightarrow> Some (True, [e], c))
      | EndClosed \<Rightarrow> Some (False, [], c))"

text \<open>The loop with \<open>n\<close> rounds to go.\<close>

fun try_send_loop :: "nat \<Rightarrow> 'm \<Rightarrow> 'm channel \<Rightarrow> (nat \<times> 'm channel_completion list \<times> 'm channel) option" where
  "try_send_loop 0 m c = Some (0, [], c)"
| "try_send_loop (Suc n) m c =
     (case send_end c of
        EndBlock \<Rightarrow> Some (0, [], c)
      | EndBuffer \<Rightarrow>
          (let (i, c) = buffer_push_n (Suc n) m c;
               c = c\<lparr>receive_end := EndBuffer\<rparr>
           in Some (i, [], if length (ch_buffer c) = max_buffer_size c then c\<lparr>send_end := EndBlock\<rparr> else c))
      | EndWaiter \<Rightarrow>
          (case give m c of
             None \<Rightarrow> None
           | Some (e, c) \<Rightarrow>
               (case try_send_loop n m c of None \<Rightarrow> None | Some (i, es, c) \<Rightarrow> Some (Suc i, e # es, c)))
      | EndClosed \<Rightarrow> Some (0, [], c))"

definition try_send_n :: "nat \<Rightarrow> 'm \<Rightarrow> 'm channel \<Rightarrow> (nat \<times> 'm channel_completion list \<times> 'm channel) option" where
  "try_send_n n m c =
     (if n = 0 \<or> send_end c = EndBlock \<or> send_end c = EndClosed then Some (0, [], c)
      else try_send_loop n m c)"

definition start_send :: "nat \<Rightarrow> nat \<Rightarrow> 'm \<Rightarrow> 'm channel \<Rightarrow> ('m channel_completion list \<times> 'm channel) option" where
  "start_send i key m c =
     (case send_end c of
        EndBlock \<Rightarrow>
          Some ([], c\<lparr>ch_waiters := ch_waiters c @ [ChannelSend i key m],
                      receive_end := (if receive_end c = EndBlock then EndWaiter else receive_end c)\<rparr>)
      | EndBuffer \<Rightarrow> Some ([SendDone i None], put m c)
      | EndWaiter \<Rightarrow> (case give m c of None \<Rightarrow> None | Some (e, c) \<Rightarrow> Some ([e, SendDone i None], c))
      | EndClosed \<Rightarrow> Some ([SendDone i (Some ChannelClosed)], c))"

section \<open>Receiving\<close>

text \<open>What is left of the front of the queue, taken as a send: its name and payload, and the other waiting operations.\<close>

fun front_send :: "'m channel_op list \<Rightarrow> (nat \<times> 'm \<times> 'm channel_op list) option" where
  "front_send (ChannelSend i k m # xs) = Some (i, m, xs)"
| "front_send _ = None"

text \<open>The message in front of the buffer, and, if a send waits, its message at the back.\<close>

definition take_buffered :: "'m channel \<Rightarrow> ('m \<times> 'm channel_completion list \<times> 'm channel) option" where
  "take_buffered c =
     (case ch_buffer c of
        [] \<Rightarrow> None
      | m # ms \<Rightarrow>
          if ch_waiters c \<noteq> []
          then case front_send (ch_waiters c) of
                 None \<Rightarrow> None
               | Some (i, p, xs) \<Rightarrow> Some (m, [SendDone i None], (buffer_push p (buffer_pop c))\<lparr>ch_waiters := xs\<rparr>)
          else let c = buffer_pop c
               in Some (m, [], c\<lparr>receive_end := (if ch_buffer c = [] then if send_end c = EndClosed then EndClosed else EndBlock
                                                else receive_end c),
                                send_end := (if send_end c = EndClosed then EndClosed else EndBuffer)\<rparr>))"

definition take_waiting :: "'m channel \<Rightarrow> ('m \<times> 'm channel_completion list \<times> 'm channel) option" where
  "take_waiting c =
     (case front_send (ch_waiters c) of
        None \<Rightarrow> None
      | Some (i, p, xs) \<Rightarrow>
          Some (p, [SendDone i None],
                c\<lparr>ch_waiters := xs,
                  receive_end := (if xs = [] then if send_end c = EndClosed then EndClosed else EndBlock else receive_end c)\<rparr>))"

text \<open>The message that the handler is called with, if there is one.\<close>

definition try_receive :: "'m channel \<Rightarrow> ('m option \<times> 'm channel_completion list \<times> 'm channel) option" where
  "try_receive c =
     (case receive_end c of
        EndBlock \<Rightarrow> Some (None, [], c)
      | EndBuffer \<Rightarrow> (case take_buffered c of None \<Rightarrow> None | Some (m, es, c) \<Rightarrow> Some (Some m, es, c))
      | EndWaiter \<Rightarrow> (case take_waiting c of None \<Rightarrow> None | Some (m, es, c) \<Rightarrow> Some (Some m, es, c))
      | EndClosed \<Rightarrow> Some (None, [], c))"

definition start_receive ::
  "'m channel_traits \<Rightarrow> nat \<Rightarrow> nat \<Rightarrow> 'm channel \<Rightarrow> ('m channel_completion list \<times> 'm channel) option" where
  "start_receive T i key c =
     (case receive_end c of
        EndBlock \<Rightarrow>
          Some ([], c\<lparr>ch_waiters := ch_waiters c @ [ChannelReceive i key],
                      send_end := (if send_end c \<noteq> EndClosed then EndWaiter else send_end c)\<rparr>)
      | EndBuffer \<Rightarrow>
          (case take_buffered c of None \<Rightarrow> None | Some (m, es, c) \<Rightarrow> Some (ReceiveDone i m # es, c))
      | EndWaiter \<Rightarrow>
          (case take_waiting c of None \<Rightarrow> None | Some (m, es, c) \<Rightarrow> Some (es @ [ReceiveDone i m], c))
      | EndClosed \<Rightarrow> Some ([ReceiveDone i (receive_closed T)], c))"

end
