(* ===== verification/ChannelSpec.thy ===== *)
theory ChannelSpec
  imports Channel "HOL-Library.Sublist"
begin

text \<open>
  A channel is a bounded queue: in every history of calls, by whatever threads, messages come out in the order in which
  they went in, none twice, and no call takes a waiting operation for one of the other kind, unless the channel
  is closed while sends wait.
\<close>

section \<open>Views and invariant\<close>

fun is_send :: "'m channel_op \<Rightarrow> bool" where
  "is_send (ChannelSend i k m) \<longleftrightarrow> True"
| "is_send (ChannelReceive i k) \<longleftrightarrow> False"

fun payloads :: "'m channel_op list \<Rightarrow> 'm list" where
  "payloads [] = []"
| "payloads (ChannelSend i k m # xs) = m # payloads xs"
| "payloads (ChannelReceive i k # xs) = payloads xs"

lemma payloads_append [simp]: "payloads (xs @ ys) = payloads xs @ payloads ys"
  by (induction xs rule: payloads.induct) simp_all

lemma payloads_filter: "subseq (payloads (filter P xs)) (payloads xs)"
  by (induction xs rule: payloads.induct) auto

text \<open>The messages in the channel, those of waiting sends included.\<close>

definition in_channel :: "'m channel \<Rightarrow> 'm list" where
  "in_channel c = ch_buffer c @ payloads (ch_waiters c)"

definition sends_wait :: "'m channel \<Rightarrow> bool" where
  "sends_wait c \<longleftrightarrow> (\<exists>x \<in> set (ch_waiters c). is_send x)"

definition receives_wait :: "'m channel \<Rightarrow> bool" where
  "receives_wait c \<longleftrightarrow> (\<exists>x \<in> set (ch_waiters c). \<not> is_send x)"

text \<open>The four situations of a channel: nothing waits, receives wait, sends wait, closed.\<close>

definition idle_ok :: "'m channel \<Rightarrow> bool" where
  "idle_ok c \<longleftrightarrow> ch_waiters c = [] \<and> length (ch_buffer c) \<le> max_buffer_size c
     \<and> receive_end c = (if ch_buffer c = [] then EndBlock else EndBuffer)
     \<and> (if send_end c = EndBlock then ch_buffer c = [] \<or> length (ch_buffer c) = max_buffer_size c
        else send_end c = EndBuffer \<and> length (ch_buffer c) < max_buffer_size c)"

definition receiving_ok :: "'m channel \<Rightarrow> bool" where
  "receiving_ok c \<longleftrightarrow> ch_waiters c \<noteq> [] \<and> list_all (\<lambda>x. \<not> is_send x) (ch_waiters c) \<and> ch_buffer c = []
     \<and> receive_end c = EndBlock \<and> send_end c = EndWaiter"

definition sending_ok :: "'m channel \<Rightarrow> bool" where
  "sending_ok c \<longleftrightarrow> ch_waiters c \<noteq> [] \<and> list_all is_send (ch_waiters c) \<and> length (ch_buffer c) \<le> max_buffer_size c
     \<and> send_end c = EndBlock \<and> receive_end c = (if ch_buffer c = [] then EndWaiter else EndBuffer)
     \<and> (ch_buffer c = [] \<or> length (ch_buffer c) = max_buffer_size c)"

definition closed_ok :: "'m channel \<Rightarrow> bool" where
  "closed_ok c \<longleftrightarrow> ch_waiters c = [] \<and> length (ch_buffer c) \<le> max_buffer_size c \<and> receive_end c = EndClosed \<and> send_end c = EndClosed"

definition channel_ok :: "'m channel \<Rightarrow> bool" where
  "channel_ok c \<longleftrightarrow> idle_ok c \<or> receiving_ok c \<or> sending_ok c \<or> closed_ok c"

lemmas situation_defs = idle_ok_def receiving_ok_def sending_ok_def closed_ok_def

section \<open>Calls\<close>

datatype 'm channel_call =
    TrySend 'm | TrySendN nat 'm | Send nat nat 'm | TryReceive | Receive nat nat
  | CloseChannel | CancelAll | CancelKey nat | ResetChannel

fun received_messages :: "'m channel_completion list \<Rightarrow> 'm list" where
  "received_messages [] = []"
| "received_messages (ReceiveDone i m # es) = m # received_messages es"
| "received_messages (SendDone i ec # es) = received_messages es"

text \<open>What a call makes the channel accept and deliver, the completions it posts, and the channel after it.\<close>

fun call_channel :: "'m channel_traits \<Rightarrow> 'm channel_call \<Rightarrow> 'm channel
    \<Rightarrow> ('m list \<times> 'm list \<times> 'm channel_completion list \<times> 'm channel) option" where
  "call_channel T (TrySend m) c = map_option (\<lambda>(ok, es, c). (if ok then [m] else [], received_messages es, es, c)) (try_send m c)"
| "call_channel T (TrySendN n m) c = map_option (\<lambda>(i, es, c). (replicate i m, received_messages es, es, c)) (try_send_n n m c)"
| "call_channel T (Send i key m) c =
     map_option (\<lambda>(es, c'). (if channel_is_open c then [m] else [], received_messages es, es, c')) (start_send i key m c)"
| "call_channel T TryReceive c = map_option (\<lambda>(r, es, c). ([], case r of None \<Rightarrow> [] | Some m \<Rightarrow> [m], es, c)) (try_receive c)"
| "call_channel T (Receive i key) c =
     map_option (\<lambda>(es, c'). ([], if channel_is_open c then received_messages es else [], es, c')) (start_receive T i key c)"
| "call_channel T CloseChannel c = map_option (\<lambda>(es, c). ([], [], es, c)) (channel_close T c)"
| "call_channel T CancelAll c = map_option (\<lambda>(es, c). ([], [], es, c)) (channel_cancel T c)"
| "call_channel T (CancelKey key) c = map_option (\<lambda>(es, c). ([], [], es, c)) (channel_cancel_by_key T key c)"
| "call_channel T ResetChannel c = map_option (\<lambda>(es, c). ([], [], es, c)) (channel_reset T c)"

fun drops_messages :: "'m channel_call \<Rightarrow> bool" where
  "drops_messages CancelAll \<longleftrightarrow> True"
| "drops_messages (CancelKey key) \<longleftrightarrow> True"
| "drops_messages ResetChannel \<longleftrightarrow> True"
| "drops_messages _ \<longleftrightarrow> False"

definition allowed :: "'m channel_call \<Rightarrow> 'm channel \<Rightarrow> bool" where
  "allowed call c \<longleftrightarrow> \<not> (call = CloseChannel \<and> sends_wait c)"

text \<open>What a call does to a channel in order.\<close>

definition call_ok :: "'m channel_call \<Rightarrow> 'm channel \<Rightarrow> ('m list \<times> 'm list \<times> 'm channel_completion list \<times> 'm channel) option \<Rightarrow> bool" where
  "call_ok call c res \<longleftrightarrow>
     (case res of
        None \<Rightarrow> False
      | Some (sent, got, es, c') \<Rightarrow>
          channel_ok c' \<and> max_buffer_size c' = max_buffer_size c
          \<and> (if drops_messages call then sent = [] \<and> got = [] \<and> subseq (in_channel c') (in_channel c)
             else in_channel c @ sent = got @ in_channel c'))"

lemma idleE:
  assumes "idle_ok c"
  obtains "send_end c = EndBlock" "channel_ok c" | "send_end c = EndBuffer" "channel_ok c"
  using assms by (auto simp: idle_ok_def channel_ok_def split: if_splits)

lemma receivingE:
  assumes "receiving_ok c"
  obtains i k xs where "ch_waiters c = ChannelReceive i k # xs" "list_all (\<lambda>x. \<not> is_send x) xs" "ch_buffer c = []"
    "receive_end c = EndBlock" "send_end c = EndWaiter"
proof -
  obtain x xs where "ch_waiters c = x # xs" using assms by (cases "ch_waiters c") (auto simp: receiving_ok_def)
  moreover have "\<not> is_send x" "list_all (\<lambda>x. \<not> is_send x) xs" using assms calculation by (auto simp: receiving_ok_def)
  ultimately show thesis using that assms by (cases x) (auto simp: receiving_ok_def)
qed

lemma sendingE:
  assumes "sending_ok c"
  obtains i k m xs where "ch_waiters c = ChannelSend i k m # xs" "list_all is_send xs" "send_end c = EndBlock"
    "receive_end c = (if ch_buffer c = [] then EndWaiter else EndBuffer)" "ch_buffer c = [] \<or> length (ch_buffer c) = max_buffer_size c"
proof -
  obtain x xs where "ch_waiters c = x # xs" using assms by (cases "ch_waiters c") (auto simp: sending_ok_def)
  moreover have "is_send x" "list_all is_send xs" using assms calculation by (auto simp: sending_ok_def)
  ultimately show thesis using that assms by (cases x) (auto simp: sending_ok_def)
qed

lemma payloads_receives [simp]: "list_all (\<lambda>x. \<not> is_send x) xs \<Longrightarrow> payloads xs = []"
  by (induction xs rule: payloads.induct) simp_all

lemma put_ok:
  assumes "ch_waiters c = []" "send_end c = EndBuffer" "length (ch_buffer c) < max_buffer_size c"
  shows "idle_ok (put m c)" "in_channel (put m c) = in_channel c @ [m]" "max_buffer_size (put m c) = max_buffer_size c"
  using assms by (auto simp: put_def buffer_push_def idle_ok_def in_channel_def Let_def)

lemma give_ok:
  assumes "receiving_ok c"
  obtains i c' where "give m c = Some (ReceiveDone i m, c')" "channel_ok c'" "max_buffer_size c' = max_buffer_size c"
    "in_channel c = []" "in_channel c' = []" "send_end c' \<noteq> EndClosed"
    "receiving_ok c' \<or> idle_ok c' \<and> (send_end c' = EndBlock \<or> send_end c' = EndBuffer)"
proof -
  obtain i k xs where w: "ch_waiters c = ChannelReceive i k # xs" "list_all (\<lambda>x. \<not> is_send x) xs" "ch_buffer c = []"
    "receive_end c = EndBlock" "send_end c = EndWaiter" by (rule receivingE [OF assms])
  show thesis
    by (rule that [of i "c\<lparr>ch_waiters := xs, send_end := (if xs = [] then open_end (max_buffer_size c) else send_end c)\<rparr>"])
      (use w in \<open>auto simp: give_def channel_ok_def situation_defs in_channel_def open_end_def\<close>)
qed

lemma channel_ok_cases:
  assumes "channel_ok c"
  obtains "idle_ok c" | "receiving_ok c" | "sending_ok c" | "closed_ok c"
  using assms by (auto simp: channel_ok_def)

lemma channel_ok_intros [simp]: "idle_ok c \<Longrightarrow> channel_ok c" "receiving_ok c \<Longrightarrow> channel_ok c" "sending_ok c \<Longrightarrow> channel_ok c" "closed_ok c \<Longrightarrow> channel_ok c"
  by (simp_all add: channel_ok_def)

lemma nothing_ok [simp]: "channel_ok c \<Longrightarrow> call_ok call c (Some ([], [], es, c))"
  by (simp add: call_ok_def)

text \<open>A message put into the buffer, or given to the first waiting receive.\<close>

lemma put_call_ok:
  "idle_ok c \<Longrightarrow> send_end c = EndBuffer \<Longrightarrow> \<not> drops_messages call \<Longrightarrow> call_ok call c (Some ([m], [], es, put m c))"
  using put_ok [of c m] by (simp add: call_ok_def idle_ok_def [of c])

lemma give_call_ok:
  "channel_ok c' \<Longrightarrow> max_buffer_size c' = max_buffer_size c \<Longrightarrow> in_channel c = [] \<Longrightarrow> in_channel c' = []
    \<Longrightarrow> \<not> drops_messages call \<Longrightarrow> call_ok call c (Some ([m], [m], es, c'))"
  by (simp add: call_ok_def)

lemma try_send_ok: "channel_ok c \<Longrightarrow> call_ok (TrySend m) c (call_channel T (TrySend m) c)"
proof (elim channel_ok_cases)
  assume i: "idle_ok c"
  then show ?thesis by (rule idleE) (use put_call_ok [OF i] in \<open>simp_all add: try_send_def\<close>)
next
  assume r: "receiving_ok c"
  then obtain i c' where "give m c = Some (ReceiveDone i m, c')" "channel_ok c'" "max_buffer_size c' = max_buffer_size c"
    "in_channel c = []" "in_channel c' = []" by (rule give_ok)
  then show ?thesis using r give_call_ok [of c' c] by (simp add: try_send_def receiving_ok_def)
next
  assume s: "sending_ok c"
  then have "send_end c = EndBlock" by (simp add: sending_ok_def)
  then show ?thesis using s by (simp add: try_send_def)
next
  assume s: "closed_ok c"
  then have "send_end c = EndClosed" by (simp add: closed_ok_def)
  then show ?thesis using s by (simp add: try_send_def)
qed

lemma start_send_ok: "channel_ok c \<Longrightarrow> call_ok (Send i key m) c (call_channel T (Send i key m) c)"
proof (elim channel_ok_cases)
  assume i: "idle_ok c"
  have block: "call_ok (Send i key m) c (call_channel T (Send i key m) c)" if "send_end c = EndBlock"
    using i that by (auto simp: start_send_def channel_is_open_def call_ok_def in_channel_def channel_ok_def sending_ok_def idle_ok_def)
  from i show ?thesis
    by (rule idleE) (use block put_call_ok [OF i] in \<open>simp_all add: start_send_def channel_is_open_def\<close>)
next
  assume r: "receiving_ok c"
  then obtain j c' where "give m c = Some (ReceiveDone j m, c')" "channel_ok c'" "max_buffer_size c' = max_buffer_size c"
    "in_channel c = []" "in_channel c' = []" by (rule give_ok)
  then show ?thesis using r give_call_ok [of c' c] by (simp add: start_send_def receiving_ok_def channel_is_open_def)
next
  assume s: "sending_ok c"
  then have "send_end c = EndBlock" "sending_ok (c\<lparr>ch_waiters := ch_waiters c @ [ChannelSend i key m]\<rparr>)"
    by (simp_all add: sending_ok_def)
  moreover have "receive_end c \<noteq> EndBlock" using s by (simp add: sending_ok_def)
  ultimately show ?thesis by (simp add: start_send_def channel_is_open_def call_ok_def in_channel_def)
next
  assume s: "closed_ok c"
  then have "send_end c = EndClosed" by (simp add: closed_ok_def)
  then show ?thesis using s by (simp add: start_send_def channel_is_open_def)
qed

text \<open>The message at the front, for a receive.\<close>

lemma take_buffered_ok:
  assumes c: "idle_ok c \<or> sending_ok c" and b: "ch_buffer c \<noteq> []"
  obtains es c' where "take_buffered c = Some (hd (ch_buffer c), es, c')" "channel_ok c'" "max_buffer_size c' = max_buffer_size c"
    "in_channel c = hd (ch_buffer c) # in_channel c'" "received_messages es = []"
proof (cases "sending_ok c")
  case True
  then obtain i k m xs where w: "ch_waiters c = ChannelSend i k m # xs" "list_all is_send xs" "send_end c = EndBlock"
    "receive_end c = EndBuffer" "length (ch_buffer c) = max_buffer_size c" using b by (auto elim: sendingE)
  obtain x ys where x: "ch_buffer c = x # ys" using b by (cases "ch_buffer c") auto
  let ?c = "(buffer_push m (buffer_pop c))\<lparr>ch_waiters := xs\<rparr>"
  have "channel_ok ?c" using w x
    by (cases "xs = []") (auto simp: channel_ok_def idle_ok_def sending_ok_def buffer_push_def buffer_pop_def)
  then show thesis using that [of "[SendDone i None]" ?c] w x
    by (simp add: take_buffered_def in_channel_def buffer_push_def buffer_pop_def)
next
  case False
  then have i: "idle_ok c" using c by simp
  obtain x ys where x: "ch_buffer c = x # ys" using b by (cases "ch_buffer c") auto
  have s: "ch_waiters c = []" "send_end c \<noteq> EndClosed" "receive_end c = EndBuffer" "length (ch_buffer c) \<le> max_buffer_size c"
    using i b by (auto simp: idle_ok_def split: if_splits)
  let ?c = "(buffer_pop c)\<lparr>receive_end := (if ys = [] then EndBlock else EndBuffer), send_end := EndBuffer\<rparr>"
  have "idle_ok ?c" using s x by (auto simp: idle_ok_def buffer_pop_def)
  then show thesis using that [of "[]" ?c] s x by (simp add: take_buffered_def in_channel_def buffer_pop_def)
qed

lemma take_waiting_ok:
  assumes c: "sending_ok c" and b: "ch_buffer c = []"
  obtains i m c' where "take_waiting c = Some (m, [SendDone i None], c')" "channel_ok c'" "max_buffer_size c' = max_buffer_size c"
    "in_channel c = m # in_channel c'"
proof -
  obtain i k m xs where w: "ch_waiters c = ChannelSend i k m # xs" "list_all is_send xs" "send_end c = EndBlock"
    "receive_end c = EndWaiter" using b c by (auto elim: sendingE)
  let ?c = "c\<lparr>ch_waiters := xs, receive_end := (if xs = [] then EndBlock else EndWaiter)\<rparr>"
  have "channel_ok ?c" using w b by (cases "xs = []") (auto simp: channel_ok_def idle_ok_def sending_ok_def)
  then show thesis using that [of m i ?c] w b by (simp add: take_waiting_def in_channel_def)
qed

lemma receiving_call:
  assumes c: "channel_ok c" "channel_is_open c" "receive_end c \<noteq> EndBlock"
  obtains m es c' where "receive_end c = EndBuffer \<Longrightarrow> take_buffered c = Some (m, es, c')"
    "receive_end c = EndWaiter \<Longrightarrow> take_waiting c = Some (m, es, c')" "receive_end c = EndBuffer \<or> receive_end c = EndWaiter"
    "channel_ok c'" "max_buffer_size c' = max_buffer_size c" "in_channel c = m # in_channel c'" "received_messages es = []"
proof (cases "ch_buffer c = []")
  case True
  then have s: "sending_ok c" using c by (auto simp: channel_ok_def idle_ok_def receiving_ok_def closed_ok_def channel_is_open_def)
  then obtain i m c' where "take_waiting c = Some (m, [SendDone i None], c')" "channel_ok c'" "max_buffer_size c' = max_buffer_size c"
    "in_channel c = m # in_channel c'" using True by (rule take_waiting_ok)
  then show thesis using that [of m "[SendDone i None]" c'] True s by (simp add: sending_ok_def)
next
  case False
  then have s: "idle_ok c \<or> sending_ok c" "receive_end c = EndBuffer"
    using c by (auto simp: channel_ok_def idle_ok_def receiving_ok_def sending_ok_def closed_ok_def channel_is_open_def)
  then obtain es c' where "take_buffered c = Some (hd (ch_buffer c), es, c')" "channel_ok c'" "max_buffer_size c' = max_buffer_size c"
    "in_channel c = hd (ch_buffer c) # in_channel c'" "received_messages es = []" using False take_buffered_ok by blast
  then show thesis using that [of "hd (ch_buffer c)" es c'] s by simp
qed

lemma not_open_closed: "channel_ok c \<Longrightarrow> \<not> channel_is_open c \<Longrightarrow> closed_ok c"
  by (auto simp: channel_ok_def channel_is_open_def idle_ok_def receiving_ok_def sending_ok_def split: if_splits)

lemma try_receive_ok: "channel_ok c \<Longrightarrow> call_ok TryReceive c (call_channel T TryReceive c)"
proof (cases "channel_is_open c \<and> receive_end c \<noteq> EndBlock")
  case True
  assume "channel_ok c"
  then obtain m es c' where "receive_end c = EndBuffer \<Longrightarrow> take_buffered c = Some (m, es, c')"
    "receive_end c = EndWaiter \<Longrightarrow> take_waiting c = Some (m, es, c')" "receive_end c = EndBuffer \<or> receive_end c = EndWaiter"
    "channel_ok c'" "max_buffer_size c' = max_buffer_size c" "in_channel c = m # in_channel c'"
    using True receiving_call by metis
  then show ?thesis by (auto simp: try_receive_def call_ok_def)
next
  case False
  assume c: "channel_ok c"
  then have "receive_end c = EndBlock \<or> receive_end c = EndClosed" using False not_open_closed [of c] by (auto simp: closed_ok_def)
  then show ?thesis using c by (auto simp: try_receive_def)
qed

lemma start_receive_ok: "channel_ok c \<Longrightarrow> call_ok (Receive i key) c (call_channel T (Receive i key) c)"
proof -
  assume c: "channel_ok c"
  consider "channel_is_open c" "receive_end c \<noteq> EndBlock" | "closed_ok c" | "idle_ok c" "receive_end c = EndBlock" | "receiving_ok c"
    using not_open_closed [OF c] c by (auto simp: channel_ok_def sending_ok_def channel_is_open_def split: if_splits)
  then show ?thesis
  proof cases
    case 1
    obtain m es c' where "receive_end c = EndBuffer \<Longrightarrow> take_buffered c = Some (m, es, c')"
      "receive_end c = EndWaiter \<Longrightarrow> take_waiting c = Some (m, es, c')" "receive_end c = EndBuffer \<or> receive_end c = EndWaiter"
      "channel_ok c'" "max_buffer_size c' = max_buffer_size c" "in_channel c = m # in_channel c'" "received_messages es = []"
      using receiving_call [OF c 1] by metis
    moreover have "received_messages (es @ [ReceiveDone i m]) = received_messages es @ [m]"
      by (induction es rule: received_messages.induct) simp_all
    ultimately show ?thesis using 1(1) by (auto simp: start_receive_def call_ok_def)
  next
    case 2
    then show ?thesis by (simp add: start_receive_def channel_is_open_def closed_ok_def [of c])
  next
    case 3
    then have b: "ch_buffer c = []" "ch_waiters c = []" "send_end c \<noteq> EndClosed" by (auto simp: idle_ok_def split: if_splits)
    then have "receiving_ok (c\<lparr>ch_waiters := [ChannelReceive i key], send_end := EndWaiter\<rparr>)" using 3 by (simp add: receiving_ok_def)
    then show ?thesis using b 3 by (simp add: start_receive_def channel_is_open_def call_ok_def in_channel_def)
  next
    case 4
    then have "receiving_ok (c\<lparr>ch_waiters := ch_waiters c @ [ChannelReceive i key], send_end := EndWaiter\<rparr>)"
      by (simp add: receiving_ok_def)
    then show ?thesis using 4 by (simp add: start_receive_def channel_is_open_def call_ok_def in_channel_def receiving_ok_def [of c])
  qed
qed

section \<open>Sending many\<close>

lemma buffer_push_n_eq:
  "buffer_push_n n m c = (let i = min n (max_buffer_size c - length (ch_buffer c)) in (i, c\<lparr>ch_buffer := ch_buffer c @ replicate i m\<rparr>))"
proof (induction n arbitrary: c)
  case (Suc n)
  show ?case
  proof (cases "length (ch_buffer c) < max_buffer_size c")
    case True
    then have "min (Suc n) (max_buffer_size c - length (ch_buffer c)) = Suc (min n (max_buffer_size c - Suc (length (ch_buffer c))))"
      by simp
    then show ?thesis using True Suc.IH [of "buffer_push m c"] by (simp add: Let_def buffer_push_def)
  qed simp
qed simp

lemma try_send_loop_ok:
  assumes "channel_ok c" and "\<not> sending_ok c" and "\<not> closed_ok c"
  shows "call_ok (TrySendN n m) c (map_option (\<lambda>(i, es, c). (replicate i m, received_messages es, es, c)) (try_send_loop n m c))"
  using assms
proof (induction n arbitrary: c)
  case (Suc n)
  show ?case
  proof (cases "receiving_ok c")
    case True
    obtain i c' where g: "give m c = Some (ReceiveDone i m, c')" "channel_ok c'" "max_buffer_size c' = max_buffer_size c"
      "in_channel c = []" "in_channel c' = []" "receiving_ok c' \<or> idle_ok c'"
      by (rule give_ok [OF True]) blast
    then have "\<not> sending_ok c'" "\<not> closed_ok c'" by (auto simp: situation_defs)
    from Suc.IH [OF g(2) this] obtain k es c2 where "try_send_loop n m c' = Some (k, es, c2)" "channel_ok c2" "max_buffer_size c2 = max_buffer_size c"
      "in_channel c' @ replicate k m = received_messages es @ in_channel c2"
      using g(3) by (auto simp: call_ok_def split: option.splits)
    then show ?thesis using True g by (simp add: receiving_ok_def call_ok_def)
  next
    case False
    then have i: "idle_ok c" using Suc.prems by (auto simp: channel_ok_def)
    from i show ?thesis
    proof (rule idleE)
      assume b: "send_end c = EndBuffer"
      then have l: "ch_waiters c = []" "length (ch_buffer c) < max_buffer_size c" using i by (auto simp: idle_ok_def)
      define k where "k = min (Suc n) (max_buffer_size c - length (ch_buffer c))"
      have k: "k \<noteq> 0" "length (ch_buffer c) + k \<le> max_buffer_size c" using l by (auto simp: k_def)
      let ?c = "c\<lparr>ch_buffer := ch_buffer c @ replicate k m, receive_end := EndBuffer\<rparr>"
      let ?c2 = "if length (ch_buffer ?c) = max_buffer_size c then ?c\<lparr>send_end := EndBlock\<rparr> else ?c"
      have "try_send_loop (Suc n) m c = Some (k, [], ?c2)"
        by (simp only: try_send_loop.simps b channel_end.case buffer_push_n_eq Let_def k_def [symmetric] prod.case) simp
      moreover have "idle_ok ?c2" using k l b by (auto simp: idle_ok_def)
      moreover have "in_channel ?c2 = in_channel c @ replicate k m" using l by (simp add: in_channel_def)
      ultimately show ?thesis by (simp add: call_ok_def)
    qed simp
  qed
qed simp

lemma try_send_n_ok: "channel_ok c \<Longrightarrow> call_ok (TrySendN n m) c (call_channel T (TrySendN n m) c)"
proof (cases "send_end c = EndBlock \<or> send_end c = EndClosed")
  case False
  assume "channel_ok c"
  moreover have "\<not> sending_ok c" "\<not> closed_ok c" using False by (auto simp: sending_ok_def closed_ok_def)
  ultimately show ?thesis using try_send_loop_ok [of c n m] False by (simp add: try_send_n_def)
qed (auto simp: try_send_n_def)

section \<open>Closing and cancelling\<close>

lemma complete_each_all: "(\<And>x. x \<in> set xs \<Longrightarrow> f x \<noteq> None) \<Longrightarrow> \<exists>es. complete_each f xs = Some es"
  by (induction xs) (auto split: option.splits)

lemma complete_receives: "\<not> is_send x \<Longrightarrow> complete_receive m x \<noteq> None"
  by (cases x) simp_all

lemma cancel_defined:
  assumes "channel_ok c" and "set xs \<subseteq> set (ch_waiters c)"
  shows "\<exists>es. complete_each (cancel_op T c) xs = Some es"
proof (rule complete_each_all)
  fix x assume "x \<in> set xs"
  then have x: "x \<in> set (ch_waiters c)" using assms(2) by blast
  then have "is_send x \<longleftrightarrow> send_end c = EndBlock"
    using assms(1) by (auto simp: channel_ok_def situation_defs list_all_iff)
  then show "cancel_op T c x \<noteq> None" by (cases x) (simp_all add: cancel_op_def)
qed

lemma unwait_ok:
  assumes "channel_ok c"
  shows "channel_ok (unwait (c\<lparr>ch_waiters := []\<rparr>))"
  using assms by (auto simp: channel_ok_def situation_defs unwait_def split: if_splits)

lemma unwait_simps [simp]: "ch_buffer (unwait c) = ch_buffer c" "ch_waiters (unwait c) = ch_waiters c"
  "max_buffer_size (unwait c) = max_buffer_size c"
  by (simp_all add: unwait_def)

lemma cancel_ok:
  assumes "channel_ok c"
  shows "\<exists>es. channel_cancel T c = Some (es, unwait (c\<lparr>ch_waiters := []\<rparr>))"
  using cancel_defined [OF assms subset_refl, of T] by (auto simp: channel_cancel_def)

lemma cancel_all_ok: "channel_ok c \<Longrightarrow> call_ok CancelAll c (call_channel T CancelAll c)"
  using cancel_ok [of c T] unwait_ok [of c] by (auto simp: call_ok_def in_channel_def)

lemma reset_ok: "channel_ok c \<Longrightarrow> call_ok ResetChannel c (call_channel T ResetChannel c)"
proof -
  assume c: "channel_ok c"
  then obtain es where e: "channel_cancel T c = Some (es, unwait (c\<lparr>ch_waiters := []\<rparr>))" using cancel_ok by blast
  let ?c = "(unwait (c\<lparr>ch_waiters := []\<rparr>))\<lparr>receive_end := EndBlock, send_end := open_end (max_buffer_size c), ch_buffer := []\<rparr>"
  have "idle_ok ?c" by (simp add: idle_ok_def open_end_def)
  then show ?thesis by (simp add: channel_reset_def e call_ok_def in_channel_def)
qed

lemma cancel_key_ok: "channel_ok c \<Longrightarrow> call_ok (CancelKey key) c (call_channel T (CancelKey key) c)"
proof -
  assume c: "channel_ok c"
  let ?c = "c\<lparr>ch_waiters := filter (\<lambda>x. cop_key x \<noteq> key) (ch_waiters c)\<rparr>"
  obtain es where e: "complete_each (cancel_op T c) (filter (\<lambda>x. cop_key x = key) (ch_waiters c)) = Some es"
    using cancel_defined [OF c filter_is_subset] by blast
  have "channel_ok ?c" if "ch_waiters ?c \<noteq> []"
    using c that by (auto simp: channel_ok_def situation_defs list_all_iff)
  moreover have "channel_ok (unwait ?c)" if "ch_waiters ?c = []"
    using unwait_ok [OF c] that by simp
  ultimately have "channel_ok (if ch_waiters ?c = [] then unwait ?c else ?c)" by simp
  moreover have "subseq (in_channel (if ch_waiters ?c = [] then unwait ?c else ?c)) (in_channel c)"
  proof -
    have "in_channel (if ch_waiters ?c = [] then unwait ?c else ?c) = ch_buffer c @ payloads (filter (\<lambda>x. cop_key x \<noteq> key) (ch_waiters c))"
      by (simp add: in_channel_def)
    then show ?thesis using payloads_filter [of "\<lambda>x. cop_key x \<noteq> key" "ch_waiters c"] by (simp only: in_channel_def subseq_append')
  qed
  ultimately show ?thesis by (simp add: channel_cancel_by_key_def e Let_def call_ok_def)
qed

lemma close_ok: "channel_ok c \<Longrightarrow> \<not> sends_wait c \<Longrightarrow> call_ok CloseChannel c (call_channel T CloseChannel c)"
proof -
  assume c: "channel_ok c" "\<not> sends_wait c"
  then have "\<exists>es. complete_each (complete_receive (receive_closed T)) (ch_waiters c) = Some es"
    by (intro complete_each_all complete_receives) (auto simp: sends_wait_def)
  then obtain es where e: "complete_each (complete_receive (receive_closed T)) (ch_waiters c) = Some es" by blast
  have "\<not> sending_ok c" using c by (cases "ch_waiters c") (auto simp: sending_ok_def sends_wait_def)
  then have w: "receive_end c \<noteq> EndBlock \<longrightarrow> ch_waiters c = []" and l: "length (ch_buffer c) \<le> max_buffer_size c"
    and p: "payloads (ch_waiters c) = []"
    using c by (auto simp: channel_ok_def situation_defs)
  let ?c = "c\<lparr>ch_waiters := [], send_end := EndClosed, receive_end := EndClosed\<rparr>"
  have k: "closed_ok ?c" "in_channel ?c = in_channel c" using l p by (simp_all add: closed_ok_def in_channel_def)
  have "c\<lparr>send_end := EndClosed, receive_end := EndClosed\<rparr> = ?c" if "receive_end c \<noteq> EndBlock"
    using w that by (cases c) simp
  then show ?thesis using k by (simp add: channel_close_def e call_ok_def)
qed

lemma call_defined:
  assumes "channel_ok c" and "allowed call c"
  shows "call_ok call c (call_channel T call c)"
  using assms by (cases call) (auto intro: try_send_ok try_send_n_ok start_send_ok try_receive_ok start_receive_ok close_ok
    cancel_all_ok cancel_key_ok reset_ok simp: allowed_def simp del: call_channel.simps)

section \<open>Histories\<close>

text \<open>A history of calls: whether none has discarded messages, the messages accepted and delivered, and the channel.\<close>

inductive channel_run :: "'m channel_traits \<Rightarrow> nat \<Rightarrow> bool \<Rightarrow> 'm list \<Rightarrow> 'm list \<Rightarrow> 'm channel \<Rightarrow> bool"
  for T :: "'m channel_traits" and max_size :: nat where
  New: "channel_run T max_size True [] [] (new_channel max_size)"
| Call: "channel_run T max_size kept sent got c \<Longrightarrow> allowed call c \<Longrightarrow> call_channel T call c = Some (s, g, es, c')
    \<Longrightarrow> channel_run T max_size (kept \<and> \<not> drops_messages call) (sent @ s) (got @ g) c'"

lemma new_channel_ok: "idle_ok (new_channel max_size)"
  by (simp add: idle_ok_def new_channel_def open_end_def)

lemma channel_run_ok:
  assumes "channel_run T max_size kept sent got c"
  shows "channel_ok c \<and> max_buffer_size c = max_size \<and> subseq (got @ in_channel c) sent \<and> (kept \<longrightarrow> sent = got @ in_channel c)"
  using assms
proof (induction rule: channel_run.induct)
  case New
  show ?case by (simp add: channel_ok_intros(1) [OF new_channel_ok] in_channel_def) (simp add: new_channel_def)
next
  case (Call kept sent got c call s g es c')
  then have ok: "channel_ok c" "max_buffer_size c = max_size" "subseq (got @ in_channel c) sent" "kept \<longrightarrow> sent = got @ in_channel c" by simp_all
  have c': "channel_ok c'" "max_buffer_size c' = max_size"
    "if drops_messages call then s = [] \<and> g = [] \<and> subseq (in_channel c') (in_channel c) else in_channel c @ s = g @ in_channel c'"
    using call_defined [OF ok(1) Call.hyps(2), of T] Call.hyps(3) ok(2) by (simp_all add: call_ok_def)
  show ?case
  proof (cases "drops_messages call")
    case True
    then have "subseq (got @ in_channel c') (got @ in_channel c)" using c'(3) by (simp add: subseq_append')
    then show ?thesis using True c' ok(3) subseq_order.trans by auto
  next
    case False
    then have "subseq ((got @ in_channel c) @ s) (sent @ s)" using ok(3) by (simp only: subseq_append)
    moreover have "(got @ in_channel c) @ s = (got @ g) @ in_channel c'" using False c'(3) by simp
    ultimately show ?thesis using False c' ok(4) by auto
  qed
qed

text \<open>C24: A channel is a bounded queue. Whatever calls are made of it, by whatever threads, except that it is not closed while sends
  wait: the messages delivered, and then those in the channel, are messages accepted in the order in which they were accepted, each at most
  once; all of them, if nothing was cancelled and the channel not reset. The buffer never holds more than its capacity,
  and no receive waits while there is a message, a waiting send included.\<close>

theorem channel_is_a_bounded_queue:
  assumes "channel_run T max_size kept sent got c"
  shows "subseq (got @ in_channel c) sent \<and> (kept \<longrightarrow> sent = got @ in_channel c)
    \<and> length (ch_buffer c) \<le> max_size \<and> \<not> (receives_wait c \<and> in_channel c \<noteq> [])"
proof -
  have ok: "channel_ok c" "max_buffer_size c = max_size" using channel_run_ok [OF assms] by simp_all
  have "length (ch_buffer c) \<le> max_size" "\<not> (receives_wait c \<and> in_channel c \<noteq> [])"
    using ok by (auto simp: channel_ok_def situation_defs receives_wait_def in_channel_def list_all_iff)
  then show ?thesis using channel_run_ok [OF assms] by blast
qed

text \<open>C25: No call of a channel has undefined behaviour, in any history: it never takes a waiting operation for one of the other kind, nor an
  operation or a message that is not there; destroying the channel does not either. That excludes closing while sends wait.\<close>

theorem channel_calls_are_defined:
  assumes "channel_run T max_size kept sent got c" and "allowed call c"
  shows "call_channel T call c \<noteq> None \<and> channel_destroy T c \<noteq> None"
proof -
  have ok: "channel_ok c" using channel_run_ok [OF assms(1)] by simp
  obtain es where "channel_cancel T c = Some (es, unwait (c\<lparr>ch_waiters := []\<rparr>))" using cancel_ok [OF ok] by blast
  then show ?thesis using call_defined [OF ok assms(2), of T] by (auto simp: call_ok_def channel_destroy_def split: option.splits)
qed

text \<open>What excluding it is for: \<open>close\<close> leaves waiting sends in the queue of a channel whose ends no longer say that
  they are sends. No receive ever gets their messages or those in the buffer, and cancelling, resetting or destroying the
  channel takes them for receives, which is undefined.\<close>

theorem closing_over_waiting_sends:
  assumes run: "channel_run T max_size kept sent got c" and w: "sends_wait c"
  shows "\<exists>c'. channel_close T c = Some ([], c') \<and> in_channel c' = in_channel c \<and> ch_waiters c' = ch_waiters c
    \<and> try_receive c' = Some (None, [], c') \<and> start_receive T i key c' = Some ([ReceiveDone i (receive_closed T)], c')
    \<and> channel_cancel T c' = None \<and> channel_reset T c' = None \<and> channel_destroy T c' = None"
proof -
  have "channel_ok c" using channel_run_ok [OF run] by simp
  then have s: "sending_ok c" using w by (auto simp: channel_ok_def idle_ok_def receiving_ok_def closed_ok_def sends_wait_def list_all_iff)
  then obtain j k m xs where x: "ch_waiters c = ChannelSend j k m # xs" "receive_end c \<noteq> EndBlock" by (auto elim!: sendingE split: if_splits)
  let ?c = "c\<lparr>send_end := EndClosed, receive_end := EndClosed\<rparr>"
  have "channel_cancel T ?c = None" by (simp add: channel_cancel_def cancel_op_def x)
  then show ?thesis using x
    by (intro exI [of _ ?c]) (simp add: channel_close_def try_receive_def start_receive_def channel_reset_def channel_destroy_def in_channel_def)
qed

text \<open>Cancelling the receives that wait on a channel with a buffer closes its send end: a message can no longer be sent without waiting,
  although the buffer is empty.\<close>

theorem cancelling_receives_blocks_sends:
  assumes run: "channel_run T max_size kept sent got c" and w: "receives_wait c"
  shows "\<exists>es c'. channel_cancel T c = Some (es, c') \<and> ch_buffer c' = [] \<and> ch_waiters c' = [] \<and> max_buffer_size c' = max_size
    \<and> try_send m c' = Some (False, [], c')"
proof -
  have ok: "channel_ok c" "max_buffer_size c = max_size" using channel_run_ok [OF run] by simp_all
  then have "receiving_ok c" using w by (auto simp: channel_ok_def idle_ok_def sending_ok_def closed_ok_def receives_wait_def list_all_iff)
  then have r: "ch_buffer c = []" "send_end c = EndWaiter" by (simp_all add: receiving_ok_def)
  obtain es where "channel_cancel T c = Some (es, unwait (c\<lparr>ch_waiters := []\<rparr>))" using cancel_ok [OF ok(1)] by blast
  then show ?thesis using r ok(2) by (auto simp: try_send_def unwait_def)
qed

section \<open>Examples\<close>

text \<open>Capacity one: the first message is buffered, the second send waits, a receive gets the first message and lets the second in.\<close>

definition some_traits :: "nat channel_traits" where
  "some_traits = \<lparr>receive_closed = 1, receive_cancelled = 2\<rparr>"

definition one_in_one_waiting :: "nat channel" where
  "one_in_one_waiting = \<lparr>receive_end = EndBuffer, send_end = EndBlock, max_buffer_size = 1, ch_buffer = [10], ch_waiters = [ChannelSend 2 0 20]\<rparr>"

definition second_in :: "nat channel" where
  "second_in = \<lparr>receive_end = EndBuffer, send_end = EndBlock, max_buffer_size = 1, ch_buffer = [20], ch_waiters = []\<rparr>"

lemma one_in_one_waiting_run: "channel_run some_traits 1 True [10, 20] [] one_in_one_waiting"
proof -
  let ?c = "\<lparr>receive_end = EndBuffer, send_end = EndBlock, max_buffer_size = 1, ch_buffer = [10], ch_waiters = []\<rparr>"
  have "call_channel some_traits (TrySend 10) (new_channel 1) = Some ([10], [], [], ?c)"
    by (simp add: new_channel_def open_end_def try_send_def put_def buffer_push_def)
  from Call [OF New _ this] have 1: "channel_run some_traits 1 True [10] [] ?c" by (simp add: allowed_def)
  have "call_channel some_traits (Send 2 0 20) ?c = Some ([20], [], [], one_in_one_waiting)"
    by (simp add: start_send_def channel_is_open_def one_in_one_waiting_def)
  from Call [OF 1 _ this] show ?thesis by (simp add: allowed_def)
qed

lemma second_in_run: "channel_run some_traits 1 True [10, 20] [10] second_in"
proof -
  have "call_channel some_traits (Receive 3 0) one_in_one_waiting = Some ([], [10], [ReceiveDone 3 10, SendDone 2 None], second_in)"
    by (simp add: one_in_one_waiting_def second_in_def start_receive_def channel_is_open_def take_buffered_def buffer_push_def buffer_pop_def)
  from Call [OF one_in_one_waiting_run _ this] show ?thesis by (simp add: allowed_def)
qed

theorem channel_is_a_bounded_queue_witness:
  "channel_run some_traits 1 True [10, 20] [10] second_in \<and> [10, 20] = [10] @ in_channel second_in"
  using channel_is_a_bounded_queue [OF second_in_run] second_in_run by (simp add: in_channel_def second_in_def)

theorem channel_calls_are_defined_witness:
  "channel_run some_traits 1 True [10, 20] [] one_in_one_waiting \<and> call_channel some_traits (CancelKey 0) one_in_one_waiting \<noteq> None"
  using channel_calls_are_defined [OF one_in_one_waiting_run, of "CancelKey 0"] one_in_one_waiting_run by (simp add: allowed_def)

theorem closing_over_waiting_sends_witness:
  "\<exists>c'. channel_close some_traits one_in_one_waiting = Some ([], c') \<and> in_channel c' = [10, 20] \<and> channel_destroy some_traits c' = None"
proof -
  have w: "sends_wait one_in_one_waiting" by (simp add: sends_wait_def one_in_one_waiting_def)
  have "in_channel one_in_one_waiting = [10, 20]" by (simp add: in_channel_def one_in_one_waiting_def)
  then show ?thesis using closing_over_waiting_sends [OF one_in_one_waiting_run w] by auto
qed

end
