(* ===== verification/EpollLive.thy ===== *)
theory EpollLive
  imports EpollClose SchedulerSpec TimerContract
begin

text \<open>
  The reactor as the scheduler's task makes progress: the contract \<open>scheduler_live\<close> discharged for
  \<open>reactor_env\<close>, with any handlers and any operating system. What a call of \<open>epoll_wait\<close> must bring is stated on
  the operating system alone.
\<close>

section \<open>What the operating system has to bring\<close>

fun is_descriptor :: "epoll_ptr \<Rightarrow> bool" where
  "is_descriptor (DescriptorPtr d) = True"
| "is_descriptor _ = False"

text \<open>The events of one \<open>epoll_wait\<close> name a ready descriptor, or the timers are looked at when one is due.\<close>

definition timer_due :: "('o, 'w) os_env \<Rightarrow> ('o, 'w) reactor \<Rightarrow> 'w \<Rightarrow> bool" where
  "timer_due E r w \<longleftrightarrow> heap (timer_q r) \<noteq> [] \<and> earliest r \<le> os_now E w"

definition reports_work ::
  "('o, 'w) os_env \<Rightarrow> ('o, 'w) reactor \<Rightarrow> (epoll_ptr \<times> 32 word) list \<Rightarrow> 'w \<Rightarrow> bool" where
  "reports_work E r events w \<longleftrightarrow>
     list_ex is_descriptor (map fst (take 128 events))
     \<or> (timer_fd r = - 1 \<or> TimerFd \<in> set (map fst (take 128 events))) \<and> timer_due E r w"

text \<open>One of the next \<open>n\<close> blocking waits brings work; the ones before it return with no ready descriptor and no due
  timer (an interruption, the end of the time-out, a timer descriptor that fires early).\<close>

fun ready_within :: "('o, 'w) os_env \<Rightarrow> ('o, 'w) reactor \<Rightarrow> nat \<Rightarrow> 'w \<Rightarrow> bool" where
  "ready_within E r 0 w = False"
| "ready_within E r (Suc n) w =
     (case os_epoll_wait E (run_timeout E (- 1) (r\<lparr>os := w\<rparr>)) w of
        (events, w') \<Rightarrow> reports_work E r events w' \<or> ready_within E r n w')"

text \<open>Only the timers of the reactor count.\<close>

definition same_timers :: "('o, 'w) reactor \<Rightarrow> ('o, 'w) reactor \<Rightarrow> bool" where
  "same_timers r r' \<longleftrightarrow> timer_q r' = timer_q r \<and> timer_fd r' = timer_fd r"

lemma ready_within_timers:
  assumes "same_timers r r'"
  shows "ready_within E r' n w = ready_within E r n w"
proof (induction n arbitrary: w)
  case (Suc n)
  have "run_timeout E u (r'\<lparr>os := w\<rparr>) = run_timeout E u (r\<lparr>os := w\<rparr>)" for u
    using assms by (simp add: same_timers_def run_timeout_def get_timeout_msec_def Let_def)
  moreover have "reports_work E r' events v = reports_work E r events v" for events v
    using assms by (simp add: same_timers_def reports_work_def timer_due_def earliest_def)
  ultimately show ?case using Suc.IH by (simp split: prod.split)
qed simp

section \<open>One run of the reactor\<close>

text \<open>What a run leaves of the scheduler: operations are added to the private queue, and that is all.\<close>

definition only_adds :: "('o, 'w) rsched \<Rightarrow> ('o, 'w) rsched \<Rightarrow> bool" where
  "only_adds s s' \<longleftrightarrow> sched_queue s' = sched_queue s \<and> stopped s' = stopped s \<and> length (stack s') = length (stack s)
     \<and> (\<exists>more. private_op_queue (top_info s') = private_op_queue (top_info s) @ more)"

lemma only_adds_refl [simp]: "only_adds s s" "only_adds s (with_reactor f s)"
  by (simp_all add: only_adds_def with_reactor_def top_info_def)

lemma only_adds_trans: "only_adds s s1 \<Longrightarrow> only_adds s1 s2 \<Longrightarrow> only_adds s s2"
  unfolding only_adds_def by force

lemma only_adds_keeps: "only_adds s s' \<Longrightarrow> private_op_queue (top_info s) \<noteq> [] \<Longrightarrow> private_op_queue (top_info s') \<noteq> []"
  by (auto simp: only_adds_def)

lemma top_push_private:
  "stack s \<noteq> [] \<Longrightarrow> private_op_queue (top_info (push_private n ops s)) = private_op_queue (top_info s) @ ops"
  by (cases "stack s") (simp_all add: push_private_def upd_top_def top_info_def)

lemma push_private_adds: "stack s \<noteq> [] \<Longrightarrow> only_adds s (push_private n ops s)"
  unfolding only_adds_def by (simp add: top_push_private) (simp add: push_private_def)

lemma dispatch_event_effect:
  assumes "dispatch_event e (b, s) = (b', s')" "stack s \<noteq> []"
  shows "only_adds s s'" "same_timers (world s) (world s')" "os (world s') = os (world s)"
    "b' \<longleftrightarrow> b \<or> fst e = TimerFd \<or> fst e = Interrupter \<and> timer_fd (world s) = - 1"
    "is_descriptor (fst e) \<Longrightarrow> private_op_queue (top_info s') \<noteq> []"
proof -
  obtain p ev where e: "e = (p, ev)" by (cases e) auto
  have push: "only_adds s (with_reactor f (push_private 0 [Op (Descriptor d)] (set_ready_events d ev s)))" for f d
    using assms(2) push_private_adds [of "set_ready_events d ev s" 0 "[Op (Descriptor d)]"]
    by (simp add: only_adds_def with_reactor_def set_ready_events_def top_info_def)
  have top: "private_op_queue (top_info (with_reactor f (push_private 0 [Op (Descriptor d)] (set_ready_events d ev s)))) \<noteq> []" for f d
    using assms(2) top_push_private [of "set_ready_events d ev s" 0 "[Op (Descriptor d)]"]
    by (simp add: with_reactor_def set_ready_events_def top_info_def)
  have add: "only_adds s (add_ready_events d ev s)" "top_info (add_ready_events d ev s) = top_info s" for d
    by (simp_all add: only_adds_def add_ready_events_def top_info_def)
  have w: "world (push_private 0 ops (set_ready_events d ev s)) = world s" "world (add_ready_events d ev s) = world s" for d ops
    by (simp_all add: push_private_def set_ready_events_def add_ready_events_def)
  have all: "only_adds s s' \<and> same_timers (world s) (world s') \<and> os (world s') = os (world s)
    \<and> (b' \<longleftrightarrow> b \<or> fst e = TimerFd \<or> fst e = Interrupter \<and> timer_fd (world s) = - 1)
    \<and> (is_descriptor (fst e) \<longrightarrow> private_op_queue (top_info s') \<noteq> [])"
  proof (cases p)
    case (DescriptorPtr d)
    show ?thesis
    proof (cases "Op (Descriptor d) \<in> set (private_op_queue (top_info s))")
      case True
      then have "s' = add_ready_events d ev s" "b' = b" "private_op_queue (top_info s) \<noteq> []"
        using assms(1) by (auto simp: e DescriptorPtr)
      then show ?thesis using add by (simp add: e DescriptorPtr w same_timers_def)
    next
      case False
      then show ?thesis using assms(1) push top by (auto simp: e DescriptorPtr w same_timers_def)
    qed
  qed (use assms(1) in \<open>auto simp: e same_timers_def split: if_splits\<close>)
  then show "only_adds s s'" "same_timers (world s) (world s')" "os (world s') = os (world s)"
    "b' \<longleftrightarrow> b \<or> fst e = TimerFd \<or> fst e = Interrupter \<and> timer_fd (world s) = - 1"
    "is_descriptor (fst e) \<Longrightarrow> private_op_queue (top_info s') \<noteq> []" by blast+
qed

lemma dispatch_events_effect:
  assumes "fold dispatch_event es (b, s) = (b', s')" "stack s \<noteq> []"
  shows "only_adds s s' \<and> same_timers (world s) (world s') \<and> os (world s') = os (world s)
    \<and> (b \<or> TimerFd \<in> set (map fst es) \<longrightarrow> b')
    \<and> (list_ex is_descriptor (map fst es) \<longrightarrow> private_op_queue (top_info s') \<noteq> [])"
  using assms
proof (induction es arbitrary: b s)
  case (Cons e es)
  obtain b1 s1 where d: "dispatch_event e (b, s) = (b1, s1)" by (meson surj_pair)
  note one = dispatch_event_effect [OF d Cons.prems(2)]
  have "length (stack s1) = length (stack s)" using one(1) by (simp add: only_adds_def)
  then have "stack s1 \<noteq> []" using Cons.prems(2) by auto
  then have rest: "only_adds s1 s' \<and> same_timers (world s1) (world s') \<and> os (world s') = os (world s1)
    \<and> (b1 \<or> TimerFd \<in> set (map fst es) \<longrightarrow> b')
    \<and> (list_ex is_descriptor (map fst es) \<longrightarrow> private_op_queue (top_info s') \<noteq> [])"
    using Cons.IH [of b1 s1] Cons.prems(1) by (simp add: d)
  moreover have "only_adds s s'" using only_adds_trans one(1) rest by blast
  moreover have "is_descriptor (fst e) \<Longrightarrow> private_op_queue (top_info s') \<noteq> []"
    using one(5) only_adds_keeps rest by blast
  ultimately show ?case using one(2-4) by (auto simp: same_timers_def)
qed (simp add: same_timers_def)

text \<open>Due timers have operations to hand out; with none due the timer queue stays as it is.\<close>

lemma get_ready_timers_due:
  assumes inv: "tq_inv q" and due: "heap q \<noteq> []" "fst (heap q ! 0) \<le> now"
  obtains ops q' where "get_ready_timers now [] q = Some (ops, q')" "ops \<noteq> []"
proof -
  obtain es q' where r: "get_ready_timers now [] q = Some ([] @ concat (map (\<lambda>e. po q (snd e)) es), q')" "fired now (heap q) es"
    using get_ready_timers_ok [OF inv, of now "[]"] by metis
  let ?h = "heap q ! 0"
  have h: "?h \<in> set (heap q)" using due(1) by simp
  then have "?h \<in># mset es" using r(2) due(2) by (simp add: fired_def)
  moreover have "po q (snd ?h) \<noteq> []" using tq_invX_parts(3) [of "{}" q ?h] inv h by (auto simp: tq_inv_def)
  ultimately have "concat (map (\<lambda>e. po q (snd e)) es) \<noteq> []" by force
  then show ?thesis using that r(1) by simp
qed

lemma get_ready_timers_not_due:
  "heap q = [] \<or> now < fst (heap q ! 0) \<Longrightarrow> get_ready_timers now [] q = Some ([], q)"
  by (auto simp: get_ready_timers_def get_ready_loop.simps)

lemma check_timer_queue_effect:
  assumes inv: "tq_inv (timer_q (world s))" and st: "stack s \<noteq> []"
  shows "only_adds s (check_timer_queue E s)"
    "if timer_due E (world s) (os (world s)) then private_op_queue (top_info (check_timer_queue E s)) \<noteq> []
     else same_timers (world s) (world (check_timer_queue E s)) \<and> os (world (check_timer_queue E s)) = os (world s)"
proof -
  let ?q = "timer_q (world s)" let ?now = "os_now E (os (world s))"
  define u where "u = (\<lambda>ops q. push_private 0 (map (\<lambda>opn. Op (Operation opn)) ops) (with_reactor (taken ops q) s))"
  have c: "check_timer_queue E s = (if timer_fd (world (u ops q)) \<noteq> - 1
        then with_reactor (\<lambda>r. r\<lparr>timerfd_setting := get_timeout_timerfd E r\<rparr>) (u ops q) else u ops q)"
    if "get_ready_timers ?now [] ?q = Some (ops, q)" for ops q
    using that by (simp add: check_timer_queue_def u_def Let_def)
  have u: "only_adds s (u ops q)" for ops q
    unfolding u_def using st only_adds_trans [OF only_adds_refl(2) push_private_adds] by simp
  have top: "private_op_queue (top_info (u ops q)) = private_op_queue (top_info s) @ map (\<lambda>opn. Op (Operation opn)) ops" for ops q
    unfolding u_def using st by (simp add: top_push_private) (simp add: top_info_def)
  have adds: "only_adds s (check_timer_queue E s)" "top_info (check_timer_queue E s) = top_info (u ops q)"
    if "get_ready_timers ?now [] ?q = Some (ops, q)" for ops q
    using u only_adds_trans [OF u only_adds_refl(2)] by (simp_all add: c [OF that] top_info_def)
  obtain ops q where "get_ready_timers ?now [] ?q = Some (ops, q)"
    using get_ready_timers_ok [OF inv, of ?now "[]"] by blast
  then show "only_adds s (check_timer_queue E s)" by (rule adds(1))
  show "if timer_due E (world s) (os (world s)) then private_op_queue (top_info (check_timer_queue E s)) \<noteq> []
     else same_timers (world s) (world (check_timer_queue E s)) \<and> os (world (check_timer_queue E s)) = os (world s)"
  proof (cases "timer_due E (world s) (os (world s))")
    case True
    then obtain ops q where g: "get_ready_timers ?now [] ?q = Some (ops, q)" "ops \<noteq> []"
      using get_ready_timers_due [OF inv, of ?now] by (auto simp: timer_due_def earliest_def)
    then show ?thesis using adds(2) [OF g(1)] top True by simp
  next
    case False
    then have g: "get_ready_timers ?now [] ?q = Some ([], ?q)"
      by (intro get_ready_timers_not_due) (auto simp: timer_due_def earliest_def)
    have "same_timers (world s) (world (u [] ?q))" "os (world (u [] ?q)) = os (world s)"
      by (simp_all add: u_def push_private_def taken_def same_timers_def)
    then show ?thesis using False by (simp add: c [OF g] same_timers_def)
  qed
qed

text \<open>A blocking run brings an operation, or what it waits for is one wait nearer.\<close>

definition reactor_soon :: "('o, 'w) os_env \<Rightarrow> nat \<Rightarrow> ('o, 'w) reactor \<Rightarrow> bool" where
  "reactor_soon E n r \<longleftrightarrow> tq_inv (timer_q r) \<and> ready_within E r n (os r)"

lemma dispatch_queue: "sched_queue (snd (fold dispatch_event es acc)) = sched_queue (snd acc)"
proof (induction es arbitrary: acc)
  case (Cons e es)
  have "sched_queue (snd (dispatch_event e acc)) = sched_queue (snd acc)"
    by (cases "(e, acc)" rule: dispatch_event.cases)
      (auto simp: with_reactor_def push_private_def set_ready_events_def add_ready_events_def)
  then show ?case using Cons.IH by simp
qed simp

lemma reactor_run_queue: "sched_queue (reactor_run E usec s) = sched_queue s"
proof -
  obtain events w where e: "os_epoll_wait E (run_timeout E usec (world s)) (os (world s)) = (events, w)"
    by (meson surj_pair)
  define s1 where "s1 = with_reactor (\<lambda>r. r\<lparr>os := w\<rparr>) s"
  obtain b s2 where f: "fold dispatch_event (take 128 events) (timer_fd (world s1) = - 1, s1) = (b, s2)"
    by (meson surj_pair)
  have "sched_queue s2 = sched_queue s"
    using dispatch_queue [of "take 128 events" "(timer_fd (world s1) = - 1, s1)", unfolded f]
    by (simp add: s1_def with_reactor_def)
  moreover have "sched_queue (check_timer_queue E s2) = sched_queue s2"
    by (simp add: check_timer_queue_def push_private_def with_reactor_def Let_def split: option.split prod.split)
  ultimately show ?thesis unfolding reactor_run_def e prod.case Let_def s1_def [symmetric] f by simp
qed

lemma reactor_run_delivers:
  assumes st: "stack s \<noteq> []" and soon: "reactor_soon E (Suc n) (world s)"
  shows "private_op_queue (top_info (reactor_run E (- 1) s)) \<noteq> [] \<or> reactor_soon E n (world (reactor_run E (- 1) s))"
proof -
  obtain events w where e: "os_epoll_wait E (run_timeout E (- 1) (world s)) (os (world s)) = (events, w)"
    by (meson surj_pair)
  have inv: "tq_inv (timer_q (world s))" and rep: "reports_work E (world s) events w \<or> ready_within E (world s) n w"
    using soon e by (simp_all add: reactor_soon_def)
  define s1 where "s1 = with_reactor (\<lambda>r. r\<lparr>os := w\<rparr>) s"
  have s1: "stack s1 \<noteq> []" "same_timers (world s) (world s1)" "os (world s1) = w"
    using st by (simp_all add: s1_def same_timers_def)
  obtain b s2 where f: "fold dispatch_event (take 128 events) (timer_fd (world s1) = - 1, s1) = (b, s2)"
    by (meson surj_pair)
  note d = dispatch_events_effect [OF f s1(1)]
  have run: "reactor_run E (- 1) s = (if b then check_timer_queue E s2 else s2)"
    unfolding reactor_run_def e prod.case Let_def s1_def [symmetric] f ..
  have s2: "stack s2 \<noteq> []" "same_timers (world s) (world s2)" "os (world s2) = w"
    using d s1 by (auto simp: only_adds_def same_timers_def)
  have inv2: "tq_inv (timer_q (world s2))" using inv s2(2) by (simp add: same_timers_def)
  note c = check_timer_queue_effect [OF inv2 s2(1), of E]
  have due: "timer_due E (world s2) w = timer_due E (world s) w"
    using s2(2) by (simp add: timer_due_def earliest_def same_timers_def)
  consider (descriptor) "list_ex is_descriptor (map fst (take 128 events))"
    | (timer) b "timer_due E (world s) w" | (later) "ready_within E (world s) n w" "\<not> (b \<and> timer_due E (world s) w)"
    using rep d s1(2) by (auto simp: reports_work_def same_timers_def)
  then show ?thesis
  proof cases
    case descriptor
    then have "private_op_queue (top_info s2) \<noteq> []" using d by blast
    then show ?thesis using only_adds_keeps [OF c(1)] by (simp add: run)
  next
    case timer
    then show ?thesis using c(2) s2(3) due by (simp add: run)
  next
    case later
    have same: "same_timers (world s) (world (reactor_run E (- 1) s))" and w: "os (world (reactor_run E (- 1) s)) = w"
      using later(2) c(2) s2 due by (cases b; auto simp: run same_timers_def)+
    have "timer_q (world (reactor_run E (- 1) s)) = timer_q (world s)" using same by (simp add: same_timers_def)
    then show ?thesis using later(1) inv ready_within_timers [OF same, of E n w] by (simp add: reactor_soon_def w)
  qed
qed

section \<open>The contract, and progress\<close>

interpretation live: scheduler_live "reactor_env E script" waits_in_hand "reactor_soon E"
proof unfold_locales
  fix usec threw and s s' :: "('a, 'b) rsched"
  assume "env_run_task (reactor_env E script) usec s = (threw, s')"
  then show "\<exists>more. sched_queue s' = sched_queue s @ more" by (auto simp: reactor_env_def reactor_run_queue)
next
  fix n and s s' :: "('a, 'b) rsched"
  assume "env_run_task (reactor_env E script) (- 1) s = (False, s')" "stack s \<noteq> []" "reactor_soon E (Suc n) (world s)"
  then show "stopped s' \<or> private_op_queue (top_info s') \<noteq> [] \<or> sched_queue s' \<noteq> [] \<or> reactor_soon E n (world s')"
    using reactor_run_delivers [of s E n] by (auto simp: reactor_env_def)
qed (simp add: reactor_soon_def)

text \<open>C39: With the reactor as its task, a scheduler that runs in one thread makes progress. Whatever the handlers do,
  if the queue is not just the task, or one of the next \<open>n\<close> calls of \<open>epoll_wait\<close> reports a ready descriptor or comes
  back when a timer is due (the others may be woken for nothing), \<open>do_run_one\<close> returns, and it returns after running
  exactly one operation of the queue (a handler, or a ready descriptor), unless it threw or the scheduler was
  stopped: what the reactor was told reaches the queue, and the thread does not wait again with it there.\<close>

theorem do_run_one_makes_progress:
  assumes "sched_ok waits_in_hand k 0 True s" and "clean s" and "has_task s" and "tq_inv (timer_q (world s))"
    and "sched_queue s = [Task] \<Longrightarrow> ready_within E (world s) n (os (world s))"
  shows "\<exists>m threw s'. do_run_one (reactor_env E script) s = Some (m, threw, s') \<and> (m = 1 \<or> threw \<or> stopped s')"
  by (rule live.do_run_one_returns [OF assms(1-3), where waits = n]) (use assms(4,5) in \<open>simp add: reactor_soon_def\<close>)

text \<open>The system wakes the reactor twice for nothing, then reports that descriptor 0 can be read; a read waits there.\<close>

definition slow_os :: "(nat, nat) os_env" where
  "slow_os = \<lparr>os_perform = (\<lambda>_ w. (Done, ec_success, 1, w)), os_epoll_ctl = (\<lambda>_ _ _ _ w. (0, w)),
     os_epoll_wait = (\<lambda>_ w. (if w < 2 then [(Interrupter, EPOLLIN)] else [(DescriptorPtr 0, EPOLLIN)], w + 1)),
     os_now = (\<lambda>_. 0), os_interrupter = 3\<rparr>"

definition waiting_sched :: "(nat, nat) rsched" where
  "waiting_sched = (new_sched hint_default ((new_reactor 4 (\<lambda>_. 0) 0)\<lparr>
     states := [\<lparr>descriptor = 5, registered_events = registration_events, op_queue_of = (\<lambda>_. [])(ReadOp := [8]),
       try_speculative = (\<lambda>_. False), ds_shutdown = False\<rparr>], live_list := [0]\<rparr>))
     \<lparr>has_task := True, sched_queue := [Task], outstanding_work := 1\<rparr>"

theorem do_run_one_makes_progress_witness:
  "\<exists>m threw s'. do_run_one (reactor_env slow_os (\<lambda>_ _. ([], False))) (enter waiting_sched) = Some (m, threw, s')
    \<and> (m = 1 \<or> threw \<or> stopped s')"
proof (rule do_run_one_makes_progress [where n = 3])
  have w: "sched_ok waits_in_hand 0 0 False waiting_sched"
    by (simp add: waiting_sched_def sched_ok_def ledger_def new_sched_def hold_def waits_in_hand_def waiting_ops_def
        new_reactor_def state_ops_def op_types_def)
  show "sched_ok waits_in_hand 0 0 True (enter waiting_sched)" "clean (enter waiting_sched)"
    by (rule scheduler_client.enter_ok(1,2) [OF reactor.scheduler_client_axioms w])+
  show "has_task (enter waiting_sched)" by (simp add: enter_def waiting_sched_def)
  have r: "timer_q (world waiting_sched) = new_timer_queue (\<lambda>_. ec_success)" "os (world waiting_sched) = 0"
    by (simp_all add: waiting_sched_def new_reactor_def new_sched_def)
  then show "tq_inv (timer_q (world (enter waiting_sched)))" by (simp add: enter_def new_timer_queue_inv)
  show "ready_within slow_os (world (enter waiting_sched)) 3 (os (world (enter waiting_sched)))"
    by (simp add: enter_def r slow_os_def reports_work_def numeral_3_eq_3)
qed

end
