(* ===== verification/Spec2Isabelle.thy ===== *)
theory Spec2Isabelle
  imports LightThread OpQueue TimerSpec SchedulerSpec IpSpec NetworkParse ConnectSpec EventLoopSpec
    ComposedSpec SocketClose StrandSpec StreambufSpec ReadUntilSpec TimerServiceSpec ResolverSpec SignalsSpec RegistrySpec DatagramSpec
    ChannelSpec EpollLive
begin

text \<open>
  LuaAsio: asynchronous network I/O for Lua, as \<^verbatim>\<open>src/asio.lua\<close> over a C interface, \<^verbatim>\<open>src/luaAsio.cpp\<close>, over
  the vendored asio 1.24 (\<^verbatim>\<open>src/asio-1.24.0/asio\<close>). This development models the program from the Lua
  thread that calls \<open>con:read(n)\<close> down to the operations the reactor performs on a descriptor.

  \<^bold>\<open>How the parts interact.\<close> A light thread calls a blocking function of \<^verbatim>\<open>asio.lua\<close>; that starts one
  operation through the C interface and yields. The C interface starts an asio operation whose handler
  will push an event into one queue. \<open>asio.run\<close> calls \<open>asio_get\<close>, which takes an event from the queue or
  runs the \<open>io_context\<close> (the scheduler) for one handler; \<open>_evt_disp\<close> resumes the thread the event is for.
  The scheduler runs completed operations and its task, the reactor; the reactor waits for descriptors and
  timers and gives completed operations back to the scheduler.

  \<^bold>\<open>Theories and what they model.\<close>

  \<^item> \<open>Prelude\<close>: fact collections, list lemmas, Lua tables used as arrays.
  \<^item> \<open>LightThread\<close>: the thread tables of \<^verbatim>\<open>asio.lua\<close> (\<open>th_tbl\<close>, \<open>th_free_id\<close>, \<open>th_to_id\<close>) and their functions; the
    contract \<open>thread_registry\<close>.
  \<^item> \<open>EventLoop\<close>, \<open>EventLoopSpec\<close>: connections, dispatch and the loops of \<^verbatim>\<open>asio.lua\<close>; a call starts one
    operation, the handler of its completion resumes the caller with its answer, what \<open>run\<close> loses.
  \<^item> \<open>LuaAsio\<close>, \<open>LuaAsioInv\<close>, \<open>LuaAsioRun\<close>, \<open>LuaAsioSpec\<close>, \<open>LuaLastOp\<close>, \<open>ConnectSpec\<close>: \<^verbatim>\<open>luaAsio.cpp\<close>: event queue,
    connections, servers, timers and the C functions, run on the scheduler; \<open>asio_get\<close> runs at most one handler, of a
    completion that answers a request in progress, and loses none.
  \<^item> \<open>Buffers\<close>, \<open>BufferViews\<close>, \<open>ComposedOps\<close>, \<open>ComposedSpec\<close>: buffer sequences and \<open>read\<close>, \<open>write\<close>, \<open>async_read\<close>,
    \<open>async_write\<close> over any view that keeps the contract \<open>consuming_view\<close> (the general one, one buffer, two).
  \<^item> \<open>DynBuffer\<close>, \<open>DynContract\<close>, \<open>StreambufSpec\<close>: \<open>dynamic_string_buffer\<close>, \<open>dynamic_vector_buffer\<close> and
    \<open>basic_streambuf\<close>, three interpretations of the contract \<open>dynamic_buffer\<close>; a stream buffer as a queue of bytes.
  \<^item> \<open>ReadUntil\<close>, \<open>ReadUntilSpec\<close>: \<^verbatim>\<open>impl/read_until.hpp\<close>; the contract \<open>incremental_search\<close> (for a character, a
    string, or any match condition that keeps it) and, in \<open>reading\<close>, what the operations return.
  \<^item> \<open>Scheduler\<close>, \<open>SchedulerRun\<close>, \<open>SchedulerInv\<close>, \<open>SchedulerClient\<close>, \<open>SchedulerLoops\<close>, \<open>SchedulerSpec\<close>:
    \<^verbatim>\<open>detail/impl/scheduler.ipp\<close> with its lock, event and concurrency hints, the run functions up to
    \<open>io_context::run_one_until\<close>; the contracts \<open>scheduler_handlers\<close>, \<open>scheduler_client\<close>, \<open>scheduler_live\<close>.
  \<^item> \<open>EpollReactor\<close>, \<open>EpollRun\<close>, \<open>EpollInv\<close>, \<open>EpollSpec\<close>, \<open>EpollClose\<close>, \<open>EpollLive\<close>: \<^verbatim>\<open>detail/impl/epoll_reactor.ipp\<close>,
    an interpretation of \<open>scheduler_client\<close> and \<open>scheduler_live\<close> for handlers that make any calls to it and any
    operating system; what performing does is stated by the trace of its calls to the operating system.
  \<^item> \<open>SocketOps\<close>, \<open>SocketLoops\<close>, \<open>Datagram\<close>, \<open>SocketPerform\<close>, \<open>SocketSpec\<close>, \<open>SyncSpec\<close>: the wrappers of system calls and the retry loops of
    \<^verbatim>\<open>detail/impl/socket_ops.ipp\<close>, the reactor operations made of them (\<^verbatim>\<open>detail/reactive_socket_*_op.hpp\<close>),
    and what they return as a relation to what the kernel answers.
  \<^item> \<open>SocketService\<close>, \<open>DatagramService\<close>, \<open>SocketModes\<close>, \<open>ServiceSpec\<close>, \<open>SocketClose\<close>, \<open>DatagramSpec\<close>: the socket objects
    of \<^verbatim>\<open>detail/impl/reactive_socket_service_base.ipp\<close> and its headers on the reactor: modes, starting, opening and closing,
    accepted sockets, datagrams, waiting, cancellation of one operation.
  \<^item> \<open>Strand\<close>, \<open>StrandInv\<close>, \<open>StrandSpec\<close>: the strands of \<^verbatim>\<open>detail/impl/strand_executor_service.{hpp,ipp}\<close> and
    \<^verbatim>\<open>detail/impl/strand_service.{hpp,ipp}\<close> as a step relation for any number of threads: mutual exclusion,
    refinement of a first-in first-out queue, progress.
  \<^item> \<open>BinHeap\<close>, \<open>DList\<close>, \<open>TimerQueue\<close>, \<open>TimerQueueInv\<close>, \<open>TimerQueueOps\<close>, \<open>TimerQueueMove\<close>, \<open>TimerContract\<close>,
    \<open>TimerSpec\<close>, \<open>TimerTraits\<close>: \<^verbatim>\<open>detail/timer_queue.hpp\<close> with its index heap and list of timers, the contract
    \<open>timer_store\<close>, and the clock arithmetic of \<^verbatim>\<open>detail/chrono_time_traits.hpp\<close>.
  \<^item> \<open>TimerService\<close>, \<open>TimerServiceInv\<close>, \<open>TimerServiceSpec\<close>: the timer objects of \<^verbatim>\<open>detail/deadline_timer_service.hpp\<close>
    on the reactor's timers, in every history of calls and runs; the blocking wait.
  \<^item> \<open>Resolver\<close>, \<open>ResolverSpec\<close>: name resolution, \<^verbatim>\<open>detail/impl/resolver_service_base.ipp\<close>, \<^verbatim>\<open>detail/resolver_service.hpp\<close>
    and \<^verbatim>\<open>ip/basic_resolver_*.hpp\<close>: results and their iterator, and the history of asynchronous resolutions between
    the program's scheduler and the background thread's.
  \<^item> \<open>Signals\<close>, \<open>SignalsInv\<close>, \<open>SignalsSpec\<close>: \<^verbatim>\<open>detail/impl/signal_set_service.ipp\<close>: the registry of the process, the services
    with their tables, sets, waits and delivery; every history keeps them consistent, and a set refines a finite map
    of counts and a queue.
  \<^item> \<open>ServiceRegistry\<close>, \<open>RegistrySpec\<close>: \<^verbatim>\<open>detail/impl/service_registry.ipp\<close>: the services of a context, how they get one
    another, and the order in which they are shut down, destroyed and told of a fork.
  \<^item> \<open>Channel\<close>, \<open>ChannelSpec\<close>: \<^verbatim>\<open>experimental/detail/impl/channel_service.hpp\<close>: a channel as a bounded queue in every history
    of calls, and the calls after which the code confuses its waiting operations.
  \<^item> \<open>OpQueue\<close>: \<^verbatim>\<open>detail/op_queue.hpp\<close> over an explicit store of \<open>next_\<close> pointers; the contract \<open>fifo_store\<close>
    justifies the lists that stand for operation queues elsewhere.
  \<^item> \<open>ErrorCode\<close>: \<^verbatim>\<open>error.hpp\<close> and \<^verbatim>\<open>impl/error.ipp\<close>.
  \<^item> \<open>IpAddress\<close>, \<open>IpSpec\<close>, \<open>Network\<close>, \<open>NetworkSpec\<close>, \<open>NetworkParse\<close>: addresses, endpoints, iterators, networks and
    ranges of \<^verbatim>\<open>asio/ip\<close>, on bytes and machine words.

  \<^bold>\<open>State and operations.\<close> A class is a record of its data members, a member function a function from the
  old state to its result and the new state; an exception is a flag or a sum value. Pointers are positions or
  identities, null is \<open>None\<close>. The scheduler's record has a field \<open>world\<close> for what runs on it: the application
  of \<^verbatim>\<open>luaAsio.cpp\<close>, or the reactor. Machine integers keep their width where the code depends on it (words, or
  \<open>mod\<close> written out).

  \<^bold>\<open>What the lemmas show.\<close> Per component: an invariant that each operation keeps, the effect of each
  operation on every branch, and that its loops end. Across components: the books of outstanding work balance
  through every run function for every client that keeps the contract (so \<open>run\<close> stops when, and only when,
  nothing is left to do); no operation of the reactor or timer queue is lost or completed twice; composed
  operations transfer the bytes in order, and find a delimiter where a search of all the data would; a socket operation takes one answer of the kernel, and the descriptors
  it runs on are non-blocking; each blocking Lua call is resumed with its own answer.

  \<^bold>\<open>Bounds and fuel.\<close> Loops that end are total functions, or \<open>partial_function (option)\<close> with a theorem that
  they return (\<open>get_ready_timers\<close>, \<open>oq_destroy\<close>, and \<open>timer_wait_loop\<close> when the clock moves on); the scheduler's loops may run for ever and stay partial,
  and so do the retry loops of socket operations, which return exactly if the kernel gives a final answer.
  \<open>scheduler::shutdown\<close> has fuel, the length of the queue it destroys. \<open>do_run_one\<close> on the reactor returns if one of the
  next \<open>n\<close> blocking waits brings something to do (\<open>ready_within\<close>), for any \<open>n\<close>.

  \<^bold>\<open>Parameters.\<close> The text forms of addresses (\<open>inet_pton\<close>, \<open>inet_ntop\<close>), \<open>getaddrinfo\<close> and \<open>getnameinfo\<close> (\<open>name_env\<close>),
  \<open>sigaction\<close> and \<open>pipe\<close> (\<open>signal_env\<close>), \<open>strerror\<close>, the clock, the other system calls (\<open>os_env\<close> of the reactor,
  \<open>sys_env\<close> of the sockets), the bodies of handlers and Lua threads, and what the constructors of services do.

  \<^bold>\<open>Not modelled.\<close> More than one thread acting at a time outside strands (the scheduler's locks are modelled, the
  interleavings are what other threads may do while one sleeps), memory allocation of handlers, SSL, the Windows back end and
  \<open>io_uring\<close>, executors and coroutines, serial ports and files, and the template machinery that only forwards.
\<close>

end
